(* ===== verification/Go_Prelude.thy ===== *)
theory Go_Prelude
  imports Main "HOL-Library.Word" "HOL-Library.Sublist"
begin

text \<open>
  Shared vocabulary of the development: the parts of Go's language and standard library that the
  mail server's packages use, and the generic lemmas on lists, options and step relations on which
  the component theories rest.

  \<^item> A Go \<open>string\<close> or \<open>[]byte\<close> is a HOL \<open>string\<close>, one \<open>char\<close> per byte, so that \<open>len\<close> is
    \<open>length\<close>. Case mapping and white-space trimming (\<open>strings.ToLower\<close>, \<open>strings.TrimSpace\<close>,
    \<open>strings.EqualFold\<close>) are those of the ASCII range; bytes above 127 are left alone.
  \<^item> A point in time (\<open>time.Time\<close>) and a \<open>time.Duration\<close> are integers, in nanoseconds; the zero
    time is the option \<open>None\<close> in the fields whose zero value the code tests.
  \<^item> The clock, random numbers and the failure of an external call are arguments of an operation.
  \<^item> \<open>int64\<close> arithmetic that may wrap is written with \<open>wrap64\<close>.
\<close>

section \<open>Collections of rewrite rules\<close>

named_theorems go_strings \<open>definitions of the strings package\<close>
named_theorems go_time \<open>durations\<close>

section \<open>Results, durations and fixed-width integers\<close>

type_synonym ('e, 'a) result = "'e + 'a"
type_synonym time = int
type_synonym duration = int

definition Second :: duration where [go_time]: "Second = 1000000000"
definition Millisecond :: duration where [go_time]: "Millisecond = 1000000"
definition Minute :: duration where [go_time]: "Minute = 60 * Second"
definition Hour :: duration where [go_time]: "Hour = 60 * Minute"

text \<open>The value of \<open>CURRENT_TIMESTAMP\<close> in SQLite: the time at a resolution of one second.\<close>

definition truncate_second :: "time \<Rightarrow> time" where
  "truncate_second t = t - t mod Second"

definition wrap64 :: "int \<Rightarrow> int" where
  "wrap64 x = (x + 2 ^ 63) mod 2 ^ 64 - 2 ^ 63"

lemma wrap64_id: "- (2 ^ 63) \<le> x \<Longrightarrow> x < 2 ^ 63 \<Longrightarrow> wrap64 x = x"
  by (simp add: wrap64_def)

lemma wrap64_range: "- (2 ^ 63) \<le> wrap64 x \<and> wrap64 x < 2 ^ 63"
proof -
  define m where "m = (x + 2 ^ 63) mod (2 ^ 64)"
  have "0 \<le> m \<and> m < 2 ^ 64" by (simp add: m_def)
  then show ?thesis unfolding wrap64_def m_def [symmetric] by auto
qed

section \<open>Package strings\<close>

definition HasPrefix :: "string \<Rightarrow> string \<Rightarrow> bool" where
  "HasPrefix s p \<longleftrightarrow> take (length p) s = p"

definition HasSuffix :: "string \<Rightarrow> string \<Rightarrow> bool" where
  "HasSuffix s p \<longleftrightarrow> length p \<le> length s \<and> drop (length s - length p) s = p"

fun Index :: "string \<Rightarrow> string \<Rightarrow> nat option" where
  "Index [] p = (if p = [] then Some 0 else None)"
| "Index (c # s) p = (if HasPrefix (c # s) p then Some 0 else map_option Suc (Index s p))"

fun LastIndex :: "string \<Rightarrow> string \<Rightarrow> nat option" where
  "LastIndex [] p = (if p = [] then Some 0 else None)"
| "LastIndex (c # s) p =
     (case LastIndex s p of
        Some i \<Rightarrow> Some (Suc i)
      | None \<Rightarrow> (if HasPrefix (c # s) p then Some 0 else None))"

definition Contains :: "string \<Rightarrow> string \<Rightarrow> bool" where
  "Contains s p \<longleftrightarrow> Index s p \<noteq> None"

definition TrimPrefix :: "string \<Rightarrow> string \<Rightarrow> string" where
  "TrimPrefix s p = (if HasPrefix s p then drop (length p) s else s)"

definition TrimSuffix :: "string \<Rightarrow> string \<Rightarrow> string" where
  "TrimSuffix s p = (if HasSuffix s p then take (length s - length p) s else s)"

definition lower_char :: "char \<Rightarrow> char" where
  "lower_char c = (let n = (of_char c :: nat) in if 65 \<le> n \<and> n \<le> 90 then char_of (n + 32) else c)"

definition ToLower :: "string \<Rightarrow> string" where
  "ToLower s = map lower_char s"

definition EqualFold :: "string \<Rightarrow> string \<Rightarrow> bool" where
  "EqualFold s t \<longleftrightarrow> ToLower s = ToLower t"

definition is_space :: "char \<Rightarrow> bool" where
  "is_space c \<longleftrightarrow> (let n = (of_char c :: nat) in n = 32 \<or> 9 \<le> n \<and> n \<le> 13)"

definition TrimSpace :: "string \<Rightarrow> string" where
  "TrimSpace s = rev (dropWhile is_space (rev (dropWhile is_space s)))"

text \<open>\<open>strings.Split\<close> with a separator of one byte, and \<open>strings.SplitN\<close> with a bound of two.\<close>

fun Split :: "string \<Rightarrow> char \<Rightarrow> string list" where
  "Split [] c = [[]]"
| "Split (x # s) c =
     (if x = c then [] # Split s c
      else (case Split s c of [] \<Rightarrow> [[x]] | p # ps \<Rightarrow> (x # p) # ps))"

fun SplitN2 :: "string \<Rightarrow> char \<Rightarrow> string list" where
  "SplitN2 [] c = [[]]"
| "SplitN2 (x # s) c =
     (if x = c then [[], s]
      else (case SplitN2 s c of [] \<Rightarrow> [[x]] | p # ps \<Rightarrow> (x # p) # ps))"

fun Join :: "string list \<Rightarrow> string \<Rightarrow> string" where
  "Join [] sep = []"
| "Join [s] sep = s"
| "Join (s # t # ss) sep = s @ sep @ Join (t # ss) sep"

text \<open>\<open>strings.ReplaceAll\<close>: left to right, without overlaps; every call of the code has a non-empty
  \<open>old\<close>. The second argument counts the bytes of a match still to be skipped.\<close>

fun replace_from :: "string \<Rightarrow> nat \<Rightarrow> string \<Rightarrow> string \<Rightarrow> string" where
  "replace_from [] k old new = []"
| "replace_from (c # s) (Suc k) old new = replace_from s k old new"
| "replace_from (c # s) 0 old new =
     (if HasPrefix (c # s) old then new @ replace_from s (length old - 1) old new
      else c # replace_from s 0 old new)"

definition ReplaceAll :: "string \<Rightarrow> string \<Rightarrow> string \<Rightarrow> string" where
  "ReplaceAll s old new = replace_from s 0 old new"

text \<open>The verb \<open>%d\<close> of package fmt, and decimal digits.\<close>

definition digit_char :: "nat \<Rightarrow> char" where
  "digit_char d = char_of (48 + d)"

fun show_nat :: "nat \<Rightarrow> string" where
  "show_nat n = (if n < 10 then [digit_char n] else show_nat (n div 10) @ [digit_char (n mod 10)])"

declare show_nat.simps [simp del]

definition show_int :: "int \<Rightarrow> string" where
  "show_int i = (if i < 0 then CHR ''-'' # show_nat (nat (- i)) else show_nat (nat i))"

definition is_digit :: "char \<Rightarrow> bool" where
  "is_digit c \<longleftrightarrow> (let n = (of_char c :: nat) in 48 \<le> n \<and> n \<le> 57)"

definition digit_val :: "char \<Rightarrow> nat" where
  "digit_val c = of_char c - 48"

fun parse_digits :: "nat \<Rightarrow> string \<Rightarrow> nat option" where
  "parse_digits acc [] = Some acc"
| "parse_digits acc (c # s) = (if is_digit c then parse_digits (acc * 10 + digit_val c) s else None)"

text \<open>\<open>strconv.ParseInt(s, 10, 64)\<close> and \<open>strconv.Atoi\<close>: an optional sign, at least one digit, and a
  value in the 64-bit range; \<open>None\<close> is the error.\<close>

definition ParseInt64 :: "string \<Rightarrow> int option" where
  "ParseInt64 s =
     (let (neg, ds) = (case s of [] \<Rightarrow> (False, [])
                       | c # t \<Rightarrow> if c = CHR ''-'' then (True, t) else if c = CHR ''+'' then (False, t)
                                 else (False, s))
      in if ds = [] then None
         else (case parse_digits 0 ds of
                 None \<Rightarrow> None
               | Some n \<Rightarrow>
                   (let v = (if neg then - int n else int n)
                    in if - (2 ^ 63) \<le> v \<and> v < 2 ^ 63 then Some v else None)))"

section \<open>Lemmas on strings\<close>

lemma HasPrefix_iff: "HasPrefix s p \<longleftrightarrow> (\<exists>t. s = p @ t)"
proof
  assume "HasPrefix s p"
  then have "s = p @ drop (length p) s" by (metis HasPrefix_def append_take_drop_id)
  then show "\<exists>t. s = p @ t" ..
qed (auto simp: HasPrefix_def)

lemma HasPrefix_simps [simp]:
  "HasPrefix s []"
  "\<not> HasPrefix [] (c # p)"
  "HasPrefix (c # s) (d # p) \<longleftrightarrow> c = d \<and> HasPrefix s p"
  by (auto simp: HasPrefix_def)

lemma HasPrefix_append [simp]: "HasPrefix (p @ s) p"
  by (simp add: HasPrefix_def)

lemma HasPrefix_refl [simp]: "HasPrefix s s"
  by (simp add: HasPrefix_def)

lemma HasPrefix_trans: "HasPrefix s p \<Longrightarrow> HasPrefix p q \<Longrightarrow> HasPrefix s q"
  by (auto simp: HasPrefix_iff)

lemma Index_Some: "Index s p = Some i \<Longrightarrow> \<exists>a b. s = a @ p @ b \<and> length a = i"
proof (induction s arbitrary: i)
  case Nil
  then show ?case by (simp split: if_splits)
next
  case (Cons c s)
  show ?case
  proof (cases "HasPrefix (c # s) p")
    case True
    with Cons.prems have "i = 0" by simp
    with True show ?thesis by (auto simp: HasPrefix_iff)
  next
    case False
    with Cons.prems obtain j where "Index s p = Some j" and i: "i = Suc j" by auto
    from Cons.IH [OF this(1)] obtain a b where "s = a @ p @ b" "length a = j" by auto
    then have "c # s = (c # a) @ p @ b \<and> length (c # a) = i" by (simp add: i)
    then show ?thesis by blast
  qed
qed

lemma Index_append: "Index (a @ p @ b) p \<noteq> None"
proof (induction a)
  case Nil
  show ?case by (cases p; cases b) auto
qed auto

lemma Contains_iff: "Contains s p \<longleftrightarrow> (\<exists>a b. s = a @ p @ b)"
  using Index_Some Index_append by (fastforce simp: Contains_def)

lemma Contains_length: "Contains s p \<Longrightarrow> length p \<le> length s"
proof -
  assume "Contains s p"
  then obtain a b where "s = a @ p @ b" unfolding Contains_iff by blast
  then show ?thesis by simp
qed

lemma Contains_prefix: "HasPrefix s p \<Longrightarrow> Contains s p"
  unfolding Contains_iff HasPrefix_iff by (metis append_Nil)

lemma Contains_char: "Contains s [c] \<longleftrightarrow> c \<in> set s"
  by (auto simp: Contains_iff in_set_conv_decomp)

lemma lower_char_idem [simp]: "lower_char (lower_char c) = lower_char c"
  by (auto simp: lower_char_def Let_def)

lemma ToLower_idem [simp]: "ToLower (ToLower s) = ToLower s"
  by (simp add: ToLower_def)

lemma length_ToLower [simp]: "length (ToLower s) = length s"
  by (simp add: ToLower_def)

lemma ToLower_append [simp]: "ToLower (s @ t) = ToLower s @ ToLower t"
  by (simp add: ToLower_def)

lemma ToLower_eq_Nil [simp]: "ToLower s = [] \<longleftrightarrow> s = []"
  by (simp add: ToLower_def)

lemma set_TrimSpace: "set (TrimSpace s) \<subseteq> set s"
  unfolding TrimSpace_def by (metis set_dropWhileD set_rev subsetI)

lemma lower_trim: "ToLower (TrimSpace (ToLower s)) = TrimSpace (ToLower s)"
proof -
  have "lower_char c = c" if "c \<in> set (TrimSpace (ToLower s))" for c
    using that set_TrimSpace [of "ToLower s"] by (auto simp: ToLower_def)
  then show ?thesis by (simp add: ToLower_def map_idI)
qed

lemma find_append: "find P (xs @ ys) = (case find P xs of None \<Rightarrow> find P ys | Some x \<Rightarrow> Some x)"
  by (induction xs) auto

lemma Split_not_Nil [simp]: "Split s c \<noteq> []"
  by (induction s) (auto split: list.splits)

lemma SplitN2_not_Nil [simp]: "SplitN2 s c \<noteq> []"
  by (induction s) (auto split: list.splits)

lemma SplitN2_notin: "c \<notin> set s \<Longrightarrow> SplitN2 s c = [s]"
  by (induction s) auto

lemma SplitN2_append: "c \<notin> set a \<Longrightarrow> SplitN2 (a @ c # b) c = [a, b]"
  by (induction a) auto

lemma SplitN2_cases:
  obtains "c \<notin> set s" "SplitN2 s c = [s]"
  | a b where "c \<notin> set a" "s = a @ c # b" "SplitN2 s c = [a, b]"
  by (metis SplitN2_append SplitN2_notin split_list_first)

lemma Split_notin: "p \<in> set (Split s c) \<Longrightarrow> c \<notin> set p"
  by (induction s arbitrary: p) (fastforce split: list.splits if_splits)+

lemma Join_Split: "Join (Split s c) [c] = s"
proof (induction s)
  case (Cons x s)
  obtain p ps where sp: "Split s c = p # ps" by (metis Split_not_Nil list.exhaust)
  with Cons show ?case by (cases ps) auto
qed simp

lemma Split_append_sep: "c \<notin> set p \<Longrightarrow> Split (p @ c # s) c = p # Split s c"
  by (induction p) auto

lemma Split_single: "c \<notin> set p \<Longrightarrow> Split p c = [p]"
  by (induction p) auto

lemma Split_Join:
  "ps \<noteq> [] \<Longrightarrow> (\<forall>p \<in> set ps. c \<notin> set p) \<Longrightarrow> Split (Join ps [c]) c = ps"
proof (induction ps rule: induct_list012)
  case (3 p q ps)
  then show ?case by (simp add: Split_append_sep)
qed (auto simp: Split_single)

section \<open>Decimal printing and reading\<close>

lemma digit_char_simps: "d < 10 \<Longrightarrow> is_digit (digit_char d) \<and> digit_val (digit_char d) = d"
proof -
  assume "d < 10"
  then have "d \<in> {0, 1, 2, 3, 4, 5, 6, 7, 8, 9}" by auto
  then show ?thesis by (auto simp: is_digit_def digit_val_def digit_char_def)
qed

lemma parse_digits_append: "parse_digits acc (s @ [c]) =
    (case parse_digits acc s of None \<Rightarrow> None | Some n \<Rightarrow> if is_digit c then Some (n * 10 + digit_val c) else None)"
  by (induction s arbitrary: acc) auto

lemma parse_show_nat: "parse_digits 0 (show_nat n) = Some n"
proof (induction n rule: show_nat.induct)
  case (1 n)
  then show ?case using digit_char_simps [of n] digit_char_simps [of "n mod 10"]
    by (subst show_nat.simps) (auto simp: parse_digits_append)
qed

lemma show_nat_digits: "c \<in> set (show_nat n) \<Longrightarrow> is_digit c"
proof (induction n rule: show_nat.induct)
  case (1 n)
  then show ?case using digit_char_simps [of n] digit_char_simps [of "n mod 10"]
    by (subst (asm) (2) show_nat.simps) (auto split: if_splits)
qed

lemma show_nat_not_Nil [simp]: "show_nat n \<noteq> []"
  by (subst show_nat.simps) simp

lemma show_nat_inj: "show_nat m = show_nat n \<longleftrightarrow> m = n"
  by (metis option.inject parse_show_nat)

lemma show_nat_hd: "0 < n \<Longrightarrow> hd (show_nat n) \<noteq> CHR ''0''"
proof (induction n rule: show_nat.induct)
  case (1 n)
  show ?case
  proof (cases "n < 10")
    case True
    then have "digit_val (digit_char n) = n" using digit_char_simps by blast
    moreover have "digit_val (CHR ''0'') = 0" by (simp add: digit_val_def)
    ultimately show ?thesis using True 1(2) by (subst show_nat.simps) auto
  next
    case False
    then have "hd (show_nat n) = hd (show_nat (n div 10))" by (subst show_nat.simps) simp
    with 1 False show ?thesis by simp
  qed
qed

lemma ParseInt64_show: "int n < 2 ^ 63 \<Longrightarrow> ParseInt64 (show_nat n) = Some (int n)"
proof -
  assume n: "int n < 2 ^ 63"
  obtain c t where s: "show_nat n = c # t" by (metis show_nat_not_Nil list.exhaust)
  then have "is_digit c" using show_nat_digits [of c n] by simp
  then have "c \<noteq> CHR ''-''" "c \<noteq> CHR ''+''" by (auto simp: is_digit_def)
  with s n parse_show_nat [of n] show ?thesis by (simp add: ParseInt64_def Let_def)
qed

lemma ParseInt64_show_big: "\<not> int n < 2 ^ 63 \<Longrightarrow> ParseInt64 (show_nat n) = None"
proof -
  assume n: "\<not> int n < 2 ^ 63"
  obtain c t where s: "show_nat n = c # t" by (metis show_nat_not_Nil list.exhaust)
  then have "is_digit c" using show_nat_digits [of c n] by simp
  then have "c \<noteq> CHR ''-''" "c \<noteq> CHR ''+''" by (auto simp: is_digit_def)
  with s n parse_show_nat [of n] show ?thesis by (simp add: ParseInt64_def Let_def)
qed

lemma TrimSpace_id: "s \<noteq> [] \<Longrightarrow> \<not> is_space (hd s) \<Longrightarrow> \<not> is_space (last s) \<Longrightarrow> TrimSpace s = s"
proof -
  assume a: "s \<noteq> []" "\<not> is_space (hd s)" "\<not> is_space (last s)"
  then have "dropWhile is_space s = s" by (cases s) auto
  moreover have "dropWhile is_space (rev s) = rev s" using a by (cases s rule: rev_cases) auto
  ultimately show ?thesis by (simp add: TrimSpace_def)
qed

lemma digit_not_space: "is_digit c \<Longrightarrow> \<not> is_space c"
  by (auto simp: is_digit_def is_space_def Let_def)

section \<open>Step relations and their invariants\<close>

text \<open>
  The contract of a component whose operations are steps of a state machine: a start state, a step
  relation and a predicate every step keeps. The client's lemma is that the predicate holds in every
  state a run reaches.
\<close>

locale step_invariant =
  fixes start :: "'s \<Rightarrow> bool"
    and step :: "'s \<Rightarrow> 's \<Rightarrow> bool"
    and inv :: "'s \<Rightarrow> bool"
  assumes inv_start: "start s \<Longrightarrow> inv s"
    and inv_step: "step s t \<Longrightarrow> inv s \<Longrightarrow> inv t"
begin

lemma inv_steps: "step\<^sup>*\<^sup>* s t \<Longrightarrow> inv s \<Longrightarrow> inv t"
  by (induction rule: rtranclp_induct) (auto intro: inv_step)

lemma inv_reachable: "start s \<Longrightarrow> step\<^sup>*\<^sup>* s t \<Longrightarrow> inv t"
  using inv_start inv_steps by blast

end

end
