(* ===== verification/Circuit_Breaker.thy ===== *)
theory Circuit_Breaker
  imports Go_Prelude "HOL-Library.AList"
begin

text \<open>
  Package \<^verbatim>\<open>internal/resilience\<close>: the circuit breaker that guards outbound delivery per domain, and
  the registry of breakers. The breaker is the record \<open>circuit_breaker\<close>; \<open>beforeRequest\<close>,
  \<open>afterRequest\<close>, \<open>transitionTo\<close> and \<open>Execute\<close> are state transformers that take the clock reading of
  the call. Concurrent requests are the step relation \<open>cb_step\<close>, in which any number of admitted
  requests is in flight and \<open>beforeRequest\<close> and \<open>afterRequest\<close> of different requests interleave.
\<close>

section \<open>States, errors, configuration\<close>

datatype State = StateClosed | StateOpen | StateHalfOpen

fun State_String :: "State \<Rightarrow> string" where
  "State_String StateClosed = ''closed''"
| "State_String StateOpen = ''open''"
| "State_String StateHalfOpen = ''half-open''"

text \<open>The errors \<open>Execute\<close> returns: the package's own, the context's, a recovered panic, or the error of
  the function it runs.\<close>

datatype 'e cb_error =
    ErrContextNil | ErrFunctionNil | ErrCircuitOpen | ErrCircuitTimeout
  | ErrContext string | ErrPanic string | ErrFn 'e

text \<open>\<open>OnStateChange\<close> is a flag: whether the callback is set.\<close>

record 'e cb_config =
  cfg_Name :: string
  FailureThreshold :: int
  SuccessThreshold :: int
  Timeout :: duration
  HalfOpenMaxCalls :: int
  ExecutionTimeout :: duration
  OnStateChange :: bool
  IsFailure :: "('e cb_error \<Rightarrow> bool) option"

definition DefaultConfig_cb :: "string \<Rightarrow> 'e cb_config" where
  "DefaultConfig_cb name =
     \<lparr>cfg_Name = name, FailureThreshold = 5, SuccessThreshold = 2, Timeout = 30 * Second,
      HalfOpenMaxCalls = 3, ExecutionTimeout = 10 * Second, OnStateChange = False, IsFailure = None\<rparr>"

text \<open>\<open>cb_callbacks\<close> records the callback launches of \<open>transitionTo\<close>, oldest first.\<close>

record 'e circuit_breaker =
  cb_config :: "'e cb_config"
  cb_state :: State
  failureCount :: int
  successCount :: int
  halfOpenCalls :: int
  lastFailureTime :: time
  lastStateChange :: time
  cb_callbacks :: "(string \<times> State \<times> State) list"

definition NewCircuitBreaker :: "'e cb_config \<Rightarrow> time \<Rightarrow> 'e circuit_breaker" where
  "NewCircuitBreaker cfg now =
     (let cfg1 = (if FailureThreshold cfg \<le> 0 then cfg\<lparr>FailureThreshold := 5\<rparr> else cfg);
          cfg2 = (if SuccessThreshold cfg1 \<le> 0 then cfg1\<lparr>SuccessThreshold := 2\<rparr> else cfg1);
          cfg3 = (if Timeout cfg2 \<le> 0 then cfg2\<lparr>Timeout := 30 * Second\<rparr> else cfg2);
          cfg4 = (if HalfOpenMaxCalls cfg3 \<le> 0 then cfg3\<lparr>HalfOpenMaxCalls := 3\<rparr> else cfg3)
      in \<lparr>cb_config = cfg4, cb_state = StateClosed, failureCount = 0, successCount = 0,
          halfOpenCalls = 0, lastFailureTime = 0, lastStateChange = now, cb_callbacks = []\<rparr>)"

section \<open>Operations\<close>

definition transitionTo :: "State \<Rightarrow> time \<Rightarrow> 'e circuit_breaker \<Rightarrow> 'e circuit_breaker" where
  "transitionTo newState now cb =
     (let oldState = cb_state cb
      in if oldState = newState then cb
         else cb\<lparr>failureCount := 0, successCount := 0, halfOpenCalls := 0,
                 lastStateChange := now, cb_state := newState,
                 cb_callbacks := cb_callbacks cb @
                   (if OnStateChange (cb_config cb)
                    then [(cfg_Name (cb_config cb), oldState, newState)] else [])\<rparr>)"

definition beforeRequest ::
    "time \<Rightarrow> 'e circuit_breaker \<Rightarrow> 'e circuit_breaker \<times> 'e cb_error option" where
  "beforeRequest now cb =
     (case cb_state cb of
        StateClosed \<Rightarrow> (cb, None)
      | StateOpen \<Rightarrow>
          (if now - lastFailureTime cb \<ge> Timeout (cb_config cb)
           then (transitionTo StateHalfOpen now cb, None)
           else (cb, Some ErrCircuitOpen))
      | StateHalfOpen \<Rightarrow>
          (let calls = halfOpenCalls cb + 1
           in if calls > HalfOpenMaxCalls (cb_config cb)
              then (cb\<lparr>halfOpenCalls := calls - 1\<rparr>, Some ErrCircuitOpen)
              else (cb\<lparr>halfOpenCalls := calls\<rparr>, None)))"

definition isFailure :: "'e circuit_breaker \<Rightarrow> 'e cb_error option \<Rightarrow> bool" where
  "isFailure cb err =
     (case err of
        None \<Rightarrow> False
      | Some e \<Rightarrow> (case IsFailure (cb_config cb) of None \<Rightarrow> True | Some f \<Rightarrow> f e))"

definition afterRequest ::
    "time \<Rightarrow> 'e cb_error option \<Rightarrow> 'e circuit_breaker \<Rightarrow> 'e circuit_breaker" where
  "afterRequest now err cb =
     (case cb_state cb of
        StateClosed \<Rightarrow>
          (if isFailure cb err
           then (let failures = failureCount cb + 1;
                     cb' = cb\<lparr>failureCount := failures, lastFailureTime := now\<rparr>
                 in if failures \<ge> FailureThreshold (cb_config cb)
                    then transitionTo StateOpen now cb' else cb')
           else cb\<lparr>failureCount := 0\<rparr>)
      | StateHalfOpen \<Rightarrow>
          (let cb1 = cb\<lparr>halfOpenCalls := halfOpenCalls cb - 1\<rparr>
           in if isFailure cb err
              then transitionTo StateOpen now (cb1\<lparr>lastFailureTime := now\<rparr>)
              else (let successes = successCount cb1 + 1;
                        cb2 = cb1\<lparr>successCount := successes\<rparr>
                    in if successes \<ge> SuccessThreshold (cb_config cb)
                       then transitionTo StateClosed now cb2 else cb2))
      | StateOpen \<Rightarrow> (if isFailure cb err then cb\<lparr>lastFailureTime := now\<rparr> else cb))"

text \<open>What the select of \<open>Execute\<close> observes: the function returned, it panicked, or the execution context
  ended first, by its deadline or by cancellation.\<close>

datatype 'e fn_outcome =
    FnReturned "'e option" | FnPanicked string | CtxDeadline | CtxCancelled string

fun outcome_err :: "'e fn_outcome \<Rightarrow> 'e cb_error option" where
  "outcome_err (FnReturned None) = None"
| "outcome_err (FnReturned (Some e)) = Some (ErrFn e)"
| "outcome_err (FnPanicked msg) = Some (ErrPanic msg)"
| "outcome_err CtxDeadline = Some ErrCircuitTimeout"
| "outcome_err (CtxCancelled msg) = Some (ErrContext msg)"

text \<open>One call with nothing interleaved: \<open>t0\<close> and \<open>t1\<close> are the clock before and after the function.\<close>

definition Execute ::
    "bool \<Rightarrow> bool \<Rightarrow> time \<Rightarrow> time \<Rightarrow> 'e fn_outcome \<Rightarrow> 'e circuit_breaker
     \<Rightarrow> 'e circuit_breaker \<times> 'e cb_error option" where
  "Execute ctxNil fnNil t0 t1 out cb =
     (if ctxNil then (cb, Some ErrContextNil)
      else if fnNil then (cb, Some ErrFunctionNil)
      else (case beforeRequest t0 cb of
              (cb', Some err) \<Rightarrow> (cb', Some err)
            | (cb', None) \<Rightarrow>
                (let err = outcome_err out in (afterRequest t1 err cb', err))))"

definition Reset_cb :: "time \<Rightarrow> 'e circuit_breaker \<Rightarrow> 'e circuit_breaker" where
  "Reset_cb now cb = transitionTo StateClosed now cb"

record cb_stats =
  st_State :: State
  st_FailureCount :: int
  st_SuccessCount :: int
  st_LastFailureTime :: time
  st_LastStateChange :: time

definition Stats_cb :: "'e circuit_breaker \<Rightarrow> cb_stats" where
  "Stats_cb cb = \<lparr>st_State = cb_state cb, st_FailureCount = failureCount cb,
     st_SuccessCount = successCount cb, st_LastFailureTime = lastFailureTime cb,
     st_LastStateChange = lastStateChange cb\<rparr>"

definition Validate_cb :: "'e cb_config \<Rightarrow> string option" where
  "Validate_cb cfg =
     (if cfg_Name cfg = [] then Some ''circuit breaker name is required''
      else if FailureThreshold cfg \<le> 0 then Some ''failure threshold must be positive''
      else if SuccessThreshold cfg \<le> 0 then Some ''success threshold must be positive''
      else if Timeout cfg \<le> 0 then Some ''timeout must be positive''
      else if HalfOpenMaxCalls cfg \<le> 0 then Some ''half-open max calls must be positive''
      else None)"

section \<open>Registry\<close>

text \<open>The \<open>sync.Map\<close> of breakers is an association list with distinct keys. \<open>Get\<close> has two parts: the
  fast path loads without the lock; the slow path, under the lock, loads again and then stores.\<close>

record 'e breaker_registry =
  breakers :: "(string \<times> 'e circuit_breaker) list"
  reg_config :: "string \<Rightarrow> 'e cb_config"

definition NewBreakerRegistry :: "(string \<Rightarrow> 'e cb_config) \<Rightarrow> 'e breaker_registry" where
  "NewBreakerRegistry f = \<lparr>breakers = [], reg_config = f\<rparr>"

definition Get_fast :: "string \<Rightarrow> 'e breaker_registry \<Rightarrow> 'e circuit_breaker option" where
  "Get_fast key r = map_of (breakers r) key"

definition Get_slow ::
    "string \<Rightarrow> time \<Rightarrow> 'e breaker_registry \<Rightarrow> 'e breaker_registry \<times> 'e circuit_breaker" where
  "Get_slow key now r =
     (case map_of (breakers r) key of
        Some cb \<Rightarrow> (r, cb)
      | None \<Rightarrow>
          (let newCB = NewCircuitBreaker (reg_config r key) now
           in (r\<lparr>breakers := AList.update key newCB (breakers r)\<rparr>, newCB)))"

definition Get_cb ::
    "string \<Rightarrow> time \<Rightarrow> 'e breaker_registry \<Rightarrow> 'e breaker_registry \<times> 'e circuit_breaker option" where
  "Get_cb key now r =
     (if key = [] then (r, None)
      else (case Get_fast key r of
              Some cb \<Rightarrow> (r, Some cb)
            | None \<Rightarrow> (case Get_slow key now r of (r', cb) \<Rightarrow> (r', Some cb))))"

definition Remove_cb :: "string \<Rightarrow> 'e breaker_registry \<Rightarrow> 'e breaker_registry" where
  "Remove_cb key r = r\<lparr>breakers := AList.delete key (breakers r)\<rparr>"

definition All_cb :: "'e breaker_registry \<Rightarrow> (string \<rightharpoonup> 'e circuit_breaker)" where
  "All_cb r = map_of (breakers r)"

definition ResetAll_cb :: "time \<Rightarrow> 'e breaker_registry \<Rightarrow> 'e breaker_registry" where
  "ResetAll_cb now r = r\<lparr>breakers := map (\<lambda>(k, cb). (k, Reset_cb now cb)) (breakers r)\<rparr>"

definition Count_cb :: "'e breaker_registry \<Rightarrow> nat" where
  "Count_cb r = length (breakers r)"

text \<open>A call through the pointer that \<open>Get\<close> returned changes the breaker stored under the key.\<close>

definition store_cb :: "string \<Rightarrow> 'e circuit_breaker \<Rightarrow> 'e breaker_registry \<Rightarrow> 'e breaker_registry" where
  "store_cb key cb r = r\<lparr>breakers := AList.update key cb (breakers r)\<rparr>"

section \<open>Concurrent requests\<close>

record 'e cb_sys =
  sys_cb :: "'e circuit_breaker"
  inflight :: nat

inductive cb_step :: "'e cb_sys \<Rightarrow> 'e cb_sys \<Rightarrow> bool" where
  admit: "beforeRequest now (sys_cb s) = (cb', None) \<Longrightarrow>
     cb_step s (s\<lparr>sys_cb := cb', inflight := Suc (inflight s)\<rparr>)"
| deny: "beforeRequest now (sys_cb s) = (cb', Some e) \<Longrightarrow> cb_step s (s\<lparr>sys_cb := cb'\<rparr>)"
| finish: "inflight s > 0 \<Longrightarrow>
     cb_step s (s\<lparr>sys_cb := afterRequest now err (sys_cb s), inflight := inflight s - 1\<rparr>)"
| reset: "cb_step s (s\<lparr>sys_cb := Reset_cb now (sys_cb s)\<rparr>)"

definition cb_start :: "'e cb_sys \<Rightarrow> bool" where
  "cb_start s \<longleftrightarrow> (\<exists>cfg now. s = \<lparr>sys_cb = NewCircuitBreaker cfg now, inflight = 0\<rparr>)"

definition counters_ok :: "'e circuit_breaker \<Rightarrow> bool" where
  "counters_ok cb \<longleftrightarrow>
     0 < FailureThreshold (cb_config cb) \<and> 0 < SuccessThreshold (cb_config cb) \<and>
     0 < Timeout (cb_config cb) \<and> 0 < HalfOpenMaxCalls (cb_config cb) \<and>
     (case cb_state cb of
        StateClosed \<Rightarrow> 0 \<le> failureCount cb \<and> failureCount cb < FailureThreshold (cb_config cb) \<and>
                       successCount cb = 0 \<and> halfOpenCalls cb = 0
      | StateOpen \<Rightarrow> failureCount cb = 0 \<and> successCount cb = 0 \<and> halfOpenCalls cb = 0
      | StateHalfOpen \<Rightarrow> failureCount cb = 0 \<and> 0 \<le> successCount cb \<and>
                       successCount cb < SuccessThreshold (cb_config cb) \<and>
                       halfOpenCalls cb \<le> HalfOpenMaxCalls (cb_config cb))"

section \<open>The invariant of the counters\<close>

lemmas cb_defs = transitionTo_def beforeRequest_def afterRequest_def Reset_cb_def Let_def

lemma cb_config_transitionTo [simp]: "cb_config (transitionTo st now cb) = cb_config cb"
  by (simp add: transitionTo_def Let_def)

lemma cb_state_transitionTo [simp]: "cb_state (transitionTo st now cb) = st"
  by (simp add: transitionTo_def Let_def)

lemma lastFailureTime_transitionTo [simp]:
  "lastFailureTime (transitionTo st now cb) = lastFailureTime cb"
  by (simp add: transitionTo_def Let_def)

lemma counters_NewCircuitBreaker: "counters_ok (NewCircuitBreaker cfg now)"
  by (simp add: counters_ok_def NewCircuitBreaker_def Let_def Second_def)

lemma counters_transitionTo: "counters_ok cb \<Longrightarrow> counters_ok (transitionTo st now cb)"
  by (cases st) (auto simp: counters_ok_def transitionTo_def Let_def split: State.splits)

lemma counters_beforeRequest: "counters_ok cb \<Longrightarrow> counters_ok (fst (beforeRequest now cb))"
  by (auto simp: beforeRequest_def Let_def counters_transitionTo split: State.split)
    (auto simp: counters_ok_def)

lemma counters_afterRequest: "counters_ok cb \<Longrightarrow> counters_ok (afterRequest now err cb)"
  by (cases "cb_state cb"; cases "isFailure cb err")
    (auto simp: counters_ok_def cb_defs split: if_splits)

interpretation cbs: step_invariant cb_start cb_step "\<lambda>s. counters_ok (sys_cb s)"
proof
  fix s :: "'e cb_sys"
  assume "cb_start s"
  then show "counters_ok (sys_cb s)" by (auto simp: cb_start_def counters_NewCircuitBreaker)
next
  fix s t :: "'e cb_sys"
  assume "cb_step s t" and "counters_ok (sys_cb s)"
  then show "counters_ok (sys_cb t)"
    by cases (auto simp: counters_afterRequest Reset_cb_def counters_transitionTo
        dest: counters_beforeRequest [of "sys_cb s"] intro: counters_transitionTo,
        (metis counters_beforeRequest fst_conv)+)
qed


section \<open>Opening: a run of consecutive failures\<close>

text \<open>The requests that finish while the breaker is watched, as clock reading and result.\<close>

fun finish_all ::
    "(time \<times> 'e cb_error option) list \<Rightarrow> 'e circuit_breaker \<Rightarrow> 'e circuit_breaker" where
  "finish_all [] cb = cb"
| "finish_all ((now, err) # rs) cb = finish_all rs (afterRequest now err cb)"

lemma afterRequest_config [simp]: "cb_config (afterRequest now err cb) = cb_config cb"
  by (simp add: afterRequest_def Let_def split: State.split)

lemma beforeRequest_config [simp]: "cb_config (fst (beforeRequest now cb)) = cb_config cb"
  by (simp add: beforeRequest_def Let_def split: State.split)

lemma isFailure_cong: "cb_config cb = cb_config cb' \<Longrightarrow> isFailure cb err = isFailure cb' err"
  by (simp add: isFailure_def split: option.split)

lemma afterRequest_closed_state:
  "cb_state cb = StateClosed \<Longrightarrow> cb_state (afterRequest now err cb) =
     (if isFailure cb err \<and> FailureThreshold (cb_config cb) \<le> failureCount cb + 1
      then StateOpen else StateClosed)"
  by (simp add: afterRequest_def Let_def)

lemma finish_all_open: "cb_state cb = StateOpen \<Longrightarrow> cb_state (finish_all rs cb) = StateOpen"
proof (induction rs arbitrary: cb)
  case (Cons r rs)
  obtain now err where r: "r = (now, err)" by (cases r)
  from Cons.prems have "cb_state (afterRequest now err cb) = StateOpen" by (simp add: afterRequest_def)
  with Cons.IH r show ?case by simp
qed simp

lemma replicate_sublist_split:
  assumes "0 < n"
  shows "sublist (replicate n True) (xs @ False # ys) \<longleftrightarrow>
         sublist (replicate n True) xs \<or> sublist (replicate n True) ys"
proof
  assume "sublist (replicate n True) (xs @ False # ys)"
  then consider "sublist (replicate n True) xs" | "sublist (replicate n True) (False # ys)"
    | us vs where "replicate n True = us @ vs" "suffix us xs" "prefix vs (False # ys)"
    by (auto simp: sublist_append)
  then show "sublist (replicate n True) xs \<or> sublist (replicate n True) ys"
  proof cases
    case 2
    with assms show ?thesis by (cases n) (auto simp: sublist_Cons_right)
  next
    case 3
    then have vs: "set vs \<subseteq> {True}" by (metis Un_upper2 order_trans set_append set_replicate_conv_if subset_insertI empty_subsetI)
    with \<open>prefix vs (False # ys)\<close> have "vs = []" by (cases vs) auto
    with 3 show ?thesis by auto
  qed simp
next
  assume "sublist (replicate n True) xs \<or> sublist (replicate n True) ys"
  then show "sublist (replicate n True) (xs @ False # ys)"
    by (auto simp: sublist_append sublist_Cons_right)
qed

lemma replicate_not_sublist: "k < n \<Longrightarrow> \<not> sublist (replicate n True) (replicate k True)"
  by (auto dest: sublist_length_le)

lemma closed_run_aux:
  assumes "counters_ok cb" and "cb_state cb = StateClosed"
  shows "cb_state (finish_all rs cb) = StateClosed \<longleftrightarrow>
     \<not> sublist (replicate (nat (FailureThreshold (cb_config cb))) True)
         (replicate (nat (failureCount cb)) True @ map (\<lambda>r. isFailure cb (snd r)) rs)"
  using assms
proof (induction rs arbitrary: cb)
  case Nil
  then show ?case by (simp add: counters_ok_def replicate_not_sublist)
next
  case (Cons r rs)
  obtain now err where r: "r = (now, err)" by (cases r)
  let ?n = "nat (FailureThreshold (cb_config cb))" and ?k = "nat (failureCount cb)"
  let ?cb = "afterRequest now err cb" and ?fs = "map (\<lambda>r. isFailure cb (snd r)) rs"
  from Cons.prems have bounds: "0 \<le> failureCount cb" "?k < ?n" "0 < ?n"
    by (auto simp: counters_ok_def)
  have fs: "map (\<lambda>r. isFailure ?cb (snd r)) rs = ?fs"
    by (simp add: isFailure_cong [of ?cb cb])
  have ok: "counters_ok ?cb" using Cons.prems(1) by (rule counters_afterRequest)
  show ?case
  proof (cases "isFailure cb err")
    case False
    with Cons.prems have st: "cb_state ?cb = StateClosed" and "failureCount ?cb = 0"
      by (auto simp: afterRequest_def)
    with Cons.IH [OF ok st] fs r False bounds show ?thesis
      by (simp add: replicate_sublist_split replicate_not_sublist)
  next
    case True
    then have shift: "replicate ?k True @ map (\<lambda>r. isFailure cb (snd r)) (r # rs) =
        replicate (Suc ?k) True @ ?fs"
      by (simp add: r replicate_app_Cons_same)
    show ?thesis
    proof (cases "failureCount cb + 1 \<ge> FailureThreshold (cb_config cb)")
      case T: True
      with True Cons.prems have "cb_state ?cb = StateOpen" by (simp add: afterRequest_def Let_def)
      moreover from T bounds have "?n = Suc ?k" by linarith
      then have "sublist (replicate ?n True) (replicate (Suc ?k) True @ ?fs)" by auto
      ultimately show ?thesis unfolding shift by (simp add: r finish_all_open del: replicate_Suc)
    next
      case F: False
      with True Cons.prems have st: "cb_state ?cb = StateClosed"
        and "failureCount ?cb = failureCount cb + 1"
        by (auto simp: afterRequest_def Let_def)
      with Cons.IH [OF ok st] fs bounds show ?thesis
        unfolding shift by (simp add: r nat_add_distrib del: replicate_Suc)
    qed
  qed
qed

text \<open>C27. A closed breaker with a zero failure count stays closed through a sequence of finished
  requests exactly when no \<open>FailureThreshold\<close> of them in a row are failures; otherwise it is open at
  the end: successes in between reset the count, and the late results of requests that were already
  running do not close it again.\<close>

theorem closed_iff_no_failure_run:
  assumes "counters_ok cb" and "cb_state cb = StateClosed" and "failureCount cb = 0"
  shows "cb_state (finish_all rs cb) =
    (if sublist (replicate (nat (FailureThreshold (cb_config cb))) True)
          (map (\<lambda>r. isFailure cb (snd r)) rs)
     then StateOpen else StateClosed)"
proof -
  have dicho: "cb_state (finish_all rs cb) \<noteq> StateHalfOpen" using assms(2)
  proof (induction rs arbitrary: cb)
    case (Cons r rs)
    obtain now err where r: "r = (now, err)" by (cases r)
    show ?case
    proof (cases "cb_state (afterRequest now err cb) = StateClosed")
      case False
      with Cons.prems have "cb_state (afterRequest now err cb) = StateOpen"
        by (simp add: afterRequest_closed_state split: if_splits)
      then show ?thesis by (simp add: r finish_all_open)
    qed (simp add: r Cons.IH)
  qed simp
  show ?thesis using closed_run_aux [OF assms(1,2), of rs] dicho assms(3)
    by (cases "cb_state (finish_all rs cb)") auto
qed

theorem closed_iff_no_failure_run_witness:
  "counters_ok (NewCircuitBreaker (DefaultConfig_cb ''smtp'') 0 :: string circuit_breaker) \<and>
   cb_state (finish_all (map (\<lambda>t. (t, Some ErrCircuitTimeout)) [1, 2, 3, 4, 5])
     (NewCircuitBreaker (DefaultConfig_cb ''smtp'') 0 :: string circuit_breaker)) = StateOpen"
proof -
  let ?cb = "NewCircuitBreaker (DefaultConfig_cb ''smtp'') 0 :: string circuit_breaker"
  let ?rs = "map (\<lambda>t. (t, Some ErrCircuitTimeout)) [1, 2, 3, 4, 5] :: (int \<times> string cb_error option) list"
  have ok: "counters_ok ?cb" by (rule counters_NewCircuitBreaker)
  have st: "cb_state ?cb = StateClosed" "failureCount ?cb = 0"
    by (simp_all add: NewCircuitBreaker_def DefaultConfig_cb_def Let_def Second_def)
  have "replicate (nat (FailureThreshold (cb_config ?cb))) True =
      map (\<lambda>r. isFailure ?cb (snd r)) ?rs"
    by (simp add: NewCircuitBreaker_def DefaultConfig_cb_def Let_def Second_def isFailure_def
        numeral_eq_Suc)
  then have "cb_state (finish_all ?rs ?cb) = StateOpen"
    using closed_iff_no_failure_run [OF ok st, of ?rs] by (metis sublist_order.order_refl)
  with ok show ?thesis by simp
qed

section \<open>Every reachable state\<close>

text \<open>However requests, results and resets interleave, every state a fresh breaker reaches has
  consistent counters: closed below the failure threshold, no stale counts while open, and in
  half-open fewer successes than the success threshold and at most \<open>HalfOpenMaxCalls\<close> counted calls.\<close>

theorem reachable_counters_ok:
  "cb_start s \<Longrightarrow> cb_step\<^sup>*\<^sup>* s t \<Longrightarrow> counters_ok (sys_cb t)"
  by (rule cbs.inv_reachable)

theorem reachable_counters_ok_witness:
  "\<exists>t :: string cb_sys. inflight t = 1 \<and> counters_ok (sys_cb t)"
proof -
  let ?s = "\<lparr>sys_cb = NewCircuitBreaker (DefaultConfig_cb ''smtp'') 0, inflight = 0\<rparr> :: string cb_sys"
  have start: "cb_start ?s" by (auto simp: cb_start_def)
  have "beforeRequest 1 (sys_cb ?s) = (sys_cb ?s, None)"
    by (simp add: beforeRequest_def NewCircuitBreaker_def Let_def)
  from cb_step.admit [OF this]
  have step: "cb_step ?s (?s\<lparr>sys_cb := sys_cb ?s, inflight := Suc (inflight ?s)\<rparr>)" .
  from reachable_counters_ok [OF start r_into_rtranclp [of cb_step, OF step]] show ?thesis
    by (intro exI [of _ "?s\<lparr>sys_cb := sys_cb ?s, inflight := Suc (inflight ?s)\<rparr>"]) simp
qed

section \<open>Open: rejection and recovery\<close>

fun Execute_all ::
    "(time \<times> time \<times> 'e fn_outcome) list \<Rightarrow> 'e circuit_breaker
     \<Rightarrow> 'e circuit_breaker \<times> 'e cb_error option list" where
  "Execute_all [] cb = (cb, [])"
| "Execute_all ((t0, t1, out) # cs) cb =
     (case Execute False False t0 t1 out cb of
        (cb1, e) \<Rightarrow> (case Execute_all cs cb1 of (cb2, es) \<Rightarrow> (cb2, e # es)))"

lemma Execute_all_fst_snd [simp]:
  "fst (Execute_all ((t0, t1, out) # cs) cb) = fst (Execute_all cs (fst (Execute False False t0 t1 out cb)))"
  "snd (Execute_all ((t0, t1, out) # cs) cb) =
     snd (Execute False False t0 t1 out cb) # snd (Execute_all cs (fst (Execute False False t0 t1 out cb)))"
  by (simp_all split: prod.split)

lemma Execute_open_early:
  "cb_state cb = StateOpen \<Longrightarrow> t0 - lastFailureTime cb < Timeout (cb_config cb) \<Longrightarrow>
   Execute False False t0 t1 out cb = (cb, Some ErrCircuitOpen)"
  by (simp add: Execute_def beforeRequest_def)

text \<open>While a breaker is open and its timeout has not elapsed since the last failure, every call is
  refused with \<open>ErrCircuitOpen\<close> whatever the function would do, and the breaker does not change.\<close>

theorem open_rejects_all:
  assumes "cb_state cb = StateOpen"
    and "\<forall>c \<in> set cs. fst c - lastFailureTime cb < Timeout (cb_config cb)"
  shows "Execute_all cs cb = (cb, replicate (length cs) (Some ErrCircuitOpen))"
  using assms(2) by (induction cs) (auto simp: Execute_open_early [OF assms(1)])

theorem open_rejects_all_witness:
  "Execute_all [(10, 11, FnReturned None), (20, 21, FnReturned None)]
     ((NewCircuitBreaker (DefaultConfig_cb ''smtp'') 0 :: string circuit_breaker)\<lparr>cb_state := StateOpen\<rparr>)
   = ((NewCircuitBreaker (DefaultConfig_cb ''smtp'') 0)\<lparr>cb_state := StateOpen\<rparr>,
      [Some ErrCircuitOpen, Some ErrCircuitOpen])"
  by (subst open_rejects_all)
    (simp_all add: NewCircuitBreaker_def DefaultConfig_cb_def Let_def Second_def)

lemma Execute_half_open_success:
  assumes "counters_ok cb" and "cb_state cb = StateHalfOpen"
    and "halfOpenCalls cb < HalfOpenMaxCalls (cb_config cb)"
  obtains cb' where "Execute False False t0 t1 (FnReturned None) cb = (cb', None)"
    and "counters_ok cb'" and "cb_config cb' = cb_config cb"
    and "successCount cb + 1 \<ge> SuccessThreshold (cb_config cb) \<longrightarrow> cb_state cb' = StateClosed"
    and "successCount cb + 1 < SuccessThreshold (cb_config cb) \<longrightarrow>
           cb_state cb' = StateHalfOpen \<and> successCount cb' = successCount cb + 1 \<and>
           halfOpenCalls cb' = halfOpenCalls cb"
proof -
  let ?cb = "cb\<lparr>halfOpenCalls := halfOpenCalls cb + 1\<rparr>"
  have b: "beforeRequest t0 cb = (?cb, None)"
    using assms(2,3) by (simp add: beforeRequest_def Let_def)
  have "counters_ok ?cb" using counters_beforeRequest [OF assms(1), of t0] by (simp add: b)
  then have ok: "counters_ok (afterRequest t1 None ?cb)" by (rule counters_afterRequest)
  have e: "Execute False False t0 t1 (FnReturned None) cb = (afterRequest t1 None ?cb, None)"
    by (simp add: Execute_def b)
  show ?thesis
    by (rule that [OF e ok]) (use assms(2) in \<open>simp_all add: afterRequest_def isFailure_def Let_def\<close>)
qed

lemma half_open_recovers:
  assumes "counters_ok cb" and "cb_state cb = StateHalfOpen"
    and "halfOpenCalls cb < HalfOpenMaxCalls (cb_config cb)"
    and "int (length cs) = SuccessThreshold (cb_config cb) - successCount cb"
  shows "cb_state (fst (Execute_all (map (\<lambda>(t0, t1). (t0, t1, FnReturned None)) cs) cb)) = StateClosed \<and>
         snd (Execute_all (map (\<lambda>(t0, t1). (t0, t1, FnReturned None)) cs) cb) = replicate (length cs) None"
  using assms
proof (induction cs arbitrary: cb)
  case Nil
  then show ?case by (simp add: counters_ok_def)
next
  case (Cons c cs)
  obtain t0 t1 where c: "c = (t0, t1)" by (cases c)
  obtain cb' where cb': "Execute False False t0 t1 (FnReturned None) cb = (cb', None)"
    and ok': "counters_ok cb'" and cfg': "cb_config cb' = cb_config cb"
    and closed: "successCount cb + 1 \<ge> SuccessThreshold (cb_config cb) \<longrightarrow> cb_state cb' = StateClosed"
    and half: "successCount cb + 1 < SuccessThreshold (cb_config cb) \<longrightarrow>
           cb_state cb' = StateHalfOpen \<and> successCount cb' = successCount cb + 1 \<and>
           halfOpenCalls cb' = halfOpenCalls cb"
    by (rule Execute_half_open_success [OF Cons.prems(1-3), of t0 t1])
  show ?case
  proof (cases cs)
    case Nil
    with Cons.prems(4) closed c cb' show ?thesis by simp
  next
    case (Cons d ds)
    with Cons.prems(4) half have "cb_state cb' = StateHalfOpen" "successCount cb' = successCount cb + 1"
      "halfOpenCalls cb' = halfOpenCalls cb" by auto
    with Cons.IH [OF ok'] Cons.prems cfg' c cb' show ?thesis
      by (simp del: Execute_all.simps(2))
  qed
qed

text \<open>Recovery: once the timeout has elapsed since the last failure, \<open>SuccessThreshold\<close> calls that
  succeed one after another are all admitted and close the breaker.\<close>

theorem open_recovers:
  assumes "counters_ok cb" and "cb_state cb = StateOpen"
    and "t0 - lastFailureTime cb \<ge> Timeout (cb_config cb)"
    and "int (length cs) + 1 = SuccessThreshold (cb_config cb)"
  shows "cb_state (fst (Execute_all (map (\<lambda>(a, b). (a, b, FnReturned None)) ((t0, t1) # cs)) cb)) = StateClosed \<and>
         snd (Execute_all (map (\<lambda>(a, b). (a, b, FnReturned None)) ((t0, t1) # cs)) cb) =
           replicate (Suc (length cs)) None"
proof -
  let ?h = "transitionTo StateHalfOpen t0 cb"
  let ?cb = "afterRequest t1 None ?h"
  have e: "Execute False False t0 t1 (FnReturned None) cb = (?cb, None)"
    using assms(2,3) by (simp add: Execute_def beforeRequest_def)
  have ok: "counters_ok ?cb" using assms(1) by (simp add: counters_transitionTo counters_afterRequest)
  have pos: "0 < HalfOpenMaxCalls (cb_config cb)" using assms(1) by (simp add: counters_ok_def)
  have cfg: "cb_config ?cb = cb_config cb" by simp
  show ?thesis
  proof (cases cs)
    case Nil
    with assms(2,4) e show ?thesis
      by (simp add: afterRequest_def isFailure_def transitionTo_def Let_def)
  next
    case (Cons d ds)
    with assms(2,4) have "cb_state ?cb = StateHalfOpen" "successCount ?cb = 1" "halfOpenCalls ?cb = -1"
      by (auto simp: afterRequest_def isFailure_def transitionTo_def Let_def)
    with half_open_recovers [OF ok, of cs] assms(4) pos cfg e show ?thesis
      by (simp del: Execute_all.simps(2))
  qed
qed

theorem open_recovers_witness:
  "cb_state (fst (Execute_all (map (\<lambda>(a, b). (a, b, FnReturned None)) [(30 * Second, 31 * Second), (32 * Second, 33 * Second)])
     ((NewCircuitBreaker (DefaultConfig_cb ''smtp'') 0 :: string circuit_breaker)\<lparr>cb_state := StateOpen\<rparr>))) = StateClosed"
proof -
  let ?cb = "(NewCircuitBreaker (DefaultConfig_cb ''smtp'') 0 :: string circuit_breaker)\<lparr>cb_state := StateOpen\<rparr>"
  have "counters_ok ?cb" "cb_state ?cb = StateOpen"
    "30 * Second - lastFailureTime ?cb \<ge> Timeout (cb_config ?cb)"
    "int (length [(32 * Second, 33 * Second)]) + 1 = SuccessThreshold (cb_config ?cb)"
    by (simp_all add: counters_ok_def NewCircuitBreaker_def DefaultConfig_cb_def Let_def Second_def)
  from open_recovers [OF this] show ?thesis by blast
qed

section \<open>Half-open admission\<close>

lemma steps_to_open:
  assumes "cb_state (sys_cb s) = StateClosed" and "IsFailure (cb_config (sys_cb s)) = None"
    and "failureCount (sys_cb s) + int (Suc n) = FailureThreshold (cb_config (sys_cb s))"
  shows "\<exists>t. cb_step\<^sup>*\<^sup>* s t \<and> cb_state (sys_cb t) = StateOpen \<and> inflight t = inflight s \<and>
             cb_config (sys_cb t) = cb_config (sys_cb s)"
  using assms
proof (induction n arbitrary: s)
  case 0
  let ?u = "s\<lparr>sys_cb := sys_cb s, inflight := Suc (inflight s)\<rparr>"
  let ?t = "?u\<lparr>sys_cb := afterRequest 0 (Some ErrCircuitTimeout) (sys_cb ?u), inflight := inflight ?u - 1\<rparr>"
  have 1: "cb_step s ?u" by (rule cb_step.admit) (simp add: 0 beforeRequest_def)
  have 2: "cb_step ?u ?t" by (rule cb_step.finish) simp
  have "cb_step\<^sup>*\<^sup>* s ?t"
    by (rule converse_rtranclp_into_rtranclp [where r = cb_step, OF 1 r_into_rtranclp [of cb_step, OF 2]])
  with 0 show ?case by (intro exI [of _ ?t]) (simp add: afterRequest_def isFailure_def Let_def)
next
  case (Suc n)
  let ?u = "s\<lparr>sys_cb := sys_cb s, inflight := Suc (inflight s)\<rparr>"
  let ?t = "?u\<lparr>sys_cb := afterRequest 0 (Some ErrCircuitTimeout) (sys_cb ?u), inflight := inflight ?u - 1\<rparr>"
  have 1: "cb_step s ?u" by (rule cb_step.admit) (simp add: Suc.prems beforeRequest_def)
  have 2: "cb_step ?u ?t" by (rule cb_step.finish) simp
  have st: "cb_state (sys_cb ?t) = StateClosed" "IsFailure (cb_config (sys_cb ?t)) = None"
    "failureCount (sys_cb ?t) + int (Suc n) = FailureThreshold (cb_config (sys_cb ?t))"
    using Suc.prems by (simp_all add: afterRequest_def isFailure_def Let_def)
  from Suc.IH [OF st] obtain v where "cb_step\<^sup>*\<^sup>* ?t v" "cb_state (sys_cb v) = StateOpen"
    "inflight v = inflight ?t" "cb_config (sys_cb v) = cb_config (sys_cb ?t)" by blast
  moreover from this(1) have "cb_step\<^sup>*\<^sup>* s v"
    by (rule converse_rtranclp_into_rtranclp [where r = cb_step, OF 1 converse_rtranclp_into_rtranclp [where r = cb_step, OF 2]])
  ultimately show ?case by (intro exI [of _ v]) simp
qed

lemma steps_half_open_admit:
  assumes "cb_state (sys_cb s) = StateHalfOpen"
    and "halfOpenCalls (sys_cb s) + int j \<le> HalfOpenMaxCalls (cb_config (sys_cb s))"
  shows "\<exists>t. cb_step\<^sup>*\<^sup>* s t \<and> cb_state (sys_cb t) = StateHalfOpen \<and>
             inflight t = inflight s + j \<and> cb_config (sys_cb t) = cb_config (sys_cb s)"
  using assms
proof (induction j arbitrary: s)
  case (Suc j)
  let ?u = "s\<lparr>sys_cb := (sys_cb s)\<lparr>halfOpenCalls := halfOpenCalls (sys_cb s) + 1\<rparr>,
              inflight := Suc (inflight s)\<rparr>"
  have 1: "cb_step s ?u"
    by (rule cb_step.admit) (use Suc.prems in \<open>simp add: beforeRequest_def Let_def\<close>)
  from Suc.prems have "cb_state (sys_cb ?u) = StateHalfOpen"
    "halfOpenCalls (sys_cb ?u) + int j \<le> HalfOpenMaxCalls (cb_config (sys_cb ?u))" by simp_all
  from Suc.IH [OF this] obtain t where "cb_step\<^sup>*\<^sup>* ?u t" "cb_state (sys_cb t) = StateHalfOpen"
    "inflight t = inflight ?u + j" "cb_config (sys_cb t) = cb_config (sys_cb ?u)" by blast
  with 1 show ?case by (intro exI [of _ t]) (auto intro: converse_rtranclp_into_rtranclp)
qed auto

text \<open>The call that moves the breaker from open to half-open is admitted but not counted: for every
  configuration there is a run in which more than \<open>HalfOpenMaxCalls\<close> admitted requests are in
  flight while the breaker is half-open.\<close>

theorem half_open_limit_exceeded:
  assumes "IsFailure cfg = None"
  shows "\<exists>s t. s = \<lparr>sys_cb = NewCircuitBreaker cfg 0, inflight = 0\<rparr> \<and> cb_step\<^sup>*\<^sup>* s t \<and>
           cb_state (sys_cb t) = StateHalfOpen \<and>
           int (inflight t) = HalfOpenMaxCalls (cb_config (sys_cb t)) + 1"
proof -
  let ?s = "\<lparr>sys_cb = NewCircuitBreaker cfg 0, inflight = 0\<rparr>"
  have ok: "counters_ok (sys_cb ?s)" by (simp add: counters_NewCircuitBreaker)
  then have f: "failureCount (sys_cb ?s) + int (Suc (nat (FailureThreshold (cb_config (sys_cb ?s)) - 1)))
      = FailureThreshold (cb_config (sys_cb ?s))"
    by (simp add: counters_ok_def) (simp add: NewCircuitBreaker_def Let_def)
  have st: "cb_state (sys_cb ?s) = StateClosed" "IsFailure (cb_config (sys_cb ?s)) = None"
    using assms by (simp_all add: NewCircuitBreaker_def Let_def)
  obtain u where u: "cb_step\<^sup>*\<^sup>* ?s u" "cb_state (sys_cb u) = StateOpen" "inflight u = 0"
    "cb_config (sys_cb u) = cb_config (sys_cb ?s)" using steps_to_open [OF st f] by auto
  let ?now = "lastFailureTime (sys_cb u) + Timeout (cb_config (sys_cb u))"
  let ?v = "u\<lparr>sys_cb := transitionTo StateHalfOpen ?now (sys_cb u), inflight := Suc (inflight u)\<rparr>"
  have uv: "cb_step u ?v"
    by (rule cb_step.admit [where now = ?now]) (simp add: u(2) beforeRequest_def)
  have "cb_state (sys_cb ?v) = StateHalfOpen"
    "halfOpenCalls (sys_cb ?v) + int (nat (HalfOpenMaxCalls (cb_config (sys_cb ?v))))
       \<le> HalfOpenMaxCalls (cb_config (sys_cb ?v))"
    using u(2,4) ok by (simp_all add: transitionTo_def counters_ok_def Let_def)
  from steps_half_open_admit [OF this] obtain t where t: "cb_step\<^sup>*\<^sup>* ?v t"
    "cb_state (sys_cb t) = StateHalfOpen"
    "inflight t = Suc (nat (HalfOpenMaxCalls (cb_config (sys_cb ?v))))"
    "cb_config (sys_cb t) = cb_config (sys_cb ?v)" using u(3) by auto
  have "cb_step\<^sup>*\<^sup>* ?s t" by (rule rtranclp_trans [OF rtranclp.rtrancl_into_rtrancl [OF u(1) uv] t(1)])
  with t u(4) ok show ?thesis
    by (intro exI [of _ ?s] exI [of _ t]) (simp add: counters_ok_def)
qed

theorem half_open_limit_exceeded_witness:
  "IsFailure (DefaultConfig_cb ''smtp'' :: string cb_config) = None \<and>
   (\<exists>t. cb_step\<^sup>*\<^sup>* \<lparr>sys_cb = NewCircuitBreaker (DefaultConfig_cb ''smtp'' :: string cb_config) 0, inflight = 0\<rparr> t \<and>
        int (inflight t) = HalfOpenMaxCalls (cb_config (sys_cb t)) + 1)"
proof -
  have n: "IsFailure (DefaultConfig_cb ''smtp'' :: string cb_config) = None"
    by (simp add: DefaultConfig_cb_def)
  from half_open_limit_exceeded [OF n] n show ?thesis by blast
qed

section \<open>The registry\<close>

lemma Get_slow_lookup:
  assumes "Get_slow key now r = (r', cb)"
  shows "map_of (breakers r') key = Some cb" and "k \<noteq> key \<Longrightarrow> map_of (breakers r') k = map_of (breakers r) k"
  using assms by (auto simp: Get_slow_def Let_def update_conv split: option.splits)

lemma distinct_Get_slow:
  "distinct (map fst (breakers r)) \<Longrightarrow> distinct (map fst (breakers (fst (Get_slow key now r))))"
  by (simp add: Get_slow_def Let_def distinct_update split: option.split)

text \<open>Two goroutines that both miss on the fast path and then take the lock one after the other get
  the same breaker, the one now registered under the key, and no other key is affected: the second
  load under the lock keeps a failing domain from ending up with two breakers.\<close>

theorem concurrent_Get_agree:
  assumes "Get_fast key r = None"
    and "Get_slow key t1 r = (r1, a)" and "Get_slow key t2 r1 = (r2, b)"
  shows "a = b \<and> r2 = r1 \<and> a = NewCircuitBreaker (reg_config r key) t1 \<and>
         All_cb r2 = (All_cb r)(key \<mapsto> a)"
  using assms by (auto simp: Get_fast_def Get_slow_def All_cb_def Let_def update_conv')

theorem concurrent_Get_agree_witness:
  "\<exists>r1 r2 a b. Get_slow ''example.org'' 1 (NewBreakerRegistry DefaultConfig_cb :: string breaker_registry) = (r1, a) \<and>
     Get_slow ''example.org'' 2 r1 = (r2, b) \<and> a = b \<and> Count_cb r2 = 1"
proof -
  let ?r = "NewBreakerRegistry DefaultConfig_cb :: string breaker_registry"
  obtain r1 a where 1: "Get_slow ''example.org'' 1 ?r = (r1, a)" by fastforce
  obtain r2 b where 2: "Get_slow ''example.org'' 2 r1 = (r2, b)" by fastforce
  have 0: "Get_fast ''example.org'' ?r = None" by (simp add: Get_fast_def NewBreakerRegistry_def)
  from concurrent_Get_agree [OF 0 1 2] have "a = b" "r2 = r1" by blast+
  moreover from 1 have "Count_cb r1 = 1"
    by (auto simp: Get_slow_def NewBreakerRegistry_def Let_def Count_cb_def)
  ultimately show ?thesis using 1 2 by blast
qed

lemma ResetAll_closed:
  "All_cb (ResetAll_cb now r) k = Some cb \<Longrightarrow> cb_state cb = StateClosed"
  by (auto simp: All_cb_def ResetAll_cb_def Reset_cb_def dest!: map_of_SomeD)

end
