(* ===== verification/Redis_Queue.thy ===== *)
theory Redis_Queue
  imports Go_Prelude "HOL-Library.AList"
begin

text \<open>
  Package \<^verbatim>\<open>internal/queue\<close>: the outbound message queue on Redis. The Redis server and its client are
  not part of the repository: they are the parameter \<open>redis\<close>, a record of the commands the queue
  issues over an abstract server state, together with the JSON codec of a message (\<open>'d\<close> is the type of
  the encoded documents). The documented
  behaviour the queue relies on is the locale \<open>redis_server\<close>: a transaction that succeeds applies its
  commands, one that fails applied all or none of them, reads do not change the data. \<open>rview\<close> is the
  data of a server as the commands see it.
\<close>

section \<open>Messages and configuration\<close>

datatype Status = StatusPending | StatusSending | StatusSent | StatusFailed | StatusDeferred | StatusBounced

record message =
  msg_ID :: string
  msg_Sender :: string
  msg_Recipients :: "string list"
  msg_MessagePath :: string
  msg_Size :: int
  msg_Attempts :: int
  msg_MaxAttempts :: int
  msg_LastAttempt :: "time option"
  msg_NextAttempt :: "time option"
  msg_LastError :: string
  msg_Status :: Status
  msg_CreatedAt :: "time option"
  msg_Domain :: string

record queue_config =
  RedisURL :: string
  Prefix :: string
  MaxRetries :: int
  RetryMaxAge :: duration

definition DefaultConfig_queue :: queue_config where
  "DefaultConfig_queue = \<lparr>RedisURL = ''redis://localhost:6379/0'', Prefix = ''mail'', MaxRetries = 15,
     RetryMaxAge = 7 * 24 * Hour\<rparr>"

record redis_queue =
  q_config :: queue_config
  q_closed :: bool

text \<open>\<open>time.Since\<close> on a possibly zero time: since the zero time it saturates at the largest duration.\<close>

definition since :: "time \<Rightarrow> time option \<Rightarrow> duration" where
  "since now t = (case t of None \<Rightarrow> 2 ^ 63 - 1 | Some t \<Rightarrow> now - t)"

section \<open>Keys\<close>

definition pendingKey :: "redis_queue \<Rightarrow> string" where
  "pendingKey q = Prefix (q_config q) @ '':queue:pending''"
definition processingKey :: "redis_queue \<Rightarrow> string" where
  "processingKey q = Prefix (q_config q) @ '':queue:processing''"
definition failedKey :: "redis_queue \<Rightarrow> string" where
  "failedKey q = Prefix (q_config q) @ '':queue:failed''"
definition sentKey :: "redis_queue \<Rightarrow> string" where
  "sentKey q = Prefix (q_config q) @ '':queue:sent''"
definition messageKey :: "redis_queue \<Rightarrow> string \<Rightarrow> string" where
  "messageKey q i = Prefix (q_config q) @ '':message:'' @ i"
definition statsKey :: "redis_queue \<Rightarrow> string" where
  "statsKey q = Prefix (q_config q) @ '':stats''"

lemmas key_defs = pendingKey_def processingKey_def failedKey_def sentKey_def messageKey_def statsKey_def

section \<open>The score of a sorted set: an integer rounded to float64\<close>

fun bit_len :: "nat \<Rightarrow> nat" where
  "bit_len n = (if n = 0 then 0 else Suc (bit_len (n div 2)))"

declare bit_len.simps [simp del]

definition round_even :: "nat \<Rightarrow> nat \<Rightarrow> nat" where
  "round_even m n =
     (let q = n div m; r = n mod m
      in if 2 * r < m \<or> 2 * r = m \<and> even q then q * m else (q + 1) * m)"

text \<open>\<open>float64(x)\<close> for an integer: 53 significant bits, ties to even.\<close>

definition float64 :: "int \<Rightarrow> int" where
  "float64 x =
     (let n = nat \<bar>x\<bar>; k = bit_len n - 53; r = int (round_even (2 ^ k) n)
      in if x < 0 then - r else r)"

section \<open>The Redis server as a parameter\<close>

datatype 'd rcmd =
    SET string 'd duration
  | ZADD string int string
  | ZREM string string
  | SADD string string
  | SREM string string
  | HINCRBY string string int
  | ZREMRANGEBYSCORE string int

text \<open>The data of a server: string keys with their time to live (0: none), sorted sets, sets, hashes.\<close>

record 'd rview =
  v_str :: "string \<rightharpoonup> 'd \<times> duration"
  v_zset :: "string \<Rightarrow> string \<rightharpoonup> int"
  v_set :: "string \<Rightarrow> string set"
  v_hash :: "string \<Rightarrow> string \<Rightarrow> int"

fun apply_cmd :: "'d rcmd \<Rightarrow> 'd rview \<Rightarrow> 'd rview" where
  "apply_cmd (SET k d ttl) v = v\<lparr>v_str := (v_str v)(k \<mapsto> (d, ttl))\<rparr>"
| "apply_cmd (ZADD k s m) v = v\<lparr>v_zset := (v_zset v)(k := (v_zset v k)(m \<mapsto> s))\<rparr>"
| "apply_cmd (ZREM k m) v = v\<lparr>v_zset := (v_zset v)(k := (v_zset v k)(m := None))\<rparr>"
| "apply_cmd (SADD k m) v = v\<lparr>v_set := (v_set v)(k := insert m (v_set v k))\<rparr>"
| "apply_cmd (SREM k m) v = v\<lparr>v_set := (v_set v)(k := v_set v k - {m})\<rparr>"
| "apply_cmd (HINCRBY k f n) v = v\<lparr>v_hash := (v_hash v)(k := (v_hash v k)(f := v_hash v k f + n))\<rparr>"
| "apply_cmd (ZREMRANGEBYSCORE k mx) v =
     v\<lparr>v_zset := (v_zset v)(k := (\<lambda>m. case v_zset v k m of
        None \<Rightarrow> None | Some s \<Rightarrow> if s \<le> mx then None else Some s))\<rparr>"

definition apply_cmds :: "'d rcmd list \<Rightarrow> 'd rview \<Rightarrow> 'd rview" where
  "apply_cmds cs v = fold apply_cmd cs v"

text \<open>
  The commands: a transaction; \<open>GET\<close> (\<open>Inr None\<close> is \<open>redis.Nil\<close>); the first member of a sorted set
  with a score up to a bound; the members of ranks 0 to \<open>limit - 1\<close> in ascending or descending order;
  the members of a set in some order; the cardinalities and counters that \<open>Stats\<close> reads.
\<close>

record ('d, 'r) redis =
  rd_view :: "'r \<Rightarrow> 'd rview"
  rd_exec :: "'d rcmd list \<Rightarrow> 'r \<Rightarrow> 'r \<times> string option"
  rd_get :: "string \<Rightarrow> 'r \<Rightarrow> 'r \<times> (string + 'd option)"
  rd_zfirst :: "string \<Rightarrow> int \<Rightarrow> 'r \<Rightarrow> 'r \<times> (string + (string \<times> int) option)"
  rd_zrange :: "bool \<Rightarrow> string \<Rightarrow> int \<Rightarrow> 'r \<Rightarrow> 'r \<times> (string + (string \<times> int) list)"
  rd_smembers :: "string \<Rightarrow> 'r \<Rightarrow> 'r \<times> (string + string list)"
  rd_stats :: "string list \<Rightarrow> string \<Rightarrow> 'r \<Rightarrow> 'r \<times> (string + (int list \<times> (string \<rightharpoonup> int)))"
  rd_card :: "string \<Rightarrow> 'r \<Rightarrow> 'r \<times> (string + int)"
  rd_marshal :: "message \<Rightarrow> 'd option"
  rd_unmarshal :: "'d \<Rightarrow> message option"

text \<open>A message whose strings are ASCII: on these the JSON codec loses nothing (encoding/json replaces
  bytes that are not valid UTF-8).\<close>

definition ascii :: "string \<Rightarrow> bool" where
  "ascii s \<longleftrightarrow> list_all (\<lambda>c. (of_char c :: nat) < 128) s"

definition ascii_message :: "message \<Rightarrow> bool" where
  "ascii_message m \<longleftrightarrow> ascii (msg_ID m) \<and> ascii (msg_Sender m) \<and> list_all ascii (msg_Recipients m) \<and>
     ascii (msg_MessagePath m) \<and> ascii (msg_LastError m) \<and> ascii (msg_Domain m)"

locale redis_server =
  fixes R :: "('d, 'r) redis"
  assumes exec_ok: "rd_exec R cs r = (r', None) \<Longrightarrow> rd_view R r' = apply_cmds cs (rd_view R r)"
    and exec_err: "rd_exec R cs r = (r', Some e) \<Longrightarrow>
          rd_view R r' = rd_view R r \<or> rd_view R r' = apply_cmds cs (rd_view R r)"
    and get_view: "rd_get R k r = (r', res) \<Longrightarrow> rd_view R r' = rd_view R r"
    and get_value: "rd_get R k r = (r', Inr x) \<Longrightarrow> x = map_option fst (v_str (rd_view R r) k)"
    and zfirst_view: "rd_zfirst R k mx r = (r', res') \<Longrightarrow> rd_view R r' = rd_view R r"
    and zfirst_none: "rd_zfirst R k mx r = (r', Inr None) \<Longrightarrow>
          v_zset (rd_view R r) k m = Some s \<Longrightarrow> mx < s"
    and zfirst_some: "rd_zfirst R k mx r = (r', Inr (Some (m, s))) \<Longrightarrow>
          v_zset (rd_view R r) k m = Some s \<and> s \<le> mx \<and>
          (\<forall>m' s'. v_zset (rd_view R r) k m' = Some s' \<longrightarrow> s \<le> s')"
    and smembers_view: "rd_smembers R k r = (r', res'') \<Longrightarrow> rd_view R r' = rd_view R r"
    and smembers_set: "rd_smembers R k r = (r', Inr ms) \<Longrightarrow> set ms = v_set (rd_view R r) k"
    and marshal: "ascii_message msg \<Longrightarrow> rd_marshal R msg = Some d \<Longrightarrow> rd_unmarshal R d = Some msg"

section \<open>Errors and helpers\<close>

datatype q_error =
    ErrMessageNotFound | ErrQueueClosed | ErrQCtxNil | ErrMessageNil
  | ErrMarshal | ErrUnmarshal
  | ErrRedis string string \<comment> \<open>wrapping text, Redis error\<close>
  | ErrRollback q_error string

text \<open>\<open>contains\<close>: the loop over the offsets of \<open>s\<close>.\<close>

fun contains_loop :: "string \<Rightarrow> string \<Rightarrow> bool" where
  "contains_loop [] substr \<longleftrightarrow> substr = []"
| "contains_loop (c # s) substr \<longleftrightarrow>
     (if length (c # s) < length substr then False
      else take (length substr) (c # s) = substr \<or> contains_loop s substr)"

definition contains :: "string \<Rightarrow> string \<Rightarrow> bool" where
  "contains s substr \<longleftrightarrow>
     length s \<ge> length substr \<and> (s = substr \<or> length substr = 0 \<or> contains_loop s substr)"

definition isTransientRedisError :: "string \<Rightarrow> bool" where
  "isTransientRedisError errStr \<longleftrightarrow>
     contains errStr ''connection refused'' \<or> contains errStr ''timeout'' \<or>
     contains errStr ''connection reset'' \<or> contains errStr ''broken pipe'' \<or>
     contains errStr ''i/o timeout'' \<or> contains errStr ''network'' \<or> contains errStr ''EOF''"

definition retry_intervals :: "duration list" where
  "retry_intervals = [5 * Minute, 15 * Minute, 30 * Minute, 1 * Hour, 2 * Hour, 4 * Hour, 8 * Hour,
     16 * Hour, 24 * Hour]"

definition calculateNextRetry :: "int \<Rightarrow> time \<Rightarrow> time" where
  "calculateNextRetry attempts now =
     (let idx0 = attempts - 1;
          idx1 = (if idx0 < 0 then 0 else idx0);
          idx = (if idx1 \<ge> int (length retry_intervals) then int (length retry_intervals) - 1 else idx1);
          base = retry_intervals ! nat idx;
          jitterRange = base div 10;
          base' = (if jitterRange > 0 then base + (now mod jitterRange - jitterRange div 2) else base)
      in now + base')"

text \<open>\<open>generateMessageID\<close>: the random bytes, or \<open>None\<close> when the generator fails.\<close>

definition hex_digit :: "nat \<Rightarrow> char" where
  "hex_digit d = (if d < 10 then char_of (48 + d) else char_of (87 + d))"

definition hex_encode :: "string \<Rightarrow> string" where
  "hex_encode bs = concat (map (\<lambda>c. [hex_digit (of_char c div 16), hex_digit (of_char c mod 16)]) bs)"

definition generateMessageID :: "string option \<Rightarrow> time \<Rightarrow> string" where
  "generateMessageID rnd now =
     (case rnd of
        None \<Rightarrow> show_int now
      | Some b \<Rightarrow> show_int now @ ''-'' @ hex_encode b)"

definition isClosed :: "redis_queue \<Rightarrow> bool" where
  "isClosed q = q_closed q"

definition validateContext :: "bool \<Rightarrow> redis_queue \<Rightarrow> q_error option" where
  "validateContext ctxNil q =
     (if ctxNil then Some ErrQCtxNil else if isClosed q then Some ErrQueueClosed else None)"

section \<open>Connecting\<close>

text \<open>The connection test: \<open>pings i\<close> is the result of ping \<open>i\<close>; the loop ends at the first success, and
  the error that decides is the last one recorded. The first argument counts the rounds left.\<close>

fun ping_loop :: "nat \<Rightarrow> (nat \<Rightarrow> string option) \<Rightarrow> string option \<Rightarrow> string option" where
  "ping_loop 0 pings lastErr = lastErr"
| "ping_loop (Suc n) pings lastErr =
     (case pings (2 - n) of
        None \<Rightarrow> lastErr
      | Some err \<Rightarrow> ping_loop n pings (Some err))"

text \<open>\<open>urlErr\<close> is the outcome of \<open>redis.ParseURL\<close>.\<close>

definition NewRedisQueue ::
    "queue_config \<Rightarrow> string option \<Rightarrow> (nat \<Rightarrow> string option) \<Rightarrow> (string, redis_queue) result" where
  "NewRedisQueue cfg urlErr pings =
     (case urlErr of
        Some e \<Rightarrow> Inl (''invalid Redis URL: '' @ e)
      | None \<Rightarrow>
          (case ping_loop 3 pings None of
             Some e \<Rightarrow> Inl (''failed to connect to Redis after retries: '' @ e)
           | None \<Rightarrow> Inr \<lparr>q_config = cfg, q_closed = False\<rparr>))"

section \<open>Operations\<close>

definition GetMessage :: "('d, 'r) redis \<Rightarrow> redis_queue \<Rightarrow> string \<Rightarrow> 'r \<Rightarrow> 'r \<times> (q_error, message) result" where
  "GetMessage R q msgID r =
     (case rd_get R (messageKey q msgID) r of
        (r1, Inl e) \<Rightarrow> (r1, Inl (ErrRedis ''failed to get message'' e))
      | (r1, Inr None) \<Rightarrow> (r1, Inl ErrMessageNotFound)
      | (r1, Inr (Some data)) \<Rightarrow>
          (case rd_unmarshal R data of
             None \<Rightarrow> (r1, Inl ErrUnmarshal)
           | Some msg \<Rightarrow> (r1, Inr msg)))"

definition updateMessage :: "('d, 'r) redis \<Rightarrow> redis_queue \<Rightarrow> message \<Rightarrow> 'r \<Rightarrow> 'r \<times> q_error option" where
  "updateMessage R q msg r =
     (case rd_marshal R msg of
        None \<Rightarrow> (r, Some ErrMarshal)
      | Some data \<Rightarrow>
          (case rd_exec R [SET (messageKey q (msg_ID msg)) data 0] r of
             (r1, Some e) \<Rightarrow> (r1, Some (ErrRedis '''' e))
           | (r1, None) \<Rightarrow> (r1, None)))"

text \<open>The transaction of \<open>Enqueue\<close> and its retry loop; the first argument is the number of attempts left.\<close>

fun enqueue_loop :: "nat \<Rightarrow> ('d, 'r) redis \<Rightarrow> 'd rcmd list \<Rightarrow> 'r \<Rightarrow> 'r \<times> q_error option" where
  "enqueue_loop 0 R cs r = (r, Some (ErrRedis ''failed to enqueue message after retries'' ''''))"
| "enqueue_loop (Suc n) R cs r =
     (case rd_exec R cs r of
        (r1, None) \<Rightarrow> (r1, None)
      | (r1, Some e) \<Rightarrow>
          (if \<not> isTransientRedisError e then (r1, Some (ErrRedis ''failed to enqueue message'' e))
           else if n = 0 then (r1, Some (ErrRedis ''failed to enqueue message after retries'' e))
           else enqueue_loop n R cs r1))"

definition prepare_msg :: "redis_queue \<Rightarrow> string option \<Rightarrow> time \<Rightarrow> message \<Rightarrow> message" where
  "prepare_msg q rnd now msg =
     (let m1 = (if msg_ID msg = [] then msg\<lparr>msg_ID := generateMessageID rnd now\<rparr> else msg);
          m2 = (if msg_CreatedAt m1 = None then m1\<lparr>msg_CreatedAt := Some now\<rparr> else m1);
          m3 = (if msg_NextAttempt m2 = None then m2\<lparr>msg_NextAttempt := Some now\<rparr> else m2);
          m4 = (if msg_MaxAttempts m3 = 0 then m3\<lparr>msg_MaxAttempts := MaxRetries (q_config q)\<rparr> else m3)
      in m4\<lparr>msg_Status := StatusPending\<rparr>)"

definition score_of :: "time option \<Rightarrow> int" where
  "score_of t = (case t of None \<Rightarrow> float64 0 | Some t \<Rightarrow> float64 t)"

definition enqueue_cmds :: "redis_queue \<Rightarrow> message \<Rightarrow> 'd \<Rightarrow> 'd rcmd list" where
  "enqueue_cmds q m data =
     [SET (messageKey q (msg_ID m)) data 0,
      ZADD (pendingKey q) (score_of (msg_NextAttempt m)) (msg_ID m),
      HINCRBY (statsKey q) ''enqueued'' 1]"

definition Enqueue ::
    "('d, 'r) redis \<Rightarrow> redis_queue \<Rightarrow> bool \<Rightarrow> string option \<Rightarrow> time \<Rightarrow> message option \<Rightarrow> 'r
     \<Rightarrow> 'r \<times> (q_error, message) result" where
  "Enqueue R q ctxNil rnd now msgp r =
     (case validateContext ctxNil q of
        Some e \<Rightarrow> (r, Inl e)
      | None \<Rightarrow>
          (case msgp of
             None \<Rightarrow> (r, Inl ErrMessageNil)
           | Some msg \<Rightarrow>
               (let m = prepare_msg q rnd now msg
                in case rd_marshal R m of
                     None \<Rightarrow> (r, Inl ErrMarshal)
                   | Some data \<Rightarrow>
                       (case enqueue_loop 3 R (enqueue_cmds q m data) r of
                          (r1, Some e) \<Rightarrow> (r1, Inl e)
                        | (r1, None) \<Rightarrow> (r1, Inr m)))))"

definition rollback_cmds :: "redis_queue \<Rightarrow> string \<Rightarrow> int \<Rightarrow> 'd rcmd list" where
  "rollback_cmds q msgID score = [SREM (processingKey q) msgID, ZADD (pendingKey q) score msgID]"

text \<open>\<open>Dequeue\<close>: \<open>Inr None\<close> is the nil message of an empty queue.\<close>

definition Dequeue ::
    "('d, 'r) redis \<Rightarrow> redis_queue \<Rightarrow> bool \<Rightarrow> time \<Rightarrow> 'r \<Rightarrow> 'r \<times> (q_error, message option) result" where
  "Dequeue R q ctxNil now r =
     (case validateContext ctxNil q of
        Some e \<Rightarrow> (r, Inl e)
      | None \<Rightarrow>
     (case rd_zfirst R (pendingKey q) (float64 now) r of
        (r1, Inl e) \<Rightarrow> (r1, Inl (ErrRedis ''failed to query pending queue'' e))
      | (r1, Inr None) \<Rightarrow> (r1, Inr None)
      | (r1, Inr (Some (msgID, score))) \<Rightarrow>
     (case rd_exec R [ZREM (pendingKey q) msgID, SADD (processingKey q) msgID] r1 of
        (r2, Some e) \<Rightarrow> (r2, Inl (ErrRedis ''failed to move message to processing'' e))
      | (r2, None) \<Rightarrow>
     (case GetMessage R q msgID r2 of
        (r3, Inl err) \<Rightarrow>
          (case rd_exec R (rollback_cmds q msgID score) r3 of
             (r4, Some rbErr) \<Rightarrow> (r4, Inl (ErrRollback err rbErr))
           | (r4, None) \<Rightarrow> (r4, Inl err))
      | (r3, Inr msg) \<Rightarrow>
          (let m = msg\<lparr>msg_Status := StatusSending, msg_Attempts := msg_Attempts msg + 1,
                       msg_LastAttempt := Some now\<rparr>
           in case updateMessage R q m r3 of
                (r4, Some err) \<Rightarrow>
                  (case rd_exec R (rollback_cmds q msgID score) r4 of (r5, _) \<Rightarrow> (r5, Inl err))
              | (r4, None) \<Rightarrow> (r4, Inr (Some m)))))))"

text \<open>The common tail of \<open>Complete\<close>, \<open>Retry\<close> and \<open>Fail\<close>: marshal, then one transaction.\<close>

definition exec_with_data ::
    "('d, 'r) redis \<Rightarrow> message \<Rightarrow> ('d \<Rightarrow> 'd rcmd list) \<Rightarrow> 'r \<Rightarrow> 'r \<times> q_error option" where
  "exec_with_data R msg cmds r =
     (case rd_marshal R msg of
        None \<Rightarrow> (r, Some ErrMarshal)
      | Some data \<Rightarrow>
          (case rd_exec R (cmds data) r of
             (r1, Some e) \<Rightarrow> (r1, Some (ErrRedis '''' e))
           | (r1, None) \<Rightarrow> (r1, None)))"

definition complete_cmds :: "redis_queue \<Rightarrow> time \<Rightarrow> string \<Rightarrow> 'd \<Rightarrow> 'd rcmd list" where
  "complete_cmds q now msgID data =
     [SREM (processingKey q) msgID, ZADD (sentKey q) (float64 now) msgID,
      HINCRBY (statsKey q) ''sent'' 1, SET (messageKey q msgID) data (7 * 24 * Hour)]"

definition Complete ::
    "('d, 'r) redis \<Rightarrow> redis_queue \<Rightarrow> bool \<Rightarrow> time \<Rightarrow> string \<Rightarrow> 'r \<Rightarrow> 'r \<times> q_error option" where
  "Complete R q ctxNil now msgID r =
     (case validateContext ctxNil q of
        Some e \<Rightarrow> (r, Some e)
      | None \<Rightarrow>
          (case GetMessage R q msgID r of
             (r1, Inl err) \<Rightarrow> (r1, Some err)
           | (r1, Inr msg) \<Rightarrow>
               exec_with_data R (msg\<lparr>msg_Status := StatusSent\<rparr>) (complete_cmds q now msgID) r1))"

definition fail_cmds :: "redis_queue \<Rightarrow> time \<Rightarrow> string \<Rightarrow> 'd \<Rightarrow> 'd rcmd list" where
  "fail_cmds q now msgID data =
     [SREM (processingKey q) msgID, ZADD (failedKey q) (float64 now) msgID,
      HINCRBY (statsKey q) ''failed'' 1, SET (messageKey q msgID) data (30 * 24 * Hour)]"

definition Fail ::
    "('d, 'r) redis \<Rightarrow> redis_queue \<Rightarrow> time \<Rightarrow> string \<Rightarrow> string \<Rightarrow> 'r \<Rightarrow> 'r \<times> q_error option" where
  "Fail R q now msgID reason r =
     (case GetMessage R q msgID r of
        (r1, Inl err) \<Rightarrow> (r1, Some err)
      | (r1, Inr msg) \<Rightarrow>
          exec_with_data R (msg\<lparr>msg_Status := StatusFailed, msg_LastError := reason\<rparr>)
            (fail_cmds q now msgID) r1)"

definition retry_cmds :: "redis_queue \<Rightarrow> time \<Rightarrow> string \<Rightarrow> 'd \<Rightarrow> 'd rcmd list" where
  "retry_cmds q next msgID data =
     [SREM (processingKey q) msgID, ZADD (pendingKey q) (float64 next) msgID,
      HINCRBY (statsKey q) ''retried'' 1, SET (messageKey q msgID) data 0]"

definition Retry ::
    "('d, 'r) redis \<Rightarrow> redis_queue \<Rightarrow> time \<Rightarrow> string \<Rightarrow> string \<Rightarrow> 'r \<Rightarrow> 'r \<times> q_error option" where
  "Retry R q now msgID lastError r =
     (case GetMessage R q msgID r of
        (r1, Inl err) \<Rightarrow> (r1, Some err)
      | (r1, Inr msg0) \<Rightarrow>
          (let msg = msg0\<lparr>msg_LastError := lastError\<rparr>
           in if msg_Attempts msg \<ge> msg_MaxAttempts msg
              then Fail R q now msgID ''max attempts exceeded'' r1
              else if since now (msg_CreatedAt msg) > RetryMaxAge (q_config q)
              then Fail R q now msgID ''message expired'' r1
              else (let next = calculateNextRetry (msg_Attempts msg) now
                    in exec_with_data R
                         (msg\<lparr>msg_NextAttempt := Some next, msg_Status := StatusDeferred\<rparr>)
                         (retry_cmds q next msgID) r1)))"

record queue_stats =
  qs_Pending :: int
  qs_Processing :: int
  qs_Sent :: int
  qs_Failed :: int
  qs_TotalEnqueued :: int
  qs_TotalSent :: int
  qs_TotalFailed :: int
  qs_TotalRetried :: int

definition Stats_queue :: "('d, 'r) redis \<Rightarrow> redis_queue \<Rightarrow> 'r \<Rightarrow> 'r \<times> (q_error, queue_stats) result" where
  "Stats_queue R q r =
     (case rd_stats R [pendingKey q, processingKey q, sentKey q, failedKey q] (statsKey q) r of
        (r1, Inl e) \<Rightarrow> (r1, Inl (ErrRedis '''' e))
      | (r1, Inr (cards, counters)) \<Rightarrow>
          (let card = (\<lambda>i. if i < length cards then cards ! i else 0);
               cnt = (\<lambda>f. case counters f of None \<Rightarrow> 0 | Some v \<Rightarrow> v)
           in (r1, Inr \<lparr>qs_Pending = card 0, qs_Processing = card 1, qs_Sent = card 2, qs_Failed = card 3,
                qs_TotalEnqueued = cnt ''enqueued'', qs_TotalSent = cnt ''sent'',
                qs_TotalFailed = cnt ''failed'', qs_TotalRetried = cnt ''retried''\<rparr>)))"

text \<open>The loop of the three listing functions: messages that cannot be read are skipped.\<close>

fun get_each :: "('d, 'r) redis \<Rightarrow> redis_queue \<Rightarrow> (string \<times> int) list \<Rightarrow> 'r \<Rightarrow> 'r \<times> message list" where
  "get_each R q [] r = (r, [])"
| "get_each R q ((msgID, score) # zs) r =
     (case GetMessage R q msgID r of
        (r1, Inl e) \<Rightarrow> get_each R q zs r1
      | (r1, Inr msg) \<Rightarrow> (case get_each R q zs r1 of (r2, ms) \<Rightarrow> (r2, msg # ms)))"

definition list_key ::
    "('d, 'r) redis \<Rightarrow> redis_queue \<Rightarrow> bool \<Rightarrow> bool \<Rightarrow> string \<Rightarrow> string \<Rightarrow> int \<Rightarrow> 'r
     \<Rightarrow> 'r \<times> (q_error, message list) result" where
  "list_key R q ctxNil descending key what limit r =
     (case validateContext ctxNil q of
        Some e \<Rightarrow> (r, Inl e)
      | None \<Rightarrow>
          (case rd_zrange R descending key (limit - 1) r of
             (r1, Inl e) \<Rightarrow> (r1, Inl (ErrRedis what e))
           | (r1, Inr zs) \<Rightarrow> (case get_each R q zs r1 of (r2, ms) \<Rightarrow> (r2, Inr ms))))"

definition ListPending ::
    "('d, 'r) redis \<Rightarrow> redis_queue \<Rightarrow> bool \<Rightarrow> int \<Rightarrow> 'r \<Rightarrow> 'r \<times> (q_error, message list) result" where
  "ListPending R q ctxNil limit r =
     list_key R q ctxNil False (pendingKey q) ''failed to query pending queue'' limit r"

definition ListFailed ::
    "('d, 'r) redis \<Rightarrow> redis_queue \<Rightarrow> bool \<Rightarrow> int \<Rightarrow> 'r \<Rightarrow> 'r \<times> (q_error, message list) result" where
  "ListFailed R q ctxNil limit r =
     list_key R q ctxNil True (failedKey q) ''failed to query failed queue'' limit r"

definition ListSent ::
    "('d, 'r) redis \<Rightarrow> redis_queue \<Rightarrow> bool \<Rightarrow> int \<Rightarrow> 'r \<Rightarrow> 'r \<times> (q_error, message list) result" where
  "ListSent R q ctxNil limit r =
     list_key R q ctxNil True (sentKey q) ''failed to query sent queue'' limit r"

fun recover_loop ::
    "('d, 'r) redis \<Rightarrow> redis_queue \<Rightarrow> time \<Rightarrow> duration \<Rightarrow> string list \<Rightarrow> nat \<Rightarrow> 'r \<Rightarrow> 'r \<times> nat" where
  "recover_loop R q now staleThreshold [] recovered r = (r, recovered)"
| "recover_loop R q now staleThreshold (msgID # ids) recovered r =
     (case GetMessage R q msgID r of
        (r1, Inl e) \<Rightarrow> recover_loop R q now staleThreshold ids recovered r1
      | (r1, Inr msg) \<Rightarrow>
          (if since now (msg_LastAttempt msg) > staleThreshold
           then (case Retry R q now msgID ''worker timeout'' r1 of
                   (r2, None) \<Rightarrow> recover_loop R q now staleThreshold ids (Suc recovered) r2
                 | (r2, Some e) \<Rightarrow> recover_loop R q now staleThreshold ids recovered r2)
           else recover_loop R q now staleThreshold ids recovered r1))"

definition RecoverStale ::
    "('d, 'r) redis \<Rightarrow> redis_queue \<Rightarrow> time \<Rightarrow> duration \<Rightarrow> 'r \<Rightarrow> 'r \<times> (q_error, nat) result" where
  "RecoverStale R q now staleThreshold r =
     (case rd_smembers R (processingKey q) r of
        (r1, Inl e) \<Rightarrow> (r1, Inl (ErrRedis '''' e))
      | (r1, Inr ids) \<Rightarrow>
          (case recover_loop R q now staleThreshold ids 0 r1 of (r2, n) \<Rightarrow> (r2, Inr n)))"

definition Cleanup_queue ::
    "('d, 'r) redis \<Rightarrow> redis_queue \<Rightarrow> bool \<Rightarrow> time \<Rightarrow> duration \<Rightarrow> 'r \<Rightarrow> 'r \<times> q_error option" where
  "Cleanup_queue R q ctxNil now olderThan r =
     (case validateContext ctxNil q of
        Some e \<Rightarrow> (r, Some e)
      | None \<Rightarrow>
          (let threshold = float64 (now - olderThan)
           in case rd_exec R [ZREMRANGEBYSCORE (sentKey q) threshold] r of
                (r1, Some e) \<Rightarrow> (r1, Some (ErrRedis ''failed to cleanup sent messages'' e))
              | (r1, None) \<Rightarrow>
                  (case rd_exec R [ZREMRANGEBYSCORE (failedKey q) threshold] r1 of
                     (r2, Some e) \<Rightarrow> (r2, Some (ErrRedis ''failed to cleanup failed messages'' e))
                   | (r2, None) \<Rightarrow> (r2, None))))"

definition PendingCount :: "('d, 'r) redis \<Rightarrow> redis_queue \<Rightarrow> 'r \<Rightarrow> 'r \<times> (q_error, int) result" where
  "PendingCount R q r =
     (case rd_card R (pendingKey q) r of
        (r1, Inl e) \<Rightarrow> (r1, Inl (ErrRedis '''' e))
      | (r1, Inr n) \<Rightarrow> (r1, Inr n))"

definition ProcessingCount :: "('d, 'r) redis \<Rightarrow> redis_queue \<Rightarrow> 'r \<Rightarrow> 'r \<times> (q_error, int) result" where
  "ProcessingCount R q r =
     (case rd_card R (processingKey q) r of
        (r1, Inl e) \<Rightarrow> (r1, Inl (ErrRedis '''' e))
      | (r1, Inr n) \<Rightarrow> (r1, Inr n))"

text \<open>\<open>Close\<close>: the flag is set once; the result is that of closing the client.\<close>

definition Close_queue :: "string option \<Rightarrow> redis_queue \<Rightarrow> redis_queue \<times> string option" where
  "Close_queue clientClose q =
     (if q_closed q then (q, None) else (q\<lparr>q_closed := True\<rparr>, clientClose))"

section \<open>Where a message is\<close>

definition tracked :: "redis_queue \<Rightarrow> 'd rview \<Rightarrow> string set" where
  "tracked q v = dom (v_zset v (pendingKey q)) \<union> v_set v (processingKey q) \<union>
                 dom (v_zset v (sentKey q)) \<union> dom (v_zset v (failedKey q))"

definition keeps_tracked :: "redis_queue \<Rightarrow> 'd rcmd list \<Rightarrow> bool" where
  "keeps_tracked q cs \<longleftrightarrow> (\<forall>v. tracked q v \<subseteq> tracked q (apply_cmds cs v))"

lemma keys_distinct [simp]:
  "pendingKey q \<noteq> sentKey q" "pendingKey q \<noteq> failedKey q" "sentKey q \<noteq> failedKey q"
  "sentKey q \<noteq> pendingKey q" "failedKey q \<noteq> pendingKey q" "failedKey q \<noteq> sentKey q"
  by (simp_all add: key_defs)

lemma messageKey_eq [simp]: "messageKey q i = messageKey q j \<longleftrightarrow> i = j"
  by (simp add: messageKey_def)

lemma keeps_tracked_cmds:
  "keeps_tracked q (enqueue_cmds q m d)"
  "keeps_tracked q [ZREM (pendingKey q) i, SADD (processingKey q) i]"
  "keeps_tracked q (rollback_cmds q i sc)"
  "keeps_tracked q [SET k d ttl]"
  "keeps_tracked q (complete_cmds q now i d)"
  "keeps_tracked q (fail_cmds q now i d)"
  "keeps_tracked q (retry_cmds q now i d)"
  by (auto simp: keeps_tracked_def tracked_def apply_cmds_def enqueue_cmds_def rollback_cmds_def
      complete_cmds_def fail_cmds_def retry_cmds_def)

text \<open>One operation of a worker, of a submitter or of the recovery loop, whatever its arguments.\<close>

inductive queue_step :: "('d, 'r) redis \<Rightarrow> redis_queue \<Rightarrow> 'r \<Rightarrow> 'r \<Rightarrow> bool" for R q where
  enqueue: "queue_step R q r (fst (Enqueue R q ctxNil rnd now msgp r))"
| dequeue: "queue_step R q r (fst (Dequeue R q ctxNil now r))"
| complete: "queue_step R q r (fst (Complete R q ctxNil now i r))"
| retry: "queue_step R q r (fst (Retry R q now i err r))"
| fail: "queue_step R q r (fst (Fail R q now i err r))"
| recover: "queue_step R q r (fst (RecoverStale R q now threshold r))"

context redis_server
begin

lemma exec_cases:
  assumes "rd_exec R cs r = (r', e)"
  shows "rd_view R r' = rd_view R r \<or> rd_view R r' = apply_cmds cs (rd_view R r)"
  using assms exec_ok exec_err by (cases e) auto

lemma exec_tracked:
  assumes "keeps_tracked q cs"
  shows "tracked q (rd_view R r) \<subseteq> tracked q (rd_view R (fst (rd_exec R cs r)))"
proof -
  obtain r' e where x: "rd_exec R cs r = (r', e)" by fastforce
  from assms have "tracked q (rd_view R r) \<subseteq> tracked q (apply_cmds cs (rd_view R r))"
    unfolding keeps_tracked_def by blast
  with exec_cases [OF x] show ?thesis by (auto simp: x)
qed

lemma GetMessage_view: "GetMessage R q i r = (r', x) \<Longrightarrow> rd_view R r' = rd_view R r"
  by (auto simp: GetMessage_def dest: get_view split: prod.splits sum.splits option.splits)

lemma GetMessage_value:
  "GetMessage R q i r = (r', Inr msg) \<Longrightarrow>
   \<exists>d ttl. v_str (rd_view R r) (messageKey q i) = Some (d, ttl) \<and> rd_unmarshal R d = Some msg"
  by (auto simp: GetMessage_def split: prod.splits sum.splits option.splits)
    (metis (no_types, lifting) get_value map_option_eq_Some prod.collapse)

lemma enqueue_loop_tracked:
  "keeps_tracked q cs \<Longrightarrow>
   tracked q (rd_view R r) \<subseteq> tracked q (rd_view R (fst (enqueue_loop n R cs r)))"
proof (induction n arbitrary: r)
  case (Suc n)
  obtain r1 e1 where x: "rd_exec R cs r = (r1, e1)" by fastforce
  have "tracked q (rd_view R r) \<subseteq> tracked q (rd_view R r1)"
    using exec_tracked [OF Suc.prems, of r] by (simp add: x)
  with Suc.IH [OF Suc.prems, of r1] show ?case by (auto simp: x split: option.split)
qed simp

lemma exec_with_data_tracked:
  assumes "\<And>d. keeps_tracked q (cmds d)"
  shows "tracked q (rd_view R r) \<subseteq> tracked q (rd_view R (fst (exec_with_data R msg cmds r)))"
proof (cases "rd_marshal R msg")
  case (Some d)
  obtain r1 e where x: "rd_exec R (cmds d) r = (r1, e)" by fastforce
  with exec_tracked [OF assms, of r d] Some show ?thesis
    by (simp add: exec_with_data_def split: option.split)
qed (simp add: exec_with_data_def)

lemma updateMessage_tracked:
  "tracked q (rd_view R r) \<subseteq> tracked q (rd_view R (fst (updateMessage R q m r)))"
proof (cases "rd_marshal R m")
  case (Some d)
  obtain r1 e where x: "rd_exec R [SET (messageKey q (msg_ID m)) d 0] r = (r1, e)" by fastforce
  with exec_tracked [OF keeps_tracked_cmds(4), of q r "messageKey q (msg_ID m)" d 0] Some
  show ?thesis by (simp add: updateMessage_def split: option.split)
qed (simp add: updateMessage_def)

lemma Fail_tracked: "tracked q (rd_view R r) \<subseteq> tracked q (rd_view R (fst (Fail R q now i err r)))"
proof -
  obtain r1 x where g: "GetMessage R q i r = (r1, x)" by fastforce
  have "rd_view R r1 = rd_view R r" using g by (rule GetMessage_view)
  then show ?thesis
    using exec_with_data_tracked [OF keeps_tracked_cmds(6), of q r1] by (simp add: Fail_def g split: sum.split)
qed

lemma Retry_tracked: "tracked q (rd_view R r) \<subseteq> tracked q (rd_view R (fst (Retry R q now i err r)))"
proof -
  obtain r1 x where g: "GetMessage R q i r = (r1, x)" by fastforce
  have "rd_view R r1 = rd_view R r" using g by (rule GetMessage_view)
  then show ?thesis
    using exec_with_data_tracked [OF keeps_tracked_cmds(7), of q r1] Fail_tracked [of q r1]
    by (simp add: Retry_def g Let_def split: sum.split)
qed

lemma Complete_tracked:
  "tracked q (rd_view R r) \<subseteq> tracked q (rd_view R (fst (Complete R q ctxNil now i r)))"
proof -
  obtain r1 x where g: "GetMessage R q i r = (r1, x)" by fastforce
  have "rd_view R r1 = rd_view R r" using g by (rule GetMessage_view)
  then show ?thesis
    using exec_with_data_tracked [OF keeps_tracked_cmds(5), of q r1]
    by (simp add: Complete_def g split: sum.split option.split)
qed

lemma Enqueue_tracked:
  "tracked q (rd_view R r) \<subseteq> tracked q (rd_view R (fst (Enqueue R q ctxNil rnd now msgp r)))"
proof (cases "validateContext ctxNil q = None \<and> msgp \<noteq> None \<and>
    rd_marshal R (prepare_msg q rnd now (the msgp)) \<noteq> None")
  case True
  then obtain msg d where msg: "msgp = Some msg" "rd_marshal R (prepare_msg q rnd now msg) = Some d" by auto
  let ?cs = "enqueue_cmds q (prepare_msg q rnd now msg) d"
  obtain r1 e where x: "enqueue_loop 3 R ?cs r = (r1, e)" by fastforce
  with enqueue_loop_tracked [OF keeps_tracked_cmds(1), of q r 3 "prepare_msg q rnd now msg" d] True msg
  show ?thesis by (simp add: Enqueue_def Let_def split: option.split)
qed (auto simp: Enqueue_def Let_def split: option.split)

lemma Dequeue_tracked:
  "tracked q (rd_view R r) \<subseteq> tracked q (rd_view R (fst (Dequeue R q ctxNil now r)))"
proof -
  obtain r1 x where z: "rd_zfirst R (pendingKey q) (float64 now) r = (r1, x)" by fastforce
  have v1: "rd_view R r1 = rd_view R r" using z by (rule zfirst_view)
  have rb: "tracked q (rd_view R r') \<subseteq> tracked q (rd_view R (fst (rd_exec R (rollback_cmds q i sc) r')))"
    for r' i sc by (rule exec_tracked [OF keeps_tracked_cmds(3)])
  show ?thesis
  proof (cases "validateContext ctxNil q = None \<and> (\<exists>y. x = Inr (Some y))")
    case True
    then obtain i sc where x: "x = Inr (Some (i, sc))" by auto
    obtain r2 e where m: "rd_exec R [ZREM (pendingKey q) i, SADD (processingKey q) i] r1 = (r2, e)" by fastforce
    obtain r3 y where g: "GetMessage R q i r2 = (r3, y)" by fastforce
    have v2: "tracked q (rd_view R r) \<subseteq> tracked q (rd_view R r2)"
      using exec_tracked [OF keeps_tracked_cmds(2), of q r1 i] by (simp add: m v1)
    have v3: "rd_view R r3 = rd_view R r2" using g by (rule GetMessage_view)
    have keep: "tracked q (rd_view R r) \<subseteq> tracked q (rd_view R (fst (rd_exec R (rollback_cmds q i sc) r')))"
      if "tracked q (rd_view R r) \<subseteq> tracked q (rd_view R r')" for r'
      using that rb by (rule order_trans)
    show ?thesis
    proof (cases e)
      case (Some err)
      with True x z m v2 show ?thesis by (simp add: Dequeue_def)
    next
      case e: None
      show ?thesis
      proof (cases y)
        case (Inl err)
        obtain r4 e4 where "rd_exec R (rollback_cmds q i sc) r3 = (r4, e4)" by fastforce
        with True x z m e g Inl keep [of r3] v2 v3 show ?thesis
          by (simp add: Dequeue_def split: option.split)
      next
        case (Inr msg)
        let ?m = "msg\<lparr>msg_Status := StatusSending, msg_Attempts := msg_Attempts msg + 1,
          msg_LastAttempt := Some now\<rparr>"
        obtain r4 e4 where u: "updateMessage R q ?m r3 = (r4, e4)" by fastforce
        have v4: "tracked q (rd_view R r) \<subseteq> tracked q (rd_view R r4)"
          using v2 v3 updateMessage_tracked [of q r3 ?m] by (simp add: u order_trans)
        obtain r5 e5 where "rd_exec R (rollback_cmds q i sc) r4 = (r5, e5)" by fastforce
        with True x z m e g Inr u v4 keep [of r4] show ?thesis
          by (simp add: Dequeue_def Let_def split: option.split)
      qed
    qed
  qed (auto simp: Dequeue_def z v1 split: option.split sum.split)
qed

lemma recover_loop_tracked:
  "tracked q (rd_view R r) \<subseteq> tracked q (rd_view R (fst (recover_loop R q now th ids n r)))"
proof (induction ids arbitrary: n r)
  case (Cons i ids)
  obtain r1 x where g: "GetMessage R q i r = (r1, x)" by fastforce
  obtain r2 e where y: "Retry R q now i ''worker timeout'' r1 = (r2, e)" by fastforce
  have "rd_view R r1 = rd_view R r" using g by (rule GetMessage_view)
  moreover have "tracked q (rd_view R r1) \<subseteq> tracked q (rd_view R r2)"
    using Retry_tracked [of q r1 now i "''worker timeout''"] y by simp
  ultimately show ?case
    using Cons.IH [of r1] Cons.IH [of r2]
    by (fastforce simp: g y split: sum.split option.split)
qed simp

lemma RecoverStale_tracked:
  "tracked q (rd_view R r) \<subseteq> tracked q (rd_view R (fst (RecoverStale R q now th r)))"
proof -
  obtain r1 x where s: "rd_smembers R (processingKey q) r = (r1, x)" by fastforce
  have "rd_view R r1 = rd_view R r" using s by (rule smembers_view)
  then show ?thesis using recover_loop_tracked [of q r1]
    by (auto simp: RecoverStale_def s split: sum.split prod.split) (metis fst_conv subsetD)
qed

end

sublocale redis_server \<subseteq> trk: step_invariant "\<lambda>r. i \<in> tracked q (rd_view R r)" "queue_step R q"
    "\<lambda>r. i \<in> tracked q (rd_view R r)" for i q
proof
  fix r r'
  assume "queue_step R q r r'" and i: "i \<in> tracked q (rd_view R r)"
  then have "tracked q (rd_view R r) \<subseteq> tracked q (rd_view R r')"
    by cases (simp_all only: Enqueue_tracked Dequeue_tracked Complete_tracked Retry_tracked
        Fail_tracked RecoverStale_tracked)
  with i show "i \<in> tracked q (rd_view R r')" by blast
qed

context redis_server
begin

lemma tracked_steps:
  "i \<in> tracked q (rd_view R r) \<Longrightarrow> (queue_step R q)\<^sup>*\<^sup>* r r' \<Longrightarrow> i \<in> tracked q (rd_view R r')"
  by (rule trk.inv_steps)

lemma enqueue_loop_ok:
  assumes "enqueue_loop n R cs r = (r', None)"
  shows "\<exists>k. k < n \<and> rd_view R r' = (apply_cmds cs ^^ Suc k) (rd_view R r)"
  using assms
proof (induction n arbitrary: r)
  case (Suc n)
  obtain r1 e1 where x: "rd_exec R cs r = (r1, e1)" by fastforce
  show ?case
  proof (cases e1)
    case None
    with Suc.prems x have "rd_view R r' = apply_cmds cs (rd_view R r)" using exec_ok by simp
    then show ?thesis by (intro exI [of _ 0]) simp
  next
    case (Some err)
    with Suc.prems x have rest: "enqueue_loop n R cs r1 = (r', None)"
      by (auto split: if_splits)
    from Suc.IH [OF this] obtain k where k: "k < n" "rd_view R r' = (apply_cmds cs ^^ Suc k) (rd_view R r1)"
      by blast
    from exec_cases [OF x] show ?thesis
    proof
      assume "rd_view R r1 = rd_view R r"
      with k show ?thesis by (intro exI [of _ k]) simp
    next
      assume "rd_view R r1 = apply_cmds cs (rd_view R r)"
      with k have "rd_view R r' = (apply_cmds cs ^^ Suc (Suc k)) (rd_view R r)"
        by (simp add: funpow_swap1)
      with k(1) show ?thesis by (intro exI [of _ "Suc k"]) simp
    qed
  qed
qed simp

end

text \<open>The effect of \<open>n\<close> applied transactions of one \<open>Enqueue\<close>.\<close>

definition enqueued_view :: "redis_queue \<Rightarrow> message \<Rightarrow> 'd \<Rightarrow> int \<Rightarrow> 'd rview \<Rightarrow> 'd rview" where
  "enqueued_view q m d n v =
     v\<lparr>v_str := (v_str v)(messageKey q (msg_ID m) \<mapsto> (d, 0)),
       v_zset := (v_zset v)(pendingKey q := (v_zset v (pendingKey q))(msg_ID m \<mapsto> score_of (msg_NextAttempt m))),
       v_hash := (v_hash v)(statsKey q := (v_hash v (statsKey q))(''enqueued'' :=
          v_hash v (statsKey q) ''enqueued'' + n))\<rparr>"

lemma enqueue_cmds_once: "apply_cmds (enqueue_cmds q m d) v = enqueued_view q m d 1 v"
  unfolding apply_cmds_def enqueue_cmds_def enqueued_view_def by simp

lemma enqueued_view_twice: "enqueued_view q m d 1 (enqueued_view q m d n v) = enqueued_view q m d (n + 1) v"
  unfolding enqueued_view_def by (simp add: add.assoc)

lemma enqueue_cmds_iterate:
  "(apply_cmds (enqueue_cmds q m d) ^^ Suc k) v = enqueued_view q m d (int (Suc k)) v"
proof (induction k)
  case 0
  then show ?case by (simp add: enqueue_cmds_once)
next
  case (Suc k)
  have "(apply_cmds (enqueue_cmds q m d) ^^ Suc (Suc k)) v =
      apply_cmds (enqueue_cmds q m d) ((apply_cmds (enqueue_cmds q m d) ^^ Suc k) v)" by simp
  also have "\<dots> = enqueued_view q m d (int (Suc k) + 1) v"
    unfolding Suc.IH enqueue_cmds_once enqueued_view_twice ..
  finally show ?case by (simp add: add.commute)
qed

lemma Enqueue_OkD:
  assumes "Enqueue R q ctxNil rnd now msgp r = (r', Inr m)"
  obtains msg d where "msgp = Some msg" "m = prepare_msg q rnd now msg" "rd_marshal R m = Some d"
    "enqueue_loop 3 R (enqueue_cmds q m d) r = (r', None)" "q_closed q = False"
  using assms
  by (auto simp: Enqueue_def Let_def validateContext_def isClosed_def
      split: option.splits prod.splits if_splits)

lemma Enqueue_view:
  assumes "redis_server R" and "Enqueue R q ctxNil rnd now msgp r = (r', Inr m)"
  shows "\<exists>d n. rd_marshal R m = Some d \<and> (ascii_message m \<longrightarrow> rd_unmarshal R d = Some m) \<and> 1 \<le> n \<and> n \<le> 3 \<and> msg_Status m = StatusPending \<and>
     rd_view R r' = enqueued_view q m d n (rd_view R r)"
proof -
  from assms(2) obtain msg d where m: "m = prepare_msg q rnd now msg" and d: "rd_marshal R m = Some d"
    and l: "enqueue_loop 3 R (enqueue_cmds q m d) r = (r', None)" by (rule Enqueue_OkD)
  from redis_server.enqueue_loop_ok [OF assms(1) l] obtain k where k: "k < 3"
    "rd_view R r' = (apply_cmds (enqueue_cmds q m d) ^^ Suc k) (rd_view R r)" by blast
  have "ascii_message m \<Longrightarrow> rd_unmarshal R d = Some m" using redis_server.marshal [OF assms(1) _ d] .
  with k m d show ?thesis unfolding enqueue_cmds_iterate
    by (intro exI [of _ d] exI [of _ "int (Suc k)"]) (simp add: prepare_msg_def Let_def)
qed

section \<open>Enqueue, and no message is lost\<close>

text \<open>When \<open>Enqueue\<close> reports success, the message is stored under its key without expiry (and decodes
  to the message returned, when its strings are ASCII), it is pending with the score of its next attempt, no other key or member
  changed, and the counter of enqueued messages grew by one to three: the retries after a transient
  error can count a message more than once but never duplicate it.\<close>

theorem Enqueue_stores:
  assumes "redis_server R" and "Enqueue R q ctxNil rnd now msgp r = (r', Inr m)"
  shows "\<exists>d n. rd_marshal R m = Some d \<and> (ascii_message m \<longrightarrow> rd_unmarshal R d = Some m) \<and> 1 \<le> n \<and> n \<le> 3 \<and> msg_Status m = StatusPending \<and>
     rd_view R r' = (rd_view R r)
       \<lparr>v_str := (v_str (rd_view R r))(messageKey q (msg_ID m) \<mapsto> (d, 0)),
        v_zset := (v_zset (rd_view R r))(pendingKey q :=
          (v_zset (rd_view R r) (pendingKey q))(msg_ID m \<mapsto> score_of (msg_NextAttempt m))),
        v_hash := (v_hash (rd_view R r))(statsKey q := (v_hash (rd_view R r) (statsKey q))(''enqueued'' :=
          v_hash (rd_view R r) (statsKey q) ''enqueued'' + n))\<rparr>"
  using Enqueue_view [OF assms] unfolding enqueued_view_def .


section \<open>An in-memory server\<close>

text \<open>
  A server that satisfies the contract, for the witnesses: association lists, the fault script says of
  each coming command whether it works, fails before or fails after it was applied (a lost reply).
  Documents are the messages themselves.
\<close>

datatype fault = Works | FailsBefore string | FailsAfter string

record mem =
  mem_str :: "(string \<times> message \<times> duration) list"
  mem_zset :: "((string \<times> string) \<times> int) list"
  mem_set :: "(string \<times> string) list"
  mem_hash :: "((string \<times> string) \<times> int) list"
  mem_faults :: "fault list"

definition hash_get :: "((string \<times> string) \<times> int) list \<Rightarrow> string \<Rightarrow> string \<Rightarrow> int" where
  "hash_get h k f = (case map_of h (k, f) of None \<Rightarrow> 0 | Some n \<Rightarrow> n)"

fun mem_apply :: "message rcmd \<Rightarrow> mem \<Rightarrow> mem" where
  "mem_apply (SET k d ttl) s = s\<lparr>mem_str := (k, d, ttl) # mem_str s\<rparr>"
| "mem_apply (ZADD k sc m) s = s\<lparr>mem_zset := ((k, m), sc) # [x \<leftarrow> mem_zset s. fst x \<noteq> (k, m)]\<rparr>"
| "mem_apply (ZREM k m) s = s\<lparr>mem_zset := [x \<leftarrow> mem_zset s. fst x \<noteq> (k, m)]\<rparr>"
| "mem_apply (SADD k m) s = s\<lparr>mem_set := (k, m) # [x \<leftarrow> mem_set s. x \<noteq> (k, m)]\<rparr>"
| "mem_apply (SREM k m) s = s\<lparr>mem_set := [x \<leftarrow> mem_set s. x \<noteq> (k, m)]\<rparr>"
| "mem_apply (HINCRBY k f n) s = s\<lparr>mem_hash := ((k, f), hash_get (mem_hash s) k f + n) # mem_hash s\<rparr>"
| "mem_apply (ZREMRANGEBYSCORE k mx) s =
     s\<lparr>mem_zset := [x \<leftarrow> mem_zset s. case map_of (mem_zset s) (fst x) of
        Some sc \<Rightarrow> \<not> (fst (fst x) = k \<and> sc \<le> mx) | None \<Rightarrow> True]\<rparr>"

definition mem_view :: "mem \<Rightarrow> message rview" where
  "mem_view s = \<lparr>v_str = map_of (mem_str s), v_zset = (\<lambda>k m. map_of (mem_zset s) (k, m)),
     v_set = (\<lambda>k. set (map snd [x \<leftarrow> mem_set s. fst x = k])), v_hash = hash_get (mem_hash s)\<rparr>"

definition next_fault :: "mem \<Rightarrow> mem \<times> fault" where
  "next_fault s = (case mem_faults s of [] \<Rightarrow> (s, Works) | f # fs \<Rightarrow> (s\<lparr>mem_faults := fs\<rparr>, f))"

definition mem_exec :: "message rcmd list \<Rightarrow> mem \<Rightarrow> mem \<times> string option" where
  "mem_exec cs s =
     (case next_fault s of
        (s1, Works) \<Rightarrow> (fold mem_apply cs s1, None)
      | (s1, FailsBefore e) \<Rightarrow> (s1, Some e)
      | (s1, FailsAfter e) \<Rightarrow> (fold mem_apply cs s1, Some e))"

definition mem_read :: "(mem \<Rightarrow> 'a) \<Rightarrow> mem \<Rightarrow> mem \<times> (string + 'a)" where
  "mem_read f s =
     (case next_fault s of
        (s1, Works) \<Rightarrow> (s1, Inr (f s1))
      | (s1, FailsBefore e) \<Rightarrow> (s1, Inl e)
      | (s1, FailsAfter e) \<Rightarrow> (s1, Inl e))"

definition mem_members :: "string \<Rightarrow> mem \<Rightarrow> (string \<times> int) list" where
  "mem_members k s = sort_key snd (map (\<lambda>x. (snd (fst x), snd x))
     [x \<leftarrow> AList.clearjunk (mem_zset s). fst (fst x) = k])"

definition mem_zfirst :: "string \<Rightarrow> int \<Rightarrow> mem \<Rightarrow> (string \<times> int) option" where
  "mem_zfirst k mx s = (case mem_members k s of [] \<Rightarrow> None | x # xs \<Rightarrow> if snd x \<le> mx then Some x else None)"

definition mem_card :: "string \<Rightarrow> mem \<Rightarrow> int" where
  "mem_card k s = int (length (mem_members k s)) + int (length [x \<leftarrow> mem_set s. fst x = k])"

definition mem_redis :: "(message, mem) redis" where
  "mem_redis = \<lparr>rd_view = mem_view, rd_exec = mem_exec,
     rd_get = (\<lambda>k. mem_read (\<lambda>s. map_option fst (map_of (mem_str s) k))),
     rd_zfirst = (\<lambda>k mx. mem_read (mem_zfirst k mx)),
     rd_zrange = (\<lambda>desc k n. mem_read (\<lambda>s. let ms = mem_members k s; ms = (if desc then rev ms else ms)
        in if n < 0 then ms else take (nat n + 1) ms)),
     rd_smembers = (\<lambda>k. mem_read (\<lambda>s. map snd [x \<leftarrow> mem_set s. fst x = k])),
     rd_stats = (\<lambda>ks h. mem_read (\<lambda>s. (map (\<lambda>k. mem_card k s) ks, (\<lambda>f. map_of (mem_hash s) (h, f))))),
     rd_card = (\<lambda>k. mem_read (mem_card k)),
     rd_marshal = Some, rd_unmarshal = Some\<rparr>"

definition mem_empty :: mem where
  "mem_empty = \<lparr>mem_str = [], mem_zset = [], mem_set = [], mem_hash = [], mem_faults = []\<rparr>"

lemma map_of_filter_key: "map_of [x \<leftarrow> xs. P (fst x)] k = (if P k then map_of xs k else None)"
  by (induction xs) auto

lemma mem_apply_view: "mem_view (mem_apply c s) = apply_cmd c (mem_view s)"
proof (cases c)
  case (HINCRBY k f n)
  then show ?thesis by (auto simp: mem_view_def hash_get_def fun_eq_iff)
next
  case (ZADD k sc m)
  then show ?thesis by (auto simp: mem_view_def fun_eq_iff map_of_filter_key [of "\<lambda>x. x \<noteq> (k, m)"])
next
  case (ZREM k m)
  then show ?thesis by (auto simp: mem_view_def fun_eq_iff map_of_filter_key [of "\<lambda>x. x \<noteq> (k, m)"])
next
  case (ZREMRANGEBYSCORE k mx)
  then show ?thesis
    by (auto simp: mem_view_def fun_eq_iff
        map_of_filter_key [of "\<lambda>x. case map_of (mem_zset s) x of Some sc \<Rightarrow> \<not> (fst x = k \<and> sc \<le> mx) | None \<Rightarrow> True"]
        split: option.split)
qed (auto simp: mem_view_def fun_eq_iff)

lemma mem_fold_view: "mem_view (fold mem_apply cs s) = apply_cmds cs (mem_view s)"
  unfolding apply_cmds_def by (induction cs arbitrary: s) (simp_all add: mem_apply_view)

lemma next_fault_view: "next_fault s = (s1, f) \<Longrightarrow> mem_view s1 = mem_view s"
  by (auto simp: next_fault_def mem_view_def split: list.splits)

lemma mem_read_view: "mem_read f s = (s1, x) \<Longrightarrow> mem_view s1 = mem_view s"
  by (auto simp: mem_read_def dest: next_fault_view split: prod.splits fault.splits)

lemma mem_read_value:
  "mem_read f s = (s1, Inr x) \<Longrightarrow> x = f s1"
  by (auto simp: mem_read_def split: prod.splits fault.splits)

lemma set_mem_members:
  "(m, sc) \<in> set (mem_members k s) \<longleftrightarrow> v_zset (mem_view s) k m = Some sc"
proof -
  have "(m, sc) \<in> set (mem_members k s) \<longleftrightarrow> ((k, m), sc) \<in> set (AList.clearjunk (mem_zset s))"
    by (force simp: mem_members_def)
  also have "\<dots> \<longleftrightarrow> map_of (AList.clearjunk (mem_zset s)) (k, m) = Some sc"
    by (rule map_of_eq_Some_iff [symmetric]) (rule distinct_clearjunk)
  also have "\<dots> \<longleftrightarrow> v_zset (mem_view s) k m = Some sc"
    by (simp add: map_of_clearjunk mem_view_def)
  finally show ?thesis .
qed

lemma sorted_mem_members: "sorted (map snd (mem_members k s))"
  unfolding mem_members_def by simp

lemma mem_zfirst_None: "mem_zfirst k mx s = None \<Longrightarrow> v_zset (mem_view s) k m = Some sc \<Longrightarrow> mx < sc"
  using sorted_mem_members [of k s] set_mem_members [of m sc k s]
  by (fastforce simp: mem_zfirst_def split: list.splits if_splits)

lemma mem_zfirst_Some:
  "mem_zfirst k mx s = Some (m, sc) \<Longrightarrow> v_zset (mem_view s) k m = Some sc \<and> sc \<le> mx \<and>
   (v_zset (mem_view s) k m' = Some sc' \<longrightarrow> sc \<le> sc')"
  using sorted_mem_members [of k s] set_mem_members [of m sc k s] set_mem_members [of m' sc' k s]
  by (fastforce simp: mem_zfirst_def split: list.splits if_splits)

interpretation memr: redis_server mem_redis
proof
  fix cs r r' assume "rd_exec mem_redis cs r = (r', None)"
  then show "rd_view mem_redis r' = apply_cmds cs (rd_view mem_redis r)"
    by (auto simp: mem_redis_def mem_exec_def mem_fold_view dest: next_fault_view split: prod.splits fault.splits)
next
  fix cs r r' e assume "rd_exec mem_redis cs r = (r', Some e)"
  then show "rd_view mem_redis r' = rd_view mem_redis r \<or> rd_view mem_redis r' = apply_cmds cs (rd_view mem_redis r)"
    by (auto simp: mem_redis_def mem_exec_def mem_fold_view dest: next_fault_view split: prod.splits fault.splits)
next
  fix k mx r r' m s assume "rd_zfirst mem_redis k mx r = (r', Inr None)" "v_zset (rd_view mem_redis r) k m = Some s"
  then show "mx < s"
    using mem_zfirst_None [of k mx r' m s] mem_read_view [of "mem_zfirst k mx" r r' "Inr None"]
      mem_read_value [of "mem_zfirst k mx" r r' None] by (simp add: mem_redis_def)
next
  fix k mx r r' m s assume z: "rd_zfirst mem_redis k mx r = (r', Inr (Some (m, s)))"
  then have "mem_view r' = mem_view r" "mem_zfirst k mx r' = Some (m, s)"
    by (auto simp: mem_redis_def dest: mem_read_view mem_read_value)
  with mem_zfirst_Some [of k mx r' m s]
  show "v_zset (rd_view mem_redis r) k m = Some s \<and> s \<le> mx \<and>
      (\<forall>m' s'. v_zset (rd_view mem_redis r) k m' = Some s' \<longrightarrow> s \<le> s')" by (auto simp: mem_redis_def)
next
  fix k r r' x assume "rd_get mem_redis k r = (r', Inr x)"
  then have "mem_view r' = mem_view r" "x = map_option fst (map_of (mem_str r') k)"
    by (auto simp: mem_redis_def dest: mem_read_view mem_read_value)
  then show "x = map_option fst (v_str (rd_view mem_redis r) k)"
    by (auto simp: mem_redis_def mem_view_def)
next
  fix k r r' ms assume "rd_smembers mem_redis k r = (r', Inr ms)"
  then have "mem_view r' = mem_view r" "ms = map snd [x \<leftarrow> mem_set r'. fst x = k]"
    by (auto simp: mem_redis_def dest: mem_read_view mem_read_value)
  moreover have "set (map snd [x \<leftarrow> mem_set r'. fst x = k]) = v_set (mem_view r') k"
    by (force simp: mem_view_def)
  ultimately show "set ms = v_set (rd_view mem_redis r) k" by (simp add: mem_redis_def)
qed (auto simp: mem_redis_def dest: mem_read_view)

section \<open>float64 keeps the order of times\<close>

lemma bit_len_bounds: "0 < n \<Longrightarrow> 2 ^ (bit_len n - 1) \<le> n \<and> n < 2 ^ bit_len n"
proof (induction n rule: bit_len.induct)
  case (1 n)
  show ?case
  proof (cases "n div 2 = 0")
    case True
    with 1 have "n = 1" by simp
    then show ?thesis by (simp add: bit_len.simps)
  next
    case False
    with 1 have IH: "2 ^ (bit_len (n div 2) - 1) \<le> n div 2" "n div 2 < 2 ^ bit_len (n div 2)" by simp_all
    have b: "bit_len n = Suc (bit_len (n div 2))" "0 < bit_len (n div 2)"
      using 1 False by (simp_all add: bit_len.simps)
    then obtain j where j: "bit_len (n div 2) = Suc j" by (cases "bit_len (n div 2)") auto
    with IH b show ?thesis by auto
  qed
qed

lemma bit_len_mono: "n \<le> n' \<Longrightarrow> bit_len n \<le> bit_len n'"
proof (cases "n = 0")
  case False
  assume le: "n \<le> n'"
  with False have "2 ^ (bit_len n - 1) < (2::nat) ^ bit_len n'"
    using bit_len_bounds [of n] bit_len_bounds [of n'] by linarith
  then have "bit_len n - 1 < bit_len n'" by simp
  then show ?thesis by simp
qed (simp add: bit_len.simps)

lemma round_even_bounds: "0 < m \<Longrightarrow> n div m * m \<le> round_even m n \<and> round_even m n \<le> (n div m + 1) * m"
  by (auto simp: round_even_def Let_def)

lemma round_even_mono:
  assumes m: "0 < m" and le: "n \<le> n'"
  shows "round_even m n \<le> round_even m n'"
proof (cases "n div m = n' div m")
  case True
  then have "n mod m \<le> n' mod m" using le
    by (metis add_le_cancel_left mult.commute mult_div_mod_eq)
  with True show ?thesis by (auto simp: round_even_def Let_def)
next
  case False
  with div_le_mono [OF le, of m] have "n div m + 1 \<le> n' div m" by linarith
  then have "(n div m + 1) * m \<le> n' div m * m" by (rule mult_le_mono1)
  with round_even_bounds [OF m, of n] round_even_bounds [OF m, of n'] show ?thesis by linarith
qed

lemma round_even_error:
  assumes "0 < m" shows "2 * \<bar>int (round_even m n) - int n\<bar> \<le> int m"
proof -
  define q r where "q = n div m" and "r = n mod m"
  have n: "n = q * m + r" by (simp add: q_def r_def)
  have r: "r < m" using assms by (simp add: r_def)
  have "round_even m n = (if 2 * r < m \<or> 2 * r = m \<and> even q then q * m else q * m + m)"
    by (simp add: round_even_def Let_def q_def r_def)
  then show ?thesis using r by (auto simp: n)
qed

lemma round_even_dvd:
  assumes "m dvd u" "0 < m" "n \<le> u" shows "round_even m n \<le> u"
proof -
  have "round_even m u = u" using assms by (simp add: round_even_def Let_def)
  with round_even_mono [OF assms(2,3)] show ?thesis by simp
qed

lemma round_even_dvd_ge:
  assumes "m dvd u" "0 < m" "u \<le> n" shows "u \<le> round_even m n"
proof -
  have "round_even m u = u" using assms by (simp add: round_even_def Let_def)
  with round_even_mono [OF assms(2,3)] show ?thesis by simp
qed

lemma float64_mono:
  assumes "0 \<le> t" "t \<le> u"
  shows "float64 t \<le> float64 u"
proof -
  define n n' where "n = nat t" and "n' = nat u"
  have le: "n \<le> n'" using assms by (simp add: n_def n'_def)
  have f: "float64 t = int (round_even (2 ^ (bit_len n - 53)) n)"
    "float64 u = int (round_even (2 ^ (bit_len n' - 53)) n')"
    using assms by (simp_all add: float64_def Let_def n_def n'_def)
  show ?thesis
  proof (cases "bit_len n = bit_len n' \<or> n = 0")
    case True
    moreover have "round_even (2 ^ (bit_len 0 - 53)) 0 = 0" by (simp add: round_even_def)
    ultimately show ?thesis using round_even_mono [OF _ le, of "2 ^ (bit_len n' - 53)"] unfolding f by auto
  next
    case False
    with bit_len_mono [OF le] have lt: "bit_len n < bit_len n'" by simp
    have "round_even (2 ^ (bit_len n - 53)) n \<le> 2 ^ bit_len n"
      using False bit_len_bounds [of n] by (intro round_even_dvd le_imp_power_dvd) simp_all
    also have "\<dots> \<le> 2 ^ (bit_len n' - 1)" using lt by simp
    also have "\<dots> \<le> round_even (2 ^ (bit_len n' - 53)) n'"
      using False le bit_len_bounds [of n'] by (intro round_even_dvd_ge le_imp_power_dvd) simp_all
    finally show ?thesis unfolding f by simp
  qed
qed

lemma float64_error:
  assumes "0 \<le> t" "t < 2 ^ 61"
  shows "\<bar>float64 t - t\<bar> \<le> 128"
proof -
  define n where "n = nat t"
  have "n < 2 ^ 61" using assms by (simp add: n_def nat_less_iff)
  moreover have "2 ^ (bit_len n - 1) \<le> n" if "0 < n" using bit_len_bounds [OF that] ..
  ultimately have "2 ^ (bit_len n - 1) < (2::nat) ^ 61" if "0 < n" using that le_less_trans by blast
  then have "bit_len n - 1 < 61" if "0 < n" using that by (metis one_less_numeral_iff power_less_imp_less_exp semiring_norm(76))
  moreover have "bit_len 0 = 0" by (simp add: bit_len.simps)
  ultimately have "bit_len n - 53 \<le> 8" by (cases "n = 0") auto
  then have m: "(2::int) ^ (bit_len n - 53) \<le> 2 ^ 8" by (rule power_increasing) simp
  have "2 * \<bar>float64 t - t\<bar> \<le> int (2 ^ (bit_len n - 53))"
    using round_even_error [of "2 ^ (bit_len n - 53)" n] assms by (simp add: float64_def Let_def n_def)
  also have "\<dots> \<le> 256" using m by simp
  finally show ?thesis by simp
qed

section \<open>Dequeue, Retry and their helpers\<close>

lemma exec_with_data_OkD:
  assumes "redis_server R" "exec_with_data R m cmds r = (r', None)"
  shows "\<exists>d. rd_marshal R m = Some d \<and> rd_view R r' = apply_cmds (cmds d) (rd_view R r)"
  using assms(2) redis_server.exec_ok [OF assms(1)]
  by (auto simp: exec_with_data_def split: option.splits prod.splits)

lemma Dequeue_OkD:
  assumes "Dequeue R q ctxNil now r = (r', Inr (Some m))"
  obtains r1 r2 r3 i sc msg where
    "rd_zfirst R (pendingKey q) (float64 now) r = (r1, Inr (Some (i, sc)))"
    "rd_exec R [ZREM (pendingKey q) i, SADD (processingKey q) i] r1 = (r2, None)"
    "GetMessage R q i r2 = (r3, Inr msg)"
    "m = msg\<lparr>msg_Status := StatusSending, msg_Attempts := msg_Attempts msg + 1, msg_LastAttempt := Some now\<rparr>"
    "updateMessage R q m r3 = (r', None)"
  using assms unfolding Dequeue_def Let_def
  by (auto split: option.splits sum.splits prod.splits)

lemma updateMessage_OkD:
  assumes "redis_server R" "updateMessage R q m r = (r', None)"
  shows "\<exists>d. rd_marshal R m = Some d \<and>
     rd_view R r' = apply_cmd (SET (messageKey q (msg_ID m)) d 0) (rd_view R r)"
  using assms(2) redis_server.exec_ok [OF assms(1)]
  by (auto simp: updateMessage_def apply_cmds_def split: option.splits prod.splits)

lemma calculateNextRetry_bounds:
  assumes "base = retry_intervals ! nat (max 0 (min 8 (attempts - 1)))"
  shows "now + base - base div 20 \<le> calculateNextRetry attempts now \<and>
         calculateNextRetry attempts now < now + base + base div 20"
proof -
  have len: "length retry_intervals = 9" by (simp add: retry_intervals_def)
  have all: "\<forall>b \<in> set retry_intervals. 0 < b div 10 \<and> b div 10 div 2 = b div 20 \<and> b div 10 = 2 * (b div 20)"
    by code_simp
  define idx where "idx = nat (max 0 (min 8 (attempts - 1)))"
  have "idx < 9" by (simp add: idx_def)
  then have "base \<in> set retry_intervals" unfolding assms idx_def [symmetric] by (metis len nth_mem)
  with all have jr: "0 < base div 10" "base div 10 div 2 = base div 20" "base div 10 = 2 * (base div 20)"
    by blast+
  have i: "nat (if (if attempts - 1 < 0 then 0 else attempts - 1) \<ge> 9 then 9 - 1
      else if attempts - 1 < 0 then 0 else attempts - 1) = idx" by (auto simp: idx_def)
  have "calculateNextRetry attempts now = now + (base + (now mod (base div 10) - base div 10 div 2))"
    using jr(1) unfolding calculateNextRetry_def len Let_def of_nat_numeral i assms idx_def [symmetric]
    by (simp only: if_True)
  moreover have "0 \<le> now mod (base div 10)" "now mod (base div 10) < base div 10" using jr(1) by simp_all
  ultimately show ?thesis using jr(2,3) by linarith
qed

text \<open>C24. A message that \<open>Dequeue\<close> hands out was pending, due, and no pending message was due earlier; it is
  afterwards out of the pending set, in the processing set, and stored again with its attempt counted,
  status \<open>sending\<close> and the time of the attempt. Nothing else of the data changed.\<close>

theorem Dequeue_takes_earliest:
  assumes "redis_server R" and "Dequeue R q ctxNil now r = (r', Inr (Some m))"
  shows "\<exists>i sc d ttl msg d'. v_zset (rd_view R r) (pendingKey q) i = Some sc \<and> sc \<le> float64 now \<and>
     (\<forall>i' sc'. v_zset (rd_view R r) (pendingKey q) i' = Some sc' \<longrightarrow> sc \<le> sc') \<and>
     v_str (rd_view R r) (messageKey q i) = Some (d, ttl) \<and> rd_unmarshal R d = Some msg \<and>
     m = msg\<lparr>msg_Status := StatusSending, msg_Attempts := msg_Attempts msg + 1, msg_LastAttempt := Some now\<rparr> \<and>
     rd_marshal R m = Some d' \<and>
     rd_view R r' = (rd_view R r)
       \<lparr>v_zset := (v_zset (rd_view R r))(pendingKey q := (v_zset (rd_view R r) (pendingKey q))(i := None)),
        v_set := (v_set (rd_view R r))(processingKey q := insert i (v_set (rd_view R r) (processingKey q))),
        v_str := (v_str (rd_view R r))(messageKey q (msg_ID m) \<mapsto> (d', 0))\<rparr>"
proof -
  from assms(2) obtain r1 r2 r3 i sc msg where
    z: "rd_zfirst R (pendingKey q) (float64 now) r = (r1, Inr (Some (i, sc)))" and
    mv: "rd_exec R [ZREM (pendingKey q) i, SADD (processingKey q) i] r1 = (r2, None)" and
    g: "GetMessage R q i r2 = (r3, Inr msg)" and
    m: "m = msg\<lparr>msg_Status := StatusSending, msg_Attempts := msg_Attempts msg + 1, msg_LastAttempt := Some now\<rparr>" and
    u: "updateMessage R q m r3 = (r', None)" by (rule Dequeue_OkD)
  note zf = redis_server.zfirst_some [OF assms(1) z]
  have v1: "rd_view R r1 = rd_view R r" by (rule redis_server.zfirst_view [OF assms(1) z])
  have v2: "rd_view R r2 = apply_cmds [ZREM (pendingKey q) i, SADD (processingKey q) i] (rd_view R r)"
    using redis_server.exec_ok [OF assms(1) mv] v1 by simp
  have v3: "rd_view R r3 = rd_view R r2" by (rule redis_server.GetMessage_view [OF assms(1) g])
  obtain d ttl where d: "v_str (rd_view R r2) (messageKey q i) = Some (d, ttl)" "rd_unmarshal R d = Some msg"
    using redis_server.GetMessage_value [OF assms(1) g] by blast
  obtain d' where d': "rd_marshal R m = Some d'"
    "rd_view R r' = apply_cmd (SET (messageKey q (msg_ID m)) d' 0) (rd_view R r3)"
    using updateMessage_OkD [OF assms(1) u] by blast
  have "v_str (rd_view R r) (messageKey q i) = Some (d, ttl)" using d(1) v2 by (simp add: apply_cmds_def)
  moreover have "rd_view R r' = (rd_view R r)
       \<lparr>v_zset := (v_zset (rd_view R r))(pendingKey q := (v_zset (rd_view R r) (pendingKey q))(i := None)),
        v_set := (v_set (rd_view R r))(processingKey q := insert i (v_set (rd_view R r) (processingKey q))),
        v_str := (v_str (rd_view R r))(messageKey q (msg_ID m) \<mapsto> (d', 0))\<rparr>"
    unfolding d'(2) v3 v2 by (simp add: apply_cmds_def)
  ultimately show ?thesis using zf d(2) m d'(1) by blast
qed


lemma Fail_OkD:
  assumes "redis_server R" and "Fail R q now i reason r = (r', None)" and "GetMessage R q i r = (r1, Inr msg)"
  shows "\<exists>d. rd_marshal R (msg\<lparr>msg_Status := StatusFailed, msg_LastError := reason\<rparr>) = Some d \<and>
     rd_view R r' = apply_cmds (fail_cmds q now i d) (rd_view R r)"
  using exec_with_data_OkD [OF assms(1)] redis_server.GetMessage_view [OF assms(1,3)] assms(2,3)
  by (fastforce simp: Fail_def)

lemma GetMessage_again:
  assumes "redis_server R" and "GetMessage R q i r = (r1, Inr msg)" and "GetMessage R q i r1 = (r2, Inr msg')"
  shows "msg' = msg"
  using redis_server.GetMessage_value [OF assms(1,2)] redis_server.GetMessage_value [OF assms(1,3)]
    redis_server.GetMessage_view [OF assms(1,2)] by auto

text \<open>C26. \<open>Retry\<close> gives up exactly when the attempts are used up or the message is older than the configured
  age. When it reports success the message has left the processing set; it is then either recorded as
  failed, kept for 30 days, with the reason as its last error, or pending again for a time that the
  back-off table gives up to 5% of jitter.\<close>

theorem Retry_policy:
  assumes "redis_server R" and "GetMessage R q i r = (r1, Inr msg)" and "Retry R q now i err r = (r', None)"
  shows "v_set (rd_view R r') (processingKey q) = v_set (rd_view R r) (processingKey q) - {i} \<and>
     (if msg_Attempts msg \<ge> msg_MaxAttempts msg \<or> since now (msg_CreatedAt msg) > RetryMaxAge (q_config q)
      then v_zset (rd_view R r') (pendingKey q) = v_zset (rd_view R r) (pendingKey q) \<and>
           v_zset (rd_view R r') (failedKey q) i = Some (float64 now) \<and>
           (\<exists>d reason. v_str (rd_view R r') (messageKey q i) = Some (d, 30 * 24 * Hour) \<and>
              reason \<in> {''max attempts exceeded'', ''message expired''} \<and>
              rd_marshal R (msg\<lparr>msg_Status := StatusFailed, msg_LastError := reason\<rparr>) = Some d)
      else v_zset (rd_view R r') (failedKey q) = v_zset (rd_view R r) (failedKey q) \<and>
           (\<exists>d next base. v_zset (rd_view R r') (pendingKey q) i = Some (float64 next) \<and>
              base = retry_intervals ! nat (max 0 (min 8 (msg_Attempts msg - 1))) \<and>
              now + base - base div 20 \<le> next \<and> next < now + base + base div 20 \<and>
              v_str (rd_view R r') (messageKey q i) = Some (d, 0) \<and>
              rd_marshal R (msg\<lparr>msg_LastError := err, msg_NextAttempt := Some next,
                msg_Status := StatusDeferred\<rparr>) = Some d))"
proof -
  have v1: "rd_view R r1 = rd_view R r" by (rule redis_server.GetMessage_view [OF assms(1,2)])
  let ?giveup = "msg_Attempts msg \<ge> msg_MaxAttempts msg \<or> since now (msg_CreatedAt msg) > RetryMaxAge (q_config q)"
  show ?thesis
  proof (cases ?giveup)
    case True
    with assms(2,3) obtain reason where reason: "reason \<in> {''max attempts exceeded'', ''message expired''}"
      and f: "Fail R q now i reason r1 = (r', None)"
      by (auto simp: Retry_def Let_def split: if_splits)
    then obtain r2 msg' where g: "GetMessage R q i r1 = (r2, Inr msg')"
      by (auto simp: Fail_def split: prod.splits sum.splits)
    with Fail_OkD [OF assms(1) f g] GetMessage_again [OF assms(1,2)] obtain d where
      "rd_marshal R (msg\<lparr>msg_Status := StatusFailed, msg_LastError := reason\<rparr>) = Some d"
      "rd_view R r' = apply_cmds (fail_cmds q now i d) (rd_view R r)" by (auto simp: v1)
    with True reason show ?thesis by (auto simp: apply_cmds_def fail_cmds_def)
  next
    case False
    let ?next = "calculateNextRetry (msg_Attempts msg) now"
    let ?msg = "msg\<lparr>msg_LastError := err, msg_NextAttempt := Some ?next, msg_Status := StatusDeferred\<rparr>"
    from False assms(2,3) have "exec_with_data R ?msg (retry_cmds q ?next i) r1 = (r', None)"
      by (simp add: Retry_def Let_def)
    from exec_with_data_OkD [OF assms(1) this] obtain d where "rd_marshal R ?msg = Some d"
      "rd_view R r' = apply_cmds (retry_cmds q ?next i d) (rd_view R r)" by (auto simp: v1)
    with False calculateNextRetry_bounds [OF refl, of now "msg_Attempts msg"] show ?thesis
      by (simp add: apply_cmds_def retry_cmds_def) blast
  qed
qed

lemma contains_loop_iff: "contains_loop s p \<longleftrightarrow> Contains s p"
proof (induction s)
  case (Cons c s)
  have "\<not> Contains (c # s) p" if "length (c # s) < length p" using that Contains_length by fastforce
  with Cons show ?case by (auto simp: Contains_def HasPrefix_def)
qed (simp add: Contains_def)

text \<open>The hand-written \<open>contains\<close>, which decides whether a Redis error is worth retrying, is exactly
  \<open>strings.Contains\<close>: it is case-sensitive, whatever its comment says.\<close>

theorem contains_is_Contains: "contains s substr = Contains s substr"
proof -
  have "Contains s s" "Contains s []" by (simp_all add: Contains_prefix)
  then show ?thesis using Contains_length by (auto simp: contains_def contains_loop_iff)
qed

text \<open>\<open>NewRedisQueue\<close> succeeds only when the very first ping does: the error of a failed ping is kept
  even if a later ping of the retry loop gets through.\<close>

theorem NewRedisQueue_needs_first_ping:
  "NewRedisQueue cfg None pings = Inr q \<longleftrightarrow> pings 0 = None \<and> q = \<lparr>q_config = cfg, q_closed = False\<rparr>"
  by (auto simp: NewRedisQueue_def numeral_3_eq_3 split: option.splits)

section \<open>Witnesses\<close>

definition wq :: redis_queue where
  "wq = \<lparr>q_config = DefaultConfig_queue, q_closed = False\<rparr>"

definition wmsg :: message where
  "wmsg = \<lparr>msg_ID = ''a'', msg_Sender = ''s@x'', msg_Recipients = [''r@y''], msg_MessagePath = ''/q/a'',
     msg_Size = 10, msg_Attempts = 0, msg_MaxAttempts = 2, msg_LastAttempt = None, msg_NextAttempt = None,
     msg_LastError = [], msg_Status = StatusSending, msg_CreatedAt = None, msg_Domain = ''y''\<rparr>"

text \<open>The first transaction is applied but its reply is lost: the retry counts the message twice.\<close>

definition wmem :: mem where
  "wmem = mem_empty\<lparr>mem_faults := [FailsAfter ''read: EOF'']\<rparr>"

definition wmem1 :: mem where
  "wmem1 = fst (Enqueue mem_redis wq False None 100 (Some wmsg) wmem)"

definition wmem2 :: mem where
  "wmem2 = fst (Dequeue mem_redis wq False 200 wmem1)"

lemma wmem1_eq: "Enqueue mem_redis wq False None 100 (Some wmsg) wmem = (wmem1, Inr (prepare_msg wq None 100 wmsg))"
  unfolding wmem1_def prod_eq_iff by code_simp

lemma wmem2_eq: "Dequeue mem_redis wq False 200 wmem1 = (wmem2, Inr (Some ((prepare_msg wq None 100 wmsg)
    \<lparr>msg_Status := StatusSending, msg_Attempts := 1, msg_LastAttempt := Some 200\<rparr>)))"
  unfolding wmem2_def prod_eq_iff by code_simp

theorem Enqueue_stores_witness:
  "v_zset (rd_view mem_redis wmem1) (pendingKey wq) ''a'' = Some (float64 100) \<and>
   v_hash (rd_view mem_redis wmem1) (statsKey wq) ''enqueued'' \<in> {1..3}"
proof -
  have "msg_ID (prepare_msg wq None 100 wmsg) = ''a''" "msg_NextAttempt (prepare_msg wq None 100 wmsg) = Some 100"
    "v_hash (rd_view mem_redis wmem) (statsKey wq) ''enqueued'' = 0" by code_simp+
  with Enqueue_stores [OF memr.redis_server_axioms wmem1_eq] show ?thesis
    by (auto simp: score_of_def)
qed


theorem Dequeue_takes_earliest_witness:
  "\<exists>i sc. v_zset (rd_view mem_redis wmem1) (pendingKey wq) i = Some sc \<and> sc \<le> float64 200 \<and>
     i \<in> v_set (rd_view mem_redis wmem2) (processingKey wq)"
proof -
  from Dequeue_takes_earliest [OF memr.redis_server_axioms wmem2_eq] obtain i sc d' where
    "v_zset (rd_view mem_redis wmem1) (pendingKey wq) i = Some sc" "sc \<le> float64 200"
    "v_set (rd_view mem_redis wmem2) = (v_set (rd_view mem_redis wmem1))(processingKey wq :=
       insert i (v_set (rd_view mem_redis wmem1) (processingKey wq)))" by auto
  then show ?thesis by auto
qed


theorem Retry_policy_witness:
  "\<exists>next. v_zset (rd_view mem_redis (fst (Retry mem_redis wq 300 ''a'' ''timeout'' wmem2))) (pendingKey wq) ''a'' =
       Some (float64 next) \<and> 300 + 285 * Second \<le> next \<and> next < 300 + 315 * Second"
proof -
  let ?msg = "(prepare_msg wq None 100 wmsg)\<lparr>msg_Status := StatusSending, msg_Attempts := 1, msg_LastAttempt := Some 200\<rparr>"
  have g: "GetMessage mem_redis wq ''a'' wmem2 = (wmem2, Inr ?msg)" unfolding prod_eq_iff by code_simp
  have c: "\<not> (msg_Attempts ?msg \<ge> msg_MaxAttempts ?msg \<or> since 300 (msg_CreatedAt ?msg) > RetryMaxAge (q_config wq))"
    "retry_intervals ! nat (max 0 (min 8 (msg_Attempts ?msg - 1))) = 300 * Second"
    "next_fault wmem2 = (wmem2, Works)" by code_simp+
  have "snd (exec_with_data mem_redis m cs wmem2) = None" for m cs
    using c(3) by (simp add: exec_with_data_def mem_redis_def mem_exec_def)
  then have r: "Retry mem_redis wq 300 ''a'' ''timeout'' wmem2 = (fst (Retry mem_redis wq 300 ''a'' ''timeout'' wmem2), None)"
    using c(1) unfolding prod_eq_iff by (simp add: Retry_def g Let_def)
  note c(1,2)
  moreover have "(300 * Second) div 20 = 15 * Second" by (simp add: go_time)
  ultimately have "\<exists>next base. v_zset (rd_view mem_redis (fst (Retry mem_redis wq 300 ''a'' ''timeout'' wmem2)))
      (pendingKey wq) ''a'' = Some (float64 next) \<and> base = 300 * Second \<and>
      300 + base - base div 20 \<le> next \<and> next < 300 + base + base div 20"
    using Retry_policy [OF memr.redis_server_axioms g r] by (metis (no_types, lifting))
  then show ?thesis using \<open>(300 * Second) div 20 = 15 * Second\<close> by force
qed

end
