(* ===== verification/Go_Net.thy ===== *)
theory Go_Net
  imports Go_Prelude
begin

text \<open>
  Package net, as far as the greylist and the rate limiter use it: \<open>SplitHostPort\<close>, \<open>ParseIP\<close> (with
  the parsers of net/netip behind it), \<open>To4\<close>, masking and printing of addresses. An address is the
  list of its eight 16-bit groups, as the 16 bytes of a \<open>net.IP\<close>; an IPv4 address is the mapped
  address \<open>::ffff:a.b.c.d\<close>.
\<close>

section \<open>Hosts and ports\<close>

definition index_byte :: "string \<Rightarrow> char \<Rightarrow> nat option" where
  "index_byte s c = Index s [c]"

text \<open>The error value is \<open>None\<close>; the callers only test for it.\<close>

definition SplitHostPort :: "string \<Rightarrow> (string \<times> string) option" where
  "SplitHostPort hostport =
     (case LastIndex hostport '':'' of
        None \<Rightarrow> None
      | Some i \<Rightarrow>
          (let finish = (\<lambda>host j k.
                 if CHR ''['' \<in> set (drop j hostport) \<or> CHR '']'' \<in> set (drop k hostport) then None
                 else Some (host, drop (i + 1) hostport))
           in if hd hostport = CHR ''['' then
                (case Index hostport '']'' of
                   None \<Rightarrow> None
                 | Some e \<Rightarrow> if e + 1 = i then finish (take (e - 1) (drop 1 hostport)) 1 (e + 1) else None)
              else (let host = take i hostport
                    in if CHR '':'' \<in> set host then None else finish host 0 0)))"

section \<open>Parsing addresses\<close>

definition hex_val :: "char \<Rightarrow> nat option" where
  "hex_val c =
     (let n = (of_char c :: nat)
      in if 48 \<le> n \<and> n \<le> 57 then Some (n - 48)
         else if 97 \<le> n \<and> n \<le> 102 then Some (n - 87)
         else if 65 \<le> n \<and> n \<le> 70 then Some (n - 55)
         else None)"

definition parse_octet :: "string \<Rightarrow> nat option" where
  "parse_octet s =
     (if s = [] \<or> (length s > 1 \<and> hd s = CHR ''0'') then None
      else (case parse_digits 0 s of
              None \<Rightarrow> None
            | Some v \<Rightarrow> if v \<le> 255 then Some v else None))"

definition parseIPv4Fields :: "string \<Rightarrow> nat list option" where
  "parseIPv4Fields s =
     (let ps = Split s (CHR ''.'')
      in if length ps \<noteq> 4 \<or> list_ex (\<lambda>p. parse_octet p = None) ps then None
         else Some (map (\<lambda>p. the (parse_octet p)) ps))"

definition v4_groups :: "nat list \<Rightarrow> nat list" where
  "v4_groups os = [0, 0, 0, 0, 0, 65535, os ! 0 * 256 + os ! 1, os ! 2 * 256 + os ! 3]"

fun hex_acc :: "nat \<Rightarrow> string \<Rightarrow> nat" where
  "hex_acc acc [] = acc"
| "hex_acc acc (c # s) = hex_acc (acc * 16 + the (hex_val c)) s"

text \<open>The loop of \<open>parseIPv6\<close>: the groups read so far, the position of the ellipsis, the rest of the
  text; \<open>fuel\<close> bounds the eight rounds of \<open>for i < 16\<close>. The result is the groups, the ellipsis and the
  text left over.\<close>

fun v6_loop :: "nat \<Rightarrow> nat list \<Rightarrow> nat option \<Rightarrow> string \<Rightarrow> (nat list \<times> nat option \<times> string) option" where
  "v6_loop 0 gs ell s = Some (gs, ell, s)"
| "v6_loop (Suc fuel) gs ell s =
     (if length gs \<ge> 8 then Some (gs, ell, s)
      else (let h = takeWhile (\<lambda>c. hex_val c \<noteq> None) s; r = drop (length h) s
       in if length h = 0 \<or> length h > 4 then None
          else if r \<noteq> [] \<and> hd r = CHR ''.'' then
            (if ell = None \<and> length gs \<noteq> 6 then None
             else if length gs + 2 > 8 then None
             else (case parseIPv4Fields s of
                     None \<Rightarrow> None
                   | Some os \<Rightarrow> Some (gs @ [os ! 0 * 256 + os ! 1, os ! 2 * 256 + os ! 3], ell, [])))
          else (let gs' = gs @ [hex_acc 0 h]
            in case r of
                 [] \<Rightarrow> Some (gs', ell, [])
               | c # r' \<Rightarrow>
                   (if c \<noteq> CHR '':'' \<or> r' = [] then None
                    else if hd r' = CHR '':'' then
                      (if ell \<noteq> None then None
                       else if tl r' = [] then Some (gs', Some (length gs'), [])
                       else v6_loop fuel gs' (Some (length gs')) (tl r'))
                    else v6_loop fuel gs' ell r'))))"

definition parseIPv6 :: "string \<Rightarrow> nat list option" where
  "parseIPv6 s0 =
     (let lead = HasPrefix s0 ''::''; s = (if lead then drop 2 s0 else s0)
      in if lead \<and> s = [] then Some (replicate 8 0)
         else (case v6_loop 8 [] (if lead then Some 0 else None) s of
                 None \<Rightarrow> None
               | Some (gs, ell, rest) \<Rightarrow>
                   (if rest \<noteq> [] then None
                    else if length gs < 8 then
                      (case ell of
                         None \<Rightarrow> None
                       | Some e \<Rightarrow> Some (take e gs @ replicate (8 - length gs) 0 @ drop e gs))
                    else if ell \<noteq> None then None
                    else Some gs)))"

text \<open>\<open>ParseIP\<close>: the first dot, colon or percent sign decides; a zone is refused.\<close>

definition ParseIP :: "string \<Rightarrow> nat list option" where
  "ParseIP s =
     (case dropWhile (\<lambda>c. c \<notin> set ''.:%'') s of
        [] \<Rightarrow> None
      | c # _ \<Rightarrow>
          (if c = CHR ''.'' then map_option v4_groups (parseIPv4Fields s)
           else if c = CHR '':'' then (if CHR ''%'' \<in> set s then None else parseIPv6 s)
           else None))"

section \<open>Printing\<close>

definition To4 :: "nat list \<Rightarrow> nat list option" where
  "To4 gs = (if length gs = 8 \<and> take 6 gs = [0, 0, 0, 0, 0, 65535]
             then Some [gs ! 6 div 256, gs ! 6 mod 256, gs ! 7 div 256, gs ! 7 mod 256] else None)"

definition v4_string :: "nat list \<Rightarrow> string" where
  "v4_string os = Join (map show_nat os) ''.''"

definition hex_char :: "nat \<Rightarrow> char" where
  "hex_char d = (if d < 10 then char_of (48 + d) else char_of (87 + d))"

fun show_hex :: "nat \<Rightarrow> string" where
  "show_hex n = (if n < 16 then [hex_char n] else show_hex (n div 16) @ [hex_char (n mod 16)])"

declare show_hex.simps [simp del]

definition zero_run :: "nat list \<Rightarrow> nat \<Rightarrow> nat" where
  "zero_run gs i = length (takeWhile (\<lambda>g. g = 0) (drop i gs))"

text \<open>The first of the longest runs of at least two zero groups is printed as \<open>::\<close>.\<close>

fun best_run :: "nat list \<Rightarrow> nat list \<Rightarrow> nat \<Rightarrow> nat \<Rightarrow> nat \<times> nat" where
  "best_run gs [] bi bl = (bi, bl)"
| "best_run gs (i # js) bi bl = (if zero_run gs i > bl then best_run gs js i (zero_run gs i) else best_run gs js bi bl)"

definition v6_string :: "nat list \<Rightarrow> string" where
  "v6_string gs =
     (let (bi, bl) = best_run gs [0..<8] 0 1
      in if bl \<ge> 2 then Join (map show_hex (take bi gs)) '':'' @ ''::'' @ Join (map show_hex (drop (bi + bl) gs)) '':''
         else Join (map show_hex gs) '':'')"

section \<open>Reading printed addresses\<close>

lemma parse_octet_show: "n \<le> 255 \<Longrightarrow> parse_octet (show_nat n) = Some n"
proof -
  assume n: "n \<le> 255"
  have "length (show_nat n) = 1" if "n = 0" using that by (simp add: show_nat.simps)
  with n show_nat_hd [of n] show ?thesis by (cases "n = 0") (auto simp: parse_octet_def parse_show_nat)
qed

lemma digit_neq: "is_digit c \<Longrightarrow> c \<notin> set ''.:[]%''"
  by (auto simp: is_digit_def)

lemma set_Join: "set (Join ss sep) \<subseteq> \<Union> (set ` set ss) \<union> set sep"
  by (induction ss sep rule: Join.induct) auto

lemma parseIPv4_print:
  assumes "list_all (\<lambda>n. n \<le> 255) [a, b, c, d]"
  shows "parseIPv4Fields (v4_string [a, b, c, d]) = Some [a, b, c, d]"
proof -
  have "Split (v4_string [a, b, c, d]) (CHR ''.'') = map show_nat [a, b, c, d]"
    unfolding v4_string_def using show_nat_digits digit_neq by (intro Split_Join) fastforce+
  with assms show ?thesis by (simp add: parseIPv4Fields_def parse_octet_show)
qed

lemma v4_string_chars: "c \<in> set (v4_string os) \<Longrightarrow> is_digit c \<or> c = CHR ''.''"
  using set_Join [of "map show_nat os" "''.''"] show_nat_digits by (fastforce simp: v4_string_def)

text \<open>Reading a printed IPv4 address gives it back, as a mapped address.\<close>

lemma ParseIP_print:
  assumes "list_all (\<lambda>n. n \<le> 255) [a, b, c, d]"
  shows "ParseIP (v4_string [a, b, c, d]) = Some (v4_groups [a, b, c, d]) \<and>
         To4 (v4_groups [a, b, c, d]) = Some [a, b, c, d]"
proof
  let ?s = "v4_string [a, b, c, d]"
  have "CHR ''.'' \<in> set ?s" by (simp add: v4_string_def)
  then obtain x r where dw: "dropWhile (\<lambda>c. c \<notin> set ''.:%'') ?s = x # r"
    by (cases "dropWhile (\<lambda>c. c \<notin> set ''.:%'') ?s") (auto simp: dropWhile_eq_Nil_conv)
  then have "x \<in> set ''.:%''" "x \<in> set ?s"
    by (metis dropWhile_eq_Cons_conv, metis list.set_intros(1) set_dropWhileD)
  then have "x = CHR ''.''" using v4_string_chars [of x] digit_neq [of x] by auto
  with dw show "ParseIP ?s = Some (v4_groups [a, b, c, d])"
    by (simp add: ParseIP_def parseIPv4_print [OF assms])
  show "To4 (v4_groups [a, b, c, d]) = Some [a, b, c, d]" using assms by (simp add: To4_def v4_groups_def)
qed

lemma LastIndex_None: "c \<notin> set s \<Longrightarrow> LastIndex s [c] = None"
  by (induction s) auto

lemma LastIndex_sep: "c \<notin> set b \<Longrightarrow> LastIndex (a @ c # b) [c] = Some (length a)"
proof (induction a)
  case Nil
  then show ?case by (simp add: LastIndex_None)
qed auto

lemma SplitHostPort_host:
  assumes "list_all (\<lambda>c. is_digit c \<or> c = CHR ''.'') host" "host \<noteq> []" "list_all is_digit port"
  shows "SplitHostPort (host @ '':'' @ port) = Some (host, port) \<and> SplitHostPort host = None"
proof -
  have n: "c \<notin> set host" "c \<notin> set port" if "c \<in> set '':[]''" for c
    using assms(1,3) that digit_neq by (auto simp: list_all_iff)
  have "hd (host @ '':'' @ port) \<noteq> CHR ''[''" using n(1) assms(2) by (cases host) auto
  then show ?thesis using n
    by (auto simp: SplitHostPort_def LastIndex_sep LastIndex_None)
qed

end
