(* ===== verification/Rate_Limiter.thy ===== *)
theory Rate_Limiter
  imports Go_Net "HOL-Library.Mapping"
begin

text \<open>
  \<^verbatim>\<open>internal/admin/ratelimit.go\<close>: the limiter of failed logins of the web console. The map of attempts is
  a partial function from client addresses to \<open>attemptInfo\<close>; the background cleanup is the operation
  \<open>cleanup_tick\<close>, run by the ticker between requests.
\<close>

section \<open>State and operations\<close>

record attemptInfo =
  ai_count :: int
  ai_firstTime :: time
  ai_blockedAt :: "time option"

record rate_limiter =
  rl_attempts :: "(string, attemptInfo) mapping"
  rl_maxAttempts :: int
  rl_windowSize :: duration
  rl_blockDuration :: duration

definition NewRateLimiter :: "int \<Rightarrow> duration \<Rightarrow> duration \<Rightarrow> rate_limiter" where
  "NewRateLimiter maxAttempts windowSize blockDuration =
     \<lparr>rl_attempts = Mapping.empty, rl_maxAttempts = maxAttempts, rl_windowSize = windowSize,
      rl_blockDuration = blockDuration\<rparr>"

definition DefaultRateLimiter :: rate_limiter where
  "DefaultRateLimiter = NewRateLimiter 5 (15 * Minute) (30 * Minute)"

text \<open>The part of a request that \<open>getIP\<close> reads: two headers (empty when absent) and the peer address.\<close>

record http_request =
  rq_XForwardedFor :: string
  rq_XRealIP :: string
  rq_RemoteAddr :: string

definition getIP :: "http_request \<Rightarrow> string" where
  "getIP r =
     (let xff = rq_XForwardedFor r; xri = rq_XRealIP r;
          direct = (case SplitHostPort (rq_RemoteAddr r) of None \<Rightarrow> rq_RemoteAddr r | Some (ip, _) \<Rightarrow> ip);
          real = (if xri \<noteq> [] \<and> ParseIP xri \<noteq> None then xri else direct)
      in if xff \<noteq> [] then
           (case SplitHostPort xff of
              Some (ip, _) \<Rightarrow> ip
            | None \<Rightarrow> if ParseIP xff \<noteq> None then xff else real)
         else real)"

definition IsBlocked :: "rate_limiter \<Rightarrow> time \<Rightarrow> string \<Rightarrow> bool" where
  "IsBlocked rl now ip =
     (case Mapping.lookup (rl_attempts rl) ip of
        None \<Rightarrow> False
      | Some info \<Rightarrow>
          (case ai_blockedAt info of
             None \<Rightarrow> False
           | Some t \<Rightarrow> now - t < rl_blockDuration rl))"

definition put :: "rate_limiter \<Rightarrow> string \<Rightarrow> attemptInfo \<Rightarrow> rate_limiter" where
  "put rl ip info = rl\<lparr>rl_attempts := Mapping.update ip info (rl_attempts rl)\<rparr>"

definition RecordFailure :: "rate_limiter \<Rightarrow> time \<Rightarrow> string \<Rightarrow> rate_limiter \<times> bool" where
  "RecordFailure rl now ip =
     (case Mapping.lookup (rl_attempts rl) ip of
        None \<Rightarrow> (put rl ip \<lparr>ai_count = 1, ai_firstTime = now, ai_blockedAt = None\<rparr>, False)
      | Some info \<Rightarrow>
          (if now - ai_firstTime info > rl_windowSize rl
           then (put rl ip \<lparr>ai_count = 1, ai_firstTime = now, ai_blockedAt = None\<rparr>, False)
           else (let info = info\<lparr>ai_count := ai_count info + 1\<rparr>
                 in if ai_count info \<ge> rl_maxAttempts rl
                    then (put rl ip (info\<lparr>ai_blockedAt := Some now\<rparr>), True)
                    else (put rl ip info, False))))"

definition RecordSuccess :: "rate_limiter \<Rightarrow> string \<Rightarrow> rate_limiter" where
  "RecordSuccess rl ip = rl\<lparr>rl_attempts := Mapping.delete ip (rl_attempts rl)\<rparr>"

definition RemainingAttempts :: "rate_limiter \<Rightarrow> time \<Rightarrow> string \<Rightarrow> int" where
  "RemainingAttempts rl now ip =
     (case Mapping.lookup (rl_attempts rl) ip of
        None \<Rightarrow> rl_maxAttempts rl
      | Some info \<Rightarrow>
          (if now - ai_firstTime info > rl_windowSize rl then rl_maxAttempts rl
           else (let remaining = rl_maxAttempts rl - ai_count info
                 in if remaining < 0 then 0 else remaining)))"

definition BlockedUntil :: "rate_limiter \<Rightarrow> string \<Rightarrow> time option" where
  "BlockedUntil rl ip =
     (case Mapping.lookup (rl_attempts rl) ip of
        None \<Rightarrow> None
      | Some info \<Rightarrow>
          (case ai_blockedAt info of
             None \<Rightarrow> None
           | Some t \<Rightarrow> Some (t + rl_blockDuration rl)))"

definition Stats_rl :: "rate_limiter \<Rightarrow> time \<Rightarrow> nat \<times> nat" where
  "Stats_rl rl now =
     (card (Mapping.keys (rl_attempts rl)),
      card (Set.filter (IsBlocked rl now) (Mapping.keys (rl_attempts rl))))"

text \<open>One tick of the cleanup loop.\<close>

definition cleanup_tick :: "rate_limiter \<Rightarrow> time \<Rightarrow> rate_limiter" where
  "cleanup_tick rl now =
     (let maxAge = rl_windowSize rl + rl_blockDuration rl
      in rl\<lparr>rl_attempts := Mapping.filter (\<lambda>ip info. \<not> now - ai_firstTime info > maxAge) (rl_attempts rl)\<rparr>)"

section \<open>Runs of the limiter\<close>

text \<open>
  The login handler asks \<open>IsBlocked\<close> first and records a result only for an address that is not
  blocked; the check and the record of one login are one step here, the logins of all addresses and
  the ticker interleave. A state carries the time of its last event.
\<close>

inductive rl_step :: "rate_limiter \<times> time \<Rightarrow> rate_limiter \<times> time \<Rightarrow> bool" where
  failure: "t \<le> now \<Longrightarrow> \<not> IsBlocked rl now ip \<Longrightarrow> rl_step (rl, t) (fst (RecordFailure rl now ip), now)"
| success: "t \<le> now \<Longrightarrow> \<not> IsBlocked rl now ip \<Longrightarrow> rl_step (rl, t) (RecordSuccess rl ip, now)"
| tick: "t \<le> now \<Longrightarrow> rl_step (rl, t) (cleanup_tick rl now, now)"

text \<open>A block is set within the window of its entry, and not in the future.\<close>

definition rl_ok :: "rate_limiter \<times> time \<Rightarrow> bool" where
  "rl_ok s \<longleftrightarrow> (\<forall>ip info b. Mapping.lookup (rl_attempts (fst s)) ip = Some info \<and> ai_blockedAt info = Some b \<longrightarrow>
     b \<le> snd s \<and> b - ai_firstTime info \<le> rl_windowSize (fst s))"

lemma put_simps [simp]:
  "Mapping.lookup (rl_attempts (put rl ip info)) = (Mapping.lookup (rl_attempts rl))(ip \<mapsto> info)"
  "rl_windowSize (put rl ip info) = rl_windowSize rl"
  "rl_blockDuration (put rl ip info) = rl_blockDuration rl"
  "rl_maxAttempts (put rl ip info) = rl_maxAttempts rl"
  by (simp_all add: put_def lookup_update' fun_eq_iff)

lemma lookup_success [simp]:
  "Mapping.lookup (rl_attempts (RecordSuccess rl ip)) = (Mapping.lookup (rl_attempts rl))(ip := None)"
  by (simp add: RecordSuccess_def lookup_delete fun_eq_iff)

lemma lookup_tick:
  "Mapping.lookup (rl_attempts (cleanup_tick rl now)) ip =
     (case Mapping.lookup (rl_attempts rl) ip of None \<Rightarrow> None
      | Some info \<Rightarrow> if now - ai_firstTime info > rl_windowSize rl + rl_blockDuration rl then None else Some info)"
  by (auto simp: cleanup_tick_def Let_def lookup_filter split: option.split)

lemma config_simps [simp]:
  "rl_windowSize (RecordSuccess rl ip) = rl_windowSize rl"
  "rl_blockDuration (RecordSuccess rl ip) = rl_blockDuration rl"
  "rl_windowSize (cleanup_tick rl now) = rl_windowSize rl"
  "rl_blockDuration (cleanup_tick rl now) = rl_blockDuration rl"
  "rl_windowSize (fst (RecordFailure rl now ip)) = rl_windowSize rl"
  "rl_blockDuration (fst (RecordFailure rl now ip)) = rl_blockDuration rl"
  "rl_maxAttempts (fst (RecordFailure rl now ip)) = rl_maxAttempts rl"
  by (simp_all add: RecordSuccess_def cleanup_tick_def RecordFailure_def Let_def split: option.split)

lemma RecordFailure_other:
  "ip' \<noteq> ip \<Longrightarrow> Mapping.lookup (rl_attempts (fst (RecordFailure rl now ip))) ip' = Mapping.lookup (rl_attempts rl) ip'"
  by (simp add: RecordFailure_def Let_def split: option.split)

lemma rl_ok_failure:
  assumes "rl_ok (rl, t)" "t \<le> now" shows "rl_ok (fst (RecordFailure rl now ip), now)"
proof -
  have ok: "b \<le> now \<and> b - ai_firstTime info \<le> rl_windowSize rl"
    if "Mapping.lookup (rl_attempts rl) ip' = Some info" "ai_blockedAt info = Some b" for ip' info b
    using assms that by (fastforce simp: rl_ok_def)
  show ?thesis unfolding rl_ok_def
    by (auto simp: RecordFailure_def Let_def split: option.splits if_splits dest: ok)
qed

interpretation rls: step_invariant "\<lambda>s. \<exists>m w b t. s = (NewRateLimiter m w b, t)" rl_step rl_ok
proof
  show "\<exists>m w b t. s = (NewRateLimiter m w b, t) \<Longrightarrow> rl_ok s" for s
    by (auto simp: rl_ok_def NewRateLimiter_def)
next
  fix s s' assume "rl_step s s'" "rl_ok s"
  then show "rl_ok s'"
  proof cases
    case (failure t now rl ip)
    with \<open>rl_ok s\<close> show ?thesis by (simp add: rl_ok_failure)
  next
    case (success t now rl ip)
    with \<open>rl_ok s\<close> show ?thesis by (fastforce simp: rl_ok_def)
  next
    case (tick t now rl)
    with \<open>rl_ok s\<close> show ?thesis by (fastforce simp: rl_ok_def lookup_tick split: option.splits if_splits)
  qed
qed

text \<open>A blocked address keeps the entry that blocks it, through every step up to the end of the block.\<close>

lemma blocked_kept:
  assumes "rl_step (rl, t) (rl', t')" "rl_ok (rl, t)"
    and "Mapping.lookup (rl_attempts rl) ip = Some info" "ai_blockedAt info = Some b"
    and "t' - b < rl_blockDuration rl"
  shows "Mapping.lookup (rl_attempts rl') ip = Some info \<and> rl_blockDuration rl' = rl_blockDuration rl"
proof -
  have blk: "IsBlocked rl t' ip" using assms(3-5) by (simp add: IsBlocked_def)
  show ?thesis using assms(1)
  proof cases
    case (failure ip')
    with blk have "ip' \<noteq> ip" by auto
    with failure assms(3) show ?thesis by (simp add: RecordFailure_other)
  next
    case (success ip')
    with blk have "ip' \<noteq> ip" by auto
    with success assms(3) show ?thesis by simp
  next
    case tick
    have "b - ai_firstTime info \<le> rl_windowSize rl" using assms(2-4) by (fastforce simp: rl_ok_def)
    with assms(5) have "\<not> t' - ai_firstTime info > rl_windowSize rl + rl_blockDuration rl" by linarith
    with tick assms(3) show ?thesis by (simp add: lookup_tick)
  qed
qed

lemma rl_step_time: "rl_step\<^sup>*\<^sup>* s s' \<Longrightarrow> snd s \<le> snd s'"
  by (induction rule: rtranclp_induct) (auto elim!: rl_step.cases)

lemma blocked_kept_steps:
  assumes "rl_step\<^sup>*\<^sup>* s s'" "rl_ok s"
    and "Mapping.lookup (rl_attempts (fst s)) ip = Some info" "ai_blockedAt info = Some b"
    and "snd s' - b < rl_blockDuration (fst s)"
  shows "Mapping.lookup (rl_attempts (fst s')) ip = Some info \<and> rl_blockDuration (fst s') = rl_blockDuration (fst s)"
  using assms(1,5)
proof (induction rule: rtranclp_induct)
  case (step s1 s2)
  from step(2) have "rl_step\<^sup>*\<^sup>* s1 s2" by blast
  then have "snd s1 \<le> snd s2" by (rule rl_step_time)
  with step have IH: "Mapping.lookup (rl_attempts (fst s1)) ip = Some info" "rl_blockDuration (fst s1) = rl_blockDuration (fst s)"
    by auto
  have "rl_ok s1" using rls.inv_steps [OF step(1) assms(2)] .
  with IH step(2,4) assms(4) blocked_kept [of "fst s1" "snd s1" "fst s2" "snd s2" ip info b] show ?case by simp
qed (simp add: assms(3))

section \<open>Properties\<close>


text \<open>Failures of one address at given times.\<close>

fun failures :: "rate_limiter \<Rightarrow> string \<Rightarrow> time list \<Rightarrow> rate_limiter \<times> bool list" where
  "failures rl ip [] = (rl, [])"
| "failures rl ip (t # ts) =
     (let (rl1, b) = RecordFailure rl t ip; (rl2, bs) = failures rl1 ip ts in (rl2, b # bs))"

lemma failures_within:
  assumes "Mapping.lookup (rl_attempts rl) ip = Some info" "rl_maxAttempts rl = m" "rl_windowSize rl = w"
    and "\<forall>t \<in> set ts. t - ai_firstTime info \<le> w"
  shows "snd (failures rl ip ts) = map (\<lambda>i. ai_count info + 1 + int i \<ge> m) [0..<length ts]"
  using assms
proof (induction ts arbitrary: rl info)
  case (Cons t ts)
  let ?info = "if ai_count info + 1 \<ge> m then info\<lparr>ai_count := ai_count info + 1, ai_blockedAt := Some t\<rparr>
    else info\<lparr>ai_count := ai_count info + 1\<rparr>"
  have rf: "RecordFailure rl t ip = (put rl ip ?info, ai_count info + 1 \<ge> m)"
    using Cons.prems by (simp add: RecordFailure_def Let_def)
  have "snd (failures (put rl ip ?info) ip ts) = map (\<lambda>i. ai_count ?info + 1 + int i \<ge> m) [0..<length ts]"
    using Cons.prems by (intro Cons.IH) auto
  then have IH: "snd (failures (put rl ip ?info) ip ts) = map (\<lambda>i. ai_count info + 1 + int (Suc i) \<ge> m) [0..<length ts]"
    by (simp add: algebra_simps)
  have "map (\<lambda>i. ai_count info + 1 + int i \<ge> m) [0..<length (t # ts)] =
      (ai_count info + 1 \<ge> m) # map (\<lambda>i. ai_count info + 1 + int (Suc i) \<ge> m) [0..<length ts]"
    by (simp add: upt_conv_Cons map_Suc_upt [symmetric] o_def del: upt_Suc)
  with IH rf show ?case by (simp add: split_beta)
qed simp

text \<open>Failed logins of one unknown address, all within one window after the first: the \<open>n\<close>th of them
  reports a block iff \<open>n\<close> is at least 2 and at least the configured maximum. The first failure never
  blocks, even with a maximum of 1.\<close>

theorem blocks_at_limit:
  assumes "Mapping.lookup (rl_attempts rl) ip = None"
    and "\<forall>t \<in> set ts. t - t0 \<le> rl_windowSize rl"
  shows "snd (failures rl ip (t0 # ts)) = map (\<lambda>n. n \<ge> 2 \<and> int n \<ge> rl_maxAttempts rl) [1..<length (t0 # ts) + 1]"
proof -
  let ?rl = "put rl ip \<lparr>ai_count = 1, ai_firstTime = t0, ai_blockedAt = None\<rparr>"
  have "RecordFailure rl t0 ip = (?rl, False)" using assms(1) by (simp add: RecordFailure_def)
  moreover have "snd (failures ?rl ip ts) = map (\<lambda>i. 1 + 1 + int i \<ge> rl_maxAttempts rl) [0..<length ts]"
    using failures_within [of ?rl ip "\<lparr>ai_count = 1, ai_firstTime = t0, ai_blockedAt = None\<rparr>"
        "rl_maxAttempts rl" "rl_windowSize rl" ts] assms(2) by simp
  moreover have "map (\<lambda>n. n \<ge> 2 \<and> int n \<ge> rl_maxAttempts rl) [1..<length (t0 # ts) + 1] =
      False # map (\<lambda>i. 1 + 1 + int i \<ge> rl_maxAttempts rl) [0..<length ts]"
  proof -
    have "[1..<length (t0 # ts) + 1] = 1 # map (\<lambda>i. i + 2) [0..<length ts]"
      using map_add_upt [of 2 "length ts"] by (simp add: upt_conv_Cons add.commute numeral_2_eq_2 del: upt_Suc)
    then show ?thesis by (simp add: algebra_simps)
  qed
  ultimately show ?thesis by (simp add: split_beta)
qed

section \<open>Witnesses\<close>

definition rlw :: "nat \<Rightarrow> rate_limiter" where
  "rlw n = fst (failures (NewRateLimiter 2 100 50) ''h'' (replicate n 10))"


theorem blocks_at_limit_witness: "snd (failures (NewRateLimiter 3 100 50) ''h'' [10, 20, 110]) = [False, False, True]"
proof -
  have "Mapping.lookup (rl_attempts (NewRateLimiter 3 100 50)) ''h'' = None" by (simp add: NewRateLimiter_def)
  from blocks_at_limit [OF this, of "[20, 110]" 10] show ?thesis
    by (simp add: NewRateLimiter_def upt_conv_Cons)
qed

end
