(* ===== verification/Greylist.thy ===== *)
theory Greylist
  imports Go_Net
begin

text \<open>
  Package \<^verbatim>\<open>internal/greylist\<close>. The SQLite table is the list of its rows; each SQL statement of the source
  is translated to the operation on the rows that it names, and whether it fails (then without effect)
  is an argument. \<open>CURRENT_TIMESTAMP\<close> has a resolution of one second. \<open>Check\<close> reads the table in one
  statement and writes it in another, so the checks of concurrent deliveries interleave between the
  two; \<open>check_select\<close> and \<open>check_act\<close> are these halves and \<open>grey_step\<close> the interleavings.
\<close>

section \<open>State\<close>

datatype triplet = Triplet (key_ip: string) (key_sender: string) (key_recipient: string)

record grey_row =
  gr_key :: triplet \<comment> \<open>the unique key of the table\<close>
  gr_first_seen :: time
  gr_passed :: bool
  gr_pass_count :: int
  gr_last_seen :: time

record grey_config =
  gc_Enabled :: bool
  gc_MinDelay :: duration
  gc_MaxAge :: duration

definition DefaultConfig_grey :: grey_config where
  "DefaultConfig_grey = \<lparr>gc_Enabled = True, gc_MinDelay = 5 * Minute, gc_MaxAge = 35 * 24 * Hour\<rparr>"

record greylister =
  g_minDelay :: duration
  g_maxAge :: duration
  g_enabled :: bool

text \<open>\<open>New\<close>: without a database the greylister is nil (\<open>Inr None\<close>).\<close>

definition New_grey :: "bool \<Rightarrow> string option \<Rightarrow> grey_config \<Rightarrow> (string, greylister option) result" where
  "New_grey dbNil createErr cfg =
     (if dbNil then Inr None
      else (case createErr of
              Some e \<Rightarrow> Inl e
            | None \<Rightarrow>
                Inr (Some \<lparr>g_minDelay = (if gc_MinDelay cfg = 0 then 5 * Minute else gc_MinDelay cfg),
                           g_maxAge = (if gc_MaxAge cfg = 0 then 35 * 24 * Hour else gc_MaxAge cfg),
                           g_enabled = gc_Enabled cfg\<rparr>)))"

section \<open>Normalisation of addresses\<close>

text \<open>The masks /24 and /48 on the 16-bit groups of an address.\<close>

definition normalizeIP :: "string \<Rightarrow> string" where
  "normalizeIP ip0 =
     (let ip = (case SplitHostPort ip0 of Some (host, _) \<Rightarrow> host | None \<Rightarrow> ip0)
      in case ParseIP ip of
           None \<Rightarrow> ip
         | Some gs \<Rightarrow>
             (case To4 gs of
                Some os \<Rightarrow> v4_string (take 3 os @ [0])
              | None \<Rightarrow> v6_string (take 3 gs @ replicate 5 0)))"

section \<open>Check\<close>

definition triplet_of :: "string \<Rightarrow> string \<Rightarrow> string \<Rightarrow> triplet" where
  "triplet_of senderIP sender recipient = Triplet (normalizeIP senderIP) (ToLower sender) (ToLower recipient)"

datatype select_result = NoRows | Row time bool | SelectErr string

text \<open>The three statements: \<open>SELECT\<close>, \<open>INSERT OR IGNORE\<close> (with the number of rows it inserted) and
  \<open>UPDATE\<close>.\<close>

definition grey_select :: "grey_row list \<Rightarrow> triplet \<Rightarrow> string option \<Rightarrow> select_result" where
  "grey_select rows k fault =
     (case fault of
        Some e \<Rightarrow> SelectErr e
      | None \<Rightarrow> (case find (\<lambda>r. gr_key r = k) rows of
                  None \<Rightarrow> NoRows
                | Some r \<Rightarrow> Row (gr_first_seen r) (gr_passed r)))"

definition grey_insert :: "grey_row list \<Rightarrow> triplet \<Rightarrow> time \<Rightarrow> grey_row list \<times> nat" where
  "grey_insert rows k now =
     (if list_ex (\<lambda>r. gr_key r = k) rows then (rows, 0)
      else (rows @ [\<lparr>gr_key = k, gr_first_seen = truncate_second now, gr_passed = False, gr_pass_count = 0,
                     gr_last_seen = truncate_second now\<rparr>], 1))"

definition grey_update :: "grey_row list \<Rightarrow> triplet \<Rightarrow> (grey_row \<Rightarrow> grey_row) \<Rightarrow> grey_row list" where
  "grey_update rows k f = map (\<lambda>r. if gr_key r = k then f r else r) rows"

record check_result =
  cr_allow :: bool
  cr_firstTime :: bool
  cr_err :: "string option"

definition check_act ::
    "greylister \<Rightarrow> time \<Rightarrow> triplet \<Rightarrow> select_result \<Rightarrow> string option \<Rightarrow> grey_row list
     \<Rightarrow> grey_row list \<times> check_result" where
  "check_act g now k sel execFault rows =
     (case sel of
        NoRows \<Rightarrow>
          (case execFault of
             Some e \<Rightarrow> (rows, \<lparr>cr_allow = False, cr_firstTime = True, cr_err = Some e\<rparr>)
           | None \<Rightarrow>
               (case grey_insert rows k now of
                  (rows', n) \<Rightarrow> (rows', \<lparr>cr_allow = False, cr_firstTime = n > 0, cr_err = None\<rparr>)))
      | SelectErr e \<Rightarrow> (rows, \<lparr>cr_allow = False, cr_firstTime = False, cr_err = Some e\<rparr>)
      | Row firstSeen passed \<Rightarrow>
          (if passed then
             ((if execFault = None
               then grey_update rows k (\<lambda>r. r\<lparr>gr_last_seen := truncate_second now, gr_pass_count := gr_pass_count r + 1\<rparr>)
               else rows),
              \<lparr>cr_allow = True, cr_firstTime = False, cr_err = None\<rparr>)
           else if now - firstSeen \<ge> g_minDelay g then
             (case execFault of
                Some e \<Rightarrow> (rows, \<lparr>cr_allow = False, cr_firstTime = False, cr_err = Some e\<rparr>)
              | None \<Rightarrow>
                  (grey_update rows k (\<lambda>r. r\<lparr>gr_passed := True, gr_last_seen := truncate_second now, gr_pass_count := 1\<rparr>),
                   \<lparr>cr_allow = True, cr_firstTime = False, cr_err = None\<rparr>))
           else (rows, \<lparr>cr_allow = False, cr_firstTime = False, cr_err = None\<rparr>)))"

text \<open>\<open>Check\<close> without interleaving; the nil or disabled greylister allows everything.\<close>

definition Check ::
    "greylister option \<Rightarrow> time \<Rightarrow> string option \<Rightarrow> string option \<Rightarrow> string \<Rightarrow> string \<Rightarrow> string \<Rightarrow> grey_row list
     \<Rightarrow> grey_row list \<times> check_result" where
  "Check g now selFault execFault senderIP sender recipient rows =
     (case g of
        None \<Rightarrow> (rows, \<lparr>cr_allow = True, cr_firstTime = False, cr_err = None\<rparr>)
      | Some gl \<Rightarrow>
          (if \<not> g_enabled gl then (rows, \<lparr>cr_allow = True, cr_firstTime = False, cr_err = None\<rparr>)
           else (let k = triplet_of senderIP sender recipient
                 in check_act gl now k (grey_select rows k selFault) execFault rows)))"

definition Cleanup_grey ::
    "greylister option \<Rightarrow> time \<Rightarrow> string option \<Rightarrow> grey_row list \<Rightarrow> grey_row list \<times> string option" where
  "Cleanup_grey g now fault rows =
     (case g of
        None \<Rightarrow> (rows, None)
      | Some gl \<Rightarrow>
          (if \<not> g_enabled gl then (rows, None)
           else (case fault of
                   Some e \<Rightarrow> (rows, Some e)
                 | None \<Rightarrow>
                     ([r \<leftarrow> rows. \<not> (\<not> gr_passed r \<and> gr_first_seen r < now - g_maxAge gl \<or>
                                     gr_passed r \<and> gr_last_seen r < now - g_maxAge gl)], None))))"

definition Stats_grey :: "greylister option \<Rightarrow> grey_row list \<Rightarrow> nat \<times> nat \<times> nat" where
  "Stats_grey g rows =
     (case g of
        None \<Rightarrow> (0, 0, 0)
      | Some gl \<Rightarrow>
          (if \<not> g_enabled gl then (0, 0, 0)
           else (length rows, length (filter gr_passed rows), length [r \<leftarrow> rows. \<not> gr_passed r])))"

definition IsEnabled :: "greylister option \<Rightarrow> bool" where
  "IsEnabled g = (case g of None \<Rightarrow> False | Some gl \<Rightarrow> g_enabled gl)"

section \<open>Interleaved checks\<close>

text \<open>
  The system state: the rows, the checks between their two statements, the clock, and (for the
  specification only) which triplets were inserted or attempted when.
\<close>

record grey_sys =
  gs_rows :: "grey_row list"
  gs_inflight :: "(triplet \<times> select_result) list"
  gs_clock :: time
  gs_seen :: "(time \<times> triplet) set"

inductive grey_step :: "greylister \<Rightarrow> grey_sys \<Rightarrow> grey_sys \<Rightarrow> bool" for g where
  select: "gs_clock s \<le> now \<Longrightarrow>
    grey_step g s (s\<lparr>gs_inflight := (k, grey_select (gs_rows s) k fault) # gs_inflight s, gs_clock := now\<rparr>)"
| act: "gs_clock s \<le> now \<Longrightarrow> (k, sel) \<in> set (gs_inflight s) \<Longrightarrow>
    check_act g now k sel fault (gs_rows s) = (rows', res) \<Longrightarrow>
    grey_step g s (s\<lparr>gs_rows := rows', gs_inflight := remove1 (k, sel) (gs_inflight s), gs_clock := now,
      gs_seen := insert (now, k) (gs_seen s)\<rparr>)"
| cleanup: "gs_clock s \<le> now \<Longrightarrow>
    grey_step g s (s\<lparr>gs_rows := fst (Cleanup_grey (Some g) now fault (gs_rows s)), gs_clock := now\<rparr>)"

definition grey_start :: grey_sys where
  "grey_start = \<lparr>gs_rows = [], gs_inflight = [], gs_clock = 0, gs_seen = {}\<rparr>"

text \<open>\<open>seen_at\<close>: an earlier attempt of this triplet has this truncated time; \<open>waited\<close>: one of them has
  waited for the minimal delay.\<close>

definition seen_at :: "grey_sys \<Rightarrow> triplet \<Rightarrow> time \<Rightarrow> bool" where
  "seen_at s k f \<longleftrightarrow> (\<exists>t. (t, k) \<in> gs_seen s \<and> f = truncate_second t)"

definition waited :: "greylister \<Rightarrow> grey_sys \<Rightarrow> triplet \<Rightarrow> bool" where
  "waited g s k \<longleftrightarrow> (\<exists>f. seen_at s k f \<and> f + g_minDelay g \<le> gs_clock s)"

definition grey_inv :: "greylister \<Rightarrow> grey_sys \<Rightarrow> bool" where
  "grey_inv g s \<longleftrightarrow> distinct (map gr_key (gs_rows s)) \<and>
     (\<forall>r \<in> set (gs_rows s). seen_at s (gr_key r) (gr_first_seen r) \<and> (gr_passed r \<longrightarrow> waited g s (gr_key r))) \<and>
     (\<forall>k f p. (k, Row f p) \<in> set (gs_inflight s) \<longrightarrow> seen_at s k f \<and> (p \<longrightarrow> waited g s k))"

lemma grey_inv_mono:
  assumes "gs_seen s \<subseteq> gs_seen s'" "gs_clock s \<le> gs_clock s'"
  shows "seen_at s k f \<Longrightarrow> seen_at s' k f" "waited g s k \<Longrightarrow> waited g s' k"
  using assms unfolding seen_at_def waited_def by force+

lemma keys_update [simp]: "(\<And>r. gr_key (f r) = gr_key r) \<Longrightarrow> map gr_key (grey_update rows k f) = map gr_key rows"
  by (induction rows) (auto simp: grey_update_def)

lemma grey_select_Row:
  "grey_select rows k fault = Row f p \<Longrightarrow> \<exists>r \<in> set rows. gr_key r = k \<and> f = gr_first_seen r \<and> p = gr_passed r"
  by (auto simp: grey_select_def find_Some_iff split: option.splits)

text \<open>The rows after the second statement of a check: old rows, perhaps the new one, and the passed
  mark only where it was or where the delay was over.\<close>

lemma check_act_rows:
  assumes "check_act g now k sel fault rows = (rows', res)" "r' \<in> set rows'"
  shows "(\<exists>r \<in> set rows. gr_key r' = gr_key r \<and> gr_first_seen r' = gr_first_seen r \<and>
            (gr_passed r' \<longrightarrow> gr_passed r \<or> gr_key r = k \<and> (\<exists>f. sel = Row f False \<and> g_minDelay g \<le> now - f))) \<or>
         gr_key r' = k \<and> gr_first_seen r' = truncate_second now \<and> \<not> gr_passed r'"
  using assms
  by (fastforce simp: check_act_def grey_insert_def grey_update_def
      split: select_result.splits option.splits if_splits)

lemma check_act_distinct:
  assumes "check_act g now k sel fault rows = (rows', res)" "distinct (map gr_key rows)"
  shows "distinct (map gr_key rows')"
  using assms
  by (auto simp: check_act_def grey_insert_def list_ex_iff split: select_result.splits option.splits if_splits)

lemma check_act_allow:
  assumes "check_act g now k sel fault rows = (rows', res)"
  shows "cr_allow res \<longleftrightarrow> (\<exists>f. sel = Row f True) \<or> fault = None \<and> (\<exists>f. sel = Row f False \<and> g_minDelay g \<le> now - f)"
  using assms by (auto simp: check_act_def split: select_result.splits option.splits if_splits prod.splits)

lemma grey_inv_act:
  assumes inv: "grey_inv g s" and c: "gs_clock s \<le> now" "(k, sel) \<in> set (gs_inflight s)"
    and a: "check_act g now k sel fault (gs_rows s) = (rows', res)"
  shows "grey_inv g (s\<lparr>gs_rows := rows', gs_inflight := remove1 (k, sel) (gs_inflight s), gs_clock := now,
      gs_seen := insert (now, k) (gs_seen s)\<rparr>)" (is "grey_inv g ?s")
proof -
  have mono: "seen_at s k' f \<Longrightarrow> seen_at ?s k' f" "waited g s k' \<Longrightarrow> waited g ?s k'" for k' f
    using c(1) by (auto intro: grey_inv_mono)
  have infl: "seen_at ?s k' f \<and> (p \<longrightarrow> waited g ?s k')" if "(k', Row f p) \<in> set (gs_inflight s)" for k' f p
    using inv that mono by (fastforce simp: grey_inv_def)
  have "seen_at ?s (gr_key r') (gr_first_seen r') \<and> (gr_passed r' \<longrightarrow> waited g ?s (gr_key r'))"
    if "r' \<in> set rows'" for r'
    using check_act_rows [OF a that]
  proof
    assume "gr_key r' = k \<and> gr_first_seen r' = truncate_second now \<and> \<not> gr_passed r'"
    then show ?thesis by (auto simp: seen_at_def)
  next
    assume "\<exists>r \<in> set (gs_rows s). gr_key r' = gr_key r \<and> gr_first_seen r' = gr_first_seen r \<and>
       (gr_passed r' \<longrightarrow> gr_passed r \<or> gr_key r = k \<and> (\<exists>f. sel = Row f False \<and> g_minDelay g \<le> now - f))"
    then obtain r where r: "r \<in> set (gs_rows s)" "gr_key r' = gr_key r" "gr_first_seen r' = gr_first_seen r"
      "gr_passed r' \<Longrightarrow> gr_passed r \<or> gr_key r = k \<and> (\<exists>f. sel = Row f False \<and> g_minDelay g \<le> now - f)" by blast
    have old: "seen_at ?s (gr_key r) (gr_first_seen r)" "gr_passed r \<Longrightarrow> waited g ?s (gr_key r)"
      using inv r(1) mono by (auto simp: grey_inv_def)
    have "waited g ?s k" if "sel = Row f False" "g_minDelay g \<le> now - f" for f
      using infl [of k f False] c(2) that unfolding waited_def by fastforce
    with old r show ?thesis by auto
  qed
  moreover have "distinct (map gr_key rows')"
    using check_act_distinct [OF a] inv by (simp add: grey_inv_def)
  moreover have "seen_at ?s k' f \<and> (p \<longrightarrow> waited g ?s k')" if "(k', Row f p) \<in> set (remove1 (k, sel) (gs_inflight s))" for k' f p
    using infl that by (meson notin_set_remove1)
  ultimately show ?thesis unfolding grey_inv_def by simp
qed

interpretation gls: step_invariant "\<lambda>s. s = grey_start" "grey_step g" "grey_inv g" for g
proof
  show "s = grey_start \<Longrightarrow> grey_inv g s" for s by (simp add: grey_inv_def grey_start_def)
next
  fix s s' assume st: "grey_step g s s'" and inv: "grey_inv g s"
  from st show "grey_inv g s'"
  proof cases
    case (act now k sel fault rows' res)
    with inv grey_inv_act show ?thesis by simp
  next
    case (select now k fault)
    have "seen_at s k' f \<Longrightarrow> seen_at s' k' f" "waited g s k' \<Longrightarrow> waited g s' k'" for k' f
      using select by (auto intro: grey_inv_mono)
    note mono = this
    have "seen_at s' k' f \<and> (p \<longrightarrow> waited g s' k')" if "(k', Row f p) \<in> set (gs_inflight s')" for k' f p
    proof (cases "(k', Row f p) \<in> set (gs_inflight s)")
      case True
      with inv mono show ?thesis unfolding grey_inv_def by blast
    next
      case False
      with that select have "k' = k" "grey_select (gs_rows s) k fault = Row f p" by auto
      from grey_select_Row [OF this(2)] inv mono this(1) show ?thesis unfolding grey_inv_def by blast
    qed
    moreover have "gs_rows s' = gs_rows s" using select by simp
    ultimately show ?thesis using inv mono unfolding grey_inv_def by simp
  next
    case (cleanup now fault)
    have "seen_at s k' f \<Longrightarrow> seen_at s' k' f" "waited g s k' \<Longrightarrow> waited g s' k'" for k' f
      using cleanup by (auto intro: grey_inv_mono)
    note mono = this
    have "\<exists>P. gs_rows s' = filter P (gs_rows s)"
      using cleanup by (auto simp: Cleanup_grey_def split: option.split intro: exI [of _ "\<lambda>r. True"])
    then obtain P where P: "gs_rows s' = filter P (gs_rows s)" ..
    moreover have "gs_inflight s' = gs_inflight s" using cleanup by simp
    moreover have "distinct (map gr_key (filter P (gs_rows s)))"
      using inv by (simp add: grey_inv_def distinct_map_filter)
    ultimately show ?thesis using inv mono unfolding grey_inv_def by simp
  qed
qed

section \<open>Properties\<close>

text \<open>C28. Whatever checks, cleanups and database failures interleave, the table keeps one row per triplet,
  and a check that allows a message does so only if the same triplet was tried before, at a time that
  lies more than the minimal delay minus one second (the resolution of the table's clock) in the past.\<close>

theorem greylist_no_early_pass:
  assumes "(grey_step g)\<^sup>*\<^sup>* grey_start s" and "(k, sel) \<in> set (gs_inflight s)" and "gs_clock s \<le> now"
    and "check_act g now k sel fault (gs_rows s) = (rows', res)" and "cr_allow res"
  shows "distinct (map gr_key rows') \<and> (\<exists>t. (t, k) \<in> gs_seen s \<and> now - t > g_minDelay g - Second)"
proof -
  have inv: "grey_inv g s" by (rule gls.inv_reachable [OF refl assms(1)])
  from check_act_allow [OF assms(4)] assms(5) obtain f p where sel: "sel = Row f p"
    and p: "p \<or> g_minDelay g \<le> now - f" by auto
  from inv assms(2) sel have "seen_at s k f" "p \<longrightarrow> waited g s k" by (auto simp: grey_inv_def)
  with p assms(3) obtain t where "(t, k) \<in> gs_seen s" "truncate_second t + g_minDelay g \<le> now"
    unfolding seen_at_def waited_def by force
  moreover have "t < truncate_second t + Second" by (simp add: truncate_second_def go_time)
  ultimately show ?thesis
    using check_act_distinct [OF assms(4)] inv by (force simp: grey_inv_def)
qed

lemma find_update:
  "(\<And>r. gr_key (f r) = gr_key r) \<Longrightarrow>
   find (\<lambda>r. gr_key r = k) (grey_update rows k f) = map_option f (find (\<lambda>r. gr_key r = k) rows)"
  by (induction rows) (auto simp: grey_update_def)

lemma Check_new:
  assumes "g_enabled g" "k = triplet_of ip snd' rcpt" "find (\<lambda>r. gr_key r = k) rows = None"
    and "Check (Some g) t0 None None ip snd' rcpt rows = (rows1, res)"
  shows "\<not> cr_allow res \<and> cr_firstTime res \<and> cr_err res = None \<and>
     find (\<lambda>r. gr_key r = k) rows1 = Some \<lparr>gr_key = k, gr_first_seen = truncate_second t0, gr_passed = False,
       gr_pass_count = 0, gr_last_seen = truncate_second t0\<rparr>"
proof -
  have "\<not> list_ex (\<lambda>r. gr_key r = k) rows" using assms(3) by (auto simp: list_ex_iff find_None_iff)
  with assms show ?thesis
    by (auto simp: Check_def grey_select_def check_act_def grey_insert_def Let_def find_append)
qed


lemma v4_string_all: "list_all (\<lambda>c. is_digit c \<or> c = CHR ''.'') (v4_string os)"
  using v4_string_chars by (auto simp: list_all_iff)

lemma v4_string_not_Nil: "v4_string [w,x,y,z] \<noteq> []" by (simp add: v4_string_def)

lemma normalizeIP_plain:
  assumes "SplitHostPort s = None" "ParseIP s = Some gs" "To4 gs = Some [w,x,y,z]"
  shows "normalizeIP s = v4_string [w,x,y,0]"
  using assms by (simp add: normalizeIP_def)

lemma normalizeIP_port:
  assumes "SplitHostPort s0 = Some (s, p)" "ParseIP s = Some gs" "To4 gs = Some [w,x,y,z]"
  shows "normalizeIP s0 = v4_string [w,x,y,0]"
  using assms by (simp add: normalizeIP_def)

lemma normalizeIP_print:
  assumes "list_all is_digit port" "list_all (\<lambda>n. n \<le> 255) [w, x, y, z]"
  shows "normalizeIP (v4_string [w, x, y, z]) = v4_string [w, x, y, 0]"
    "normalizeIP (v4_string [w, x, y, z] @ '':'' @ port) = v4_string [w, x, y, 0]"
proof -
  note sp = SplitHostPort_host [OF v4_string_all v4_string_not_Nil assms(1)]
  note ip = ParseIP_print [OF assms(2)]
  show "normalizeIP (v4_string [w, x, y, z]) = v4_string [w, x, y, 0]"
    by (rule normalizeIP_plain [OF conjunct2 [OF sp] conjunct1 [OF ip] conjunct2 [OF ip]])
  show "normalizeIP (v4_string [w, x, y, z] @ '':'' @ port) = v4_string [w, x, y, 0]"
    by (rule normalizeIP_port [OF conjunct1 [OF sp] conjunct1 [OF ip] conjunct2 [OF ip]])
qed

lemma read_inj:
  assumes "parseIPv4Fields s = Some [a,b,c,0]" "parseIPv4Fields t = Some [a',b',c',0]" "s = t"
  shows "a = a' \<and> b = b' \<and> c = c'"
  using assms by simp

lemma v4_string_read:
  assumes "list_all (\<lambda>n. n \<le> 255) [a, b, c, d]"
  shows "parseIPv4Fields (v4_string [a, b, c, 0]) = Some [a,b,c,0]"
  by (rule parseIPv4_print) (use assms in simp)

lemma v4_string_inj:
  assumes "list_all (\<lambda>n. n \<le> 255) [a, b, c, d]" and "list_all (\<lambda>n. n \<le> 255) [a', b', c', d']"
  shows "v4_string [a, b, c, 0] = v4_string [a', b', c', 0] \<longleftrightarrow> a = a' \<and> b = b' \<and> c = c'"
proof
  show "v4_string [a, b, c, 0] = v4_string [a', b', c', 0] \<Longrightarrow> a = a' \<and> b = b' \<and> c = c'"
    by (rule read_inj [OF v4_string_read [OF assms(1)] v4_string_read [OF assms(2)]])
qed simp

text \<open>All IPv4 hosts of one /24 network share their greylist entry, with or without a port in the address,
  and hosts of different /24 networks do not.\<close>

theorem normalizeIP_v4:
  assumes "list_all (\<lambda>n. n \<le> 255) [a, b, c, d]" and "list_all (\<lambda>n. n \<le> 255) [a', b', c', d']"
    and "list_all is_digit port"
  shows "normalizeIP (v4_string [a, b, c, d]) = v4_string [a, b, c, 0] \<and>
    normalizeIP (v4_string [a, b, c, d] @ '':'' @ port) = v4_string [a, b, c, 0] \<and>
    (normalizeIP (v4_string [a, b, c, d]) = normalizeIP (v4_string [a', b', c', d']) \<longleftrightarrow> a = a' \<and> b = b' \<and> c = c')"
proof -
  note p = normalizeIP_print [OF assms(3,1)] and p' = normalizeIP_print [OF assms(3,2)]
  have "normalizeIP (v4_string [a, b, c, d]) = normalizeIP (v4_string [a', b', c', d']) \<longleftrightarrow> a = a' \<and> b = b' \<and> c = c'"
    by (subst p(1), subst p'(1), rule v4_string_inj [OF assms(1,2)])
  with p show ?thesis by (intro conjI)
qed

section \<open>Witnesses\<close>

definition wg :: greylister where
  "wg = \<lparr>g_minDelay = 300 * Second, g_maxAge = 35 * 24 * Hour, g_enabled = True\<rparr>"

lemma wtriplet: "triplet_of ''10.0.0.9'' ''A@x'' ''b@y'' = triplet_of ''10.0.0.7:25'' ''a@x'' ''b@Y''"
proof -
  have s: "v4_string [10, 0, 0, 9] = ''10.0.0.9''" "v4_string [10, 0, 0, 7] @ '':'' @ ''25'' = ''10.0.0.7:25''" by code_simp+
  have "list_all is_digit ''25''" by code_simp
  note p = normalizeIP_print [OF this]
  have "normalizeIP ''10.0.0.9'' = v4_string [10, 0, 0, 0]" unfolding s(1) [symmetric] by (rule p(1)) simp
  moreover have "normalizeIP ''10.0.0.7:25'' = v4_string [10, 0, 0, 0]" unfolding s(2) [symmetric] by (rule p(2)) simp
  moreover have "ToLower ''A@x'' = ToLower ''a@x''" "ToLower ''b@y'' = ToLower ''b@Y''" by code_simp+
  ultimately show ?thesis unfolding triplet_of_def by (simp only:)
qed

lemma Check_same: "Check g t f e ''10.0.0.9'' ''A@x'' ''b@y'' rows = Check g t f e ''10.0.0.7:25'' ''a@x'' ''b@Y'' rows"
  unfolding Check_def wtriplet ..


theorem greylist_no_early_pass_witness:
  "\<exists>s k. (grey_step wg)\<^sup>*\<^sup>* grey_start s \<and> (\<exists>t. (t, k) \<in> gs_seen s \<and> 400 * Second - t > g_minDelay wg - Second)"
proof -
  let ?k = "Triplet ''i'' ''s'' ''r''"
  let ?s1 = "grey_start\<lparr>gs_inflight := [(?k, NoRows)]\<rparr>"
  let ?row = "\<lparr>gr_key = ?k, gr_first_seen = 0, gr_passed = False, gr_pass_count = 0, gr_last_seen = 0\<rparr>"
  let ?s2 = "grey_start\<lparr>gs_rows := [?row], gs_seen := {(0, ?k)}\<rparr>"
  let ?s3 = "?s2\<lparr>gs_inflight := [(?k, Row 0 False)], gs_clock := 300 * Second\<rparr>"
  have "grey_step wg grey_start ?s1"
    using grey_step.select [of grey_start 0 wg ?k None] by (simp add: grey_start_def grey_select_def)
  moreover have "grey_step wg ?s1 ?s2"
    using grey_step.act [of ?s1 0 ?k NoRows wg None "[?row]" "\<lparr>cr_allow = False, cr_firstTime = True, cr_err = None\<rparr>"]
    by (simp add: grey_start_def check_act_def grey_insert_def truncate_second_def)
  moreover have "grey_step wg ?s2 ?s3"
    using grey_step.select [of ?s2 "300 * Second" wg ?k None] by (simp add: grey_start_def grey_select_def go_time)
  ultimately have r: "(grey_step wg)\<^sup>*\<^sup>* grey_start ?s3" by (meson converse_rtranclp_into_rtranclp rtranclp.rtrancl_refl)
  obtain rows' res where a: "check_act wg (400 * Second) ?k (Row 0 False) None (gs_rows ?s3) = (rows', res)" by fastforce
  then have "cr_allow res" by (auto simp: check_act_def wg_def go_time)
  from greylist_no_early_pass [OF r _ _ a this] r show ?thesis by (auto simp: go_time)
qed

theorem normalizeIP_v4_witness:
  "normalizeIP (v4_string [10, 20, 30, 40] @ '':'' @ ''25'') = v4_string [10, 20, 30, 0]"
  using normalizeIP_v4 [of 10 20 30 40 1 2 3 4 "''25''"] by (simp add: is_digit_def)

end
