(* ===== verification/Go_Regexp.thy ===== *)
theory Go_Regexp
  imports Go_Prelude
begin

text \<open>
  Package regexp, as far as the server's patterns need it: anchored expressions over character
  classes. \<open>matches\<close> is the declarative meaning of an expression and \<open>MatchString\<close> the executable
  matcher (by derivatives) that stands for \<open>regexp.MatchString\<close> on a pattern of the form \<open>^r$\<close>; they agree.
\<close>

datatype rx =
    Nothing
  | Eps
  | Class "char \<Rightarrow> bool"
  | Seq rx rx
  | Alt rx rx
  | Star rx

definition Opt :: "rx \<Rightarrow> rx" where
  "Opt r = Alt r Eps"

fun UpTo :: "nat \<Rightarrow> rx \<Rightarrow> rx" where
  "UpTo 0 r = Eps"
| "UpTo (Suc n) r = Opt (Seq r (UpTo n r))"

inductive matches :: "rx \<Rightarrow> string \<Rightarrow> bool" where
  Eps: "matches Eps []"
| Class: "P c \<Longrightarrow> matches (Class P) [c]"
| Seq: "matches r s \<Longrightarrow> matches r' t \<Longrightarrow> matches (Seq r r') (s @ t)"
| AltL: "matches r s \<Longrightarrow> matches (Alt r r') s"
| AltR: "matches r' s \<Longrightarrow> matches (Alt r r') s"
| StarNil: "matches (Star r) []"
| StarApp: "matches r s \<Longrightarrow> matches (Star r) t \<Longrightarrow> matches (Star r) (s @ t)"

inductive_simps matches_simps [simp]:
  "matches Nothing s" "matches Eps s" "matches (Class P) s" "matches (Seq r r') s" "matches (Alt r r') s"

inductive_cases matches_StarE: "matches (Star r) s"

fun nullable :: "rx \<Rightarrow> bool" where
  "nullable Nothing = False"
| "nullable Eps = True"
| "nullable (Class P) = False"
| "nullable (Seq r r') = (nullable r \<and> nullable r')"
| "nullable (Alt r r') = (nullable r \<or> nullable r')"
| "nullable (Star r) = True"

fun mkSeq :: "rx \<Rightarrow> rx \<Rightarrow> rx" where
  "mkSeq Nothing r = Nothing"
| "mkSeq Eps r = r"
| "mkSeq r r' = Seq r r'"

fun mkAlt :: "rx \<Rightarrow> rx \<Rightarrow> rx" where
  "mkAlt Nothing r = r"
| "mkAlt r Nothing = r"
| "mkAlt r r' = Alt r r'"

fun deriv :: "char \<Rightarrow> rx \<Rightarrow> rx" where
  "deriv c Nothing = Nothing"
| "deriv c Eps = Nothing"
| "deriv c (Class P) = (if P c then Eps else Nothing)"
| "deriv c (Seq r r') =
     (if nullable r then mkAlt (mkSeq (deriv c r) r') (deriv c r') else mkSeq (deriv c r) r')"
| "deriv c (Alt r r') = mkAlt (deriv c r) (deriv c r')"
| "deriv c (Star r) = mkSeq (deriv c r) (Star r)"

fun MatchString :: "rx \<Rightarrow> string \<Rightarrow> bool" where
  "MatchString r [] = nullable r"
| "MatchString r (c # s) = MatchString (deriv c r) s"

lemma matches_mkSeq [simp]: "matches (mkSeq r r') s \<longleftrightarrow> matches (Seq r r') s"
  by (cases r) auto

lemma matches_mkAlt [simp]: "matches (mkAlt r r') s \<longleftrightarrow> matches (Alt r r') s"
  by (cases r; cases r') auto

lemma nullable_iff: "nullable r \<longleftrightarrow> matches r []"
  by (induction r) (auto intro: matches.StarNil)

lemma Star_Cons: "matches (Star r) (c # s) \<longleftrightarrow> (\<exists>u v. s = u @ v \<and> matches r (c # u) \<and> matches (Star r) v)"
proof
  have "matches r' s' \<Longrightarrow> r' = Star r \<Longrightarrow> s' = c # s \<Longrightarrow>
      \<exists>u v. s = u @ v \<and> matches r (c # u) \<and> matches (Star r) v" for r' s'
  proof (induction arbitrary: s rule: matches.induct)
    case (StarApp q u v)
    then show ?case by (cases u) auto
  qed auto
  then show "matches (Star r) (c # s) \<Longrightarrow> \<exists>u v. s = u @ v \<and> matches r (c # u) \<and> matches (Star r) v"
    by blast
next
  assume "\<exists>u v. s = u @ v \<and> matches r (c # u) \<and> matches (Star r) v"
  then obtain u v where "s = u @ v" "matches r (c # u)" "matches (Star r) v" by blast
  then show "matches (Star r) (c # s)" using matches.StarApp [of r "c # u" v] by simp
qed

lemma deriv_iff: "matches (deriv c r) s \<longleftrightarrow> matches r (c # s)"
proof (induction r arbitrary: s)
  case (Seq r r')
  have "matches (Seq r r') (c # s) \<longleftrightarrow>
      (matches r [] \<and> matches r' (c # s)) \<or> (\<exists>u v. s = u @ v \<and> matches r (c # u) \<and> matches r' v)"
    by (auto simp: Cons_eq_append_conv)
  with Seq show ?case by (auto simp: nullable_iff)
next
  case (Star r)
  then show ?case by (simp add: Star_Cons)
qed auto

lemma MatchString_iff: "MatchString r s \<longleftrightarrow> matches r s"
  by (induction s arbitrary: r) (simp_all add: nullable_iff deriv_iff)

lemma matches_Opt [simp]: "matches (Opt r) s \<longleftrightarrow> matches r s \<or> s = []"
  by (simp add: Opt_def)

lemma matches_ClassSeq: "matches (Seq (Class P) r) s \<longleftrightarrow> (\<exists>c t. s = c # t \<and> P c \<and> matches r t)"
proof
  assume "\<exists>c t. s = c # t \<and> P c \<and> matches r t"
  then obtain c t where "s = [c] @ t" "P c" "matches r t" by auto
  then show "matches (Seq (Class P) r) s" by (auto intro!: matches.Seq matches.Class simp del: matches_simps append_Cons)
qed auto

lemma matches_SeqClass: "matches (Seq r (Class P)) s \<longleftrightarrow> (\<exists>t c. s = t @ [c] \<and> matches r t \<and> P c)"
  by auto

lemma matches_StarClass: "matches (Star (Class P)) s \<longleftrightarrow> list_all P s"
proof (induction s)
  case Nil
  show ?case by (simp add: matches.StarNil)
next
  case (Cons c s)
  then show ?case by (auto simp: Star_Cons)
qed

lemma matches_UpToClass: "matches (UpTo n (Class P)) s \<longleftrightarrow> length s \<le> n \<and> list_all P s"
proof (induction n arbitrary: s)
  case (Suc n)
  have "matches (UpTo (Suc n) (Class P)) s \<longleftrightarrow> (\<exists>c t. s = c # t \<and> P c \<and> length t \<le> n \<and> list_all P t) \<or> s = []"
    unfolding UpTo.simps matches_Opt matches_ClassSeq Suc.IH ..
  then show ?case by (cases s) auto
qed auto

text \<open>A class, then optionally a middle part and a last character: the shape of a name.\<close>

lemma matches_framed:
  "matches (Seq (Class P) (Opt (Seq r (Class P)))) s \<longleftrightarrow>
     (\<exists>c. s = [c] \<and> P c) \<or> (\<exists>c m d. s = c # m @ [d] \<and> P c \<and> P d \<and> matches r m)"
  unfolding matches_ClassSeq matches_Opt matches_SeqClass by blast

end
