(* ===== verification/Validation.thy ===== *)
theory Validation
  imports Go_Regexp
begin

text \<open>
  Package \<^verbatim>\<open>internal/validation\<close>, and the copies of the same checks in \<^verbatim>\<open>internal/auth/auth.go\<close>:
  user names, passwords and domain names. The patterns are the regular expressions of the source,
  run by the matcher of \<open>Go_Regexp\<close>; the theorems say what the three checks accept in terms of the
  characters and the dot-separated labels of the input.
\<close>

section \<open>The checks\<close>

datatype v_error = ErrInvalidUsername | ErrInvalidPassword | ErrInvalidDomain

definition minPasswordLength :: nat where "minPasswordLength = 8"
definition maxPasswordLength :: nat where "maxPasswordLength = 128"
definition minUsernameLength :: nat where "minUsernameLength = 1"
definition maxUsernameLength :: nat where "maxUsernameLength = 64"
definition maxDomainLength :: nat where "maxDomainLength = 253"

lemmas length_limits = minPasswordLength_def maxPasswordLength_def minUsernameLength_def
  maxUsernameLength_def maxDomainLength_def

text \<open>The classes \<open>[a-zA-Z0-9]\<close>, \<open>[a-zA-Z0-9._+-]\<close> and \<open>[a-zA-Z0-9-]\<close>.\<close>

definition alnum :: "char \<Rightarrow> bool" where
  "alnum c \<longleftrightarrow> (let n = (of_char c :: nat) in 97 \<le> n \<and> n \<le> 122 \<or> 65 \<le> n \<and> n \<le> 90 \<or> 48 \<le> n \<and> n \<le> 57)"

definition user_char :: "char \<Rightarrow> bool" where
  "user_char c \<longleftrightarrow> alnum c \<or> c \<in> set ''._+-''"

definition label_char :: "char \<Rightarrow> bool" where
  "label_char c \<longleftrightarrow> alnum c \<or> c = CHR ''-''"

definition usernamePattern :: rx where
  "usernamePattern = Seq (Class alnum) (Opt (Seq (Star (Class user_char)) (Class alnum)))"

definition labelPattern :: rx where
  "labelPattern = Seq (Class alnum) (Opt (Seq (UpTo 61 (Class label_char)) (Class alnum)))"

definition domainPattern :: rx where
  "domainPattern = Seq (Star (Seq labelPattern (Class (\<lambda>c. c = CHR ''.'')))) labelPattern"

definition Username :: "string \<Rightarrow> v_error option" where
  "Username username0 =
     (let username = TrimSpace username0
      in if length username < minUsernameLength \<or> length username > maxUsernameLength
         then Some ErrInvalidUsername
         else if \<not> MatchString usernamePattern username then Some ErrInvalidUsername
         else if Contains username ''..'' then Some ErrInvalidUsername
         else None)"

definition Password :: "string \<Rightarrow> v_error option" where
  "Password password =
     (if length password < minPasswordLength \<or> length password > maxPasswordLength
      then Some ErrInvalidPassword else None)"

fun check_labels :: "string list \<Rightarrow> v_error option" where
  "check_labels [] = None"
| "check_labels (l # ls) =
     (if length l = 0 \<or> length l > 63 then Some ErrInvalidDomain else check_labels ls)"

definition Domain :: "string \<Rightarrow> v_error option" where
  "Domain domain0 =
     (let domain = TrimSpace (ToLower domain0)
      in if length domain = 0 \<or> length domain > maxDomainLength then Some ErrInvalidDomain
         else if \<not> MatchString domainPattern domain then Some ErrInvalidDomain
         else check_labels (Split domain (CHR ''.'')))"

text \<open>The copies in package auth have the same bodies.\<close>

definition ValidateUsername :: "string \<Rightarrow> v_error option" where
  "ValidateUsername username0 =
     (let username = TrimSpace username0
      in if length username < minUsernameLength \<or> length username > maxUsernameLength
         then Some ErrInvalidUsername
         else if \<not> MatchString usernamePattern username then Some ErrInvalidUsername
         else if Contains username ''..'' then Some ErrInvalidUsername
         else None)"

definition ValidatePassword :: "string \<Rightarrow> v_error option" where
  "ValidatePassword password =
     (if length password < minPasswordLength \<or> length password > maxPasswordLength
      then Some ErrInvalidPassword else None)"

definition ValidateDomain :: "string \<Rightarrow> v_error option" where
  "ValidateDomain domain0 =
     (let domain = TrimSpace (ToLower domain0)
      in if length domain = 0 \<or> length domain > maxDomainLength then Some ErrInvalidDomain
         else if \<not> MatchString domainPattern domain then Some ErrInvalidDomain
         else check_labels (Split domain (CHR ''.'')))"

section \<open>What the checks accept\<close>

text \<open>The grammar of a label of RFC 1035 (as relaxed by RFC 1123) and of a local part.\<close>

definition framed :: "(char \<Rightarrow> bool) \<Rightarrow> string \<Rightarrow> bool" where
  "framed P s \<longleftrightarrow> s \<noteq> [] \<and> alnum (hd s) \<and> alnum (last s) \<and> list_all P s"

definition label_ok :: "string \<Rightarrow> bool" where
  "label_ok l \<longleftrightarrow> framed label_char l \<and> length l \<le> 63"

lemma framed_iff:
  assumes "\<And>c. alnum c \<Longrightarrow> P c"
  shows "framed P s \<longleftrightarrow> (\<exists>c. s = [c] \<and> alnum c) \<or> (\<exists>c m d. s = c # m @ [d] \<and> alnum c \<and> alnum d \<and> list_all P m)"
proof (cases s)
  case (Cons c t)
  then show ?thesis using assms by (cases t rule: rev_cases) (auto simp: framed_def)
qed (simp add: framed_def)

lemma usernamePattern_iff: "MatchString usernamePattern s \<longleftrightarrow> framed user_char s"
proof -
  have "framed user_char s \<longleftrightarrow> matches usernamePattern s"
    unfolding usernamePattern_def matches_framed matches_StarClass
    by (rule framed_iff) (simp add: user_char_def)
  then show ?thesis by (simp add: MatchString_iff)
qed

lemma labelPattern_iff: "matches labelPattern s \<longleftrightarrow> label_ok s"
proof -
  have f: "framed label_char s \<longleftrightarrow> (\<exists>c. s = [c] \<and> alnum c) \<or>
      (\<exists>c m d. s = c # m @ [d] \<and> alnum c \<and> alnum d \<and> list_all label_char m)"
    by (rule framed_iff) (simp add: label_char_def)
  show ?thesis unfolding labelPattern_def matches_framed matches_UpToClass label_ok_def f by auto
qed

lemma label_no_dot: "label_ok l \<Longrightarrow> CHR ''.'' \<notin> set l"
  by (auto simp: label_ok_def framed_def label_char_def alnum_def list_all_iff)

lemma dotted_iff:
  "matches (Star (Seq labelPattern (Class (\<lambda>c. c = CHR ''.'')))) s \<longleftrightarrow>
   (\<exists>ls. list_all label_ok ls \<and> s = concat (map (\<lambda>l. l @ ''.'') ls))"  (is "?M s \<longleftrightarrow> ?R s")
proof
  have "matches r s \<Longrightarrow> r = Star (Seq labelPattern (Class (\<lambda>c. c = CHR ''.''))) \<Longrightarrow> ?R s" for r
  proof (induction rule: matches.induct)
    case (StarNil r)
    then show ?case by (intro exI [of _ "[]"]) simp
  next
    case (StarApp r s t)
    then obtain ls where ls: "list_all label_ok ls" "t = concat (map (\<lambda>l. l @ ''.'') ls)" by blast
    from StarApp(1,5) obtain l where "label_ok l" "s = l @ ''.''" by (auto simp: labelPattern_iff)
    with ls show ?case by (intro exI [of _ "l # ls"]) simp
  qed auto
  then show "?M s \<Longrightarrow> ?R s" by blast
next
  assume "?R s"
  then obtain ls where "list_all label_ok ls" "s = concat (map (\<lambda>l. l @ ''.'') ls)" by blast
  then show "?M s"
  proof (induction ls arbitrary: s)
    case (Cons l ls)
    then show ?case
      by (auto intro!: matches.StarApp [of _ "l @ ''.''", simplified] simp: labelPattern_iff)
  qed (auto intro: matches.StarNil)
qed

lemma concat_dots_Join: "concat (map (\<lambda>l. l @ ''.'') ls) @ l = Join (ls @ [l]) ''.''"
proof (induction ls)
  case (Cons a ls)
  then show ?case by (cases "ls @ [l]") auto
qed simp

lemma domainPattern_iff: "MatchString domainPattern s \<longleftrightarrow> list_all label_ok (Split s (CHR ''.''))"
proof -
  have "MatchString domainPattern s \<longleftrightarrow> (\<exists>ls l. list_all label_ok (ls @ [l]) \<and> s = Join (ls @ [l]) ''.'')"
    unfolding domainPattern_def MatchString_iff matches_simps dotted_iff labelPattern_iff
    by (auto simp flip: concat_dots_Join)
  also have "\<dots> \<longleftrightarrow> list_all label_ok (Split s (CHR ''.''))"
  proof
    assume "\<exists>ls l. list_all label_ok (ls @ [l]) \<and> s = Join (ls @ [l]) ''.''"
    then obtain ls l where a: "list_all label_ok (ls @ [l])" "s = Join (ls @ [l]) ''.''" by blast
    then have "Split s (CHR ''.'') = ls @ [l]"
      using label_no_dot by (auto simp: list_all_iff intro!: Split_Join)
    with a show "list_all label_ok (Split s (CHR ''.''))" by simp
  next
    assume a: "list_all label_ok (Split s (CHR ''.''))"
    obtain ls l where "Split s (CHR ''.'') = ls @ [l]" by (metis Split_not_Nil rev_exhaust)
    with a show "\<exists>ls l. list_all label_ok (ls @ [l]) \<and> s = Join (ls @ [l]) ''.''" by (metis Join_Split)
  qed
  finally show ?thesis .
qed

lemma check_labels_iff: "check_labels ls = None \<longleftrightarrow> list_all (\<lambda>l. l \<noteq> [] \<and> length l \<le> 63) ls"
  by (induction ls) auto

lemma label_ok_length: "label_ok l \<Longrightarrow> l \<noteq> [] \<and> length l \<le> 63"
  by (simp add: label_ok_def framed_def)

lemma Domain_accepts:
  "Domain d = None \<longleftrightarrow> length (TrimSpace (ToLower d)) \<le> 253 \<and>
     list_all label_ok (Split (TrimSpace (ToLower d)) (CHR ''.''))"
proof -
  define s where "s = TrimSpace (ToLower d)"
  have "list_all label_ok (Split s (CHR ''.'')) \<Longrightarrow> check_labels (Split s (CHR ''.'')) = None \<and> s \<noteq> []"
    by (auto simp: check_labels_iff list_all_iff label_ok_length dest: label_ok_length)
  then show ?thesis
    unfolding Domain_def s_def [symmetric] Let_def length_limits domainPattern_iff by auto
qed

lemma Username_accepts:
  "Username u = None \<longleftrightarrow> length (TrimSpace u) \<le> 64 \<and> framed user_char (TrimSpace u) \<and>
     \<not> Contains (TrimSpace u) ''..''"
  by (auto simp: Username_def Let_def length_limits usernamePattern_iff framed_def Suc_le_eq)

lemma Validate_eqs: "ValidateUsername u = Username u" "ValidateDomain d = Domain d" "ValidatePassword p = Password p"
  by (simp_all only: ValidateUsername_def Username_def ValidateDomain_def Domain_def ValidatePassword_def
      Password_def)

text \<open>A user name is accepted iff, after trimming, it has 1 to 64 bytes, all of them letters, digits or
  one of \<open>. _ + -\<close>, begins and ends with a letter or digit and has no two dots in a row.\<close>

theorem Username_iff:
  "Username u = None \<longleftrightarrow> TrimSpace u \<noteq> [] \<and> length (TrimSpace u) \<le> 64 \<and>
     list_all user_char (TrimSpace u) \<and>
     alnum (hd (TrimSpace u)) \<and> alnum (last (TrimSpace u)) \<and>
     (\<nexists>a b. TrimSpace u = a @ ''..'' @ b)"
  unfolding Username_accepts framed_def Contains_iff by auto

text \<open>A domain is accepted iff, lowered and trimmed, it has at most 253 bytes and each of its labels has 1
  to 63 letters, digits or hyphens, the first and last of them no hyphen. The pattern alone already
  enforces the label lengths, so the loop over the labels never rejects what the pattern accepted.\<close>

theorem Domain_iff:
  "(Domain d = None \<longleftrightarrow> length (TrimSpace (ToLower d)) \<le> 253 \<and>
     (\<forall>l \<in> set (Split (TrimSpace (ToLower d)) (CHR ''.'')).
        l \<noteq> [] \<and> length l \<le> 63 \<and> list_all label_char l \<and> alnum (hd l) \<and> alnum (last l))) \<and>
   (MatchString domainPattern d \<longrightarrow> check_labels (Split d (CHR ''.'')) = None)"
proof
  show "Domain d = None \<longleftrightarrow> length (TrimSpace (ToLower d)) \<le> 253 \<and>
     (\<forall>l \<in> set (Split (TrimSpace (ToLower d)) (CHR ''.'')).
        l \<noteq> [] \<and> length l \<le> 63 \<and> list_all label_char l \<and> alnum (hd l) \<and> alnum (last l))"
    unfolding Domain_accepts label_ok_def framed_def list_all_iff by blast
  show "MatchString domainPattern d \<longrightarrow> check_labels (Split d (CHR ''.'')) = None"
    by (auto simp: domainPattern_iff check_labels_iff list_all_iff dest: label_ok_length)
qed

theorem Domain_iff_witness: "Domain '' Mail.Example.ORG '' = None \<and> check_labels (Split ''a-b.c'' (CHR ''.'')) = None"
proof
  have "Domain '' Mail.Example.ORG '' = None \<longleftrightarrow> length (TrimSpace (ToLower '' Mail.Example.ORG '')) \<le> 253 \<and>
     (\<forall>l \<in> set (Split (TrimSpace (ToLower '' Mail.Example.ORG '')) (CHR ''.'')).
        l \<noteq> [] \<and> length l \<le> 63 \<and> list_all label_char l \<and> alnum (hd l) \<and> alnum (last l))"
    by (rule conjunct1 [OF Domain_iff])
  moreover have "length (TrimSpace (ToLower '' Mail.Example.ORG '')) \<le> 253 \<and>
     (\<forall>l \<in> set (Split (TrimSpace (ToLower '' Mail.Example.ORG '')) (CHR ''.'')).
        l \<noteq> [] \<and> length l \<le> 63 \<and> list_all label_char l \<and> alnum (hd l) \<and> alnum (last l))" by code_simp
  ultimately show "Domain '' Mail.Example.ORG '' = None" by blast
  have "MatchString domainPattern ''a-b.c''" by code_simp
  then show "check_labels (Split ''a-b.c'' (CHR ''.'')) = None" using Domain_iff [of "''a-b.c''"] by blast
qed

end
