(* ===== verification/Sieve_Parser.thy ===== *)
theory Sieve_Parser
  imports Go_Prelude
begin

text \<open>
  \<^verbatim>\<open>internal/sieve/parser.go\<close>: the tokenizer and the recursive-descent parser of Sieve scripts, with the
  data types of \<^verbatim>\<open>sieve.go\<close>, \<^verbatim>\<open>conditions.go\<close> and \<^verbatim>\<open>actions.go\<close> that it builds. A parser state is the list of
  the tokens from \<open>p.pos\<close> on (\<open>current\<close> is its head, or EOF) and the nesting depth is an argument: the
  code restores it on every successful return. Every limit of the code (sizes, counts, depths, the
  iteration guards of the loops) is a branch of the model.
\<close>

section \<open>Limits, errors and tokens\<close>

definition maxScriptSize :: int where "maxScriptSize = 1024 * 1024"
definition maxTokens :: int where "maxTokens = 100000"
definition maxStringLength :: int where "maxStringLength = 10000"
definition maxArraySize :: int where "maxArraySize = 1000"
definition maxParseDepth :: int where "maxParseDepth = 100"
definition maxConditionDepth :: int where "maxConditionDepth = 50"
definition maxVacationDays :: int where "maxVacationDays = 365"
definition maxSizeValue :: int where "maxSizeValue = 1024 * 1024 * 1024 * 10"

lemmas sieve_limits = maxScriptSize_def maxTokens_def maxStringLength_def maxArraySize_def maxParseDepth_def
  maxConditionDepth_def maxVacationDays_def maxSizeValue_def

datatype tokenType =
    tokenEOF | tokenRequire | tokenIf | tokenElsif | tokenElse | tokenAllof | tokenAnyof | tokenNot
  | tokenTrue | tokenFalse | tokenAddress | tokenHeader | tokenSize | tokenExists | tokenContains
  | tokenIs | tokenMatches | tokenOver | tokenUnder | tokenKeep | tokenFileinto | tokenRedirect
  | tokenDiscard | tokenReject | tokenVacation | tokenStop | tokenString | tokenNumber
  | tokenLBracket | tokenRBracket | tokenLBrace | tokenRBrace | tokenLParen | tokenRParen
  | tokenSemi | tokenComma | tokenColon

datatype token = Token (tk_typ: tokenType) (tk_val: string)

datatype sieve_error =
    ErrScriptTooLarge | ErrTooManyTokens | ErrStringTooLong | ErrArrayTooLarge | ErrNestingTooDeep
  | ErrInvalidInput | ErrUnterminatedString | ErrInvalidSize
  | ErrExpectedLBrace tokenType | ErrFileintoFolder | ErrRedirectAddress
  | ErrVacationDaysSyntax | ErrVacationDaysRange | ErrSizeSyntax
  | ErrUnexpectedEnd tokenType | ErrUnexpectedToken tokenType tokenType

section \<open>Scripts\<close>

record header_condition =
  hc_Headers :: "string list"
  hc_Values :: "string list"
  hc_MatchType :: string
  hc_Comparator :: string
  hc_IsAddress :: bool
  hc_AddressPart :: string

text \<open>\<open>NotCondition\<close> carries an interface value that may be nil.\<close>

datatype condition =
    TrueCondition
  | FalseCondition
  | NotCondition "condition option"
  | HeaderCondition header_condition
  | SizeCondition int bool
  | ExistsCondition "string list"
  | FromCondition "string list" string
  | ToCondition "string list" string
  | SubjectCondition "string list" string

record vacation_action =
  va_Days :: int
  va_Subject :: string
  va_From :: string
  va_Body :: string
  va_Addresses :: "string list"
  va_Handle :: string

datatype action =
    KeepAction
  | FileIntoAction string
  | RedirectAction string
  | DiscardAction
  | RejectAction string
  | StopAction
  | VacationAction vacation_action

record rule =
  ru_Conditions :: "condition list"
  ru_Actions :: "action list"
  ru_AllOf :: bool
  ru_Stop :: bool

record parsed_script =
  ps_Require :: "string list"
  ps_Rules :: "rule list"

section \<open>The tokenizer\<close>

text \<open>The comment patterns \<open>#[^\n]*\<close> and \<open>/\*[\s\S]*?\*/\<close>, replaced by nothing. The flag says that the scan is
  inside a line comment; the counter says how many bytes of a block comment are still to be dropped.\<close>

fun strip_line_comments :: "bool \<Rightarrow> string \<Rightarrow> string" where
  "strip_line_comments inside [] = []"
| "strip_line_comments inside (c # s) =
     (if c = CHR 0x0A then c # strip_line_comments False s
      else if inside then strip_line_comments True s
      else if c = CHR ''#'' then strip_line_comments True s
      else c # strip_line_comments False s)"

fun strip_block_comments :: "nat \<Rightarrow> string \<Rightarrow> string" where
  "strip_block_comments k [] = []"
| "strip_block_comments (Suc k) (c # s) = strip_block_comments k s"
| "strip_block_comments 0 (c # s) =
     (if HasPrefix (c # s) ''/*'' then
        (case Index (drop 1 s) ''*/'' of
           Some i \<Rightarrow> strip_block_comments (i + 3) s
         | None \<Rightarrow> c # strip_block_comments 0 s)
      else c # strip_block_comments 0 s)"

definition keyword_types :: "(string \<times> tokenType) list" where
  "keyword_types = [(''require'', tokenRequire), (''if'', tokenIf), (''elsif'', tokenElsif), (''else'', tokenElse),
     (''allof'', tokenAllof), (''anyof'', tokenAnyof), (''not'', tokenNot), (''true'', tokenTrue),
     (''false'', tokenFalse), (''address'', tokenAddress), (''header'', tokenHeader), (''size'', tokenSize),
     (''exists'', tokenExists), (''contains'', tokenContains), (''is'', tokenIs), (''matches'', tokenMatches),
     (''over'', tokenOver), (''under'', tokenUnder), (''keep'', tokenKeep), (''fileinto'', tokenFileinto),
     (''redirect'', tokenRedirect), (''discard'', tokenDiscard), (''reject'', tokenReject),
     (''vacation'', tokenVacation), (''stop'', tokenStop)]"

definition single_tokens :: "(char \<times> tokenType) list" where
  "single_tokens = [(CHR ''['', tokenLBracket), (CHR '']'', tokenRBracket), (CHR ''{'', tokenLBrace),
     (CHR ''}'', tokenRBrace), (CHR ''('', tokenLParen), (CHR '')'', tokenRParen), (CHR '';'', tokenSemi),
     (CHR '','', tokenComma), (CHR '':'', tokenColon)]"

definition is_blank :: "char \<Rightarrow> bool" where
  "is_blank c \<longleftrightarrow> c = CHR '' '' \<or> c = CHR 0x09 \<or> c = CHR 0x0A \<or> c = CHR 0x0D"

definition is_number_char :: "char \<Rightarrow> bool" where
  "is_number_char c \<longleftrightarrow> is_digit c \<or> c = CHR ''K'' \<or> c = CHR ''M'' \<or> c = CHR ''G''"

definition is_letter :: "char \<Rightarrow> bool" where
  "is_letter c \<longleftrightarrow> (let n = (of_char c :: nat) in 97 \<le> n \<and> n \<le> 122 \<or> 65 \<le> n \<and> n \<le> 90)"

definition is_ident_start :: "char \<Rightarrow> bool" where
  "is_ident_start c \<longleftrightarrow> is_letter c \<or> c = CHR ''_''"

definition is_ident_char :: "char \<Rightarrow> bool" where
  "is_ident_char c \<longleftrightarrow> is_letter c \<or> is_digit c \<or> c = CHR ''_''"

text \<open>The body of a string literal after its opening quote: the raw text (reversed) and the rest after
  the closing quote. A backslash takes the next byte with it.\<close>

fun scan_string :: "int \<Rightarrow> string \<Rightarrow> string \<Rightarrow> (sieve_error, string \<times> string) result" where
  "scan_string n acc [] = Inl ErrUnterminatedString"
| "scan_string n acc [c] =
     (if c = CHR 0x22 then Inr (rev acc, [])
      else if n + 1 > maxStringLength then Inl ErrStringTooLong
      else Inl ErrUnterminatedString)"
| "scan_string n acc (c # d # s) =
     (if c = CHR 0x22 then Inr (rev acc, d # s)
      else if n + 1 > maxStringLength then Inl ErrStringTooLong
      else if c = CHR 0x5C then scan_string (n + 1) (d # c # acc) s
      else scan_string (n + 1) (c # acc) (d # s))"

definition unescape :: "string \<Rightarrow> string" where
  "unescape v = ReplaceAll (ReplaceAll v [CHR 0x5C, CHR 0x22] [CHR 0x22]) [CHR 0x5C, CHR 0x5C] [CHR 0x5C]"

definition word_token :: "string \<Rightarrow> token" where
  "word_token w =
     (let word = ToLower w
      in case map_of keyword_types word of
           Some t \<Rightarrow> Token t word
         | None \<Rightarrow> Token tokenString word)"

text \<open>The main loop; the first argument is the number of iterations the safety limit leaves, \<open>acc\<close> the
  tokens so far, last first.\<close>

fun tok_loop :: "nat \<Rightarrow> token list \<Rightarrow> string \<Rightarrow> (sieve_error, token list) result" where
  "tok_loop fuel acc [] = Inr (rev acc)"
| "tok_loop 0 acc (c # s) = Inl ErrInvalidInput"
| "tok_loop (Suc fuel) acc (c # s) =
     (if int (length acc) \<ge> maxTokens then Inl ErrTooManyTokens
      else (case dropWhile is_blank (c # s) of
        [] \<Rightarrow> Inr (rev acc)
      | ch # r \<Rightarrow>
          (case map_of single_tokens ch of
             Some t \<Rightarrow> tok_loop fuel (Token t [ch] # acc) r
           | None \<Rightarrow>
               (if ch = CHR 0x22 then
                  (case scan_string 0 [] r of
                     Inl e \<Rightarrow> Inl e
                   | Inr (v, rest) \<Rightarrow>
                       (if int (length v) > maxStringLength then Inl ErrStringTooLong
                        else tok_loop fuel (Token tokenString (unescape v) # acc) rest))
                else if is_digit ch then
                  (let v = takeWhile is_number_char (ch # r)
                   in if length v > 100 then Inl ErrInvalidInput
                      else tok_loop fuel (Token tokenNumber v # acc) (dropWhile is_number_char (ch # r)))
                else if is_ident_start ch then
                  (let v = takeWhile is_ident_char (ch # r)
                   in if length v > 1000 then Inl ErrInvalidInput
                      else tok_loop fuel (word_token v # acc) (dropWhile is_ident_char (ch # r)))
                else tok_loop fuel acc r))))"

definition strip_comments :: "string \<Rightarrow> string" where
  "strip_comments s = strip_block_comments 0 (strip_line_comments False s)"

definition tokenize :: "string \<Rightarrow> (sieve_error, token list) result" where
  "tokenize input =
     (let s = strip_comments input
      in case tok_loop (length s + 1000) [] s of
           Inl e \<Rightarrow> Inl e
         | Inr ts \<Rightarrow> Inr (ts @ [Token tokenEOF []]))"

section \<open>The parser\<close>

definition peek :: "token list \<Rightarrow> token option" where
  "peek ts = (case ts of [] \<Rightarrow> None | t # _ \<Rightarrow> Some t)"

definition current :: "token list \<Rightarrow> token" where
  "current ts = (case ts of [] \<Rightarrow> Token tokenEOF [] | t # _ \<Rightarrow> t)"

abbreviation cur :: "token list \<Rightarrow> tokenType" where
  "cur ts \<equiv> tk_typ (current ts)"

definition advance :: "token list \<Rightarrow> token list" where
  "advance ts = tl ts"

definition expect :: "tokenType \<Rightarrow> token list \<Rightarrow> (sieve_error, token list) result" where
  "expect expected ts =
     (case ts of
        [] \<Rightarrow> Inl (ErrUnexpectedEnd expected)
      | t # r \<Rightarrow> if tk_typ t \<noteq> expected then Inl (ErrUnexpectedToken expected (tk_typ t)) else Inr r)"

definition skip_semi :: "token list \<Rightarrow> token list" where
  "skip_semi ts = (if cur ts = tokenSemi then advance ts else ts)"

text \<open>The loop over an array of strings; the flag says whether the length of a string is checked again.\<close>

fun array_loop :: "bool \<Rightarrow> int \<Rightarrow> string list \<Rightarrow> token list \<Rightarrow> (sieve_error, string list \<times> token list) result" where
  "array_loop chk n acc [] = Inr (rev acc, [])"
| "array_loop chk n acc (t # ts) =
     (if tk_typ t = tokenRBracket \<or> tk_typ t = tokenEOF then Inr (rev acc, t # ts)
      else if n + 1 > maxArraySize then Inl ErrArrayTooLarge
      else if tk_typ t = tokenString then
        (if chk \<and> int (length (tk_val t)) > maxStringLength then Inl ErrStringTooLong
         else array_loop chk (n + 1) (tk_val t # acc) ts)
      else array_loop chk (n + 1) acc ts)"

definition parse_array :: "bool \<Rightarrow> token list \<Rightarrow> (sieve_error, string list \<times> token list) result" where
  "parse_array chk ts =
     (case array_loop chk 0 [] (advance ts) of
        Inl e \<Rightarrow> Inl e
      | Inr (vs, r) \<Rightarrow> Inr (vs, if cur r = tokenRBracket then advance r else r))"

definition parse_strings :: "bool \<Rightarrow> token list \<Rightarrow> (sieve_error, string list \<times> token list) result" where
  "parse_strings chk ts =
     (if cur ts = tokenLBracket then parse_array chk ts
      else if cur ts = tokenString then
        (if chk \<and> int (length (tk_val (current ts))) > maxStringLength then Inl ErrStringTooLong
         else Inr ([tk_val (current ts)], advance ts))
      else Inr ([], ts))"

definition parseRequire :: "token list \<Rightarrow> (sieve_error, string list \<times> token list) result" where
  "parseRequire ts =
     (case parse_strings False (advance ts) of
        Inl e \<Rightarrow> Inl e
      | Inr (reqs, r) \<Rightarrow> Inr (reqs, skip_semi r))"

text \<open>The modifiers of a header test: match type, comparator and address part; at most ten.\<close>

fun header_mods :: "nat \<Rightarrow> string \<Rightarrow> string \<Rightarrow> string \<Rightarrow> token list
    \<Rightarrow> (sieve_error, (string \<times> string \<times> string) \<times> token list) result" where
  "header_mods left matchType comparator addressPart ts =
     (if cur ts \<noteq> tokenColon then Inr ((matchType, comparator, addressPart), ts)
      else (case left of
        0 \<Rightarrow> Inl ErrInvalidInput
      | Suc k \<Rightarrow>
          (let md = tk_val (current (advance ts)); r = advance (advance ts)
           in if md = ''contains'' \<or> md = ''is'' \<or> md = ''matches''
              then header_mods k md comparator addressPart r
              else if md = ''localpart'' \<or> md = ''domain'' \<or> md = ''all''
              then header_mods k matchType comparator md r
              else if md = ''comparator'' \<and> cur r = tokenString
              then header_mods k matchType (tk_val (current r)) addressPart (advance r)
              else header_mods k matchType comparator addressPart r)))"

declare header_mods.simps [simp del]

definition parseHeaderCondition :: "bool \<Rightarrow> token list \<Rightarrow> (sieve_error, condition \<times> token list) result" where
  "parseHeaderCondition isAddress ts =
     (case header_mods 10 [] [] [] (advance ts) of
        Inl e \<Rightarrow> Inl e
      | Inr ((matchType, comparator, addressPart), r) \<Rightarrow>
          (case parse_strings True r of
             Inl e \<Rightarrow> Inl e
           | Inr (headers, r1) \<Rightarrow>
               (case parse_strings True r1 of
                  Inl e \<Rightarrow> Inl e
                | Inr (vals, r2) \<Rightarrow>
                    Inr (HeaderCondition
                      \<lparr>hc_Headers = headers, hc_Values = vals,
                       hc_MatchType = (if matchType = [] then ''is'' else matchType),
                       hc_Comparator = comparator, hc_IsAddress = isAddress, hc_AddressPart = addressPart\<rparr>, r2))))"

text \<open>\<open>parseSize\<close>; the product is an \<open>int64\<close>.\<close>

definition parseSize :: "string \<Rightarrow> (sieve_error, int) result" where
  "parseSize s0 =
     (let s = TrimSpace s0
      in if s = [] then Inr 0
         else (let l = last s;
                   (multiplier, ds) =
                     (if l = CHR ''K'' \<or> l = CHR ''k'' then (1024, butlast s)
                      else if l = CHR ''M'' \<or> l = CHR ''m'' then (1024 * 1024, butlast s)
                      else if l = CHR ''G'' \<or> l = CHR ''g'' then (1024 * 1024 * 1024, butlast s)
                      else (1, s))
               in case ParseInt64 ds of
                    None \<Rightarrow> Inl ErrSizeSyntax
                  | Some n \<Rightarrow>
                      (if n < 0 then Inl ErrInvalidSize
                       else if multiplier > 1 \<and> n > maxSizeValue div multiplier then Inl ErrInvalidSize
                       else (let res = wrap64 (n * multiplier)
                             in if res < 0 \<or> res > maxSizeValue then Inl ErrInvalidSize else Inr res))))"

definition parseSizeCondition :: "token list \<Rightarrow> (sieve_error, condition \<times> token list) result" where
  "parseSizeCondition ts =
     (let r = advance ts;
          (over, r1) = (if cur r = tokenColon
                        then (cur (advance r) = tokenOver, advance (advance r)) else (False, r))
      in if cur r1 = tokenNumber
         then (case parseSize (tk_val (current r1)) of
                 Inl e \<Rightarrow> Inl e
               | Inr n \<Rightarrow> Inr (SizeCondition n over, advance r1))
         else Inr (SizeCondition 0 over, r1))"

definition parseExistsCondition :: "token list \<Rightarrow> (sieve_error, condition \<times> token list) result" where
  "parseExistsCondition ts =
     (case parse_strings True (advance ts) of
        Inl e \<Rightarrow> Inl e
      | Inr (headers, r) \<Rightarrow> Inr (ExistsCondition headers, r))"

definition lift_cond :: "(sieve_error, condition \<times> token list) result
    \<Rightarrow> (sieve_error, condition option \<times> token list) result" where
  "lift_cond x = (case x of Inl e \<Rightarrow> Inl e | Inr (c, r) \<Rightarrow> Inr (Some c, r))"

text \<open>A single test; \<open>None\<close> is the nil condition of an unknown token.\<close>

fun parseSingleCondition :: "int \<Rightarrow> token list \<Rightarrow> (sieve_error, condition option \<times> token list) result" where
  "parseSingleCondition depth [] =
     (if depth + 1 > maxConditionDepth then Inl ErrNestingTooDeep else Inr (None, []))"
| "parseSingleCondition depth (t # ts) =
     (if depth + 1 > maxConditionDepth then Inl ErrNestingTooDeep
      else if tk_typ t = tokenNot then
        (case parseSingleCondition (depth + 1) ts of
           Inl e \<Rightarrow> Inl e
         | Inr (inner, r) \<Rightarrow> Inr (Some (NotCondition inner), r))
      else if tk_typ t = tokenAddress \<or> tk_typ t = tokenHeader then
        lift_cond (parseHeaderCondition (tk_typ t = tokenAddress) (t # ts))
      else if tk_typ t = tokenSize then lift_cond (parseSizeCondition (t # ts))
      else if tk_typ t = tokenExists then lift_cond (parseExistsCondition (t # ts))
      else if tk_typ t = tokenTrue then Inr (Some TrueCondition, ts)
      else if tk_typ t = tokenFalse then Inr (Some FalseCondition, ts)
      else Inr (None, ts))"

definition opt_snoc :: "'a list \<Rightarrow> 'a option \<Rightarrow> 'a list" where
  "opt_snoc xs x = (case x of None \<Rightarrow> xs | Some y \<Rightarrow> xs @ [y])"

text \<open>The list of tests of \<open>allof\<close> and \<open>anyof\<close>; \<open>n\<close> is \<open>condCount\<close>.\<close>

function cond_loop :: "int \<Rightarrow> int \<Rightarrow> condition list \<Rightarrow> token list
    \<Rightarrow> (sieve_error, condition list \<times> token list) result" where
  "cond_loop depth n conditions ts =
     (if cur ts = tokenRParen \<or> cur ts = tokenEOF then Inr (conditions, ts)
      else if n + 1 > maxArraySize then Inl ErrArrayTooLarge
      else (case parseSingleCondition depth ts of
              Inl e \<Rightarrow> Inl e
            | Inr (c, r) \<Rightarrow>
                cond_loop depth (n + 1) (opt_snoc conditions c) (if cur r = tokenComma then advance r else r)))"
  by pat_completeness auto
termination
  by (relation "measure (\<lambda>(depth, n, conditions, ts). nat (maxArraySize - n))") auto

declare cond_loop.simps [simp del]

definition parse_tests :: "int \<Rightarrow> token list \<Rightarrow> (sieve_error, condition list \<times> token list) result" where
  "parse_tests depth ts =
     (if cur ts = tokenLParen then
        (case cond_loop depth 0 [] (advance ts) of
           Inl e \<Rightarrow> Inl e
         | Inr (cs, r) \<Rightarrow> Inr (cs, if cur r = tokenRParen then advance r else r))
      else Inr ([], ts))"

definition parseCondition :: "int \<Rightarrow> token list \<Rightarrow> (sieve_error, (condition list \<times> bool) \<times> token list) result" where
  "parseCondition depth0 ts =
     (let depth = depth0 + 1
      in if depth > maxConditionDepth then Inl ErrNestingTooDeep
         else if cur ts = tokenAllof then
           (case parse_tests depth (advance ts) of Inl e \<Rightarrow> Inl e | Inr (cs, r) \<Rightarrow> Inr ((cs, True), r))
         else if cur ts = tokenAnyof then
           (case parse_tests depth (advance ts) of Inl e \<Rightarrow> Inl e | Inr (cs, r) \<Rightarrow> Inr ((cs, False), r))
         else if cur ts = tokenTrue then Inr (([TrueCondition], True), advance ts)
         else if cur ts = tokenFalse then Inr (([FalseCondition], True), advance ts)
         else (case parseSingleCondition depth ts of
                 Inl e \<Rightarrow> Inl e
               | Inr (c, r) \<Rightarrow> Inr ((opt_snoc [] c, True), r)))"

text \<open>An optional string argument, as \<open>fileinto\<close>, \<open>redirect\<close> and \<open>reject\<close> read it.\<close>

definition string_arg :: "token list \<Rightarrow> (sieve_error, string \<times> token list) result" where
  "string_arg ts =
     (if cur ts = tokenString then
        (if int (length (tk_val (current ts))) > maxStringLength then Inl ErrStringTooLong
         else Inr (tk_val (current ts), advance ts))
      else Inr ([], ts))"

text \<open>The parameters of \<open>vacation\<close>; at most twenty.\<close>

fun vacation_params :: "nat \<Rightarrow> vacation_action \<Rightarrow> token list
    \<Rightarrow> (sieve_error, vacation_action \<times> token list) result" where
  "vacation_params left a ts =
     (if cur ts \<noteq> tokenColon then Inr (a, ts)
      else (case left of
        0 \<Rightarrow> Inl ErrInvalidInput
      | Suc k \<Rightarrow>
          (let param = tk_val (current (advance ts)); r = advance (advance ts)
           in if param = ''days'' \<and> cur r = tokenNumber then
                (case ParseInt64 (tk_val (current r)) of
                   None \<Rightarrow> Inl ErrVacationDaysSyntax
                 | Some days \<Rightarrow>
                     (if days < 0 \<or> days > maxVacationDays then Inl ErrVacationDaysRange
                      else vacation_params k (a\<lparr>va_Days := days\<rparr>) (advance r)))
              else if param = ''subject'' \<and> cur r = tokenString then
                (if int (length (tk_val (current r))) > maxStringLength then Inl ErrStringTooLong
                 else vacation_params k (a\<lparr>va_Subject := tk_val (current r)\<rparr>) (advance r))
              else if param = ''from'' \<and> cur r = tokenString then
                (if int (length (tk_val (current r))) > maxStringLength then Inl ErrStringTooLong
                 else vacation_params k (a\<lparr>va_From := tk_val (current r)\<rparr>) (advance r))
              else if param = ''addresses'' \<and> cur r = tokenLBracket then
                (case parse_array True r of
                   Inl e \<Rightarrow> Inl e
                 | Inr (vs, r1) \<Rightarrow> vacation_params k (a\<lparr>va_Addresses := va_Addresses a @ vs\<rparr>) r1)
              else vacation_params k a r)))"

declare vacation_params.simps [simp del]

definition parseVacationAction :: "token list \<Rightarrow> (sieve_error, action \<times> token list) result" where
  "parseVacationAction ts =
     (case vacation_params 20 \<lparr>va_Days = 7, va_Subject = [], va_From = [], va_Body = [], va_Addresses = [],
             va_Handle = []\<rparr> (advance ts) of
        Inl e \<Rightarrow> Inl e
      | Inr (a, r) \<Rightarrow>
          (if cur r = tokenString then
             (if int (length (tk_val (current r))) > maxStringLength then Inl ErrStringTooLong
              else Inr (VacationAction (a\<lparr>va_Body := tk_val (current r)\<rparr>), skip_semi (advance r)))
           else Inr (VacationAction a, skip_semi r)))"

definition parseAction :: "token list \<Rightarrow> (sieve_error, action option \<times> token list) result" where
  "parseAction ts =
     (let r = advance ts
      in case cur ts of
           tokenKeep \<Rightarrow> Inr (Some KeepAction, skip_semi r)
         | tokenFileinto \<Rightarrow>
             (case string_arg r of
                Inl e \<Rightarrow> Inl e
              | Inr (folder, r1) \<Rightarrow>
                  (if folder = [] then Inl ErrFileintoFolder else Inr (Some (FileIntoAction folder), skip_semi r1)))
         | tokenRedirect \<Rightarrow>
             (case string_arg r of
                Inl e \<Rightarrow> Inl e
              | Inr (addr, r1) \<Rightarrow>
                  (if addr = [] then Inl ErrRedirectAddress else Inr (Some (RedirectAction addr), skip_semi r1)))
         | tokenDiscard \<Rightarrow> Inr (Some DiscardAction, skip_semi r)
         | tokenReject \<Rightarrow>
             (case string_arg r of
                Inl e \<Rightarrow> Inl e
              | Inr (m, r1) \<Rightarrow> Inr (Some (RejectAction m), skip_semi r1))
         | tokenVacation \<Rightarrow>
             (case parseVacationAction ts of Inl e \<Rightarrow> Inl e | Inr (a, r1) \<Rightarrow> Inr (Some a, r1))
         | tokenStop \<Rightarrow> Inr (Some StopAction, skip_semi r)
         | _ \<Rightarrow> Inr (None, r))"

function action_loop :: "int \<Rightarrow> action list \<Rightarrow> token list \<Rightarrow> (sieve_error, action list \<times> token list) result" where
  "action_loop n actions ts =
     (if cur ts = tokenRBrace \<or> cur ts = tokenEOF then Inr (actions, ts)
      else if n + 1 > maxArraySize then Inl ErrArrayTooLarge
      else (case parseAction ts of
              Inl e \<Rightarrow> Inl e
            | Inr (a, r) \<Rightarrow> action_loop (n + 1) (opt_snoc actions a) r))"
  by pat_completeness auto
termination
  by (relation "measure (\<lambda>(n, actions, ts). nat (maxArraySize - n))") auto

declare action_loop.simps [simp del]

text \<open>\<open>parseRule\<close> is called at depth 0 only: the parser has no nested rules.\<close>

definition parseRule :: "int \<Rightarrow> token list \<Rightarrow> (sieve_error, rule \<times> token list) result" where
  "parseRule depth0 ts =
     (let depth = depth0 + 1
      in if depth > maxParseDepth then Inl ErrNestingTooDeep
         else (case parseCondition depth (advance ts) of
                 Inl e \<Rightarrow> Inl e
               | Inr ((cond, allOf), r) \<Rightarrow>
                   (if cur r \<noteq> tokenLBrace then Inl (ErrExpectedLBrace (cur r))
                    else (case action_loop 0 [] (advance r) of
                            Inl e \<Rightarrow> Inl e
                          | Inr (acts, r1) \<Rightarrow>
                              Inr (\<lparr>ru_Conditions = cond, ru_Actions = acts, ru_AllOf = allOf, ru_Stop = False\<rparr>,
                                   if cur r1 = tokenRBrace then advance r1 else r1)))))"

text \<open>The main loop; \<open>n\<close> is \<open>iterations\<close>.\<close>

function parse_loop :: "int \<Rightarrow> parsed_script \<Rightarrow> token list \<Rightarrow> (sieve_error, parsed_script) result" where
  "parse_loop n script ts =
     (if ts = [] then Inr script
      else if n + 1 > maxTokens then Inl ErrInvalidInput
      else if cur ts = tokenEOF then Inr script
      else if cur ts = tokenRequire then
        (case parseRequire ts of
           Inl e \<Rightarrow> Inl e
         | Inr (reqs, r) \<Rightarrow> parse_loop (n + 1) (script\<lparr>ps_Require := ps_Require script @ reqs\<rparr>) r)
      else if cur ts = tokenIf then
        (case parseRule 0 ts of
           Inl e \<Rightarrow> Inl e
         | Inr (rl, r) \<Rightarrow> parse_loop (n + 1) (script\<lparr>ps_Rules := ps_Rules script @ [rl]\<rparr>) r)
      else parse_loop (n + 1) script (advance ts))"
  by pat_completeness auto
termination
  by (relation "measure (\<lambda>(n, script, ts). nat (maxTokens - n))") auto

declare parse_loop.simps [simp del]

definition parse :: "token list \<Rightarrow> (sieve_error, parsed_script) result" where
  "parse ts = parse_loop 0 \<lparr>ps_Require = [], ps_Rules = []\<rparr> ts"

definition Parse :: "string \<Rightarrow> (sieve_error, parsed_script) result" where
  "Parse script =
     (if int (length script) > maxScriptSize then Inl ErrScriptTooLarge
      else (case tokenize script of
              Inl e \<Rightarrow> Inl e
            | Inr ts \<Rightarrow> parse ts))"

section \<open>The tokenizer's iteration limit\<close>

lemma scan_string_rest: "scan_string n acc s = Inr (v, rest) \<Longrightarrow> length rest < length s"
  by (induction n acc s rule: scan_string.induct) (auto split: if_splits)

lemma dropWhile_Cons_length: "dropWhile P s = c # r \<Longrightarrow> length r < length s"
  by (metis Suc_le_eq length_Cons length_dropWhile_le)

lemma dropWhile_first_length: "P c \<Longrightarrow> length (dropWhile P (c # r)) \<le> length r"
  by (simp add: length_dropWhile_le)

lemma number_start: "is_digit c \<Longrightarrow> is_number_char c" and ident_start: "is_ident_start c \<Longrightarrow> is_ident_char c"
  by (auto simp: is_number_char_def is_ident_start_def is_ident_char_def)

lemma tok_loop_fuel: "length s \<le> f \<Longrightarrow> tok_loop f acc s = tok_loop (f + k) acc s"
proof (induction f arbitrary: acc s)
  case (Suc fuel)
  show ?case
  proof (cases s)
    case (Cons c s')
    show ?thesis
    proof (cases "dropWhile is_blank (c # s')")
      case Nil
      then show ?thesis unfolding Cons by (simp only: tok_loop.simps list.case add_Suc)
    next
      case dw: (Cons ch r)
      have r: "length r \<le> fuel" using dropWhile_Cons_length [OF dw] Suc.prems Cons by simp
      have num: "length (dropWhile is_number_char (ch # r)) \<le> fuel" if "is_digit ch"
        using dropWhile_first_length [of is_number_char ch r] number_start [OF that] r by linarith
      have idt: "length (dropWhile is_ident_char (ch # r)) \<le> fuel" if "is_ident_start ch"
        using dropWhile_first_length [of is_ident_char ch r] ident_start [OF that] r by linarith
      have str: "length rest \<le> fuel" if "scan_string 0 [] r = Inr (v, rest)" for v rest
        using scan_string_rest [OF that] r by linarith
      note eqs = Suc.IH [OF r] Suc.IH [OF num] Suc.IH [OF idt] Suc.IH [OF str]
      show ?thesis
        unfolding Cons add_Suc tok_loop.simps dw list.case Let_def
        by (cases "map_of single_tokens ch"; cases "scan_string 0 [] r")
          (use eqs in \<open>simp_all del: dropWhile.simps takeWhile.simps split: prod.split\<close>)
    qed
  qed simp
qed auto

text \<open>C40. The tokenizer always ends on its own: it consumes a character in every round, so its safety limit of
  \<open>len(s) + 1000\<close> iterations never decides the result; already \<open>len(s)\<close> rounds are enough.\<close>

theorem tokenize_limit_inert:
  "tokenize input =
     (case tok_loop (length (strip_comments input)) [] (strip_comments input) of
        Inl e \<Rightarrow> Inl e
      | Inr ts \<Rightarrow> Inr (ts @ [Token tokenEOF []]))"
  using tok_loop_fuel [of "strip_comments input" "length (strip_comments input)" "[]" 1000]
  by (simp add: tokenize_def Let_def)

section \<open>What a parsed script can contain\<close>

definition short :: "string \<Rightarrow> bool" where
  "short s \<longleftrightarrow> int (length s) \<le> maxStringLength"

definition strings_ok :: "string list \<Rightarrow> bool" where
  "strings_ok vs \<longleftrightarrow> int (length vs) \<le> maxArraySize \<and> list_all short vs"

fun not_depth :: "condition \<Rightarrow> int" where
  "not_depth (NotCondition None) = 1"
| "not_depth (NotCondition (Some c)) = 1 + not_depth c"
| "not_depth c = 0"

fun cond_ok :: "condition \<Rightarrow> bool" where
  "cond_ok TrueCondition = True"
| "cond_ok FalseCondition = True"
| "cond_ok (NotCondition None) = True"
| "cond_ok (NotCondition (Some c)) = cond_ok c"
| "cond_ok (HeaderCondition h) =
     (strings_ok (hc_Headers h) \<and> strings_ok (hc_Values h) \<and>
      hc_MatchType h \<in> {''is'', ''contains'', ''matches''} \<and>
      hc_AddressPart h \<in> {[], ''localpart'', ''domain'', ''all''})"
| "cond_ok (SizeCondition n over) = (0 \<le> n \<and> n \<le> maxSizeValue)"
| "cond_ok (ExistsCondition hs) = strings_ok hs"
| "cond_ok _ = False"

fun action_ok :: "action \<Rightarrow> bool" where
  "action_ok (FileIntoAction f) = (f \<noteq> [] \<and> short f)"
| "action_ok (RedirectAction a) = (a \<noteq> [] \<and> short a)"
| "action_ok (RejectAction m) = short m"
| "action_ok (VacationAction a) =
     (0 \<le> va_Days a \<and> va_Days a \<le> maxVacationDays \<and> short (va_Subject a) \<and> short (va_From a) \<and>
      short (va_Body a) \<and> list_all short (va_Addresses a))"
| "action_ok _ = True"

definition rule_ok :: "rule \<Rightarrow> bool" where
  "rule_ok r \<longleftrightarrow> int (length (ru_Conditions r)) \<le> maxArraySize \<and> int (length (ru_Actions r)) \<le> maxArraySize \<and>
     list_all (\<lambda>c. cond_ok c \<and> not_depth c \<le> 47) (ru_Conditions r) \<and> list_all action_ok (ru_Actions r) \<and>
     \<not> ru_Stop r"

lemma array_loop_ok:
  "array_loop True n acc ts = Inr (vs, r) \<Longrightarrow> list_all short acc \<Longrightarrow> int (length acc) \<le> n \<Longrightarrow> n \<le> maxArraySize \<Longrightarrow> strings_ok vs"
proof (induction ts arbitrary: n acc)
  case Nil
  then show ?case by (auto simp: strings_ok_def)
next
  case (Cons t ts)
  show ?case
  proof (cases "tk_typ t = tokenRBracket \<or> tk_typ t = tokenEOF")
    case True
    with Cons.prems show ?thesis by (auto simp: strings_ok_def)
  next
    case False
    show ?thesis
    proof (cases "tk_typ t = tokenString")
      case True
      with False Cons.prems have "n + 1 \<le> maxArraySize" "short (tk_val t)"
        "array_loop True (n + 1) (tk_val t # acc) ts = Inr (vs, r)" by (auto simp: short_def split: if_splits)
      with Cons.IH Cons.prems(2,3) show ?thesis by auto
    next
      case str: False
      with False Cons.prems have "n + 1 \<le> maxArraySize" "array_loop True (n + 1) acc ts = Inr (vs, r)"
        by (auto split: if_splits)
      with Cons.IH Cons.prems(2,3) show ?thesis by auto
    qed
  qed
qed

lemma parse_array_ok: "parse_array True ts = Inr (vs, r) \<Longrightarrow> strings_ok vs"
  by (auto simp: parse_array_def sieve_limits dest!: array_loop_ok split: sum.splits)

lemma parse_strings_ok: "parse_strings True ts = Inr (vs, r) \<Longrightarrow> strings_ok vs"
  by (auto simp: parse_strings_def strings_ok_def short_def sieve_limits dest!: parse_array_ok split: if_splits)

lemma header_mods_ok:
  "header_mods k m c p ts = Inr ((m', c', p'), r) \<Longrightarrow> m \<in> {[], ''is'', ''contains'', ''matches''} \<Longrightarrow>
   p \<in> {[], ''localpart'', ''domain'', ''all''} \<Longrightarrow>
   m' \<in> {[], ''is'', ''contains'', ''matches''} \<and> p' \<in> {[], ''localpart'', ''domain'', ''all''}"
proof (induction k arbitrary: m c p ts)
  case 0
  then show ?case by (auto simp: header_mods.simps [of 0] split: if_splits)
next
  case (Suc k)
  show ?case
  proof (cases "cur ts = tokenColon")
    case True
    let ?md = "tk_val (current (advance ts))"
    let ?r = "advance (advance ts)"
    from Suc.prems(1) True consider
      "?md \<in> {''is'', ''contains'', ''matches''}" "header_mods k ?md c p ?r = Inr ((m', c', p'), r)"
    | "?md \<in> {''localpart'', ''domain'', ''all''}" "header_mods k m c ?md ?r = Inr ((m', c', p'), r)"
    | "header_mods k m (tk_val (current ?r)) p (advance ?r) = Inr ((m', c', p'), r)"
    | "header_mods k m c p ?r = Inr ((m', c', p'), r)"
      by (subst (asm) header_mods.simps) (auto simp: Let_def split: if_splits)
    then show ?thesis
    proof cases
      case 1
      show ?thesis by (rule Suc.IH [OF 1(2)]) (use 1(1) Suc.prems(3) in auto)
    next
      case 2
      show ?thesis by (rule Suc.IH [OF 2(2)]) (use 2(1) Suc.prems(2) in auto)
    next
      case 3
      show ?thesis by (rule Suc.IH [OF 3 Suc.prems(2,3)])
    next
      case 4
      show ?thesis by (rule Suc.IH [OF 4 Suc.prems(2,3)])
    qed
  next
    case False
    with Suc.prems show ?thesis by (auto simp: header_mods.simps [of "Suc k"])
  qed
qed

lemma parseSize_range: "parseSize s = Inr n \<Longrightarrow> 0 \<le> n \<and> n \<le> maxSizeValue"
  by (auto simp: parseSize_def Let_def sieve_limits split: if_splits option.splits prod.splits)

lemma parseHeaderCondition_ok: "parseHeaderCondition a ts = Inr (c, r) \<Longrightarrow> cond_ok c \<and> not_depth c = 0"
  by (auto simp: parseHeaderCondition_def dest!: parse_strings_ok header_mods_ok split: sum.splits prod.splits if_splits)

lemma parseSizeCondition_ok: "parseSizeCondition ts = Inr (c, r) \<Longrightarrow> cond_ok c \<and> not_depth c = 0"
  by (auto simp: parseSizeCondition_def Let_def sieve_limits dest!: parseSize_range split: sum.splits prod.splits if_splits)

lemma parseExistsCondition_ok: "parseExistsCondition ts = Inr (c, r) \<Longrightarrow> cond_ok c \<and> not_depth c = 0"
  by (auto simp: parseExistsCondition_def dest!: parse_strings_ok split: sum.splits prod.splits)

lemma lift_cond_Inr: "lift_cond x = Inr (c, r) \<longleftrightarrow> (\<exists>c'. c = Some c' \<and> x = Inr (c', r))"
  by (auto simp: lift_cond_def split: sum.splits)

lemma parseSingleCondition_ok:
  "parseSingleCondition depth ts = Inr (Some c, r) \<Longrightarrow> cond_ok c \<and> not_depth c \<le> maxConditionDepth - depth - 1"
proof (induction depth ts arbitrary: c r rule: parseSingleCondition.induct)
  case (1 depth)
  then show ?case by (simp split: if_splits)
next
  case (2 depth t ts)
  show ?case
  proof (cases "tk_typ t = tokenNot")
    case True
    with 2(2) obtain inner where c: "c = NotCondition inner" "parseSingleCondition (depth + 1) ts = Inr (inner, r)"
      and d: "depth + 1 \<le> maxConditionDepth" by (auto split: if_splits sum.splits)
    show ?thesis
    proof (cases inner)
      case None
      have "depth + 2 \<le> maxConditionDepth" using c(2) by (cases ts) (auto split: if_splits)
      with c None show ?thesis by simp
    next
      case (Some c')
      with 2(1) d True c show ?thesis by auto
    qed
  next
    case False
    with 2(2) have d: "depth + 1 \<le> maxConditionDepth" by (simp split: if_splits)
    from False 2(2) d have "cond_ok c \<and> not_depth c = 0"
      by (auto simp: lift_cond_Inr split: if_splits
          dest!: parseHeaderCondition_ok parseSizeCondition_ok parseExistsCondition_ok)
    with d show ?thesis by simp
  qed
qed

lemma cond_loop_ok:
  "cond_loop depth n cs ts = Inr (cs', r) \<Longrightarrow> list_all (\<lambda>c. cond_ok c \<and> not_depth c \<le> maxConditionDepth - depth - 1) cs \<Longrightarrow>
   int (length cs) \<le> n \<Longrightarrow> n \<le> maxArraySize \<Longrightarrow>
   list_all (\<lambda>c. cond_ok c \<and> not_depth c \<le> maxConditionDepth - depth - 1) cs' \<and> int (length cs') \<le> maxArraySize"
proof (induction depth n cs ts rule: cond_loop.induct)
  case (1 depth n cs ts)
  show ?case
  proof (cases "cur ts = tokenRParen \<or> cur ts = tokenEOF")
    case True
    with 1 show ?thesis by (auto simp: cond_loop.simps [of depth n cs ts])
  next
    case False
    with 1(2) obtain c r' where lim: "\<not> n + 1 > maxArraySize" and p: "parseSingleCondition depth ts = Inr (c, r')"
      and rec: "cond_loop depth (n + 1) (opt_snoc cs c) (if cur r' = tokenComma then advance r' else r') = Inr (cs', r)"
      by (subst (asm) cond_loop.simps) (auto split: if_splits sum.splits)
    show ?thesis
      by (rule 1(1) [OF False lim p refl rec])
        (use 1(3-5) lim parseSingleCondition_ok p in \<open>auto simp: opt_snoc_def split: option.splits\<close>)
  qed
qed

lemma parse_tests_ok:
  "parse_tests depth ts = Inr (cs, r) \<Longrightarrow>
   list_all (\<lambda>c. cond_ok c \<and> not_depth c \<le> maxConditionDepth - depth - 1) cs \<and> int (length cs) \<le> maxArraySize"
  using cond_loop_ok [of depth 0 "[]" "advance ts" cs]
  by (auto simp: parse_tests_def sieve_limits split: if_splits sum.splits)

lemma parseCondition_ok:
  assumes "parseCondition 1 ts = Inr ((cs, allOf), r)"
  shows "list_all (\<lambda>c. cond_ok c \<and> not_depth c \<le> 47) cs \<and> int (length cs) \<le> maxArraySize"
proof -
  have two: "maxConditionDepth - 2 - 1 = 47" "(1::int) + 1 = 2" by (simp_all add: sieve_limits)
  from assms consider "parse_tests 2 (advance ts) = Inr (cs, r)" | "cs = [TrueCondition] \<or> cs = [FalseCondition]"
    | c where "parseSingleCondition 2 ts = Inr (c, r)" "cs = opt_snoc [] c"
    unfolding parseCondition_def Let_def two by (auto split: if_splits sum.splits prod.splits)
  then show ?thesis
  proof cases
    case 1
    from parse_tests_ok [OF this] show ?thesis unfolding two .
  next
    case (3 c)
    then show ?thesis using parseSingleCondition_ok [of 2 ts _ r] two(1)
      by (cases c) (auto simp: opt_snoc_def sieve_limits)
  qed (auto simp: sieve_limits)
qed

lemma string_arg_short: "string_arg ts = Inr (v, r) \<Longrightarrow> short v"
  by (auto simp: string_arg_def short_def sieve_limits split: if_splits)

definition vac_ok :: "vacation_action \<Rightarrow> bool" where
  "vac_ok a \<longleftrightarrow> action_ok (VacationAction a)"

lemma vacation_params_SucD:
  assumes "vacation_params (Suc k) a ts = Inr (a', r)" "cur ts = tokenColon"
  shows "\<exists>b ts'. vacation_params k b ts' = Inr (a', r) \<and>
      (b = a \<or> (\<exists>d. 0 \<le> d \<and> d \<le> maxVacationDays \<and> b = a\<lparr>va_Days := d\<rparr>) \<or>
       (\<exists>s. short s \<and> (b = a\<lparr>va_Subject := s\<rparr> \<or> b = a\<lparr>va_From := s\<rparr>)) \<or>
       (\<exists>vs. list_all short vs \<and> b = a\<lparr>va_Addresses := va_Addresses a @ vs\<rparr>))"
  using assms unfolding vacation_params.simps [of "Suc k" a ts] Let_def
  by (auto simp: short_def strings_ok_def not_less dest!: parse_array_ok
      split: if_splits option.splits sum.splits prod.splits) blast+

lemma vacation_params_ok: "vacation_params k a ts = Inr (a', r) \<Longrightarrow> vac_ok a \<Longrightarrow> vac_ok a'"
proof (induction k arbitrary: a ts)
  case 0
  then show ?case by (auto simp: vacation_params.simps [of 0] split: if_splits)
next
  case (Suc k)
  show ?case
  proof (cases "cur ts = tokenColon")
    case True
    from vacation_params_SucD [OF Suc.prems(1) True] obtain b ts' where v: "vacation_params k b ts' = Inr (a', r)"
      and b: "b = a \<or> (\<exists>d. 0 \<le> d \<and> d \<le> maxVacationDays \<and> b = a\<lparr>va_Days := d\<rparr>) \<or>
       (\<exists>s. short s \<and> (b = a\<lparr>va_Subject := s\<rparr> \<or> b = a\<lparr>va_From := s\<rparr>)) \<or>
       (\<exists>vs. list_all short vs \<and> b = a\<lparr>va_Addresses := va_Addresses a @ vs\<rparr>)" by blast
    from b Suc.prems(2) have "vac_ok b" by (auto simp: vac_ok_def)
    with Suc.IH [OF v] show ?thesis .
  next
    case False
    with Suc.prems show ?thesis by (auto simp: vacation_params.simps [of "Suc k"])
  qed
qed

lemma parseVacationAction_ok: "parseVacationAction ts = Inr (a, r) \<Longrightarrow> action_ok a"
proof -
  let ?a0 = "\<lparr>va_Days = 7, va_Subject = [], va_From = [], va_Body = [], va_Addresses = [], va_Handle = []\<rparr>"
  assume "parseVacationAction ts = Inr (a, r)"
  then obtain b r1 where "vacation_params 20 ?a0 (advance ts) = Inr (b, r1)"
    and a: "a = VacationAction b \<or> (\<exists>s. short s \<and> a = VacationAction (b\<lparr>va_Body := s\<rparr>))"
    by (auto simp: parseVacationAction_def short_def not_less split: sum.splits prod.splits if_splits)
  moreover have "vac_ok ?a0" by (simp add: vac_ok_def short_def sieve_limits)
  ultimately have "vac_ok b" using vacation_params_ok by blast
  with a show ?thesis by (auto simp: vac_ok_def)
qed

lemma parseAction_ok: "parseAction ts = Inr (Some a, r) \<Longrightarrow> action_ok a"
  by (cases "cur ts")
    (auto simp: parseAction_def Let_def dest!: string_arg_short parseVacationAction_ok
      split: sum.splits prod.splits if_splits)

lemma action_loop_ok:
  "action_loop n as ts = Inr (as', r) \<Longrightarrow> list_all action_ok as \<Longrightarrow> int (length as) \<le> n \<Longrightarrow> n \<le> maxArraySize \<Longrightarrow>
   list_all action_ok as' \<and> int (length as') \<le> maxArraySize"
proof (induction n as ts rule: action_loop.induct)
  case (1 n as ts)
  show ?case
  proof (cases "cur ts = tokenRBrace \<or> cur ts = tokenEOF")
    case True
    with 1 show ?thesis by (auto simp: action_loop.simps [of n as ts])
  next
    case False
    with 1(2) obtain a r' where lim: "\<not> n + 1 > maxArraySize" and p: "parseAction ts = Inr (a, r')"
      and rec: "action_loop (n + 1) (opt_snoc as a) r' = Inr (as', r)"
      by (subst (asm) action_loop.simps) (auto split: if_splits sum.splits)
    show ?thesis
      by (rule 1(1) [OF False lim p refl rec])
        (use 1(3-5) lim parseAction_ok p in \<open>auto simp: opt_snoc_def split: option.splits\<close>)
  qed
qed

lemma parseRule_ok: "parseRule 0 ts = Inr (rl, r) \<Longrightarrow> rule_ok rl"
proof -
  assume "parseRule 0 ts = Inr (rl, r)"
  then obtain cs allOf r0 as r1 where c: "parseCondition 1 (advance ts) = Inr ((cs, allOf), r0)"
    and a: "action_loop 0 [] (advance r0) = Inr (as, r1)"
    and rl: "rl = \<lparr>ru_Conditions = cs, ru_Actions = as, ru_AllOf = allOf, ru_Stop = False\<rparr>"
    by (auto simp: parseRule_def Let_def split: if_splits sum.splits prod.splits)
  have "list_all action_ok as \<and> int (length as) \<le> maxArraySize"
    by (rule action_loop_ok [OF a]) (simp_all add: sieve_limits)
  with parseCondition_ok [OF c] rl show ?thesis by (simp add: rule_ok_def)
qed

lemma parse_loop_ok:
  "parse_loop n ps ts = Inr ps' \<Longrightarrow> list_all rule_ok (ps_Rules ps) \<Longrightarrow> int (length (ps_Rules ps)) \<le> n \<Longrightarrow> n \<le> maxTokens \<Longrightarrow>
   list_all rule_ok (ps_Rules ps') \<and> int (length (ps_Rules ps')) \<le> maxTokens"
proof (induction n ps ts rule: parse_loop.induct)
  case (1 n ps ts)
  show ?case
  proof (cases "ts = [] \<or> cur ts = tokenEOF")
    case True
    with 1 show ?thesis by (auto simp: parse_loop.simps [of n ps ts] split: if_splits)
  next
    case False
    with 1(4) have ne: "ts \<noteq> []" "cur ts \<noteq> tokenEOF" and lim: "\<not> n + 1 > maxTokens"
      by (auto simp: parse_loop.simps [of n ps ts] split: if_splits)
    show ?thesis
    proof (cases "cur ts = tokenRequire")
      case True
      with ne lim 1(4) obtain reqs r where p: "parseRequire ts = Inr (reqs, r)"
        and rec: "parse_loop (n + 1) (ps\<lparr>ps_Require := ps_Require ps @ reqs\<rparr>) r = Inr ps'"
        by (subst (asm) parse_loop.simps) (auto split: sum.splits)
      show ?thesis by (rule 1(1) [OF ne(1) lim ne(2) True p refl rec]) (use 1(5-7) lim in auto)
    next
      case req: False
      show ?thesis
      proof (cases "cur ts = tokenIf")
        case True
        with ne lim 1(4) obtain rl r where p: "parseRule 0 ts = Inr (rl, r)"
          and rec: "parse_loop (n + 1) (ps\<lparr>ps_Rules := ps_Rules ps @ [rl]\<rparr>) r = Inr ps'"
          by (subst (asm) parse_loop.simps) (auto split: sum.splits)
        show ?thesis by (rule 1(2) [OF ne(1) lim ne(2) req True p refl rec])
            (use 1(5-7) lim parseRule_ok [OF p] in auto)
      next
        case False
        with ne lim req 1(4) have rec: "parse_loop (n + 1) ps (advance ts) = Inr ps'"
          by (subst (asm) parse_loop.simps) simp
        show ?thesis by (rule 1(3) [OF ne(1) lim ne(2) req False rec]) (use 1(5-7) lim in auto)
      qed
    qed
  qed
qed

lemma Parse_rules_ok: "Parse s = Inr ps \<Longrightarrow> int (length (ps_Rules ps)) \<le> maxTokens \<and> list_all rule_ok (ps_Rules ps)"
proof -
  assume "Parse s = Inr ps"
  then obtain ts where "parse_loop 0 \<lparr>ps_Require = [], ps_Rules = []\<rparr> ts = Inr ps"
    by (auto simp: Parse_def parse_def split: if_splits sum.splits)
  from parse_loop_ok [OF this] show ?thesis by (simp add: sieve_limits)
qed

lemma Parse_no_stop: "Parse s = Inr ps \<Longrightarrow> list_all (\<lambda>r. \<not> ru_Stop r) (ps_Rules ps)"
  using Parse_rules_ok [of s ps] by (auto simp: list_all_iff rule_ok_def)

text \<open>C31. Whatever the text, a script that parses respects every documented limit: at most 100000 rules; in a
  rule at most 1000 tests, nested in at most 47 \<open>not\<close>s, and 1000 actions; header lists of at most 1000
  strings of at most 10000 bytes; sizes from 0 to 10 GB; vacation days from 0 to 365; \<open>fileinto\<close> and
  \<open>redirect\<close> with a non-empty argument. And no rule has its \<open>Stop\<close> flag set: the parser never sets it.\<close>

theorem Parse_wellformed:
  assumes "Parse s = Inr ps"
  shows "int (length (ps_Rules ps)) \<le> maxTokens \<and> list_all rule_ok (ps_Rules ps)"
  using assms by (rule Parse_rules_ok)

section \<open>Sizes\<close>

definition size_unit :: "string \<Rightarrow> int option" where
  "size_unit u = map_of [([], 1), (''K'', 1024), (''M'', 1024 * 1024), (''G'', 1024 * 1024 * 1024)] u"

lemma show_nat_last: "is_digit (last (show_nat n))" and show_nat_hd_digit: "is_digit (hd (show_nat n))"
  using show_nat_digits [of _ n] by simp_all

text \<open>\<open>parseSize\<close> reads a decimal number with an optional unit as exactly that number of bytes, and accepts
  it iff it is at most 10 GB: the 64-bit product never wraps into an accepted value.\<close>

theorem parseSize_exact:
  assumes "size_unit u = Some k"
  shows "parseSize (show_nat n @ u) = Inr b \<longleftrightarrow> b = int n * k \<and> b \<le> maxSizeValue"
proof -
  have u: "u = [] \<and> k = 1 \<or> u = ''K'' \<and> k = 1024 \<or> u = ''M'' \<and> k = 1024 * 1024 \<or> u = ''G'' \<and> k = 1024 * 1024 * 1024"
    using assms by (auto simp: size_unit_def split: if_splits)
  let ?s = "show_nat n @ u"
  have sp: "\<not> is_space (CHR ''K'')" "\<not> is_space (CHR ''M'')" "\<not> is_space (CHR ''G'')" by (simp_all add: is_space_def)
  have hd: "\<not> is_space (hd ?s)" using show_nat_hd_digit digit_not_space by simp
  have "\<not> is_space (last ?s)" using u sp digit_not_space [OF show_nat_last [of n]] by auto
  with hd have t: "TrimSpace ?s = ?s" by (intro TrimSpace_id) simp_all
  have l: "last (show_nat n) \<notin> set ''KkMmGg''" using show_nat_last [of n] by (auto simp: is_digit_def)
  have split: "(if last ?s = CHR ''K'' \<or> last ?s = CHR ''k'' then (1024, butlast ?s)
      else if last ?s = CHR ''M'' \<or> last ?s = CHR ''m'' then (1024 * 1024, butlast ?s)
      else if last ?s = CHR ''G'' \<or> last ?s = CHR ''g'' then (1024 * 1024 * 1024, butlast ?s)
      else (1, ?s)) = (k, show_nat n)"
    using u l by (auto simp: butlast_append)
  have k: "1 \<le> k" "k \<le> 2 ^ 30" using u by auto
  have iff: "int n \<le> maxSizeValue div k \<longleftrightarrow> int n * k \<le> maxSizeValue"
  proof
    assume "int n \<le> maxSizeValue div k"
    then have "int n * k \<le> maxSizeValue div k * k" using k(1) by (intro mult_right_mono) auto
    also have "\<dots> \<le> maxSizeValue" using k(1) by (simp flip: minus_mod_eq_div_mult)
    finally show "int n * k \<le> maxSizeValue" .
  next
    assume "int n * k \<le> maxSizeValue"
    then have "int n * k div k \<le> maxSizeValue div k" using k(1) by (intro zdiv_mono1) auto
    then show "int n \<le> maxSizeValue div k" using k(1) by simp
  qed
  have wrap: "wrap64 (int n * k) = int n * k" if "int n \<le> maxSizeValue div k \<or> k = 1" "int n < 2 ^ 63"
  proof -
    have "int n * k \<le> maxSizeValue \<or> k = 1" using that(1) iff by blast
    then have "int n * k < 2 ^ 63" using that(2) by (auto simp: sieve_limits)
    moreover have "0 \<le> int n * k" using k(1) by simp
    ultimately show ?thesis by (intro wrap64_id) auto
  qed

  show ?thesis
  proof (cases "int n < 2 ^ 63")
    case True
    have "parseSize ?s = (if k > 1 \<and> int n > maxSizeValue div k then Inl ErrInvalidSize
       else (let res = wrap64 (int n * k) in if res < 0 \<or> res > maxSizeValue then Inl ErrInvalidSize else Inr res))"
      unfolding parseSize_def t Let_def split using True by (simp add: ParseInt64_show)
    moreover define p where "p = int n * k"
    moreover have "0 \<le> p" using k(1) by (simp add: p_def)
    ultimately show ?thesis using wrap True iff k(1) unfolding p_def [symmetric] by (auto simp: Let_def not_less)
  next
    case False
    have "parseSize ?s = Inl ErrSizeSyntax"
      unfolding parseSize_def t Let_def split using False by (simp add: ParseInt64_show_big)
    moreover have "int n * k > maxSizeValue"
    proof -
      have "2 ^ 63 * 1 \<le> int n * k" using False k(1) by (intro mult_mono) auto
      then show ?thesis by (simp add: sieve_limits)
    qed
    ultimately show ?thesis by auto
  qed
qed

section \<open>Round trip\<close>

text \<open>The canonical token list of a script, and the scripts that have one.\<close>

fun comma_sep :: "token list list \<Rightarrow> token list" where
  "comma_sep [] = []"
| "comma_sep [ts] = ts"
| "comma_sep (ts # us # tss) = ts @ Token tokenComma '','' # comma_sep (us # tss)"

definition strings_tokens :: "string list \<Rightarrow> token list" where
  "strings_tokens vs =
     Token tokenLBracket ''['' # comma_sep (map (\<lambda>v. [Token tokenString v]) vs) @ [Token tokenRBracket '']'']"

definition mod_tokens :: "string \<Rightarrow> token list" where
  "mod_tokens m = [Token tokenColon '':'', word_token m]"

fun cond_tokens :: "condition \<Rightarrow> token list" where
  "cond_tokens TrueCondition = [Token tokenTrue ''true'']"
| "cond_tokens FalseCondition = [Token tokenFalse ''false'']"
| "cond_tokens (NotCondition (Some c)) = Token tokenNot ''not'' # cond_tokens c"
| "cond_tokens (HeaderCondition h) =
     (if hc_IsAddress h then Token tokenAddress ''address'' else Token tokenHeader ''header'') #
     mod_tokens (hc_MatchType h) @
     (if hc_Comparator h = [] then [] else mod_tokens ''comparator'' @ [Token tokenString (hc_Comparator h)]) @
     (if hc_AddressPart h = [] then [] else mod_tokens (hc_AddressPart h)) @
     strings_tokens (hc_Headers h) @ strings_tokens (hc_Values h)"
| "cond_tokens (SizeCondition n over) =
     Token tokenSize ''size'' # mod_tokens (if over then ''over'' else ''under'') @ [Token tokenNumber (show_nat (nat n))]"
| "cond_tokens (ExistsCondition hs) = Token tokenExists ''exists'' # strings_tokens hs"
| "cond_tokens _ = []"

definition semi :: token where
  "semi = Token tokenSemi '';''"

fun action_tokens :: "action \<Rightarrow> token list" where
  "action_tokens KeepAction = [Token tokenKeep ''keep'', semi]"
| "action_tokens (FileIntoAction f) = [Token tokenFileinto ''fileinto'', Token tokenString f, semi]"
| "action_tokens (RedirectAction a) = [Token tokenRedirect ''redirect'', Token tokenString a, semi]"
| "action_tokens DiscardAction = [Token tokenDiscard ''discard'', semi]"
| "action_tokens (RejectAction m) = [Token tokenReject ''reject'', Token tokenString m, semi]"
| "action_tokens StopAction = [Token tokenStop ''stop'', semi]"
| "action_tokens (VacationAction a) =
     Token tokenVacation ''vacation'' #
     mod_tokens ''days'' @ [Token tokenNumber (show_nat (nat (va_Days a)))] @
     mod_tokens ''subject'' @ [Token tokenString (va_Subject a)] @
     mod_tokens ''from'' @ [Token tokenString (va_From a)] @
     mod_tokens ''addresses'' @ strings_tokens (va_Addresses a) @
     [Token tokenString (va_Body a), semi]"

definition rule_tokens :: "rule \<Rightarrow> token list" where
  "rule_tokens r =
     [Token tokenIf ''if'', if ru_AllOf r then Token tokenAllof ''allof'' else Token tokenAnyof ''anyof'',
      Token tokenLParen ''(''] @ comma_sep (map cond_tokens (ru_Conditions r)) @
     [Token tokenRParen '')'', Token tokenLBrace ''{''] @ concat (map action_tokens (ru_Actions r)) @
     [Token tokenRBrace ''}'']"

definition script_tokens :: "parsed_script \<Rightarrow> token list" where
  "script_tokens ps =
     Token tokenRequire ''require'' # strings_tokens (ps_Require ps) @ [semi] @
     concat (map rule_tokens (ps_Rules ps)) @ [Token tokenEOF []]"

definition list_printable :: "string list \<Rightarrow> bool" where
  "list_printable vs \<longleftrightarrow> 2 * int (length vs) - 1 \<le> maxArraySize \<and> list_all short vs"

fun cond_printable :: "condition \<Rightarrow> bool" where
  "cond_printable (NotCondition (Some c)) = cond_printable c"
| "cond_printable (NotCondition None) = False"
| "cond_printable (HeaderCondition h) =
     (list_printable (hc_Headers h) \<and> list_printable (hc_Values h) \<and> cond_ok (HeaderCondition h))"
| "cond_printable (ExistsCondition hs) = list_printable hs"
| "cond_printable c = cond_ok c"

fun action_printable :: "action \<Rightarrow> bool" where
  "action_printable (VacationAction a) = (action_ok (VacationAction a) \<and> list_printable (va_Addresses a) \<and> va_Handle a = [])"
| "action_printable a = action_ok a"

definition rule_printable :: "rule \<Rightarrow> bool" where
  "rule_printable r \<longleftrightarrow> rule_ok r \<and> list_all cond_printable (ru_Conditions r) \<and> list_all action_printable (ru_Actions r)"

lemma current_Cons [simp]: "current (t # ts) = t" and advance_Cons [simp]: "advance (t # ts) = ts"
  by (simp_all add: current_def advance_def)

lemma array_loop_print:
  "list_all short vs \<Longrightarrow> n + 2 * int (length vs) - 1 \<le> maxArraySize \<Longrightarrow> 0 \<le> n \<Longrightarrow> n \<le> maxArraySize \<Longrightarrow>
   array_loop chk n acc (comma_sep (map (\<lambda>v. [Token tokenString v]) vs) @ Token tokenRBracket '']'' # rest) =
     Inr (rev acc @ vs, Token tokenRBracket '']'' # rest)"
proof (induction vs arbitrary: n acc rule: induct_list012)
  case (3 v w vs)
  have IH: "array_loop chk (2 + n) (v # acc) (comma_sep (map (\<lambda>v. [Token tokenString v]) (w # vs)) @
      Token tokenRBracket '']'' # rest) = Inr (rev (v # acc) @ w # vs, Token tokenRBracket '']'' # rest)"
    using 3(3-5) by (intro 3(2)) auto
  then show ?case using 3(3-5) by (simp add: short_def)
qed (auto simp: short_def)

lemma parse_strings_print:
  assumes "list_printable vs"
  shows "parse_strings chk (strings_tokens vs @ rest) = Inr (vs, rest)"
    "parse_array chk (strings_tokens vs @ rest) = Inr (vs, rest)" "cur (strings_tokens vs @ rest) = tokenLBracket"
proof -
  have "array_loop chk 0 [] (comma_sep (map (\<lambda>v. [Token tokenString v]) vs) @ Token tokenRBracket '']'' # rest) =
      Inr (vs, Token tokenRBracket '']'' # rest)"
    using array_loop_print [of vs 0 chk "[]" rest] assms by (simp add: list_printable_def sieve_limits)
  then show "parse_array chk (strings_tokens vs @ rest) = Inr (vs, rest)"
    by (simp add: parse_array_def strings_tokens_def)
  then show "parse_strings chk (strings_tokens vs @ rest) = Inr (vs, rest)"
    by (simp add: parse_strings_def strings_tokens_def)
  show "cur (strings_tokens vs @ rest) = tokenLBracket" by (simp add: strings_tokens_def)
qed

lemma word_tokens [simp]:
  "word_token ''is'' = Token tokenIs ''is''" "word_token ''contains'' = Token tokenContains ''contains''"
  "word_token ''matches'' = Token tokenMatches ''matches''" "word_token ''over'' = Token tokenOver ''over''"
  "word_token ''under'' = Token tokenUnder ''under''" "word_token ''comparator'' = Token tokenString ''comparator''"
  "word_token ''localpart'' = Token tokenString ''localpart''" "word_token ''domain'' = Token tokenString ''domain''"
  "word_token ''all'' = Token tokenString ''all''" "word_token ''days'' = Token tokenString ''days''"
  "word_token ''subject'' = Token tokenString ''subject''" "word_token ''from'' = Token tokenString ''from''"
  "word_token ''addresses'' = Token tokenString ''addresses''"
  by code_simp+

lemma header_mods_match:
  "m \<in> {''is'', ''contains'', ''matches''} \<Longrightarrow> header_mods (Suc k) a b d (mod_tokens m @ rest) = header_mods k m b d rest"
  by (auto simp: header_mods.simps [of "Suc k"] mod_tokens_def Let_def)

lemma header_mods_part:
  "p \<in> {''localpart'', ''domain'', ''all''} \<Longrightarrow> header_mods (Suc k) a b d (mod_tokens p @ rest) = header_mods k a b p rest"
  by (auto simp: header_mods.simps [of "Suc k"] mod_tokens_def Let_def)

lemma header_mods_comparator:
  "header_mods (Suc k) a b d (mod_tokens ''comparator'' @ Token tokenString c # rest) = header_mods k a c d rest"
  by (simp add: header_mods.simps [of "Suc k"] mod_tokens_def Let_def)

lemma header_mods_print:
  assumes "m \<in> {''is'', ''contains'', ''matches''}" "p \<in> {[], ''localpart'', ''domain'', ''all''}" "cur rest \<noteq> tokenColon"
  shows "header_mods 10 [] [] [] (mod_tokens m @
     (if c = [] then [] else mod_tokens ''comparator'' @ [Token tokenString c]) @
     (if p = [] then [] else mod_tokens p) @ rest) = Inr ((m, c, p), rest)"
proof -
  have stop: "header_mods k a b d rest = Inr ((a, b, d), rest)" for k a b d
    using assms(3) by (subst header_mods.simps) simp
  have part: "header_mods (Suc k) m b [] ((if p = [] then [] else mod_tokens p) @ rest) = Inr ((m, b, p), rest)" for k b
    using assms(2) by (cases "p = []") (auto simp: header_mods_part stop)
  have comp: "header_mods (Suc (Suc k)) m [] [] ((if c = [] then [] else mod_tokens ''comparator'' @ [Token tokenString c]) @
      (if p = [] then [] else mod_tokens p) @ rest) = Inr ((m, c, p), rest)" for k
    using part by (cases "c = []") (simp_all add: header_mods_comparator)
  have ten: "10 = Suc (Suc (Suc 7))" by simp
  show ?thesis unfolding ten header_mods_match [OF assms(1)] by (rule comp)
qed

lemma parseSize_print: "0 \<le> n \<Longrightarrow> n \<le> maxSizeValue \<Longrightarrow> parseSize (show_nat (nat n)) = Inr n"
proof -
  assume n: "0 \<le> n" "n \<le> maxSizeValue"
  let ?s = "show_nat (nat n)"
  have "TrimSpace ?s = ?s"
    using digit_not_space [OF show_nat_last [of "nat n"]] digit_not_space [OF show_nat_hd_digit [of "nat n"]]
    by (intro TrimSpace_id) simp_all
  moreover have "last ?s \<notin> set ''KkMmGg''" using show_nat_last [of "nat n"] by (auto simp: is_digit_def)
  moreover have "n < 2 ^ 63" using n(2) by (simp add: sieve_limits)
  ultimately show ?thesis using n ParseInt64_show [of "nat n"] wrap64_id [of n]
    by (auto simp: parseSize_def Let_def)
qed

lemma parseSingleCondition_print:
  "cond_printable c \<Longrightarrow> depth + not_depth c + 1 \<le> maxConditionDepth \<Longrightarrow>
   parseSingleCondition depth (cond_tokens c @ rest) = Inr (Some c, rest)"
proof (induction c arbitrary: depth rule: cond_tokens.induct)
  case (3 c)
  have nn: "0 \<le> not_depth c" by (induction c rule: not_depth.induct) auto
  with 3 show ?case by simp
next
  case (4 h)
  have "cur (strings_tokens (hc_Headers h) @ strings_tokens (hc_Values h) @ rest) \<noteq> tokenColon"
    by (simp add: strings_tokens_def)
  with 4 show ?case
    by (auto simp: lift_cond_Inr parseHeaderCondition_def parse_strings_print
        header_mods_print [of "hc_MatchType h" "hc_AddressPart h"])
next
  case (5 n over)
  then show ?case by (simp add: lift_cond_Inr parseSizeCondition_def mod_tokens_def parseSize_print)
next
  case (6 hs)
  then show ?case by (simp add: lift_cond_Inr parseExistsCondition_def parse_strings_print)
qed auto

lemma cond_tokens_head:
  "cond_printable c \<Longrightarrow> cur (cond_tokens c @ rest) \<notin> {tokenRParen, tokenEOF, tokenComma}"
  by (cases c rule: cond_tokens.cases) auto

lemma cond_loop_print:
  "list_all (\<lambda>c. cond_printable c \<and> depth + not_depth c + 1 \<le> maxConditionDepth) cs \<Longrightarrow>
   n + int (length cs) \<le> maxArraySize \<Longrightarrow>
   cond_loop depth n acc (comma_sep (map cond_tokens cs) @ Token tokenRParen '')'' # rest) =
     Inr (acc @ cs, Token tokenRParen '')'' # rest)"
proof (induction cs arbitrary: n acc rule: induct_list012)
  case 1
  show ?case by (subst cond_loop.simps) simp
next
  case (2 c)
  have "cur (cond_tokens c @ Token tokenRParen '')'' # rest) \<notin> {tokenRParen, tokenEOF, tokenComma}"
    using 2 by (intro cond_tokens_head) simp
  then show ?case using 2
    by (subst cond_loop.simps, simp add: parseSingleCondition_print, subst cond_loop.simps) (simp add: opt_snoc_def)
next
  case (3 c d cs)
  let ?r = "comma_sep (map cond_tokens (d # cs)) @ Token tokenRParen '')'' # rest"
  have h: "cur (cond_tokens c @ Token tokenComma '','' # ?r) \<notin> {tokenRParen, tokenEOF, tokenComma}"
    using 3(3) by (intro cond_tokens_head) simp
  have p: "parseSingleCondition depth (cond_tokens c @ Token tokenComma '','' # ?r) = Inr (Some c, Token tokenComma '','' # ?r)"
    using 3(3) by (intro parseSingleCondition_print) simp_all
  have IH: "cond_loop depth (n + 1) (acc @ [c]) ?r = Inr ((acc @ [c]) @ d # cs, Token tokenRParen '')'' # rest)"
    using 3(3,4) by (intro 3(2)) simp_all
  have "cond_loop depth n acc (cond_tokens c @ Token tokenComma '','' # ?r) = cond_loop depth (n + 1) (acc @ [c]) ?r"
    using h p 3(4) by (subst cond_loop.simps) (simp add: opt_snoc_def)
  with IH show ?case by simp
qed

lemma vacation_steps:
  assumes "0 \<le> d" "d \<le> maxVacationDays" "short s" "short f" "list_printable vs" "cur rest \<noteq> tokenColon"
  shows "vacation_params (Suc k) a (mod_tokens ''days'' @ Token tokenNumber (show_nat (nat d)) # r) =
      vacation_params k (a\<lparr>va_Days := d\<rparr>) r"
    "vacation_params (Suc k) a (mod_tokens ''subject'' @ Token tokenString s # r) = vacation_params k (a\<lparr>va_Subject := s\<rparr>) r"
    "vacation_params (Suc k) a (mod_tokens ''from'' @ Token tokenString f # r) = vacation_params k (a\<lparr>va_From := f\<rparr>) r"
    "vacation_params (Suc k) a (mod_tokens ''addresses'' @ strings_tokens vs @ r) =
      vacation_params k (a\<lparr>va_Addresses := va_Addresses a @ vs\<rparr>) r"
    "vacation_params k a rest = Inr (a, rest)"
proof -
  have "ParseInt64 (show_nat (nat d)) = Some d" using assms(1,2) ParseInt64_show [of "nat d"] by (simp add: sieve_limits)
  then show "vacation_params (Suc k) a (mod_tokens ''days'' @ Token tokenNumber (show_nat (nat d)) # r) =
      vacation_params k (a\<lparr>va_Days := d\<rparr>) r"
    using assms(1,2) by (simp add: vacation_params.simps [of "Suc k"] mod_tokens_def Let_def)
  show "vacation_params (Suc k) a (mod_tokens ''subject'' @ Token tokenString s # r) = vacation_params k (a\<lparr>va_Subject := s\<rparr>) r"
    using assms(3) by (simp add: vacation_params.simps [of "Suc k"] mod_tokens_def Let_def short_def)
  show "vacation_params (Suc k) a (mod_tokens ''from'' @ Token tokenString f # r) = vacation_params k (a\<lparr>va_From := f\<rparr>) r"
    using assms(4) by (simp add: vacation_params.simps [of "Suc k"] mod_tokens_def Let_def short_def)
  show "vacation_params (Suc k) a (mod_tokens ''addresses'' @ strings_tokens vs @ r) =
      vacation_params k (a\<lparr>va_Addresses := va_Addresses a @ vs\<rparr>) r"
    using parse_strings_print [OF assms(5)] by (simp add: vacation_params.simps [of "Suc k"] mod_tokens_def Let_def)
  show "vacation_params k a rest = Inr (a, rest)"
    using assms(6) by (subst vacation_params.simps) simp
qed

lemma parseVacation_print:
  assumes "action_printable (VacationAction a)"
  shows "parseVacationAction (action_tokens (VacationAction a) @ rest) = Inr (VacationAction a, rest)"
proof -
  let ?a0 = "\<lparr>va_Days = 7, va_Subject = [], va_From = [], va_Body = [], va_Addresses = [], va_Handle = []\<rparr>"
  have ok: "0 \<le> va_Days a" "va_Days a \<le> maxVacationDays" "short (va_Subject a)" "short (va_From a)"
    "list_printable (va_Addresses a)" "short (va_Body a)" "va_Handle a = []" using assms by auto
  let ?r = "Token tokenString (va_Body a) # semi # rest"
  have "cur ?r \<noteq> tokenColon" by simp
  note vs = vacation_steps [OF ok(1-5) this]
  have n: "20 = Suc (Suc (Suc (Suc 16)))" by simp
  have "vacation_params 20 ?a0 (advance (action_tokens (VacationAction a) @ rest)) = Inr (a\<lparr>va_Body := []\<rparr>, ?r)"
  proof -
    have "advance (action_tokens (VacationAction a) @ rest) =
        mod_tokens ''days'' @ Token tokenNumber (show_nat (nat (va_Days a))) # mod_tokens ''subject'' @
        Token tokenString (va_Subject a) # mod_tokens ''from'' @ Token tokenString (va_From a) #
        mod_tokens ''addresses'' @ strings_tokens (va_Addresses a) @ ?r" by simp
    then show ?thesis unfolding n by (simp only: vs) (simp add: ok(7))
  qed
  then show ?thesis using ok(6) by (simp add: parseVacationAction_def short_def skip_semi_def semi_def)
qed

lemma parseAction_print: "action_printable a \<Longrightarrow> parseAction (action_tokens a @ rest) = Inr (Some a, rest)"
proof (cases a)
  case (VacationAction v)
  moreover assume "action_printable a"
  ultimately have "parseVacationAction (action_tokens a @ rest) = Inr (a, rest)" by (metis parseVacation_print)
  moreover have "cur (action_tokens a @ rest) = tokenVacation" by (simp add: VacationAction)
  ultimately show ?thesis by (simp add: parseAction_def Let_def)
qed (auto simp: parseAction_def Let_def string_arg_def skip_semi_def semi_def short_def)

lemma action_tokens_head: "cur (action_tokens a @ rest) \<notin> {tokenRBrace, tokenEOF}"
  by (cases a) auto

lemma action_loop_print:
  "list_all action_printable as \<Longrightarrow> n + int (length as) \<le> maxArraySize \<Longrightarrow>
   action_loop n acc (concat (map action_tokens as) @ Token tokenRBrace ''}'' # rest) =
     Inr (acc @ as, Token tokenRBrace ''}'' # rest)"
proof (induction as arbitrary: n acc)
  case Nil
  show ?case by (subst action_loop.simps) simp
next
  case (Cons a as)
  let ?r = "concat (map action_tokens as) @ Token tokenRBrace ''}'' # rest"
  have "action_loop n acc (action_tokens a @ ?r) = action_loop (n + 1) (acc @ [a]) ?r"
    using Cons.prems action_tokens_head [of a ?r]
    by (subst action_loop.simps) (simp add: parseAction_print opt_snoc_def)
  moreover have "action_loop (n + 1) (acc @ [a]) ?r = Inr ((acc @ [a]) @ as, Token tokenRBrace ''}'' # rest)"
    using Cons.prems by (intro Cons.IH) simp_all
  ultimately show ?case by simp
qed

lemma parseRule_print: "rule_printable r \<Longrightarrow> parseRule 0 (rule_tokens r @ rest) = Inr (r, rest)"
proof -
  assume p: "rule_printable r"
  let ?acts = "concat (map action_tokens (ru_Actions r)) @ Token tokenRBrace ''}'' # rest"
  have d: "list_all (\<lambda>c. cond_printable c \<and> 2 + not_depth c + 1 \<le> maxConditionDepth) (ru_Conditions r)"
    using p by (auto simp: rule_printable_def rule_ok_def list_all_iff sieve_limits)
  have c: "cond_loop 2 0 [] (comma_sep (map cond_tokens (ru_Conditions r)) @ Token tokenRParen '')'' # Token tokenLBrace ''{'' # ?acts) =
      Inr (ru_Conditions r, Token tokenRParen '')'' # Token tokenLBrace ''{'' # ?acts)"
    using cond_loop_print [OF d, of 0 "[]"] p by (simp add: rule_printable_def rule_ok_def)
  have a: "action_loop 0 [] ?acts = Inr (ru_Actions r, Token tokenRBrace ''}'' # rest)"
    using action_loop_print [of "ru_Actions r" 0 "[]"] p by (simp add: rule_printable_def rule_ok_def)
  have "\<not> ru_Stop r" using p by (simp add: rule_printable_def rule_ok_def)
  with c a show ?thesis
    by (auto simp: parseRule_def rule_tokens_def Let_def parseCondition_def parse_tests_def sieve_limits)
qed

lemma parse_rules_print:
  "list_all rule_printable rs \<Longrightarrow> 0 \<le> n \<Longrightarrow> n + int (length rs) + 1 \<le> maxTokens \<Longrightarrow>
   parse_loop n ps (concat (map rule_tokens rs) @ [Token tokenEOF []]) = Inr (ps\<lparr>ps_Rules := ps_Rules ps @ rs\<rparr>)"
proof (induction rs arbitrary: n ps)
  case Nil
  then show ?case by (subst parse_loop.simps) simp
next
  case (Cons r rs)
  let ?r = "concat (map rule_tokens rs) @ [Token tokenEOF []]"
  have "cur (rule_tokens r @ ?r) = tokenIf" "rule_tokens r @ ?r \<noteq> []" by (simp_all add: rule_tokens_def)
  with Cons.prems have "parse_loop n ps (rule_tokens r @ ?r) = parse_loop (n + 1) (ps\<lparr>ps_Rules := ps_Rules ps @ [r]\<rparr>) ?r"
    by (subst parse_loop.simps) (simp add: parseRule_print)
  also have "\<dots> = Inr (ps\<lparr>ps_Rules := (ps_Rules ps @ [r]) @ rs\<rparr>)"
    using Cons.prems by (subst Cons.IH) simp_all
  finally show ?case by simp
qed

text \<open>C32. Round trip: the parser reads the token list of every script within its limits back as that very
  script (with the default \<open>Stop\<close>, and lists of at most 500 strings: the array limit of 1000 counts the
  separating commas too).\<close>

theorem parse_round_trip:
  assumes "list_printable (ps_Require ps)" and "list_all rule_printable (ps_Rules ps)"
    and "int (length (ps_Rules ps)) + 2 \<le> maxTokens"
  shows "parse (script_tokens ps) = Inr ps"
proof -
  let ?rs = "concat (map rule_tokens (ps_Rules ps)) @ [Token tokenEOF []]"
  have "parseRequire (script_tokens ps) = Inr (ps_Require ps, ?rs)"
    using assms(1) by (simp add: parseRequire_def script_tokens_def parse_strings_print skip_semi_def semi_def)
  then have "parse (script_tokens ps) = parse_loop 1 \<lparr>ps_Require = ps_Require ps, ps_Rules = []\<rparr> ?rs"
    by (subst parse_def, subst parse_loop.simps) (simp add: script_tokens_def sieve_limits)
  also have "\<dots> = Inr ps" using parse_rules_print [OF assms(2), of 1] assms(3) by simp
  finally show ?thesis .
qed

section \<open>Witnesses\<close>

definition wscript :: string where
  "wscript = ''if not header :contains \"subject\" \"spam\" { fileinto \"Junk\"; stop; } else { discard; }''"

definition wparsed :: parsed_script where
  "wparsed = \<lparr>ps_Require = [], ps_Rules = [\<lparr>ru_Conditions = [NotCondition (Some (HeaderCondition
     \<lparr>hc_Headers = [''subject''], hc_Values = [''spam''], hc_MatchType = ''contains'', hc_Comparator = [],
      hc_IsAddress = False, hc_AddressPart = []\<rparr>))],
     ru_Actions = [FileIntoAction ''Junk'', StopAction], ru_AllOf = True, ru_Stop = False\<rparr>]\<rparr>"

theorem Parse_wellformed_witness: "Parse wscript = Inr wparsed \<and> list_all rule_ok (ps_Rules wparsed)"
proof
  show "Parse wscript = Inr wparsed" by code_simp
  from Parse_wellformed [OF this] show "list_all rule_ok (ps_Rules wparsed)" by blast
qed

theorem parseSize_exact_witness: "parseSize (show_nat 100 @ ''K'') = Inr 102400"
proof -
  have "size_unit ''K'' = Some 1024" by code_simp
  from parseSize_exact [OF this, of 100 102400] show ?thesis by (simp add: sieve_limits)
qed

theorem parse_round_trip_witness: "parse (script_tokens wparsed) = Inr wparsed"
proof (rule parse_round_trip)
  show "list_printable (ps_Require wparsed)" "list_all rule_printable (ps_Rules wparsed)"
    "int (length (ps_Rules wparsed)) + 2 \<le> maxTokens" by code_simp+
qed

end
