(* ===== verification/Sieve_Exec.thy ===== *)
theory Sieve_Exec
  imports Sieve_Parser Go_Regexp
begin

text \<open>
  \<^verbatim>\<open>internal/sieve\<close>: evaluation of conditions (\<^verbatim>\<open>conditions.go\<close>), actions and the vacation store
  (\<^verbatim>\<open>actions.go\<close>), the executor (\<^verbatim>\<open>sieve.go\<close>) and the script store (\<^verbatim>\<open>store.go\<close>). The two SQLite tables are
  lists of rows; each SQL statement is the operation on the rows that it names, and its failure (then
  without effect) is read from a script of faults or is an argument. The headers of a message are an
  association list whose order stands for the iteration order of the Go map.
\<close>

section \<open>Messages and results\<close>

record sv_message =
  sm_From :: string
  sm_To :: "string list"
  sm_Subject :: string
  sm_Headers :: "(string \<times> string list) list" \<comment> \<open>the nil map is the empty one\<close>
  sm_Size :: int

record sv_result =
  sr_Keep :: bool
  sr_Discarded :: bool
  sr_Rejected :: bool
  sr_RejectMsg :: string
  sr_Filed :: bool
  sr_FileInto :: string
  sr_Redirected :: bool
  sr_RedirectTo :: "string list"
  sr_Vacation :: bool
  sr_VacationTo :: string
  sr_VacationSubject :: string
  sr_VacationBody :: string

definition keep_result :: sv_result where
  "keep_result = \<lparr>sr_Keep = True, sr_Discarded = False, sr_Rejected = False, sr_RejectMsg = [], sr_Filed = False,
     sr_FileInto = [], sr_Redirected = False, sr_RedirectTo = [], sr_Vacation = False, sr_VacationTo = [],
     sr_VacationSubject = [], sr_VacationBody = []\<rparr>"

section \<open>Conditions\<close>

definition extractAddressPart :: "string \<Rightarrow> string \<Rightarrow> string" where
  "extractAddressPart addr0 part =
     (let addr1 = (case Index addr0 ''<'' of
                     None \<Rightarrow> addr0
                   | Some idx \<Rightarrow>
                       (case Index addr0 ''>'' of
                          None \<Rightarrow> addr0
                        | Some e \<Rightarrow> if e > idx then take (e - idx - 1) (drop (idx + 1) addr0) else addr0));
          addr = TrimSpace addr1
      in case LastIndex addr ''@'' of
           None \<Rightarrow> addr
         | Some at \<Rightarrow>
             (if part = ''localpart'' then take at addr
              else if part = ''domain'' then drop (at + 1) addr
              else addr))"

text \<open>The escapes of \<open>regexp.QuoteMeta\<close>.\<close>

definition meta_chars :: string where
  "meta_chars = CHR 0x5C # ''.+*?()|[]{}^$''"

definition quote_char :: "char \<Rightarrow> string" where
  "quote_char c = (if c \<in> set meta_chars then [CHR 0x5C, c] else [c])"

definition QuoteMeta :: "string \<Rightarrow> string" where
  "QuoteMeta s = concat (map quote_char s)"

definition globToRegex :: "string \<Rightarrow> string" where
  "globToRegex pattern =
     ''^'' @ ReplaceAll (ReplaceAll (QuoteMeta pattern) [CHR 0x5C, CHR ''*''] ''.*'') [CHR 0x5C, CHR ''?''] ''.'' @ ''$''"

text \<open>The compiler of package regexp on the syntax that \<open>globToRegex\<close> produces: an anchored sequence of
  literals, escaped literals, \<open>.\<close> and \<open>.*\<close>; \<open>None\<close> for anything else. A dot does not match a newline.\<close>

definition dot :: rx where
  "dot = Class (\<lambda>c. c \<noteq> CHR 0x0A)"

fun compile_body :: "string \<Rightarrow> rx option" where
  "compile_body [] = None"
| "compile_body [c] = (if c = CHR ''$'' then Some Eps else None)"
| "compile_body (c # d # s) =
     (if c = CHR 0x5C then map_option (Seq (Class (\<lambda>x. x = d))) (compile_body s)
      else if c = CHR ''.'' \<and> d = CHR ''*'' then map_option (Seq (Star dot)) (compile_body s)
      else if c = CHR ''.'' then map_option (Seq dot) (compile_body (d # s))
      else if c \<in> set meta_chars then None
      else map_option (Seq (Class (\<lambda>x. x = c))) (compile_body (d # s)))"

definition compile :: "string \<Rightarrow> rx option" where
  "compile re = (case re of [] \<Rightarrow> None | c # s \<Rightarrow> if c = CHR ''^'' then compile_body s else None)"

definition match :: "header_condition \<Rightarrow> string \<Rightarrow> string \<Rightarrow> bool" where
  "match c value0 pattern0 =
     (let v = ToLower value0; pattern = ToLower pattern0
      in if hc_MatchType c = ''is'' then v = pattern
         else if hc_MatchType c = ''contains'' then Contains v pattern
         else if hc_MatchType c = ''matches'' then
           (case compile (globToRegex pattern) of
              None \<Rightarrow> False
            | Some re \<Rightarrow> MatchString re v)
         else v = pattern)"

definition lookup_header :: "(string \<times> string list) list \<Rightarrow> string \<Rightarrow> string list option" where
  "lookup_header hs name =
     (case map_of hs name of
        Some vs \<Rightarrow> Some vs
      | None \<Rightarrow> map_option snd (find (\<lambda>kv. EqualFold (fst kv) name) hs))"

definition getHeaderValues :: "header_condition \<Rightarrow> sv_message \<Rightarrow> string \<Rightarrow> string list" where
  "getHeaderValues c msg headerName =
     (let normalizedName = ToLower headerName;
          parts = (\<lambda>vs. if hc_IsAddress c then map (\<lambda>v. extractAddressPart v (hc_AddressPart c)) vs else vs)
      in if normalizedName = ''from'' then parts [sm_From msg]
         else if normalizedName = ''to'' then parts (sm_To msg)
         else if normalizedName = ''subject'' then [sm_Subject msg]
         else (case lookup_header (sm_Headers msg) headerName of
                 None \<Rightarrow> []
               | Some vs \<Rightarrow> parts vs))"

definition evaluate_header :: "header_condition \<Rightarrow> sv_message \<Rightarrow> bool" where
  "evaluate_header c msg =
     list_ex (\<lambda>h. list_ex (\<lambda>v. list_ex (match c v) (hc_Values c)) (getHeaderValues c msg h)) (hc_Headers c)"

definition header_exists :: "sv_message \<Rightarrow> string \<Rightarrow> bool" where
  "header_exists msg headerName =
     (let n = ToLower headerName
      in if n = ''from'' then sm_From msg \<noteq> []
         else if n = ''to'' then sm_To msg \<noteq> []
         else if n = ''subject'' then sm_Subject msg \<noteq> []
         else lookup_header (sm_Headers msg) headerName \<noteq> None)"

definition shorthand :: "string \<Rightarrow> string list \<Rightarrow> string \<Rightarrow> bool \<Rightarrow> header_condition" where
  "shorthand h vals mt addr = \<lparr>hc_Headers = [h], hc_Values = vals, hc_MatchType = mt, hc_Comparator = [],
     hc_IsAddress = addr, hc_AddressPart = []\<rparr>"

fun Evaluate :: "condition \<Rightarrow> sv_message \<Rightarrow> bool" where
  "Evaluate TrueCondition msg = True"
| "Evaluate FalseCondition msg = False"
| "Evaluate (NotCondition None) msg = True"
| "Evaluate (NotCondition (Some c)) msg = (\<not> Evaluate c msg)"
| "Evaluate (HeaderCondition h) msg = evaluate_header h msg"
| "Evaluate (SizeCondition n over) msg = (if over then sm_Size msg > n else sm_Size msg < n)"
| "Evaluate (ExistsCondition hs) msg = list_all (header_exists msg) hs"
| "Evaluate (FromCondition vs mt) msg = evaluate_header (shorthand ''from'' vs mt True) msg"
| "Evaluate (ToCondition vs mt) msg = evaluate_header (shorthand ''to'' vs mt True) msg"
| "Evaluate (SubjectCondition vs mt) msg = evaluate_header (shorthand ''subject'' vs mt False) msg"

fun conditions_loop :: "condition list \<Rightarrow> bool \<Rightarrow> sv_message \<Rightarrow> bool" where
  "conditions_loop [] allOf msg = allOf"
| "conditions_loop (c # cs) allOf msg =
     (if allOf \<and> \<not> Evaluate c msg then False
      else if \<not> allOf \<and> Evaluate c msg then True
      else conditions_loop cs allOf msg)"

definition evaluateConditions :: "condition list \<Rightarrow> bool \<Rightarrow> sv_message \<Rightarrow> bool" where
  "evaluateConditions conditions allOf msg =
     (if conditions = [] then True else conditions_loop conditions allOf msg)"

section \<open>The vacation store and the actions\<close>

text \<open>The table \<open>vacation_responses\<close>, keyed by user and sender, and the outcomes of the coming statements
  (an empty script means that all succeed).\<close>

record vac_store =
  vs_dbNil :: bool
  vs_rows :: "((int \<times> string) \<times> time) list"
  vs_faults :: "string option list"

definition vs_fault :: "vac_store \<Rightarrow> vac_store \<times> string option" where
  "vs_fault s = (case vs_faults s of [] \<Rightarrow> (s, None) | f # fs \<Rightarrow> (s\<lparr>vs_faults := fs\<rparr>, f))"

definition vac_sender :: "string \<Rightarrow> string" where
  "vac_sender senderAddr = ToLower (extractAddressPart senderAddr ''all'')"

definition ShouldRespond ::
    "time \<Rightarrow> int \<Rightarrow> string \<Rightarrow> int \<Rightarrow> vac_store \<Rightarrow> vac_store \<times> (string, bool) result" where
  "ShouldRespond now userID senderAddr days s =
     (if vs_dbNil s then (s, Inl ''vacation store or database is nil'')
      else (case vs_fault s of
              (s1, Some e) \<Rightarrow> (s1, Inl e)
            | (s1, None) \<Rightarrow>
                (case map_of (vs_rows s1) (userID, vac_sender senderAddr) of
                   None \<Rightarrow> (s1, Inr True)
                 | Some respondedAt \<Rightarrow> (s1, Inr (now - respondedAt > days * 24 * Hour)))))"

definition RecordResponse :: "time \<Rightarrow> int \<Rightarrow> string \<Rightarrow> vac_store \<Rightarrow> vac_store \<times> string option" where
  "RecordResponse now userID senderAddr s =
     (if vs_dbNil s then (s, Some ''vacation store or database is nil'')
      else (case vs_fault s of
              (s1, Some e) \<Rightarrow> (s1, Some e)
            | (s1, None) \<Rightarrow>
                (let k = (userID, vac_sender senderAddr)
                 in (s1\<lparr>vs_rows := (k, truncate_second now) # [r \<leftarrow> vs_rows s1. fst r \<noteq> k]\<rparr>, None))))"

definition CleanupOldResponses :: "time \<Rightarrow> duration \<Rightarrow> vac_store \<Rightarrow> vac_store \<times> string option" where
  "CleanupOldResponses now maxAge s =
     (if vs_dbNil s then (s, Some ''vacation store or database is nil'')
      else (case vs_fault s of
              (s1, Some e) \<Rightarrow> (s1, Some e)
            | (s1, None) \<Rightarrow> (s1\<lparr>vs_rows := [r \<leftarrow> vs_rows s1. \<not> snd r < now - maxAge]\<rparr>, None)))"

definition skipPrefixes :: "string list" where
  "skipPrefixes = [''noreply@'', ''no-reply@'', ''donotreply@'', ''do-not-reply@'', ''mailer-daemon@'',
     ''postmaster@'', ''bounces@'', ''bounce@'']"

definition shouldSkipVacation :: "sv_message \<Rightarrow> bool" where
  "shouldSkipVacation msg =
     (let from = ToLower (sm_From msg); h = map_of (sm_Headers msg)
      in list_ex (Contains from) skipPrefixes \<or>
         (case h ''Precedence'' of None \<Rightarrow> False
          | Some ps \<Rightarrow> list_ex (\<lambda>p. ToLower p \<in> {''bulk'', ''list'', ''junk''}) ps) \<or>
         h ''List-Id'' \<noteq> None \<or> h ''List-Unsubscribe'' \<noteq> None \<or>
         (case h ''Auto-Submitted'' of None \<Rightarrow> False
          | Some as \<Rightarrow> list_ex (\<lambda>a. ToLower a \<noteq> ''no'') as) \<or>
         h ''X-Auto-Response-Suppress'' \<noteq> None)"

text \<open>\<open>VacationAction.Apply\<close>; the store is \<open>None\<close> for a nil pointer. The third component is the error.\<close>

definition vacation_result :: "vacation_action \<Rightarrow> sv_message \<Rightarrow> sv_result \<Rightarrow> sv_result" where
  "vacation_result a msg res =
     res\<lparr>sr_Vacation := True, sr_VacationTo := sm_From msg,
         sr_VacationSubject := (if va_Subject a = [] then ''Re: '' @ sm_Subject msg else va_Subject a),
         sr_VacationBody := va_Body a\<rparr>"

definition apply_vacation :: "vacation_action \<Rightarrow> time \<Rightarrow> sv_message \<Rightarrow> int \<Rightarrow> sv_result \<times> vac_store option
    \<Rightarrow> (sv_result \<times> vac_store option) \<times> string option" where
  "apply_vacation a now msg userID s =
     (case s of (res, vs) \<Rightarrow>
        (if shouldSkipVacation msg then ((res, vs), None)
         else (case vs of
                 None \<Rightarrow> ((vacation_result a msg res, None), None)
               | Some st \<Rightarrow>
                   (let days = (if va_Days a \<le> 0 then 7 else va_Days a)
                    in case ShouldRespond now userID (sm_From msg) days st of
                         (s1, Inl e) \<Rightarrow> ((res, Some s1), Some e)
                       | (s1, Inr False) \<Rightarrow> ((res, Some s1), None)
                       | (s1, Inr True) \<Rightarrow>
                           (case RecordResponse now userID (sm_From msg) s1 of
                              (s2, Some e) \<Rightarrow> ((res, Some s2), Some e)
                            | (s2, None) \<Rightarrow> ((vacation_result a msg res, Some s2), None))))))"

fun Apply :: "action \<Rightarrow> time \<Rightarrow> sv_message \<Rightarrow> int \<Rightarrow> sv_result \<times> vac_store option
    \<Rightarrow> (sv_result \<times> vac_store option) \<times> string option" where
  "Apply KeepAction now msg userID (res, vs) = ((res\<lparr>sr_Keep := True\<rparr>, vs), None)"
| "Apply (FileIntoAction folder) now msg userID (res, vs) =
     ((res\<lparr>sr_Filed := True, sr_FileInto := folder, sr_Keep := False\<rparr>, vs), None)"
| "Apply (RedirectAction addr) now msg userID (res, vs) =
     ((res\<lparr>sr_Redirected := True, sr_RedirectTo := sr_RedirectTo res @ [addr], sr_Keep := False\<rparr>, vs), None)"
| "Apply DiscardAction now msg userID (res, vs) = ((res\<lparr>sr_Discarded := True, sr_Keep := False\<rparr>, vs), None)"
| "Apply (RejectAction m) now msg userID (res, vs) =
     ((res\<lparr>sr_Rejected := True, sr_RejectMsg := m, sr_Keep := False\<rparr>, vs), None)"
| "Apply StopAction now msg userID (res, vs) = ((res, vs), None)"
| "Apply (VacationAction a) now msg userID (res, vs) = apply_vacation a now msg userID (res, vs)"

section \<open>The executor\<close>

text \<open>The actions of a rule: an error of one is ignored.\<close>

definition apply_actions :: "action list \<Rightarrow> time \<Rightarrow> sv_message \<Rightarrow> int \<Rightarrow> sv_result \<times> vac_store option
    \<Rightarrow> sv_result \<times> vac_store option" where
  "apply_actions as now msg userID s = fold (\<lambda>a s. fst (Apply a now msg userID s)) as s"

definition decided :: "sv_result \<Rightarrow> bool" where
  "decided res \<longleftrightarrow> sr_Discarded res \<or> sr_Rejected res \<or> sr_Filed res \<or> sr_Redirected res"

fun run_rules :: "rule list \<Rightarrow> time \<Rightarrow> sv_message \<Rightarrow> int \<Rightarrow> sv_result \<times> vac_store option
    \<Rightarrow> sv_result \<times> vac_store option" where
  "run_rules [] now msg userID s = s"
| "run_rules (r # rs) now msg userID s =
     (if evaluateConditions (ru_Conditions r) (ru_AllOf r) msg
      then (let s' = apply_actions (ru_Actions r) now msg userID s
            in if ru_Stop r \<or> decided (fst s') then s' else run_rules rs now msg userID s')
      else run_rules rs now msg userID s)"

definition executeScript ::
    "parsed_script \<Rightarrow> time \<Rightarrow> sv_message \<Rightarrow> int \<Rightarrow> vac_store option \<Rightarrow> sv_result \<times> vac_store option" where
  "executeScript ps now msg userID vs = run_rules (ps_Rules ps) now msg userID (keep_result, vs)"

section \<open>The script store\<close>

record script_row =
  sc_id :: int
  sc_user :: int
  sc_name :: string
  sc_content :: string
  sc_active :: bool

datatype store_error = ErrStoreNil | ErrSQL string | ErrUnique | ErrParse sieve_error

definition GetActiveScript :: "int \<Rightarrow> string option \<Rightarrow> script_row list \<Rightarrow> (store_error, script_row option) result" where
  "GetActiveScript userID fault rows =
     (case fault of
        Some e \<Rightarrow> Inl (ErrSQL e)
      | None \<Rightarrow> Inr (find (\<lambda>r. sc_user r = userID \<and> sc_active r) rows))"

definition GetScript :: "int \<Rightarrow> string \<Rightarrow> string option \<Rightarrow> script_row list \<Rightarrow> (store_error, script_row option) result" where
  "GetScript userID name fault rows =
     (case fault of
        Some e \<Rightarrow> Inl (ErrSQL e)
      | None \<Rightarrow> Inr (find (\<lambda>r. sc_user r = userID \<and> sc_name r = name) rows))"

text \<open>The order by name of \<open>ListScripts\<close> is that of the bytes.\<close>

fun name_le :: "string \<Rightarrow> string \<Rightarrow> bool" where
  "name_le [] t = True"
| "name_le (c # s) [] = False"
| "name_le (c # s) (d # t) =
     (let m = (of_char c :: nat); n = of_char d in m < n \<or> m = n \<and> name_le s t)"

fun insert_by_name :: "script_row \<Rightarrow> script_row list \<Rightarrow> script_row list" where
  "insert_by_name r [] = [r]"
| "insert_by_name r (x # xs) = (if name_le (sc_name r) (sc_name x) then r # x # xs else x # insert_by_name r xs)"

definition ListScripts :: "int \<Rightarrow> string option \<Rightarrow> script_row list \<Rightarrow> (store_error, script_row list) result" where
  "ListScripts userID fault rows =
     (case fault of
        Some e \<Rightarrow> Inl (ErrSQL e)
      | None \<Rightarrow> Inr (foldr insert_by_name [r \<leftarrow> rows. sc_user r = userID] []))"

definition CreateScript ::
    "int \<Rightarrow> int \<Rightarrow> string \<Rightarrow> string \<Rightarrow> string option \<Rightarrow> script_row list
     \<Rightarrow> script_row list \<times> (store_error, script_row) result" where
  "CreateScript newID userID name content fault rows =
     (case Parse content of
        Inl e \<Rightarrow> (rows, Inl (ErrParse e))
      | Inr _ \<Rightarrow>
          (case fault of
             Some e \<Rightarrow> (rows, Inl (ErrSQL e))
           | None \<Rightarrow>
               (if list_ex (\<lambda>r. sc_user r = userID \<and> sc_name r = name) rows then (rows, Inl ErrUnique)
                else (let r = \<lparr>sc_id = newID, sc_user = userID, sc_name = name, sc_content = content, sc_active = False\<rparr>
                      in (rows @ [r], Inr r)))))"

definition UpdateScript ::
    "int \<Rightarrow> string \<Rightarrow> string \<Rightarrow> string option \<Rightarrow> script_row list \<Rightarrow> script_row list \<times> store_error option" where
  "UpdateScript userID name content fault rows =
     (case Parse content of
        Inl e \<Rightarrow> (rows, Some (ErrParse e))
      | Inr _ \<Rightarrow>
          (case fault of
             Some e \<Rightarrow> (rows, Some (ErrSQL e))
           | None \<Rightarrow>
               (map (\<lambda>r. if sc_user r = userID \<and> sc_name r = name then r\<lparr>sc_content := content\<rparr> else r) rows, None)))"

definition DeleteScript :: "int \<Rightarrow> string \<Rightarrow> string option \<Rightarrow> script_row list \<Rightarrow> script_row list \<times> store_error option" where
  "DeleteScript userID name fault rows =
     (case fault of
        Some e \<Rightarrow> (rows, Some (ErrSQL e))
      | None \<Rightarrow> ([r \<leftarrow> rows. \<not> (sc_user r = userID \<and> sc_name r = name)], None))"

text \<open>\<open>SetActiveScript\<close>: a transaction; the four faults are those of begin, the two updates and commit.\<close>

definition SetActiveScript ::
    "int \<Rightarrow> string \<Rightarrow> string option \<times> string option \<times> string option \<times> string option \<Rightarrow> script_row list
     \<Rightarrow> script_row list \<times> store_error option" where
  "SetActiveScript userID name faults rows =
     (case faults of (fBegin, fOff, fOn, fCommit) \<Rightarrow>
        (case fBegin of Some e \<Rightarrow> (rows, Some (ErrSQL e)) | None \<Rightarrow>
        (case fOff of Some e \<Rightarrow> (rows, Some (ErrSQL e)) | None \<Rightarrow>
          (let rows1 = map (\<lambda>r. if sc_user r = userID then r\<lparr>sc_active := False\<rparr> else r) rows;
               commit = (\<lambda>rows2. case fCommit of Some e \<Rightarrow> (rows, Some (ErrSQL e)) | None \<Rightarrow> (rows2, None))
           in if name \<noteq> [] then
                (case fOn of
                   Some e \<Rightarrow> (rows, Some (ErrSQL e))
                 | None \<Rightarrow> commit (map (\<lambda>r. if sc_user r = userID \<and> sc_name r = name
                                            then r\<lparr>sc_active := True\<rparr> else r) rows1))
              else commit rows1))))"

definition RenameScript ::
    "int \<Rightarrow> string \<Rightarrow> string \<Rightarrow> string option \<Rightarrow> script_row list \<Rightarrow> script_row list \<times> store_error option" where
  "RenameScript userID oldName newName fault rows =
     (case fault of
        Some e \<Rightarrow> (rows, Some (ErrSQL e))
      | None \<Rightarrow>
          (if newName \<noteq> oldName \<and> list_ex (\<lambda>r. sc_user r = userID \<and> sc_name r = oldName) rows \<and>
              list_ex (\<lambda>r. sc_user r = userID \<and> sc_name r = newName) rows
           then (rows, Some ErrUnique)
           else (map (\<lambda>r. if sc_user r = userID \<and> sc_name r = oldName then r\<lparr>sc_name := newName\<rparr> else r) rows, None)))"

definition ScriptExists :: "int \<Rightarrow> string \<Rightarrow> string option \<Rightarrow> script_row list \<Rightarrow> (store_error, bool) result" where
  "ScriptExists userID name fault rows =
     (case fault of
        Some e \<Rightarrow> Inl (ErrSQL e)
      | None \<Rightarrow> Inr (length [r \<leftarrow> rows. sc_user r = userID \<and> sc_name r = name] > 0))"

definition CountScripts :: "int \<Rightarrow> string option \<Rightarrow> script_row list \<Rightarrow> (store_error, nat) result" where
  "CountScripts userID fault rows =
     (case fault of
        Some e \<Rightarrow> Inl (ErrSQL e)
      | None \<Rightarrow> Inr (length [r \<leftarrow> rows. sc_user r = userID]))"

definition ValidateScript :: "string \<Rightarrow> sieve_error option" where
  "ValidateScript content = (case Parse content of Inl e \<Rightarrow> Some e | Inr _ \<Rightarrow> None)"

text \<open>\<open>Executor.Execute\<close>: a script that does not parse falls back to keep.\<close>

definition Execute_sieve ::
    "time \<Rightarrow> int \<Rightarrow> sv_message \<Rightarrow> string option \<Rightarrow> script_row list \<Rightarrow> vac_store option
     \<Rightarrow> (store_error, sv_result \<times> vac_store option) result" where
  "Execute_sieve now userID msg fault rows vs =
     (case GetActiveScript userID fault rows of
        Inl e \<Rightarrow> Inl e
      | Inr None \<Rightarrow> Inr (keep_result, vs)
      | Inr (Some script) \<Rightarrow>
          (case Parse (sc_content script) of
             Inl _ \<Rightarrow> Inr (keep_result, vs)
           | Inr parsed \<Rightarrow> Inr (executeScript parsed now msg userID vs)))"

section \<open>Glob patterns\<close>

text \<open>The meaning of a pattern: \<open>*\<close> any text without a newline, \<open>?\<close> one character that is none, every other
  character itself.\<close>

fun glob :: "string \<Rightarrow> string \<Rightarrow> bool" where
  "glob [] v \<longleftrightarrow> v = []"
| "glob (c # p) v \<longleftrightarrow>
     (if c = CHR ''*'' then (\<exists>u w. v = u @ w \<and> CHR 0x0A \<notin> set u \<and> glob p w)
      else if c = CHR ''?'' then (\<exists>d w. v = d # w \<and> d \<noteq> CHR 0x0A \<and> glob p w)
      else (\<exists>w. v = c # w \<and> glob p w))"

definition quote_star :: "char \<Rightarrow> string" where
  "quote_star c = (if c = CHR ''*'' then ''.*'' else quote_char c)"

definition quote_glob :: "char \<Rightarrow> string" where
  "quote_glob c = (if c = CHR ''?'' then ''.'' else quote_star c)"

lemma quote_simps:
  "quote_char (CHR ''*'') = [CHR 0x5C, CHR ''*'']" "quote_star (CHR ''?'') = [CHR 0x5C, CHR ''?'']"
  by (simp_all add: quote_char_def quote_star_def meta_chars_def)

lemma quote_char_cases:
  obtains "quote_char c = [CHR 0x5C, c]" "c \<in> set meta_chars" | "quote_char c = [c]" "c \<notin> set meta_chars"
  by (auto simp: quote_char_def)

lemma quote_starts:
  "concat (map quote_char p) = [] \<or> hd (concat (map quote_char p)) \<noteq> CHR ''*''"
  "concat (map quote_star p) = [] \<or> hd (concat (map quote_star p)) \<noteq> CHR ''?''"
  "concat (map quote_glob p) = [] \<or> hd (concat (map quote_glob p)) \<noteq> CHR ''*''"
  by (cases p; auto simp: quote_glob_def quote_star_def quote_char_def meta_chars_def)+

lemma replace_two:
  assumes "s = [] \<or> hd s \<noteq> b" "a \<noteq> b"
  shows "replace_from (a # s) 0 [a, b] new = a # replace_from s 0 [a, b] new"
    "c \<noteq> a \<Longrightarrow> replace_from (c # s) 0 [a, b] new = c # replace_from s 0 [a, b] new"
    "replace_from (a # b # s) 0 [a, b] new = new @ replace_from s 0 [a, b] new"
  using assms by (cases s; auto)+

lemma replace_star:
  "replace_from (concat (map quote_char p)) 0 [CHR 0x5C, CHR ''*''] ''.*'' = concat (map quote_star p)"
proof (induction p)
  case (Cons c p)
  let ?s = "concat (map quote_char p)"
  note r = replace_two [where s = ?s and a = "CHR 0x5C" and b = "CHR ''*''" and new = "''.*''", OF quote_starts(1)]
  show ?case
  proof (cases c rule: quote_char_cases)
    case 1
    have "replace_from ([CHR 0x5C, c] @ ?s) 0 [CHR 0x5C, CHR ''*''] ''.*'' = quote_star c @ replace_from ?s 0 [CHR 0x5C, CHR ''*''] ''.*''"
      using r 1 by (cases "c = CHR 0x5C") (auto simp: quote_star_def)
    with 1 Cons show ?thesis by simp
  next
    case 2
    then have "c \<noteq> CHR 0x5C" "c \<noteq> CHR ''*''" by (auto simp: meta_chars_def)
    with 2 r Cons show ?thesis by (simp add: quote_star_def)
  qed
qed simp

lemma replace_question:
  "replace_from (concat (map quote_star p)) 0 [CHR 0x5C, CHR ''?''] ''.'' = concat (map quote_glob p)"
proof (induction p)
  case (Cons c p)
  let ?s = "concat (map quote_star p)"
  note r = replace_two [where s = ?s and a = "CHR 0x5C" and b = "CHR ''?''" and new = "''.''", OF quote_starts(2)]
  show ?case
  proof (cases "c = CHR ''*''")
    case True
    then have "quote_star c = ''.*''" "quote_glob c = ''.*''" by (simp_all add: quote_glob_def quote_star_def)
    with r Cons show ?thesis by simp
  next
    case False
    then have q: "quote_star c = quote_char c" by (simp add: quote_star_def)
    show ?thesis
    proof (cases c rule: quote_char_cases)
      case 1
      have "replace_from ([CHR 0x5C, c] @ ?s) 0 [CHR 0x5C, CHR ''?''] ''.'' = quote_glob c @ replace_from ?s 0 [CHR 0x5C, CHR ''?''] ''.''"
        using r 1 q by (cases "c = CHR 0x5C") (auto simp: quote_glob_def)
      with 1 q Cons show ?thesis by simp
    next
      case 2
      then have "c \<noteq> CHR 0x5C" "c \<noteq> CHR ''?''" by (auto simp: meta_chars_def)
      with 2 q r Cons show ?thesis by (simp add: quote_glob_def)
    qed
  qed
qed simp

lemma globToRegex_eq: "globToRegex p = ''^'' @ concat (map quote_glob p) @ ''$''"
  by (simp add: globToRegex_def ReplaceAll_def QuoteMeta_def replace_star replace_question)

definition glob_piece :: "char \<Rightarrow> rx" where
  "glob_piece c = (if c = CHR ''*'' then Star dot else if c = CHR ''?'' then dot else Class (\<lambda>x. x = c))"

lemma compile_piece:
  assumes "rest \<noteq> []" "hd rest \<noteq> CHR ''*''"
  shows "compile_body (quote_glob c @ rest) = map_option (Seq (glob_piece c)) (compile_body rest)"
proof -
  obtain d r where rest: "rest = d # r" using assms(1) by (cases rest) auto
  show ?thesis
    using assms(2) unfolding rest
    by (auto simp: quote_glob_def quote_star_def quote_char_def glob_piece_def meta_chars_def)
qed

lemma compile_glob: "compile (globToRegex p) = Some (foldr (\<lambda>c. Seq (glob_piece c)) p Eps)"
proof -
  have "compile_body (concat (map quote_glob p) @ ''$'') = Some (foldr (\<lambda>c. Seq (glob_piece c)) p Eps)"
  proof (induction p)
    case (Cons c p)
    have "concat (map quote_glob p) @ ''$'' \<noteq> []" "hd (concat (map quote_glob p) @ ''$'') \<noteq> CHR ''*''"
      using quote_starts(3) [of p] by (auto simp: hd_append)
    from compile_piece [OF this, of c] Cons show ?case by simp
  qed simp
  then show ?thesis by (simp add: compile_def globToRegex_eq)
qed

lemma glob_iff: "matches (foldr (\<lambda>c. Seq (glob_piece c)) p Eps) v \<longleftrightarrow> glob p v"
proof (induction p arbitrary: v)
  case (Cons c p)
  have star: "matches (Star dot) u \<longleftrightarrow> CHR 0x0A \<notin> set u" for u
    unfolding dot_def matches_StarClass by (auto simp: list_all_iff)
  define R where "R = foldr (\<lambda>c. Seq (glob_piece c)) p Eps"
  have R: "matches R w \<longleftrightarrow> glob p w" for w using Cons by (simp add: R_def)
  have fold: "foldr (\<lambda>c. Seq (glob_piece c)) (c # p) Eps = Seq (glob_piece c) R" by (simp add: R_def)
  consider "c = CHR ''*''" | "c = CHR ''?''" | "c \<noteq> CHR ''*''" "c \<noteq> CHR ''?''" by blast
  then show ?case
  proof cases
    case 1
    then show ?thesis unfolding fold by (simp add: glob_piece_def star R)
  next
    case 2
    then have "glob_piece c = dot" by (simp add: glob_piece_def)
    with 2 show ?thesis unfolding fold by (simp only: dot_def matches_ClassSeq R glob.simps) simp
  next
    case 3
    then have "glob_piece c = Class (\<lambda>x. x = c)" by (simp add: glob_piece_def)
    with 3 show ?thesis unfolding fold by (simp only: matches_ClassSeq R glob.simps) simp
  qed
qed simp

text \<open>A \<open>:matches\<close> test compares, without regard to ASCII case, exactly as the glob pattern says: the regular
  expression that \<open>globToRegex\<close> builds always compiles, quotes every other character and gives \<open>*\<close> and \<open>?\<close>
  their meaning.\<close>

theorem matches_is_glob:
  assumes "hc_MatchType c = ''matches''"
  shows "match c value pattern \<longleftrightarrow> glob (ToLower pattern) (ToLower value)"
  using assms by (simp add: match_def Let_def compile_glob MatchString_iff glob_iff)

section \<open>The outcome of a script\<close>

definition disposed :: "sv_result \<Rightarrow> bool" where
  "disposed res \<longleftrightarrow> sr_Keep res \<or> decided res"

lemma apply_vacation_result:
  "fst (fst (apply_vacation a now msg u (res, vs))) = res \<or>
   fst (fst (apply_vacation a now msg u (res, vs))) = vacation_result a msg res"
  by (auto simp: apply_vacation_def Let_def split: option.split sum.split prod.split bool.split)

lemma vacation_result_simps [simp]:
  "decided (vacation_result a msg res) = decided res" "sr_Keep (vacation_result a msg res) = sr_Keep res"
  by (simp_all add: vacation_result_def decided_def)

lemma Apply_disposed: "disposed (fst s) \<Longrightarrow> disposed (fst (fst (Apply a now msg u s)))"
proof (cases s)
  case (Pair res vs)
  moreover assume "disposed (fst s)"
  ultimately show ?thesis
  proof (cases a)
    case (VacationAction v)
    with Pair \<open>disposed (fst s)\<close> show ?thesis
      using apply_vacation_result [of v now msg u res vs] by (auto simp: disposed_def)
  qed (auto simp: disposed_def decided_def)
qed

lemma apply_actions_disposed: "disposed (fst s) \<Longrightarrow> disposed (fst (apply_actions as now msg u s))"
  unfolding apply_actions_def by (induction as arbitrary: s) (auto simp: Apply_disposed)

lemma run_rules_disposed: "disposed (fst s) \<Longrightarrow> disposed (fst (run_rules rs now msg u s))"
  by (induction rs arbitrary: s) (auto simp: Let_def apply_actions_disposed)

text \<open>No script can make a message vanish: whatever the script, the message and the failures of the
  vacation store, the result keeps the message, or discards, rejects, files or redirects it by an
  explicit action.\<close>

theorem message_never_vanishes:
  "sr_Keep (fst (executeScript ps now msg u vs)) \<or> sr_Discarded (fst (executeScript ps now msg u vs)) \<or>
   sr_Rejected (fst (executeScript ps now msg u vs)) \<or> sr_Filed (fst (executeScript ps now msg u vs)) \<or>
   sr_Redirected (fst (executeScript ps now msg u vs))"
  using run_rules_disposed [of "(keep_result, vs)" "ps_Rules ps" now msg u]
  by (simp add: executeScript_def disposed_def decided_def keep_result_def)

text \<open>The rules that match, in order.\<close>

definition matching :: "sv_message \<Rightarrow> rule list \<Rightarrow> rule list" where
  "matching msg rs = [r \<leftarrow> rs. evaluateConditions (ru_Conditions r) (ru_AllOf r) msg]"

lemma apply_actions_append: "apply_actions (as @ bs) now msg u s = apply_actions bs now msg u (apply_actions as now msg u s)"
  by (simp add: apply_actions_def)

lemma run_rules_prefix:
  assumes "list_all (\<lambda>r. \<not> ru_Stop r) rs"
  shows "\<exists>k \<le> length (matching msg rs).
     run_rules rs now msg u s = apply_actions (concat (map ru_Actions (take k (matching msg rs)))) now msg u s \<and>
     (k < length (matching msg rs) \<longrightarrow> decided (fst (run_rules rs now msg u s))) \<and>
     (\<forall>j. 0 < j \<and> j < k \<longrightarrow> \<not> decided (fst (apply_actions (concat (map ru_Actions (take j (matching msg rs)))) now msg u s)))"
  using assms
proof (induction rs arbitrary: s)
  case Nil
  then show ?case by (simp add: matching_def apply_actions_def)
next
  case (Cons r rs)
  show ?case
  proof (cases "evaluateConditions (ru_Conditions r) (ru_AllOf r) msg")
    case False
    then have "matching msg (r # rs) = matching msg rs" by (simp add: matching_def)
    with False Cons show ?thesis by simp
  next
    case True
    let ?s = "apply_actions (ru_Actions r) now msg u s"
    have m: "matching msg (r # rs) = r # matching msg rs" using True by (simp add: matching_def)
    show ?thesis
    proof (cases "decided (fst ?s)")
      case d: True
      have "run_rules (r # rs) now msg u s = ?s" using True d by (simp add: Let_def)
      then show ?thesis using d m by (intro exI [of _ 1]) simp
    next
      case d: False
      have "list_all (\<lambda>r. \<not> ru_Stop r) rs" using Cons.prems by simp
      from Cons.IH [OF this, of ?s] obtain k where k: "k \<le> length (matching msg rs)"
        "run_rules rs now msg u ?s = apply_actions (concat (map ru_Actions (take k (matching msg rs)))) now msg u ?s"
        "k < length (matching msg rs) \<longrightarrow> decided (fst (run_rules rs now msg u ?s))"
        "\<forall>j. 0 < j \<and> j < k \<longrightarrow> \<not> decided (fst (apply_actions (concat (map ru_Actions (take j (matching msg rs)))) now msg u ?s))"
        by blast
      have run: "run_rules (r # rs) now msg u s = run_rules rs now msg u ?s"
        using True d Cons.prems by (simp add: Let_def)
      have "\<not> decided (fst (apply_actions (concat (map ru_Actions (take j (matching msg (r # rs))))) now msg u s))"
        if "0 < j" "j < Suc k" for j
      proof (cases "j = 1")
        case True
        with d m show ?thesis by simp
      next
        case False
        with that obtain i where i: "j = Suc i" "0 < i" "i < k" by (cases j) auto
        with k(4) have "\<not> decided (fst (apply_actions (concat (map ru_Actions (take i (matching msg rs)))) now msg u ?s))" by blast
        with i m show ?thesis by (simp add: apply_actions_append)
      qed
      then show ?thesis using k run m by (intro exI [of _ "Suc k"]) (simp add: apply_actions_append)
    qed
  qed
qed

text \<open>C33. First-match semantics of the executor on scripts from the parser: it runs the actions of the matching
  rules in order, stops after the first rule that files, redirects, rejects or discards, and otherwise
  runs all of them.\<close>

theorem executor_first_match:
  assumes "Parse s = Inr ps"
  shows "\<exists>k \<le> length (matching msg (ps_Rules ps)).
     executeScript ps now msg u vs =
       apply_actions (concat (map ru_Actions (take k (matching msg (ps_Rules ps))))) now msg u (keep_result, vs) \<and>
     (k < length (matching msg (ps_Rules ps)) \<longrightarrow> decided (fst (executeScript ps now msg u vs))) \<and>
     (\<forall>j. 0 < j \<and> j < k \<longrightarrow>
        \<not> decided (fst (apply_actions (concat (map ru_Actions (take j (matching msg (ps_Rules ps))))) now msg u (keep_result, vs))))"
  using run_rules_prefix [OF Parse_no_stop [OF assms]] unfolding executeScript_def by blast

definition drop_stop :: "rule \<Rightarrow> rule" where
  "drop_stop r = r\<lparr>ru_Actions := [a \<leftarrow> ru_Actions r. a \<noteq> StopAction]\<rparr>"

lemma apply_actions_drop_stop:
  "apply_actions [a \<leftarrow> as. a \<noteq> StopAction] now msg u s = apply_actions as now msg u s"
proof (induction as arbitrary: s)
  case (Cons a as)
  show ?case
  proof (cases "a = StopAction")
    case True
    then have "fst (Apply a now msg u s) = s" by (cases s) simp
    with True Cons [of s] show ?thesis by (simp add: apply_actions_def)
  next
    case False
    with Cons show ?thesis by (simp add: apply_actions_def)
  qed
qed (simp add: apply_actions_def)

lemma run_rules_drop_stop: "run_rules (map drop_stop rs) now msg u s = run_rules rs now msg u s"
  by (induction rs arbitrary: s) (simp_all add: drop_stop_def apply_actions_drop_stop Let_def)

text \<open>The \<open>stop\<close> action has no effect: deleting every \<open>stop\<close> from a script changes no result. (The action's
  comment says the executor handles it through \<open>rule.Stop\<close>, but the parser never sets that flag.)\<close>

theorem stop_has_no_effect:
  "executeScript (ps\<lparr>ps_Rules := map drop_stop (ps_Rules ps)\<rparr>) now msg u vs = executeScript ps now msg u vs"
  by (simp add: executeScript_def run_rules_drop_stop)

section \<open>Vacation responses are rare\<close>

text \<open>The store together with the responses given so far; a step is one evaluation of a vacation action,
  for any user, message and time and with any database failures.\<close>

inductive vac_step :: "vac_store \<times> ((int \<times> string) \<times> time) set \<Rightarrow> vac_store \<times> ((int \<times> string) \<times> time) set \<Rightarrow> bool" where
  silent: "apply_vacation a now msg u (keep_result, Some st) = ((res, Some st'), e) \<Longrightarrow> \<not> sr_Vacation res \<Longrightarrow>
     vac_step (st, given) (st', given)"
| respond: "apply_vacation a now msg u (keep_result, Some st) = ((res, Some st'), e) \<Longrightarrow> sr_Vacation res \<Longrightarrow>
     vac_step (st, given) (st', insert ((u, vac_sender (sm_From msg)), now) given)"

definition vac_inv :: "vac_store \<times> ((int \<times> string) \<times> time) set \<Rightarrow> bool" where
  "vac_inv s \<longleftrightarrow> (\<forall>k t. (k, t) \<in> snd s \<longrightarrow> (\<exists>x. map_of (vs_rows (fst s)) k = Some x \<and> truncate_second t \<le> x)) \<and>
     (\<forall>k x. map_of (vs_rows (fst s)) k = Some x \<longrightarrow> truncate_second x = x)"

lemma truncate_idem: "truncate_second (truncate_second t) = truncate_second t"
  by (simp add: truncate_second_def go_time mod_diff_left_eq)

lemma truncate_mono: "s \<le> t \<Longrightarrow> truncate_second s \<le> truncate_second t"
proof -
  assume "s \<le> t"
  then have "s div Second \<le> t div Second" by (simp add: zdiv_mono1 go_time)
  moreover have "truncate_second x = x div Second * Second" for x
    by (simp add: truncate_second_def minus_mod_eq_div_mult)
  ultimately show ?thesis by (simp add: go_time)
qed

lemma vs_fault_rows: "vs_fault s = (s1, f) \<Longrightarrow> vs_rows s1 = vs_rows s"
  by (auto simp: vs_fault_def split: list.splits)

lemma map_of_upsert: "map_of ((k, v) # [r \<leftarrow> rows. fst r \<noteq> k]) = (map_of rows)(k \<mapsto> v)"
proof -
  have "map_of [r \<leftarrow> rows. fst r \<noteq> k] j = (if j \<noteq> k then map_of rows j else None)" for j
    by (induction rows) auto
  then show ?thesis by (auto simp: fun_eq_iff)
qed

lemma ShouldRespond_facts:
  "ShouldRespond now u addr d st = (s1, x) \<Longrightarrow> vs_rows s1 = vs_rows st \<and>
     (x = Inr True \<longrightarrow> (\<forall>r. map_of (vs_rows st) (u, vac_sender addr) = Some r \<longrightarrow> now - r > d * 24 * Hour))"
  by (auto simp: ShouldRespond_def dest!: vs_fault_rows split: if_splits option.splits prod.splits)

lemma RecordResponse_facts:
  "RecordResponse now u addr st = (s2, y) \<Longrightarrow>
     (case y of None \<Rightarrow> map_of (vs_rows s2) = (map_of (vs_rows st))((u, vac_sender addr) \<mapsto> truncate_second now)
      | Some e \<Rightarrow> vs_rows s2 = vs_rows st)"
proof -
  assume r: "RecordResponse now u addr st = (s2, y)"
  obtain s1 f where f: "vs_fault st = (s1, f)" by fastforce
  let ?k = "(u, vac_sender addr)"
  have "map_of ((?k, truncate_second now) # [r \<leftarrow> vs_rows st. fst r \<noteq> ?k]) = (map_of (vs_rows st))(?k \<mapsto> truncate_second now)"
    by (rule map_of_upsert)
  with r f vs_fault_rows [OF f] show ?thesis
    by (auto simp: RecordResponse_def Let_def split: if_splits option.splits)
qed

text \<open>What an evaluation of a vacation action on a store does.\<close>

lemma apply_vacation_cases:
  assumes "apply_vacation a now msg u (keep_result, Some st) = ((res, Some st'), e)"
  shows "\<not> sr_Vacation res \<and> vs_rows st' = vs_rows st \<or>
     sr_Vacation res \<and> map_of (vs_rows st') = (map_of (vs_rows st))((u, vac_sender (sm_From msg)) \<mapsto> truncate_second now) \<and>
     (\<forall>x. map_of (vs_rows st) (u, vac_sender (sm_From msg)) = Some x \<longrightarrow>
        now - x > (if va_Days a \<le> 0 then 7 else va_Days a) * 24 * Hour)"
proof (cases "shouldSkipVacation msg")
  case True
  with assms show ?thesis by (auto simp: apply_vacation_def keep_result_def)
next
  case False
  let ?d = "if va_Days a \<le> 0 then 7 else va_Days a"
  obtain s1 x where sr: "ShouldRespond now u (sm_From msg) ?d st = (s1, x)" by fastforce
  obtain s2 y where rr: "RecordResponse now u (sm_From msg) s1 = (s2, y)" by fastforce
  have nk: "\<not> sr_Vacation keep_result" "sr_Vacation (vacation_result a msg keep_result)"
    by (simp_all add: keep_result_def vacation_result_def)
  show ?thesis
  proof (cases "x = Inr True")
    case True
    from assms False sr rr True have r: "st' = s2" "res = (if y = None then vacation_result a msg keep_result else keep_result)"
      by (auto simp: apply_vacation_def Let_def split: option.splits)
    show ?thesis using ShouldRespond_facts [OF sr] RecordResponse_facts [OF rr] True r nk by (cases y) auto
  next
    case no: False
    with assms False sr have "st' = s1" "res = keep_result"
      by (auto simp: apply_vacation_def Let_def split: sum.splits bool.splits)
    then show ?thesis using ShouldRespond_facts [OF sr] nk by simp
  qed
qed

lemma vac_days_pos: "0 < (if va_Days a \<le> 0 then 7 else va_Days a) * 24 * Hour"
  by (auto simp: go_time)

interpretation vacs: step_invariant "\<lambda>s. \<exists>fs. s = (\<lparr>vs_dbNil = False, vs_rows = [], vs_faults = fs\<rparr>, {})" vac_step vac_inv
proof
  show "\<exists>fs. s = (\<lparr>vs_dbNil = False, vs_rows = [], vs_faults = fs\<rparr>, {}) \<Longrightarrow> vac_inv s" for s
    by (auto simp: vac_inv_def)
next
  fix s s' assume st: "vac_step s s'" and inv: "vac_inv s"
  from st show "vac_inv s'"
  proof cases
    case (silent a now msg u st res st' e given)
    with apply_vacation_cases [OF silent(3)] inv show ?thesis by (simp add: vac_inv_def)
  next
    case (respond a now msg u st res st' e given)
    let ?k = "(u, vac_sender (sm_From msg))"
    from apply_vacation_cases [OF respond(3)] respond(4)
    have rows: "map_of (vs_rows st') = (map_of (vs_rows st))(?k \<mapsto> truncate_second now)"
      and days: "\<forall>x. map_of (vs_rows st) ?k = Some x \<longrightarrow>
        now - x > (if va_Days a \<le> 0 then 7 else va_Days a) * 24 * Hour" by auto
    have late: "x < now" if "map_of (vs_rows st) ?k = Some x" for x
    proof -
      have "now - x > (if va_Days a \<le> 0 then 7 else va_Days a) * 24 * Hour" using days that by blast
      with vac_days_pos [of a] show ?thesis by linarith
    qed
    have "truncate_second t \<le> truncate_second now" if "(?k, t) \<in> given" for t
    proof -
      from inv respond(1) that obtain x where x: "map_of (vs_rows st) ?k = Some x" "truncate_second t \<le> x" "truncate_second x = x"
        by (fastforce simp: vac_inv_def)
      with truncate_mono [of x now] late [OF x(1)] show ?thesis by simp
    qed
    then show ?thesis using inv respond(1,2) rows unfolding vac_inv_def
      by (auto simp: truncate_idem)
  qed
qed

text \<open>Over any run of the vacation store, whatever statements fail, a response to a sender is given only if
  every earlier response of the same user to that sender lies more than the action's number of days
  (7 when it is not positive), less one second, in the past.\<close>

theorem vacation_interval:
  assumes "vac_step\<^sup>*\<^sup>* (\<lparr>vs_dbNil = False, vs_rows = [], vs_faults = fs\<rparr>, {}) (st, given)"
    and "apply_vacation a now msg u (keep_result, Some st) = ((res, Some st'), e)" and "sr_Vacation res"
    and "((u, vac_sender (sm_From msg)), t) \<in> given"
  shows "now - t > (if va_Days a \<le> 0 then 7 else va_Days a) * 24 * Hour - Second"
proof -
  have "vac_inv (st, given)" by (rule vacs.inv_reachable [OF _ assms(1)]) blast
  with assms(4) obtain x where x: "map_of (vs_rows st) (u, vac_sender (sm_From msg)) = Some x" "truncate_second t \<le> x"
    by (fastforce simp: vac_inv_def)
  with apply_vacation_cases [OF assms(2)] assms(3)
  have "now - x > (if va_Days a \<le> 0 then 7 else va_Days a) * 24 * Hour" by blast
  moreover have "t < truncate_second t + Second" by (simp add: truncate_second_def go_time)
  ultimately show ?thesis using x(2) by linarith
qed

section \<open>The script store\<close>

text \<open>A row's key is unique, a user has at most one active script, and every stored script parses.\<close>

definition sc_key :: "script_row \<Rightarrow> int \<times> string" where
  "sc_key r = (sc_user r, sc_name r)"

definition parses :: "script_row \<Rightarrow> bool" where
  "parses r \<longleftrightarrow> (case Parse (sc_content r) of Inl _ \<Rightarrow> False | Inr _ \<Rightarrow> True)"

definition store_ok :: "script_row list \<Rightarrow> bool" where
  "store_ok rows \<longleftrightarrow> distinct (map sc_key rows) \<and> distinct (map sc_user (filter sc_active rows)) \<and> list_all parses rows"

inductive store_step :: "script_row list \<Rightarrow> script_row list \<Rightarrow> bool" where
  create: "store_step rows (fst (CreateScript i u name content fault rows))"
| update: "store_step rows (fst (UpdateScript u name content fault rows))"
| delete: "store_step rows (fst (DeleteScript u name fault rows))"
| activate: "store_step rows (fst (SetActiveScript u name faults rows))"
| rename: "store_step rows (fst (RenameScript u old new fault rows))"

lemma store_ok_same_keys:
  "store_ok rows \<Longrightarrow> map sc_key rows' = map sc_key rows \<Longrightarrow> distinct (map sc_user (filter sc_active rows')) \<Longrightarrow>
   list_all parses rows' \<Longrightarrow> store_ok rows'"
  by (simp add: store_ok_def)

lemma store_okD:
  "store_ok rows \<Longrightarrow> distinct (map sc_key rows)" "store_ok rows \<Longrightarrow> distinct (map sc_user (filter sc_active rows))"
  "store_ok rows \<Longrightarrow> list_all parses rows"
  by (simp_all add: store_ok_def)

lemma store_ok_create: "store_ok rows \<Longrightarrow> store_ok (fst (CreateScript i u name content fault rows))"
  by (auto simp: CreateScript_def store_ok_def sc_key_def list_ex_iff Let_def parses_def split: sum.split option.split)

text \<open>An update that keeps the keys and the active marks.\<close>

lemma filter_active_map:
  assumes "\<And>r. sc_active (f r) = sc_active r" "\<And>r. sc_user (f r) = sc_user r"
  shows "map sc_user (filter sc_active (map f rows)) = map sc_user (filter sc_active rows)"
  using assms by (induction rows) simp_all

lemma store_ok_update: "store_ok rows \<Longrightarrow> store_ok (fst (UpdateScript u name content fault rows))"
proof -
  let ?f = "\<lambda>r. if sc_user r = u \<and> sc_name r = name then r\<lparr>sc_content := content\<rparr> else r"
  assume ok: "store_ok rows"
  have "map sc_key (map ?f rows) = map sc_key rows" by (simp add: sc_key_def)
  moreover have "map sc_user (filter sc_active (map ?f rows)) = map sc_user (filter sc_active rows)"
    by (rule filter_active_map) simp_all
  moreover have "list_all parses (map ?f rows)" if "Parse content = Inr ps" for ps
    using ok that by (auto simp: store_ok_def list_all_iff parses_def)
  ultimately have "store_ok (map ?f rows)" if "Parse content = Inr ps" for ps
    using that store_okD(2) [OF ok] by (intro store_ok_same_keys [OF ok]) simp_all
  then show ?thesis using ok by (auto simp: UpdateScript_def split: sum.split option.split)
qed

lemma store_ok_filter:
  assumes ok: "store_ok rows"
  shows "store_ok (filter P rows)"
proof -
  have "filter sc_active (filter P rows) = filter P (filter sc_active rows)" by (simp add: conj_commute)
  moreover have "distinct (map sc_user (filter P (filter sc_active rows)))"
    by (rule distinct_map_filter [OF store_okD(2) [OF ok]])
  ultimately show ?thesis using ok by (simp add: store_ok_def distinct_map_filter list_all_iff del: filter_filter)
qed

lemma store_ok_delete: "store_ok rows \<Longrightarrow> store_ok (fst (DeleteScript u name fault rows))"
  by (simp add: DeleteScript_def store_ok_filter split: option.split)

lemma active_users_off:
  "map sc_user (filter sc_active (map (\<lambda>r. if sc_user r = u then r\<lparr>sc_active := False\<rparr> else r) rows)) =
   [x \<leftarrow> map sc_user (filter sc_active rows). x \<noteq> u]"
  by (induction rows) auto

lemma active_users_on:
  assumes "distinct (map sc_key rows)" "u \<notin> set (map sc_user (filter sc_active rows))"
    and "distinct (map sc_user (filter sc_active rows))"
  shows "distinct (map sc_user (filter sc_active
     (map (\<lambda>r. if sc_user r = u \<and> sc_name r = name then r\<lparr>sc_active := True\<rparr> else r) rows)))"
  using assms
proof (induction rows)
  case (Cons r rows)
  let ?on = "\<lambda>r. if sc_user r = u \<and> sc_name r = name then r\<lparr>sc_active := True\<rparr> else r"
  show ?case
  proof (cases "sc_key r = (u, name)")
    case True
    then have "map ?on rows = rows" using Cons.prems(1) by (auto simp: sc_key_def image_iff intro!: map_idI)
    moreover have "distinct (map sc_user (filter sc_active rows))" "u \<notin> set (map sc_user (filter sc_active rows))"
      using Cons.prems(2,3) by (auto split: if_splits)
    ultimately show ?thesis using True by (simp add: sc_key_def)
  next
    case False
    have "set (map sc_user (filter sc_active (map ?on rows))) \<subseteq> insert u (set (map sc_user (filter sc_active rows)))" by auto
    moreover have "?on r = r" using False by (auto simp: sc_key_def)
    moreover have "distinct (map sc_user (filter sc_active (map ?on rows)))"
      using Cons.prems by (intro Cons.IH) (auto split: if_splits)
    ultimately show ?thesis using Cons.prems(2,3) by (auto split: if_splits)
  qed
qed simp

lemma store_ok_activate:
  assumes "store_ok rows" shows "store_ok (fst (SetActiveScript u name faults rows))"
proof -
  let ?off = "map (\<lambda>r. if sc_user r = u then r\<lparr>sc_active := False\<rparr> else r) rows"
  let ?on = "map (\<lambda>r. if sc_user r = u \<and> sc_name r = name then r\<lparr>sc_active := True\<rparr> else r) ?off"
  have k: "map sc_key ?off = map sc_key rows" "map sc_key ?on = map sc_key rows" by (simp_all add: sc_key_def)
  have p: "list_all parses ?off" "list_all parses ?on"
    using assms by (auto simp: store_ok_def list_all_iff parses_def)
  have off: "store_ok ?off"
    by (rule store_ok_same_keys [OF assms k(1) _ p(1)])
      (unfold active_users_off, rule distinct_filter, rule store_okD(2) [OF assms])
  have "u \<notin> set (map sc_user (filter sc_active ?off))" unfolding active_users_off by simp
  from active_users_on [OF store_okD(1) [OF off] this store_okD(2) [OF off]]
  have on: "store_ok ?on" by (intro store_ok_same_keys [OF assms k(2) _ p(2)])
  obtain f1 f2 f3 f4 where f: "faults = (f1, f2, f3, f4)" by (metis prod_cases4)
  show ?thesis unfolding f SetActiveScript_def Let_def prod.case using assms off on
    by (cases f1; cases f2; cases f3; cases f4; cases "name = []") (simp_all only: option.case simp_thms if_True if_False fst_conv)
qed

lemma distinct_rename:
  assumes "distinct (map sc_key rows)" "\<not> list_ex (\<lambda>r. sc_user r = u \<and> sc_name r = new) rows"
  shows "distinct (map sc_key (map (\<lambda>r. if sc_user r = u \<and> sc_name r = old then r\<lparr>sc_name := new\<rparr> else r) rows))"
proof -
  let ?h = "\<lambda>k. if k = (u, old) then (u, new) else k"
  have "map sc_key (map (\<lambda>r. if sc_user r = u \<and> sc_name r = old then r\<lparr>sc_name := new\<rparr> else r) rows) = map ?h (map sc_key rows)"
    by (simp add: sc_key_def)
  moreover have "(u, new) \<notin> set (map sc_key rows)" using assms(2) by (auto simp: list_ex_iff sc_key_def)
  then have "inj_on ?h (set (map sc_key rows))" unfolding inj_on_def by metis
  then have "distinct (map ?h (map sc_key rows))" by (subst distinct_map) (intro conjI assms(1))
  ultimately show ?thesis by (simp only:)
qed

lemma store_ok_rename:
  assumes "store_ok rows" shows "store_ok (fst (RenameScript u old new fault rows))"
proof -
  let ?f = "\<lambda>r. if sc_user r = u \<and> sc_name r = old then r\<lparr>sc_name := new\<rparr> else r"
  have same: "map ?f rows = rows" if "new = old \<or> \<not> list_ex (\<lambda>r. sc_user r = u \<and> sc_name r = old) rows"
    using that by (auto simp: list_ex_iff intro!: map_idI)
  have act: "map sc_user (filter sc_active (map ?f rows)) = map sc_user (filter sc_active rows)"
    by (rule filter_active_map) simp_all
  have p: "list_all parses (map ?f rows)" using assms by (auto simp: store_ok_def list_all_iff parses_def)
  have fresh: "store_ok (map ?f rows)" if "\<not> list_ex (\<lambda>r. sc_user r = u \<and> sc_name r = new) rows"
    unfolding store_ok_def act by (intro conjI distinct_rename [OF store_okD(1) [OF assms] that] store_okD(2) [OF assms] p)
  have "store_ok (map ?f rows)"
    if "\<not> (new \<noteq> old \<and> list_ex (\<lambda>r. sc_user r = u \<and> sc_name r = old) rows \<and> list_ex (\<lambda>r. sc_user r = u \<and> sc_name r = new) rows)"
  proof (cases "list_ex (\<lambda>r. sc_user r = u \<and> sc_name r = new) rows")
    case True
    with that have "map ?f rows = rows" by (intro same) blast
    with assms show ?thesis by (simp only:)
  qed (rule fresh)
  then show ?thesis using assms unfolding RenameScript_def by (simp split: option.split)
qed

interpretation stos: step_invariant "\<lambda>rows. rows = []" store_step store_ok
proof
  show "rows = [] \<Longrightarrow> store_ok rows" for rows by (simp add: store_ok_def)
next
  fix rows rows' assume "store_step rows rows'" "store_ok rows"
  then show "store_ok rows'"
    by cases (simp_all only: store_ok_create store_ok_update store_ok_delete store_ok_activate store_ok_rename)
qed

lemma distinct_map_unique: "distinct (map g xs) \<Longrightarrow> x \<in> set xs \<Longrightarrow> y \<in> set xs \<Longrightarrow> g x = g y \<Longrightarrow> x = y"
  by (auto simp: distinct_map inj_on_def)

lemma find_active_unique:
  assumes "store_ok rows" "r \<in> set rows" "sc_user r = u" "sc_active r"
  shows "find (\<lambda>r. sc_user r = u \<and> sc_active r) rows = Some r"
proof (cases "find (\<lambda>r. sc_user r = u \<and> sc_active r) rows")
  case None
  with assms show ?thesis by (auto simp: find_None_iff)
next
  case (Some r')
  then have r': "r' \<in> set rows" "sc_user r' = u" "sc_active r'" by (auto simp: find_Some_iff)
  have "r = r'"
    by (rule distinct_map_unique [where g = sc_user and xs = "filter sc_active rows"])
      (use assms r' in \<open>simp_all add: store_ok_def\<close>)
  with Some show ?thesis by simp
qed

text \<open>C34. In every state the script store reaches through its operations, whatever statements fail, names are
  unique per user, a user has at most one active script, and every stored script parses: \<open>Execute\<close> runs
  the parsed active script and its fallback for unparsable scripts is never taken.\<close>

theorem store_executes_active:
  assumes "store_step\<^sup>*\<^sup>* [] rows" and "r \<in> set rows" and "sc_user r = u" and "sc_active r"
  shows "\<exists>ps. Parse (sc_content r) = Inr ps \<and>
     Execute_sieve now u msg None rows vs = Inr (executeScript ps now msg u vs)"
proof -
  have ok: "store_ok rows" by (rule stos.inv_reachable [OF refl assms(1)])
  with assms(2) obtain ps where "Parse (sc_content r) = Inr ps"
    by (metis Inl_Inr_False list_all_iff parses_def store_okD(3) sum.exhaust sum.simps(5))
  moreover have "GetActiveScript u None rows = Inr (Some r)"
    using find_active_unique [OF ok assms(2-4)] by (simp add: GetActiveScript_def)
  ultimately show ?thesis by (simp add: Execute_sieve_def)
qed

section \<open>Witnesses\<close>

definition wsmsg :: sv_message where
  "wsmsg = \<lparr>sm_From = ''Bob <bob@x.org>'', sm_To = [''me@y''], sm_Subject = ''hello'', sm_Headers = [], sm_Size = 100\<rparr>"

theorem matches_is_glob_witness: "match (shorthand ''subject'' [] ''matches'' False) ''Re: Offer!'' ''re:*!'' \<and> glob ''re:*!'' ''re: offer!''"
proof -
  have mt: "hc_MatchType (shorthand ''subject'' [] ''matches'' False) = ''matches''" by (simp add: shorthand_def)
  have m: "match (shorthand ''subject'' [] ''matches'' False) ''Re: Offer!'' ''re:*!''" by code_simp
  have "ToLower ''re:*!'' = ''re:*!''" "ToLower ''Re: Offer!'' = ''re: offer!''" by code_simp+
  with matches_is_glob [OF mt, of "''Re: Offer!''" "''re:*!''"] m show ?thesis by metis
qed

theorem executor_first_match_witness:
  "fst (executeScript wparsed 0 wsmsg 1 None) = keep_result\<lparr>sr_Keep := False, sr_Filed := True, sr_FileInto := ''Junk''\<rparr> \<and>
   (\<exists>k \<le> length (matching wsmsg (ps_Rules wparsed)).
     executeScript wparsed 0 wsmsg 1 None =
       apply_actions (concat (map ru_Actions (take k (matching wsmsg (ps_Rules wparsed))))) 0 wsmsg 1 (keep_result, None))"
proof
  show "fst (executeScript wparsed 0 wsmsg 1 None) = keep_result\<lparr>sr_Keep := False, sr_Filed := True, sr_FileInto := ''Junk''\<rparr>"
    by code_simp
  have "Parse wscript = Inr wparsed" by code_simp
  from executor_first_match [OF this, of wsmsg 0 1 None]
  show "\<exists>k \<le> length (matching wsmsg (ps_Rules wparsed)).
     executeScript wparsed 0 wsmsg 1 None =
       apply_actions (concat (map ru_Actions (take k (matching wsmsg (ps_Rules wparsed))))) 0 wsmsg 1 (keep_result, None)" by blast
qed

definition wvac :: vacation_action where
  "wvac = \<lparr>va_Days = 2, va_Subject = [], va_From = [], va_Body = ''away'', va_Addresses = [], va_Handle = []\<rparr>"

definition wst :: "string option list \<Rightarrow> vac_store" where
  "wst fs = \<lparr>vs_dbNil = False, vs_rows = [], vs_faults = fs\<rparr>"

theorem vacation_interval_witness:
  "\<exists>st given res st'. vac_step\<^sup>*\<^sup>* (wst [], {}) (st, given) \<and> ((1, ''bob@x.org''), 0) \<in> given \<and>
     apply_vacation wvac (49 * Hour) wsmsg 1 (keep_result, Some st) = ((res, Some st'), None) \<and> sr_Vacation res \<and>
     49 * Hour - 0 > 2 * 24 * Hour - Second"
proof -
  let ?st1 = "\<lparr>vs_dbNil = False, vs_rows = [((1, ''bob@x.org''), 0)], vs_faults = []\<rparr>"
  let ?res = "vacation_result wvac wsmsg keep_result"
  have k: "vac_sender (sm_From wsmsg) = ''bob@x.org''" by code_simp
  have a1: "apply_vacation wvac 0 wsmsg 1 (keep_result, Some (wst [])) = ((?res, Some ?st1), None)" by code_simp
  have "vac_step (wst [], {}) (?st1, {((1, vac_sender (sm_From wsmsg)), 0)})"
    by (rule vac_step.respond [OF a1]) code_simp
  then have s: "vac_step\<^sup>*\<^sup>* (wst [], {}) (?st1, {((1, ''bob@x.org''), 0)})" unfolding k by blast
  have a2: "apply_vacation wvac (49 * Hour) wsmsg 1 (keep_result, Some ?st1) =
      ((?res, Some \<lparr>vs_dbNil = False, vs_rows = [((1, ''bob@x.org''), 49 * Hour)], vs_faults = []\<rparr>), None)"
    by code_simp
  have v: "sr_Vacation ?res" by code_simp
  have d: "(if va_Days wvac \<le> 0 then 7 else va_Days wvac) = 2" by code_simp
  have "49 * Hour - 0 > 2 * 24 * Hour - Second"
    using vacation_interval [OF s [unfolded wst_def] a2 v, of 0] unfolding k d by simp
  with s a2 v show ?thesis by blast
qed

definition wrows :: "script_row list" where
  "wrows = [\<lparr>sc_id = 1, sc_user = 7, sc_name = ''main'', sc_content = wscript, sc_active = True\<rparr>]"

theorem store_executes_active_witness:
  "Execute_sieve 0 7 wsmsg None wrows None = Inr (executeScript wparsed 0 wsmsg 7 None)"
proof -
  let ?r1 = "fst (CreateScript 1 7 ''main'' wscript None [])"
  have r: "fst (SetActiveScript 7 ''main'' (None, None, None, None) ?r1) = wrows" by code_simp
  have "store_step [] ?r1" by (rule store_step.create)
  moreover have "store_step ?r1 wrows"
    using store_step.activate [of ?r1 7 "''main''" "(None, None, None, None)"] unfolding r .
  ultimately have s: "store_step\<^sup>*\<^sup>* [] wrows" by (meson converse_rtranclp_into_rtranclp rtranclp.rtrancl_refl)
  have p: "Parse wscript = Inr wparsed" by code_simp
  have m: "hd wrows \<in> set wrows" "sc_user (hd wrows) = 7" "sc_active (hd wrows)" "sc_content (hd wrows) = wscript"
    by (simp_all add: wrows_def)
  from store_executes_active [OF s m(1-3), of 0 wsmsg None] show ?thesis unfolding m(4) p by auto
qed

end
