(* ===== verification/Delivery.thy ===== *)
theory Delivery
  imports Circuit_Breaker Redis_Queue Go_Net "HOL-Library.Multiset"
begin

text \<open>
  Package \<^verbatim>\<open>internal/smtp/delivery\<close>: the outbound engine (\<^verbatim>\<open>delivery.go\<close>), the MX resolver with its cache
  (\<^verbatim>\<open>mx.go\<close>) and the bounce generator (\<^verbatim>\<open>bounce.go\<close>), on top of the queue of \<open>Redis_Queue\<close> and the breakers of
  \<open>Circuit_Breaker\<close>. The network is an argument, the record \<open>denv\<close>: the answers of DNS, the replies of a
  remote SMTP server to each command of a dialogue, the DKIM signers, the order that the unstable
  \<open>sort.Slice\<close> chooses among equal preferences, I/O errors of files. The file system is an association
  list of paths and contents. An error is its text together with the sentinel errors it wraps.
\<close>

section \<open>Errors\<close>

datatype sentinel =
    ErrPermanentFailure | ErrTemporaryFailure | ErrAllMXFailed | ErrMessageTooLarge | ErrInvalidRecipient
  | ErrNoMXRecords | ErrInvalidMXDomain

record derror =
  er_text :: string
  er_is :: "sentinel list"

fun sentinel_text :: "sentinel \<Rightarrow> string" where
  "sentinel_text ErrPermanentFailure = ''permanent delivery failure''"
| "sentinel_text ErrTemporaryFailure = ''temporary delivery failure''"
| "sentinel_text ErrAllMXFailed = ''all MX servers failed''"
| "sentinel_text ErrMessageTooLarge = ''message too large''"
| "sentinel_text ErrInvalidRecipient = ''invalid recipient''"
| "sentinel_text ErrNoMXRecords = ''no MX records found''"
| "sentinel_text ErrInvalidMXDomain = ''invalid domain''"

definition sentinel_err :: "sentinel \<Rightarrow> derror" where
  "sentinel_err s = \<lparr>er_text = sentinel_text s, er_is = [s]\<rparr>"

definition plain_err :: "string \<Rightarrow> derror" where
  "plain_err t = \<lparr>er_text = t, er_is = []\<rparr>"

text \<open>\<open>fmt.Errorf("prefix: %w", err)\<close>, and \<open>fmt.Errorf("%w: %v", sentinel, err)\<close>, which keeps only the text
  of \<open>err\<close>.\<close>

definition wrap_err :: "string \<Rightarrow> derror \<Rightarrow> derror" where
  "wrap_err what e = e\<lparr>er_text := what @ '': '' @ er_text e\<rparr>"

definition sentinel_with :: "sentinel \<Rightarrow> string \<Rightarrow> derror" where
  "sentinel_with s t = \<lparr>er_text = sentinel_text s @ '': '' @ t, er_is = [s]\<rparr>"

definition isPermanentError :: "derror \<Rightarrow> bool" where
  "isPermanentError err \<longleftrightarrow>
     Contains (er_text err) ''550'' \<or> Contains (er_text err) ''551'' \<or> Contains (er_text err) ''552'' \<or>
     Contains (er_text err) ''553'' \<or> Contains (er_text err) ''554'' \<or>
     ErrPermanentFailure \<in> set (er_is err) \<or> ErrInvalidRecipient \<in> set (er_is err) \<or>
     ErrMessageTooLarge \<in> set (er_is err)"

definition classifyError :: "string \<Rightarrow> derror" where
  "classifyError errStr =
     (if HasPrefix errStr ''5'' \<or> Contains errStr '' 5'' then sentinel_with ErrPermanentFailure errStr
      else sentinel_with ErrTemporaryFailure errStr)"

definition extractDomain :: "string \<Rightarrow> string" where
  "extractDomain email = (case SplitN2 email (CHR ''@'') of [a, b] \<Rightarrow> ToLower b | _ \<Rightarrow> [])"

text \<open>The errors of the breaker, as text.\<close>

definition cb_to_derror :: "derror cb_error \<Rightarrow> derror" where
  "cb_to_derror e =
     (case e of
        ErrContextNil \<Rightarrow> plain_err ''context is nil''
      | ErrFunctionNil \<Rightarrow> plain_err ''function is nil''
      | ErrCircuitOpen \<Rightarrow> plain_err ''circuit breaker is open''
      | ErrCircuitTimeout \<Rightarrow> plain_err ''circuit breaker execution timeout''
      | ErrContext t \<Rightarrow> plain_err t
      | ErrPanic t \<Rightarrow> plain_err (''panic in circuit breaker: '' @ t)
      | ErrFn d \<Rightarrow> d)"

section \<open>Configuration and state\<close>

record dconfig =
  dc_Workers :: int
  dc_Hostname :: string
  dc_ConnectTimeout :: duration
  dc_CommandTimeout :: duration
  dc_MaxMessageSize :: int
  dc_RequireTLS :: bool
  dc_VerifyTLS :: bool
  dc_QueuePath :: string
  dc_RelayHost :: string

definition DefaultConfig_delivery :: dconfig where
  "DefaultConfig_delivery = \<lparr>dc_Workers = 4, dc_Hostname = ''localhost'', dc_ConnectTimeout = 30 * Second,
     dc_CommandTimeout = 5 * Minute, dc_MaxMessageSize = 25 * 1024 * 1024, dc_RequireTLS = False,
     dc_VerifyTLS = True, dc_QueuePath = [], dc_RelayHost = []\<rparr>"

record mx_record =
  mx_Host :: string
  mx_Preference :: nat
  mx_ExpiresAt :: "time option"

record mx_host =
  mh_Host :: string
  mh_Preference :: nat
  mh_Addresses :: "string list"

type_synonym mx_cache = "(string \<times> mx_record list \<times> time) list"

text \<open>The replies of one SMTP dialogue: \<open>None\<close> is a positive reply, \<open>Some t\<close> an error with that text. The
  reply to RCPT depends on how many RCPT commands came before.\<close>

record dialog =
  dg_dial :: "string option"
  dg_client :: "string option"
  dg_hello :: "string option"
  dg_hasSTARTTLS :: bool
  dg_startTLS :: "string option"
  dg_mail :: "string \<Rightarrow> string option"
  dg_rcpt :: "nat \<Rightarrow> string \<Rightarrow> string option"
  dg_data :: "string option"
  dg_write :: "string \<Rightarrow> string option"
  dg_close :: "string option"

datatype dns_result = MXRecords "(string \<times> nat) list" | DNSNotFound | DNSError string

text \<open>How the context of the breaker ends before the attempt returns, or a panic of the attempt.\<close>

datatype interrupt = Deadline | Cancelled string | Panicked string

record denv =
  ev_lookupMX :: "string \<Rightarrow> dns_result"
  ev_lookupHost :: "string \<Rightarrow> string list option"
  ev_sort :: "mx_record list \<Rightarrow> mx_record list" \<comment> \<open>sort.Slice by preference\<close>
  ev_range :: "(string \<times> string list) list \<Rightarrow> (string \<times> string list) list" \<comment> \<open>order of a range over a map\<close>
  ev_smtp :: "string \<Rightarrow> bool \<Rightarrow> dialog" \<comment> \<open>the server at an address; the flag is tryTLS\<close>
  ev_signer :: "string \<Rightarrow> (string \<Rightarrow> string option) option" \<comment> \<open>the DKIM pool\<close>
  ev_fileErr :: "string \<Rightarrow> string option" \<comment> \<open>Stat and ReadFile, apart from a missing file\<close>
  ev_removeErr :: "string \<Rightarrow> string option"
  ev_createTemp :: "string + string" \<comment> \<open>an error, or the name chosen\<close>
  ev_tempWrite :: "string option"
  ev_interrupt :: "interrupt option"
  ev_date :: string
  ev_rnd :: "nat \<Rightarrow> string option"

text \<open>What a server took: over TLS or not, for which recipients, which data. The log of the engine record
  keeps these; it is not a field of the code.\<close>

type_synonym receipt = "bool \<times> string list \<times> string"

type_synonym files = "(string \<times> string) list"

record 'r engine =
  en_config :: dconfig
  en_queue :: redis_queue
  en_redis :: 'r
  en_breakers :: "derror breaker_registry"
  en_mx :: mx_cache
  en_files :: files
  en_sent :: int
  en_failed :: int
  en_retried :: int
  en_bounced :: int
  en_log :: "(string \<times> receipt) list"

definition breaker_config :: "string \<Rightarrow> derror cb_config" where
  "breaker_config key = \<lparr>cfg_Name = ''smtp:'' @ key, FailureThreshold = 5, SuccessThreshold = 2, Timeout = 5 * Minute,
     HalfOpenMaxCalls = 2, ExecutionTimeout = 2 * Minute, OnStateChange = False, IsFailure = None\<rparr>"

definition NewEngine :: "dconfig \<Rightarrow> redis_queue \<Rightarrow> 'r \<Rightarrow> files \<Rightarrow> 'r engine" where
  "NewEngine cfg q r fs = \<lparr>en_config = cfg, en_queue = q, en_redis = r,
     en_breakers = NewBreakerRegistry breaker_config, en_mx = [], en_files = fs,
     en_sent = 0, en_failed = 0, en_retried = 0, en_bounced = 0, en_log = []\<rparr>"

section \<open>MX lookup\<close>

definition mx_ttl :: duration where
  "mx_ttl = 5 * Minute"

definition lookupAFallback :: "denv \<Rightarrow> string \<Rightarrow> (derror, mx_record list) result" where
  "lookupAFallback env domain =
     (case ev_lookupHost env domain of
        None \<Rightarrow> Inl (sentinel_err ErrNoMXRecords)
      | Some addrs \<Rightarrow>
          (if addrs = [] then Inl (sentinel_err ErrNoMXRecords)
           else Inr [\<lparr>mx_Host = domain, mx_Preference = 0, mx_ExpiresAt = None\<rparr>]))"

definition lookupMX :: "denv \<Rightarrow> string \<Rightarrow> (derror, mx_record list) result" where
  "lookupMX env domain =
     (case ev_lookupMX env domain of
        DNSNotFound \<Rightarrow> lookupAFallback env domain
      | DNSError t \<Rightarrow> Inl (plain_err t)
      | MXRecords mxs \<Rightarrow>
          (if mxs = [] then lookupAFallback env domain
           else Inr (ev_sort env (map (\<lambda>(h, p). \<lparr>mx_Host = TrimSuffix h ''.'', mx_Preference = p,
                                                 mx_ExpiresAt = None\<rparr>) mxs))))"

text \<open>\<open>Lookup\<close> from the DNS query on.\<close>

definition lookup_miss :: "denv \<Rightarrow> time \<Rightarrow> string \<Rightarrow> mx_cache \<Rightarrow> mx_cache \<times> (derror, mx_record list) result" where
  "lookup_miss env now domain cache =
     (case lookupMX env domain of
        Inl e \<Rightarrow> (cache, Inl e)
      | Inr records0 \<Rightarrow>
          (let expiresAt = now + mx_ttl;
               records = map (\<lambda>r. r\<lparr>mx_ExpiresAt := Some expiresAt\<rparr>) records0
           in (AList.update domain (records, expiresAt) cache, Inr records)))"

definition Lookup :: "denv \<Rightarrow> time \<Rightarrow> string \<Rightarrow> mx_cache \<Rightarrow> mx_cache \<times> (derror, mx_record list) result" where
  "Lookup env now domain0 cache =
     (let domain = ToLower (TrimSpace domain0)
      in if domain = [] then (cache, Inl (sentinel_err ErrInvalidMXDomain))
         else (case map_of cache domain of
                 Some (records, expiresAt) \<Rightarrow>
                   (if now < expiresAt then (cache, Inr records)
                    else lookup_miss env now domain (AList.delete domain cache))
               | None \<Rightarrow> lookup_miss env now domain cache))"

definition is_v4 :: "string \<Rightarrow> bool" where
  "is_v4 a = (case ParseIP a of None \<Rightarrow> False | Some gs \<Rightarrow> To4 gs \<noteq> None)"

definition is_v6 :: "string \<Rightarrow> bool" where
  "is_v6 a = (case ParseIP a of None \<Rightarrow> False | Some gs \<Rightarrow> To4 gs = None)"

fun resolve_hosts :: "denv \<Rightarrow> mx_record list \<Rightarrow> mx_host list" where
  "resolve_hosts env [] = []"
| "resolve_hosts env (mx # mxs) =
     (case ev_lookupHost env (mx_Host mx) of
        None \<Rightarrow> resolve_hosts env mxs
      | Some addrs \<Rightarrow>
          (let allAddrs = filter is_v4 addrs @ filter is_v6 addrs
           in if allAddrs \<noteq> []
              then \<lparr>mh_Host = mx_Host mx, mh_Preference = mx_Preference mx, mh_Addresses = allAddrs\<rparr> # resolve_hosts env mxs
              else resolve_hosts env mxs))"

definition LookupWithFallback :: "denv \<Rightarrow> time \<Rightarrow> string \<Rightarrow> mx_cache \<Rightarrow> mx_cache \<times> (derror, mx_host list) result" where
  "LookupWithFallback env now domain cache =
     (case Lookup env now domain cache of
        (c, Inl e) \<Rightarrow> (c, Inl e)
      | (c, Inr records) \<Rightarrow>
          (let hosts = resolve_hosts env records
           in if hosts = [] then (c, Inl (sentinel_err ErrNoMXRecords)) else (c, Inr hosts)))"

definition ClearCache :: "mx_cache \<Rightarrow> mx_cache" where
  "ClearCache cache = []"

definition CacheStats :: "time \<Rightarrow> mx_cache \<Rightarrow> nat \<times> nat \<times> nat" where
  "CacheStats now cache =
     (length cache, length [e \<leftarrow> cache. now < snd (snd e)], length [e \<leftarrow> cache. \<not> now < snd (snd e)])"

section \<open>The SMTP dialogue\<close>

definition JoinHostPort :: "string \<Rightarrow> string \<Rightarrow> string" where
  "JoinHostPort host port =
     (if CHR '':'' \<in> set host then ''['' @ host @ '']:'' @ port else host @ '':'' @ port)"

text \<open>The loop over the recipients: those accepted so far, and the last error.\<close>

fun rcpt_loop :: "dialog \<Rightarrow> nat \<Rightarrow> string list \<Rightarrow> string list \<Rightarrow> string option \<Rightarrow> string list \<times> string option" where
  "rcpt_loop d i [] accepted lastRcptErr = (accepted, lastRcptErr)"
| "rcpt_loop d i (rcpt # rcpts) accepted lastRcptErr =
     (case dg_rcpt d i rcpt of
        Some err \<Rightarrow> rcpt_loop d (Suc i) rcpts accepted (Some err)
      | None \<Rightarrow> rcpt_loop d (Suc i) rcpts (accepted @ [rcpt]) lastRcptErr)"

text \<open>From MAIL on, the same lines in \<open>deliverToRelay\<close> and \<open>deliverToHostWithTLS\<close>.\<close>

definition send_mail :: "dialog \<Rightarrow> message \<Rightarrow> string \<Rightarrow> bool \<Rightarrow> (derror, receipt) result" where
  "send_mail d msg data tls =
     (case dg_mail d (msg_Sender msg) of
        Some err \<Rightarrow> Inl (classifyError err)
      | None \<Rightarrow>
     (case rcpt_loop d 0 (msg_Recipients msg) [] None of
        (accepted, lastRcptErr) \<Rightarrow>
     (if length accepted = 0 then
        (case lastRcptErr of
           Some err \<Rightarrow> Inl (classifyError err)
         | None \<Rightarrow> Inl (sentinel_with ErrInvalidRecipient ''no recipients accepted''))
      else (case dg_data d of
        Some err \<Rightarrow> Inl (classifyError err)
      | None \<Rightarrow>
     (case dg_write d data of
        Some err \<Rightarrow> Inl (wrap_err ''data write failed'' (plain_err err))
      | None \<Rightarrow>
     (case dg_close d of
        Some err \<Rightarrow> Inl (classifyError err)
      | None \<Rightarrow> Inr (tls, accepted, data)))))))"

text \<open>Dialling, the greeting and HELO, the same lines in both but for the text of a failed dial.\<close>

definition open_session :: "string \<Rightarrow> dialog \<Rightarrow> derror option" where
  "open_session what d =
     (case dg_dial d of
        Some e \<Rightarrow> Some (wrap_err what (plain_err e))
      | None \<Rightarrow>
          (case dg_client d of
             Some e \<Rightarrow> Some (wrap_err ''SMTP client creation failed'' (plain_err e))
           | None \<Rightarrow>
               (case dg_hello d of
                  Some e \<Rightarrow> Some (wrap_err ''HELO failed'' (plain_err e))
                | None \<Rightarrow> None)))"

definition deliverToRelay :: "dconfig \<Rightarrow> denv \<Rightarrow> message \<Rightarrow> string \<Rightarrow> (derror, receipt) result" where
  "deliverToRelay cfg env msg data =
     (let (host, port) = (case SplitHostPort (dc_RelayHost cfg) of
                            Some hp \<Rightarrow> hp
                          | None \<Rightarrow> (dc_RelayHost cfg, ''25''));
          d = ev_smtp env (JoinHostPort host port) False
      in case open_session ''relay connection failed'' d of
           Some e \<Rightarrow> Inl e
         | None \<Rightarrow> send_mail d msg data False)"

text \<open>The recursive call has \<open>tryTLS\<close> false, so the recursion is one level deep: \<open>deliver_plain\<close> is
  \<open>deliverToHostWithTLS\<close> at false.\<close>

definition deliver_plain :: "denv \<Rightarrow> string \<Rightarrow> message \<Rightarrow> string \<Rightarrow> (derror, receipt) result" where
  "deliver_plain env addr msg data =
     (let d = ev_smtp env (JoinHostPort addr ''25'') False
      in case open_session ''connection failed'' d of
           Some e \<Rightarrow> Inl e
         | None \<Rightarrow> send_mail d msg data False)"

definition deliverToHostWithTLS ::
    "dconfig \<Rightarrow> denv \<Rightarrow> string \<Rightarrow> message \<Rightarrow> string \<Rightarrow> bool \<Rightarrow> (derror, receipt) result" where
  "deliverToHostWithTLS cfg env addr msg data tryTLS =
     (if \<not> tryTLS then deliver_plain env addr msg data
      else (let d = ev_smtp env (JoinHostPort addr ''25'') True
            in case open_session ''connection failed'' d of
                 Some e \<Rightarrow> Inl e
               | None \<Rightarrow>
                   (if dg_hasSTARTTLS d then
                      (case dg_startTLS d of
                         Some e \<Rightarrow>
                           (if dc_RequireTLS cfg
                            then Inl (wrap_err ''STARTTLS required but failed'' (plain_err e))
                            else deliver_plain env addr msg data)
                       | None \<Rightarrow> send_mail d msg data True)
                    else if dc_RequireTLS cfg
                    then Inl (plain_err ''STARTTLS required but not supported by server'')
                    else send_mail d msg data False)))"

definition deliverToHost :: "dconfig \<Rightarrow> denv \<Rightarrow> string \<Rightarrow> message \<Rightarrow> string \<Rightarrow> (derror, receipt) result" where
  "deliverToHost cfg env addr msg data = deliverToHostWithTLS cfg env addr msg data True"

text \<open>The two nested loops of \<open>attemptDelivery\<close>, over the hosts and the addresses of each, as one loop over
  the addresses in that order.\<close>

fun try_hosts :: "dconfig \<Rightarrow> denv \<Rightarrow> message \<Rightarrow> string \<Rightarrow> string list \<Rightarrow> string \<Rightarrow> (derror, receipt) result" where
  "try_hosts cfg env msg data [] lastErr = Inl (sentinel_with ErrAllMXFailed lastErr)"
| "try_hosts cfg env msg data (addr # addrs) lastErr =
     (case deliverToHost cfg env addr msg data of
        Inr ok \<Rightarrow> Inr ok
      | Inl e \<Rightarrow> if isPermanentError e then Inl e else try_hosts cfg env msg data addrs (er_text e))"

definition os_ReadFile :: "denv \<Rightarrow> files \<Rightarrow> string \<Rightarrow> (derror, string) result" where
  "os_ReadFile env fs path =
     (case ev_fileErr env path of
        Some e \<Rightarrow> Inl (plain_err e)
      | None \<Rightarrow>
          (case map_of fs path of
             None \<Rightarrow> Inl (plain_err (''open '' @ path @ '': no such file or directory''))
           | Some data \<Rightarrow> Inr data))"

definition readAndSignMessage :: "denv \<Rightarrow> files \<Rightarrow> message \<Rightarrow> (derror, string) result" where
  "readAndSignMessage env fs msg =
     (case os_ReadFile env fs (msg_MessagePath msg) of
        Inl e \<Rightarrow> Inl e
      | Inr data \<Rightarrow>
          (case ev_signer env (extractDomain (msg_Sender msg)) of
             None \<Rightarrow> Inr data
           | Some sign \<Rightarrow> (case sign data of None \<Rightarrow> Inr data | Some out \<Rightarrow> Inr out)))"

definition attemptDelivery ::
    "dconfig \<Rightarrow> denv \<Rightarrow> time \<Rightarrow> message \<Rightarrow> files \<Rightarrow> mx_cache \<Rightarrow> mx_cache \<times> (derror, receipt) result" where
  "attemptDelivery cfg env now msg fs cache =
     (case readAndSignMessage env fs msg of
        Inl e \<Rightarrow> (cache, Inl (wrap_err ''failed to prepare message'' e))
      | Inr data \<Rightarrow>
          (if dc_RelayHost cfg \<noteq> [] then (cache, deliverToRelay cfg env msg data)
           else (case LookupWithFallback env now (msg_Domain msg) cache of
                   (c, Inl e) \<Rightarrow> (c, Inl (wrap_err ''MX lookup failed'' e))
                 | (c, Inr hosts) \<Rightarrow>
                     (c, try_hosts cfg env msg data (concat (map mh_Addresses hosts)) ''<nil>''))))"

section \<open>Bounces\<close>

definition ShouldBounce :: "string \<Rightarrow> bool" where
  "ShouldBounce sender \<longleftrightarrow>
     sender \<noteq> [] \<and>
     (let s = ToLower sender
      in \<not> (HasPrefix s ''postmaster@'' \<or> HasPrefix s ''mailer-daemon@'' \<or> HasPrefix s ''noreply@'' \<or>
            HasPrefix s ''no-reply@''))"

definition classifyErrorCode :: "derror \<Rightarrow> string" where
  "classifyErrorCode err =
     (if Contains (er_text err) ''550'' then ''5.1.1''
      else if Contains (er_text err) ''551'' then ''5.1.6''
      else if Contains (er_text err) ''552'' then ''5.2.2''
      else if Contains (er_text err) ''553'' then ''5.1.3''
      else if Contains (er_text err) ''554'' then ''5.7.1''
      else ''5.0.0'')"

definition nl :: string where "nl = [CHR 0x0A]"
definition crlf :: string where "crlf = [CHR 0x0D, CHR 0x0A]"
definition dquote :: string where "dquote = [CHR 0x22]"

text \<open>The headers of the failed message that the bounce quotes, of at most 4096 bytes.\<close>

definition originalHeaders :: "denv \<Rightarrow> files \<Rightarrow> string \<Rightarrow> string" where
  "originalHeaders env fs path =
     (if path = [] then []
      else (case os_ReadFile env fs path of
              Inl e \<Rightarrow> []
            | Inr content \<Rightarrow>
                (let up_to = (\<lambda>sep. case Index content sep of Some idx \<Rightarrow> if 0 < idx then Some idx else None | None \<Rightarrow> None);
                     h = (case up_to (crlf @ crlf) of
                            Some idx \<Rightarrow> take idx content
                          | None \<Rightarrow> (case up_to (nl @ nl) of Some idx \<Rightarrow> take idx content | None \<Rightarrow> []))
                 in if length h > 4096 then take 4096 h @ nl @ ''[... truncated ...]'' else h)))"

record bounce_data =
  bd_MessageID :: string
  bd_Date :: string
  bd_From :: string
  bd_To :: string
  bd_OriginalSender :: string
  bd_FailedRecipient :: string
  bd_ErrorCode :: string
  bd_ErrorMessage :: string
  bd_Hostname :: string
  bd_OriginalHeaders :: string

definition bounceTemplate :: "bounce_data \<Rightarrow> string" where
  "bounceTemplate d = concat (map (\<lambda>l. l @ nl)
     [''From: Mail Delivery System <'' @ bd_From d @ ''>'',
      ''To: <'' @ bd_To d @ ''>'',
      ''Subject: Undelivered Mail Returned to Sender'',
      ''Date: '' @ bd_Date d,
      ''Message-ID: '' @ bd_MessageID d,
      ''MIME-Version: 1.0'',
      ''Content-Type: multipart/report; report-type=delivery-status; boundary='' @ dquote @ ''=_bounce_boundary'' @ dquote,
      ''Auto-Submitted: auto-replied'',
      '''',
      ''--=_bounce_boundary'',
      ''Content-Type: text/plain; charset=utf-8'',
      '''',
      ''This is the mail delivery system at '' @ bd_Hostname d @ ''.'',
      '''',
      ''I'' @ [CHR 0x27] @ ''m sorry to inform you that your message could not be delivered to one or'',
      ''more recipients. The following address(es) failed:'',
      '''',
      ''    '' @ bd_FailedRecipient d,
      '''',
      ''Error: '' @ bd_ErrorMessage d,
      '''',
      ''If this problem persists, please contact your mail administrator.'',
      '''',
      ''This is a permanent error; the message will not be retried.'',
      '''',
      ''--=_bounce_boundary'',
      ''Content-Type: message/delivery-status'',
      '''',
      ''Reporting-MTA: dns; '' @ bd_Hostname d,
      ''Arrival-Date: '' @ bd_Date d,
      '''',
      ''Final-Recipient: rfc822; '' @ bd_FailedRecipient d,
      ''Action: failed'',
      ''Status: '' @ bd_ErrorCode d,
      ''Diagnostic-Code: smtp; '' @ bd_ErrorMessage d,
      '''',
      ''--=_bounce_boundary'',
      ''Content-Type: text/rfc822-headers'',
      '''',
      bd_OriginalHeaders d,
      '''',
      ''--=_bounce_boundary--''])"

text \<open>The fields are strings, so the execution of the template cannot fail.\<close>

definition Generate :: "string \<Rightarrow> denv \<Rightarrow> time \<Rightarrow> files \<Rightarrow> message \<Rightarrow> derror \<Rightarrow> string" where
  "Generate hostname env now fs msg failureErr =
     bounceTemplate
       \<lparr>bd_MessageID = ''<'' @ show_int now @ ''.bounce@'' @ hostname @ ''>'',
        bd_Date = ev_date env,
        bd_From = ''postmaster@'' @ hostname,
        bd_To = msg_Sender msg,
        bd_OriginalSender = msg_Sender msg,
        bd_FailedRecipient = Join (msg_Recipients msg) '', '',
        bd_ErrorCode = classifyErrorCode failureErr,
        bd_ErrorMessage = er_text failureErr,
        bd_Hostname = hostname,
        bd_OriginalHeaders = originalHeaders env fs (msg_MessagePath msg)\<rparr>"

section \<open>The engine\<close>

text \<open>\<open>os.Remove\<close>: an error carries its text and whether \<open>os.IsNotExist\<close> holds of it.\<close>

definition os_Remove :: "denv \<Rightarrow> string \<Rightarrow> files \<Rightarrow> files \<times> (string \<times> bool) option" where
  "os_Remove env path fs =
     (case ev_removeErr env path of
        Some e \<Rightarrow> (fs, Some (e, False))
      | None \<Rightarrow>
          (if map_of fs path = None then (fs, Some (''no such file or directory'', True))
           else (AList.delete path fs, None)))"

definition cleanupMessageFile :: "dconfig \<Rightarrow> denv \<Rightarrow> string \<Rightarrow> files \<Rightarrow> files \<times> string option" where
  "cleanupMessageFile cfg env path fs =
     (if path = [] then (fs, None)
      else if dc_QueuePath cfg \<noteq> [] \<and> \<not> HasPrefix path (dc_QueuePath cfg) then (fs, None)
      else (case os_Remove env path fs of
              (fs1, Some (e, False)) \<Rightarrow> (fs1, Some (''failed to remove message file: '' @ e))
            | (fs1, _) \<Rightarrow> (fs1, None)))"

definition new_message :: message where
  "new_message = \<lparr>msg_ID = [], msg_Sender = [], msg_Recipients = [], msg_MessagePath = [], msg_Size = 0,
     msg_Attempts = 0, msg_MaxAttempts = 0, msg_LastAttempt = None, msg_NextAttempt = None,
     msg_LastError = [], msg_Status = StatusPending, msg_CreatedAt = None, msg_Domain = []\<rparr>"

datatype bounce_error = BounceTempFile string | BounceWrite string | BounceEnqueue q_error

definition sendBounce ::
    "('d, 'r) redis \<Rightarrow> denv \<Rightarrow> time \<Rightarrow> message \<Rightarrow> derror \<Rightarrow> 'r engine
     \<Rightarrow> 'r engine \<times> (bounce_error, message) result" where
  "sendBounce R env now msg failureErr e =
     (let bounceData = Generate (dc_Hostname (en_config e)) env now (en_files e) msg failureErr
      in case ev_createTemp env of
           Inl err \<Rightarrow> (e, Inl (BounceTempFile err))
         | Inr bouncePath \<Rightarrow>
      (case ev_tempWrite env of
         Some err \<Rightarrow>
           (e\<lparr>en_files := fst (os_Remove env bouncePath (AList.update bouncePath [] (en_files e)))\<rparr>,
            Inl (BounceWrite err))
       | None \<Rightarrow>
      (let files = AList.update bouncePath bounceData (en_files e);
           bounceMsg = new_message\<lparr>msg_Sender := [], msg_Recipients := [msg_Sender msg],
             msg_MessagePath := bouncePath, msg_Size := int (length bounceData),
             msg_Domain := extractDomain (msg_Sender msg)\<rparr>
       in case Enqueue R (en_queue e) False (ev_rnd env 0) now (Some bounceMsg) (en_redis e) of
            (r, Inl err) \<Rightarrow>
              (e\<lparr>en_redis := r, en_files := fst (os_Remove env bouncePath files)\<rparr>, Inl (BounceEnqueue err))
          | (r, Inr m) \<Rightarrow> (e\<lparr>en_redis := r, en_files := files\<rparr>, Inr m))))"

text \<open>\<open>Enqueue\<close>. The map from domains to recipients is an association list; a range over it visits the
  entries in the order \<open>ev_range\<close> gives. The success value lists the messages as the queue took them.\<close>

fun group_by_domain :: "string list \<Rightarrow> (string \<times> string list) list \<Rightarrow> (string \<times> string list) list" where
  "group_by_domain [] byDomain = byDomain"
| "group_by_domain (rcpt # recipients) byDomain =
     (let domain = extractDomain rcpt
      in if domain = [] then group_by_domain recipients byDomain
         else group_by_domain recipients
                (AList.update domain
                   ((case map_of byDomain domain of Some rs \<Rightarrow> rs | None \<Rightarrow> []) @ [rcpt]) byDomain))"

datatype enqueue_error = EnqNotFound string | EnqTooLarge | EnqQueue string q_error

fun enqueue_groups ::
    "('d, 'r) redis \<Rightarrow> redis_queue \<Rightarrow> denv \<Rightarrow> time \<Rightarrow> string \<Rightarrow> string \<Rightarrow> int \<Rightarrow> nat
     \<Rightarrow> (string \<times> string list) list \<Rightarrow> 'r \<Rightarrow> 'r \<times> (enqueue_error, message list) result" where
  "enqueue_groups R q env now sender messagePath sz i [] r = (r, Inr [])"
| "enqueue_groups R q env now sender messagePath sz i ((domain, rcpts) # groups) r =
     (let msg = new_message\<lparr>msg_Sender := sender, msg_Recipients := rcpts, msg_MessagePath := messagePath,
                            msg_Size := sz, msg_Domain := domain\<rparr>
      in case Enqueue R q False (ev_rnd env i) now (Some msg) r of
           (r1, Inl err) \<Rightarrow> (r1, Inl (EnqQueue domain err))
         | (r1, Inr m) \<Rightarrow>
             (case enqueue_groups R q env now sender messagePath sz (Suc i) groups r1 of
                (r2, Inl err) \<Rightarrow> (r2, Inl err)
              | (r2, Inr ms) \<Rightarrow> (r2, Inr (m # ms))))"

definition Enqueue_engine ::
    "('d, 'r) redis \<Rightarrow> denv \<Rightarrow> time \<Rightarrow> string \<Rightarrow> string list \<Rightarrow> string \<Rightarrow> 'r engine
     \<Rightarrow> 'r engine \<times> (enqueue_error, message list) result" where
  "Enqueue_engine R env now sender recipients messagePath e =
     (case os_ReadFile env (en_files e) messagePath of
        Inl err \<Rightarrow> (e, Inl (EnqNotFound (er_text err)))
      | Inr content \<Rightarrow>
          (let sz = int (length content)
           in if sz > dc_MaxMessageSize (en_config e) then (e, Inl EnqTooLarge)
              else (case enqueue_groups R (en_queue e) env now sender messagePath sz 0
                           (ev_range env (group_by_domain recipients [])) (en_redis e) of
                      (r, res) \<Rightarrow> (e\<lparr>en_redis := r\<rparr>, res))))"

text \<open>\<open>deliverMessage\<close>. The errors of \<open>Retry\<close>, \<open>Fail\<close> and \<open>Complete\<close> are not looked at. \<open>None\<close> is the panic
  of \<open>breaker.State()\<close> on the nil breaker of an empty domain. When the context of the breaker ends first,
  the attempt goes on in its goroutine: the cache and the log change all the same.\<close>

definition retry_message :: "('d, 'r) redis \<Rightarrow> time \<Rightarrow> message \<Rightarrow> string \<Rightarrow> 'r engine \<Rightarrow> 'r engine" where
  "retry_message R now msg err e =
     e\<lparr>en_redis := fst (Retry R (en_queue e) now (msg_ID msg) err (en_redis e)), en_retried := en_retried e + 1\<rparr>"

definition fail_bounce :: "('d, 'r) redis \<Rightarrow> denv \<Rightarrow> time \<Rightarrow> message \<Rightarrow> derror \<Rightarrow> 'r engine \<Rightarrow> 'r engine" where
  "fail_bounce R env now msg err e =
     (if ShouldBounce (msg_Sender msg)
      then (case sendBounce R env now msg err e of
              (e', Inl bounceErr) \<Rightarrow> e'
            | (e', Inr m) \<Rightarrow> e'\<lparr>en_bounced := en_bounced e' + 1\<rparr>)
      else e)"

definition fail_message :: "('d, 'r) redis \<Rightarrow> denv \<Rightarrow> time \<Rightarrow> message \<Rightarrow> derror \<Rightarrow> 'r engine \<Rightarrow> 'r engine" where
  "fail_message R env now msg err e =
     (let e1 = e\<lparr>en_redis := fst (Fail R (en_queue e) now (msg_ID msg) (er_text err) (en_redis e)),
                 en_failed := en_failed e + 1\<rparr>;
          e2 = fail_bounce R env now msg err e1
      in e2\<lparr>en_files := fst (cleanupMessageFile (en_config e2) env (msg_MessagePath msg) (en_files e2))\<rparr>)"

definition complete_message :: "('d, 'r) redis \<Rightarrow> denv \<Rightarrow> time \<Rightarrow> message \<Rightarrow> 'r engine \<Rightarrow> 'r engine" where
  "complete_message R env now msg e =
     e\<lparr>en_redis := fst (Complete R (en_queue e) False now (msg_ID msg) (en_redis e)),
       en_sent := en_sent e + 1,
       en_files := fst (cleanupMessageFile (en_config e) env (msg_MessagePath msg) (en_files e))\<rparr>"

definition attempt_outcome :: "denv \<Rightarrow> (derror, receipt) result \<Rightarrow> derror fn_outcome" where
  "attempt_outcome env res =
     (case ev_interrupt env of
        Some Deadline \<Rightarrow> CtxDeadline
      | Some (Cancelled t) \<Rightarrow> CtxCancelled t
      | Some (Panicked t) \<Rightarrow> FnPanicked t
      | None \<Rightarrow> FnReturned (case res of Inl err \<Rightarrow> Some err | Inr rc \<Rightarrow> None))"

definition deliverMessage ::
    "('d, 'r) redis \<Rightarrow> denv \<Rightarrow> time \<Rightarrow> time \<Rightarrow> message \<Rightarrow> 'r engine \<Rightarrow> 'r engine option" where
  "deliverMessage R env t0 t1 msg e =
     (case Get_cb (msg_Domain msg) t0 (en_breakers e) of
        (reg, None) \<Rightarrow> None
      | (reg, Some breaker) \<Rightarrow>
     (if cb_state breaker = StateOpen then
        Some (retry_message R t0 msg ''circuit breaker open for domain'' (e\<lparr>en_breakers := reg\<rparr>))
      else
     (let (cache, res) = attemptDelivery (en_config e) env t0 msg (en_files e) (en_mx e);
          (breaker', err) = Execute False False t0 t1 (attempt_outcome env res) breaker;
          runs = (snd (beforeRequest t0 breaker) = None);
          e1 = e\<lparr>en_breakers := store_cb (msg_Domain msg) breaker' reg,
                 en_mx := (if runs then cache else en_mx e),
                 en_log := (case res of
                              Inr rc \<Rightarrow> if runs then en_log e @ [(msg_ID msg, rc)] else en_log e
                            | Inl _ \<Rightarrow> en_log e)\<rparr>
      in Some (case err of
                 Some cberr \<Rightarrow>
                   (if isPermanentError (cb_to_derror cberr)
                    then fail_message R env t1 msg (cb_to_derror cberr) e1
                    else retry_message R t1 msg (er_text (cb_to_derror cberr)) e1)
               | None \<Rightarrow> complete_message R env t1 msg e1))))"

text \<open>One round of \<open>worker\<close> and one tick of \<open>recoveryWorker\<close>.\<close>

definition worker_round ::
    "('d, 'r) redis \<Rightarrow> denv \<Rightarrow> time \<Rightarrow> time \<Rightarrow> 'r engine \<Rightarrow> 'r engine option" where
  "worker_round R env t0 t1 e =
     (case Dequeue R (en_queue e) False t0 (en_redis e) of
        (r, Inl err) \<Rightarrow> Some (e\<lparr>en_redis := r\<rparr>)
      | (r, Inr None) \<Rightarrow> Some (e\<lparr>en_redis := r\<rparr>)
      | (r, Inr (Some msg)) \<Rightarrow> deliverMessage R env t0 t1 msg (e\<lparr>en_redis := r\<rparr>))"

definition recovery_tick :: "('d, 'r) redis \<Rightarrow> time \<Rightarrow> 'r engine \<Rightarrow> 'r engine" where
  "recovery_tick R now e =
     e\<lparr>en_redis := fst (RecoverStale R (en_queue e) now (10 * Minute) (en_redis e))\<rparr>"

record engine_stats =
  es_TotalSent :: int
  es_TotalFailed :: int
  es_TotalRetried :: int
  es_TotalBounced :: int
  es_QueueStats :: "queue_stats option"
  es_MXCacheStats :: "nat \<times> nat \<times> nat"

definition Stats_engine :: "('d, 'r) redis \<Rightarrow> time \<Rightarrow> 'r engine \<Rightarrow> 'r engine \<times> engine_stats" where
  "Stats_engine R now e =
     (case Stats_queue R (en_queue e) (en_redis e) of
        (r, qs) \<Rightarrow>
          (e\<lparr>en_redis := r\<rparr>,
           \<lparr>es_TotalSent = en_sent e, es_TotalFailed = en_failed e, es_TotalRetried = en_retried e,
            es_TotalBounced = en_bounced e,
            es_QueueStats = (case qs of Inl err \<Rightarrow> None | Inr s \<Rightarrow> Some s),
            es_MXCacheStats = CacheStats now (en_mx e)\<rparr>))"

text \<open>What the goroutines of a running engine do, one operation at a time: a submission, a round of a
  worker, a tick of the recovery.\<close>

inductive engine_step :: "('d, 'r) redis \<Rightarrow> 'r engine \<Rightarrow> 'r engine \<Rightarrow> bool" for R where
  submit: "engine_step R e (fst (Enqueue_engine R env now sender recipients path e))"
| work: "worker_round R env t0 t1 e = Some e' \<Longrightarrow> engine_step R e e'"
| recovery: "engine_step R e (recovery_tick R now e)"

section \<open>An open breaker\<close>

lemma Get_cb_lookup:
  "Get_cb key now r = (r', Some cb) \<Longrightarrow> map_of (breakers r') key = Some cb \<and> key \<noteq> [] \<and>
     (\<forall>k cb'. map_of (breakers r) k = Some cb' \<longrightarrow> map_of (breakers r') k = Some cb')"
  by (auto simp: Get_cb_def Get_fast_def Get_slow_def Let_def update_conv split: if_splits option.splits)

lemma Get_cb_known:
  "map_of (breakers r) key = Some cb \<Longrightarrow> key \<noteq> [] \<Longrightarrow> Get_cb key now r = (r, Some cb)"
  by (simp add: Get_cb_def Get_fast_def)

lemma message_breakers [simp]:
  "en_breakers (retry_message R now msg err e) = en_breakers e"
  "en_breakers (complete_message R env now msg e) = en_breakers e"
  by (simp_all add: retry_message_def complete_message_def)

definition same_frame :: "'r engine \<Rightarrow> 'r engine \<Rightarrow> bool" where
  "same_frame e e' \<longleftrightarrow> en_config e' = en_config e \<and> en_queue e' = en_queue e \<and> en_breakers e' = en_breakers e \<and>
     en_mx e' = en_mx e \<and> en_log e' = en_log e \<and> en_sent e' = en_sent e"

lemma sendBounce_frame:
  "sendBounce R env now msg err e = (e', x) \<Longrightarrow>
     same_frame e e' \<and> en_failed e' = en_failed e \<and> en_retried e' = en_retried e \<and> en_bounced e' = en_bounced e"
  by (auto simp: sendBounce_def Let_def same_frame_def split: sum.splits option.splits prod.splits)

lemma fail_bounce_frame:
  "same_frame e (fail_bounce R env now msg err e) \<and> en_failed (fail_bounce R env now msg err e) = en_failed e \<and>
   en_retried (fail_bounce R env now msg err e) = en_retried e \<and>
   en_bounced (fail_bounce R env now msg err e) \<in> {en_bounced e, en_bounced e + 1}"
proof -
  obtain e' x where x: "sendBounce R env now msg err e = (e', x)" by fastforce
  with sendBounce_frame [OF x] show ?thesis
    by (cases x) (simp_all add: fail_bounce_def same_frame_def)
qed

lemma fail_message_frame:
  "same_frame e (fail_message R env now msg err e) \<and> en_failed (fail_message R env now msg err e) = en_failed e + 1 \<and>
   en_retried (fail_message R env now msg err e) = en_retried e \<and>
   en_bounced (fail_message R env now msg err e) \<in> {en_bounced e, en_bounced e + 1}"
  using fail_bounce_frame [of "e\<lparr>en_redis := fst (Fail R (en_queue e) now (msg_ID msg) (er_text err) (en_redis e)),
                 en_failed := en_failed e + 1\<rparr>" R env now msg err]
  by (simp add: fail_message_def Let_def same_frame_def)

lemma fail_message_breakers [simp]: "en_breakers (fail_message R env now msg err e) = en_breakers e"
  using fail_message_frame [of e R env now msg err] by (simp add: same_frame_def)

text \<open>Each branch of \<open>deliverMessage\<close>, for its clients below.\<close>

lemma deliverMessage_cases:
  assumes "deliverMessage R env t0 t1 msg e = Some e'"
  obtains (deferred) reg cb where
      "Get_cb (msg_Domain msg) t0 (en_breakers e) = (reg, Some cb)" "cb_state cb = StateOpen"
      "e' = retry_message R t0 msg ''circuit breaker open for domain'' (e\<lparr>en_breakers := reg\<rparr>)"
  | (tried) reg cb cache res cb' err e1 where
      "Get_cb (msg_Domain msg) t0 (en_breakers e) = (reg, Some cb)" "cb_state cb \<noteq> StateOpen"
      "attemptDelivery (en_config e) env t0 msg (en_files e) (en_mx e) = (cache, res)"
      "Execute False False t0 t1 (attempt_outcome env res) cb = (cb', err)"
      "en_config e1 = en_config e" "en_queue e1 = en_queue e" "en_redis e1 = en_redis e"
      "en_files e1 = en_files e" "en_sent e1 = en_sent e" "en_failed e1 = en_failed e"
      "en_retried e1 = en_retried e" "en_bounced e1 = en_bounced e"
      "en_breakers e1 = store_cb (msg_Domain msg) cb' reg"
      "en_log e1 = (case res of Inr rc \<Rightarrow> if snd (beforeRequest t0 cb) = None then en_log e @ [(msg_ID msg, rc)] else en_log e
                    | Inl _ \<Rightarrow> en_log e)"
      "e' = (case err of
               Some cberr \<Rightarrow>
                 (if isPermanentError (cb_to_derror cberr) then fail_message R env t1 msg (cb_to_derror cberr) e1
                  else retry_message R t1 msg (er_text (cb_to_derror cberr)) e1)
             | None \<Rightarrow> complete_message R env t1 msg e1)"
proof -
  obtain reg c where g: "Get_cb (msg_Domain msg) t0 (en_breakers e) = (reg, c)" by fastforce
  obtain cache res where a: "attemptDelivery (en_config e) env t0 msg (en_files e) (en_mx e) = (cache, res)"
    by fastforce
  show thesis
  proof (cases c)
    case None
    with assms g show ?thesis by (simp add: deliverMessage_def)
  next
    case (Some cb)
    obtain cb' err where x: "Execute False False t0 t1 (attempt_outcome env res) cb = (cb', err)" by fastforce
    show ?thesis
    proof (cases "cb_state cb = StateOpen")
      case True
      with assms g Some show ?thesis by (intro deferred [of reg cb]) (simp_all add: deliverMessage_def)
    next
      case False
      let ?runs = "snd (beforeRequest t0 cb) = None"
      let ?e1 = "e\<lparr>en_breakers := store_cb (msg_Domain msg) cb' reg, en_mx := (if ?runs then cache else en_mx e),
        en_log := (case res of Inr rc \<Rightarrow> if ?runs then en_log e @ [(msg_ID msg, rc)] else en_log e
                   | Inl _ \<Rightarrow> en_log e)\<rparr>"
      show ?thesis
        by (rule tried [of reg cb cache res cb' err ?e1])
          (use assms g Some False a x in \<open>simp_all add: deliverMessage_def Let_def\<close>)
    qed
  qed
qed

lemma store_cb_other: "k \<noteq> key \<Longrightarrow> map_of (breakers (store_cb key cb r)) k = map_of (breakers r) k"
  by (simp add: store_cb_def update_conv)

definition breaker_open :: "string \<Rightarrow> derror circuit_breaker \<Rightarrow> 'r engine \<Rightarrow> bool" where
  "breaker_open d cb e \<longleftrightarrow> d \<noteq> [] \<and> cb_state cb = StateOpen \<and> map_of (breakers (en_breakers e)) d = Some cb"

lemma deliverMessage_breaker_open:
  assumes dm: "deliverMessage R env t0 t1 msg e = Some e'" and op: "breaker_open d cb e"
  shows "breaker_open d cb e'"
  using dm
proof (cases rule: deliverMessage_cases)
  case (deferred reg cb1)
  with op Get_cb_lookup [OF deferred(1)] show ?thesis by (simp add: breaker_open_def)
next
  case (tried reg cb1 cache res cb' err e1)
  note g = Get_cb_lookup [OF tried(1)]
  have "d \<noteq> msg_Domain msg" using op g tried(2) by (auto simp: breaker_open_def)
  moreover have "en_breakers e' = en_breakers e1" using tried(15) by (simp split: option.split)
  ultimately show ?thesis using op g tried(13) by (simp add: breaker_open_def store_cb_other)
qed

lemma Enqueue_engine_frame: "same_frame e (fst (Enqueue_engine R env now sender rs path e)) \<and>
  en_files (fst (Enqueue_engine R env now sender rs path e)) = en_files e"
  by (simp add: Enqueue_engine_def Let_def same_frame_def split: sum.split prod.split)

interpretation brk: step_invariant "breaker_open d cb" "engine_step R" "breaker_open d cb" for d cb R
proof
  fix e e'
  assume "engine_step R e e'" and op: "breaker_open d cb e"
  then show "breaker_open d cb e'"
  proof cases
    case (submit env now sender recipients path)
    then show ?thesis using op Enqueue_engine_frame [of e R env now sender recipients path]
      by (simp add: breaker_open_def same_frame_def)
  next
    case (work env t0 t1)
    obtain r x where q: "Dequeue R (en_queue e) False t0 (en_redis e) = (r, x)" by fastforce
    have op': "breaker_open d cb (e\<lparr>en_redis := r\<rparr>)" using op by (simp add: breaker_open_def)
    with work q deliverMessage_breaker_open show ?thesis
      by (auto simp: worker_round_def split: sum.splits option.splits)
  next
    case (recovery now)
    then show ?thesis using op by (simp add: breaker_open_def recovery_tick_def)
  qed
qed

text \<open>C22. Once the breaker of a domain is open it never leaves that state, whatever submissions, worker
  rounds and recoveries follow and however much time passes: \<^verbatim>\<open>deliverMessage\<close> looks at the state before it
  calls \<open>Execute\<close>, so the half-open probe of the breaker is never reached, and each message of the domain
  is deferred without an attempt until its retries are used up.\<close>

theorem open_breaker_never_recovers:
  assumes "d \<noteq> []" "cb_state cb = StateOpen" "map_of (breakers (en_breakers e)) d = Some cb"
    and steps: "(engine_step R)\<^sup>*\<^sup>* e e'" and msg: "msg_Domain msg = d"
  shows "map_of (breakers (en_breakers e')) d = Some cb \<and>
    deliverMessage R env t0 t1 msg e' =
      Some (retry_message R t0 msg ''circuit breaker open for domain'' e')"
proof -
  have "breaker_open d cb e'" using brk.inv_steps [OF steps, of d cb] assms(1-3) by (simp add: breaker_open_def)
  then show ?thesis
    by (simp add: breaker_open_def deliverMessage_def msg Get_cb_known)
qed

section \<open>Submission\<close>

text \<open>What the Go runtime and library promise of their unspecified choices: \<open>sort.Slice\<close> returns a sorted
  permutation, a range over a map visits each entry once.\<close>

locale go_choices =
  fixes env :: denv
  assumes sort_perm: "mset (ev_sort env rs) = mset rs"
    and sort_sorted: "sorted (map mx_Preference (ev_sort env rs))"
    and range_perm: "mset (ev_range env gs) = mset gs"
begin

lemma set_sort: "set (ev_sort env rs) = set rs"
  using sort_perm [THEN mset_eq_setD] .

lemma set_range: "set (ev_range env gs) = set gs"
  using range_perm [THEN mset_eq_setD] .

lemma range_recipients: "mset (concat (map snd (ev_range env gs))) = mset (concat (map snd gs))"
proof -
  have "mset (concat (map snd xs)) = (\<Sum>x\<in>#mset xs. mset (snd x))" for xs :: "(string \<times> string list) list"
    by (induction xs) auto
  then show ?thesis by (simp only: range_perm)
qed

lemma range_domains: "distinct (map fst (ev_range env gs)) = distinct (map fst gs)"
  using range_perm [of gs] by (metis mset_eq_imp_distinct_iff mset_map)

end

definition groups_ok :: "(string \<times> string list) list \<Rightarrow> bool" where
  "groups_ok gs \<longleftrightarrow> distinct (map fst gs) \<and> (\<forall>(d, rs)\<in>set gs. d \<noteq> [] \<and> (\<forall>r\<in>set rs. extractDomain r = d))"

lemma concat_update:
  "distinct (map fst gs) \<Longrightarrow> mset (concat (map snd (AList.update d ((case map_of gs d of Some rs \<Rightarrow> rs | None \<Rightarrow> []) @ [x]) gs)))
     = add_mset x (mset (concat (map snd gs)))"
  by (induction gs) (auto split: option.split)

lemma groups_ok_update:
  assumes "groups_ok gs" "extractDomain x = d" "d \<noteq> []"
  shows "groups_ok (AList.update d ((case map_of gs d of Some rs \<Rightarrow> rs | None \<Rightarrow> []) @ [x]) gs)"
proof -
  have "\<forall>(k, rs)\<in>set (AList.update d v gs). (k, rs) \<in> set gs \<or> (k, rs) = (d, v)" for v
    by (induction gs) auto
  with assms show ?thesis
    by (fastforce simp: groups_ok_def distinct_update split: option.splits dest: map_of_SomeD)
qed

lemma group_by_domain_spec:
  "groups_ok gs \<Longrightarrow> groups_ok (group_by_domain rs gs) \<and>
     mset (concat (map snd (group_by_domain rs gs))) =
       mset (concat (map snd gs)) + mset [r \<leftarrow> rs. extractDomain r \<noteq> []]"
proof (induction rs gs rule: group_by_domain.induct)
  case (2 r rs gs)
  then show ?case
    using groups_ok_update [OF 2(3) refl] concat_update [of gs "extractDomain r" r]
    by (auto simp: Let_def groups_ok_def)
qed simp

lemma prepare_msg_fields [simp]:
  "msg_Domain (prepare_msg q rnd now m) = msg_Domain m" "msg_Recipients (prepare_msg q rnd now m) = msg_Recipients m"
  "msg_Sender (prepare_msg q rnd now m) = msg_Sender m" "msg_Size (prepare_msg q rnd now m) = msg_Size m"
  "msg_MessagePath (prepare_msg q rnd now m) = msg_MessagePath m"
  by (simp_all add: prepare_msg_def Let_def)

lemma enqueue_groups_ok:
  assumes "redis_server R" and "enqueue_groups R q env now sender path sz i gs r = (r', Inr ms)"
  shows "map (\<lambda>m. (msg_Domain m, msg_Recipients m)) ms = gs \<and>
    (\<forall>m\<in>set ms. msg_Sender m = sender \<and> msg_MessagePath m = path \<and> msg_Size m = sz \<and>
       msg_ID m \<in> tracked q (rd_view R r')) \<and> tracked q (rd_view R r) \<subseteq> tracked q (rd_view R r')"
  using assms(2)
proof (induction gs arbitrary: i r ms)
  case (Cons g gs)
  obtain d rs where g: "g = (d, rs)" by fastforce
  let ?msg = "new_message\<lparr>msg_Sender := sender, msg_Recipients := rs, msg_MessagePath := path,
    msg_Size := sz, msg_Domain := d\<rparr>"
  obtain r1 x where x: "Enqueue R q False (ev_rnd env i) now (Some ?msg) r = (r1, x)" by fastforce
  obtain r2 y where y: "enqueue_groups R q env now sender path sz (Suc i) gs r1 = (r2, y)" by fastforce
  from Cons.prems x y g obtain m ms' where xy: "x = Inr m" "y = Inr ms'" "ms = m # ms'" "r2 = r'"
    by (auto simp: Let_def split: sum.splits)
  note IH = Cons.IH [OF y [unfolded xy]]
  from Enqueue_view [OF assms(1) x [unfolded xy]] have "msg_ID m \<in> tracked q (rd_view R r1)"
    by (auto simp: tracked_def enqueued_view_def)
  moreover have "tracked q (rd_view R r) \<subseteq> tracked q (rd_view R r1)"
    using redis_server.Enqueue_tracked [OF assms(1), of q r False "ev_rnd env i" now "Some ?msg"] x by simp
  moreover have m: "m = prepare_msg q (ev_rnd env i) now ?msg"
    using x unfolding xy(1) by (rule Enqueue_OkD) simp
  have "msg_Domain m = d" "msg_Recipients m = rs" "msg_Sender m = sender" "msg_MessagePath m = path" "msg_Size m = sz"
    by (simp_all add: m)
  ultimately show ?case using IH unfolding g xy(3) by simp (meson order_trans subsetD)
qed simp

lemma Enqueue_engine_spec:
  assumes "redis_server R" and "go_choices env"
    and "Enqueue_engine R env now sender recipients path e = (e', Inr ms)"
  shows "mset (concat (map msg_Recipients ms)) = mset [r \<leftarrow> recipients. extractDomain r \<noteq> []] \<and>
    distinct (map msg_Domain ms) \<and>
    list_all (\<lambda>m. list_all (\<lambda>r. extractDomain r = msg_Domain m) (msg_Recipients m) \<and> msg_Domain m \<noteq> [] \<and>
       msg_Sender m = sender \<and> msg_MessagePath m = path \<and> msg_Size m \<le> dc_MaxMessageSize (en_config e) \<and>
       msg_ID m \<in> tracked (en_queue e) (rd_view R (en_redis e'))) ms"
proof -
  note set_range = go_choices.set_range [OF assms(2)] and range_recipients = go_choices.range_recipients [OF assms(2)]
    and range_domains = go_choices.range_domains [OF assms(2)]
  let ?gs = "ev_range env (group_by_domain recipients [])"
  from assms(3) obtain sz r where q: "enqueue_groups R (en_queue e) env now sender path sz 0 ?gs (en_redis e) = (r, Inr ms)"
    and sz: "sz \<le> dc_MaxMessageSize (en_config e)" and r: "en_redis e' = r"
    by (auto simp: Enqueue_engine_def Let_def split: sum.splits if_splits prod.splits)
  note ok = enqueue_groups_ok [OF assms(1) q]
  have gs: "map (\<lambda>m. (msg_Domain m, msg_Recipients m)) ms = ?gs" using ok by blast
  have gr: "groups_ok (group_by_domain recipients [])"
    "mset (concat (map snd (group_by_domain recipients []))) = mset [r \<leftarrow> recipients. extractDomain r \<noteq> []]"
    using group_by_domain_spec [of "[]" recipients] by (simp_all add: groups_ok_def)
  have rc: "map msg_Recipients ms = map snd ?gs" and dom: "map msg_Domain ms = map fst ?gs"
    unfolding gs [symmetric] by simp_all
  have mem: "(msg_Domain m, msg_Recipients m) \<in> set (group_by_domain recipients [])" if "m \<in> set ms" for m
    using that gs set_range by (metis (mono_tags, lifting) image_eqI list.set_map)
  have grp: "msg_Domain m \<noteq> [] \<and> list_all (\<lambda>r. extractDomain r = msg_Domain m) (msg_Recipients m)" if "m \<in> set ms" for m
    using gr(1) mem [OF that] by (auto simp: groups_ok_def list_all_iff)
  show ?thesis
    using gr(1) grp ok sz r by (simp add: rc dom range_recipients range_domains gr(2) groups_ok_def list_all_iff)
qed

text \<open>When \<open>Enqueue\<close> of the engine succeeds, every recipient with a domain is in exactly one queue message
  (as often as it was given), the message of its lower-cased domain; the messages of two domains are
  different ones; each carries the sender and the path it was called with, and each is in the queue. All
  messages share that one path.\<close>

theorem Enqueue_engine_covers:
  assumes "redis_server R" and "go_choices env"
    and "Enqueue_engine R env now sender recipients path e = (e', Inr ms)"
  shows "mset (concat (map msg_Recipients ms)) = mset [r \<leftarrow> recipients. extractDomain r \<noteq> []] \<and>
    distinct (map msg_Domain ms) \<and>
    list_all (\<lambda>m. list_all (\<lambda>r. extractDomain r = msg_Domain m) (msg_Recipients m) \<and> msg_Domain m \<noteq> [] \<and>
       msg_Sender m = sender \<and> msg_MessagePath m = path \<and> msg_Size m \<le> dc_MaxMessageSize (en_config e) \<and>
       msg_ID m \<in> tracked (en_queue e) (rd_view R (en_redis e'))) ms"
  by (rule Enqueue_engine_spec [OF assms])

section \<open>The message file\<close>

lemma cleanup_spec:
  "map_of (fst (cleanupMessageFile cfg env path fs)) p =
     (if p = path \<and> path \<noteq> [] \<and> (dc_QueuePath cfg = [] \<or> HasPrefix path (dc_QueuePath cfg)) \<and>
         ev_removeErr env path = None then None else map_of fs p)"
  by (auto simp: cleanupMessageFile_def os_Remove_def delete_conv' map_upd_Some_unfold split: option.split)

text \<open>The name that \<open>os.CreateTemp\<close> returns is new and lies in the directory given.\<close>

definition temp_ok :: "denv \<Rightarrow> 'r engine \<Rightarrow> bool" where
  "temp_ok env e = (case ev_createTemp env of
     Inl err \<Rightarrow> True
   | Inr name \<Rightarrow> map_of (en_files e) name = None \<and> HasPrefix name (dc_QueuePath (en_config e)))"

lemma sendBounce_files:
  assumes "sendBounce R env now msg err e = (e', x)" "temp_ok env e"
  shows "map_of (en_files e') p = map_of (en_files e) p \<or>
    (map_of (en_files e) p = None \<and> HasPrefix p (dc_QueuePath (en_config e)))"
  using assms
  by (auto simp: sendBounce_def Let_def temp_ok_def os_Remove_def update_conv delete_conv
      split: sum.splits option.splits prod.splits if_splits)

lemma fail_message_files:
  assumes "temp_ok env e" "map_of (en_files e) p = Some d"
  shows "map_of (en_files (fail_message R env now msg err e)) p = Some d \<or>
    p = msg_MessagePath msg \<and> (dc_QueuePath (en_config e) = [] \<or> HasPrefix p (dc_QueuePath (en_config e)))"
proof -
  let ?e1 = "e\<lparr>en_redis := fst (Fail R (en_queue e) now (msg_ID msg) (er_text err) (en_redis e)),
                 en_failed := en_failed e + 1\<rparr>"
  let ?e2 = "fail_bounce R env now msg err ?e1"
  obtain e' x where x: "sendBounce R env now msg err ?e1 = (e', x)" by fastforce
  have "temp_ok env ?e1" using assms(1) by (simp add: temp_ok_def split: sum.splits)
  from sendBounce_files [OF x this, of p] assms(2) have "map_of (en_files e') p = Some d" by simp
  with x assms(2) have "map_of (en_files ?e2) p = Some d"
    by (simp add: fail_bounce_def split: sum.split)
  moreover have "en_config ?e2 = en_config e"
    using fail_bounce_frame [of ?e1 R env now msg err] by (simp add: same_frame_def)
  ultimately show ?thesis by (simp add: fail_message_def Let_def cleanup_spec)
qed


section \<open>What counts as sent\<close>

lemma rcpt_loop_accepted:
  "rcpt_loop d i rs acc le = (acc', le') \<Longrightarrow> \<exists>ys. acc' = acc @ ys \<and> subseq ys rs"
proof (induction rs arbitrary: i acc le)
  case (Cons r rs)
  show ?case
  proof (cases "dg_rcpt d i r")
    case None
    with Cons.prems have "rcpt_loop d (Suc i) rs (acc @ [r]) le = (acc', le')" by simp
    from Cons.IH [OF this] show ?thesis by force
  next
    case (Some e)
    with Cons.prems have "rcpt_loop d (Suc i) rs acc (Some e) = (acc', le')" by simp
    from Cons.IH [OF this] show ?thesis by auto
  qed
qed simp

lemma send_mail_Inr:
  "send_mail d msg data tls = Inr rc \<Longrightarrow> \<exists>rs. rc = (tls, rs, data) \<and> rs \<noteq> [] \<and> subseq rs (msg_Recipients msg)"
  using rcpt_loop_accepted [of d 0 "msg_Recipients msg" "[]" None]
  by (auto simp: send_mail_def split: option.splits prod.splits if_splits)

lemma deliverToHost_Inr:
  "deliverToHost cfg env addr msg data = Inr rc \<Longrightarrow>
     \<exists>tls rs. rc = (tls, rs, data) \<and> rs \<noteq> [] \<and> subseq rs (msg_Recipients msg) \<and> (dc_RequireTLS cfg \<longrightarrow> tls)"
  by (auto simp: deliverToHost_def deliverToHostWithTLS_def deliver_plain_def Let_def dest!: send_mail_Inr
      split: option.splits if_splits)

lemma try_hosts_Inr:
  "try_hosts cfg env msg data addrs le = Inr rc \<Longrightarrow>
     \<exists>tls rs. rc = (tls, rs, data) \<and> rs \<noteq> [] \<and> subseq rs (msg_Recipients msg) \<and> (dc_RequireTLS cfg \<longrightarrow> tls)"
  by (induction addrs arbitrary: le)
    (auto dest!: deliverToHost_Inr split: sum.splits if_splits)

lemma attemptDelivery_Inr:
  assumes "attemptDelivery cfg env now msg fs cache = (cache', Inr rc)"
  shows "\<exists>tls rs data. rc = (tls, rs, data) \<and> rs \<noteq> [] \<and> subseq rs (msg_Recipients msg) \<and>
    readAndSignMessage env fs msg = Inr data \<and> (dc_RequireTLS cfg \<and> dc_RelayHost cfg = [] \<longrightarrow> tls)"
proof -
  obtain x where x: "readAndSignMessage env fs msg = x" by simp
  show ?thesis
  proof (cases x)
    case (Inl err)
    with assms x show ?thesis by (simp add: attemptDelivery_def)
  next
    case (Inr data)
    show ?thesis
    proof (cases "dc_RelayHost cfg = []")
      case True
      with assms x Inr obtain addrs where "try_hosts cfg env msg data addrs ''<nil>'' = Inr rc"
        by (auto simp: attemptDelivery_def split: prod.splits sum.splits)
      from try_hosts_Inr [OF this] x Inr show ?thesis by blast
    next
      case False
      with assms x Inr have "deliverToRelay cfg env msg data = Inr rc" by (simp add: attemptDelivery_def)
      then show ?thesis using False x Inr
        by (auto simp: deliverToRelay_def Let_def dest!: send_mail_Inr split: option.splits prod.splits)
    qed
  qed
qed

lemma Execute_None:
  "Execute False False t0 t1 out cb = (cb', None) \<Longrightarrow> out = FnReturned None \<and> snd (beforeRequest t0 cb) = None"
  by (cases out rule: outcome_err.cases) (auto simp: Execute_def Let_def split: prod.splits option.splits)

lemma sent_accepted:
  assumes "deliverMessage R env t0 t1 msg e = Some e'" and sent: "en_sent e' \<noteq> en_sent e"
  shows "\<exists>tls rs data. en_log e' = en_log e @ [(msg_ID msg, tls, rs, data)] \<and> rs \<noteq> [] \<and>
    subseq rs (msg_Recipients msg) \<and> readAndSignMessage env (en_files e) msg = Inr data \<and>
    (dc_RequireTLS (en_config e) \<and> dc_RelayHost (en_config e) = [] \<longrightarrow> tls) \<and>
    en_sent e' = en_sent e + 1 \<and> en_failed e' = en_failed e \<and> en_retried e' = en_retried e"
  using assms(1)
proof (cases rule: deliverMessage_cases)
  case deferred
  with sent show ?thesis by (simp add: retry_message_def)
next
  case (tried reg cb cache res cb' err e1)
  have err: "err = None"
    using sent tried fail_message_frame [of e1 R env t1 msg "cb_to_derror (the err)"]
    by (cases err) (auto simp: retry_message_def same_frame_def split: if_splits)
  note x = Execute_None [OF tried(4) [unfolded err]]
  then obtain rc where res: "res = Inr rc"
    by (auto simp: attempt_outcome_def split: option.splits interrupt.splits sum.splits)
  from attemptDelivery_Inr [OF tried(3) [unfolded res]] tried err res x show ?thesis
    by (auto simp: complete_message_def)
qed

text \<open>C19. A message is counted as sent only when a server took its data for at least one of its recipients:
  the data are the message file, signed when the sender's domain has a signer that works, and on a direct
  delivery with \<open>RequireTLS\<close> the transfer was over TLS.\<close>

theorem sent_means_accepted:
  assumes "deliverMessage R env t0 t1 msg e = Some e'" and sent: "en_sent e' \<noteq> en_sent e"
  shows "\<exists>tls rs data. en_log e' = en_log e @ [(msg_ID msg, tls, rs, data)] \<and> rs \<noteq> [] \<and>
    subseq rs (msg_Recipients msg) \<and> readAndSignMessage env (en_files e) msg = Inr data \<and>
    (dc_RequireTLS (en_config e) \<and> dc_RelayHost (en_config e) = [] \<longrightarrow> tls) \<and>
    en_sent e' = en_sent e + 1 \<and> en_failed e' = en_failed e \<and> en_retried e' = en_retried e"
  using sent_accepted [OF assms] .

text \<open>The message file is shared by the queue messages of all domains of a submission, and the first
  success removes it: after a message was sent, no later attempt on a message with the same path gets any
  data to a server, for as long as the file does not come back.\<close>

theorem shared_file_lost:
  assumes "deliverMessage R env t0 t1 m1 e = Some e1" and "en_sent e1 \<noteq> en_sent e"
    and "ev_removeErr env (msg_MessagePath m1) = None" and "msg_MessagePath m1 \<noteq> []"
    and "HasPrefix (msg_MessagePath m1) (dc_QueuePath (en_config e))"
    and "msg_MessagePath m2 = msg_MessagePath m1" and m2: "deliverMessage R env' t2 t3 m2 e1 = Some e2"
  shows "en_log e2 = en_log e1 \<and> en_sent e2 = en_sent e1"
proof -
  have "map_of (en_files e1) (msg_MessagePath m1) = None"
    using assms(1)
  proof (cases rule: deliverMessage_cases)
    case deferred
    with assms(2) show ?thesis by (simp add: retry_message_def)
  next
    case (tried reg cb cache res cb' err e')
    have "err = None"
      using assms(2) tried fail_message_frame [of e' R env t1 m1 "cb_to_derror (the err)"]
      by (cases err) (auto simp: retry_message_def same_frame_def split: if_splits)
    with tried assms(3-5) show ?thesis by (simp add: complete_message_def cleanup_spec)
  qed
  then have no: "readAndSignMessage env' (en_files e1) m2 \<noteq> Inr data" for data
    by (simp add: readAndSignMessage_def os_ReadFile_def assms(6) split: option.split)
  have sent: "en_sent e2 = en_sent e1" using sent_accepted [OF m2] no by blast
  from m2 show ?thesis
  proof (cases rule: deliverMessage_cases)
    case deferred
    with sent show ?thesis by (simp add: retry_message_def)
  next
    case (tried reg cb cache res cb' err e')
    have "res \<noteq> Inr rc" for rc using attemptDelivery_Inr tried(3) no by blast
    then have "en_log e' = en_log e1" using tried(14) by (simp split: sum.splits)
    moreover have "en_log e2 = en_log e'"
      using tried(15) fail_message_frame [of e' R env' t3 m2 "cb_to_derror (the err)"]
      by (simp add: retry_message_def complete_message_def same_frame_def split: option.splits)
    ultimately show ?thesis using sent by simp
  qed
qed

section \<open>Refused recipients and error classes\<close>

lemma rcpt_loop_mono: "rcpt_loop d i rs acc le = (acc', le') \<Longrightarrow> acc \<noteq> [] \<Longrightarrow> acc' \<noteq> []"
  using rcpt_loop_accepted by fastforce

text \<open>A message that a server takes for some of its recipients is complete for all of them: the
  recipients refused, for good or for now, are neither tried again nor named in a bounce.\<close>

theorem refused_recipients_dropped:
  assumes "deliverMessage R env t0 t1 msg e = Some e'" and "en_sent e' \<noteq> en_sent e"
  shows "en_redis e' = fst (Complete R (en_queue e) False t1 (msg_ID msg) (en_redis e)) \<and> en_bounced e' = en_bounced e"
  using assms(1)
proof (cases rule: deliverMessage_cases)
  case deferred
  with assms(2) show ?thesis by (simp add: retry_message_def)
next
  case (tried reg cb cache res cb' err e1)
  have "err = None"
    using assms(2) tried fail_message_frame [of e1 R env t1 msg "cb_to_derror (the err)"]
    by (cases err) (auto simp: retry_message_def same_frame_def split: if_splits)
  with tried show ?thesis by (simp add: complete_message_def)
qed

text \<open>A reply with a 5 after a blank is taken for a permanent failure, whatever its code is.\<close>

theorem classifyError_blank5: "Contains t '' 5'' \<Longrightarrow> isPermanentError (classifyError t)"
  by (simp add: isPermanentError_def classifyError_def sentinel_with_def)

lemma greylisted_is_permanent:
  "HasPrefix ''451 4.7.1 Greylisted, please try again in 5 minutes'' ''451'' \<and>
   isPermanentError (classifyError ''451 4.7.1 Greylisted, please try again in 5 minutes'')"
  by code_simp

section \<open>Bounces do not loop\<close>

lemma sendBounce_Inr:
  assumes "redis_server R" and "sendBounce R env now msg err e = (e', Inr m)"
  shows "msg_Sender m = [] \<and> msg_Recipients m = [msg_Sender msg] \<and> msg_Domain m = extractDomain (msg_Sender msg) \<and>
    msg_ID m \<in> tracked (en_queue e) (rd_view R (en_redis e')) \<and>
    map_of (en_files e') (msg_MessagePath m) = Some (Generate (dc_Hostname (en_config e)) env now (en_files e) msg err)"
proof -
  let ?d = "Generate (dc_Hostname (en_config e)) env now (en_files e) msg err"
  from assms(2) obtain path r where path: "ev_createTemp env = Inr path"
    and q: "Enqueue R (en_queue e) False (ev_rnd env 0) now (Some (new_message\<lparr>msg_Sender := [],
      msg_Recipients := [msg_Sender msg], msg_MessagePath := path, msg_Size := int (length ?d),
      msg_Domain := extractDomain (msg_Sender msg)\<rparr>)) (en_redis e) = (r, Inr m)"
    and e': "en_redis e' = r" "en_files e' = AList.update path ?d (en_files e)"
    by (auto simp: sendBounce_def Let_def split: sum.splits option.splits prod.splits)
  from Enqueue_view [OF assms(1) q] have "msg_ID m \<in> tracked (en_queue e) (rd_view R r)"
    by (auto simp: tracked_def enqueued_view_def)
  moreover from q have "msg_Sender m = [] \<and> msg_Recipients m = [msg_Sender msg] \<and>
    msg_Domain m = extractDomain (msg_Sender msg) \<and> msg_MessagePath m = path"
    by (rule Enqueue_OkD) clarsimp
  ultimately show ?thesis using e' by (simp add: update_conv)
qed

lemma fail_message_null_sender:
  "\<not> ShouldBounce (msg_Sender msg) \<Longrightarrow> en_bounced (fail_message R env now msg err e) = en_bounced e \<and>
     en_redis (fail_message R env now msg err e) = fst (Fail R (en_queue e) now (msg_ID msg) (er_text err) (en_redis e))"
  by (simp add: fail_message_def fail_bounce_def Let_def)

text \<open>C21. A bounce goes to the sender of the failed message, from the null sender, with the notification in its
  file, and is in the queue; and no delivery attempt of such a bounce, whatever its outcome, submits
  another bounce: all it does to the queue is one \<open>Complete\<close>, \<open>Retry\<close> or \<open>Fail\<close> of its own ID.\<close>

theorem bounce_never_bounces:
  assumes "redis_server R" and "sendBounce R env now msg err e = (e', Inr b)"
    and "deliverMessage R env' t0 t1 b' x = Some x'" and "msg_Sender b' = msg_Sender b"
  shows "msg_Sender b = [] \<and> msg_Recipients b = [msg_Sender msg] \<and>
    msg_ID b \<in> tracked (en_queue e) (rd_view R (en_redis e')) \<and>
    map_of (en_files e') (msg_MessagePath b) = Some (Generate (dc_Hostname (en_config e)) env now (en_files e) msg err) \<and>
    en_bounced x' = en_bounced x \<and>
    (\<exists>t w. en_redis x' \<in> {fst (Complete R (en_queue x) False t (msg_ID b') (en_redis x)),
       fst (Retry R (en_queue x) t (msg_ID b') w (en_redis x)), fst (Fail R (en_queue x) t (msg_ID b') w (en_redis x))})"
proof -
  note b = sendBounce_Inr [OF assms(1,2)]
  have nb: "\<not> ShouldBounce (msg_Sender b')" using b assms(4) by (simp add: ShouldBounce_def)
  from assms(3) have "en_bounced x' = en_bounced x \<and>
    (\<exists>t w. en_redis x' \<in> {fst (Complete R (en_queue x) False t (msg_ID b') (en_redis x)),
       fst (Retry R (en_queue x) t (msg_ID b') w (en_redis x)), fst (Fail R (en_queue x) t (msg_ID b') w (en_redis x))})"
  proof (cases rule: deliverMessage_cases)
    case deferred
    then show ?thesis by (auto simp: retry_message_def)
  next
    case (tried reg cb cache res cb' err' e1)
    then show ?thesis
      by (auto simp: retry_message_def complete_message_def fail_message_null_sender [OF nb] split: option.split)
  qed
  with b show ?thesis by blast
qed

text \<open>A message whose domain is empty takes the process down: \<open>Get\<close> returns no breaker for the empty key and
  \<open>State\<close> is called on it. Such a message is made when a message from a sender without an at sign bounces.\<close>

theorem empty_domain_panics:
  assumes "redis_server R" and "sendBounce R env now msg err e = (e', Inr b)"
    and "CHR ''@'' \<notin> set (msg_Sender msg)"
  shows "msg_Domain b = [] \<and> deliverMessage R env' t0 t1 b x = None"
proof -
  have "SplitN2 s c = [s]" if "c \<notin> set s" for s c
    using that by (induction s c rule: SplitN2.induct) auto
  then have "msg_Domain b = []" using sendBounce_Inr [OF assms(1,2)] assms(3) by (simp add: extractDomain_def)
  then show ?thesis by (simp add: deliverMessage_def Get_cb_def)
qed

section \<open>The order of the mail exchangers\<close>

definition cache_ok :: "mx_cache \<Rightarrow> bool" where
  "cache_ok cache \<longleftrightarrow> (\<forall>(d, rs, t)\<in>set cache. rs \<noteq> [] \<and> sorted (map mx_Preference rs))"

lemma cache_ok_map_of: "cache_ok cache \<Longrightarrow> map_of cache d = Some (rs, t) \<Longrightarrow> rs \<noteq> [] \<and> sorted (map mx_Preference rs)"
  by (auto simp: cache_ok_def dest!: map_of_SomeD)

lemma cache_ok_update:
  assumes "cache_ok cache" "rs \<noteq> []" "sorted (map mx_Preference rs)"
  shows "cache_ok (AList.update d (rs, t) cache)"
proof -
  have "x \<in> set (AList.update d v cache) \<Longrightarrow> x \<in> set cache \<or> x = (d, v)" for x v
    by (induction cache) (auto split: if_splits)
  with assms show ?thesis unfolding cache_ok_def by fast
qed

lemma cache_ok_delete: "cache_ok cache \<Longrightarrow> cache_ok (AList.delete d cache)"
  by (auto simp: cache_ok_def AList.delete_eq)

context go_choices
begin

lemma lookupMX_sorted: "lookupMX env d = Inr rs \<Longrightarrow> rs \<noteq> [] \<and> sorted (map mx_Preference rs)"
  by (auto simp: lookupMX_def lookupAFallback_def sort_sorted set_sort set_empty [symmetric] simp del: set_empty
      split: dns_result.splits option.splits if_splits)

lemma lookup_miss_sorted:
  assumes "cache_ok cache" and "lookup_miss env now d cache = (cache', res)"
  shows "cache_ok cache' \<and> (\<forall>rs. res = Inr rs \<longrightarrow> rs \<noteq> [] \<and> sorted (map mx_Preference rs))"
proof (cases "lookupMX env d")
  case (Inl e)
  with assms show ?thesis by (auto simp: lookup_miss_def)
next
  case (Inr rs)
  let ?rs = "map (\<lambda>r. r\<lparr>mx_ExpiresAt := Some (now + mx_ttl)\<rparr>) rs"
  have "?rs \<noteq> []" "sorted (map mx_Preference ?rs)" using lookupMX_sorted [OF Inr] by (simp_all add: comp_def)
  with assms Inr show ?thesis by (auto simp: lookup_miss_def Let_def intro: cache_ok_update)
qed

lemma Lookup_sorted:
  assumes ok: "cache_ok cache" and lk: "Lookup env now d cache = (cache', res)"
  shows "cache_ok cache' \<and> (\<forall>rs. res = Inr rs \<longrightarrow> rs \<noteq> [] \<and> sorted (map mx_Preference rs))"
proof (cases "map_of cache (ToLower (TrimSpace d))")
  case None
  with lk ok lookup_miss_sorted [OF ok] show ?thesis
    by (auto simp: Lookup_def Let_def split: if_splits)
next
  case (Some x)
  obtain rs t where x: "x = (rs, t)" by fastforce
  show ?thesis
    using lk ok Some x cache_ok_map_of [OF ok] lookup_miss_sorted [OF cache_ok_delete [OF ok]]
    by (auto simp: Lookup_def Let_def split: if_splits)
qed

end

lemma resolve_hosts_sorted:
  "sorted (map mx_Preference rs) \<Longrightarrow> sorted (map mh_Preference (resolve_hosts env rs))"
proof (induction rs)
  case (Cons r rs)
  have "set (map mh_Preference (resolve_hosts env rs)) \<subseteq> set (map mx_Preference rs)"
    by (induction rs) (auto simp: Let_def split: option.split)
  with Cons show ?case by (auto simp: Let_def split: option.split)
qed simp

lemma v4_v6_exclusive: "is_v4 x \<Longrightarrow> \<not> is_v6 x"
  by (auto simp: is_v4_def is_v6_def split: option.splits)

lemma resolve_hosts_addresses:
  "list_all (\<lambda>h. mh_Addresses h \<noteq> [] \<and>
     mh_Addresses h = filter is_v4 (mh_Addresses h) @ filter is_v6 (mh_Addresses h)) (resolve_hosts env rs)"
proof (induction rs)
  case (Cons r rs)
  then show ?case
    by (cases "ev_lookupHost env (mx_Host r)") (auto simp: Let_def filter_empty_conv dest: v4_v6_exclusive)
qed simp

text \<open>The hosts an attempt tries are in ascending order of preference, each with at least one address and
  its IPv4 addresses before its IPv6 ones, also when they come from the cache, whose entries keep that
  order.\<close>

theorem LookupWithFallback_sorted:
  assumes "go_choices env" and "cache_ok cache" and "LookupWithFallback env now d cache = (cache', res)"
  shows "cache_ok cache' \<and> (case res of Inl err \<Rightarrow> True | Inr hosts \<Rightarrow>
    hosts \<noteq> [] \<and> sorted (map mh_Preference hosts) \<and>
    list_all (\<lambda>h. mh_Addresses h \<noteq> [] \<and>
      mh_Addresses h = filter is_v4 (mh_Addresses h) @ filter is_v6 (mh_Addresses h)) hosts)"
proof -
  obtain c x where l: "Lookup env now d cache = (c, x)" by fastforce
  note s = go_choices.Lookup_sorted [OF assms(1,2) l]
  show ?thesis
  proof (cases x)
    case (Inl e)
    with assms(3) l s show ?thesis by (auto simp: LookupWithFallback_def)
  next
    case (Inr rs)
    with assms(3) l s resolve_hosts_sorted [of rs env] resolve_hosts_addresses [of env rs] show ?thesis
      by (auto simp: LookupWithFallback_def Let_def split: if_splits)
  qed
qed

section \<open>Witnesses\<close>

definition wdialog :: dialog where
  "wdialog = \<lparr>dg_dial = None, dg_client = None, dg_hello = None, dg_hasSTARTTLS = True, dg_startTLS = None,
     dg_mail = (\<lambda>s. None), dg_rcpt = (\<lambda>i r. if r = ''r@y'' then None else Some ''550 no such user''),
     dg_data = None, dg_write = (\<lambda>d. None), dg_close = None\<rparr>"

definition wdenv :: denv where
  "wdenv = \<lparr>ev_lookupMX = (\<lambda>d. MXRecords [(''b.y.'', 20), (''a.y.'', 10)]),
     ev_lookupHost = (\<lambda>h. Some [''10.0.0.1'']), ev_sort = sort_key mx_Preference, ev_range = id,
     ev_smtp = (\<lambda>a tls. wdialog), ev_signer = (\<lambda>d. None), ev_fileErr = (\<lambda>p. None), ev_removeErr = (\<lambda>p. None),
     ev_createTemp = Inr ''/q/bounce-1.eml'', ev_tempWrite = None, ev_interrupt = None, ev_date = ''now'',
     ev_rnd = (\<lambda>i. Some [CHR ''a'', digit_char i])\<rparr>"

definition wdeng :: "mem engine" where
  "wdeng = NewEngine (DefaultConfig_delivery\<lparr>dc_QueuePath := ''/q'', dc_RequireTLS := True\<rparr>) wq mem_empty [(''/q/a'', ''data'')]"

interpretation wde: go_choices wdenv
  by unfold_locales (simp_all add: wdenv_def)

definition wdmsg :: message where
  "wdmsg = wmsg\<lparr>msg_Recipients := [''r@y'', ''x@y'']\<rparr>"

lemma wv4: "is_v4 ''10.0.0.1''" "\<not> is_v6 ''10.0.0.1''"
  by (simp_all add: is_v4_def is_v6_def ParseIP_def To4_def parseIPv4Fields_def parse_octet_def v4_groups_def
     digit_val_def is_digit_def)

definition wcache :: mx_cache where
  "wcache = fst (Lookup wdenv 100 ''y'' [])"

lemma wlookup: "LookupWithFallback wdenv 100 ''y'' [] = (wcache, Inr
   [\<lparr>mh_Host = ''a.y'', mh_Preference = 10, mh_Addresses = [''10.0.0.1'']\<rparr>,
    \<lparr>mh_Host = ''b.y'', mh_Preference = 20, mh_Addresses = [''10.0.0.1'']\<rparr>])"
proof -
  let ?rs = "[\<lparr>mx_Host = ''a.y'', mx_Preference = 10, mx_ExpiresAt = Some 300000000100\<rparr>,
    \<lparr>mx_Host = ''b.y'', mx_Preference = 20, mx_ExpiresAt = Some 300000000100\<rparr>]"
  have "snd (Lookup wdenv 100 ''y'' []) = Inr ?rs" by code_simp
  then have "Lookup wdenv 100 ''y'' [] = (wcache, Inr ?rs)" by (simp add: wcache_def prod_eq_iff)
  moreover have "ev_lookupHost wdenv h = Some [''10.0.0.1'']" for h by (simp add: wdenv_def)
  ultimately show ?thesis by (simp add: LookupWithFallback_def wv4 Let_def)
qed

lemma wattempt: "attemptDelivery (en_config wdeng) wdenv 100 wdmsg (en_files wdeng) (en_mx wdeng) =
    (wcache, Inr (True, [''r@y''], ''data''))"
proof -
  have "readAndSignMessage wdenv (en_files wdeng) wdmsg = Inr ''data''"
    "deliverToHost (en_config wdeng) wdenv ''10.0.0.1'' wdmsg ''data'' = Inr (True, [''r@y''], ''data'')"
    "dc_RelayHost (en_config wdeng) = []" "msg_Domain wdmsg = ''y''" "en_mx wdeng = []" by code_simp+
  then show ?thesis by (simp add: attemptDelivery_def wlookup)
qed

definition wfresh :: "derror circuit_breaker" where
  "wfresh = NewCircuitBreaker (breaker_config ''y'') 100"

lemma wexecute: "Execute False False 100 200 (attempt_outcome wdenv (Inr rc)) wfresh = (wfresh, None)"
  "cb_state wfresh = StateClosed" "beforeRequest t wfresh = (wfresh, None)"
  by (simp_all add: wfresh_def Execute_def NewCircuitBreaker_def breaker_config_def beforeRequest_def
      afterRequest_def attempt_outcome_def wdenv_def isFailure_def go_time)

definition wdeng1 :: "mem engine" where
  "wdeng1 = complete_message mem_redis wdenv 200 wdmsg
     (wdeng\<lparr>en_breakers := store_cb ''y'' wfresh (store_cb ''y'' wfresh (en_breakers wdeng)), en_mx := wcache,
            en_log := [(''a'', True, [''r@y''], ''data'')]\<rparr>)"

lemma wdeng1_eq: "deliverMessage mem_redis wdenv 100 200 wdmsg wdeng = Some wdeng1"
proof -
  have "Get_cb ''y'' 100 (en_breakers wdeng) = (store_cb ''y'' wfresh (en_breakers wdeng), Some wfresh)"
    by (simp add: wdeng_def NewEngine_def NewBreakerRegistry_def Get_cb_def Get_fast_def Get_slow_def
        store_cb_def wfresh_def Let_def)
  moreover have "msg_Domain wdmsg = ''y''" "en_log wdeng = []" "msg_ID wdmsg = ''a''"
    by (simp_all add: wdmsg_def wmsg_def wdeng_def NewEngine_def)
  ultimately show ?thesis
    by (simp add: deliverMessage_def wattempt wexecute wdeng1_def)
qed

lemma wdeng_fields: "en_sent wdeng = 0" "en_retried wdeng = 0" "en_bounced wdeng = 0" "en_log wdeng = []"
  "dc_RequireTLS (en_config wdeng)" "dc_RelayHost (en_config wdeng) = []" "en_files wdeng = [(''/q/a'', ''data'')]"
  "dc_QueuePath (en_config wdeng) = ''/q''" "msg_ID wdmsg = ''a''" "msg_MessagePath wdmsg = ''/q/a''"
  "msg_Sender wdmsg = ''s@x''" "msg_Domain wdmsg = ''y''" "ev_removeErr wdenv p = None"
  by (simp_all add: wdeng_def NewEngine_def DefaultConfig_delivery_def wdmsg_def wmsg_def wdenv_def)

lemma wdeng1_sent: "en_sent wdeng1 \<noteq> en_sent wdeng"
  by (simp add: wdeng1_def complete_message_def)

text \<open>An engine whose breaker for a domain is open, as failures leave it.\<close>

definition wcb :: "derror circuit_breaker" where
  "wcb = transitionTo StateOpen 100 (NewCircuitBreaker (breaker_config ''y'') 0)"

definition wopen :: "mem engine" where
  "wopen = wdeng\<lparr>en_breakers := store_cb ''y'' wcb (en_breakers wdeng)\<rparr>"

theorem open_breaker_never_recovers_witness:
  "map_of (breakers (en_breakers (recovery_tick mem_redis (100 * Hour) wopen))) ''y'' = Some wcb"
proof -
  have "(engine_step mem_redis)\<^sup>*\<^sup>* wopen (recovery_tick mem_redis (100 * Hour) wopen)"
    by (rule r_into_rtranclp) (rule engine_step.recovery)
  moreover have "cb_state wcb = StateOpen" by (simp add: wcb_def)
  moreover have "map_of (breakers (en_breakers wopen)) ''y'' = Some wcb"
    by (simp add: wopen_def store_cb_def update_conv)
  ultimately show ?thesis
    using open_breaker_never_recovers [of "''y''" wcb wopen mem_redis _ wdmsg] wdeng_fields by blast
qed


theorem sent_means_accepted_witness: "\<exists>rs data. en_log wdeng1 = [(''a'', True, rs, data)] \<and> rs \<noteq> []"
  using sent_means_accepted [OF wdeng1_eq wdeng1_sent] by (auto simp: wdeng_fields)

lemma deliverMessage_Some:
  "msg_Domain msg \<noteq> [] \<Longrightarrow> deliverMessage R env t0 t1 msg e = Some (the (deliverMessage R env t0 t1 msg e))"
  by (auto simp: deliverMessage_def Get_cb_def Let_def split: option.split prod.split)

theorem shared_file_lost_witness:
  "en_log (the (deliverMessage mem_redis wdenv 300 400 (wdmsg\<lparr>msg_ID := ''b''\<rparr>) wdeng1)) = en_log wdeng1"
proof -
  have "msg_Domain (wdmsg\<lparr>msg_ID := ''b''\<rparr>) \<noteq> []" by (simp add: wdeng_fields)
  from deliverMessage_Some [OF this] show ?thesis
    by (rule shared_file_lost [OF wdeng1_eq wdeng1_sent, THEN conjunct1, rotated 4])
      (simp_all add: wdeng_fields HasPrefix_def)
qed

theorem refused_recipients_dropped_witness:
  "en_log wdeng1 = [(''a'', True, [''r@y''], ''data'')] \<and> msg_Recipients wdmsg = [''r@y'', ''x@y''] \<and> en_bounced wdeng1 = 0"
proof -
  have "en_log wdeng1 = [(''a'', True, [''r@y''], ''data'')]" by (simp add: wdeng1_def complete_message_def)
  with refused_recipients_dropped [OF wdeng1_eq wdeng1_sent] show ?thesis by (simp add: wdeng_fields wdmsg_def)
qed

theorem LookupWithFallback_sorted_witness:
  "cache_ok wcache \<and> sorted (map mh_Preference
   [\<lparr>mh_Host = ''a.y'', mh_Preference = 10, mh_Addresses = [''10.0.0.1'']\<rparr>,
    \<lparr>mh_Host = ''b.y'', mh_Preference = 20, mh_Addresses = [''10.0.0.1'']\<rparr>])"
  using LookupWithFallback_sorted [OF wde.go_choices_axioms _ wlookup] by (simp add: cache_ok_def)

definition wsubmit :: "mem engine \<times> (enqueue_error, message list) result" where
  "wsubmit = Enqueue_engine mem_redis wdenv 100 ''s@x'' [''a@Y'', ''b'', ''c@z'', ''d@y''] ''/q/a'' wdeng"

theorem Enqueue_engine_covers_witness:
  "\<exists>ms. snd wsubmit = Inr ms \<and> map msg_Domain ms = [''y'', ''z''] \<and>
     mset (concat (map msg_Recipients ms)) = {#''a@Y'', ''c@z'', ''d@y''#}"
proof -
  have "case snd wsubmit of Inl _ \<Rightarrow> False | Inr ms \<Rightarrow> map msg_Domain ms = [''y'', ''z'']" by code_simp
  then obtain ms where ms: "snd wsubmit = Inr ms" "map msg_Domain ms = [''y'', ''z'']" by (simp split: sum.splits)
  then have "Enqueue_engine mem_redis wdenv 100 ''s@x'' [''a@Y'', ''b'', ''c@z'', ''d@y''] ''/q/a'' wdeng = (fst wsubmit, Inr ms)"
    by (simp add: wsubmit_def prod_eq_iff)
  from Enqueue_engine_covers [OF memr.redis_server_axioms wde.go_choices_axioms this]
  have "mset (concat (map msg_Recipients ms)) = mset [r \<leftarrow> [''a@Y'', ''b'', ''c@z'', ''d@y'']. extractDomain r \<noteq> []]" by blast
  moreover have "[r \<leftarrow> [''a@Y'', ''b'', ''c@z'', ''d@y'']. extractDomain r \<noteq> []] = [''a@Y'', ''c@z'', ''d@y'']" by code_simp
  ultimately show ?thesis using ms by simp
qed

definition wbounce :: "mem engine \<times> (bounce_error, message) result" where
  "wbounce = sendBounce mem_redis wdenv 300 (wdmsg\<lparr>msg_Sender := ''root''\<rparr>) (plain_err ''550 unknown'') wdeng"

definition wbmsg :: message where
  "wbmsg = (case snd wbounce of Inl _ \<Rightarrow> wmsg | Inr m \<Rightarrow> m)"

lemma wbounce_eq:
  "sendBounce mem_redis wdenv 300 (wdmsg\<lparr>msg_Sender := ''root''\<rparr>) (plain_err ''550 unknown'') wdeng = (fst wbounce, Inr wbmsg)"
proof -
  have "case snd wbounce of Inl _ \<Rightarrow> False | Inr m \<Rightarrow> True" by code_simp
  then have "snd wbounce = Inr wbmsg" by (simp add: wbmsg_def split: sum.splits)
  then show ?thesis by (simp add: wbounce_def prod_eq_iff)
qed

theorem empty_domain_panics_witness: "deliverMessage mem_redis wdenv 400 500 wbmsg (fst wbounce) = None"
  using empty_domain_panics [OF memr.redis_server_axioms wbounce_eq] by simp

theorem bounce_never_bounces_witness:
  "msg_Sender wbmsg = [] \<and> msg_Recipients wbmsg = [''root''] \<and>
   en_bounced (the (deliverMessage mem_redis wdenv 100 200 (wbmsg\<lparr>msg_Domain := ''y''\<rparr>) wopen)) = 0"
proof -
  let ?b = "wbmsg\<lparr>msg_Domain := ''y''\<rparr>"
  have "msg_Domain ?b \<noteq> []" by simp
  note d = deliverMessage_Some [OF this, of mem_redis wdenv 100 200 wopen]
  have "en_bounced wopen = 0" by (simp add: wopen_def wdeng_fields)
  with bounce_never_bounces [OF memr.redis_server_axioms wbounce_eq d] show ?thesis by simp
qed

end
