(* ===== verification/Mail_World.thy ===== *)
theory Mail_World
  imports Go_Prelude "HOL-Library.AList" "HOL-Library.Sublist"
begin

text \<open>
  The state that the account, mailbox and session components share: the tables of the metadata database
  (\<^verbatim>\<open>internal/storage/metadata/migrations/001_initial.sql\<close>) as lists of rows, with the counter of each
  AUTOINCREMENT key, and the files below the base directory of the mail store. A path is the list of
  its components below that directory. A script of faults says of each coming SQL statement and file
  operation whether it works (\<open>None\<close>) or fails with an error, in which case it has no effect; after the end
  of the script everything works.

  A method is a function from the world to a new world and a result; \<open>bindE\<close> runs two in sequence and
  stops at the first error, as \<open>if err != nil { return err }\<close> does.
\<close>

section \<open>Rows\<close>

record domain_row =
  d_id :: int
  d_name :: string
  d_active :: bool

record user_row =
  u_id :: int
  u_domain_id :: int
  u_username :: string
  u_password_hash :: string
  u_display_name :: "string option"
  u_quota_bytes :: int
  u_used_bytes :: int
  u_active :: bool

record alias_row =
  a_domain_id :: int
  a_source_address :: string
  a_destination_user_id :: "int option"
  a_destination_external :: "string option"
  a_active :: bool

record mailbox =
  mb_ID :: int
  mb_UserID :: int
  mb_Name :: string
  mb_UIDValidity :: int
  mb_UIDNext :: int
  mb_SpecialUse :: string
  mb_Subscribed :: bool
  mb_CreatedAt :: time

text \<open>The columns \<open>message_id\<close>, \<open>subject\<close>, \<open>from_address\<close> and \<open>to_addresses\<close> are never written; \<open>None\<close> is NULL.\<close>

record msg_row =
  mr_id :: int
  mr_mailbox_id :: int
  mr_uid :: int
  mr_maildir_key :: string
  mr_size :: int
  mr_internal_date :: time
  mr_flags :: string
  mr_subject :: "string option"
  mr_from_address :: "string option"
  mr_to_addresses :: "string option"
  mr_created_at :: time

type_synonym path = "string list"

record world =
  w_domains :: "domain_row list"
  w_users :: "user_row list"
  w_aliases :: "alias_row list"
  w_mailboxes :: "mailbox list"
  w_messages :: "msg_row list"
  w_user_seq :: int
  w_mailbox_seq :: int
  w_message_seq :: int
  w_dirs :: "path list"
  w_files :: "(path \<times> string) list"
  w_faults :: "string option list"

type_synonym ('e, 'a) proc = "world \<Rightarrow> world \<times> ('e, 'a) result"

section \<open>Sequencing\<close>

definition retE :: "'a \<Rightarrow> ('e, 'a) proc" where
  "retE x w = (w, Inr x)"

definition failE :: "'e \<Rightarrow> ('e, 'a) proc" where
  "failE e w = (w, Inl e)"

definition bindE :: "('e, 'a) proc \<Rightarrow> ('a \<Rightarrow> ('e, 'b) proc) \<Rightarrow> ('e, 'b) proc" where
  "bindE m f w = (case m w of (w1, Inl e) \<Rightarrow> (w1, Inl e) | (w1, Inr x) \<Rightarrow> f x w1)"

text \<open>\<open>onErr h m\<close>: when \<open>m\<close> fails, \<open>h\<close> gives the outcome; \<open>mapErr\<close> only wraps the error.\<close>

definition onErr :: "('e \<Rightarrow> ('f, 'a) proc) \<Rightarrow> ('e, 'a) proc \<Rightarrow> ('f, 'a) proc" where
  "onErr h m w = (case m w of (w1, Inl e) \<Rightarrow> h e w1 | (w1, Inr x) \<Rightarrow> (w1, Inr x))"

definition mapErr :: "('e \<Rightarrow> 'f) \<Rightarrow> ('e, 'a) proc \<Rightarrow> ('f, 'a) proc" where
  "mapErr h m = onErr (\<lambda>e. failE (h e)) m"

text \<open>A call whose error is only logged, or not looked at.\<close>

definition ignoreE :: "('e, 'a) proc \<Rightarrow> ('f, unit) proc" where
  "ignoreE m w = (fst (m w), Inr ())"

definition next_fault :: "world \<Rightarrow> world \<times> string option" where
  "next_fault w = (case w_faults w of [] \<Rightarrow> (w, None) | f # fs \<Rightarrow> (w\<lparr>w_faults := fs\<rparr>, f))"

text \<open>A statement or file operation: its effect and value when it works, the error when the script says
  so. \<open>read\<close> has no effect; \<open>try_exec\<close> may fail by itself, as an INSERT against a UNIQUE constraint does.\<close>

definition readE :: "(world \<Rightarrow> 'a) \<Rightarrow> (string, 'a) proc" where
  "readE f w = (case next_fault w of (w1, Some e) \<Rightarrow> (w1, Inl e) | (w1, None) \<Rightarrow> (w1, Inr (f w1)))"

definition execE :: "(world \<Rightarrow> world \<times> 'a) \<Rightarrow> (string, 'a) proc" where
  "execE f w = (case next_fault w of
     (w1, Some e) \<Rightarrow> (w1, Inl e)
   | (w1, None) \<Rightarrow> (case f w1 of (w2, x) \<Rightarrow> (w2, Inr x)))"

definition tryE :: "(world \<Rightarrow> (string, world \<times> 'a) result) \<Rightarrow> (string, 'a) proc" where
  "tryE f w = (case next_fault w of
     (w1, Some e) \<Rightarrow> (w1, Inl e)
   | (w1, None) \<Rightarrow> (case f w1 of Inl e \<Rightarrow> (w1, Inl e) | Inr (w2, x) \<Rightarrow> (w2, Inr x)))"

lemma bindE_Inr: "bindE m f w = (w', Inr y) \<longleftrightarrow> (\<exists>w1 x. m w = (w1, Inr x) \<and> f x w1 = (w', Inr y))"
  by (auto simp: bindE_def split: prod.splits sum.splits)

lemma bindE_InrE:
  assumes "bindE m f w = (w', Inr y)"
  obtains w1 x where "m w = (w1, Inr x)" "f x w1 = (w', Inr y)"
  using assms by (auto simp: bindE_Inr)

lemma bindE_Inl: "bindE m f w = (w', Inl e) \<longleftrightarrow>
    m w = (w', Inl e) \<or> (\<exists>w1 x. m w = (w1, Inr x) \<and> f x w1 = (w', Inl e))"
  by (auto simp: bindE_def split: prod.splits sum.splits)

lemma retE_iff [simp]: "retE x w = (w', r) \<longleftrightarrow> w' = w \<and> r = Inr x"
  by (auto simp: retE_def)

lemma failE_iff [simp]: "failE e w = (w', r) \<longleftrightarrow> w' = w \<and> r = Inl e"
  by (auto simp: failE_def)

lemma onErr_Inr: "onErr h m w = (w', Inr x) \<longleftrightarrow> m w = (w', Inr x) \<or> (\<exists>w1 e. m w = (w1, Inl e) \<and> h e w1 = (w', Inr x))"
  by (auto simp: onErr_def split: prod.splits sum.splits)

lemma onErr_Inl: "onErr h m w = (w', Inl e) \<longleftrightarrow> (\<exists>w1 e1. m w = (w1, Inl e1) \<and> h e1 w1 = (w', Inl e))"
  by (auto simp: onErr_def split: prod.splits sum.splits)

lemma mapErr_Inr [simp]: "mapErr h m w = (w', Inr x) \<longleftrightarrow> m w = (w', Inr x)"
  by (auto simp: mapErr_def onErr_Inr)

lemma mapErr_Inl [simp]: "mapErr h m w = (w', Inl e) \<longleftrightarrow> (\<exists>e1. m w = (w', Inl e1) \<and> e = h e1)"
  by (auto simp: mapErr_def onErr_Inl)

text \<open>Rules that run a method on a known outcome.\<close>

lemma bindE_run: "m w = (w1, Inr x) \<Longrightarrow> bindE m f w = f x w1"
  "m w = (w1, Inl e) \<Longrightarrow> bindE m f w = (w1, Inl e)"
  by (simp_all add: bindE_def)

lemma mapErr_run: "m w = (w1, Inr x) \<Longrightarrow> mapErr h m w = (w1, Inr x)"
  "m w = (w1, Inl e) \<Longrightarrow> mapErr h m w = (w1, Inl (h e))"
  by (simp_all add: mapErr_def onErr_def failE_def)

lemmas runE = bindE_run mapErr_run retE_def failE_def

lemma ignoreE_iff: "ignoreE m w = (w', r) \<longleftrightarrow> r = Inr () \<and> (\<exists>x. m w = (w', x))"
  by (cases "m w") (auto simp: ignoreE_def)

section \<open>Worlds that differ in their faults only\<close>

definition same_world :: "world \<Rightarrow> world \<Rightarrow> bool" where
  "same_world w w' \<longleftrightarrow> w'\<lparr>w_faults := []\<rparr> = w\<lparr>w_faults := []\<rparr>"

lemma same_world_refl [simp]: "same_world w w"
  by (simp add: same_world_def)

lemma same_world_trans: "same_world w w1 \<Longrightarrow> same_world w1 w2 \<Longrightarrow> same_world w w2"
  by (simp add: same_world_def)

lemma same_worldD:
  assumes "same_world w w'"
  shows "w_domains w' = w_domains w" "w_users w' = w_users w" "w_aliases w' = w_aliases w"
    "w_mailboxes w' = w_mailboxes w" "w_messages w' = w_messages w" "w_user_seq w' = w_user_seq w"
    "w_mailbox_seq w' = w_mailbox_seq w" "w_message_seq w' = w_message_seq w" "w_dirs w' = w_dirs w"
    "w_files w' = w_files w"
  using assms by (cases w; cases w'; simp add: same_world_def)+

lemma same_world_faults [simp]: "same_world w (w\<lparr>w_faults := fs\<rparr>)"
  by (simp add: same_world_def)

lemma next_fault_same: "next_fault w = (w', f) \<Longrightarrow> same_world w w'"
  by (auto simp: next_fault_def split: list.splits)

lemma readE_same: "readE f w = (w', r) \<Longrightarrow> same_world w w'"
  by (auto simp: readE_def dest!: next_fault_same split: prod.splits option.splits)

lemma readE_Inr: "readE f w = (w', Inr x) \<Longrightarrow> same_world w w' \<and> x = f w'"
  by (auto simp: readE_def dest!: next_fault_same split: prod.splits option.splits)

lemma execE_Inl: "execE f w = (w', Inl e) \<Longrightarrow> same_world w w'"
  by (auto simp: execE_def dest!: next_fault_same split: prod.splits option.splits)

lemma execE_Inr: "execE f w = (w', Inr x) \<Longrightarrow> \<exists>w1. same_world w w1 \<and> f w1 = (w', x)"
  by (auto simp: execE_def dest!: next_fault_same split: prod.splits option.splits)

lemma tryE_Inl: "tryE f w = (w', Inl e) \<Longrightarrow> same_world w w'"
  by (auto simp: tryE_def dest!: next_fault_same split: prod.splits option.splits sum.splits)

lemma tryE_Inr: "tryE f w = (w', Inr x) \<Longrightarrow> \<exists>w1. same_world w w1 \<and> f w1 = Inr (w', x)"
  by (auto simp: tryE_def dest!: next_fault_same split: prod.splits option.splits sum.splits)

text \<open>Without faults.\<close>

lemma no_faults [simp]: "w_faults w = [] \<Longrightarrow> next_fault w = (w, None)"
  by (simp add: next_fault_def)

lemma readE_ok [simp]: "w_faults w = [] \<Longrightarrow> readE f w = (w, Inr (f w))"
  by (simp add: readE_def)

section \<open>Files\<close>

definition os_exists :: "path \<Rightarrow> world \<Rightarrow> bool" where
  "os_exists p w \<longleftrightarrow> map_of (w_files w) p \<noteq> None"

definition dir_exists :: "path \<Rightarrow> world \<Rightarrow> bool" where
  "dir_exists p w \<longleftrightarrow> list_ex (prefix p) (w_dirs w)"

definition os_MkdirAll :: "path \<Rightarrow> (string, unit) proc" where
  "os_MkdirAll p = execE (\<lambda>w. (w\<lparr>w_dirs := List.insert p (w_dirs w)\<rparr>, ()))"

text \<open>\<open>os.Remove\<close> of a file, \<open>os.RemoveAll\<close> of a directory.\<close>

definition os_Remove_file :: "path \<Rightarrow> (string, unit) proc" where
  "os_Remove_file p = tryE (\<lambda>w. if os_exists p w then Inr (w\<lparr>w_files := AList.delete p (w_files w)\<rparr>, ())
                                else Inl ''no such file or directory'')"

definition os_RemoveAll :: "path \<Rightarrow> (string, unit) proc" where
  "os_RemoveAll p = execE (\<lambda>w. (w\<lparr>w_files := [f \<leftarrow> w_files w. \<not> prefix p (fst f)],
                                   w_dirs := [d \<leftarrow> w_dirs w. \<not> prefix p d]\<rparr>, ()))"

text \<open>\<open>os.Rename\<close> of a file, which replaces its target.\<close>

definition os_Rename_file :: "path \<Rightarrow> path \<Rightarrow> (string, unit) proc" where
  "os_Rename_file old new = tryE (\<lambda>w. case map_of (w_files w) old of
      None \<Rightarrow> Inl ''no such file or directory''
    | Some c \<Rightarrow> Inr (w\<lparr>w_files := AList.update new c (AList.delete old (w_files w))\<rparr>, ()))"

text \<open>\<open>os.Rename\<close> of a directory; the error says whether \<open>os.IsNotExist\<close> holds of it. A target that exists has
  to be an empty directory, not a file, and may not lie below the source.\<close>

definition move_path :: "path \<Rightarrow> path \<Rightarrow> path \<Rightarrow> path" where
  "move_path old new p = (if prefix old p then new @ drop (length old) p else p)"

definition os_Rename_dir :: "path \<Rightarrow> path \<Rightarrow> world \<Rightarrow> world \<times> (bool \<times> string, unit) result" where
  "os_Rename_dir old new w = (case next_fault w of
     (w1, Some e) \<Rightarrow> (w1, Inl (False, e))
   | (w1, None) \<Rightarrow>
       (if \<not> dir_exists old w1 then (w1, Inl (True, ''no such file or directory''))
        else if old = new then (w1, Inr ())
        else if prefix old new then (w1, Inl (False, ''invalid argument''))
        else if list_ex (strict_prefix new) (w_dirs w1) \<or> list_ex (\<lambda>f. prefix new (fst f)) (w_files w1)
        then (w1, Inl (False, ''directory not empty''))
        else (w1\<lparr>w_dirs := map (move_path old new) (w_dirs w1),
                 w_files := map (\<lambda>(p, c). (move_path old new p, c)) (w_files w1)\<rparr>, Inr ())))"

section \<open>Relations that every step of a method keeps\<close>

text \<open>\<open>stepsM R m\<close>: whatever happens in \<open>m\<close>, faults included, the world before and the world after it are related. A
  relation that ignores the faults and is transitive holds of a method when it holds of its statements.\<close>

definition stepsM :: "(world \<Rightarrow> world \<Rightarrow> bool) \<Rightarrow> ('e, 'a) proc \<Rightarrow> bool" where
  "stepsM R m \<longleftrightarrow> (\<forall>w. R w (fst (m w)))"

lemma stepsM_D: "stepsM R m \<Longrightarrow> m w = (w', r) \<Longrightarrow> R w w'"
  unfolding stepsM_def by (metis fst_conv)

locale step_rel =
  fixes R :: "world \<Rightarrow> world \<Rightarrow> bool"
  assumes same: "same_world w w' \<Longrightarrow> R w w'"
    and trans: "R w w1 \<Longrightarrow> R w1 w2 \<Longrightarrow> R w w2"
begin

lemma retE: "stepsM R (retE x)"
  by (simp add: stepsM_def retE_def same)

lemma failE: "stepsM R (failE e)"
  by (simp add: stepsM_def failE_def same)

lemma readE: "stepsM R (readE f)"
  unfolding stepsM_def using same readE_same by (metis prod.collapse)

lemma bindE:
  assumes "stepsM R m" "\<And>x. stepsM R (f x)"
  shows "stepsM R (bindE m f)"
  unfolding stepsM_def
proof
  fix w
  obtain w1 r where m: "m w = (w1, r)" by fastforce
  then have q: "R w w1" using assms(1) stepsM_D by blast
  then show "R w (fst (bindE m f w))"
    using assms(2) m trans [OF q] by (cases r) (simp_all add: bindE_def stepsM_def)
qed

lemma onErr:
  assumes "stepsM R m" "\<And>e. stepsM R (h e)"
  shows "stepsM R (onErr h m)"
  unfolding stepsM_def
proof
  fix w
  obtain w1 r where m: "m w = (w1, r)" by fastforce
  then have q: "R w w1" using assms(1) stepsM_D by blast
  then show "R w (fst (onErr h m w))"
    using assms(2) m trans [OF q] by (cases r) (simp_all add: onErr_def stepsM_def)
qed

lemma mapErr: "stepsM R m \<Longrightarrow> stepsM R (mapErr h m)"
  unfolding mapErr_def by (rule onErr) (simp_all add: failE)

lemma ignoreE: "stepsM R m \<Longrightarrow> stepsM R (ignoreE m)"
  by (simp add: stepsM_def ignoreE_def)

lemma execE:
  assumes "\<And>w. R w (fst (f w))"
  shows "stepsM R (execE f)"
  unfolding stepsM_def
proof
  fix w
  obtain w1 r where m: "execE f w = (w1, r)" by fastforce
  show "R w (fst (execE f w))"
  proof (cases r)
    case (Inl e)
    with m execE_Inl [of f w w1 e] show ?thesis by (simp add: same)
  next
    case (Inr x)
    with m execE_Inr [of f w w1 x] obtain w0 where "same_world w w0" "f w0 = (w1, x)" by blast
    with assms [of w0] show ?thesis by (simp add: m) (metis same trans)
  qed
qed

lemma tryE:
  assumes "\<And>w w1 x. f w = Inr (w1, x) \<Longrightarrow> R w w1"
  shows "stepsM R (tryE f)"
  unfolding stepsM_def
proof
  fix w
  obtain w1 r where m: "tryE f w = (w1, r)" by fastforce
  show "R w (fst (tryE f w))"
  proof (cases r)
    case (Inl e)
    with m tryE_Inl [of f w w1 e] show ?thesis by (simp add: same)
  next
    case (Inr x)
    with m tryE_Inr [of f w w1 x] obtain w0 where "same_world w w0" "f w0 = Inr (w1, x)" by blast
    with assms [of w0] show ?thesis by (simp add: m) (metis same trans)
  qed
qed

end

end
