(* ===== verification/Auth.thy ===== *)
theory Auth
  imports Mail_World Validation
begin

text \<open>
  Package \<^verbatim>\<open>internal/auth\<close>: password hashes (\<^verbatim>\<open>password.go\<close>) and accounts (\<^verbatim>\<open>auth.go\<close>) over the tables of
  \<open>Mail_World\<close>. The argon2 package is an argument, a record of its version number and its key function;
  random bytes are arguments. The encodings of the Go library that the code uses, raw base64 and the
  verb \<open>%d\<close> of \<open>Sscanf\<close>, are defined here.
\<close>

section \<open>Raw base64\<close>

definition b64_char :: "nat \<Rightarrow> char" where
  "b64_char n = (if n < 26 then char_of (65 + n) else if n < 52 then char_of (71 + n)
     else if n < 62 then char_of (n - 4) else if n = 62 then CHR ''+'' else CHR ''/'')"

definition b64_val :: "char \<Rightarrow> nat option" where
  "b64_val c = (let n = of_char c :: nat in
     if 65 \<le> n \<and> n \<le> 90 then Some (n - 65) else if 97 \<le> n \<and> n \<le> 122 then Some (n - 71)
     else if 48 \<le> n \<and> n \<le> 57 then Some (n + 4) else if c = CHR ''+'' then Some 62
     else if c = CHR ''/'' then Some 63 else None)"

fun b64_sextets :: "nat list \<Rightarrow> nat list" where
  "b64_sextets [] = []"
| "b64_sextets [a] = [a div 4, a mod 4 * 16]"
| "b64_sextets [a, b] = [a div 4, a mod 4 * 16 + b div 16, b mod 16 * 4]"
| "b64_sextets (a # b # c # bs) = [a div 4, a mod 4 * 16 + b div 16, b mod 16 * 4 + c div 64, c mod 64] @ b64_sextets bs"

fun b64_bytes :: "nat list \<Rightarrow> nat list option" where
  "b64_bytes [] = Some []"
| "b64_bytes [w] = None"
| "b64_bytes [w, x] = Some [w * 4 + x div 16]"
| "b64_bytes [w, x, y] = Some [w * 4 + x div 16, x mod 16 * 16 + y div 4]"
| "b64_bytes (w # x # y # z # vs) =
     map_option (\<lambda>bs. [w * 4 + x div 16, x mod 16 * 16 + y div 4, y mod 4 * 64 + z] @ bs) (b64_bytes vs)"

definition EncodeToString :: "string \<Rightarrow> string" where
  "EncodeToString bs = map b64_char (b64_sextets (map of_char bs))"

text \<open>The decoder skips line breaks.\<close>

definition DecodeString :: "string \<Rightarrow> string option" where
  "DecodeString s =
     (let vs = map b64_val [c \<leftarrow> s. c \<notin> {CHR 0x0A, CHR 0x0D}]
      in if None \<in> set vs then None else map_option (map char_of) (b64_bytes (map the vs)))"

lemma b64_val_char: "n < 64 \<Longrightarrow> b64_val (b64_char n) = Some n"
  by (auto simp: b64_val_def b64_char_def Let_def of_char_of)

lemma b64_char_plain: "n < 64 \<Longrightarrow> b64_char n \<notin> {CHR 0x0A, CHR 0x0D, CHR ''$''}"
  using b64_val_char [of n] by (auto simp: b64_val_def)

lemma b64_sextets_bound: "list_all (\<lambda>b. b < 256) bs \<Longrightarrow> list_all (\<lambda>v. v < 64) (b64_sextets bs)"
  by (induction bs rule: b64_sextets.induct) auto

lemma b64_bytes_sextets: "list_all (\<lambda>b. b < 256) bs \<Longrightarrow> b64_bytes (b64_sextets bs) = Some bs"
proof (induction bs rule: b64_sextets.induct)
  case (4 a b c bs)
  have "(a mod 4 * 16 + b div 16) div 16 = a mod 4" "(a mod 4 * 16 + b div 16) mod 16 = b div 16"
    "(b mod 16 * 4 + c div 64) div 4 = b mod 16" "(b mod 16 * 4 + c div 64) mod 4 = c div 64"
    using 4(2) by auto
  with 4 show ?case by simp
next
  case (3 a b)
  have "(a mod 4 * 16 + b div 16) div 16 = a mod 4" "(a mod 4 * 16 + b div 16) mod 16 = b div 16"
    using 3 by auto
  then show ?case by simp
qed simp_all

lemma b64_round_trip: "DecodeString (EncodeToString s) = Some s"
proof -
  let ?vs = "b64_sextets (map of_char s)"
  have b: "list_all (\<lambda>b. b < 256) (map of_char s :: nat list)" by (simp add: list_all_iff)
  have lt: "v < 64" if "v \<in> set ?vs" for v using b64_sextets_bound [OF b] that by (simp add: list_all_iff)
  have "[c \<leftarrow> map b64_char ?vs. c \<notin> {CHR 0x0A, CHR 0x0D}] = map b64_char ?vs"
    using lt b64_char_plain by (auto simp: filter_id_conv)
  moreover have "map b64_val (map b64_char ?vs) = map Some ?vs" using lt b64_val_char by simp
  moreover have "map (char_of :: nat \<Rightarrow> char) (map of_char s) = s" by (simp add: map_idI)
  ultimately show ?thesis
    unfolding DecodeString_def EncodeToString_def Let_def
    by (auto simp: b64_bytes_sextets [OF b] comp_def simp del: map_map) (simp add: b64_bytes_sextets [OF b] comp_def)
qed

section \<open>Password hashes\<close>

text \<open>\<open>ar_IDKey password salt time memory threads keyLen\<close>.\<close>

record argon2 =
  ar_Version :: int
  ar_IDKey :: "string \<Rightarrow> string \<Rightarrow> nat \<Rightarrow> nat \<Rightarrow> nat \<Rightarrow> nat \<Rightarrow> string"

definition argon2Time :: nat where "argon2Time = 3"
definition argon2Memory :: nat where "argon2Memory = 64 * 1024"
definition argon2Threads :: nat where "argon2Threads = 4"
definition argon2KeyLen :: nat where "argon2KeyLen = 32"
definition argon2SaltLen :: nat where "argon2SaltLen = 16"

lemmas argon2_consts = argon2Time_def argon2Memory_def argon2Threads_def argon2KeyLen_def

text \<open>The salt is the random bytes, or the error of the generator.\<close>

definition HashPassword :: "argon2 \<Rightarrow> (string, string) result \<Rightarrow> string \<Rightarrow> (string, string) result" where
  "HashPassword A rnd password =
     (case rnd of
        Inl e \<Rightarrow> Inl (''failed to generate salt: '' @ e)
      | Inr salt \<Rightarrow>
          (let hash = ar_IDKey A password salt argon2Time argon2Memory argon2Threads argon2KeyLen
           in Inr (''$argon2id$v='' @ show_int (ar_Version A) @ ''$m='' @ show_nat argon2Memory @ '',t='' @
                   show_nat argon2Time @ '',p='' @ show_nat argon2Threads @ ''$'' @ EncodeToString salt @ ''$'' @
                   EncodeToString hash)))"

text \<open>The verb \<open>%d\<close> of \<open>Sscanf\<close>: blanks are skipped, at least one digit is needed, the value has to fit.\<close>

definition scan_digits :: "string \<Rightarrow> (nat \<times> string) option" where
  "scan_digits s =
     (let ds = takeWhile is_digit s
      in if ds = [] then None else map_option (\<lambda>n. (n, dropWhile is_digit s)) (parse_digits 0 ds))"

definition skip_blanks :: "string \<Rightarrow> string" where
  "skip_blanks s = dropWhile (\<lambda>c. is_space c \<and> c \<noteq> CHR 0x0A) s"

definition scan_uint :: "nat \<Rightarrow> string \<Rightarrow> (nat \<times> string) option" where
  "scan_uint bits s =
     (case scan_digits (skip_blanks s) of
        Some (n, rest) \<Rightarrow> if n < 2 ^ bits then Some (n, rest) else None
      | None \<Rightarrow> None)"

definition scan_int :: "string \<Rightarrow> (int \<times> string) option" where
  "scan_int s0 =
     (let s = skip_blanks s0;
          neg = HasPrefix s ''-'';
          t = (if neg \<or> HasPrefix s ''+'' then tl s else s)
      in case scan_digits t of
           Some (n, rest) \<Rightarrow>
             (let v = (if neg then - int n else int n)
              in if - (2 ^ 63) \<le> v \<and> v < 2 ^ 63 then Some (v, rest) else None)
         | None \<Rightarrow> None)"

definition scan_lit :: "string \<Rightarrow> string \<Rightarrow> string option" where
  "scan_lit lit s = (if HasPrefix s lit then Some (drop (length lit) s) else None)"

record argon2Params =
  ap_memory :: nat
  ap_time :: nat
  ap_threads :: nat
  ap_keyLen :: nat

definition scan_params :: "string \<Rightarrow> (nat \<times> nat \<times> nat) option" where
  "scan_params s =
     (case scan_lit ''m='' s of None \<Rightarrow> None | Some s1 \<Rightarrow>
     (case scan_uint 32 s1 of None \<Rightarrow> None | Some (m, s2) \<Rightarrow>
     (case scan_lit '',t='' s2 of None \<Rightarrow> None | Some s3 \<Rightarrow>
     (case scan_uint 32 s3 of None \<Rightarrow> None | Some (t, s4) \<Rightarrow>
     (case scan_lit '',p='' s4 of None \<Rightarrow> None | Some s5 \<Rightarrow>
     (case scan_uint 8 s5 of None \<Rightarrow> None | Some (p, s6) \<Rightarrow> Some (m, t, p)))))))"

definition parseArgon2Hash :: "argon2 \<Rightarrow> string \<Rightarrow> (argon2Params \<times> string \<times> string) option" where
  "parseArgon2Hash A encoded =
     (case Split encoded (CHR ''$'') of
        [p0, p1, p2, p3, p4, p5] \<Rightarrow>
          (if p1 \<noteq> ''argon2id'' then None
           else (case Option.bind (scan_lit ''v='' p2) scan_int of
                   None \<Rightarrow> None
                 | Some (version, rest) \<Rightarrow>
                     (if version \<noteq> ar_Version A then None
                      else (case scan_params p3 of
                              None \<Rightarrow> None
                            | Some (m, t, p) \<Rightarrow>
                                (case DecodeString p4 of
                                   None \<Rightarrow> None
                                 | Some salt \<Rightarrow>
                                     (case DecodeString p5 of
                                        None \<Rightarrow> None
                                      | Some hash \<Rightarrow>
                                          Some (\<lparr>ap_memory = m, ap_time = t, ap_threads = p,
                                                 ap_keyLen = length hash mod 2 ^ 32\<rparr>, salt, hash)))))))
      | _ \<Rightarrow> None)"

definition VerifyPassword :: "argon2 \<Rightarrow> string \<Rightarrow> string \<Rightarrow> bool" where
  "VerifyPassword A password encoded =
     (case parseArgon2Hash A encoded of
        None \<Rightarrow> False
      | Some (params, salt, hash) \<Rightarrow>
          hash = ar_IDKey A password salt (ap_time params) (ap_memory params) (ap_threads params) (ap_keyLen params))"

lemma scan_digits_show:
  assumes "s = [] \<or> \<not> is_digit (hd s)"
  shows "scan_digits (show_nat n @ s) = Some (n, s)"
proof -
  have "takeWhile is_digit (show_nat n @ s) = show_nat n" "dropWhile is_digit (show_nat n @ s) = s"
    using assms show_nat_digits by (cases s; auto simp: takeWhile_append dropWhile_append)+
  then show ?thesis using show_nat_not_Nil [of n] by (simp add: scan_digits_def parse_show_nat)
qed

lemma skip_blanks_show: "skip_blanks (show_nat n @ s) = show_nat n @ s"
proof -
  obtain c t where c: "show_nat n = c # t" using show_nat_not_Nil [of n] by (cases "show_nat n") auto
  then have "is_digit c" using show_nat_digits [of c n] by simp
  with c show ?thesis using digit_not_space by (simp add: skip_blanks_def)
qed

lemma scan_uint_show:
  "n < 2 ^ bits \<Longrightarrow> s = [] \<or> \<not> is_digit (hd s) \<Longrightarrow> scan_uint bits (show_nat n @ s) = Some (n, s)"
  by (simp add: scan_uint_def skip_blanks_show scan_digits_show)

lemma scan_int_show:
  assumes "0 \<le> v" "v < 2 ^ 63"
  shows "scan_int (show_int v) = Some (v, [])"
proof -
  obtain c t where c: "show_nat (nat v) = c # t" using show_nat_not_Nil by (cases "show_nat (nat v)") auto
  then have "is_digit c" using show_nat_digits [of c "nat v"] by simp
  then have "c \<noteq> CHR ''-''" "c \<noteq> CHR ''+''" by (auto simp: is_digit_def)
  then have h: "\<not> HasPrefix (show_nat (nat v)) ''-''" "\<not> HasPrefix (show_nat (nat v)) ''+''"
    by (simp_all add: c)
  show ?thesis
    using assms h skip_blanks_show [of "nat v" "[]"] scan_digits_show [of "[]" "nat v"]
    by (simp add: scan_int_def show_int_def Let_def)
qed

lemma scan_lit_append: "scan_lit lit (lit @ s) = Some s"
  by (simp add: scan_lit_def HasPrefix_append)

lemma scan_params_print:
  "scan_params (''m='' @ show_nat argon2Memory @ '',t='' @ show_nat argon2Time @ '',p='' @ show_nat argon2Threads)
     = Some (argon2Memory, argon2Time, argon2Threads)"
proof -
  have "scan_uint 32 (show_nat argon2Memory @ '',t='' @ s) = Some (argon2Memory, '',t='' @ s)"
    "scan_uint 32 (show_nat argon2Time @ '',p='' @ s) = Some (argon2Time, '',p='' @ s)"
    "scan_uint 8 (show_nat argon2Threads @ []) = Some (argon2Threads, [])" for s
    by (rule scan_uint_show; simp add: argon2_consts is_digit_def)+
  then show ?thesis unfolding scan_params_def by (simp only: scan_lit_append option.case prod.case append_Nil2)
qed

text \<open>What the argon2 package documents: its version is a small number and a key has the length asked for.\<close>

definition argon2_ok :: "argon2 \<Rightarrow> bool" where
  "argon2_ok A \<longleftrightarrow> 0 \<le> ar_Version A \<and> ar_Version A < 2 ^ 63 \<and>
     (\<forall>p s t m th k. length (ar_IDKey A p s t m th k) = k)"

definition password_key :: "argon2 \<Rightarrow> string \<Rightarrow> string \<Rightarrow> string" where
  "password_key A salt p = ar_IDKey A p salt argon2Time argon2Memory argon2Threads argon2KeyLen"

lemma b64_no_dollar: "CHR ''$'' \<notin> set (EncodeToString s)"
proof -
  have "list_all (\<lambda>b. b < 256) (map of_char s :: nat list)" by (simp add: list_all_iff)
  from b64_sextets_bound [OF this] show ?thesis
    using b64_char_plain by (fastforce simp: EncodeToString_def list_all_iff)
qed

lemma show_no_dollar: "CHR ''$'' \<notin> set (show_nat n)"
  using show_nat_digits [of "CHR ''$''" n] by (auto simp: is_digit_def)

lemma parseArgon2Hash_print:
  assumes "argon2_ok A" "HashPassword A (Inr salt) p = Inr enc"
  shows "parseArgon2Hash A enc = Some (\<lparr>ap_memory = argon2Memory, ap_time = argon2Time, ap_threads = argon2Threads,
    ap_keyLen = argon2KeyLen\<rparr>, salt, password_key A salt p)"
proof -
  let ?v = "''v='' @ show_int (ar_Version A)"
  let ?m = "''m='' @ show_nat argon2Memory @ '',t='' @ show_nat argon2Time @ '',p='' @ show_nat argon2Threads"
  have ver: "0 \<le> ar_Version A" "ar_Version A < 2 ^ 63" using assms(1) by (simp_all add: argon2_ok_def)
  have enc: "enc = [] @ CHR ''$'' # ''argon2id'' @ CHR ''$'' # ?v @ CHR ''$'' # ?m @ CHR ''$'' #
      EncodeToString salt @ CHR ''$'' # EncodeToString (password_key A salt p)"
    using assms(2) by (auto simp: HashPassword_def Let_def password_key_def)
  have "CHR ''$'' \<notin> set ?v" "CHR ''$'' \<notin> set ?m" "CHR ''$'' \<notin> set ''argon2id''"
    using ver(1) by (auto simp: show_no_dollar show_int_def)
  then have sp: "Split enc (CHR ''$'') = [[], ''argon2id'', ?v, ?m, EncodeToString salt, EncodeToString (password_key A salt p)]"
    unfolding enc by (simp only: Split_append_sep Split_single b64_no_dollar list.set empty_iff not_False_eq_True)
  have "scan_lit ''v='' ?v = Some (show_int (ar_Version A))" by (rule scan_lit_append)
  moreover have "length (password_key A salt p) mod 2 ^ 32 = argon2KeyLen"
    using assms(1) by (simp add: argon2_ok_def password_key_def argon2KeyLen_def)
  ultimately show ?thesis
    unfolding parseArgon2Hash_def sp
    by (simp only: list.case simp_thms if_False option.case prod.case bind.bind_lunit scan_int_show [OF ver]
        scan_params_print b64_round_trip)
qed

lemma verify_hash:
  assumes "argon2_ok A" "HashPassword A (Inr salt) p = Inr enc"
  shows "VerifyPassword A p' enc \<longleftrightarrow> password_key A salt p' = password_key A salt p"
  by (auto simp: VerifyPassword_def parseArgon2Hash_print [OF assms] password_key_def)

text \<open>A password verifies against a hash that \<open>HashPassword\<close> made exactly when its argon2 key under the stored
  salt and parameters is the key of the password that was hashed: what is encoded is parsed back
  without loss. In particular the password itself always verifies.\<close>

theorem VerifyPassword_HashPassword:
  assumes "argon2_ok A" and "HashPassword A (Inr salt) p = Inr enc"
  shows "(VerifyPassword A p' enc \<longleftrightarrow> password_key A salt p' = password_key A salt p) \<and> VerifyPassword A p enc"
  using verify_hash [OF assms] by simp

section \<open>Accounts\<close>

datatype auth_error =
    ErrInvalidCredentials | ErrUserNotFound | ErrUserDisabled | ErrDomainNotFound
  | ErrValidation v_error
  | ErrEmailFormat
  | ErrDB string string \<comment> \<open>wrapping text, database error\<close>
  | ErrHash string

text \<open>The time stamps of an account are not modelled.\<close>

record user =
  us_ID :: int
  us_DomainID :: int
  us_Username :: string
  us_Domain :: string
  us_Email :: string
  us_DisplayName :: string
  us_QuotaBytes :: int
  us_UsedBytes :: int
  us_IsActive :: bool

definition parseEmail :: "string \<Rightarrow> (string \<times> string) option" where
  "parseEmail email0 =
     (let email = TrimSpace (ToLower email0)
      in case SplitN2 email (CHR ''@'') of
           [username, domain] \<Rightarrow>
             (if username = [] \<or> domain = [] then None
              else if ValidateUsername username \<noteq> None then None
              else if ValidateDomain domain \<noteq> None then None
              else Some (username, domain))
         | _ \<Rightarrow> None)"

definition users_join_domains :: "world \<Rightarrow> (user_row \<times> domain_row) list" where
  "users_join_domains w = [(u, d). u \<leftarrow> w_users w, d \<leftarrow> w_domains w, u_domain_id u = d_id d]"

definition scan_user :: "user_row \<times> domain_row \<Rightarrow> user" where
  "scan_user ud = (case ud of (u, d) \<Rightarrow>
     \<lparr>us_ID = u_id u, us_DomainID = u_domain_id u, us_Username = u_username u, us_Domain = d_name d,
      us_Email = u_username u @ ''@'' @ d_name d,
      us_DisplayName = (case u_display_name u of None \<Rightarrow> [] | Some n \<Rightarrow> n),
      us_QuotaBytes = u_quota_bytes u, us_UsedBytes = u_used_bytes u, us_IsActive = u_active u\<rparr>)"

definition lookupUserWithPassword :: "string \<Rightarrow> string \<Rightarrow> (auth_error, user \<times> string) proc" where
  "lookupUserWithPassword username domain =
     bindE (mapErr (ErrDB ''failed to lookup user'')
              (readE (\<lambda>w. find (\<lambda>(u, d). d_name d = domain \<and> u_username u = username) (users_join_domains w))))
       (\<lambda>row. case row of
          None \<Rightarrow> failE ErrUserNotFound
        | Some (u, d) \<Rightarrow> retE (scan_user (u, d), u_password_hash u))"

definition Authenticate :: "argon2 \<Rightarrow> string \<Rightarrow> string \<Rightarrow> (auth_error, user) proc" where
  "Authenticate A email password =
     (case parseEmail email of
        None \<Rightarrow> failE ErrInvalidCredentials
      | Some (username, domain) \<Rightarrow>
          bindE (mapErr (\<lambda>e. if e = ErrUserNotFound then ErrInvalidCredentials else e)
                   (lookupUserWithPassword username domain))
            (\<lambda>(user, passwordHash).
               if \<not> us_IsActive user then failE ErrUserDisabled
               else if ValidatePassword password \<noteq> None then failE ErrInvalidCredentials
               else if \<not> VerifyPassword A password passwordHash then failE ErrInvalidCredentials
               else retE user))"

definition LookupUser :: "string \<Rightarrow> (auth_error, user) proc" where
  "LookupUser email =
     (case parseEmail email of
        None \<Rightarrow> failE ErrEmailFormat
      | Some (username, domain) \<Rightarrow> bindE (lookupUserWithPassword username domain) (\<lambda>(user, h). retE user))"

definition LookupUserByID :: "int \<Rightarrow> (auth_error, user) proc" where
  "LookupUserByID i =
     bindE (mapErr (ErrDB ''failed to query user by id'') (readE (\<lambda>w. find (\<lambda>(u, d). u_id u = i) (users_join_domains w))))
       (\<lambda>row. case row of None \<Rightarrow> failE ErrUserNotFound | Some ud \<Rightarrow> retE (scan_user ud))"

definition active_domain :: "string \<Rightarrow> world \<Rightarrow> domain_row option" where
  "active_domain name w = find (\<lambda>d. d_name d = name \<and> d_active d) (w_domains w)"

definition ValidateAddress :: "string \<Rightarrow> (auth_error, bool) proc" where
  "ValidateAddress email =
     (case parseEmail email of
        None \<Rightarrow> retE False
      | Some (username, domain) \<Rightarrow>
     bindE (mapErr (ErrDB ''failed to query domain'') (readE (active_domain domain))) (\<lambda>row.
     case row of None \<Rightarrow> retE False | Some d \<Rightarrow>
     bindE (mapErr (ErrDB ''failed to query user'')
              (readE (\<lambda>w. list_ex (\<lambda>u. u_domain_id u = d_id d \<and> u_username u = username \<and> u_active u) (w_users w))))
       (\<lambda>userExists.
     if userExists then retE True
     else mapErr (ErrDB ''failed to query alias'')
            (readE (\<lambda>w. list_ex (\<lambda>a. a_domain_id a = d_id d \<and> a_source_address a = username \<and> a_active a)
                          (w_aliases w))))))"

text \<open>\<open>ResolveAlias\<close>: the user, the external address, or neither.\<close>

definition ResolveAlias :: "string \<Rightarrow> (auth_error, int option \<times> string option) proc" where
  "ResolveAlias email =
     (case parseEmail email of
        None \<Rightarrow> failE ErrEmailFormat
      | Some (username, domain) \<Rightarrow>
     bindE (mapErr (ErrDB ''failed to resolve alias'')
              (readE (\<lambda>w. find (\<lambda>(a, d). d_name d = domain \<and> a_source_address a = username \<and> a_active a)
                            [(a, d). a \<leftarrow> w_aliases w, d \<leftarrow> w_domains w, a_domain_id a = d_id d])))
       (\<lambda>row. case row of
          None \<Rightarrow> retE (None, None)
        | Some (a, d) \<Rightarrow>
            (case a_destination_user_id a of
               Some u \<Rightarrow> retE (Some u, None)
             | None \<Rightarrow> (case a_destination_external a of
                           Some x \<Rightarrow> retE (None, Some x)
                         | None \<Rightarrow> retE (None, None)))))"

definition GetDomainID :: "string \<Rightarrow> (auth_error, int) proc" where
  "GetDomainID name =
     (case ValidateDomain name of
        Some e \<Rightarrow> failE (ErrValidation e)
      | None \<Rightarrow>
          bindE (mapErr (ErrDB ''failed to query domain'') (readE (active_domain name)))
            (\<lambda>row. case row of None \<Rightarrow> failE ErrDomainNotFound | Some d \<Rightarrow> retE (d_id d)))"

text \<open>The INSERT of a user: the foreign key and the unique pair of domain and name are checked; quota and
  usage get their defaults.\<close>

definition insert_user :: "int \<Rightarrow> string \<Rightarrow> string \<Rightarrow> world \<Rightarrow> (string, world \<times> int) result" where
  "insert_user domainID username passwordHash w =
     (if \<not> list_ex (\<lambda>d. d_id d = domainID) (w_domains w) then Inl ''FOREIGN KEY constraint failed''
      else if list_ex (\<lambda>u. u_domain_id u = domainID \<and> u_username u = username) (w_users w)
      then Inl ''UNIQUE constraint failed''
      else (let i = w_user_seq w + 1
            in Inr (w\<lparr>w_user_seq := i,
                      w_users := w_users w @ [\<lparr>u_id = i, u_domain_id = domainID, u_username = username,
                        u_password_hash = passwordHash, u_display_name = None, u_quota_bytes = 1073741824,
                        u_used_bytes = 0, u_active = True\<rparr>]\<rparr>, i)))"

text \<open>\<open>CreateUser\<close>: the statements between BEGIN and COMMIT take effect only with the commit.\<close>

definition CreateUser ::
    "argon2 \<Rightarrow> (string, string) result \<Rightarrow> string \<Rightarrow> string \<Rightarrow> int \<Rightarrow> (auth_error, user) proc" where
  "CreateUser A rnd username0 password domainID w0 =
     (case ValidateUsername username0 of
        Some e \<Rightarrow> (w0, Inl (ErrValidation e))
      | None \<Rightarrow>
     (case ValidatePassword password of
        Some e \<Rightarrow> (w0, Inl (ErrValidation e))
      | None \<Rightarrow>
     (let username = ToLower (TrimSpace username0);
          rollback = (\<lambda>w. w0\<lparr>w_faults := w_faults w\<rparr>);
          tx = bindE (mapErr (ErrDB ''failed to begin transaction'') (readE (\<lambda>w. ()))) (\<lambda>_.
               bindE (mapErr (ErrDB ''failed to query domain id'')
                        (readE (\<lambda>w. find (\<lambda>d. d_id d = domainID \<and> d_active d) (w_domains w)))) (\<lambda>row.
               case row of None \<Rightarrow> failE ErrDomainNotFound | Some d \<Rightarrow>
               (case HashPassword A rnd password of
                  Inl e \<Rightarrow> failE (ErrHash e)
                | Inr passwordHash \<Rightarrow>
               bindE (mapErr (ErrDB ''failed to create user'') (tryE (insert_user domainID username passwordHash))) (\<lambda>i.
               bindE (mapErr (ErrDB ''failed to commit transaction'') (readE (\<lambda>w. ()))) (\<lambda>_.
               retE \<lparr>us_ID = i, us_DomainID = domainID, us_Username = username, us_Domain = d_name d,
                     us_Email = username @ ''@'' @ d_name d, us_DisplayName = [], us_QuotaBytes = 0,
                     us_UsedBytes = 0, us_IsActive = True\<rparr>)))))
      in case tx w0 of
           (w, Inl e) \<Rightarrow> (rollback w, Inl e)
         | (w, Inr user) \<Rightarrow> (w, Inr user))))"

definition UpdatePassword :: "argon2 \<Rightarrow> (string, string) result \<Rightarrow> int \<Rightarrow> string \<Rightarrow> (auth_error, unit) proc" where
  "UpdatePassword A rnd userID password =
     (case ValidatePassword password of
        Some e \<Rightarrow> failE (ErrValidation e)
      | None \<Rightarrow>
     (case HashPassword A rnd password of
        Inl e \<Rightarrow> failE (ErrHash e)
      | Inr passwordHash \<Rightarrow>
     bindE (mapErr (ErrDB ''failed to update password'')
              (execE (\<lambda>w. (w\<lparr>w_users := map (\<lambda>u. if u_id u = userID then u\<lparr>u_password_hash := passwordHash\<rparr> else u) (w_users w)\<rparr>,
                           length [u \<leftarrow> w_users w. u_id u = userID]))))
       (\<lambda>affected. if affected = 0 then failE ErrUserNotFound else retE ())))"

definition UpdateUsedBytes :: "int \<Rightarrow> int \<Rightarrow> (string, unit) proc" where
  "UpdateUsedBytes userID delta =
     execE (\<lambda>w. (w\<lparr>w_users := map (\<lambda>u. if u_id u = userID then u\<lparr>u_used_bytes := max 0 (u_used_bytes u + delta)\<rparr> else u)
                                 (w_users w)\<rparr>, ()))"

text \<open>\<open>None\<close> is \<open>sql.ErrNoRows\<close>, which the method passes on.\<close>

definition GetQuotaStatus :: "int \<Rightarrow> (string, (int \<times> int) option) proc" where
  "GetQuotaStatus userID =
     readE (\<lambda>w. map_option (\<lambda>u. (u_quota_bytes u, u_used_bytes u)) (find (\<lambda>u. u_id u = userID) (w_users w)))"

section \<open>Logging in\<close>

text \<open>The constraints of the schema, and domain names as the administration enters them: valid, lower case
  and trimmed.\<close>

definition domain_name_ok :: "string \<Rightarrow> bool" where
  "domain_name_ok n \<longleftrightarrow> Domain n = None \<and> ToLower n = n \<and> TrimSpace n = n"

definition accounts_ok :: "world \<Rightarrow> bool" where
  "accounts_ok w \<longleftrightarrow> distinct (map d_id (w_domains w)) \<and> distinct (map d_name (w_domains w)) \<and>
     distinct (map u_id (w_users w)) \<and> distinct (map (\<lambda>u. (u_domain_id u, u_username u)) (w_users w)) \<and>
     list_all (\<lambda>u. u_id u \<le> w_user_seq w) (w_users w) \<and> list_all (\<lambda>d. domain_name_ok (d_name d)) (w_domains w)"

definition account :: "world \<Rightarrow> string \<Rightarrow> string \<Rightarrow> user_row \<Rightarrow> domain_row \<Rightarrow> bool" where
  "account w username domain u d \<longleftrightarrow> u \<in> set (w_users w) \<and> d \<in> set (w_domains w) \<and> u_domain_id u = d_id d \<and>
     u_username u = username \<and> d_name d = domain"

lemma accounts_ok_same: "same_world w w' \<Longrightarrow> accounts_ok w' = accounts_ok w"
  by (simp add: accounts_ok_def same_worldD)

lemma account_same: "same_world w w' \<Longrightarrow> account w' = account w"
  by (simp add: account_def same_worldD fun_eq_iff)

lemma join_same: "same_world w w' \<Longrightarrow> users_join_domains w' = users_join_domains w"
  by (simp add: users_join_domains_def same_worldD)

lemma distinct_map_eq: "distinct (map f xs) \<Longrightarrow> x \<in> set xs \<Longrightarrow> y \<in> set xs \<Longrightarrow> f x = f y \<Longrightarrow> x = y"
  by (meson distinct_map inj_onD)

lemma account_unique:
  assumes "accounts_ok w" "account w n m u d" "account w n m u' d'"
  shows "u' = u \<and> d' = d"
proof -
  have "d' = d" using assms distinct_map_eq [of d_name "w_domains w" d' d]
    by (auto simp: accounts_ok_def account_def)
  then show ?thesis using assms distinct_map_eq [of "\<lambda>u. (u_domain_id u, u_username u)" "w_users w" u' u]
    by (auto simp: accounts_ok_def account_def)
qed

lemma set_join: "set (users_join_domains w) = {(u, d). u \<in> set (w_users w) \<and> d \<in> set (w_domains w) \<and> u_domain_id u = d_id d}"
  by (auto simp: users_join_domains_def)

lemma find_join_None:
  "find (\<lambda>(u, d). d_name d = m \<and> u_username u = n) (users_join_domains w) = None \<longleftrightarrow> (\<nexists>u d. account w n m u d)"
  by (auto simp: find_None_iff set_join account_def)

lemma find_join_Some:
  "find (\<lambda>(u, d). d_name d = m \<and> u_username u = n) (users_join_domains w) = Some (u, d) \<Longrightarrow> account w n m u d"
  by (auto simp: find_Some_iff account_def dest!: nth_mem) (auto simp: set_join)

lemma find_join_account:
  assumes "accounts_ok w" "account w n m u d"
  shows "find (\<lambda>(u, d). d_name d = m \<and> u_username u = n) (users_join_domains w) = Some (u, d)"
proof (cases "find (\<lambda>(u, d). d_name d = m \<and> u_username u = n) (users_join_domains w)")
  case None
  then show ?thesis using assms(2) find_join_None [of m n w] by blast
next
  case (Some x)
  obtain u' d' where x: "x = (u', d')" by fastforce
  with Some find_join_Some have "account w n m u' d'" by blast
  with account_unique [OF assms(1)] assms(2) Some x show ?thesis by blast
qed

lemma scan_user_active [simp]: "us_IsActive (scan_user (u, d)) = u_active u" "us_ID (scan_user (u, d)) = u_id u"
  by (simp_all add: scan_user_def)

lemma lookup_Inr:
  "lookupUserWithPassword n m w = (w', Inr (us, h)) \<Longrightarrow>
     same_world w w' \<and> (\<exists>u d. account w n m u d \<and> us = scan_user (u, d) \<and> h = u_password_hash u)"
proof -
  assume "lookupUserWithPassword n m w = (w', Inr (us, h))"
  then obtain u d where r: "readE (\<lambda>w. find (\<lambda>(u, d). d_name d = m \<and> u_username u = n) (users_join_domains w)) w
      = (w', Inr (Some (u, d)))" and us: "us = scan_user (u, d)" "h = u_password_hash u"
    by (auto simp: lookupUserWithPassword_def bindE_Inr split: option.splits)
  note x = readE_Inr [OF r]
  then have "account w' n m u d" by (intro find_join_Some) simp
  with x us show ?thesis using account_same by metis
qed

lemma lookup_ok:
  assumes "accounts_ok w" "w_faults w = []" "account w n m u d"
  shows "lookupUserWithPassword n m w = (w, Inr (scan_user (u, d), u_password_hash u))"
  using assms by (simp add: lookupUserWithPassword_def runE find_join_account)

text \<open>C18. A log-in succeeds only for an existing and active account whose user name and domain are those of
  the address, lowered and trimmed, with a password of 8 to 128 bytes that verifies against the stored
  hash, and changes no table; and when the database works, every such log-in succeeds.\<close>

theorem Authenticate_iff:
  assumes ok: "accounts_ok w"
  shows "(Authenticate A email password w = (w', Inr us) \<longrightarrow> same_world w w' \<and>
      (\<exists>n m u d. parseEmail email = Some (n, m) \<and> account w n m u d \<and> u_active u \<and> Password password = None \<and>
         VerifyPassword A password (u_password_hash u) \<and> us = scan_user (u, d))) \<and>
    (w_faults w = [] \<and> parseEmail email = Some (n, m) \<and> account w n m u d \<and> u_active u \<and> Password password = None \<and>
       VerifyPassword A password (u_password_hash u) \<longrightarrow> Authenticate A email password w = (w, Inr (scan_user (u, d))))"
proof (intro conjI impI)
  assume "Authenticate A email password w = (w', Inr us)"
  then obtain n m h where p: "parseEmail email = Some (n, m)" and l: "lookupUserWithPassword n m w = (w', Inr (us, h))"
    and v: "us_IsActive us" "Password password = None" "VerifyPassword A password h"
    by (auto simp: Authenticate_def bindE_Inr Validate_eqs split: option.splits if_splits)
  from lookup_Inr [OF l] obtain u d where "same_world w w'" "account w n m u d" "us = scan_user (u, d)" "h = u_password_hash u"
    by blast
  with p v show "same_world w w'"
    "\<exists>n m u d. parseEmail email = Some (n, m) \<and> account w n m u d \<and> u_active u \<and> Password password = None \<and>
         VerifyPassword A password (u_password_hash u) \<and> us = scan_user (u, d)"
    using scan_user_active by metis+
next
  assume a: "w_faults w = [] \<and> parseEmail email = Some (n, m) \<and> account w n m u d \<and> u_active u \<and> Password password = None \<and>
       VerifyPassword A password (u_password_hash u)"
  then show "Authenticate A email password w = (w, Inr (scan_user (u, d)))"
    using lookup_ok [OF ok, of n m u d] by (simp add: Authenticate_def runE Validate_eqs)
qed

text \<open>The state of an account is told to anybody: the log-in of a disabled account answers that it is
  disabled, whatever password is given.\<close>

theorem disabled_account_disclosed:
  assumes "accounts_ok w" "w_faults w = []" "parseEmail email = Some (n, m)" "account w n m u d" "\<not> u_active u"
  shows "Authenticate A email password w = (w, Inl ErrUserDisabled)"
  using assms lookup_ok [OF assms(1,2,4)] by (simp add: Authenticate_def runE)

section \<open>A new account can log in\<close>

lemma lower_char_cases:
  "lower_char c = c \<or> 65 \<le> (of_char c :: nat) \<and> of_char c \<le> (90 :: nat) \<and> of_char (lower_char c) = (of_char c + 32 :: nat)"
  by (simp add: lower_char_def Let_def of_char_of)

lemma lower_char_other:
  assumes "\<not> (97 \<le> (of_char x :: nat) \<and> of_char x \<le> (122 :: nat))" "\<not> (65 \<le> (of_char x :: nat) \<and> of_char x \<le> (90 :: nat))"
  shows "lower_char c = x \<longleftrightarrow> c = x"
proof
  assume "lower_char c = x"
  with lower_char_cases [of c] assms(1) show "c = x" by (elim disjE) auto
next
  assume "c = x"
  with assms(2) show "lower_char c = x" by (auto simp: lower_char_def Let_def)
qed

lemma lower_char_class:
  "alnum (lower_char c) = alnum c" "user_char (lower_char c) = user_char c" "is_space (lower_char c) = is_space c"
proof -
  show a: "alnum (lower_char c) = alnum c"
    using lower_char_cases [of c] by (auto simp: alnum_def Let_def)
  show "is_space (lower_char c) = is_space c"
    using lower_char_cases [of c] by (auto simp: is_space_def Let_def)
  show "user_char (lower_char c) = user_char c"
    using a lower_char_other [of "CHR ''.''" c] lower_char_other [of "CHR ''+''" c] lower_char_other [of "CHR ''-''" c]
      lower_char_other [of "CHR ''_''" c]
    by (simp add: user_char_def)
qed

lemma Contains_dots_lower: "Contains (ToLower s) ''..'' = Contains s ''..''"
proof -
  have p: "HasPrefix (map lower_char s) ''..'' = HasPrefix s ''..''" for s
    using lower_char_other [of "CHR ''.''"] by (auto simp: HasPrefix_iff map_eq_append_conv map_eq_Cons_conv)
  have "Index (map lower_char s) ''..'' = Index s ''..''"
  proof (induction s)
    case (Cons a s)
    then show ?case using p [of "a # s"] by (simp del: HasPrefix_simps)
  qed simp
  then show ?thesis by (simp add: Contains_def ToLower_def)
qed

lemma username_normalised:
  assumes "Username u = None"
  shows "Username (ToLower (TrimSpace u)) = None \<and> framed user_char (ToLower (TrimSpace u)) \<and>
    TrimSpace (ToLower (TrimSpace u)) = ToLower (TrimSpace u)"
proof -
  let ?v = "TrimSpace u"
  have v: "length ?v \<le> 64" "framed user_char ?v" "\<not> Contains ?v ''..''" using assms by (simp_all add: Username_accepts)
  then have f: "framed user_char (ToLower ?v)"
    by (simp add: framed_def ToLower_def lower_char_class list.pred_map comp_def hd_map last_map)
  have "\<not> is_space (hd ?v)" "\<not> is_space (last ?v)" "?v \<noteq> []"
    using v(2) by (auto simp: framed_def alnum_def is_space_def Let_def)
  then have "TrimSpace (ToLower ?v) = ToLower ?v"
    by (intro TrimSpace_id) (simp_all add: ToLower_def hd_map last_map lower_char_class)
  with v f show ?thesis by (simp add: Username_accepts Contains_dots_lower)
qed

lemma TrimSpace_last: "TrimSpace s \<noteq> [] \<Longrightarrow> \<not> is_space (last (TrimSpace s))"
  unfolding TrimSpace_def by (metis hd_dropWhile last_rev rev_is_Nil_conv)

lemma parseEmail_print:
  assumes "Username u = None" "framed user_char u" "ToLower u = u" "TrimSpace u = u" "domain_name_ok d"
  shows "parseEmail (u @ ''@'' @ d) = Some (u, d)"
proof -
  have d: "Domain d = None" "ToLower d = d" "TrimSpace d = d" using assms(5) by (simp_all add: domain_name_ok_def)
  have "d \<noteq> []" using d by (auto simp: Domain_accepts label_ok_def framed_def)
  then have l: "\<not> is_space (last d)" using d(3) TrimSpace_last [of d] by simp
  have h: "\<not> is_space (hd u)" "u \<noteq> []"
    using assms(2) by (auto simp: framed_def alnum_def is_space_def Let_def)
  have at: "CHR ''@'' \<notin> set u" using assms(2) by (auto simp: framed_def list_all_iff user_char_def alnum_def Let_def)
  have "TrimSpace (u @ CHR ''@'' # d) = u @ CHR ''@'' # d"
    using h l \<open>d \<noteq> []\<close> by (intro TrimSpace_id) (simp_all add: hd_append)
  moreover have "ToLower (u @ CHR ''@'' # d) = u @ CHR ''@'' # d"
    using assms(3) d(2) by (simp add: ToLower_def lower_char_other)
  ultimately show ?thesis
    using SplitN2_append [OF at, of d] assms(1) d(1) h(2) \<open>d \<noteq> []\<close>
    by (simp add: parseEmail_def Let_def Validate_eqs)
qed

lemma CreateUser_Inr:
  assumes "CreateUser A (Inr salt) username password domainID w = (w', Inr us)"
  shows "\<exists>d w1 enc. same_world w w1 \<and> d \<in> set (w_domains w) \<and> d_id d = domainID \<and> Username username = None \<and>
    Password password = None \<and> HashPassword A (Inr salt) password = Inr enc \<and>
    (\<exists>w2. insert_user domainID (ToLower (TrimSpace username)) enc w1 = Inr (w2, us_ID us) \<and> same_world w2 w') \<and>
    us_Email us = ToLower (TrimSpace username) @ ''@'' @ d_name d"
proof -
  obtain enc where h: "HashPassword A (Inr salt) password = Inr enc" by (simp add: HashPassword_def Let_def)
  from assms obtain wa wb wc d where v: "Username username = None" "Password password = None"
    and a: "readE (\<lambda>w. ()) w = (wa, Inr ())"
    and b: "readE (\<lambda>w. find (\<lambda>d. d_id d = domainID \<and> d_active d) (w_domains w)) wa = (wb, Inr (Some d))"
    and c: "tryE (insert_user domainID (ToLower (TrimSpace username)) enc) wb = (wc, Inr (us_ID us))"
    and e: "readE (\<lambda>w. ()) wc = (w', Inr ())"
    and us: "us_Email us = ToLower (TrimSpace username) @ ''@'' @ d_name d"
    by (auto simp: CreateUser_def Let_def Validate_eqs bindE_Inr h split: option.splits prod.splits sum.splits)
  have "find (\<lambda>d. d_id d = domainID \<and> d_active d) (w_domains w) = Some d"
    using readE_Inr [OF b] same_worldD(1) [OF same_world_trans [OF readE_same [OF a] readE_same [OF b]]] by simp
  then have d: "d \<in> set (w_domains w)" "d_id d = domainID" by (auto simp: find_Some_iff)
  from tryE_Inr [OF c] obtain w1 where i: "same_world wb w1" "insert_user domainID (ToLower (TrimSpace username)) enc w1 = Inr (wc, us_ID us)"
    by blast
  have "same_world w w1" using readE_same [OF a] readE_same [OF b] i(1) same_world_trans by blast
  with v h i d us readE_same [OF e] show ?thesis by blast
qed

text \<open>The row that the INSERT adds keeps the constraints.\<close>

lemma accounts_ok_insert:
  assumes "accounts_ok w" "insert_user domainID username h w = Inr (w', i)"
  shows "accounts_ok w'"
proof -
  have "\<forall>u\<in>set (w_users w). u_id u < w_user_seq w + 1" using assms(1) by (fastforce simp: accounts_ok_def list_all_iff)
  with assms show ?thesis by (fastforce simp: accounts_ok_def insert_user_def list_all_iff list_ex_iff Let_def split: if_splits)
qed

text \<open>An account that \<open>CreateUser\<close> made can log in with its address and password, as the user that was
  returned, and only with passwords of the same argon2 key; the constraints of the tables still hold.\<close>

theorem create_then_login:
  assumes ok: "accounts_ok w" and A: "argon2_ok A"
    and cr: "CreateUser A (Inr salt) username password domainID w = (w', Inr us)" and nf: "w_faults w' = []"
  shows "accounts_ok w' \<and> (\<exists>us'. us_ID us' = us_ID us \<and> Authenticate A (us_Email us) password w' = (w', Inr us')) \<and>
    (password_key A salt other \<noteq> password_key A salt password \<longrightarrow>
       Authenticate A (us_Email us) other w' = (w', Inl ErrInvalidCredentials))"
proof -
  let ?u = "ToLower (TrimSpace username)"
  from CreateUser_Inr [OF cr] obtain d w1 enc w2 where w1: "same_world w w1" and d: "d \<in> set (w_domains w)" "d_id d = domainID"
    and v: "Username username = None" "Password password = None" and h: "HashPassword A (Inr salt) password = Inr enc"
    and ins: "insert_user domainID ?u enc w1 = Inr (w2, us_ID us)" and w2: "same_world w2 w'"
    and email: "us_Email us = ?u @ ''@'' @ d_name d" by blast
  let ?row = "\<lparr>u_id = us_ID us, u_domain_id = domainID, u_username = ?u, u_password_hash = enc, u_display_name = None,
    u_quota_bytes = 1073741824, u_used_bytes = 0, u_active = True\<rparr>"
  have users: "w_users w' = w_users w @ [?row]" "w_domains w' = w_domains w" "w_user_seq w' = w_user_seq w + 1"
    using ins same_worldD [OF w1] same_worldD [OF w2]
    by (auto simp: insert_user_def Let_def list_ex_iff split: if_splits)
  have ok': "accounts_ok w'"
    using accounts_ok_insert [OF _ ins] ok accounts_ok_same [OF w1] accounts_ok_same [OF w2] by simp
  have acc: "account w' ?u (d_name d) ?row d" using users d by (simp add: account_def)
  have dn: "domain_name_ok (d_name d)" using ok d by (simp add: accounts_ok_def list_all_iff)
  note un = username_normalised [OF v(1)]
  have pe: "parseEmail (us_Email us) = Some (?u, d_name d)"
    unfolding email using un dn by (intro parseEmail_print) simp_all
  note look = lookup_ok [OF ok' nf acc]
  have "Authenticate A (us_Email us) password w' = (w', Inr (scan_user (?row, d)))"
    using pe look v verify_hash [OF A h, of password] by (simp add: Authenticate_def runE Validate_eqs)
  moreover have "Authenticate A (us_Email us) other w' = (w', Inl ErrInvalidCredentials)"
    if "password_key A salt other \<noteq> password_key A salt password"
    using pe look that verify_hash [OF A h, of other] by (simp add: Authenticate_def runE)
  moreover have "us_ID (scan_user (?row, d)) = us_ID us" by simp
  ultimately show ?thesis using ok' by blast
qed

section \<open>Witnesses\<close>

definition wargon :: argon2 where
  "wargon = \<lparr>ar_Version = 19, ar_IDKey = (\<lambda>p s t m th k. take k (p @ s @ replicate k (CHR ''0'')))\<rparr>"

lemma wargon_ok: "argon2_ok wargon"
  by (auto simp: argon2_ok_def wargon_def min_def)

lemma wargon_keys: "password_key wargon ''salt'' ''secret13'' \<noteq> password_key wargon ''salt'' ''secret12''"
  by (simp add: password_key_def wargon_def argon2KeyLen_def)

definition whash :: string where
  "whash = projr (HashPassword wargon (Inr ''salt'') ''secret12'')"

lemma whash_eq: "HashPassword wargon (Inr ''salt'') ''secret12'' = Inr whash"
  by (simp add: whash_def HashPassword_def Let_def)

theorem VerifyPassword_HashPassword_witness: "VerifyPassword wargon ''secret12'' whash \<and> \<not> VerifyPassword wargon ''secret13'' whash"
  using VerifyPassword_HashPassword [OF wargon_ok whash_eq, of "''secret13''"] wargon_keys by simp

definition wworld :: world where
  "wworld = \<lparr>w_domains = [\<lparr>d_id = 1, d_name = ''x.org'', d_active = True\<rparr>],
     w_users = [\<lparr>u_id = 1, u_domain_id = 1, u_username = ''ann'', u_password_hash = whash, u_display_name = None,
       u_quota_bytes = 1000, u_used_bytes = 0, u_active = True\<rparr>,
       \<lparr>u_id = 2, u_domain_id = 1, u_username = ''bob'', u_password_hash = whash, u_display_name = None,
       u_quota_bytes = 1000, u_used_bytes = 0, u_active = False\<rparr>],
     w_aliases = [], w_mailboxes = [], w_messages = [], w_user_seq = 2, w_mailbox_seq = 0, w_message_seq = 0,
     w_dirs = [], w_files = [], w_faults = []\<rparr>"

lemma wworld_domain: "domain_name_ok ''x.org''"
  unfolding domain_name_ok_def by code_simp

lemma wworld_ok: "accounts_ok wworld"
  by (simp add: accounts_ok_def wworld_def wworld_domain)

lemma wworld_users: "account wworld ''ann'' ''x.org'' (w_users wworld ! 0) (hd (w_domains wworld))"
  "account wworld ''bob'' ''x.org'' (w_users wworld ! 1) (hd (w_domains wworld))"
  "u_active (w_users wworld ! 0)" "\<not> u_active (w_users wworld ! 1)" "u_password_hash (w_users wworld ! 0) = whash"
  "w_faults wworld = []"
  by (simp_all add: account_def wworld_def)

lemma wemails: "parseEmail '' Ann@X.org'' = Some (''ann'', ''x.org'')" "parseEmail ''bob@x.org'' = Some (''bob'', ''x.org'')"
  "Password ''secret12'' = None" "Username '' Joe'' = None" "ToLower (TrimSpace '' Joe'') = ''joe''"
  by code_simp+

theorem Authenticate_iff_witness: "us_ID (projr (snd (Authenticate wargon '' Ann@X.org'' ''secret12'' wworld))) = 1"
proof -
  have "VerifyPassword wargon ''secret12'' whash" using verify_hash [OF wargon_ok whash_eq] by simp
  then have "Authenticate wargon '' Ann@X.org'' ''secret12'' wworld =
      (wworld, Inr (scan_user (w_users wworld ! 0, hd (w_domains wworld))))"
    using Authenticate_iff [OF wworld_ok, of wargon "'' Ann@X.org''" "''secret12''" _ _ "''ann''" "''x.org''"
        "w_users wworld ! 0" "hd (w_domains wworld)"] wworld_users wemails by simp
  moreover have "u_id (w_users wworld ! 0) = 1" by (simp add: wworld_def)
  ultimately show ?thesis by simp
qed

theorem disabled_account_disclosed_witness:
  "Authenticate wargon ''bob@x.org'' ''guess'' wworld = (wworld, Inl ErrUserDisabled)"
  by (rule disabled_account_disclosed [OF wworld_ok wworld_users(6) wemails(2) wworld_users(2,4)])

definition wcreated :: "world \<times> (auth_error, user) result" where
  "wcreated = CreateUser wargon (Inr ''salt'') '' Joe'' ''secret12'' 1 wworld"

lemma wcreated_ok: "wcreated = (fst wcreated, Inr (projr (snd wcreated))) \<and> w_faults (fst wcreated) = []"
  by (simp add: wcreated_def CreateUser_def Validate_eqs wemails whash_eq runE tryE_def insert_user_def Let_def wworld_def)

theorem create_then_login_witness:
  "\<exists>us. Authenticate wargon (us_Email (projr (snd wcreated))) ''secret12'' (fst wcreated) = (fst wcreated, Inr us)"
  using create_then_login [OF wworld_ok wargon_ok _ conjunct2 [OF wcreated_ok], of "''salt''" "'' Joe''" "''secret12''" 1
      "projr (snd wcreated)"] wcreated_ok unfolding wcreated_def by metis

end
