(* ===== verification/Maildir_Store.thy ===== *)
theory Maildir_Store
  imports Auth Redis_Queue "HOL-Library.Char_ord" "HOL-Library.List_Lexorder" "HOL-Library.Multiset"
begin

text \<open>
  Package \<^verbatim>\<open>internal/storage/maildir\<close> (\<^verbatim>\<open>maildir.go\<close>) with the types of \<^verbatim>\<open>internal/storage/storage.go\<close>: mailboxes
  and messages as rows of the database, bodies as files \<open>cur/key\<close> or \<open>new/key\<close> in the directory of the
  mailbox. The methods that hold the mutex of the store are one step. Error values are texts, without the
  arguments that the code prints into them. \<open>Unseen\<close> of the go-maildir package, which \<open>AppendMessage\<close> calls, is
  an argument: a function on the files.
\<close>

section \<open>Flags, keys and paths\<close>

definition FlagSeen :: string where "FlagSeen = CHR 0x5C # ''Seen''"
definition FlagAnswered :: string where "FlagAnswered = CHR 0x5C # ''Answered''"
definition FlagFlagged :: string where "FlagFlagged = CHR 0x5C # ''Flagged''"
definition FlagDeleted :: string where "FlagDeleted = CHR 0x5C # ''Deleted''"
definition FlagDraft :: string where "FlagDraft = CHR 0x5C # ''Draft''"
definition FlagRecent :: string where "FlagRecent = CHR 0x5C # ''Recent''"

lemmas flag_defs = FlagSeen_def FlagAnswered_def FlagFlagged_def FlagDeleted_def FlagDraft_def FlagRecent_def

definition buildMaildirFlags :: "string list \<Rightarrow> string" where
  "buildMaildirFlags flags = concat (map (\<lambda>f.
     if f = FlagSeen then ''S'' else if f = FlagAnswered then ''R'' else if f = FlagFlagged then ''F''
     else if f = FlagDeleted then ''T'' else if f = FlagDraft then ''D'' else []) flags)"

definition flagsToString :: "string list \<Rightarrow> string" where
  "flagsToString flags = Join flags '',''"

definition stringToFlags :: "string \<Rightarrow> string list" where
  "stringToFlags s = (if s = [] then [] else Split s (CHR '',''))"

text \<open>The random bytes are 16 (zero bytes when the generator fails, whose error is not looked at).\<close>

definition generateMaildirKey :: "time \<Rightarrow> string \<Rightarrow> string" where
  "generateMaildirKey now buf = show_int now @ ''.'' @ hex_encode buf"

text \<open>\<open>filepath.Join\<close> cleans its result: an empty name and a dot stand for the directory of the user, two dots
  for its parent, the base directory.\<close>

definition getUserMaildirPath :: "int \<Rightarrow> string \<Rightarrow> path" where
  "getUserMaildirPath userID mailboxName =
     (let safeName = ReplaceAll mailboxName ''/'' ''.'';
          user = ''user_'' @ show_int userID
      in if safeName = [] \<or> safeName = ''.'' then [user]
         else if safeName = ''..'' then []
         else [user, safeName])"

definition mb_path :: "mailbox \<Rightarrow> path" where
  "mb_path mb = getUserMaildirPath (mb_UserID mb) (mb_Name mb)"

text \<open>The part of a file name before the flags.\<close>

definition base_key :: "string \<Rightarrow> string" where
  "base_key k = (case Index k '':2,'' of Some idx \<Rightarrow> take idx k | None \<Rightarrow> k)"

definition with_flags :: "string \<Rightarrow> string list \<Rightarrow> string" where
  "with_flags key flags =
     (let flagSuffix = buildMaildirFlags flags in if flagSuffix \<noteq> [] then key @ '':2,'' @ flagSuffix else key)"

definition dest_dir :: "string list \<Rightarrow> string" where
  "dest_dir flags = (if list_ex (\<lambda>f. f = FlagSeen) flags then ''cur'' else ''new'')"

definition ensureMaildir :: "path \<Rightarrow> (string, unit) proc" where
  "ensureMaildir p =
     mapErr (\<lambda>e. ''failed to create: '' @ e)
       (bindE (os_MkdirAll (p @ [''cur''])) (\<lambda>_. bindE (os_MkdirAll (p @ [''new''])) (\<lambda>_. os_MkdirAll (p @ [''tmp'']))))"

text \<open>\<open>LIKE\<close> of SQLite: the percent sign matches any string, the underscore any character, and the case of
  letters does not matter.\<close>

fun like :: "string \<Rightarrow> string \<Rightarrow> bool" where
  "like [] s = (s = [])"
| "like (p # ps) [] = (p = CHR ''%'' \<and> like ps [])"
| "like (p # ps) (c # s) =
     (if p = CHR ''%'' then like ps (c # s) \<or> like (p # ps) s
      else (p = CHR ''_'' \<or> lower_char p = lower_char c) \<and> like ps s)"

definition like_contains :: "string \<Rightarrow> string \<Rightarrow> bool" where
  "like_contains pat s = like (''%'' @ pat @ ''%'') s"

section \<open>Mailboxes\<close>

definition insert_mailbox :: "int \<Rightarrow> string \<Rightarrow> int \<Rightarrow> string \<Rightarrow> time \<Rightarrow> world \<Rightarrow> (string, world \<times> int) result" where
  "insert_mailbox userID name uidValidity specialUse now w =
     (if \<not> list_ex (\<lambda>u. u_id u = userID) (w_users w) then Inl ''FOREIGN KEY constraint failed''
      else if list_ex (\<lambda>mb. mb_UserID mb = userID \<and> mb_Name mb = name) (w_mailboxes w)
      then Inl ''UNIQUE constraint failed''
      else (let i = w_mailbox_seq w + 1
            in Inr (w\<lparr>w_mailbox_seq := i,
                      w_mailboxes := w_mailboxes w @ [\<lparr>mb_ID = i, mb_UserID = userID, mb_Name = name,
                        mb_UIDValidity = uidValidity, mb_UIDNext = 1, mb_SpecialUse = specialUse,
                        mb_Subscribed = True, mb_CreatedAt = now\<rparr>]\<rparr>, i)))"

text \<open>A DELETE of mailboxes cascades to their messages.\<close>

definition delete_mailbox_rows :: "int \<Rightarrow> world \<Rightarrow> world" where
  "delete_mailbox_rows i w = w\<lparr>w_mailboxes := [mb \<leftarrow> w_mailboxes w. mb_ID mb \<noteq> i],
                               w_messages := [m \<leftarrow> w_messages w. mr_mailbox_id m \<noteq> i]\<rparr>"

definition CreateMailbox :: "int \<Rightarrow> string \<Rightarrow> string \<Rightarrow> time \<Rightarrow> (string, mailbox) proc" where
  "CreateMailbox userID name specialUse now =
     (let uidValidity = (now div Second) mod 2 ^ 32
      in bindE (mapErr (\<lambda>e. ''failed to create mailbox: '' @ e) (tryE (insert_mailbox userID name uidValidity specialUse now)))
           (\<lambda>i. bindE (onErr (\<lambda>err.
                  bindE (mapErr (\<lambda>e. ''failed to create maildir and rollback failed: '' @ err @ e)
                           (execE (\<lambda>w. (delete_mailbox_rows i w, ()))))
                    (\<lambda>_. failE (''failed to create maildir: '' @ err)))
                  (ensureMaildir (getUserMaildirPath userID name)))
           (\<lambda>_. retE \<lparr>mb_ID = i, mb_UserID = userID, mb_Name = name, mb_UIDValidity = uidValidity, mb_UIDNext = 1,
                      mb_SpecialUse = specialUse, mb_Subscribed = True, mb_CreatedAt = now\<rparr>)))"

definition defaultMailboxes :: "(string \<times> string) list" where
  "defaultMailboxes = [(''INBOX'', []), (''Drafts'', CHR 0x5C # ''Drafts''), (''Sent'', CHR 0x5C # ''Sent''),
     (''Junk'', CHR 0x5C # ''Junk''), (''Trash'', CHR 0x5C # ''Trash''), (''Archive'', CHR 0x5C # ''Archive'')]"

fun create_mailboxes :: "int \<Rightarrow> time \<Rightarrow> (string \<times> string) list \<Rightarrow> (string, unit) proc" where
  "create_mailboxes userID now [] = retE ()"
| "create_mailboxes userID now ((name, specialUse) # mbs) =
     bindE (mapErr (\<lambda>e. ''failed to create '' @ name @ '' mailbox: '' @ e) (CreateMailbox userID name specialUse now))
       (\<lambda>_. create_mailboxes userID now mbs)"

definition InitializeUserMailboxes :: "int \<Rightarrow> time \<Rightarrow> (string, unit) proc" where
  "InitializeUserMailboxes userID now = create_mailboxes userID now defaultMailboxes"

text \<open>Scanning a row fails when the next UID does not fit 32 bits.\<close>

definition scan_mailbox :: "mailbox option \<Rightarrow> (string, mailbox) proc" where
  "scan_mailbox row =
     (case row of
        None \<Rightarrow> failE ''mailbox not found''
      | Some mb \<Rightarrow> if mb_UIDNext mb < 2 ^ 32 then retE mb else failE ''failed to query mailbox: value out of range'')"

definition GetMailbox :: "int \<Rightarrow> string \<Rightarrow> (string, mailbox) proc" where
  "GetMailbox userID name =
     bindE (mapErr (\<lambda>e. ''failed to query mailbox: '' @ e)
              (readE (\<lambda>w. find (\<lambda>mb. mb_UserID mb = userID \<and> mb_Name mb = name) (w_mailboxes w))))
       scan_mailbox"

definition GetMailboxByID :: "int \<Rightarrow> (string, mailbox) proc" where
  "GetMailboxByID i =
     bindE (mapErr (\<lambda>e. ''failed to query mailbox: '' @ e) (readE (\<lambda>w. find (\<lambda>mb. mb_ID mb = i) (w_mailboxes w))))
       scan_mailbox"

definition ListMailboxes :: "int \<Rightarrow> (string, mailbox list) proc" where
  "ListMailboxes userID =
     bindE (readE (\<lambda>w. sort_key mb_Name [mb \<leftarrow> w_mailboxes w. mb_UserID mb = userID]))
       (\<lambda>mbs. if list_all (\<lambda>mb. mb_UIDNext mb < 2 ^ 32) mbs then retE mbs else failE ''value out of range'')"

definition set_mailbox_name :: "int \<Rightarrow> string \<Rightarrow> string \<Rightarrow> world \<Rightarrow> (string, world \<times> nat) result" where
  "set_mailbox_name userID oldName newName w =
     (let hit = (\<lambda>mb. mb_UserID mb = userID \<and> mb_Name mb = oldName);
          n = length (filter hit (w_mailboxes w))
      in if n > 0 \<and> oldName \<noteq> newName \<and> list_ex (\<lambda>mb. mb_UserID mb = userID \<and> mb_Name mb = newName) (w_mailboxes w)
         then Inl ''UNIQUE constraint failed''
         else Inr (w\<lparr>w_mailboxes := map (\<lambda>mb. if hit mb then mb\<lparr>mb_Name := newName\<rparr> else mb) (w_mailboxes w)\<rparr>, n))"

definition RenameMailbox :: "int \<Rightarrow> string \<Rightarrow> string \<Rightarrow> (string, unit) proc" where
  "RenameMailbox userID oldName newName =
     bindE (tryE (set_mailbox_name userID oldName newName)) (\<lambda>affected.
     if affected = 0 then failE ''mailbox not found''
     else (\<lambda>w. case os_Rename_dir (getUserMaildirPath userID oldName) (getUserMaildirPath userID newName) w of
             (w1, Inl (False, e)) \<Rightarrow>
               (fst (tryE (set_mailbox_name userID newName oldName) w1), Inl (''failed to rename maildir: '' @ e))
           | (w1, _) \<Rightarrow> (w1, Inr ())))"

definition DeleteMailbox :: "int \<Rightarrow> string \<Rightarrow> (string, unit) proc" where
  "DeleteMailbox userID name =
     bindE (mapErr (\<lambda>e. ''mailbox not found'')
              (readE (\<lambda>w. find (\<lambda>mb. mb_UserID mb = userID \<and> mb_Name mb = name) (w_mailboxes w)))) (\<lambda>row.
     case row of
       None \<Rightarrow> failE ''mailbox not found''
     | Some mb \<Rightarrow>
         bindE (execE (\<lambda>w. (delete_mailbox_rows (mb_ID mb) w, ())))
           (\<lambda>_. mapErr (\<lambda>e. ''failed to remove maildir: '' @ e) (os_RemoveAll (getUserMaildirPath userID name))))"

definition SubscribeMailbox :: "int \<Rightarrow> string \<Rightarrow> bool \<Rightarrow> (string, unit) proc" where
  "SubscribeMailbox userID name subscribed =
     execE (\<lambda>w. (w\<lparr>w_mailboxes := map (\<lambda>mb. if mb_UserID mb = userID \<and> mb_Name mb = name
                                              then mb\<lparr>mb_Subscribed := subscribed\<rparr> else mb) (w_mailboxes w)\<rparr>, ()))"

section \<open>Messages\<close>

record stored_message =
  sm_ID :: int
  sm_MailboxID :: int
  sm_UID :: int
  sm_MaildirKey :: string
  sm_Size :: int
  sm_InternalDate :: time
  sm_Flags :: "string list"

definition scan_message :: "msg_row \<Rightarrow> stored_message" where
  "scan_message m = \<lparr>sm_ID = mr_id m, sm_MailboxID = mr_mailbox_id m, sm_UID = mr_uid m, sm_MaildirKey = mr_maildir_key m,
     sm_Size = mr_size m, sm_InternalDate = mr_internal_date m, sm_Flags = stringToFlags (mr_flags m)\<rparr>"

text \<open>\<open>used_bytes + ?\<close> without a lower bound, other than \<open>UpdateUsedBytes\<close>.\<close>

definition UpdateUserQuota :: "int \<Rightarrow> int \<Rightarrow> (string, unit) proc" where
  "UpdateUserQuota userID deltaBytes =
     execE (\<lambda>w. (w\<lparr>w_users := map (\<lambda>u. if u_id u = userID then u\<lparr>u_used_bytes := u_used_bytes u + deltaBytes\<rparr> else u)
                                 (w_users w)\<rparr>, ()))"

definition open_excl :: "path \<Rightarrow> (string, unit) proc" where
  "open_excl p = tryE (\<lambda>w. if os_exists p w then Inl ''file exists'' else Inr (w\<lparr>w_files := AList.update p [] (w_files w)\<rparr>, ()))"

text \<open>\<open>io.Copy\<close> to the open file, then \<open>Sync\<close>; the body is what the reader gives, or its error.\<close>

definition write_sync :: "path \<Rightarrow> (string, string) result \<Rightarrow> (string, int) proc" where
  "write_sync p body =
     (case body of
        Inl e \<Rightarrow> failE (''failed to write message: '' @ e)
      | Inr content \<Rightarrow>
          bindE (mapErr (\<lambda>e. ''failed to write message: '' @ e)
                   (execE (\<lambda>w. (w\<lparr>w_files := AList.update p content (w_files w)\<rparr>, ()))))
            (\<lambda>_. bindE (mapErr (\<lambda>e. ''failed to sync message to disk: '' @ e) (readE (\<lambda>w. ())))
            (\<lambda>_. retE (int (length content)))))"

definition insert_message :: "int \<Rightarrow> int \<Rightarrow> string \<Rightarrow> int \<Rightarrow> time \<Rightarrow> string \<Rightarrow> time \<Rightarrow> world \<Rightarrow> (string, world \<times> int) result" where
  "insert_message mailboxID uid key sz date flagsStr now w =
     (if \<not> list_ex (\<lambda>mb. mb_ID mb = mailboxID) (w_mailboxes w) then Inl ''FOREIGN KEY constraint failed''
      else if list_ex (\<lambda>m. mr_mailbox_id m = mailboxID \<and> mr_uid m = uid) (w_messages w)
      then Inl ''UNIQUE constraint failed''
      else (let i = w_message_seq w + 1
            in Inr (w\<lparr>w_message_seq := i,
                      w_messages := w_messages w @ [\<lparr>mr_id = i, mr_mailbox_id = mailboxID, mr_uid = uid,
                        mr_maildir_key = key, mr_size = sz, mr_internal_date = date, mr_flags = flagsStr,
                        mr_subject = None, mr_from_address = None, mr_to_addresses = None, mr_created_at = now\<rparr>]\<rparr>, i)))"

definition cleanup_fail :: "path \<Rightarrow> string \<Rightarrow> (string, 'a) proc" where
  "cleanup_fail p e = bindE (ignoreE (os_Remove_file p)) (\<lambda>_. failE e)"

definition bump_uidnext :: "int \<Rightarrow> world \<Rightarrow> world \<times> nat" where
  "bump_uidnext i w = (w\<lparr>w_mailboxes := map (\<lambda>mb. if mb_ID mb = i then mb\<lparr>mb_UIDNext := mb_UIDNext mb + 1\<rparr> else mb) (w_mailboxes w)\<rparr>,
                       length [mb \<leftarrow> w_mailboxes w. mb_ID mb = i])"

type_synonym unseen_fun = "path \<Rightarrow> (path \<times> string) list \<Rightarrow> (path \<times> string) list"

text \<open>\<open>AppendMessage\<close> in three parts: up to the file in its place, the two database statements, the rest.\<close>

definition append_file :: "path \<Rightarrow> string \<Rightarrow> string list \<Rightarrow> (string, string) result \<Rightarrow> (string, path \<times> int) proc" where
  "append_file p key flags body =
     bindE (mapErr (\<lambda>e. ''failed to ensure maildir: '' @ e) (ensureMaildir p)) (\<lambda>_.
     (let tmpPath = p @ [''tmp'', key]
      in bindE (mapErr (\<lambda>e. ''failed to create tmp file: '' @ e) (open_excl tmpPath)) (\<lambda>_.
         bindE (onErr (cleanup_fail tmpPath) (write_sync tmpPath body)) (\<lambda>sz.
         (let destPath = p @ [dest_dir flags, with_flags key flags]
          in bindE (onErr (\<lambda>e. cleanup_fail tmpPath (''failed to move message to destination: '' @ e)) (os_Rename_file tmpPath destPath))
               (\<lambda>_. retE (destPath, sz)))))))"

definition append_rows :: "int \<Rightarrow> mailbox \<Rightarrow> string \<Rightarrow> string list \<Rightarrow> time \<Rightarrow> time \<Rightarrow> path \<Rightarrow> int \<Rightarrow> (string, int) proc" where
  "append_rows mailboxID mb finalKey flags date now destPath sz =
     bindE (onErr (\<lambda>e. cleanup_fail destPath (''failed to update mailbox uidnext: '' @ e)) (execE (bump_uidnext mailboxID))) (\<lambda>affected.
     if affected = 0 then cleanup_fail destPath ''mailbox not found or deleted''
     else onErr (\<lambda>e. cleanup_fail destPath (''failed to insert message metadata: '' @ e))
            (tryE (insert_message mailboxID (mb_UIDNext mb) finalKey sz date (flagsToString flags) now)))"

definition AppendMessage ::
    "unseen_fun \<Rightarrow> time \<Rightarrow> string \<Rightarrow> int \<Rightarrow> string list \<Rightarrow> time \<Rightarrow> (string, string) result \<Rightarrow> (string, stored_message) proc" where
  "AppendMessage unseen now buf mailboxID flags date body =
     bindE (mapErr (\<lambda>e. ''failed to get mailbox: '' @ e) (GetMailboxByID mailboxID)) (\<lambda>mb.
     (let key = generateMaildirKey now buf;
          p = mb_path mb;
          finalKey = with_flags key flags
      in bindE (append_file p key flags body) (\<lambda>(destPath, sz).
         bindE (append_rows mailboxID mb finalKey flags date now destPath sz) (\<lambda>msgID.
         bindE (ignoreE (UpdateUserQuota (mb_UserID mb) sz)) (\<lambda>_.
         bindE (ignoreE (execE (\<lambda>w. (w\<lparr>w_files := unseen p (w_files w)\<rparr>, ())))) (\<lambda>_.
         retE \<lparr>sm_ID = msgID, sm_MailboxID = mailboxID, sm_UID = mb_UIDNext mb, sm_MaildirKey = finalKey, sm_Size = sz,
               sm_InternalDate = date, sm_Flags = flags\<rparr>))))))"

definition GetMessage_md :: "int \<Rightarrow> int \<Rightarrow> (string, stored_message) proc" where
  "GetMessage_md mailboxID uid =
     bindE (mapErr (\<lambda>e. ''failed to query message: '' @ e)
              (readE (\<lambda>w. find (\<lambda>m. mr_mailbox_id m = mailboxID \<and> mr_uid m = uid) (w_messages w))))
       (\<lambda>row. case row of None \<Rightarrow> failE ''message not found'' | Some m \<Rightarrow> retE (scan_message m))"

text \<open>\<open>os.Open\<close> and reading to the end; \<open>first_open\<close> is a loop over paths that returns the first file that opens.\<close>

definition os_Open :: "path \<Rightarrow> (string, string) proc" where
  "os_Open p = bindE (readE (\<lambda>w. map_of (w_files w) p))
     (\<lambda>c. case c of None \<Rightarrow> failE ''no such file or directory'' | Some content \<Rightarrow> retE content)"

fun first_open :: "path list \<Rightarrow> (string, string) proc" where
  "first_open [] = failE ''message file not found''"
| "first_open (p # ps) = onErr (\<lambda>e. first_open ps) (os_Open p)"

text \<open>The names in a directory, in some order; an error of \<open>ReadDir\<close> skips the directory.\<close>

definition dir_names :: "path \<Rightarrow> (path \<times> string) list \<Rightarrow> string list" where
  "dir_names d fs = [last p. (p, c) \<leftarrow> fs, p \<noteq> [] \<and> butlast p = d]"

fun scan_dirs :: "path \<Rightarrow> string \<Rightarrow> string list \<Rightarrow> (string, string) proc" where
  "scan_dirs p baseKey [] = failE ''message file not found''"
| "scan_dirs p baseKey (subdir # subdirs) =
     onErr (\<lambda>e. scan_dirs p baseKey subdirs)
       (bindE (readE (\<lambda>w. sort (dir_names (p @ [subdir]) (w_files w))))
          (\<lambda>names. first_open [p @ [subdir, name]. name \<leftarrow> names, HasPrefix name baseKey]))"

definition GetMessageBody :: "stored_message \<Rightarrow> (string, string) proc" where
  "GetMessageBody msg =
     bindE (GetMailboxByID (sm_MailboxID msg)) (\<lambda>mb.
     (let p = mb_path mb; key = sm_MaildirKey msg; baseKey = base_key key
      in onErr (\<lambda>e. onErr (\<lambda>e. scan_dirs p baseKey [''cur'', ''new''])
                      (first_open [p @ [''cur'', baseKey], p @ [''new'', baseKey]]))
           (first_open [p @ [''cur'', key], p @ [''new'', key]])))"

definition ListMessages :: "int \<Rightarrow> int \<Rightarrow> int \<Rightarrow> (string, stored_message list) proc" where
  "ListMessages mailboxID start finish =
     readE (\<lambda>w. map scan_message (sort_key mr_uid [m \<leftarrow> w_messages w. mr_mailbox_id m = mailboxID \<and>
       (start > 0 \<longrightarrow> start \<le> mr_uid m) \<and> (finish > 0 \<longrightarrow> mr_uid m \<le> finish)]))"

definition update_row :: "int \<Rightarrow> int \<Rightarrow> (msg_row \<Rightarrow> msg_row) \<Rightarrow> world \<Rightarrow> world" where
  "update_row mailboxID uid f w =
     w\<lparr>w_messages := map (\<lambda>m. if mr_mailbox_id m = mailboxID \<and> mr_uid m = uid then f m else m) (w_messages w)\<rparr>"

definition os_Stat_ok :: "path \<Rightarrow> (string, bool) proc" where
  "os_Stat_ok p = onErr (\<lambda>e. retE False) (readE (os_exists p))"

text \<open>\<open>SetFlags\<close> from the rename on.\<close>

definition rename_flags :: "int \<Rightarrow> int \<Rightarrow> path \<Rightarrow> path \<Rightarrow> string \<Rightarrow> (string, unit) proc" where
  "rename_flags mailboxID uid oldPath newPath newKey =
     (if oldPath = newPath then retE ()
      else bindE (mapErr (\<lambda>e. ''failed to rename message: '' @ e) (os_Rename_file oldPath newPath)) (\<lambda>_.
           onErr (\<lambda>e. bindE (mapErr (\<lambda>r. ''CRITICAL: DB update failed and rollback failed: '' @ e @ r) (os_Rename_file newPath oldPath))
                        (\<lambda>_. failE (''failed to update maildir_key in database: '' @ e)))
             (execE (\<lambda>w. (update_row mailboxID uid (\<lambda>m. m\<lparr>mr_maildir_key := newKey\<rparr>) w, ())))))"

text \<open>\<open>SetFlags\<close> from the lookup of the mailbox on.\<close>

definition flags_to_file :: "int \<Rightarrow> int \<Rightarrow> string \<Rightarrow> string list \<Rightarrow> (string, unit) proc" where
  "flags_to_file mailboxID uid key flags =
     bindE (GetMailboxByID mailboxID) (\<lambda>mb.
     (let p = mb_path mb; newKey = with_flags (base_key key) flags; newPath = p @ [dest_dir flags, newKey]
      in bindE (os_Stat_ok (p @ [''cur'', key])) (\<lambda>inCur.
         if inCur then rename_flags mailboxID uid (p @ [''cur'', key]) newPath newKey
         else bindE (os_Stat_ok (p @ [''new'', key])) (\<lambda>inNew.
         if inNew then rename_flags mailboxID uid (p @ [''new'', key]) newPath newKey
         else retE ()))))"

definition SetFlags :: "int \<Rightarrow> int \<Rightarrow> string list \<Rightarrow> (string, unit) proc" where
  "SetFlags mailboxID uid flags =
     bindE (GetMessage_md mailboxID uid) (\<lambda>msg.
     bindE (execE (\<lambda>w. (update_row mailboxID uid (\<lambda>m. m\<lparr>mr_flags := flagsToString flags\<rparr>) w, ()))) (\<lambda>_.
     flags_to_file mailboxID uid (sm_MaildirKey msg) flags))"

text \<open>The new flags of \<open>UpdateFlags\<close>; a range over the set of flags gives them in some order.\<close>

definition new_flags :: "(string list \<Rightarrow> string list) \<Rightarrow> bool \<Rightarrow> string list \<Rightarrow> string list \<Rightarrow> string list" where
  "new_flags ord add flags old = (if add then ord (remdups (old @ flags)) else [f \<leftarrow> old. f \<notin> set flags])"

definition UpdateFlags :: "(string list \<Rightarrow> string list) \<Rightarrow> int \<Rightarrow> int \<Rightarrow> string list \<Rightarrow> bool \<Rightarrow> (string, unit) proc" where
  "UpdateFlags ord mailboxID uid flags add =
     bindE (GetMessage_md mailboxID uid) (\<lambda>msg. SetFlags mailboxID uid (new_flags ord add flags (sm_Flags msg)))"

definition DeleteMessage :: "(string list \<Rightarrow> string list) \<Rightarrow> int \<Rightarrow> int \<Rightarrow> (string, unit) proc" where
  "DeleteMessage ord mailboxID uid = UpdateFlags ord mailboxID uid [FlagDeleted] True"

definition CopyMessage :: "unseen_fun \<Rightarrow> time \<Rightarrow> string \<Rightarrow> int \<Rightarrow> int \<Rightarrow> int \<Rightarrow> (string, stored_message) proc" where
  "CopyMessage unseen now buf srcMailboxID uid destMailboxID =
     bindE (GetMessage_md srcMailboxID uid) (\<lambda>srcMsg.
     bindE (GetMessageBody srcMsg) (\<lambda>body.
     AppendMessage unseen now buf destMailboxID [f \<leftarrow> sm_Flags srcMsg. f \<noteq> FlagRecent] (sm_InternalDate srcMsg) (Inr body)))"

definition remove_both :: "path \<Rightarrow> string \<Rightarrow> (string, unit) proc" where
  "remove_both p key =
     bindE (ignoreE (os_Remove_file (p @ [''cur'', key]))) (\<lambda>_. ignoreE (os_Remove_file (p @ [''new'', key])))"

definition expungeMessage :: "int \<Rightarrow> int \<Rightarrow> (string, unit) proc" where
  "expungeMessage mailboxID uid =
     bindE (GetMessage_md mailboxID uid) (\<lambda>msg.
     bindE (GetMailboxByID (sm_MailboxID msg)) (\<lambda>mb.
     bindE (remove_both (mb_path mb) (sm_MaildirKey msg)) (\<lambda>_.
     execE (\<lambda>w. (w\<lparr>w_messages := [m \<leftarrow> w_messages w. \<not> (mr_mailbox_id m = mailboxID \<and> mr_uid m = uid)]\<rparr>, ())))))"

text \<open>\<open>MoveMessage\<close> returns the new message also when the removal of the old one fails.\<close>

definition MoveMessage ::
    "unseen_fun \<Rightarrow> time \<Rightarrow> string \<Rightarrow> int \<Rightarrow> int \<Rightarrow> int \<Rightarrow> (string, stored_message \<times> string option) proc" where
  "MoveMessage unseen now buf srcMailboxID uid destMailboxID =
     bindE (CopyMessage unseen now buf srcMailboxID uid destMailboxID) (\<lambda>newMsg.
     onErr (\<lambda>e. retE (newMsg, Some e)) (bindE (expungeMessage srcMailboxID uid) (\<lambda>_. retE (newMsg, None))))"

definition is_deleted :: "msg_row \<Rightarrow> bool" where
  "is_deleted m = like_contains FlagDeleted (mr_flags m)"

fun remove_files :: "path \<Rightarrow> string list \<Rightarrow> (string, unit) proc" where
  "remove_files p [] = retE ()"
| "remove_files p (key # keys) = bindE (remove_both p key) (\<lambda>_. remove_files p keys)"

definition ExpungeMailbox :: "int \<Rightarrow> (string, int list) proc" where
  "ExpungeMailbox mailboxID =
     bindE (readE (\<lambda>w. [m \<leftarrow> w_messages w. mr_mailbox_id m = mailboxID \<and> is_deleted m])) (\<lambda>rows.
     bindE (GetMailboxByID mailboxID) (\<lambda>mb.
     bindE (remove_files (mb_path mb) (map mr_maildir_key rows)) (\<lambda>_.
     if rows = [] then retE []
     else bindE (execE (\<lambda>w. (w\<lparr>w_messages := [m \<leftarrow> w_messages w. \<not> (mr_mailbox_id m = mailboxID \<and> is_deleted m)]\<rparr>, ())))
            (\<lambda>_. retE (map mr_uid rows)))))"

text \<open>The bounds on the date compare times; the database compares their texts, which is the same for dates of
  one time zone. A NULL column matches no pattern.\<close>

record search_criteria =
  sc_Since :: "time option"
  sc_Before :: "time option"
  sc_From :: string
  sc_To :: string
  sc_Subject :: string
  sc_Flags :: "string list"
  sc_NotFlags :: "string list"
  sc_Larger :: int
  sc_Smaller :: int

definition null_like :: "string \<Rightarrow> string option \<Rightarrow> bool" where
  "null_like pat col = (case col of None \<Rightarrow> False | Some s \<Rightarrow> like_contains pat s)"

definition search_match :: "search_criteria \<Rightarrow> msg_row \<Rightarrow> bool" where
  "search_match c m \<longleftrightarrow>
     (case sc_Since c of Some t \<Rightarrow> t \<le> mr_internal_date m | None \<Rightarrow> True) \<and>
     (case sc_Before c of Some t \<Rightarrow> mr_internal_date m < t | None \<Rightarrow> True) \<and>
     (sc_From c \<noteq> [] \<longrightarrow> null_like (sc_From c) (mr_from_address m)) \<and>
     (sc_To c \<noteq> [] \<longrightarrow> null_like (sc_To c) (mr_to_addresses m)) \<and>
     (sc_Subject c \<noteq> [] \<longrightarrow> null_like (sc_Subject c) (mr_subject m)) \<and>
     (sc_Larger c > 0 \<longrightarrow> mr_size m > sc_Larger c) \<and> (sc_Smaller c > 0 \<longrightarrow> mr_size m < sc_Smaller c) \<and>
     list_all (\<lambda>f. like_contains f (mr_flags m)) (sc_Flags c) \<and>
     list_all (\<lambda>f. \<not> like_contains f (mr_flags m)) (sc_NotFlags c)"

definition SearchMessages :: "int \<Rightarrow> search_criteria option \<Rightarrow> (string, int list) proc" where
  "SearchMessages mailboxID criteria =
     readE (\<lambda>w. map mr_uid (sort_key mr_uid [m \<leftarrow> w_messages w. mr_mailbox_id m = mailboxID \<and>
       (case criteria of None \<Rightarrow> True | Some c \<Rightarrow> search_match c m)]))"

record mailbox_stats =
  ms_Messages :: nat
  ms_Recent :: nat
  ms_Unseen :: nat
  ms_UIDNext :: int
  ms_UIDValidity :: int

definition GetMailboxStats :: "int \<Rightarrow> (string, mailbox_stats) proc" where
  "GetMailboxStats mailboxID =
     bindE (GetMailboxByID mailboxID) (\<lambda>mb.
     bindE (readE (\<lambda>w. length [m \<leftarrow> w_messages w. mr_mailbox_id m = mailboxID])) (\<lambda>n.
     bindE (readE (\<lambda>w. length [m \<leftarrow> w_messages w. mr_mailbox_id m = mailboxID \<and> \<not> like_contains FlagSeen (mr_flags m)])) (\<lambda>u.
     retE \<lparr>ms_Messages = n, ms_Recent = u, ms_Unseen = u, ms_UIDNext = mb_UIDNext mb, ms_UIDValidity = mb_UIDValidity mb\<rparr>)))"

section \<open>The bodies stored under a key\<close>

text \<open>\<open>bodies d k fs\<close>: the contents of the files in \<open>cur\<close> and \<open>new\<close> of the directory \<open>d\<close> whose name is \<open>k\<close> up to its flags.\<close>

definition in_msg_dir :: "path \<Rightarrow> path \<Rightarrow> bool" where
  "in_msg_dir d p \<longleftrightarrow> (\<exists>s n. p = d @ [s, n] \<and> (s = ''cur'' \<or> s = ''new''))"

definition hit :: "path \<Rightarrow> string \<Rightarrow> path \<Rightarrow> bool" where
  "hit d k p \<longleftrightarrow> in_msg_dir d p \<and> base_key (last p) = k"

definition bodies :: "path \<Rightarrow> string \<Rightarrow> (path \<times> string) list \<Rightarrow> string multiset" where
  "bodies d k fs = mset (map snd (filter (\<lambda>f. hit d k (fst f)) fs))"

lemma hit_iff [simp]: "hit d k (p @ [s, n]) \<longleftrightarrow> d = p \<and> (s = ''cur'' \<or> s = ''new'') \<and> base_key n = k"
  by (auto simp: hit_def in_msg_dir_def)

lemma bodies_simps [simp]:
  "bodies d k [] = {#}"
  "bodies d k ((p, c) # fs) = (if hit d k p then {#c#} else {#}) + bodies d k fs"
  "bodies d k (fs @ gs) = bodies d k fs + bodies d k gs"
  by (auto simp: bodies_def)

lemma update_new: "map_of fs p = None \<Longrightarrow> AList.update p c fs = fs @ [(p, c)]"
  by (induction fs) auto

lemma bodies_update_new:
  "map_of fs p = None \<Longrightarrow> bodies d k (AList.update p c fs) = bodies d k fs + (if hit d k p then {#c#} else {#})"
  by (simp add: update_new)

lemma bodies_update_miss: "\<not> hit d k p \<Longrightarrow> bodies d k (AList.update p c fs) = bodies d k fs"
  by (induction fs) auto

lemma bodies_delete:
  "distinct (map fst fs) \<Longrightarrow> map_of fs p = Some c \<Longrightarrow>
     bodies d k fs = bodies d k (AList.delete p fs) + (if hit d k p then {#c#} else {#})"
proof (induction fs)
  case (Cons f fs)
  obtain q e where f: "f = (q, e)" by fastforce
  show ?case
  proof (cases "q = p")
    case True
    then have "AList.delete p fs = fs" using Cons.prems f
      by (force simp: AList.delete_eq filter_id_conv)
    with True f Cons.prems show ?thesis by (simp add: AList.delete_eq)
  next
    case False
    with f Cons show ?thesis by (auto simp: AList.delete_eq)
  qed
qed simp

lemma bodies_delete_miss: "\<not> hit d k p \<Longrightarrow> bodies d k (AList.delete p fs) = bodies d k fs"
  by (induction fs) (auto simp: AList.delete_eq)

lemma bodies_delete_le: "bodies d k (AList.delete p fs) \<subseteq># bodies d k fs"
proof -
  have "mset (AList.delete p fs) \<subseteq># mset fs" by (simp add: AList.delete_eq)
  then show ?thesis unfolding bodies_def mset_map mset_filter
    by (intro image_mset_subseteq_mono multiset_filter_mono)
qed

lemma bodies_member: "map_of fs p = Some c \<Longrightarrow> hit d k p \<Longrightarrow> c \<in># bodies d k fs"
  by (induction fs) (auto split: if_splits)

lemma bodies_empty_map_of: "bodies d k fs = {#} \<Longrightarrow> hit d k p \<Longrightarrow> map_of fs p = None"
  by (cases "map_of fs p") (auto dest: bodies_member)

section \<open>Names of files\<close>

definition key_ok :: "string \<Rightarrow> bool" where
  "key_ok k \<longleftrightarrow> (\<exists>ds hs. k = ds @ ''.'' @ hs \<and> list_all is_digit ds \<and> length hs = 32 \<and>
     list_all (\<lambda>c. c \<noteq> CHR ''.'' \<and> c \<noteq> CHR '':'') hs)"

lemma key_ok_no_colon: "key_ok k \<Longrightarrow> CHR '':'' \<notin> set k"
proof
  assume "key_ok k" and c: "CHR '':'' \<in> set k"
  then obtain ds hs where k: "k = ds @ ''.'' @ hs" and d: "list_all is_digit ds"
    and h: "list_all (\<lambda>c. c \<noteq> CHR ''.'' \<and> c \<noteq> CHR '':'') hs" unfolding key_ok_def by blast
  from c k have "CHR '':'' \<in> set ds \<or> CHR '':'' \<in> set hs" by simp
  with d h have "is_digit (CHR '':'')" by (auto simp only: list_all_iff)
  then show False by (simp add: is_digit_def)
qed

lemma Index_no_head: "c \<notin> set s \<Longrightarrow> Index s (c # p) = None"
proof (induction s)
  case (Cons a s)
  then have "a \<noteq> c" by auto
  with Cons show ?case by simp
qed simp

lemma Index_skip: "c \<notin> set s \<Longrightarrow> Index (s @ c # p @ t) (c # p) = Some (length s)"
proof (induction s)
  case Nil
  have "HasPrefix (c # p @ t) (c # p)" using HasPrefix_append [of "c # p" t] by simp
  then show ?case by simp
next
  case (Cons a s)
  then have "a \<noteq> c" by auto
  then have "\<not> HasPrefix (a # s @ c # p @ t) (c # p)" by simp
  with Cons show ?case by simp
qed

lemma base_key_plain: "CHR '':'' \<notin> set k \<Longrightarrow> base_key k = k"
  by (simp add: base_key_def Index_no_head)

lemma base_key_flags: "CHR '':'' \<notin> set k \<Longrightarrow> base_key (k @ '':2,'' @ t) = k"
  using Index_skip [of "CHR '':''" k "''2,''" t] by (simp add: base_key_def)

lemma base_key_with_flags: "CHR '':'' \<notin> set k \<Longrightarrow> base_key (with_flags k flags) = k"
  using base_key_flags [of k] base_key_plain [of k] by (simp add: with_flags_def Let_def)

lemma base_key_prefix: "prefix (base_key n) n"
  by (simp add: base_key_def take_is_prefix split: option.split)

lemma key_ok_prefix:
  assumes k: "key_ok k" and n: "key_ok (base_key n)" and p: "HasPrefix n k"
  shows "base_key n = k"
proof -
  obtain t where t: "n = base_key n @ t" using base_key_prefix [of n] by (auto simp: prefix_def)
  obtain r where r: "n = k @ r" using p by (auto simp: HasPrefix_iff)
  obtain ds hs where d: "k = ds @ CHR ''.'' # hs" "list_all is_digit ds" "length hs = 32" using k by (auto simp: key_ok_def)
  obtain es gs where e: "base_key n = es @ CHR ''.'' # gs" "list_all is_digit es" "length gs = 32"
    using n by (auto simp: key_ok_def)
  have tw: "takeWhile is_digit (xs @ CHR ''.'' # ys) = xs" if "list_all is_digit xs" for xs ys
    using that by (simp add: takeWhile_append list_all_iff is_digit_def)
  have "takeWhile is_digit n = ds" unfolding r d(1) using tw [OF d(2), of "hs @ r"] by simp
  moreover have "takeWhile is_digit n = es" using tw [OF e(2), of "gs @ t"] t e(1) by simp
  ultimately have "length k = length (base_key n)" using d e by simp
  moreover have "base_key n @ t = k @ r" using t r by simp
  ultimately show ?thesis by (simp add: append_eq_append_conv)
qed

lemma hex_encode_shape:
  "length (hex_encode bs) = 2 * length bs" "list_all (\<lambda>c. c \<noteq> CHR ''.'' \<and> c \<noteq> CHR '':'') (hex_encode bs)"
proof -
  have h: "hex_digit d \<noteq> CHR ''.''" "hex_digit d \<noteq> CHR '':''" if "d < 16" for d
    using that by (auto simp: hex_digit_def char_of_eq_iff take_bit_eq_mod)
  show "length (hex_encode bs) = 2 * length bs" by (induction bs) (simp_all add: hex_encode_def)
  have "(of_char c :: nat) div 16 < 16" for c using nat_of_char_less_256 [of c] by (simp add: less_mult_imp_div_less)
  then show "list_all (\<lambda>c. c \<noteq> CHR ''.'' \<and> c \<noteq> CHR '':'') (hex_encode bs)"
    using h by (induction bs) (simp_all add: hex_encode_def)
qed

lemma generateMaildirKey_ok:
  assumes "0 \<le> now" "length buf = 16"
  shows "key_ok (generateMaildirKey now buf)"
proof -
  have "generateMaildirKey now buf = show_nat (nat now) @ ''.'' @ hex_encode buf"
    using assms(1) by (simp add: generateMaildirKey_def show_int_def)
  moreover have "list_all is_digit (show_nat (nat now))" using show_nat_digits by (simp add: list_all_iff)
  moreover have "length (hex_encode buf) = 32" using hex_encode_shape(1) [of buf] assms(2) by simp
  ultimately show ?thesis unfolding key_ok_def using hex_encode_shape(2) [of buf] by blast
qed

section \<open>The abstract store\<close>

text \<open>A mailbox as its clients see it: the messages in order with UID, flags, date and body. The last component
  is the multiset of bodies stored for the message, a single one in a consistent store.\<close>

type_synonym amsg = "int \<times> string list \<times> time \<times> string multiset"

definition path_of :: "world \<Rightarrow> int \<Rightarrow> path" where
  "path_of w i = (case find (\<lambda>mb. mb_ID mb = i) (w_mailboxes w) of Some mb \<Rightarrow> mb_path mb | None \<Rightarrow> [])"

definition abs_msg :: "world \<Rightarrow> msg_row \<Rightarrow> amsg" where
  "abs_msg w m = (mr_uid m, stringToFlags (mr_flags m), mr_internal_date m,
     bodies (path_of w (mr_mailbox_id m)) (base_key (mr_maildir_key m)) (w_files w))"

definition contents :: "world \<Rightarrow> int \<Rightarrow> amsg list" where
  "contents w i = map (abs_msg w) [m \<leftarrow> w_messages w. mr_mailbox_id m = i]"

definition tables_ok :: "world \<Rightarrow> bool" where
  "tables_ok w \<longleftrightarrow> distinct (map mb_ID (w_mailboxes w)) \<and>
     distinct (map (\<lambda>mb. (mb_UserID mb, mb_Name mb)) (w_mailboxes w)) \<and>
     (\<forall>mb\<in>set (w_mailboxes w). mb_ID mb \<le> w_mailbox_seq w) \<and>
     distinct (map (\<lambda>m. (mr_mailbox_id m, mr_uid m)) (w_messages w)) \<and>
     distinct (map (\<lambda>m. base_key (mr_maildir_key m)) (w_messages w)) \<and>
     (\<forall>m\<in>set (w_messages w). \<exists>mb\<in>set (w_mailboxes w). mb_ID mb = mr_mailbox_id m \<and> mr_uid m < mb_UIDNext mb)"

definition files_ok :: "(path \<times> string) list \<Rightarrow> bool" where
  "files_ok fs \<longleftrightarrow> distinct (map fst fs) \<and> (\<forall>d k. \<not> key_ok k \<longrightarrow> bodies d k fs = {#})"

definition body_stored :: "world \<Rightarrow> msg_row \<Rightarrow> bool" where
  "body_stored w m \<longleftrightarrow> size (bodies (path_of w (mr_mailbox_id m)) (base_key (mr_maildir_key m)) (w_files w)) = 1"

definition store_ok :: "world \<Rightarrow> bool" where
  "store_ok w \<longleftrightarrow> tables_ok w \<and> files_ok (w_files w) \<and> (\<forall>m\<in>set (w_messages w). body_stored w m)"

definition same_tables :: "world \<Rightarrow> world \<Rightarrow> bool" where
  "same_tables w w' \<longleftrightarrow> w_mailboxes w' = w_mailboxes w \<and> w_messages w' = w_messages w \<and>
     w_mailbox_seq w' = w_mailbox_seq w \<and> w_users w' = w_users w \<and> w_domains w' = w_domains w \<and>
     w_aliases w' = w_aliases w"

lemma same_tables_refl [simp]: "same_tables w w"
  by (simp add: same_tables_def)

lemma same_tables_trans: "same_tables w w1 \<Longrightarrow> same_tables w1 w2 \<Longrightarrow> same_tables w w2"
  by (simp add: same_tables_def)

lemma same_world_tables: "same_world w w' \<Longrightarrow> same_tables w w'"
  by (simp add: same_tables_def same_worldD)

lemma path_of_cong: "w_mailboxes w' = w_mailboxes w \<Longrightarrow> path_of w' = path_of w"
  by (simp add: path_of_def fun_eq_iff)

lemma tables_ok_cong:
  "w_mailboxes w' = w_mailboxes w \<Longrightarrow> w_messages w' = w_messages w \<Longrightarrow> w_mailbox_seq w' = w_mailbox_seq w \<Longrightarrow>
     tables_ok w' = tables_ok w"
  by (simp add: tables_ok_def)

text \<open>What \<open>Unseen\<close> promises: it moves messages from \<open>new\<close> to \<open>cur\<close>, and a message keeps its key and its content.\<close>

locale maildir_lib =
  fixes unseen :: unseen_fun
  assumes unseen_bodies: "distinct (map fst fs) \<Longrightarrow> bodies d k (unseen p fs) = bodies d k fs"
    and unseen_distinct: "distinct (map fst fs) \<Longrightarrow> distinct (map fst (unseen p fs))"
begin

lemma unseen_files_ok: "files_ok fs \<Longrightarrow> files_ok (unseen p fs)"
  by (simp add: files_ok_def unseen_bodies unseen_distinct)

end

text \<open>\<open>files_step d k c fs fs'\<close>: the one change is a new body \<open>c\<close> under key \<open>k\<close> in directory \<open>d\<close>.\<close>

definition same_bodies :: "(path \<times> string) list \<Rightarrow> (path \<times> string) list \<Rightarrow> bool" where
  "same_bodies fs fs' \<longleftrightarrow> distinct (map fst fs') \<and> (\<forall>d k. bodies d k fs' = bodies d k fs)"

lemma same_bodies_refl: "distinct (map fst fs) \<Longrightarrow> same_bodies fs fs"
  by (simp add: same_bodies_def)

lemma same_bodies_trans: "same_bodies fs gs \<Longrightarrow> same_bodies gs hs \<Longrightarrow> same_bodies fs hs"
  by (simp add: same_bodies_def)

lemma same_bodies_update: "distinct (map fst fs) \<Longrightarrow> (\<And>d k. \<not> hit d k p) \<Longrightarrow> same_bodies fs (AList.update p c fs)"
  by (simp add: same_bodies_def distinct_update bodies_update_miss)

lemma same_bodies_delete: "distinct (map fst fs) \<Longrightarrow> (\<And>d k. \<not> hit d k p) \<Longrightarrow> same_bodies fs (AList.delete p fs)"
  by (simp add: same_bodies_def distinct_delete bodies_delete_miss)

lemma not_hit_tmp: "\<not> hit d k (p @ [''tmp'', n])"
  by simp

lemma same_bodies_ok: "files_ok fs \<Longrightarrow> same_bodies fs fs' \<Longrightarrow> files_ok fs'"
  by (simp add: same_bodies_def files_ok_def)

lemma same_bodies_store:
  assumes ok: "store_ok w" and t: "w_mailboxes w' = w_mailboxes w" "w_messages w' = w_messages w"
      "w_mailbox_seq w' = w_mailbox_seq w"
    and f: "same_bodies (w_files w) (w_files w')"
  shows "store_ok w' \<and> contents w' = contents w"
proof -
  have p: "path_of w' = path_of w" by (rule path_of_cong) (rule t)
  have b: "bodies d k (w_files w') = bodies d k (w_files w)" for d k using f by (simp add: same_bodies_def)
  have "abs_msg w' = abs_msg w" by (simp add: abs_msg_def fun_eq_iff p b)
  then have "contents w' = contents w" by (simp add: contents_def fun_eq_iff t)
  moreover have "body_stored w' = body_stored w" by (simp add: body_stored_def fun_eq_iff p b)
  moreover have "tables_ok w'" "files_ok (w_files w')"
    using ok tables_ok_cong [OF t] same_bodies_ok [OF _ f] by (simp_all add: store_ok_def)
  ultimately show ?thesis using ok by (simp add: store_ok_def t)
qed

section \<open>Methods that touch no body and no table\<close>

definition quiet :: "world \<Rightarrow> world \<Rightarrow> bool" where
  "quiet w w' \<longleftrightarrow> same_tables w w' \<and> (distinct (map fst (w_files w)) \<longrightarrow> same_bodies (w_files w) (w_files w'))"

abbreviation quietM :: "('e, 'a) proc \<Rightarrow> bool" where
  "quietM \<equiv> stepsM quiet"

named_theorems quiet_intros

lemma quiet_trans: "quiet w w1 \<Longrightarrow> quiet w1 w2 \<Longrightarrow> quiet w w2"
  unfolding quiet_def using same_tables_trans same_bodies_trans by (metis same_bodies_def)

lemma quiet_same: "same_world w w' \<Longrightarrow> quiet w w'"
  by (simp add: quiet_def same_world_tables same_worldD same_bodies_refl)

interpretation qt: step_rel quiet
  by unfold_locales (rule quiet_same, assumption, rule quiet_trans)

lemmas quietM_D = stepsM_D [of quiet]

lemmas quiet_rules [quiet_intros] = qt.retE qt.failE qt.readE qt.bindE qt.onErr qt.mapErr qt.ignoreE qt.execE qt.tryE

lemma quiet_files:
  "(distinct (map fst (w_files w)) \<Longrightarrow> same_bodies (w_files w) fs) \<Longrightarrow> quiet w (w\<lparr>w_files := fs\<rparr>)"
  by (simp add: quiet_def same_tables_def)

lemma quiet_dirs: "quiet w (w\<lparr>w_dirs := ds\<rparr>)"
  by (simp add: quiet_def same_tables_def same_bodies_refl)

lemma quietM_ensureMaildir [quiet_intros]: "quietM (ensureMaildir p)"
  unfolding ensureMaildir_def os_MkdirAll_def by (intro quiet_intros) (simp_all add: quiet_dirs)

lemma quietM_open_tmp [quiet_intros]: "quietM (open_excl (p @ [''tmp'', n]))"
  unfolding open_excl_def
  by (intro quiet_intros) (auto split: if_splits intro!: quiet_files same_bodies_update)

lemma quietM_write_tmp [quiet_intros]: "quietM (write_sync (p @ [''tmp'', n]) body)"
  unfolding write_sync_def
  by (cases body) (auto intro!: quiet_intros quiet_files same_bodies_update)

lemma quietM_remove_tmp [quiet_intros]: "quietM (os_Remove_file (p @ [''tmp'', n]))"
  unfolding os_Remove_file_def
  by (intro quiet_intros) (auto split: if_splits intro!: quiet_files same_bodies_delete)

lemma quietM_cleanup_tmp [quiet_intros]: "quietM (cleanup_fail (p @ [''tmp'', n]) e)"
  unfolding cleanup_fail_def by (intro quiet_intros)

lemma quietM_GetMailboxByID [quiet_intros]: "quietM (GetMailboxByID i)"
  unfolding GetMailboxByID_def scan_mailbox_def by (auto intro!: quiet_intros split: option.split)

lemma quietM_GetMessage [quiet_intros]: "quietM (GetMessage_md i uid)"
  unfolding GetMessage_md_def by (auto intro!: quiet_intros split: option.split)

lemma quietM_os_Open [quiet_intros]: "quietM (os_Open p)"
  unfolding os_Open_def by (auto intro!: quiet_intros split: option.split)

lemma quietM_first_open [quiet_intros]: "quietM (first_open ps)"
  by (induction ps) (auto intro: quiet_intros)

lemma quietM_scan_dirs [quiet_intros]: "quietM (scan_dirs p k ds)"
  by (induction ds) (auto intro: quiet_intros)

lemma quietM_GetMessageBody [quiet_intros]: "quietM (GetMessageBody msg)"
  unfolding GetMessageBody_def Let_def by (intro quiet_intros)

lemma quiet_store: "quiet w w' \<Longrightarrow> store_ok w \<Longrightarrow> store_ok w' \<and> contents w' = contents w"
  by (rule same_bodies_store) (simp_all add: quiet_def same_tables_def store_ok_def files_ok_def)

section \<open>Appending\<close>

lemma cleanup_fail_not_Inr: "cleanup_fail p e w \<noteq> (w', Inr x)"
  by (auto simp: cleanup_fail_def bindE_def ignoreE_def failE_def)

lemma write_sync_Inr:
  assumes "write_sync p (Inr content) w = (w', Inr sz)"
  shows "map_of (w_files w') p = Some content \<and> sz = int (length content)"
proof -
  from assms obtain w1 where "execE (\<lambda>w. (w\<lparr>w_files := AList.update p content (w_files w)\<rparr>, ())) w = (w1, Inr ())"
    "readE (\<lambda>w. ()) w1 = (w', Inr ())" "sz = int (length content)"
    by (auto simp: write_sync_def bindE_Inr)
  moreover from this(1) have "map_of (w_files w1) p = Some content"
    by (auto dest!: execE_Inr simp: update_conv)
  ultimately show ?thesis by (auto dest!: readE_same simp: same_worldD)
qed

lemma append_file_Inr:
  assumes f: "append_file p key flags (Inr body) w = (w', Inr (dest, sz))"
    and dist: "distinct (map fst (w_files w))" and fresh: "bodies p key (w_files w) = {#}" and col: "CHR '':'' \<notin> set key"
  shows "dest = p @ [dest_dir flags, with_flags key flags] \<and> sz = int (length body) \<and> same_tables w w' \<and>
    distinct (map fst (w_files w')) \<and> map_of (w_files w') dest = Some body \<and>
    (\<forall>d k. bodies d k (w_files w') = bodies d k (w_files w) + (if d = p \<and> k = key then {#body#} else {#}))"
proof -
  let ?tmp = "p @ [''tmp'', key]" and ?dest = "p @ [dest_dir flags, with_flags key flags]"
  from f obtain w1 w2 w3 where 1: "ensureMaildir p w = (w1, Inr ())" and 2: "open_excl ?tmp w1 = (w2, Inr ())"
    and 3: "write_sync ?tmp (Inr body) w2 = (w3, Inr sz)" and 4: "os_Rename_file ?tmp ?dest w3 = (w', Inr ())"
    and dest: "dest = ?dest"
    by (auto simp: append_file_def Let_def bindE_Inr onErr_Inr cleanup_fail_not_Inr)
  have q: "quiet w w3"
    using quietM_D [OF quietM_ensureMaildir 1] quietM_D [OF quietM_open_tmp 2] quietM_D [OF quietM_write_tmp 3] quiet_trans
    by blast
  from tryE_Inr [OF 4 [unfolded os_Rename_file_def]] obtain w4 c where w4: "same_world w3 w4"
    and c: "map_of (w_files w4) ?tmp = Some c"
    and w': "w' = w4\<lparr>w_files := AList.update ?dest c (AList.delete ?tmp (w_files w4))\<rparr>"
    by (auto split: option.splits)
  let ?fs = "w_files w4" and ?gs = "AList.delete ?tmp (w_files w4)"
  have fs: "?fs = w_files w3" using w4 by (simp add: same_worldD)
  have cb: "c = body" "sz = int (length body)" using write_sync_Inr [OF 3] c fs by simp_all
  have sb: "same_bodies (w_files w) ?fs" using q dist fs by (simp add: quiet_def)
  then have gs: "same_bodies (w_files w) ?gs"
    using same_bodies_trans same_bodies_delete [of ?fs ?tmp] by (simp add: same_bodies_def)
  have hd: "hit d k ?dest \<longleftrightarrow> d = p \<and> k = key" for d k
    using base_key_with_flags [OF col] by (auto simp: dest_dir_def)
  have no: "map_of ?gs ?dest = None"
  proof (rule bodies_empty_map_of)
    show "bodies p key ?gs = {#}" using gs fresh by (simp add: same_bodies_def)
    show "hit p key ?dest" using hd [of p key] by blast
  qed
  have "same_tables w w'" using q w4 unfolding w' by (auto simp: quiet_def same_tables_def same_worldD)
  moreover have "distinct (map fst (w_files w'))" using gs unfolding w' by (simp add: same_bodies_def distinct_update)
  moreover have "bodies d k (w_files w') = bodies d k (w_files w) + (if d = p \<and> k = key then {#body#} else {#})" for d k
    using gs unfolding w' by (simp add: bodies_update_new [OF no] hd cb same_bodies_def del: hit_iff)
  moreover have "map_of (w_files w') dest = Some body" unfolding w' dest by (simp add: update_conv cb)
  ultimately show ?thesis using dest cb by blast
qed

lemma append_file_Inl:
  assumes "append_file p key flags body w = (w', Inl e)"
  shows "quiet w w'"
proof -
  let ?tmp = "p @ [''tmp'', key]" and ?dest = "p @ [dest_dir flags, with_flags key flags]"
  have ren: "quiet w w'" if "os_Rename_file ?tmp ?dest w = (w', Inl e)" for w w' e
    using that unfolding os_Rename_file_def by (rule quiet_same [OF tryE_Inl])
  have q: "quietM (mapErr f (ensureMaildir p))" "quietM (mapErr g (open_excl ?tmp))"
    "quietM (write_sync ?tmp body)" "quietM (cleanup_fail ?tmp e :: (string, int) proc)"
    "quietM (cleanup_fail ?tmp e :: (string, unit) proc)"
    for f :: "string \<Rightarrow> string" and g :: "string \<Rightarrow> string" and e
    by (intro quiet_intros)+
  from assms show ?thesis
    unfolding append_file_def Let_def bindE_Inl bindE_Inr onErr_Inl onErr_Inr
    by (auto simp: cleanup_fail_not_Inr simp del: mapErr_Inl mapErr_Inr dest!: quietM_D [OF q(1)] quietM_D [OF q(2)]
       quietM_D [OF q(3)] quietM_D [OF q(4)] quietM_D [OF q(5)] ren) (meson quiet_trans)+
qed


definition bumped :: "int \<Rightarrow> mailbox list \<Rightarrow> mailbox list" where
  "bumped i mbs = map (\<lambda>mb. if mb_ID mb = i then mb\<lparr>mb_UIDNext := mb_UIDNext mb + 1\<rparr> else mb) mbs"

definition new_row :: "int \<Rightarrow> int \<Rightarrow> int \<Rightarrow> string \<Rightarrow> int \<Rightarrow> time \<Rightarrow> string list \<Rightarrow> time \<Rightarrow> msg_row" where
  "new_row j i uid key sz date flags now = \<lparr>mr_id = j, mr_mailbox_id = i, mr_uid = uid, mr_maildir_key = key, mr_size = sz,
     mr_internal_date = date, mr_flags = flagsToString flags, mr_subject = None, mr_from_address = None,
     mr_to_addresses = None, mr_created_at = now\<rparr>"

lemma append_rows_Inr:
  assumes "append_rows i mb fk flags date now dest sz w = (w', Inr j)"
  shows "w_files w' = w_files w \<and> w_mailboxes w' = bumped i (w_mailboxes w) \<and> w_mailbox_seq w' = w_mailbox_seq w \<and>
    w_users w' = w_users w \<and> w_messages w' = w_messages w @ [new_row j i (mb_UIDNext mb) fk sz date flags now]"
  using assms unfolding append_rows_def
  by (auto simp: bindE_Inr onErr_Inr cleanup_fail_not_Inr insert_message_def bump_uidnext_def bumped_def new_row_def
      same_worldD Let_def split: if_splits dest!: execE_Inr tryE_Inr)

text \<open>The cleanup removes the file, or its failure leaves it.\<close>

definition maybe_removed :: "path \<Rightarrow> world \<Rightarrow> world \<Rightarrow> bool" where
  "maybe_removed p w w' \<longleftrightarrow> w_files w' = w_files w \<or> w_files w' = AList.delete p (w_files w)"

lemma os_Remove_file_effect:
  assumes "os_Remove_file p w = (w', r)"
  shows "maybe_removed p w w' \<and> w_messages w' = w_messages w \<and> w_mailboxes w' = w_mailboxes w \<and>
    w_mailbox_seq w' = w_mailbox_seq w \<and> w_users w' = w_users w \<and> w_domains w' = w_domains w \<and> w_aliases w' = w_aliases w"
proof (cases r)
  case (Inl e)
  with tryE_Inl [OF assms [unfolded Inl os_Remove_file_def]] show ?thesis by (simp add: maybe_removed_def same_worldD)
next
  case (Inr x)
  with tryE_Inr [OF assms [unfolded Inr os_Remove_file_def]] show ?thesis
    by (auto simp: maybe_removed_def same_worldD split: if_splits)
qed

lemma cleanup_fail_effect:
  assumes "cleanup_fail p e w = (w', r)"
  shows "maybe_removed p w w' \<and> w_messages w' = w_messages w \<and> w_mailboxes w' = w_mailboxes w \<and>
    w_mailbox_seq w' = w_mailbox_seq w"
  using assms os_Remove_file_effect [of p w] unfolding cleanup_fail_def
  by (cases r) (auto simp: bindE_Inl bindE_Inr ignoreE_iff)

lemma append_rows_Inl:
  assumes "append_rows i mb fk flags date now dest sz w = (w', Inl e)"
  shows "maybe_removed dest w w' \<and> w_messages w' = w_messages w \<and> w_mailbox_seq w' = w_mailbox_seq w \<and>
    w_mailboxes w' \<in> {w_mailboxes w, bumped i (w_mailboxes w)}"
proof -
  have a: "same_world w w1 \<Longrightarrow> cleanup_fail dest x w1 = (w', Inl e) \<Longrightarrow> ?thesis" for w1 x
    by (drule cleanup_fail_effect) (auto simp: maybe_removed_def same_worldD)
  have b: "execE (bump_uidnext i) w = (w1, Inr n) \<Longrightarrow> same_world w1 w2 \<Longrightarrow> cleanup_fail dest x w2 = (w', Inl e) \<Longrightarrow> ?thesis"
    for w1 w2 n x
    by (drule cleanup_fail_effect) (auto simp: maybe_removed_def same_worldD bump_uidnext_def bumped_def dest!: execE_Inr)
  from assms show ?thesis unfolding append_rows_def
    by (auto simp: bindE_Inl onErr_Inl onErr_Inr cleanup_fail_not_Inr split: if_splits
       dest: a [OF execE_Inl] b [OF _ same_world_refl] b [OF _ tryE_Inl])
qed


lemma find_bumped:
  "find (\<lambda>mb. mb_ID mb = j) (bumped i mbs) =
     map_option (\<lambda>mb. if mb_ID mb = i then mb\<lparr>mb_UIDNext := mb_UIDNext mb + 1\<rparr> else mb) (find (\<lambda>mb. mb_ID mb = j) mbs)"
  unfolding bumped_def by (induction mbs) auto

lemma path_of_bumped: "w_mailboxes w' \<in> {w_mailboxes w, bumped i (w_mailboxes w)} \<Longrightarrow> path_of w' = path_of w"
  by (auto simp: path_of_def fun_eq_iff find_bumped mb_path_def split: option.split)

lemma bumped_maps [simp]:
  "map mb_ID (bumped i mbs) = map mb_ID mbs"
  "map (\<lambda>mb. (mb_UserID mb, mb_Name mb)) (bumped i mbs) = map (\<lambda>mb. (mb_UserID mb, mb_Name mb)) mbs"
  by (simp_all add: bumped_def)

lemma bumped_IDs: "(\<forall>mb\<in>set (bumped i mbs). mb_ID mb \<le> n) \<longleftrightarrow> (\<forall>mb\<in>set mbs. mb_ID mb \<le> n)"
  unfolding bumped_def by (induction mbs) auto

lemma bumped_UIDNext:
  "\<exists>mb\<in>set mbs. mb_ID mb = j \<and> u < mb_UIDNext mb \<Longrightarrow> \<exists>mb\<in>set (bumped i mbs). mb_ID mb = j \<and> u < mb_UIDNext mb"
  unfolding bumped_def by (induction mbs) auto

lemma bumped_new: "mb \<in> set mbs \<Longrightarrow> mb_ID mb = i \<Longrightarrow> \<exists>mb2\<in>set (bumped i mbs). mb_ID mb2 = i \<and> mb_UIDNext mb < mb_UIDNext mb2"
  unfolding bumped_def by (induction mbs) auto

lemma tables_ok_bumped:
  assumes "tables_ok w" "w_mailboxes w' \<in> {w_mailboxes w, bumped i (w_mailboxes w)}" "w_messages w' = w_messages w"
    "w_mailbox_seq w' = w_mailbox_seq w"
  shows "tables_ok w'"
proof (cases "w_mailboxes w' = w_mailboxes w")
  case True
  then show ?thesis using tables_ok_cong assms by blast
next
  case False
  then have m: "w_mailboxes w' = bumped i (w_mailboxes w)" using assms(2) by simp
  have "\<forall>m\<in>set (w_messages w). \<exists>mb2\<in>set (bumped i (w_mailboxes w)). mb_ID mb2 = mr_mailbox_id m \<and> mr_uid m < mb_UIDNext mb2"
    using assms(1) bumped_UIDNext unfolding tables_ok_def by blast
  then show ?thesis using assms(1) unfolding tables_ok_def m assms(3,4) by (simp add: bumped_IDs)
qed

text \<open>A key that no file and no row has.\<close>

definition fresh_key :: "string \<Rightarrow> world \<Rightarrow> bool" where
  "fresh_key key w \<longleftrightarrow> (\<forall>d. bodies d key (w_files w) = {#}) \<and> (\<forall>m\<in>set (w_messages w). base_key (mr_maildir_key m) \<noteq> key)"

text \<open>A failed append may leave a file that no row names.\<close>

lemma orphan_store:
  assumes ok: "store_ok w" and m: "w_mailboxes w' \<in> {w_mailboxes w, bumped i (w_mailboxes w)}" "w_messages w' = w_messages w"
      "w_mailbox_seq w' = w_mailbox_seq w"
    and f: "files_ok (w_files w')" and b: "\<And>d k. k \<noteq> key \<Longrightarrow> bodies d k (w_files w') = bodies d k (w_files w)"
    and fresh: "fresh_key key w"
  shows "store_ok w' \<and> contents w' = contents w"
proof -
  have p: "path_of w' = path_of w" by (rule path_of_bumped) (rule m)
  have e: "abs_msg w' r = abs_msg w r \<and> body_stored w' r = body_stored w r" if "r \<in> set (w_messages w)" for r
    using that fresh b by (simp add: abs_msg_def body_stored_def p fresh_key_def)
  then have "contents w' = contents w" by (auto simp: contents_def fun_eq_iff m(2))
  moreover have "tables_ok w'" using ok tables_ok_bumped [OF _ m] by (simp add: store_ok_def)
  ultimately show ?thesis using ok e f by (simp add: store_ok_def m(2))
qed

lemma new_row_tables:
  assumes t: "tables_ok w" and mb: "mb \<in> set (w_mailboxes w)" "mb_ID mb = i"
    and fresh: "fresh_key (base_key fk) w" and w': "w_mailboxes w' = bumped i (w_mailboxes w)"
      "w_messages w' = w_messages w @ [new_row j i (mb_UIDNext mb) fk sz date flags now]" "w_mailbox_seq w' = w_mailbox_seq w"
  shows "tables_ok w'"
proof -
  have "mb2 = mb" if "mb2 \<in> set (w_mailboxes w)" "mb_ID mb2 = i" for mb2
    using t mb that eq_key_imp_eq_value [of "map (\<lambda>m. (mb_ID m, m)) (w_mailboxes w)" i mb mb2]
    by (simp add: tables_ok_def o_def image_iff)
  then have "(i, mb_UIDNext mb) \<notin> set (map (\<lambda>m. (mr_mailbox_id m, mr_uid m)) (w_messages w))"
    using t unfolding tables_ok_def by fastforce
  moreover have "\<exists>mb2\<in>set (bumped i (w_mailboxes w)). mb_ID mb2 = i \<and> mb_UIDNext mb < mb_UIDNext mb2"
    by (rule bumped_new [OF mb])
  moreover have "base_key fk \<notin> set (map (\<lambda>m. base_key (mr_maildir_key m)) (w_messages w))"
    using fresh by (force simp: fresh_key_def)
  moreover have "\<forall>m\<in>set (w_messages w). \<exists>mb2\<in>set (bumped i (w_mailboxes w)). mb_ID mb2 = mr_mailbox_id m \<and> mr_uid m < mb_UIDNext mb2"
    using t bumped_UIDNext unfolding tables_ok_def by blast
  ultimately show ?thesis using t unfolding tables_ok_def w' by (simp add: new_row_def bumped_IDs)
qed

lemma new_row_store:
  assumes ok: "store_ok w" and mb: "find (\<lambda>mb. mb_ID mb = i) (w_mailboxes w) = Some mb"
    and fresh: "fresh_key key w" "base_key fk = key" and w': "w_mailboxes w' = bumped i (w_mailboxes w)"
      "w_messages w' = w_messages w @ [new_row j i (mb_UIDNext mb) fk sz date flags now]" "w_mailbox_seq w' = w_mailbox_seq w"
    and f: "files_ok (w_files w')"
      "\<And>d k. bodies d k (w_files w') = bodies d k (w_files w) + (if d = mb_path mb \<and> k = key then {#body#} else {#})"
  shows "store_ok w' \<and> contents w' = (contents w)(i := contents w i @
    [(mb_UIDNext mb, stringToFlags (flagsToString flags), date, {#body#})])"
proof -
  let ?r = "new_row j i (mb_UIDNext mb) fk sz date flags now"
  have p: "path_of w' = path_of w" by (rule path_of_bumped [of _ _ i]) (simp add: w')
  have pi: "path_of w i = mb_path mb" using mb by (simp add: path_of_def)
  have i: "mb \<in> set (w_mailboxes w)" "mb_ID mb = i" using mb by (auto simp: find_Some_iff)
  have old: "abs_msg w' r = abs_msg w r \<and> body_stored w' r = body_stored w r" if "r \<in> set (w_messages w)" for r
    using that fresh f(2) by (auto simp add: abs_msg_def body_stored_def p fresh_key_def)
  have new: "abs_msg w' ?r = (mb_UIDNext mb, stringToFlags (flagsToString flags), date, {#body#})" "body_stored w' ?r"
    using fresh by (simp_all add: abs_msg_def body_stored_def p pi new_row_def f(2) fresh_key_def)
  have "contents w' x = ((contents w)(i := contents w i @
    [(mb_UIDNext mb, stringToFlags (flagsToString flags), date, {#body#})])) x" for x
    using old new(1) by (auto simp: contents_def w'(2)) (simp_all add: new_row_def)
  moreover have "tables_ok w'"
    by (rule new_row_tables [OF _ i _ w']) (use ok fresh in \<open>simp_all add: store_ok_def\<close>)
  ultimately show ?thesis using ok old new(2) f(1) by (auto simp: store_ok_def w'(2))
qed


lemma GetMailboxByID_Inr:
  assumes "GetMailboxByID i w = (w', Inr mb)"
  shows "same_world w w' \<and> find (\<lambda>mb. mb_ID mb = i) (w_mailboxes w) = Some mb \<and> mb_UIDNext mb < 2 ^ 32"
proof -
  from assms obtain w1 row where r: "readE (\<lambda>w. find (\<lambda>mb. mb_ID mb = i) (w_mailboxes w)) w = (w1, Inr row)"
    and s: "scan_mailbox row w1 = (w', Inr mb)" by (auto simp: GetMailboxByID_def bindE_Inr)
  from s have "row = Some mb" "w' = w1" "mb_UIDNext mb < 2 ^ 32"
    by (auto simp only: scan_mailbox_def option.simps retE_iff failE_iff sum.simps split: option.splits if_splits)
  moreover have "same_world w w1" "row = find (\<lambda>mb. mb_ID mb = i) (w_mailboxes w)"
    using readE_Inr [OF r] by (auto simp: same_worldD)
  ultimately show ?thesis by simp
qed

lemma maybe_removed_bodies:
  assumes "maybe_removed p w w'" "distinct (map fst (w_files w))"
  shows "distinct (map fst (w_files w'))" "\<not> hit d k p \<Longrightarrow> bodies d k (w_files w') = bodies d k (w_files w)"
    "bodies d k (w_files w') \<subseteq># bodies d k (w_files w)"
  using assms(1) unfolding maybe_removed_def
  by (elim disjE; simp add: assms(2) distinct_delete bodies_delete_miss bodies_delete_le)+

lemma maybe_removed_files_ok: "maybe_removed p w w' \<Longrightarrow> files_ok (w_files w) \<Longrightarrow> files_ok (w_files w')"
  unfolding files_ok_def using maybe_removed_bodies(1,3) by (metis subset_mset.le_zero_eq)

lemma added_files_ok:
  assumes "files_ok fs" "distinct (map fst gs)" "key_ok key"
    "\<forall>d k. bodies d k gs = bodies d k fs + (if d = p \<and> k = key then {#body#} else {#})"
  shows "files_ok gs"
  using assms by (auto simp: files_ok_def)

lemma execE_cases: "execE f w = (w', r) \<Longrightarrow> same_world w w' \<or> (\<exists>w1. same_world w w1 \<and> w' = fst (f w1))"
  by (cases r) (metis execE_Inl, metis execE_Inr fst_conv)

lemma quota_unseen_effect:
  assumes lib: "maildir_lib unseen" and ok: "store_ok w"
    and q: "ignoreE (UpdateUserQuota u sz) w = (w1, Inr x)"
    and s: "ignoreE (execE (\<lambda>w. (w\<lparr>w_files := unseen p (w_files w)\<rparr>, ()))) w1 = (w', Inr y)"
  shows "store_ok w' \<and> contents w' = contents w"
proof -
  have 1: "w_mailboxes w1 = w_mailboxes w \<and> w_messages w1 = w_messages w \<and> w_mailbox_seq w1 = w_mailbox_seq w \<and>
    w_files w1 = w_files w"
    using q by (auto simp: ignoreE_iff UpdateUserQuota_def same_worldD dest!: execE_cases)
  have d: "distinct (map fst (w_files w))" using ok by (simp add: store_ok_def files_ok_def)
  have "w_mailboxes w' = w_mailboxes w1 \<and> w_messages w' = w_messages w1 \<and> w_mailbox_seq w' = w_mailbox_seq w1 \<and>
    (w_files w' = w_files w1 \<or> w_files w' = unseen p (w_files w1))"
    using s by (auto simp: ignoreE_iff same_worldD dest!: execE_cases)
  moreover have "same_bodies (w_files w) (unseen p (w_files w))"
    using lib d by (simp add: same_bodies_def maildir_lib.unseen_bodies maildir_lib.unseen_distinct)
  ultimately show ?thesis using 1 d by (intro same_bodies_store [OF ok]) (auto simp: same_bodies_refl)
qed


lemma fresh_key_cong: "fresh_key key w \<Longrightarrow> same_world w w1 \<Longrightarrow> fresh_key key w1"
  by (simp add: fresh_key_def same_worldD)

lemma AppendMessage_Inl_store:
  assumes ok: "store_ok w" and key: "key_ok (generateMaildirKey now buf)" "fresh_key (generateMaildirKey now buf) w"
    and run: "AppendMessage unseen now buf i flags date body w = (w', Inl e)"
  shows "store_ok w' \<and> contents w' = contents w"
proof -
  let ?key = "generateMaildirKey now buf"
  consider e1 where "GetMailboxByID i w = (w', Inl e1)"
    | w1 mb where "GetMailboxByID i w = (w1, Inr mb)" "append_file (mb_path mb) ?key flags body w1 = (w', Inl e)"
    | w1 mb dest sz w2 where "GetMailboxByID i w = (w1, Inr mb)" "append_file (mb_path mb) ?key flags body w1 = (w2, Inr (dest, sz))"
      "append_rows i mb (with_flags ?key flags) flags date now dest sz w2 = (w', Inl e)"
    using run unfolding AppendMessage_def Let_def
    by (auto simp: bindE_Inl ignoreE_iff split: prod.splits)
  then show ?thesis
  proof cases
    case 1
    then show ?thesis using quiet_store [OF quietM_D [OF quietM_GetMailboxByID] ok] by blast
  next
    case 2
    then show ?thesis using quiet_store [OF quiet_trans [OF quietM_D [OF quietM_GetMailboxByID] append_file_Inl] ok] by blast
  next
    case 3
    have g: "same_world w w1" "find (\<lambda>mb. mb_ID mb = i) (w_mailboxes w) = Some mb" using GetMailboxByID_Inr [OF 3(1)] by auto
    obtain c where c: "body = Inr c" using 3(2) by (cases body) (auto simp: append_file_def Let_def bindE_Inr onErr_Inr write_sync_def cleanup_fail_not_Inr)
    have d: "distinct (map fst (w_files w1))" using ok g by (simp add: store_ok_def files_ok_def same_worldD)
    have fr: "bodies (mb_path mb) ?key (w_files w1) = {#}" using key(2) g by (simp add: fresh_key_def same_worldD)
    note f = append_file_Inr [OF 3(2) [unfolded c] d fr key_ok_no_colon [OF key(1)]]
    note r = append_rows_Inl [OF 3(3)]
    have d2: "distinct (map fst (w_files w2))" using f by blast
    have nh: "\<not> hit dd k dest" if "k \<noteq> ?key" for dd k
      using that f base_key_with_flags [OF key_ok_no_colon [OF key(1)]] by simp
    show ?thesis
    proof (rule orphan_store [OF ok _ _ _ _ _ key(2)])
      show "w_mailboxes w' \<in> {w_mailboxes w, bumped i (w_mailboxes w)}" "w_messages w' = w_messages w" "w_mailbox_seq w' = w_mailbox_seq w"
        using f r g(1) by (auto simp: same_tables_def same_worldD)
      show "files_ok (w_files w')"
        by (rule maybe_removed_files_ok, use r in blast)
          (rule added_files_ok [of "w_files w1" _ ?key "mb_path mb" c], use f key(1) ok g(1) in \<open>auto simp: store_ok_def same_worldD\<close>)
      show "bodies dd k (w_files w') = bodies dd k (w_files w)" if "k \<noteq> ?key" for dd k
        using maybe_removed_bodies(2) [OF _ d2 nh [OF that]] r f that g(1) by (simp add: same_worldD)
    qed
  qed
qed


lemma AppendMessage_Inr_store:
  assumes ok: "store_ok w" and lib: "maildir_lib unseen"
    and key: "key_ok (generateMaildirKey now buf)" "fresh_key (generateMaildirKey now buf) w"
    and run: "AppendMessage unseen now buf i flags date body w = (w', Inr msg)"
  obtains c where "body = Inr c" "store_ok w'"
    "contents w' = (contents w)(i := contents w i @ [(sm_UID msg, stringToFlags (flagsToString flags), date, {#c#})])"
    "sm_Flags msg = flags" "sm_Size msg = int (length c)"
proof -
  let ?key = "generateMaildirKey now buf"
  from run obtain w1 mb dest sz w2 w3 w4 j where g: "GetMailboxByID i w = (w1, Inr mb)"
    and a: "append_file (mb_path mb) ?key flags body w1 = (w2, Inr (dest, sz))"
    and r: "append_rows i mb (with_flags ?key flags) flags date now dest sz w2 = (w3, Inr j)"
    and q: "ignoreE (UpdateUserQuota (mb_UserID mb) sz) w3 = (w4, Inr () :: (string, unit) result)"
      "ignoreE (execE (\<lambda>w. (w\<lparr>w_files := unseen (mb_path mb) (w_files w)\<rparr>, ()))) w4 = (w', Inr () :: (string, unit) result)"
    and msg: "msg = \<lparr>sm_ID = j, sm_MailboxID = i, sm_UID = mb_UIDNext mb, sm_MaildirKey = with_flags ?key flags, sm_Size = sz,
      sm_InternalDate = date, sm_Flags = flags\<rparr>"
    unfolding AppendMessage_def Let_def by (auto simp: bindE_Inr split: prod.splits)
  have m: "sm_UID msg = mb_UIDNext mb" "sm_Flags msg = flags" "sm_Size msg = sz" by (simp_all add: msg)
  have g1: "same_world w w1" "find (\<lambda>mb. mb_ID mb = i) (w_mailboxes w) = Some mb" using GetMailboxByID_Inr [OF g] by auto
  obtain c where c: "body = Inr c"
    using a by (cases body) (auto simp: append_file_def Let_def bindE_Inr onErr_Inr write_sync_def cleanup_fail_not_Inr)
  have d: "distinct (map fst (w_files w1))" using ok g1 by (simp add: store_ok_def files_ok_def same_worldD)
  have fr: "bodies (mb_path mb) ?key (w_files w1) = {#}" using key(2) g1 by (simp add: fresh_key_def same_worldD)
  note f = append_file_Inr [OF a [unfolded c] d fr key_ok_no_colon [OF key(1)]]
  note r1 = append_rows_Inr [OF r]
  have "store_ok w3 \<and> contents w3 = (contents w)(i := contents w i @
    [(mb_UIDNext mb, stringToFlags (flagsToString flags), date, {#c#})])"
  proof (rule new_row_store [OF ok g1(2) key(2) base_key_with_flags [OF key_ok_no_colon [OF key(1)]]])
    show "w_mailboxes w3 = bumped i (w_mailboxes w)" "w_mailbox_seq w3 = w_mailbox_seq w"
      "w_messages w3 = w_messages w @ [new_row j i (mb_UIDNext mb) (with_flags ?key flags) sz date flags now]"
      using f r1 g1(1) by (simp_all add: same_tables_def same_worldD)
    show "files_ok (w_files w3)"
      by (rule added_files_ok [of "w_files w1" _ ?key "mb_path mb" c], use f r1 key(1) ok g1(1) in \<open>auto simp: store_ok_def same_worldD\<close>)
    show "bodies dd k (w_files w3) = bodies dd k (w_files w) + (if dd = mb_path mb \<and> k = ?key then {#c#} else {#})" for dd k
      using f r1 g1(1) by (simp add: same_worldD)
  qed
  then show ?thesis using that [OF c] quota_unseen_effect [OF lib _ q] m f by simp
qed


section \<open>An instance of the library contract\<close>

text \<open>Every file of \<open>new\<close> moves to \<open>cur\<close>, with an empty list of flags when it has none.\<close>

definition unseen_target :: "path \<Rightarrow> string \<Rightarrow> path" where
  "unseen_target p n = p @ [''cur'', if CHR '':'' \<in> set n then n else n @ '':2,'']"

definition unseen_step :: "path \<Rightarrow> string \<Rightarrow> (path \<times> string) list \<Rightarrow> (path \<times> string) list" where
  "unseen_step p n fs =
     (case (map_of fs (p @ [''new'', n]), map_of fs (unseen_target p n)) of
        (Some c, None) \<Rightarrow> AList.update (unseen_target p n) c (AList.delete (p @ [''new'', n]) fs)
      | _ \<Rightarrow> fs)"

definition move_new :: unseen_fun where
  "move_new p fs = fold (unseen_step p) (dir_names (p @ [''new'']) fs) fs"

lemma base_key_target: "base_key (if CHR '':'' \<in> set n then n else n @ '':2,'') = base_key n"
  using base_key_flags [of n "[]"] base_key_plain [of n] by simp

lemma unseen_step_same: "distinct (map fst fs) \<Longrightarrow> same_bodies fs (unseen_step p n fs)"
proof -
  assume d: "distinct (map fst fs)"
  let ?old = "p @ [''new'', n]" and ?new = "unseen_target p n"
  show ?thesis
  proof (cases "map_of fs ?old")
    case None
    then show ?thesis using d by (simp add: unseen_step_def same_bodies_refl)
  next
    case (Some c)
    show ?thesis
    proof (cases "map_of fs ?new")
      case None
      have no: "map_of (AList.delete ?old fs) ?new = None" using None by (simp add: delete_conv')
      have h: "hit d k ?new = hit d k ?old" for d k using base_key_target [of n] by (simp add: unseen_target_def)
      have "bodies dd k (AList.update ?new c (AList.delete ?old fs)) = bodies dd k fs" for dd k
        unfolding bodies_update_new [OF no] h by (rule bodies_delete [OF d Some, symmetric])
      then show ?thesis using d Some None by (simp add: unseen_step_def same_bodies_def distinct_update distinct_delete)
    qed (use d Some in \<open>simp add: unseen_step_def same_bodies_refl\<close>)
  qed
qed

lemma unseen_fold_same: "distinct (map fst fs) \<Longrightarrow> same_bodies fs (fold (unseen_step p) ns fs)"
proof (induction ns arbitrary: fs)
  case (Cons n ns)
  from unseen_step_same [OF Cons.prems, of p n] have "distinct (map fst (unseen_step p n fs))" by (simp add: same_bodies_def)
  then show ?case using same_bodies_trans [OF unseen_step_same [OF Cons.prems] Cons.IH] by simp
qed (simp add: same_bodies_refl)

interpretation mv: maildir_lib move_new
  by unfold_locales (use unseen_fold_same in \<open>simp_all add: move_new_def same_bodies_def\<close>)

section \<open>Appending refines the abstract store\<close>

definition flag_ok :: "string \<Rightarrow> bool" where
  "flag_ok f \<longleftrightarrow> f \<noteq> [] \<and> CHR '','' \<notin> set f"

lemma flags_roundtrip: "list_all flag_ok flags \<Longrightarrow> stringToFlags (flagsToString flags) = flags"
proof (cases flags)
  case (Cons f fs)
  assume ok: "list_all flag_ok flags"
  then have "Join flags '','' \<noteq> []" using Cons by (cases fs) (simp_all add: flag_ok_def)
  moreover have "Split (Join flags '','') (CHR '','') = flags"
    by (rule Split_Join) (use Cons ok in \<open>simp_all add: list_all_iff flag_ok_def\<close>)
  ultimately show ?thesis by (simp add: stringToFlags_def flagsToString_def)
qed (simp add: stringToFlags_def flagsToString_def)

text \<open>C15. \<open>AppendMessage\<close> refines appending to a list: a call that succeeds adds exactly one message, with the UID it
  returns, its flags, its date and its body, at the end of its mailbox and changes no other message of any mailbox; a
  call that fails, at whatever statement or file operation, changes no message at all. The invariant of the store is
  kept in both cases.\<close>

theorem append_refines:
  assumes "maildir_lib unseen" "store_ok w" "0 \<le> now" "length buf = 16" "fresh_key (generateMaildirKey now buf) w"
    "list_all flag_ok flags" "AppendMessage unseen now buf i flags date body w = (w', r)"
  shows "store_ok w' \<and>
    (case r of
       Inl e \<Rightarrow> contents w' = contents w
     | Inr msg \<Rightarrow> (\<exists>c. body = Inr c \<and> contents w' = (contents w)(i := contents w i @ [(sm_UID msg, flags, date, {#c#})])))"
proof (cases r)
  case (Inl e)
  with AppendMessage_Inl_store [OF assms(2) generateMaildirKey_ok [OF assms(3,4)] assms(5)] assms(7) show ?thesis by simp
next
  case (Inr msg)
  obtain c where "body = Inr c" "store_ok w'" "contents w' = (contents w)(i := contents w i @
      [(sm_UID msg, stringToFlags (flagsToString flags), date, {#c#})])"
    by (rule AppendMessage_Inr_store [OF assms(2,1) generateMaildirKey_ok [OF assms(3,4)] assms(5) assms(7) [unfolded Inr]])
  then show ?thesis using flags_roundtrip [OF assms(6)] Inr by simp
qed

definition world_1 :: world where
  "world_1 = \<lparr>w_domains = [\<lparr>d_id = 1, d_name = ''a.org'', d_active = True\<rparr>],
     w_users = [\<lparr>u_id = 1, u_domain_id = 1, u_username = ''joe'', u_password_hash = [], u_display_name = None,
                 u_quota_bytes = 1000, u_used_bytes = 0, u_active = True\<rparr>],
     w_aliases = [],
     w_mailboxes = [\<lparr>mb_ID = 1, mb_UserID = 1, mb_Name = ''INBOX'', mb_UIDValidity = 7, mb_UIDNext = 1, mb_SpecialUse = [],
                     mb_Subscribed = True, mb_CreatedAt = 0\<rparr>],
     w_messages = [], w_user_seq = 1, w_mailbox_seq = 1, w_message_seq = 0, w_dirs = [], w_files = [], w_faults = []\<rparr>"

lemma world_1_ok: "store_ok world_1" "fresh_key key world_1"
  by (simp_all add: world_1_def store_ok_def tables_ok_def files_ok_def fresh_key_def)

definition run_append :: "world \<times> (string, stored_message) result" where
  "run_append = AppendMessage move_new 5 (replicate 16 (CHR 0x00)) 1 [FlagFlagged] 9 (Inr ''hello'') world_1"

lemma run_append_ok: "map_option sm_UID (case snd run_append of Inl e \<Rightarrow> None | Inr m \<Rightarrow> Some m) = Some 1"
  by code_simp

lemma run_append_Inr: "\<exists>msg. run_append = (fst run_append, Inr msg) \<and> sm_UID msg = 1"
  using run_append_ok by (cases "snd run_append") (simp_all, metis prod.collapse)

lemma flags_1: "list_all flag_ok [FlagFlagged]"
  by (simp add: flag_ok_def flag_defs)

lemma contents_1: "contents world_1 1 = []"
  by (simp add: contents_def world_1_def)

theorem append_refines_witness:
  "store_ok (fst run_append) \<and> contents (fst run_append) 1 = [(1, [FlagFlagged], 9, {#''hello''#})]"
proof -
  obtain msg where r: "run_append = (fst run_append, Inr msg)" and u: "sm_UID msg = 1" using run_append_Inr by blast
  from append_refines [OF mv.maildir_lib_axioms world_1_ok(1) _ _ world_1_ok(2) flags_1 r [unfolded run_append_def]]
  show ?thesis using u contents_1 by (simp add: run_append_def)
qed

text \<open>The world after this append, for later examples.\<close>

lemma world_2:
  "store_ok (fst run_append)" "contents (fst run_append) 1 = [(1, [FlagFlagged], 9, {#''hello''#})]"
proof -
  obtain msg where r: "run_append = (fst run_append, Inr msg)" and u: "sm_UID msg = 1" using run_append_Inr by blast
  have k: "key_ok (generateMaildirKey 5 (replicate 16 (CHR 0x00)))" by (rule generateMaildirKey_ok) simp_all
  show "store_ok (fst run_append)" "contents (fst run_append) 1 = [(1, [FlagFlagged], 9, {#''hello''#})]"
    by (rule AppendMessage_Inr_store [OF world_1_ok(1) mv.maildir_lib_axioms k world_1_ok(2) r [unfolded run_append_def]];
        simp add: run_append_def contents_1 u flags_roundtrip [OF flags_1])+
qed

section \<open>Reading a body\<close>

lemma os_Open_ok: "w_faults w = [] \<Longrightarrow>
    os_Open p w = (w, case map_of (w_files w) p of None \<Rightarrow> Inl ''no such file or directory'' | Some c \<Rightarrow> Inr c)"
  by (simp add: os_Open_def bindE_def retE_def failE_def split: option.split)

lemma first_open_cases:
  assumes "w_faults w = []" "\<And>p c'. p \<in> set ps \<Longrightarrow> map_of (w_files w) p = Some c' \<Longrightarrow> c' = c"
  shows "first_open ps w = (w, Inr c) \<or>
    (first_open ps w = (w, Inl ''message file not found'') \<and> (\<forall>p\<in>set ps. map_of (w_files w) p = None))"
  using assms(2)
proof (induction ps)
  case (Cons p ps)
  have IH: "first_open ps w = (w, Inr c) \<or>
    (first_open ps w = (w, Inl ''message file not found'') \<and> (\<forall>p\<in>set ps. map_of (w_files w) p = None))"
    by (rule Cons.IH, rule Cons.prems) auto
  show ?case
  proof (cases "map_of (w_files w) p")
    case None
    with IH show ?thesis by (simp add: onErr_def os_Open_ok [OF assms(1)])
  next
    case (Some a)
    then have "a = c" by (intro Cons.prems [of p]) simp_all
    with Some show ?thesis by (simp add: onErr_def os_Open_ok [OF assms(1)])
  qed
qed (simp add: failE_def)

lemma in_dir_names: "n \<in> set (dir_names d fs) \<longleftrightarrow> (\<exists>c. (d @ [n], c) \<in> set fs)"
  by (force simp: dir_names_def snoc_eq_iff_butlast)

lemma scan_dirs_cases:
  assumes "w_faults w = []"
    "\<And>s n c'. s \<in> set ds \<Longrightarrow> HasPrefix n k \<Longrightarrow> map_of (w_files w) (p @ [s, n]) = Some c' \<Longrightarrow> c' = c"
  shows "scan_dirs p k ds w = (w, Inr c) \<or>
    (scan_dirs p k ds w = (w, Inl ''message file not found'') \<and>
      (\<forall>s\<in>set ds. \<forall>n. HasPrefix n k \<longrightarrow> map_of (w_files w) (p @ [s, n]) = None))"
  using assms(2)
proof (induction ds)
  case (Cons s ds)
  let ?names = "sort (dir_names (p @ [s]) (w_files w))"
  let ?ps = "[p @ [s, name]. name \<leftarrow> ?names, HasPrefix name k]"
  have ps: "q \<in> set ?ps \<longleftrightarrow> (\<exists>n. q = p @ [s, n] \<and> HasPrefix n k \<and> (\<exists>c. (q, c) \<in> set (w_files w)))" for q
    by (auto simp: in_dir_names)
  have u: "c' = c" if "q \<in> set ?ps" "map_of (w_files w) q = Some c'" for q c'
    using that Cons.prems [of s] unfolding ps by auto
  have IH: "scan_dirs p k ds w = (w, Inr c) \<or>
    (scan_dirs p k ds w = (w, Inl ''message file not found'') \<and>
      (\<forall>s\<in>set ds. \<forall>n. HasPrefix n k \<longrightarrow> map_of (w_files w) (p @ [s, n]) = None))"
    by (rule Cons.IH, rule Cons.prems) auto
  from first_open_cases [OF assms(1), of ?ps c] u consider "first_open ?ps w = (w, Inr c)"
    | "first_open ?ps w = (w, Inl ''message file not found'')" "\<forall>q\<in>set ?ps. map_of (w_files w) q = None" by blast
  then show ?case
  proof cases
    case 1
    then show ?thesis by (simp add: onErr_def bindE_def assms(1))
  next
    case 2
    have "map_of (w_files w) (p @ [s, n]) = None" if "HasPrefix n k" for n
    proof (rule ccontr)
      assume c: "map_of (w_files w) (p @ [s, n]) \<noteq> None"
      then have "p @ [s, n] \<in> set ?ps" unfolding ps using that by (auto dest: map_of_SomeD)
      from bspec [OF 2(2) this] c show False by simp
    qed
    then show ?thesis using 2(1) IH by (simp add: onErr_def bindE_def assms(1))
  qed
qed (simp add: failE_def)

lemma bodies_single_file:
  assumes "bodies d k fs = {#c#}" "distinct (map fst fs)"
  obtains s n where "s = ''cur'' \<or> s = ''new''" "base_key n = k" "map_of fs (d @ [s, n]) = Some c"
proof -
  from assms(1) have "c \<in># bodies d k fs" by simp
  then obtain p where "(p, c) \<in> set fs" "hit d k p" by (auto simp: bodies_def)
  moreover from this(2) obtain s n where "p = d @ [s, n]" "s = ''cur'' \<or> s = ''new''" by (auto simp: hit_def in_msg_dir_def)
  ultimately show thesis using that assms(2) by auto
qed

lemma body_unique:
  assumes "bodies d k fs = {#c#}" "s = ''cur'' \<or> s = ''new''" "base_key n = k" "map_of fs (d @ [s, n]) = Some c'"
  shows "c' = c"
  using bodies_member [OF assms(4), of d k] assms by simp

lemma files_ok_key:
  assumes "files_ok fs" "map_of fs (d @ [s, n]) = Some c" "s = ''cur'' \<or> s = ''new''"
  shows "key_ok (base_key n)"
proof (rule ccontr)
  assume "\<not> key_ok (base_key n)"
  then have "bodies d (base_key n) fs = {#}" using assms(1) by (simp add: files_ok_def)
  then show False using bodies_member [OF assms(2), of d "base_key n"] assms(3) by simp
qed

lemma base_key_idem: "CHR '':'' \<notin> set (base_key k) \<Longrightarrow> base_key (base_key k) = base_key k"
  by (rule base_key_plain)


lemma GetMailboxByID_ok:
  "w_faults w = [] \<Longrightarrow> find (\<lambda>mb. mb_ID mb = i) (w_mailboxes w) = Some mb \<Longrightarrow> mb_UIDNext mb < 2 ^ 32 \<Longrightarrow>
     GetMailboxByID i w = (w, Inr mb)"
  by (simp add: GetMailboxByID_def scan_mailbox_def runE)

lemma find_mailbox:
  assumes "tables_ok w" "m \<in> set (w_messages w)"
  obtains mb where "find (\<lambda>mb. mb_ID mb = mr_mailbox_id m) (w_mailboxes w) = Some mb" "mb \<in> set (w_mailboxes w)"
    "path_of w (mr_mailbox_id m) = mb_path mb"
proof -
  from assms obtain mb0 where "mb0 \<in> set (w_mailboxes w)" "mb_ID mb0 = mr_mailbox_id m" unfolding tables_ok_def by blast
  then have "find (\<lambda>mb. mb_ID mb = mr_mailbox_id m) (w_mailboxes w) \<noteq> None" by (auto simp: find_None_iff)
  then obtain mb where "find (\<lambda>mb. mb_ID mb = mr_mailbox_id m) (w_mailboxes w) = Some mb" by blast
  moreover from this have "mb \<in> set (w_mailboxes w)" by (auto simp: find_Some_iff)
  ultimately show thesis using that by (simp add: path_of_def)
qed

lemma GetMessageBody_stored:
  assumes ok: "store_ok w" and nf: "w_faults w = []" and m: "m \<in> set (w_messages w)"
    and lim: "\<forall>mb\<in>set (w_mailboxes w). mb_UIDNext mb < 2 ^ 32"
  shows "\<exists>c. GetMessageBody (scan_message m) w = (w, Inr c) \<and>
    bodies (path_of w (mr_mailbox_id m)) (base_key (mr_maildir_key m)) (w_files w) = {#c#}"
proof -
  let ?key = "mr_maildir_key m" and ?bk = "base_key (mr_maildir_key m)" and ?fs = "w_files w"
  have t: "tables_ok w" and f: "files_ok ?fs" and d: "distinct (map fst ?fs)" using ok by (auto simp: store_ok_def files_ok_def)
  obtain mb where mb: "find (\<lambda>mb. mb_ID mb = mr_mailbox_id m) (w_mailboxes w) = Some mb" "mb \<in> set (w_mailboxes w)"
    and p: "path_of w (mr_mailbox_id m) = mb_path mb" by (rule find_mailbox [OF t m])
  let ?p = "mb_path mb"
  have "body_stored w m" using ok m by (simp add: store_ok_def)
  then have "size (bodies ?p ?bk ?fs) = 1" unfolding body_stored_def p .
  then obtain c where c: "bodies ?p ?bk ?fs = {#c#}" using size_1_singleton_mset by blast
  obtain s n where sn: "s = ''cur'' \<or> s = ''new''" "base_key n = ?bk" "map_of ?fs (?p @ [s, n]) = Some c"
    by (rule bodies_single_file [OF c d])
  have bk: "key_ok ?bk" using files_ok_key [OF f sn(3,1)] sn(2) by simp
  then have bb: "base_key ?bk = ?bk" by (intro base_key_idem key_ok_no_colon)
  have sc: "scan_dirs ?p ?bk [''cur'', ''new''] w = (w, Inr c)"
  proof -
    have u: "c' = c" if "x \<in> set [''cur'', ''new'']" "HasPrefix y ?bk" "map_of ?fs (?p @ [x, y]) = Some c'" for x y c'
    proof -
      have "x = ''cur'' \<or> x = ''new''" using that(1) by simp
      then show ?thesis using body_unique [OF c _ key_ok_prefix [OF bk files_ok_key [OF f that(3)] that(2)] that(3)] by blast
    qed
    have "HasPrefix n ?bk" using base_key_prefix [of n] sn(2) by (simp add: HasPrefix_iff prefix_def)
    moreover have "s \<in> set [''cur'', ''new'']" using sn(1) by simp
    ultimately have "\<not> (\<forall>s\<in>set [''cur'', ''new'']. \<forall>n. HasPrefix n ?bk \<longrightarrow> map_of ?fs (?p @ [s, n]) = None)"
      using sn(3) by (metis option.distinct(1))
    then show ?thesis using scan_dirs_cases [OF nf, of "[''cur'', ''new'']" ?bk ?p c] u by blast
  qed
  have u2: "c' = c" if "q \<in> set [?p @ [''cur'', k], ?p @ [''new'', k]]" "base_key k = ?bk" "map_of ?fs q = Some c'" for q k c'
    using that body_unique [OF c _ that(2)] by auto
  have o: "first_open [?p @ [''cur'', k], ?p @ [''new'', k]] w = (w, Inr c) \<or>
      (\<exists>e. first_open [?p @ [''cur'', k], ?p @ [''new'', k]] w = (w, Inl e))" if "base_key k = ?bk" for k
    using first_open_cases [OF nf, of "[?p @ [''cur'', k], ?p @ [''new'', k]]" c] u2 [OF _ that] by blast
  have "GetMailboxByID (mr_mailbox_id m) w = (w, Inr mb)" using GetMailboxByID_ok [OF nf mb(1)] mb(2) lim by blast
  then have "GetMessageBody (scan_message m) w = (w, Inr c)"
    unfolding GetMessageBody_def scan_message_def Let_def stored_message.simps bindE_def onErr_def
    using o [OF refl] o [OF bb] sc by (elim disjE exE) (simp_all del: first_open.simps scan_dirs.simps)
  then show ?thesis using c p by simp
qed


section \<open>Flags\<close>

definition msg_subdir :: "string \<Rightarrow> bool" where
  "msg_subdir s \<longleftrightarrow> s = ''cur'' \<or> s = ''new''"

lemma msg_subdir_dest [simp]: "msg_subdir (dest_dir flags)" "msg_subdir ''cur''" "msg_subdir ''new''"
  by (simp_all add: msg_subdir_def dest_dir_def)

lemma rename_same_bodies:
  assumes d: "distinct (map fst fs)" and one: "size (bodies p k fs) = 1" and c: "map_of fs (p @ [s, a]) = Some c"
    and h: "msg_subdir s" "msg_subdir t" "base_key a = k" "base_key b = k"
  shows "same_bodies fs (AList.update (p @ [t, b]) c (AList.delete (p @ [s, a]) fs))"
proof -
  let ?old = "p @ [s, a]" and ?new = "p @ [t, b]" and ?gs = "AList.delete (p @ [s, a]) fs"
  have hits: "hit d k' ?old \<longleftrightarrow> d = p \<and> k' = k" "hit d k' ?new \<longleftrightarrow> d = p \<and> k' = k" for d k'
    using h by (auto simp: msg_subdir_def)
  have b: "bodies d k' fs = bodies d k' ?gs + (if d = p \<and> k' = k then {#c#} else {#})" for d k'
    using bodies_delete [OF d c, of d k'] unfolding hits .
  then have "bodies p k ?gs = {#}" using one b [of p k] by simp
  then have no: "map_of ?gs ?new = None" by (rule bodies_empty_map_of) (simp add: hits del: hit_iff)
  have "bodies d k' (AList.update ?new c ?gs) = bodies d k' fs" for d k'
    unfolding bodies_update_new [OF no] hits b [of d k'] ..
  then show ?thesis using d by (simp add: same_bodies_def distinct_update distinct_delete)
qed

lemma rename_quiet:
  assumes ok: "store_ok w" and m: "m \<in> set (w_messages w)" "path_of w (mr_mailbox_id m) = p"
    and h: "msg_subdir s" "msg_subdir t" "base_key a = base_key (mr_maildir_key m)" "base_key b = base_key (mr_maildir_key m)"
    and r: "os_Rename_file (p @ [s, a]) (p @ [t, b]) w = (w', r)"
  shows "quiet w w'"
proof (cases r)
  case (Inl e)
  with tryE_Inl [OF r [unfolded Inl os_Rename_file_def]] show ?thesis by (rule_tac quiet_same)
next
  case (Inr x)
  from tryE_Inr [OF r [unfolded Inr os_Rename_file_def]] obtain w1 c where w1: "same_world w w1"
    and c: "map_of (w_files w1) (p @ [s, a]) = Some c"
    and w': "w' = w1\<lparr>w_files := AList.update (p @ [t, b]) c (AList.delete (p @ [s, a]) (w_files w1))\<rparr>"
    by (auto split: option.splits)
  have f: "w_files w1 = w_files w" using w1 by (simp add: same_worldD)
  have "body_stored w m" using ok m(1) by (simp add: store_ok_def)
  then have one: "size (bodies p (base_key (mr_maildir_key m)) (w_files w1)) = 1" by (simp add: body_stored_def m(2) f)
  have d: "distinct (map fst (w_files w1))" using ok f by (simp add: store_ok_def files_ok_def)
  from rename_same_bodies [OF d one c h] have "quiet w1 w'" unfolding w' by (rule quiet_files)
  with quiet_same [OF w1] show ?thesis by (rule quiet_trans)
qed

text \<open>Rows that keep everything but their flags and the flags in their key.\<close>

lemma rewrite_rows_store:
  assumes ok: "store_ok w" and g: "\<And>m. m \<in> set (w_messages w) \<Longrightarrow> mr_mailbox_id (g m) = mr_mailbox_id m \<and> mr_uid (g m) = mr_uid m \<and>
      mr_internal_date (g m) = mr_internal_date m \<and> base_key (mr_maildir_key (g m)) = base_key (mr_maildir_key m)"
    and w': "w' = w\<lparr>w_messages := map g (w_messages w)\<rparr>"
  shows "store_ok w'" "contents w' j = map (\<lambda>m. (mr_uid m, stringToFlags (mr_flags (g m)), mr_internal_date m,
      bodies (path_of w (mr_mailbox_id m)) (base_key (mr_maildir_key m)) (w_files w))) [m \<leftarrow> w_messages w. mr_mailbox_id m = j]"
proof -
  have p: "path_of w' = path_of w" by (rule path_of_cong) (simp add: w')
  have f: "w_messages w' = map g (w_messages w)" "w_mailboxes w' = w_mailboxes w" "w_files w' = w_files w" "w_mailbox_seq w' = w_mailbox_seq w"
    by (simp_all add: w')
  have e: "map (\<lambda>m. (mr_mailbox_id m, mr_uid m)) (map g (w_messages w)) = map (\<lambda>m. (mr_mailbox_id m, mr_uid m)) (w_messages w)"
    "map (\<lambda>m. base_key (mr_maildir_key m)) (map g (w_messages w)) = map (\<lambda>m. base_key (mr_maildir_key m)) (w_messages w)"
    using g by simp_all
  have "tables_ok w'" using ok g unfolding store_ok_def tables_ok_def f e by simp
  moreover have "body_stored w' (g m)" if "m \<in> set (w_messages w)" for m
  proof -
    have "body_stored w m" using ok that by (simp add: store_ok_def)
    with g [OF that] show ?thesis by (simp add: body_stored_def p f)
  qed
  ultimately show "store_ok w'" using ok by (simp add: store_ok_def f)
  have "[m \<leftarrow> map g (w_messages w). mr_mailbox_id m = j] = map g [m \<leftarrow> w_messages w. mr_mailbox_id m = j]"
    using g by (simp add: filter_map o_def cong: filter_cong)
  then show "contents w' j = map (\<lambda>m. (mr_uid m, stringToFlags (mr_flags (g m)), mr_internal_date m,
      bodies (path_of w (mr_mailbox_id m)) (base_key (mr_maildir_key m)) (w_files w))) [m \<leftarrow> w_messages w. mr_mailbox_id m = j]"
    using g by (simp add: contents_def abs_msg_def p f)
qed

definition set_flags_of :: "int \<Rightarrow> string list \<Rightarrow> amsg list \<Rightarrow> amsg list" where
  "set_flags_of uid flags = map (\<lambda>(u, f, d, b). if u = uid then (u, flags, d, b) else (u, f, d, b))"

lemma flags_row_store:
  assumes "store_ok w" "list_all flag_ok flags"
  shows "store_ok (update_row i uid (\<lambda>m. m\<lparr>mr_flags := flagsToString flags\<rparr>) w)"
    "contents (update_row i uid (\<lambda>m. m\<lparr>mr_flags := flagsToString flags\<rparr>) w) = (contents w)(i := set_flags_of uid flags (contents w i))"
proof -
  let ?g = "\<lambda>m. if mr_mailbox_id m = i \<and> mr_uid m = uid then m\<lparr>mr_flags := flagsToString flags\<rparr> else m"
  note r = rewrite_rows_store [OF assms(1), of ?g, OF _ refl]
  show "store_ok (update_row i uid (\<lambda>m. m\<lparr>mr_flags := flagsToString flags\<rparr>) w)"
    unfolding update_row_def by (rule r(1)) simp
  have "contents (update_row i uid (\<lambda>m. m\<lparr>mr_flags := flagsToString flags\<rparr>) w) j =
      ((contents w)(i := set_flags_of uid flags (contents w i))) j" for j
    unfolding update_row_def by (subst r(2)) (auto simp: set_flags_of_def contents_def abs_msg_def flags_roundtrip [OF assms(2)])
  then show "contents (update_row i uid (\<lambda>m. m\<lparr>mr_flags := flagsToString flags\<rparr>) w) =
      (contents w)(i := set_flags_of uid flags (contents w i))" by blast
qed

lemma row_unique:
  assumes "tables_ok w" "m \<in> set (w_messages w)" "m' \<in> set (w_messages w)" "mr_mailbox_id m' = mr_mailbox_id m" "mr_uid m' = mr_uid m"
  shows "m' = m"
  using assms inj_onD [of "\<lambda>m. (mr_mailbox_id m, mr_uid m)" "set (w_messages w)" m' m]
  by (simp add: tables_ok_def distinct_map)

lemma key_row_store:
  assumes ok: "store_ok w" and m: "m \<in> set (w_messages w)" and b: "base_key k = base_key (mr_maildir_key m)"
  shows "store_ok (update_row (mr_mailbox_id m) (mr_uid m) (\<lambda>m. m\<lparr>mr_maildir_key := k\<rparr>) w)"
    "contents (update_row (mr_mailbox_id m) (mr_uid m) (\<lambda>m. m\<lparr>mr_maildir_key := k\<rparr>) w) = contents w"
proof -
  let ?g = "\<lambda>x. if mr_mailbox_id x = mr_mailbox_id m \<and> mr_uid x = mr_uid m then x\<lparr>mr_maildir_key := k\<rparr> else x"
  have t: "tables_ok w" using ok by (simp add: store_ok_def)
  have u: "base_key (mr_maildir_key x) = base_key k"
    if "x \<in> set (w_messages w)" "mr_mailbox_id x = mr_mailbox_id m" "mr_uid x = mr_uid m" for x
    using row_unique [OF t m that] b by simp
  note r = rewrite_rows_store [OF ok, of ?g, OF _ refl]
  show "store_ok (update_row (mr_mailbox_id m) (mr_uid m) (\<lambda>m. m\<lparr>mr_maildir_key := k\<rparr>) w)"
    unfolding update_row_def by (rule r(1)) (simp add: u)
  have "contents (update_row (mr_mailbox_id m) (mr_uid m) (\<lambda>m. m\<lparr>mr_maildir_key := k\<rparr>) w) j = contents w j" for j
    unfolding update_row_def by (subst r(2)) (auto simp: contents_def abs_msg_def u)
  then show "contents (update_row (mr_mailbox_id m) (mr_uid m) (\<lambda>m. m\<lparr>mr_maildir_key := k\<rparr>) w) = contents w" by blast
qed

lemma quiet_messages: "quiet w w' \<Longrightarrow> w_messages w' = w_messages w \<and> path_of w' = path_of w"
  using path_of_cong [of w' w] by (simp add: quiet_def same_tables_def)

lemma rename_flags_cases:
  assumes "rename_flags i uid old new b w = (w', r)"
  obtains "w' = w"
  | e where "os_Rename_file old new w = (w', Inl e)"
  | w1 where "os_Rename_file old new w = (w1, Inr ())"
      "execE (\<lambda>w. (update_row i uid (\<lambda>m. m\<lparr>mr_maildir_key := b\<rparr>) w, ())) w1 = (w', Inr ())"
  | w1 w2 e x where "os_Rename_file old new w = (w1, Inr ())"
      "execE (\<lambda>w. (update_row i uid (\<lambda>m. m\<lparr>mr_maildir_key := b\<rparr>) w, ())) w1 = (w2, Inl e)"
      "os_Rename_file new old w2 = (w', x)"
proof (cases "old = new")
  case True
  then have "w' = w" using assms by (simp add: rename_flags_def)
  then show thesis by (rule that(1))
next
  case False
  note run = assms [unfolded rename_flags_def if_not_P [OF False]]
  obtain w1 x where 1: "os_Rename_file old new w = (w1, x)" by fastforce
  obtain w2 y where 2: "execE (\<lambda>w. (update_row i uid (\<lambda>m. m\<lparr>mr_maildir_key := b\<rparr>) w, ())) w1 = (w2, y)" by fastforce
  obtain w3 z where 3: "os_Rename_file new old w2 = (w3, z)" by fastforce
  show thesis
  proof (cases x)
    case (Inl e)
    then have "w' = w1" using run 1 by (simp add: bindE_def mapErr_def onErr_def failE_def)
    with 1 Inl show thesis by (intro that(2)) simp
  next
    case (Inr u)
    show thesis
    proof (cases y)
      case (Inr v)
      then have "w' = w2" using run 1 2 \<open>x = Inr u\<close> by (simp add: bindE_def mapErr_def onErr_def failE_def)
      with 1 2 Inr \<open>x = Inr u\<close> show thesis by (intro that(3)) simp_all
    next
      case (Inl e)
      then have "w' = w3" using run 1 2 3 \<open>x = Inr u\<close>
        by (cases z) (simp_all add: bindE_def mapErr_def onErr_def failE_def)
      with 1 2 3 Inl \<open>x = Inr u\<close> show thesis by (intro that(4)) simp_all
    qed
  qed
qed

lemma rename_flags_store:
  assumes ok: "store_ok w" and m: "m \<in> set (w_messages w)" "path_of w (mr_mailbox_id m) = p"
    and h: "msg_subdir s" "msg_subdir t" "base_key a = base_key (mr_maildir_key m)" "base_key b = base_key (mr_maildir_key m)"
    and run: "rename_flags (mr_mailbox_id m) (mr_uid m) (p @ [s, a]) (p @ [t, b]) b w = (w', r)"
  shows "store_ok w' \<and> contents w' = contents w"
proof -
  let ?upd = "execE (\<lambda>w. (update_row (mr_mailbox_id m) (mr_uid m) (\<lambda>m. m\<lparr>mr_maildir_key := b\<rparr>) w, ()))"
  note ren = rename_quiet [OF _ _ _ h]
  consider "w' = w" | e where "os_Rename_file (p @ [s, a]) (p @ [t, b]) w = (w', Inl e)"
    | w1 where "os_Rename_file (p @ [s, a]) (p @ [t, b]) w = (w1, Inr ())" "?upd w1 = (w', Inr ())"
    | w1 w2 e x where "os_Rename_file (p @ [s, a]) (p @ [t, b]) w = (w1, Inr ())" "?upd w1 = (w2, Inl e)"
        "os_Rename_file (p @ [t, b]) (p @ [s, a]) w2 = (w', x)"
    by (rule rename_flags_cases [OF run])
  then show ?thesis
  proof cases
    case 1
    then show ?thesis using ok by simp
  next
    case 2
    then show ?thesis using quiet_store [OF ren [OF ok m] ok] by blast
  next
    case 3
    have q: "quiet w w1" using ren [OF ok m 3(1)] .
    note ok1 = quiet_store [OF q ok]
    have m1: "m \<in> set (w_messages w1)" using quiet_messages [OF q] m by simp
    from execE_Inr [OF 3(2)] obtain w2 where "same_world w1 w2"
      "w' = update_row (mr_mailbox_id m) (mr_uid m) (\<lambda>m. m\<lparr>mr_maildir_key := b\<rparr>) w2" by auto
    moreover from this have "store_ok w2 \<and> contents w2 = contents w1" "m \<in> set (w_messages w2)"
      using quiet_store [OF quiet_same] ok1 m1 by (simp_all add: same_worldD)
    ultimately show ?thesis using key_row_store [OF _ _ h(4), of w2] ok1 by simp
  next
    case 4
    have q: "quiet w w2" using quiet_trans [OF ren [OF ok m 4(1)] quiet_same [OF execE_Inl [OF 4(2)]]] .
    note ok2 = quiet_store [OF q ok]
    have m2: "m \<in> set (w_messages w2)" "path_of w2 (mr_mailbox_id m) = p" using quiet_messages [OF q] m by simp_all
    have "quiet w2 w'" using rename_quiet [OF conjunct1 [OF ok2] m2 h(2,1,4,3) 4(3)] .
    then show ?thesis using quiet_store ok2 by metis
  qed
qed


lemma quietM_os_Stat_ok [quiet_intros]: "quietM (os_Stat_ok p)"
  unfolding os_Stat_ok_def by (intro quiet_intros)

lemma GetMessage_Inr:
  assumes "GetMessage_md i uid w = (w', Inr msg)"
  obtains m where "same_world w w'" "m \<in> set (w_messages w)" "mr_mailbox_id m = i" "mr_uid m = uid" "msg = scan_message m"
proof -
  from assms obtain w1 row where r: "readE (\<lambda>w. find (\<lambda>m. mr_mailbox_id m = i \<and> mr_uid m = uid) (w_messages w)) w = (w1, Inr row)"
    and s: "(case row of None \<Rightarrow> failE ''message not found'' | Some m \<Rightarrow> retE (scan_message m)) w1 = (w', Inr msg)"
    by (auto simp: GetMessage_md_def bindE_Inr)
  from s obtain m where m: "row = Some m" "w' = w1" "msg = scan_message m" by (auto split: option.splits)
  have "same_world w w1" "row = find (\<lambda>m. mr_mailbox_id m = i \<and> mr_uid m = uid) (w_messages w)"
    using readE_Inr [OF r] by (auto simp: same_worldD)
  with m show thesis using that by (metis (mono_tags, lifting) find_Some_iff nth_mem)
qed

lemma flags_to_file_cases:
  assumes "flags_to_file i uid key flags w = (w', r)"
  obtains "quiet w w'"
  | mb w1 s where "quiet w w1" "find (\<lambda>mb. mb_ID mb = i) (w_mailboxes w) = Some mb" "msg_subdir s"
      "rename_flags i uid (mb_path mb @ [s, key]) (mb_path mb @ [dest_dir flags, with_flags (base_key key) flags])
         (with_flags (base_key key) flags) w1 = (w', r)"
proof -
  obtain w1 x where 1: "GetMailboxByID i w = (w1, x)" by fastforce
  have q1: "quiet w w1" by (rule quietM_D [OF quietM_GetMailboxByID 1])
  show thesis
  proof (cases x)
    case (Inl e)
    then have "w' = w1" using assms 1 by (simp add: flags_to_file_def bindE_def)
    with q1 show thesis by (intro that(1)) simp
  next
    case (Inr mb)
    let ?old = "\<lambda>s. mb_path mb @ [s, key]"
    let ?ren = "\<lambda>s. rename_flags i uid (?old s) (mb_path mb @ [dest_dir flags, with_flags (base_key key) flags])
         (with_flags (base_key key) flags)"
    have f: "find (\<lambda>mb. mb_ID mb = i) (w_mailboxes w) = Some mb" using GetMailboxByID_Inr 1 Inr by blast
    have st: "\<exists>b w2. os_Stat_ok p w = (w2, Inr b)" for p w
      by (cases "readE (os_exists p) w"; cases "snd (readE (os_exists p) w)") (auto simp: os_Stat_ok_def onErr_def)
    obtain b w2 where 2: "os_Stat_ok (?old ''cur'') w1 = (w2, Inr b)" using st by blast
    obtain c w3 where 3: "os_Stat_ok (?old ''new'') w2 = (w3, Inr c)" using st by blast
    have q2: "quiet w w2" by (rule quiet_trans [OF q1 quietM_D [OF quietM_os_Stat_ok 2]])
    have q3: "quiet w w3" by (rule quiet_trans [OF q2 quietM_D [OF quietM_os_Stat_ok 3]])
    have "(if b then ?ren ''cur'' w2 else if c then ?ren ''new'' w3 else (w3, Inr ())) = (w', r)"
      using assms 1 2 3 Inr by (simp add: flags_to_file_def bindE_def Let_def retE_def split: if_splits)
    then show thesis using that(1) that(2) [OF q2 f msg_subdir_dest(2)] that(2) [OF q3 f msg_subdir_dest(3)] q3 by (auto split: if_splits)
  qed
qed

lemma row_key_no_colon:
  assumes "store_ok w" "m \<in> set (w_messages w)"
  shows "CHR '':'' \<notin> set (base_key (mr_maildir_key m))"
proof -
  have "body_stored w m" using assms by (simp add: store_ok_def)
  then have "bodies (path_of w (mr_mailbox_id m)) (base_key (mr_maildir_key m)) (w_files w) \<noteq> {#}"
    by (auto simp: body_stored_def)
  then have "key_ok (base_key (mr_maildir_key m))" using assms(1) by (auto simp: store_ok_def files_ok_def)
  then show ?thesis by (rule key_ok_no_colon)
qed

lemma flags_to_file_store:
  assumes ok: "store_ok w" and m: "m \<in> set (w_messages w)"
    and run: "flags_to_file (mr_mailbox_id m) (mr_uid m) (mr_maildir_key m) flags w = (w', r)"
  shows "store_ok w' \<and> contents w' = contents w"
  using run
proof (rule flags_to_file_cases)
  assume "quiet w w'"
  then show ?thesis using quiet_store ok by blast
next
  fix mb w1 s
  assume q: "quiet w w1" and f: "find (\<lambda>mb. mb_ID mb = mr_mailbox_id m) (w_mailboxes w) = Some mb" and s: "msg_subdir s"
    and ren: "rename_flags (mr_mailbox_id m) (mr_uid m) (mb_path mb @ [s, mr_maildir_key m])
      (mb_path mb @ [dest_dir flags, with_flags (base_key (mr_maildir_key m)) flags]) (with_flags (base_key (mr_maildir_key m)) flags)
      w1 = (w', r)"
  note ok1 = quiet_store [OF q ok]
  have m1: "m \<in> set (w_messages w1)" "path_of w1 (mr_mailbox_id m) = mb_path mb"
    using quiet_messages [OF q] m f by (simp_all add: path_of_def [of w])
  have "base_key (with_flags (base_key (mr_maildir_key m)) flags) = base_key (mr_maildir_key m)"
    by (rule base_key_with_flags [OF row_key_no_colon [OF ok m]])
  from rename_flags_store [OF conjunct1 [OF ok1] m1 s msg_subdir_dest(1) refl this ren] ok1 show ?thesis by simp
qed


lemma SetFlags_store:
  assumes ok: "store_ok w" and fl: "list_all flag_ok flags" and run: "SetFlags i uid flags w = (w', r)"
  shows "store_ok w' \<and> (contents w' = (contents w)(i := set_flags_of uid flags (contents w i)) \<or> r \<noteq> Inr () \<and> contents w' = contents w)"
proof -
  let ?upd = "execE (\<lambda>w. (update_row i uid (\<lambda>m. m\<lparr>mr_flags := flagsToString flags\<rparr>) w, ()))"
  obtain w1 x where 1: "GetMessage_md i uid w = (w1, x)" by fastforce
  have q: "quiet w w1" by (rule quietM_D [OF quietM_GetMessage 1])
  note ok1 = quiet_store [OF q ok]
  obtain w2 y where 2: "?upd w1 = (w2, y)" by fastforce
  show ?thesis
  proof (cases x)
    case (Inl e)
    then have "w' = w1 \<and> r = Inl e" using run 1 by (simp add: SetFlags_def bindE_def)
    then show ?thesis using ok1 by simp
  next
    case (Inr msg)
    show ?thesis
    proof (cases y)
      case (Inl e)
      then have "w' = w2 \<and> r = Inl e" using run 1 2 \<open>x = Inr msg\<close> by (simp add: SetFlags_def bindE_def)
      then show ?thesis using ok1 quiet_store [OF quiet_same [OF execE_Inl [OF 2 [unfolded Inl]]]] by simp
    next
      case (Inr u)
      obtain m where m: "m \<in> set (w_messages w)" "mr_mailbox_id m = i" "mr_uid m = uid" "msg = scan_message m"
        using 1 \<open>x = Inr msg\<close> GetMessage_Inr by metis
      have run2: "flags_to_file i uid (mr_maildir_key m) flags w2 = (w', r)"
        using run 1 2 \<open>x = Inr msg\<close> Inr m(4) by (simp add: SetFlags_def bindE_def scan_message_def)
      from execE_Inr [OF 2 [unfolded Inr]] obtain w0 where w0: "same_world w1 w0"
        and w2: "w2 = update_row i uid (\<lambda>m. m\<lparr>mr_flags := flagsToString flags\<rparr>) w0" by auto
      have ok0: "store_ok w0" "contents w0 = contents w" using quiet_store [OF quiet_same [OF w0]] ok1 by simp_all
      have "m \<in> set (w_messages w0)" using m(1) w0 quiet_messages [OF q] by (simp add: same_worldD)
      then have "m\<lparr>mr_flags := flagsToString flags\<rparr> \<in> set (w_messages w2)"
        using m(2,3) by (force simp: w2 update_row_def)
      from flags_to_file_store [OF _ this, of flags w' r] run2 m(2,3)
      show ?thesis using flags_row_store [OF ok0(1) fl, of i uid] ok0(2) by (simp add: w2)
    qed
  qed
qed

text \<open>Setting flags refines the update of one field: \<open>SetFlags\<close> gives the message with this UID the new flags, and
  changes neither its body, date or UID nor any other message, although it renames the file of the message and may undo
  the renaming. After an error the flags are the old or the new ones, also when the database fails after the renaming,
  and when undoing fails too. The invariant of the store is kept.\<close>

theorem set_flags_refines:
  assumes "store_ok w" "list_all flag_ok flags" "SetFlags i uid flags w = (w', r)"
  shows "store_ok w' \<and> (contents w' = (contents w)(i := set_flags_of uid flags (contents w i)) \<or> r \<noteq> Inr () \<and> contents w' = contents w)"
  by (rule SetFlags_store [OF assms])


lemma run_set_flags: "case SetFlags 1 1 [FlagSeen] (fst run_append) of (w, r) \<Rightarrow> r = Inr ()"
  by code_simp

theorem set_flags_refines_witness:
  "contents (fst (SetFlags 1 1 [FlagSeen] (fst run_append))) 1 = [(1, [FlagSeen], 9, {#''hello''#})]"
proof -
  obtain w' r where r: "SetFlags 1 1 [FlagSeen] (fst run_append) = (w', r)" by fastforce
  have f: "list_all flag_ok [FlagSeen]" by (simp add: flag_ok_def flag_defs)
  have i: "r = Inr ()" using run_set_flags unfolding r by simp
  from set_flags_refines [OF world_2(1) f r] i show ?thesis by (simp add: r world_2(2) set_flags_of_def)
qed


section \<open>Expunging\<close>

lemma like_any: "like ''%'' s"
  by (induction s) simp_all

lemma like_prefix:
  "CHR ''%'' \<notin> set pat \<Longrightarrow> CHR ''_'' \<notin> set pat \<Longrightarrow> like (pat @ ''%'') s \<longleftrightarrow> HasPrefix (ToLower s) (ToLower pat)"
proof (induction pat arbitrary: s)
  case (Cons p pat)
  then have "p \<noteq> CHR ''%''" "p \<noteq> CHR ''_''" by auto
  with Cons show ?case by (cases s) (auto simp: ToLower_def)
qed (simp add: like_any ToLower_def)

lemma like_suffix: "like (CHR ''%'' # q) s \<longleftrightarrow> (\<exists>a t. s = a @ t \<and> like q t)"
proof (induction s)
  case (Cons c s)
  have "(\<exists>a t. c # s = a @ t \<and> like q t) \<longleftrightarrow> like q (c # s) \<or> (\<exists>a t. s = a @ t \<and> like q t)"
    by (auto simp: Cons_eq_append_conv)
  with Cons show ?case by simp
qed simp

lemma like_contains_iff:
  assumes "CHR ''%'' \<notin> set pat" "CHR ''_'' \<notin> set pat"
  shows "like_contains pat s \<longleftrightarrow> Contains (ToLower s) (ToLower pat)"
proof -
  have "like_contains pat s \<longleftrightarrow> (\<exists>a t. s = a @ t \<and> HasPrefix (ToLower t) (ToLower pat))"
    using like_prefix [OF assms] by (simp add: like_contains_def like_suffix)
  also have "\<dots> \<longleftrightarrow> Contains (ToLower s) (ToLower pat)"
  proof
    assume "\<exists>a t. s = a @ t \<and> HasPrefix (ToLower t) (ToLower pat)"
    then obtain a t b where "s = a @ t" "ToLower t = ToLower pat @ b" by (auto simp: HasPrefix_iff)
    then have "ToLower s = ToLower a @ ToLower pat @ b" by simp
    then show "Contains (ToLower s) (ToLower pat)" unfolding Contains_iff by blast
  next
    assume "Contains (ToLower s) (ToLower pat)"
    then obtain a b where "map lower_char s = a @ (ToLower pat @ b)" by (auto simp: Contains_iff ToLower_def)
    then obtain u t where "s = u @ t" "map lower_char t = ToLower pat @ b"
      using map_eq_append_conv [of lower_char s a "ToLower pat @ b"] by auto
    then show "\<exists>a t. s = a @ t \<and> HasPrefix (ToLower t) (ToLower pat)"
      using HasPrefix_append [of "ToLower pat" b] by (metis ToLower_def)
  qed
  finally show ?thesis .
qed

text \<open>A message is expunged when the text of its flags holds the name of the flag in any case of letters.\<close>

definition deleted_flags :: "string list \<Rightarrow> bool" where
  "deleted_flags flags = Contains (ToLower (flagsToString flags)) (ToLower FlagDeleted)"

definition kept :: "amsg \<Rightarrow> bool" where
  "kept = (\<lambda>(u, f, d, b). \<not> deleted_flags f)"

lemma kept_iff: "kept (abs_msg w m) \<longleftrightarrow> \<not> is_deleted m"
proof -
  have "flagsToString (stringToFlags s) = s" for s by (simp add: flagsToString_def stringToFlags_def Join_Split)
  moreover have "is_deleted m \<longleftrightarrow> Contains (ToLower (mr_flags m)) (ToLower FlagDeleted)"
    unfolding is_deleted_def by (rule like_contains_iff) (simp_all add: FlagDeleted_def)
  ultimately show ?thesis by (simp add: kept_def abs_msg_def deleted_flags_def)
qed

lemma deleted_flags_mem: "FlagDeleted \<in> set flags \<Longrightarrow> deleted_flags flags"
proof -
  have J: "f \<in> set fs \<Longrightarrow> \<exists>a b. Join fs '','' = a @ f @ b" for f fs
  proof (induction fs "'',''" rule: Join.induct)
    case (3 s t ss)
    show ?case
    proof (cases "f = s")
      case True
      then have "Join (s # t # ss) '','' = [] @ f @ '','' @ Join (t # ss) '',''" by simp
      then show ?thesis by blast
    next
      case False
      with 3 obtain a b where "Join (t # ss) '','' = a @ f @ b" by auto
      then have "Join (s # t # ss) '','' = (s @ '','' @ a) @ f @ b" by simp
      then show ?thesis by blast
    qed
  next
    case (2 s)
    then have "Join [s] '','' = [] @ f @ []" by simp
    then show ?case by blast
  qed simp
  assume "FlagDeleted \<in> set flags"
  then obtain a b where "flagsToString flags = a @ FlagDeleted @ b" using J [of FlagDeleted flags] by (auto simp: flagsToString_def)
  then show ?thesis by (auto simp: deleted_flags_def Contains_iff)
qed

lemma remove_one_effect:
  assumes "ignoreE (os_Remove_file (p @ [s, key])) w = (w', r)"
  shows "w_messages w' = w_messages w \<and> w_mailboxes w' = w_mailboxes w \<and> w_mailbox_seq w' = w_mailbox_seq w \<and>
    (files_ok (w_files w) \<longrightarrow> files_ok (w_files w') \<and>
      (\<forall>d k. k \<noteq> base_key key \<longrightarrow> bodies d k (w_files w') = bodies d k (w_files w)))"
proof -
  from assms obtain x where "os_Remove_file (p @ [s, key]) w = (w', x)" by (auto simp: ignoreE_iff)
  note e = os_Remove_file_effect [OF this]
  have "files_ok (w_files w) \<Longrightarrow> k \<noteq> base_key key \<Longrightarrow> bodies d k (w_files w') = bodies d k (w_files w)" for d k
    by (rule maybe_removed_bodies(2)) (use e in \<open>auto simp: files_ok_def\<close>)
  then show ?thesis using e maybe_removed_files_ok by blast
qed

lemma remove_both_effect:
  assumes "remove_both p key w = (w', r)"
  shows "r = Inr () \<and> w_messages w' = w_messages w \<and> w_mailboxes w' = w_mailboxes w \<and> w_mailbox_seq w' = w_mailbox_seq w \<and>
    (files_ok (w_files w) \<longrightarrow> files_ok (w_files w') \<and>
      (\<forall>d k. k \<noteq> base_key key \<longrightarrow> bodies d k (w_files w') = bodies d k (w_files w)))"
proof -
  obtain w1 x where 1: "ignoreE (os_Remove_file (p @ [''cur'', key])) w = (w1, x :: (string, unit) result)" by fastforce
  then have x: "x = Inr ()" by (simp add: ignoreE_def)
  have 2: "ignoreE (os_Remove_file (p @ [''new'', key])) w1 = (w', r)"
    using assms 1 x by (simp add: remove_both_def bindE_def)
  from remove_one_effect [OF 1] remove_one_effect [OF 2] 2 show ?thesis by (auto simp: ignoreE_def)
qed

lemma remove_files_effect:
  assumes "remove_files p keys w = (w', r)"
  shows "r = Inr () \<and> w_messages w' = w_messages w \<and> w_mailboxes w' = w_mailboxes w \<and> w_mailbox_seq w' = w_mailbox_seq w \<and>
    (files_ok (w_files w) \<longrightarrow> files_ok (w_files w') \<and>
      (\<forall>d k. k \<notin> base_key ` set keys \<longrightarrow> bodies d k (w_files w') = bodies d k (w_files w)))"
  using assms
proof (induction keys arbitrary: w)
  case (Cons key keys)
  obtain w1 x where 1: "remove_both p key w = (w1, x)" by fastforce
  note e = remove_both_effect [OF 1]
  then have "remove_files p keys w1 = (w', r)" using Cons.prems 1 by (simp add: bindE_def)
  from Cons.IH [OF this] e show ?case by auto
qed simp


lemma subset_rows_tables:
  assumes "tables_ok w" "w_mailboxes w' = w_mailboxes w" "w_mailbox_seq w' = w_mailbox_seq w" "w_messages w' = filter P (w_messages w)"
  shows "tables_ok w'"
  using assms by (simp add: tables_ok_def distinct_map_filter)

lemma keys_differ:
  assumes "tables_ok w" "m \<in> set (w_messages w)" "m' \<in> set (w_messages w)" "base_key (mr_maildir_key m) = base_key (mr_maildir_key m')"
  shows "m = m'"
  using assms inj_onD [of "\<lambda>m. base_key (mr_maildir_key m)" "set (w_messages w)" m m']
  by (simp add: tables_ok_def distinct_map)

lemma remaining_store:
  assumes ok: "store_ok w" and w': "w_mailboxes w' = w_mailboxes w" "w_mailbox_seq w' = w_mailbox_seq w"
      "w_messages w' = filter P (w_messages w)"
    and f: "files_ok (w_files w')"
      "\<And>d k. k \<notin> (\<lambda>m. base_key (mr_maildir_key m)) ` {m \<in> set (w_messages w). \<not> P m} \<Longrightarrow>
         bodies d k (w_files w') = bodies d k (w_files w)"
  shows "store_ok w'" "contents w' j = map (abs_msg w) [m \<leftarrow> w_messages w. P m \<and> mr_mailbox_id m = j]"
proof -
  have t: "tables_ok w" using ok by (simp add: store_ok_def)
  have p: "path_of w' = path_of w" by (rule path_of_cong) (rule w')
  have k: "abs_msg w' m = abs_msg w m \<and> body_stored w' m = body_stored w m" if m: "m \<in> set (w_messages w)" "P m" for m
  proof -
    have "base_key (mr_maildir_key m) \<notin> (\<lambda>m. base_key (mr_maildir_key m)) ` {m \<in> set (w_messages w). \<not> P m}"
      using keys_differ [OF t m(1)] m(2) by blast
    from f(2) [OF this] show ?thesis by (simp add: abs_msg_def body_stored_def p)
  qed
  show "store_ok w'" using ok k f(1) subset_rows_tables [OF t w'] by (auto simp: store_ok_def w'(3))
  show "contents w' j = map (abs_msg w) [m \<leftarrow> w_messages w. P m \<and> mr_mailbox_id m = j]"
    using k by (auto simp: contents_def w'(3) conj_commute)
qed

lemma ExpungeMailbox_Inr:
  assumes "ExpungeMailbox i w = (w', Inr uids)"
  obtains w1 mb w2 rows r where "same_world w w1" "rows = [m \<leftarrow> w_messages w. mr_mailbox_id m = i \<and> is_deleted m]"
    "remove_files (mb_path mb) (map mr_maildir_key rows) w1 = (w2, r)" "uids = map mr_uid rows"
    "\<exists>w3. same_world w2 w3 \<and> w' = w3\<lparr>w_messages := [m \<leftarrow> w_messages w3. \<not> (mr_mailbox_id m = i \<and> is_deleted m)]\<rparr>"
proof -
  let ?P = "\<lambda>m. mr_mailbox_id m = i \<and> is_deleted m"
  obtain w0 rows where 0: "readE (\<lambda>w. filter ?P (w_messages w)) w = (w0, Inr rows)"
    using assms by (auto simp: ExpungeMailbox_def bindE_Inr)
  have r0: "same_world w w0" "rows = filter ?P (w_messages w)" using readE_Inr [OF 0] by (auto simp: same_worldD)
  obtain w1 mb where 1: "GetMailboxByID i w0 = (w1, Inr mb)" using assms 0 by (auto simp: ExpungeMailbox_def bindE_Inr)
  have r1: "same_world w w1" using r0(1) GetMailboxByID_Inr [OF 1] same_world_trans by blast
  obtain w2 r where 2: "remove_files (mb_path mb) (map mr_maildir_key rows) w1 = (w2, r)" by fastforce
  have r2: "r = Inr ()" "w_messages w2 = w_messages w" using remove_files_effect [OF 2] r1 by (simp_all add: same_worldD)
  have run: "(if rows = [] then retE []
     else bindE (execE (\<lambda>w. (w\<lparr>w_messages := [m \<leftarrow> w_messages w. \<not> ?P m]\<rparr>, ()))) (\<lambda>_. retE (map mr_uid rows))) w2 = (w', Inr uids)"
    using assms 0 1 2 r2(1) by (simp add: ExpungeMailbox_def bindE_def)
  show thesis
  proof (cases "rows = []")
    case True
    then have "[m \<leftarrow> w_messages w2. \<not> ?P m] = w_messages w2" using r0(2) r2(2) by (simp add: filter_id_conv filter_empty_conv)
    then have "w' = w2\<lparr>w_messages := [m \<leftarrow> w_messages w2. \<not> ?P m]\<rparr>" using run True by (simp add: retE_def)
    then have "\<exists>w3. same_world w2 w3 \<and> w' = w3\<lparr>w_messages := [m \<leftarrow> w_messages w3. \<not> ?P m]\<rparr>" using same_world_refl by blast
    then show thesis using run True by (intro that [OF r1 r0(2) 2]) (simp_all add: retE_def)
  next
    case False
    then have "execE (\<lambda>w. (w\<lparr>w_messages := [m \<leftarrow> w_messages w. \<not> ?P m]\<rparr>, ())) w2 = (w', Inr ())" "uids = map mr_uid rows"
      using run by (auto simp: bindE_Inr)
    then show thesis by (intro that [OF r1 r0(2) 2]) (auto dest!: execE_Inr)
  qed
qed


lemma keys_of_removed:
  assumes "rows = [m \<leftarrow> w_messages w. Q m]"
  shows "base_key ` set (map mr_maildir_key rows) = (\<lambda>m. base_key (mr_maildir_key m)) ` {m \<in> set (w_messages w). Q m}"
  by (auto simp: assms)

lemma ExpungeMailbox_store:
  assumes ok: "store_ok w" and run: "ExpungeMailbox i w = (w', Inr uids)"
  shows "store_ok w' \<and> contents w' = (contents w)(i := filter kept (contents w i)) \<and>
    uids = map fst (filter (\<lambda>a. \<not> kept a) (contents w i))"
proof -
  let ?P = "\<lambda>m. mr_mailbox_id m = i \<and> is_deleted m"
  obtain w1 mb w2 rows r w3 where 1: "same_world w w1" and rows: "rows = filter ?P (w_messages w)"
    and 2: "remove_files (mb_path mb) (map mr_maildir_key rows) w1 = (w2, r)" and u: "uids = map mr_uid rows"
    and 3: "same_world w2 w3" "w' = w3\<lparr>w_messages := [m \<leftarrow> w_messages w3. \<not> ?P m]\<rparr>"
    by (rule ExpungeMailbox_Inr [OF run]) blast
  note e = remove_files_effect [OF 2]
  have ok1: "files_ok (w_files w)" using ok by (simp add: store_ok_def)
  have w': "w_mailboxes w' = w_mailboxes w" "w_mailbox_seq w' = w_mailbox_seq w"
    "w_messages w' = [m \<leftarrow> w_messages w. \<not> ?P m]" "w_files w' = w_files w2" "w_files w1 = w_files w"
    using 1 3 e by (simp_all add: same_worldD)
  have b: "bodies d k (w_files w') = bodies d k (w_files w)"
    if "k \<notin> (\<lambda>m. base_key (mr_maildir_key m)) ` {m \<in> set (w_messages w). \<not> \<not> ?P m}" for d k
  proof -
    have "k \<notin> base_key ` set (map mr_maildir_key rows)" using that unfolding keys_of_removed [OF rows] by simp
    then show ?thesis using e ok1 unfolding w'(4,5) by blast
  qed
  have f: "files_ok (w_files w')" using e ok1 unfolding w'(4,5) by blast
  have rem: "store_ok w'" "contents w' j = map (abs_msg w) [m \<leftarrow> w_messages w. \<not> ?P m \<and> mr_mailbox_id m = j]" for j
    using remaining_store [OF ok w'(1-3) f] b by blast+
  have "contents w' j = ((contents w)(i := filter kept (contents w i))) j" for j
  proof (cases "j = i")
    case True
    then have "[m \<leftarrow> w_messages w. \<not> ?P m \<and> mr_mailbox_id m = j] = [m \<leftarrow> w_messages w. mr_mailbox_id m = i \<and> \<not> is_deleted m]"
      by (auto intro: filter_cong)
    then show ?thesis unfolding rem(2) using True by (simp add: contents_def filter_map kept_iff o_def conj_commute)
  next
    case False
    then have "[m \<leftarrow> w_messages w. \<not> ?P m \<and> mr_mailbox_id m = j] = [m \<leftarrow> w_messages w. mr_mailbox_id m = j]"
      by (auto intro: filter_cong)
    then show ?thesis unfolding rem(2) using False by (simp add: contents_def)
  qed
  moreover have "uids = map fst (filter (\<lambda>a. \<not> kept a) (contents w i))"
    by (simp add: u rows contents_def filter_map kept_iff o_def conj_commute) (simp add: abs_msg_def)
  ultimately show ?thesis using rem(1) by blast
qed

text \<open>C16. Expunging refines filtering: when \<open>ExpungeMailbox\<close> succeeds, the messages whose flags name \<open>Deleted\<close> are gone from the
  mailbox, its other messages and all other mailboxes are untouched, with their bodies, the result lists the UIDs that went,
  and the invariant of the store is kept.\<close>

theorem expunge_refines:
  assumes "store_ok w" "ExpungeMailbox i w = (w', Inr uids)"
  shows "store_ok w' \<and> contents w' = (contents w)(i := filter kept (contents w i)) \<and>
    uids = map fst (filter (\<lambda>a. \<not> kept a) (contents w i))"
  by (rule ExpungeMailbox_store [OF assms])


lemma run_expunge_ok:
  "snd (SetFlags 1 1 [FlagDeleted] (fst run_append)) = Inr ()"
  "snd (ExpungeMailbox 1 (fst (SetFlags 1 1 [FlagDeleted] (fst run_append)))) = Inr [1]"
  by code_simp+

theorem expunge_refines_witness:
  "contents (fst (ExpungeMailbox 1 (fst (SetFlags 1 1 [FlagDeleted] (fst run_append))))) 1 = []"
proof -
  let ?w = "fst (SetFlags 1 1 [FlagDeleted] (fst run_append))"
  have f: "list_all flag_ok [FlagDeleted]" by (simp add: flag_ok_def flag_defs)
  have ok: "store_ok ?w \<and> contents ?w 1 = [(1, [FlagDeleted], 9, {#''hello''#})]"
    using SetFlags_store [OF world_2(1) f, of 1 1] run_expunge_ok(1) world_2(2)
    by (cases "SetFlags 1 1 [FlagDeleted] (fst run_append)") (simp add: set_flags_of_def)
  obtain w' where r: "ExpungeMailbox 1 ?w = (w', Inr [1])"
    using run_expunge_ok(2) by (metis prod.collapse)
  have "\<not> kept (1, [FlagDeleted], 9, {#''hello''#})" by (simp add: kept_def deleted_flags_mem)
  with expunge_refines [OF conjunct1 [OF ok] r] ok show ?thesis by (simp add: r)
qed

section \<open>UIDs only grow\<close>

text \<open>A mailbox that was there before keeps its UIDVALIDITY, and its next UID does not go back.\<close>

definition uids_grow :: "world \<Rightarrow> world \<Rightarrow> bool" where
  "uids_grow w w' \<longleftrightarrow> w_mailbox_seq w \<le> w_mailbox_seq w' \<and>
     (\<forall>mb'\<in>set (w_mailboxes w'). mb_ID mb' \<le> w_mailbox_seq w \<longrightarrow>
        (\<exists>mb\<in>set (w_mailboxes w). mb_ID mb = mb_ID mb' \<and> mb_UIDValidity mb = mb_UIDValidity mb' \<and> mb_UIDNext mb \<le> mb_UIDNext mb'))"

interpretation ug: step_rel uids_grow
proof
  show "uids_grow w w'" if "same_world w w'" for w w' using that by (auto simp: uids_grow_def same_worldD)
  show "uids_grow w w2" if "uids_grow w w1" "uids_grow w1 w2" for w w1 w2
    using that unfolding uids_grow_def by (smt (verit, ccfv_threshold) order_trans)
qed

lemma uids_grow_map:
  assumes "w_mailbox_seq w' = w_mailbox_seq w" "w_mailboxes w' = map g (w_mailboxes w)"
    "\<And>mb. mb_ID (g mb) = mb_ID mb \<and> mb_UIDValidity (g mb) = mb_UIDValidity mb \<and> mb_UIDNext mb \<le> mb_UIDNext (g mb)"
  shows "uids_grow w w'"
  using assms by (auto simp: uids_grow_def)

lemma uids_grow_upd:
  assumes "\<And>mb. mb_ID (f mb) = mb_ID mb \<and> mb_UIDValidity (f mb) = mb_UIDValidity mb \<and> mb_UIDNext mb \<le> mb_UIDNext (f mb)"
  shows "uids_grow w (w\<lparr>w_mailboxes := map (\<lambda>mb. if P mb then f mb else mb) (w_mailboxes w)\<rparr>)"
  by (rule uids_grow_map [of _ _ "\<lambda>mb. if P mb then f mb else mb"]) (simp_all add: assms)

lemma uids_grow_same: "w_mailbox_seq w' = w_mailbox_seq w \<Longrightarrow> w_mailboxes w' = w_mailboxes w \<Longrightarrow> uids_grow w w'"
  by (rule uids_grow_map [of _ _ id]) simp_all

named_theorems uid_intros

lemmas uid_rules [uid_intros] = ug.retE ug.failE ug.readE ug.bindE ug.onErr ug.mapErr ug.ignoreE ug.execE ug.tryE

lemma uids_files [uid_intros]:
  "stepsM uids_grow (os_MkdirAll p)" "stepsM uids_grow (os_Remove_file p)" "stepsM uids_grow (os_RemoveAll p)"
  "stepsM uids_grow (os_Rename_file p q)" "stepsM uids_grow (open_excl p)"
  unfolding os_MkdirAll_def os_Remove_file_def os_RemoveAll_def os_Rename_file_def open_excl_def
  by (intro uid_intros; auto intro!: uids_grow_same split: if_splits option.splits)+

lemma uids_write_sync [uid_intros]: "stepsM uids_grow (write_sync p body)"
  unfolding write_sync_def by (cases body) (auto intro!: uid_intros uids_grow_same)

lemma uids_small [uid_intros]:
  "stepsM uids_grow (ensureMaildir p)" "stepsM uids_grow (cleanup_fail p e)" "stepsM uids_grow (UpdateUserQuota u d)"
  "stepsM uids_grow (os_Open p)" "stepsM uids_grow (os_Stat_ok p)" "stepsM uids_grow (GetMailboxByID i)" "stepsM uids_grow (GetMessage_md i uid)"
  "stepsM uids_grow (remove_both p k)"
  unfolding ensureMaildir_def cleanup_fail_def UpdateUserQuota_def os_Open_def os_Stat_ok_def GetMailboxByID_def scan_mailbox_def
    GetMessage_md_def remove_both_def
  by (intro uid_intros; auto intro!: uid_intros uids_grow_same split: option.split)+

lemma uids_lists [uid_intros]: "stepsM uids_grow (first_open ps)" "stepsM uids_grow (scan_dirs p k ds)" "stepsM uids_grow (remove_files p ks)"
proof -
  show 1: "stepsM uids_grow (first_open ps)" for ps by (induction ps) (auto intro: uid_intros)
  show "stepsM uids_grow (scan_dirs p k ds)" by (induction ds) (auto intro: uid_intros 1)
  show "stepsM uids_grow (remove_files p ks)" by (induction ks) (auto intro: uid_intros)
qed


lemma uids_GetMessageBody [uid_intros]: "stepsM uids_grow (GetMessageBody msg)"
  unfolding GetMessageBody_def Let_def by (intro uid_intros)

lemma uids_insert_mailbox: "insert_mailbox u n v s now w = Inr (w', x) \<Longrightarrow> uids_grow w w'"
  by (auto simp: insert_mailbox_def uids_grow_def Let_def split: if_splits)

lemma uids_delete_rows: "uids_grow w (delete_mailbox_rows i w)"
  by (auto simp: delete_mailbox_rows_def uids_grow_def)

lemma uids_set_name: "set_mailbox_name u old new w = Inr (w', x) \<Longrightarrow> uids_grow w w'"
  using uids_grow_upd [of "\<lambda>mb. mb\<lparr>mb_Name := new\<rparr>" w] by (auto simp: set_mailbox_name_def Let_def split: if_splits)

lemma uids_CreateMailbox [uid_intros]: "stepsM uids_grow (CreateMailbox u n s now)"
  unfolding CreateMailbox_def Let_def
  by (intro uid_intros) (auto intro: uids_insert_mailbox uids_delete_rows)

lemma uids_DeleteMailbox [uid_intros]: "stepsM uids_grow (DeleteMailbox u n)"
  unfolding DeleteMailbox_def by (auto intro!: uid_intros uids_delete_rows split: option.split)

lemma uids_SubscribeMailbox [uid_intros]: "stepsM uids_grow (SubscribeMailbox u n b)"
  unfolding SubscribeMailbox_def by (intro uid_intros) (simp add: uids_grow_upd)

lemma uids_Rename_dir: "os_Rename_dir p q w = (w', r) \<Longrightarrow> uids_grow w w'"
  by (auto simp: os_Rename_dir_def split: prod.splits option.splits if_splits dest!: next_fault_same
      intro: ug.same ug.trans [OF ug.same uids_grow_same])

lemma uids_RenameMailbox [uid_intros]: "stepsM uids_grow (RenameMailbox u old new)"
proof -
  have t: "stepsM uids_grow (tryE (set_mailbox_name u a b))" for a b by (intro uid_intros) (rule uids_set_name)
  have "stepsM uids_grow (\<lambda>w. case os_Rename_dir p q w of
      (w1, Inl (False, e)) \<Rightarrow> (fst (tryE (set_mailbox_name u new old) w1), Inl (''failed to rename maildir: '' @ e))
    | (w1, _) \<Rightarrow> (w1, Inr ()))" for p q
    unfolding stepsM_def
  proof
    fix w
    obtain w1 r where r: "os_Rename_dir p q w = (w1, r)" by fastforce
    note g = uids_Rename_dir [OF r]
    have "uids_grow w (fst (tryE (set_mailbox_name u new old) w1))" using t [of new old] g ug.trans unfolding stepsM_def by blast
    then show "uids_grow w (fst (case os_Rename_dir p q w of
        (w1, Inl (False, e)) \<Rightarrow> (fst (tryE (set_mailbox_name u new old) w1), Inl (''failed to rename maildir: '' @ e))
      | (w1, _) \<Rightarrow> (w1, Inr ())))" using g unfolding r by (simp split: sum.split bool.split)
  qed
  then show ?thesis unfolding RenameMailbox_def using t by (intro ug.bindE) (auto intro: uid_intros)
qed

lemma uids_append_file [uid_intros]: "stepsM uids_grow (append_file p key flags body)"
  unfolding append_file_def Let_def by (intro uid_intros)

lemma uids_append_rows [uid_intros]: "stepsM uids_grow (append_rows i mb fk flags date now dest sz)"
proof -
  have "uids_grow w (fst (bump_uidnext i w))" for w by (simp add: bump_uidnext_def uids_grow_upd)
  moreover have "insert_message i u k s d f now w = Inr (w', x) \<Longrightarrow> uids_grow w w'" for u k s d f w w' x
    by (auto simp: insert_message_def Let_def split: if_splits intro!: uids_grow_same)
  ultimately show ?thesis unfolding append_rows_def by (auto intro!: uid_intros)
qed

lemma uids_AppendMessage [uid_intros]: "stepsM uids_grow (AppendMessage unseen now buf i flags date body)"
  unfolding AppendMessage_def Let_def by (auto intro!: uid_intros uids_grow_same split: prod.split)

lemma uids_SetFlags [uid_intros]: "stepsM uids_grow (SetFlags i uid flags)"
  unfolding SetFlags_def flags_to_file_def rename_flags_def Let_def
  by (auto intro!: uid_intros uids_grow_same simp: update_row_def)

lemma uids_UpdateFlags [uid_intros]: "stepsM uids_grow (UpdateFlags ord i uid flags add)"
  unfolding UpdateFlags_def by (intro uid_intros)

lemma uids_CopyMessage [uid_intros]: "stepsM uids_grow (CopyMessage unseen now buf i uid j)"
  unfolding CopyMessage_def by (intro uid_intros)

lemma uids_expungeMessage [uid_intros]: "stepsM uids_grow (expungeMessage i uid)"
  unfolding expungeMessage_def by (intro uid_intros) (auto intro!: uids_grow_same)

lemma uids_MoveMessage [uid_intros]: "stepsM uids_grow (MoveMessage unseen now buf i uid j)"
  unfolding MoveMessage_def by (intro uid_intros)

lemma uids_ExpungeMailbox [uid_intros]: "stepsM uids_grow (ExpungeMailbox i)"
  unfolding ExpungeMailbox_def by (auto intro!: uid_intros uids_grow_same)


text \<open>A step of the store is one call of one of its methods, with any arguments, outcome and faults.\<close>

inductive store_step :: "unseen_fun \<Rightarrow> world \<Rightarrow> world \<Rightarrow> bool" for unseen where
  step_create: "CreateMailbox u n s now w = (w', r1) \<Longrightarrow> store_step unseen w w'"
| step_delete: "DeleteMailbox u n w = (w', r2) \<Longrightarrow> store_step unseen w w'"
| step_rename: "RenameMailbox u n n' w = (w', r3) \<Longrightarrow> store_step unseen w w'"
| step_subscribe: "SubscribeMailbox u n b w = (w', r4) \<Longrightarrow> store_step unseen w w'"
| step_append: "AppendMessage unseen now buf i flags date body w = (w', r5) \<Longrightarrow> store_step unseen w w'"
| step_set_flags: "SetFlags i uid flags w = (w', r6) \<Longrightarrow> store_step unseen w w'"
| step_update_flags: "UpdateFlags ord i uid flags add w = (w', r7) \<Longrightarrow> store_step unseen w w'"
| step_copy: "CopyMessage unseen now buf i uid j w = (w', r8) \<Longrightarrow> store_step unseen w w'"
| step_move: "MoveMessage unseen now buf i uid j w = (w', r9) \<Longrightarrow> store_step unseen w w'"
| step_expunge: "ExpungeMailbox i w = (w', r10) \<Longrightarrow> store_step unseen w w'"

lemma store_step_uids: "store_step unseen w w' \<Longrightarrow> uids_grow w w'"
  by (induction rule: store_step.induct) (erule stepsM_D [rotated], rule uid_intros)+

lemma store_steps_uids: "(store_step unseen)\<^sup>*\<^sup>* w w' \<Longrightarrow> uids_grow w w'"
  by (induction rule: rtranclp_induct) (auto intro: ug.same ug.trans store_step_uids)

definition mailboxes_kept :: "world \<Rightarrow> world \<Rightarrow> bool" where
  "mailboxes_kept w w' \<longleftrightarrow> w_mailboxes w' = w_mailboxes w \<and> w_mailbox_seq w' = w_mailbox_seq w"

interpretation mk: step_rel mailboxes_kept
  by unfold_locales (simp_all add: mailboxes_kept_def same_worldD)

lemmas kept_rules = mk.retE mk.failE mk.readE mk.bindE mk.onErr mk.mapErr mk.ignoreE mk.execE mk.tryE

lemma append_file_mailboxes:
  assumes "append_file p key flags body w = (w', r)"
  shows "w_mailboxes w' = w_mailboxes w \<and> w_mailbox_seq w' = w_mailbox_seq w"
proof -
  have "stepsM mailboxes_kept (append_file p key flags body)"
    unfolding append_file_def ensureMaildir_def cleanup_fail_def write_sync_def os_MkdirAll_def os_Remove_file_def
      os_Rename_file_def open_excl_def Let_def
    by (intro kept_rules; auto intro!: kept_rules simp: mailboxes_kept_def split: sum.split if_splits option.splits)
  from stepsM_D [OF this assms] show ?thesis by (simp add: mailboxes_kept_def)
qed

lemma bumped_member:
  assumes "distinct (map mb_ID mbs)" "mb \<in> set mbs" "mb_ID mb = i" "mb1 \<in> set (bumped i mbs)" "mb_ID mb1 = i"
  shows "mb_UIDNext mb1 = mb_UIDNext mb + 1"
proof -
  from assms(4,5) obtain mb0 where "mb0 \<in> set mbs" "mb_ID mb0 = i" "mb1 = mb0\<lparr>mb_UIDNext := mb_UIDNext mb0 + 1\<rparr>"
    by (auto simp: bumped_def split: if_splits)
  moreover from this(1,2) have "mb0 = mb" using assms(1-3) by (metis distinct_map inj_onD)
  ultimately show ?thesis by simp
qed

lemma AppendMessage_uid:
  assumes "AppendMessage unseen now buf i flags date body w = (w', Inr msg)"
  obtains mb where "find (\<lambda>mb. mb_ID mb = i) (w_mailboxes w) = Some mb" "sm_UID msg = mb_UIDNext mb" "mb_UIDNext mb < 2 ^ 32"
    "w_mailboxes w' = bumped i (w_mailboxes w)" "w_mailbox_seq w' = w_mailbox_seq w"
proof -
  let ?key = "generateMaildirKey now buf"
  from assms obtain w1 mb dest sz w2 w3 w4 j where g: "GetMailboxByID i w = (w1, Inr mb)"
    and a: "append_file (mb_path mb) ?key flags body w1 = (w2, Inr (dest, sz))"
    and r: "append_rows i mb (with_flags ?key flags) flags date now dest sz w2 = (w3, Inr j)"
    and q: "ignoreE (UpdateUserQuota (mb_UserID mb) sz) w3 = (w4, Inr () :: (string, unit) result)"
      "ignoreE (execE (\<lambda>w. (w\<lparr>w_files := unseen (mb_path mb) (w_files w)\<rparr>, ()))) w4 = (w', Inr () :: (string, unit) result)"
    and msg: "sm_UID msg = mb_UIDNext mb"
    unfolding AppendMessage_def Let_def by (auto simp: bindE_Inr split: prod.splits)
  have f: "w_mailboxes w2 = w_mailboxes w1 \<and> w_mailbox_seq w2 = w_mailbox_seq w1"
    by (rule append_file_mailboxes [OF a])
  have "w_mailboxes w4 = w_mailboxes w3 \<and> w_mailbox_seq w4 = w_mailbox_seq w3"
    using q(1) by (auto simp: ignoreE_iff UpdateUserQuota_def same_worldD dest!: execE_cases)
  moreover have "w_mailboxes w' = w_mailboxes w4 \<and> w_mailbox_seq w' = w_mailbox_seq w4"
    using q(2) by (auto simp: ignoreE_iff same_worldD dest!: execE_cases)
  moreover have "w_mailboxes w1 = w_mailboxes w" "w_mailbox_seq w1 = w_mailbox_seq w"
    using GetMailboxByID_Inr [OF g] by (auto simp: same_worldD)
  ultimately show thesis using that GetMailboxByID_Inr [OF g] append_rows_Inr [OF r] f msg by simp
qed

text \<open>C17. A UID is never given twice: of two messages appended to the same mailbox the later one has the greater UID, whatever
  the store does in between, and whatever fails. Every UID fits 32 bits: when the next one would not, appending fails.\<close>

theorem uid_never_reused:
  assumes "tables_ok w0" "AppendMessage unseen now buf i flags date body w0 = (w1, Inr m1)" "(store_step unseen)\<^sup>*\<^sup>* w1 w2"
    "AppendMessage unseen now' buf' i flags' date' body' w2 = (w3, Inr m2)"
  shows "sm_UID m1 < sm_UID m2 \<and> sm_UID m2 < 2 ^ 32"
proof -
  obtain mb where mb: "find (\<lambda>mb. mb_ID mb = i) (w_mailboxes w0) = Some mb" "sm_UID m1 = mb_UIDNext mb"
    and w1: "w_mailboxes w1 = bumped i (w_mailboxes w0)" "w_mailbox_seq w1 = w_mailbox_seq w0"
    by (rule AppendMessage_uid [OF assms(2)])
  obtain mb2 where mb2: "find (\<lambda>mb. mb_ID mb = i) (w_mailboxes w2) = Some mb2" "sm_UID m2 = mb_UIDNext mb2" "mb_UIDNext mb2 < 2 ^ 32"
    by (rule AppendMessage_uid [OF assms(4)])
  have m: "mb \<in> set (w_mailboxes w0)" "mb_ID mb = i" "mb2 \<in> set (w_mailboxes w2)" "mb_ID mb2 = i"
    using mb(1) mb2(1) by (auto simp: find_Some_iff)
  have "mb_ID mb2 \<le> w_mailbox_seq w1" using assms(1) m w1(2) by (auto simp: tables_ok_def)
  with store_steps_uids [OF assms(3)] m(3) obtain mb1 where mb1: "mb1 \<in> set (w_mailboxes w1)" "mb_ID mb1 = i"
    "mb_UIDNext mb1 \<le> mb_UIDNext mb2" unfolding uids_grow_def using m(4) by blast
  have "mb_UIDNext mb1 = mb_UIDNext mb + 1"
    using bumped_member [OF _ m(1,2) mb1(1) [unfolded w1] mb1(2)] assms(1) by (simp add: tables_ok_def)
  then show ?thesis using mb(2) mb2(2,3) mb1(3) by simp
qed


definition run_append_again :: "world \<times> (string, stored_message) result" where
  "run_append_again = AppendMessage move_new 6 (replicate 16 (CHR 0x00)) 1 [] 9 (Inr ''again'')
     (fst (ExpungeMailbox 1 (fst (SetFlags 1 1 [FlagDeleted] (fst run_append)))))"

lemma run_append_again_ok: "map_option sm_UID (case snd run_append_again of Inl e \<Rightarrow> None | Inr m \<Rightarrow> Some m) = Some 2"
  by code_simp

text \<open>The first message is expunged before the second one comes.\<close>

theorem uid_never_reused_witness:
  "\<exists>m1 m2. snd run_append = Inr m1 \<and> snd run_append_again = Inr m2 \<and> sm_UID m1 < sm_UID m2 \<and> sm_UID m2 < 2 ^ 32"
proof -
  let ?w1 = "fst run_append"
  let ?w2 = "fst (ExpungeMailbox 1 (fst (SetFlags 1 1 [FlagDeleted] ?w1)))"
  obtain m1 where 1: "run_append = (?w1, Inr m1)" using run_append_Inr by blast
  obtain m2 where 2: "snd run_append_again = Inr m2" using run_append_again_ok by (cases "snd run_append_again") simp_all
  have "store_step move_new ?w1 (fst (SetFlags 1 1 [FlagDeleted] ?w1))" by (rule step_set_flags [OF prod.collapse [symmetric]])
  moreover have "store_step move_new (fst (SetFlags 1 1 [FlagDeleted] ?w1)) ?w2" by (rule step_expunge [OF prod.collapse [symmetric]])
  ultimately have s: "(store_step move_new)\<^sup>*\<^sup>* ?w1 ?w2" by (meson rtranclp.rtrancl_refl rtranclp.rtrancl_into_rtrancl)
  have t: "tables_ok world_1" using world_1_ok(1) by (simp add: store_ok_def)
  have r2: "run_append_again = (fst run_append_again, Inr m2)" using 2 by (metis prod.collapse)
  have r1: "AppendMessage move_new 5 (replicate 16 (CHR 0x00)) 1 [FlagFlagged] 9 (Inr ''hello'') world_1 = (?w1, Inr m1)"
    using 1 by (simp only: run_append_def [symmetric])
  from uid_never_reused [OF t r1 s r2 [unfolded run_append_again_def]] 1 2
  show ?thesis by (metis snd_conv)
qed


section \<open>What the store does not keep\<close>

text \<open>Two clients that add a flag each at the same time: \<open>UpdateFlags\<close> reads the flags before it takes the lock.\<close>

definition racing_UpdateFlags ::
    "(string list \<Rightarrow> string list) \<Rightarrow> int \<Rightarrow> int \<Rightarrow> string list \<Rightarrow> string list \<Rightarrow> (string, unit) proc" where
  "racing_UpdateFlags ord i uid flags1 flags2 =
     bindE (GetMessage_md i uid) (\<lambda>msg1. bindE (GetMessage_md i uid) (\<lambda>msg2.
     bindE (SetFlags i uid (new_flags ord True flags1 (sm_Flags msg1))) (\<lambda>_.
     SetFlags i uid (new_flags ord True flags2 (sm_Flags msg2)))))"

lemma new_flags_ok:
  "(\<And>xs. set (ord xs) = set xs) \<Longrightarrow> list_all flag_ok old \<Longrightarrow> list_all flag_ok flags \<Longrightarrow> list_all flag_ok (new_flags ord add flags old)"
  by (auto simp: new_flags_def list_all_iff)

lemma set_flags_of_twice [simp]: "set_flags_of u f2 (set_flags_of u f1 xs) = set_flags_of u f2 xs"
  by (auto simp: set_flags_of_def)

lemma GetMessage_flags:
  assumes "GetMessage_md i uid w = (w', Inr msg)"
  shows "same_world w w' \<and> (\<exists>d b. (uid, sm_Flags msg, d, b) \<in> set (contents w i))"
proof -
  obtain m where m: "same_world w w'" "m \<in> set (w_messages w)" "mr_mailbox_id m = i" "mr_uid m = uid" "msg = scan_message m"
    by (rule GetMessage_Inr [OF assms])
  then have "abs_msg w m \<in> set (contents w i)" by (auto simp: contents_def)
  with m show ?thesis by (auto simp: abs_msg_def scan_message_def)
qed

text \<open>A flag update can be lost: when two calls of \<open>UpdateFlags\<close> add flags to one message at the same time and both read it
  before either writes, both succeed, and the flags that only the first one adds are not in the result.\<close>

theorem lost_flag_update:
  assumes "store_ok w" "\<And>xs. set (ord xs) = set xs" "list_all flag_ok flags2" "list_all flag_ok flags1"
    "\<forall>(u, f, d, b)\<in>set (contents w i). list_all flag_ok f"
    "racing_UpdateFlags ord i uid flags1 flags2 w = (w', Inr ())"
  shows "\<exists>old d b. (uid, old, d, b) \<in> set (contents w i) \<and>
    contents w' i = set_flags_of uid (new_flags ord True flags2 old) (contents w i) \<and>
    set (new_flags ord True flags2 old) = set old \<union> set flags2"
proof -
  from assms(6) obtain w1 msg1 w2 msg2 w3 where 1: "GetMessage_md i uid w = (w1, Inr msg1)" and 2: "GetMessage_md i uid w1 = (w2, Inr msg2)"
    and 3: "SetFlags i uid (new_flags ord True flags1 (sm_Flags msg1)) w2 = (w3, Inr ())"
    and 4: "SetFlags i uid (new_flags ord True flags2 (sm_Flags msg2)) w3 = (w', Inr ())"
    by (auto simp: racing_UpdateFlags_def bindE_Inr)
  note s = GetMessage_flags [OF 1] GetMessage_flags [OF 2]
  have c1: "store_ok w1 \<and> contents w1 = contents w" using quiet_store [OF quiet_same] s(1) assms(1) by blast
  have c2: "store_ok w2 \<and> contents w2 = contents w" using quiet_store [OF quiet_same] s(2) c1 by metis
  have f: "list_all flag_ok (sm_Flags msg1)" "list_all flag_ok (sm_Flags msg2)" using s c1 assms(5) by fastforce+
  have "store_ok w3 \<and> contents w3 = (contents w)(i := set_flags_of uid (new_flags ord True flags1 (sm_Flags msg1)) (contents w i))"
    using SetFlags_store [OF _ new_flags_ok [OF assms(2) f(1) assms(4)] 3] c2 by simp
  with SetFlags_store [OF _ new_flags_ok [OF assms(2) f(2) assms(3)] 4]
  have "contents w' i = set_flags_of uid (new_flags ord True flags2 (sm_Flags msg2)) (contents w i)" by simp
  moreover have "set (new_flags ord True flags2 (sm_Flags msg2)) = set (sm_Flags msg2) \<union> set flags2"
    using assms(2) by (simp add: new_flags_def)
  ultimately show ?thesis using s(2) c1 by auto
qed


theorem lost_flag_update_witness:
  "contents (fst (racing_UpdateFlags id 1 1 [FlagSeen] [FlagAnswered] (fst run_append))) 1 =
     [(1, [FlagFlagged, FlagAnswered], 9, {#''hello''#})]"
proof -
  have ok: "case racing_UpdateFlags id 1 1 [FlagSeen] [FlagAnswered] (fst run_append) of (w', r) \<Rightarrow> r = Inr ()" by code_simp
  obtain w' where r: "racing_UpdateFlags id 1 1 [FlagSeen] [FlagAnswered] (fst run_append) = (w', Inr ())"
    using ok by (cases "racing_UpdateFlags id 1 1 [FlagSeen] [FlagAnswered] (fst run_append)") simp
  have f: "list_all flag_ok [FlagSeen]" "list_all flag_ok [FlagAnswered]" by (simp_all add: flag_ok_def flag_defs)
  have n: "new_flags id True [FlagAnswered] [FlagFlagged] = [FlagFlagged, FlagAnswered]" by (simp add: new_flags_def flag_defs)
  show ?thesis
    using lost_flag_update [OF world_2(1) _ f(2) f(1) _ r] flags_1 by (simp add: world_2(2) r set_flags_of_def n)
qed


section \<open>Deleting a mailbox\<close>

lemma ReplaceAll_char: "ReplaceAll s [c] [d] = map (\<lambda>x. if x = c then d else x) s"
  unfolding ReplaceAll_def by (induction s) auto

lemma show_int_inj: "show_int m = show_int n \<longleftrightarrow> m = n"
proof -
  have "CHR ''-'' \<notin> set (show_nat k)" for k using show_nat_digits [of "CHR ''-''" k] by (auto simp: is_digit_def)
  then have "CHR ''-'' # s \<noteq> show_nat k" for s k by (metis list.set_intros(1))
  then show ?thesis by (auto simp: show_int_def show_nat_inj split: if_splits dest: sym)
qed

text \<open>Names that are a directory of their own below the directory of the user.\<close>

definition safe_name :: "string \<Rightarrow> bool" where
  "safe_name n \<longleftrightarrow> CHR ''/'' \<notin> set n \<and> n \<noteq> [] \<and> n \<noteq> ''.'' \<and> n \<noteq> ''..''"

lemma safe_path: "safe_name n \<Longrightarrow> getUserMaildirPath u n = [''user_'' @ show_int u, n]"
proof -
  assume s: "safe_name n"
  then have "map (\<lambda>x. if x = CHR ''/'' then CHR ''.'' else x) n = n" by (auto simp: safe_name_def intro: map_idI)
  then show ?thesis using s by (simp add: getUserMaildirPath_def ReplaceAll_char safe_name_def Let_def)
qed

lemma bodies_filter_prefix:
  assumes "length p = length d" "p \<noteq> d"
  shows "bodies d k [f \<leftarrow> fs. \<not> prefix p (fst f)] = bodies d k fs"
proof -
  have "\<not> prefix p (fst f)" if "hit d k (fst f)" for f
  proof
    assume "prefix p (fst f)"
    moreover from that obtain s n where "fst f = d @ [s, n]" by (auto simp: hit_def in_msg_dir_def)
    ultimately have "prefix p (d @ [s, n])" by simp
    then have "p = d" using assms(1) by (auto simp: prefix_def append_eq_append_conv)
    with assms(2) show False by simp
  qed
  then have "filter (\<lambda>f. hit d k (fst f)) [f \<leftarrow> fs. \<not> prefix p (fst f)] = [f \<leftarrow> fs. hit d k (fst f)]"
    by (auto intro: filter_cong)
  then show ?thesis by (simp only: bodies_def)
qed

lemma bodies_filter_le: "bodies d k (filter P fs) \<subseteq># bodies d k fs"
  unfolding bodies_def mset_map mset_filter by (intro image_mset_subseteq_mono multiset_filter_mono) simp

lemma DeleteMailbox_Inr:
  assumes "DeleteMailbox u n w = (w', Inr ())"
  obtains mb where "find (\<lambda>mb. mb_UserID mb = u \<and> mb_Name mb = n) (w_mailboxes w) = Some mb"
    "w_mailboxes w' = [m \<leftarrow> w_mailboxes w. mb_ID m \<noteq> mb_ID mb]" "w_mailbox_seq w' = w_mailbox_seq w"
    "w_messages w' = [m \<leftarrow> w_messages w. mr_mailbox_id m \<noteq> mb_ID mb]"
    "w_files w' = [f \<leftarrow> w_files w. \<not> prefix (getUserMaildirPath u n) (fst f)]"
proof -
  from assms obtain w1 row where r: "readE (\<lambda>w. find (\<lambda>mb. mb_UserID mb = u \<and> mb_Name mb = n) (w_mailboxes w)) w = (w1, Inr row)"
    and c: "(case row of None \<Rightarrow> failE ''mailbox not found''
      | Some mb \<Rightarrow> bindE (execE (\<lambda>w. (delete_mailbox_rows (mb_ID mb) w, ())))
           (\<lambda>_. mapErr (\<lambda>e. ''failed to remove maildir: '' @ e) (os_RemoveAll (getUserMaildirPath u n)))) w1 = (w', Inr ())"
    by (auto simp: DeleteMailbox_def bindE_Inr)
  from c obtain mb w2 where mb: "row = Some mb" and 2: "execE (\<lambda>w. (delete_mailbox_rows (mb_ID mb) w, ())) w1 = (w2, Inr ())"
    and 3: "os_RemoveAll (getUserMaildirPath u n) w2 = (w', Inr ())" by (cases row) (auto simp: bindE_Inr)
  obtain w3 where w3: "same_world w1 w3" "w2 = delete_mailbox_rows (mb_ID mb) w3" using execE_Inr [OF 2] by auto
  obtain w4 where w4: "same_world w2 w4" "w' = w4\<lparr>w_files := [f \<leftarrow> w_files w4. \<not> prefix (getUserMaildirPath u n) (fst f)],
      w_dirs := [d \<leftarrow> w_dirs w4. \<not> prefix (getUserMaildirPath u n) d]\<rparr>"
    using execE_Inr [OF 3 [unfolded os_RemoveAll_def]] by auto
  have "same_world w w1" "row = find (\<lambda>mb. mb_UserID mb = u \<and> mb_Name mb = n) (w_mailboxes w)"
    using readE_Inr [OF r] by (auto simp: same_worldD)
  with mb w3 w4 show thesis by (intro that [of mb]) (simp_all add: same_worldD delete_mailbox_rows_def)
qed


lemma find_remaining:
  "j \<noteq> i \<Longrightarrow> find (\<lambda>mb. mb_ID mb = j) [m \<leftarrow> mbs. mb_ID m \<noteq> i] = find (\<lambda>mb. mb_ID mb = j) mbs"
  by (induction mbs) auto

lemma safe_paths_differ:
  assumes t: "tables_ok w" and safe: "\<forall>mb\<in>set (w_mailboxes w). safe_name (mb_Name mb)"
    and m: "mb \<in> set (w_mailboxes w)" "mb' \<in> set (w_mailboxes w)" "mb' \<noteq> mb"
  shows "length (mb_path mb) = length (mb_path mb')" "mb_path mb \<noteq> mb_path mb'"
proof -
  have p: "mb_path x = [''user_'' @ show_int (mb_UserID x), mb_Name x]" if "x \<in> set (w_mailboxes w)" for x
    using safe that by (simp add: mb_path_def safe_path)
  show "length (mb_path mb) = length (mb_path mb')" using p m by simp
  have "(mb_UserID mb, mb_Name mb) \<noteq> (mb_UserID mb', mb_Name mb')"
    using t m inj_onD [of "\<lambda>mb. (mb_UserID mb, mb_Name mb)" "set (w_mailboxes w)" mb mb'] by (auto simp: tables_ok_def distinct_map)
  then show "mb_path mb \<noteq> mb_path mb'" using p m by (auto simp: show_int_inj)
qed

text \<open>Deleting a mailbox deletes that mailbox: when every mailbox has a name that is a directory of its own, \<open>DeleteMailbox\<close> removes
  the messages of the one mailbox it names, and every other mailbox of every user keeps its messages and their bodies.\<close>

theorem delete_mailbox_refines:
  assumes ok: "store_ok w" and safe: "\<forall>mb\<in>set (w_mailboxes w). safe_name (mb_Name mb)" and run: "DeleteMailbox u n w = (w', Inr ())"
  shows "store_ok w' \<and> (\<exists>mb\<in>set (w_mailboxes w). mb_UserID mb = u \<and> mb_Name mb = n \<and> contents w' = (contents w)(mb_ID mb := []))"
proof -
  obtain mb where mb: "find (\<lambda>mb. mb_UserID mb = u \<and> mb_Name mb = n) (w_mailboxes w) = Some mb"
    and w': "w_mailboxes w' = [m \<leftarrow> w_mailboxes w. mb_ID m \<noteq> mb_ID mb]" "w_mailbox_seq w' = w_mailbox_seq w"
      "w_messages w' = [m \<leftarrow> w_messages w. mr_mailbox_id m \<noteq> mb_ID mb]"
      "w_files w' = [f \<leftarrow> w_files w. \<not> prefix (getUserMaildirPath u n) (fst f)]" by (rule DeleteMailbox_Inr [OF run])
  have m: "mb \<in> set (w_mailboxes w)" "mb_UserID mb = u" "mb_Name mb = n" using mb by (auto simp: find_Some_iff)
  have t: "tables_ok w" and f: "files_ok (w_files w)" using ok by (simp_all add: store_ok_def)
  have files: "w_files w' = [f \<leftarrow> w_files w. \<not> prefix (mb_path mb) (fst f)]" using w'(4) m by (simp add: mb_path_def)
  have e: "abs_msg w' x = abs_msg w x \<and> body_stored w' x = body_stored w x"
    if x: "x \<in> set (w_messages w)" "mr_mailbox_id x \<noteq> mb_ID mb" for x
  proof -
    obtain mb' where mb': "find (\<lambda>mb. mb_ID mb = mr_mailbox_id x) (w_mailboxes w) = Some mb'" "mb' \<in> set (w_mailboxes w)"
      "path_of w (mr_mailbox_id x) = mb_path mb'" by (rule find_mailbox [OF t x(1)])
    have "mb' \<noteq> mb" using mb'(1) x(2) by (auto simp: find_Some_iff)
    note d = safe_paths_differ [OF t safe m(1) mb'(2) this]
    have "path_of w' (mr_mailbox_id x) = mb_path mb'" using mb'(1) x(2) by (simp add: path_of_def w'(1) find_remaining)
    then show ?thesis using bodies_filter_prefix [OF d] by (simp add: abs_msg_def body_stored_def mb'(3) files)
  qed
  have "files_ok (w_files w')"
    using f bodies_filter_le [of _ _ _ "w_files w"] unfolding files files_ok_def
    by (metis distinct_map_filter subset_mset.le_zero_eq)
  moreover have "tables_ok w'" using t unfolding tables_ok_def w'(1-3) by (auto simp: distinct_map_filter) metis
  ultimately have "store_ok w'" using ok e by (auto simp: store_ok_def w'(3))
  moreover have "contents w' j = ((contents w)(mb_ID mb := [])) j" for j
  proof (cases "j = mb_ID mb")
    case True
    then show ?thesis by (simp add: contents_def w'(3) filter_empty_conv)
  next
    case False
    then have "[m \<leftarrow> w_messages w'. mr_mailbox_id m = j] = [m \<leftarrow> w_messages w. mr_mailbox_id m = j]"
      by (auto simp: w'(3) intro: filter_cong)
    with False e show ?thesis by (auto simp: contents_def)
  qed
  ultimately show ?thesis using m by blast
qed


lemma world_2_names: "map mb_Name (w_mailboxes (fst run_append)) = [''INBOX'']"
  by code_simp

theorem delete_mailbox_refines_witness:
  "\<exists>w'. DeleteMailbox 1 ''INBOX'' (fst run_append) = (w', Inr ()) \<and> store_ok w' \<and> contents w' 1 = []"
proof -
  have "case DeleteMailbox 1 ''INBOX'' (fst run_append) of (w, r) \<Rightarrow> r = Inr ()" by code_simp
  then obtain w' where r: "DeleteMailbox 1 ''INBOX'' (fst run_append) = (w', Inr ())"
    by (cases "DeleteMailbox 1 ''INBOX'' (fst run_append)") simp
  have i: "map mb_ID (w_mailboxes (fst run_append)) = [1]" by code_simp
  have safe: "\<forall>mb\<in>set (w_mailboxes (fst run_append)). safe_name (mb_Name mb)"
    using world_2_names by (auto simp: map_eq_Cons_conv safe_name_def)
  from delete_mailbox_refines [OF world_2(1) safe r] i have "store_ok w' \<and> contents w' 1 = []"
    by (auto simp: map_eq_Cons_conv)
  with r show ?thesis by blast
qed

text \<open>Some names reach the directories of others: the name with two dots stands for the directory of all users, so that a
  user who creates and deletes a mailbox of that name deletes the messages of every user; two names that differ in a slash and
  a dot are one directory.\<close>

theorem dotdot_deletes_all:
  assumes "DeleteMailbox u ''..'' w = (w', Inr ())"
  shows "w_files w' = [] \<and> getUserMaildirPath u (a @ ''/'' @ b) = getUserMaildirPath u (a @ ''.'' @ b)"
proof -
  have "getUserMaildirPath u ''..'' = []" by (simp add: getUserMaildirPath_def ReplaceAll_char Let_def)
  then have "w_files w' = []" using DeleteMailbox_Inr [OF assms] by (metis (no_types, lifting) Nil_prefix filter_False)
  moreover have "getUserMaildirPath u (a @ ''/'' @ b) = getUserMaildirPath u (a @ ''.'' @ b)"
    by (simp add: getUserMaildirPath_def ReplaceAll_char Let_def)
  ultimately show ?thesis by blast
qed

text \<open>The user 2 has no message; the message of user 1 is gone.\<close>

definition run_dotdot :: "world \<times> (string, unit) result" where
  "run_dotdot = (let w = (fst run_append)\<lparr>w_users := map (\<lambda>u. u\<lparr>u_id := 2\<rparr>) (w_users (fst run_append)) @ w_users (fst run_append)\<rparr>
     in bindE (CreateMailbox 2 ''..'' [] 7) (\<lambda>_. DeleteMailbox 2 ''..'') w)"

theorem dotdot_deletes_all_witness: "w_files (fst run_append) \<noteq> [] \<and> snd run_dotdot = Inr () \<and> w_files (fst run_dotdot) = []"
proof -
  let ?w = "(fst run_append)\<lparr>w_users := map (\<lambda>u. u\<lparr>u_id := 2\<rparr>) (w_users (fst run_append)) @ w_users (fst run_append)\<rparr>"
  have ok: "w_files (fst run_append) \<noteq> [] \<and> snd run_dotdot = Inr ()" by code_simp
  obtain w1 mb where "CreateMailbox 2 ''..'' [] 7 ?w = (w1, Inr mb)" "DeleteMailbox 2 ''..'' w1 = (fst run_dotdot, Inr ())"
  proof -
    have "bindE (CreateMailbox 2 ''..'' [] 7) (\<lambda>_. DeleteMailbox 2 ''..'') ?w = (fst run_dotdot, Inr ())"
      using ok by (simp add: run_dotdot_def Let_def prod_eq_iff)
    then show thesis by (rule bindE_InrE) (rule that)
  qed
  with ok dotdot_deletes_all [of 2 w1 "fst run_dotdot" "[]" "[]"] show ?thesis by blast
qed


section \<open>What was appended can be read\<close>

lemma GetMessage_ok:
  assumes ok: "store_ok w" and nf: "w_faults w = []" and a: "(uid, f, d, b) \<in> set (contents w i)"
  obtains m where "GetMessage_md i uid w = (w, Inr (scan_message m))" "m \<in> set (w_messages w)" "abs_msg w m = (uid, f, d, b)"
proof -
  from a obtain m where m: "m \<in> set (w_messages w)" "mr_mailbox_id m = i" "abs_msg w m = (uid, f, d, b)" by (auto simp: contents_def)
  then have u: "mr_uid m = uid" by (simp add: abs_msg_def)
  have "find (\<lambda>m. mr_mailbox_id m = i \<and> mr_uid m = uid) (w_messages w) \<noteq> None" using m u by (auto simp: find_None_iff)
  then obtain m' where m': "find (\<lambda>m. mr_mailbox_id m = i \<and> mr_uid m = uid) (w_messages w) = Some m'" by blast
  then have "m' \<in> set (w_messages w)" "mr_mailbox_id m' = i" "mr_uid m' = uid" by (auto simp: find_Some_iff)
  then have "m' = m" using row_unique [of w m m'] ok m u by (simp add: store_ok_def)
  then have "GetMessage_md i uid w = (w, Inr (scan_message m))" using m' nf by (simp add: GetMessage_md_def runE)
  with m show thesis using that by blast
qed

text \<open>Round trip: a message that was appended can be looked up by the UID that was returned, with the flags and the body it was
  appended with, though the file has been moved and renamed since its name was recorded. The code looks for the recorded name, then
  for the name without flags, then for any file that starts with it.\<close>

theorem append_then_read:
  assumes "maildir_lib unseen" "store_ok w" "0 \<le> now" "length buf = 16" "fresh_key (generateMaildirKey now buf) w"
    "list_all flag_ok flags" "AppendMessage unseen now buf i flags date (Inr c) w = (w', Inr msg)"
    "w_faults w' = []" "\<forall>mb\<in>set (w_mailboxes w'). mb_UIDNext mb < 2 ^ 32"
  shows "\<exists>msg'. GetMessage_md i (sm_UID msg) w' = (w', Inr msg') \<and> sm_Flags msg' = flags \<and> GetMessageBody msg' w' = (w', Inr c)"
proof -
  obtain c' where c': "Inr c = (Inr c' :: (string, string) result)" and ok: "store_ok w'"
    and cont: "contents w' = (contents w)(i := contents w i @ [(sm_UID msg, stringToFlags (flagsToString flags), date, {#c'#})])"
    by (rule AppendMessage_Inr_store [OF assms(2,1) generateMaildirKey_ok [OF assms(3,4)] assms(5,7)])
  have "(sm_UID msg, flags, date, {#c#}) \<in> set (contents w' i)" using cont c' flags_roundtrip [OF assms(6)] by simp
  then obtain m where m: "GetMessage_md i (sm_UID msg) w' = (w', Inr (scan_message m))" "m \<in> set (w_messages w')"
    "abs_msg w' m = (sm_UID msg, flags, date, {#c#})" by (rule GetMessage_ok [OF ok assms(8)])
  from GetMessageBody_stored [OF ok assms(8) m(2) assms(9)] m(3)
  have "GetMessageBody (scan_message m) w' = (w', Inr c)" by (auto simp: abs_msg_def)
  moreover have "sm_Flags (scan_message m) = flags" using m(3) by (simp add: abs_msg_def scan_message_def)
  ultimately show ?thesis using m(1) by blast
qed

theorem append_then_read_witness:
  "\<exists>msg'. GetMessage_md 1 1 (fst run_append) = (fst run_append, Inr msg') \<and> sm_Flags msg' = [FlagFlagged] \<and>
     GetMessageBody msg' (fst run_append) = (fst run_append, Inr ''hello'')"
proof -
  obtain msg where r: "AppendMessage move_new 5 (replicate 16 (CHR 0x00)) 1 [FlagFlagged] 9 (Inr ''hello'') world_1 = (fst run_append, Inr msg)"
    and u: "sm_UID msg = 1" using run_append_Inr by (auto simp only: run_append_def [symmetric])
  have "w_faults (fst run_append) = []" "list_all (\<lambda>mb. mb_UIDNext mb < 2 ^ 32) (w_mailboxes (fst run_append))" by code_simp+
  with append_then_read [OF mv.maildir_lib_axioms world_1_ok(1) _ _ world_1_ok(2) flags_1 r] u show ?thesis
    by (simp add: list_all_iff)
qed

end
