(* ===== verification/Imap_Session.thy ===== *)
theory Imap_Session
  imports Maildir_Store
begin

text \<open>
  Package \<^verbatim>\<open>internal/imap\<close>: the commands of an IMAP session (\<^verbatim>\<open>session.go\<close>) and the trackers of the server
  (\<^verbatim>\<open>server.go\<close>). A command is a procedure on the world of the mail store; the session is passed in and, where the
  command changes it, returned. What a command writes to the client is its result. A set of numbers of
  the go-imap package is its \<open>Contains\<close> function; the order of a range over a map is an argument. Of the trackers, which
  belong to go-imap, the identifiers of the mailboxes that have one and the numbers queued to them are modelled.
  Time limits of commands and log messages are left out.
\<close>

section \<open>Session and server\<close>

record imap_session =
  is_user :: "user option"
  is_selected :: "mailbox option"
  is_tracker :: "int option" \<comment> \<open>the mailbox whose tracker the session listens to\<close>
  is_closed :: bool

definition NewSession_imap :: imap_session where
  "NewSession_imap = \<lparr>is_user = None, is_selected = None, is_tracker = None, is_closed = False\<rparr>"

definition Close_imap :: "imap_session \<Rightarrow> imap_session" where
  "Close_imap s = (if is_closed s then s else s\<lparr>is_closed := True, is_tracker := None\<rparr>)"

datatype imap_error =
    ErrAuthFailed
  | NotAuthenticated
  | NotSelected
  | NoReply "string option" string \<comment> \<open>a NO with its response code and text\<close>
  | Failure string

type_synonym trackers = "int list"

definition GetMailboxTracker :: "int \<Rightarrow> trackers \<Rightarrow> trackers" where
  "GetMailboxTracker mailboxID ts = List.insert mailboxID ts"

text \<open>\<open>NotifyMailboxUpdate\<close>: the number of messages that is queued to the tracker, if there is one.\<close>

definition NotifyMailboxUpdate :: "trackers \<Rightarrow> int \<Rightarrow> ('e, (int \<times> nat) option) proc" where
  "NotifyMailboxUpdate ts mailboxID =
     (if mailboxID \<notin> set ts then retE None
      else onErr (\<lambda>e. retE None) (bindE (GetMailboxStats mailboxID) (\<lambda>stats. retE (Some (mailboxID, ms_Messages stats)))))"

definition NotifyMailboxUpdateByName :: "trackers \<Rightarrow> string \<Rightarrow> string \<Rightarrow> ('e, (int \<times> nat) option) proc" where
  "NotifyMailboxUpdateByName ts username mailboxName =
     onErr (\<lambda>e. retE None) (bindE (LookupUser username) (\<lambda>u.
     onErr (\<lambda>e. retE None) (bindE (GetMailbox (us_ID u) mailboxName) (\<lambda>mb. NotifyMailboxUpdate ts (mb_ID mb)))))"

definition Login_imap :: "argon2 \<Rightarrow> string \<Rightarrow> string \<Rightarrow> imap_session \<Rightarrow> (imap_error, imap_session) proc" where
  "Login_imap A username password s =
     bindE (mapErr (\<lambda>e. ErrAuthFailed) (Authenticate A username password)) (\<lambda>u. retE (s\<lparr>is_user := Some u\<rparr>))"

text \<open>Commands of a user who has logged in, and commands on the selected mailbox.\<close>

definition with_user :: "imap_session \<Rightarrow> (user \<Rightarrow> (imap_error, 'a) proc) \<Rightarrow> (imap_error, 'a) proc" where
  "with_user s f = (case is_user s of None \<Rightarrow> failE NotAuthenticated | Some u \<Rightarrow> f u)"

definition with_selected :: "imap_session \<Rightarrow> (mailbox \<Rightarrow> (imap_error, 'a) proc) \<Rightarrow> (imap_error, 'a) proc" where
  "with_selected s f = (case is_selected s of None \<Rightarrow> failE NotSelected | Some mb \<Rightarrow> f mb)"

definition get_mailbox :: "string \<Rightarrow> string \<Rightarrow> user \<Rightarrow> string \<Rightarrow> (imap_error, mailbox) proc" where
  "get_mailbox code txt u name = mapErr (\<lambda>e. NoReply (Some code) txt) (GetMailbox (us_ID u) name)"

section \<open>Mailboxes\<close>

record select_data =
  sd_Flags :: "string list"
  sd_PermanentFlags :: "string list"
  sd_NumMessages :: nat
  sd_UIDValidity :: int
  sd_UIDNext :: int

definition select_flags :: "string list" where
  "select_flags = [FlagSeen, FlagAnswered, FlagFlagged, FlagDeleted, FlagDraft]"

definition Select_imap :: "string \<Rightarrow> trackers \<Rightarrow> imap_session \<Rightarrow> (imap_error, imap_session \<times> trackers \<times> select_data) proc" where
  "Select_imap name ts s =
     with_user s (\<lambda>u.
     bindE (get_mailbox ''NONEXISTENT'' ''Mailbox not found'' u name) (\<lambda>mb.
     bindE (mapErr (\<lambda>e. Failure (''failed to get mailbox stats: '' @ e)) (GetMailboxStats (mb_ID mb))) (\<lambda>stats.
     retE (s\<lparr>is_selected := Some mb, is_tracker := Some (mb_ID mb)\<rparr>, GetMailboxTracker (mb_ID mb) ts,
       \<lparr>sd_Flags = select_flags, sd_PermanentFlags = select_flags @ [CHR 0x5C # ''*''], sd_NumMessages = ms_Messages stats,
        sd_UIDValidity = ms_UIDValidity stats, sd_UIDNext = ms_UIDNext stats\<rparr>))))"

definition Unselect_imap :: "imap_session \<Rightarrow> imap_session" where
  "Unselect_imap s = s\<lparr>is_selected := None, is_tracker := None\<rparr>"

definition Create_imap :: "string \<Rightarrow> time \<Rightarrow> imap_session \<Rightarrow> (imap_error, unit) proc" where
  "Create_imap name now s =
     with_user s (\<lambda>u. bindE (mapErr Failure (CreateMailbox (us_ID u) name [] now)) (\<lambda>_. retE ()))"

definition Delete_imap :: "string \<Rightarrow> imap_session \<Rightarrow> (imap_error, unit) proc" where
  "Delete_imap name s =
     with_user s (\<lambda>u. if name = ''INBOX'' then failE (NoReply None ''Cannot delete INBOX'')
                      else mapErr Failure (DeleteMailbox (us_ID u) name))"

definition Rename_imap :: "string \<Rightarrow> string \<Rightarrow> imap_session \<Rightarrow> (imap_error, unit) proc" where
  "Rename_imap oldName newName s =
     with_user s (\<lambda>u. if oldName = ''INBOX'' then failE (NoReply None ''Cannot rename INBOX'')
                      else mapErr Failure (RenameMailbox (us_ID u) oldName newName))"

definition Subscribe_imap :: "string \<Rightarrow> imap_session \<Rightarrow> (imap_error, unit) proc" where
  "Subscribe_imap name s = with_user s (\<lambda>u. mapErr Failure (SubscribeMailbox (us_ID u) name True))"

definition Unsubscribe_imap :: "string \<Rightarrow> imap_session \<Rightarrow> (imap_error, unit) proc" where
  "Unsubscribe_imap name s = with_user s (\<lambda>u. mapErr Failure (SubscribeMailbox (us_ID u) name False))"

definition matchMailboxPattern :: "string \<Rightarrow> string \<Rightarrow> bool" where
  "matchMailboxPattern name pattern =
     (if pattern = ''*'' then True
      else if pattern = ''%'' then \<not> Contains name ''/''
      else HasPrefix name (TrimSuffix pattern ''*''))"

definition list_shows :: "string list \<Rightarrow> bool \<Rightarrow> mailbox \<Rightarrow> bool" where
  "list_shows patterns selectSubscribed mb \<longleftrightarrow>
     (list_ex (\<lambda>p. p = ''*'' \<or> p = ''%'' \<or> matchMailboxPattern (mb_Name mb) p) patterns \<or> patterns = []) \<and>
     (selectSubscribed \<longrightarrow> mb_Subscribed mb)"

definition List_imap :: "string list \<Rightarrow> bool \<Rightarrow> imap_session \<Rightarrow> (imap_error, (string \<times> string list) list) proc" where
  "List_imap patterns selectSubscribed s =
     with_user s (\<lambda>u.
     bindE (mapErr (\<lambda>e. Failure (''failed to list mailboxes: '' @ e)) (ListMailboxes (us_ID u))) (\<lambda>mailboxes.
     retE (map (\<lambda>mb. (mb_Name mb, if mb_SpecialUse mb \<noteq> [] then [mb_SpecialUse mb] else []))
             (filter (list_shows patterns selectSubscribed) mailboxes))))"

record status_data =
  std_Mailbox :: string
  std_NumMessages :: nat
  std_NumUnseen :: nat
  std_UIDNext :: int
  std_UIDValidity :: int

definition Status_imap :: "string \<Rightarrow> imap_session \<Rightarrow> (imap_error, status_data) proc" where
  "Status_imap name s =
     with_user s (\<lambda>u.
     bindE (get_mailbox ''NONEXISTENT'' ''Mailbox not found'' u name) (\<lambda>mb.
     bindE (mapErr (\<lambda>e. Failure (''failed to get mailbox stats: '' @ e)) (GetMailboxStats (mb_ID mb))) (\<lambda>stats.
     retE \<lparr>std_Mailbox = name, std_NumMessages = ms_Messages stats, std_NumUnseen = ms_Unseen stats,
           std_UIDNext = ms_UIDNext stats, std_UIDValidity = ms_UIDValidity stats\<rparr>)))"

text \<open>\<open>Append\<close>: the date is that of the client, or the time of the call; the result holds the UID and the UIDVALIDITY, and what
  is queued to the tracker.\<close>

definition Append_imap ::
    "unseen_fun \<Rightarrow> trackers \<Rightarrow> time \<Rightarrow> string \<Rightarrow> string \<Rightarrow> string list \<Rightarrow> time option \<Rightarrow> (string, string) result \<Rightarrow> imap_session
     \<Rightarrow> (imap_error, (int \<times> int) \<times> (int \<times> nat) option) proc" where
  "Append_imap unseen ts now buf mailbox flags date r s =
     with_user s (\<lambda>u.
     bindE (get_mailbox ''TRYCREATE'' ''Mailbox not found'' u mailbox) (\<lambda>mb.
     bindE (mapErr (\<lambda>e. Failure (''failed to append message: '' @ e))
              (AppendMessage unseen now buf (mb_ID mb) flags (case date of None \<Rightarrow> now | Some d \<Rightarrow> d) r)) (\<lambda>msg.
     bindE (NotifyMailboxUpdate ts (mb_ID mb)) (\<lambda>note.
     retE ((sm_UID msg, mb_UIDValidity mb), note)))))"


section \<open>The parts of a message\<close>

record address =
  ad_Name :: string
  ad_Mailbox :: string
  ad_Host :: string

definition split_at :: "string \<Rightarrow> address \<Rightarrow> address" where
  "split_at email addr = (case Index email ''@'' of
     None \<Rightarrow> addr
   | Some i \<Rightarrow> addr\<lparr>ad_Mailbox := take i email, ad_Host := drop (i + 1) email\<rparr>)"

definition parse_address :: "string \<Rightarrow> address" where
  "parse_address part =
     (let addr = \<lparr>ad_Name = [], ad_Mailbox = [], ad_Host = []\<rparr>
      in case Index part ''<'' of
           None \<Rightarrow> split_at part addr
         | Some idx \<Rightarrow>
             (let named = addr\<lparr>ad_Name := TrimSpace (take idx part)\<rparr>
              in case Index part ''>'' of
                   None \<Rightarrow> named
                 | Some e \<Rightarrow> if e > idx then split_at (take (e - (idx + 1)) (drop (idx + 1) part)) named else named))"

definition parseAddresses :: "string \<Rightarrow> address list" where
  "parseAddresses s = map parse_address (filter (\<lambda>p. p \<noteq> []) (map TrimSpace (Split s (CHR '',''))))"

text \<open>\<open>time.Parse\<close> with the layout RFC 1123 with a numeric zone (\<open>Mon, 02 Jan 2006 15:04:05 -0700\<close>). Names are read without regard to
  case; a blank of the layout stands for any number of blanks; the hour has one or two digits; fractions of a second may follow the
  seconds. The result is in nanoseconds since 1970.\<close>

definition digits2 :: "string \<Rightarrow> (nat \<times> string) option" where
  "digits2 s = (case s of
     a # b # r \<Rightarrow> if is_digit a \<and> is_digit b then map_option (\<lambda>n. (n, r)) (parse_digits 0 [a, b]) else None
   | _ \<Rightarrow> None)"

definition digits12 :: "string \<Rightarrow> (nat \<times> string) option" where
  "digits12 s = (case s of
     [] \<Rightarrow> None
   | a # r \<Rightarrow> if \<not> is_digit a then None
              else (case r of b # r' \<Rightarrow> if is_digit b then digits2 s else map_option (\<lambda>n. (n, r)) (parse_digits 0 [a])
                    | [] \<Rightarrow> map_option (\<lambda>n. (n, r)) (parse_digits 0 [a])))"

definition year4 :: "string \<Rightarrow> (nat \<times> string) option" where
  "year4 s = (if length s < 4 \<or> \<not> list_all is_digit (take 4 s) then None
              else map_option (\<lambda>n. (n, drop 4 s)) (parse_digits 0 (take 4 s)))"

definition name3 :: "string list \<Rightarrow> string \<Rightarrow> (nat \<times> string) option" where
  "name3 names s = (case find (\<lambda>(i, n). length s \<ge> 3 \<and> EqualFold n (take 3 s)) (zip [0..<length names] names) of
     None \<Rightarrow> None | Some (i, n) \<Rightarrow> Some (i, drop 3 s))"

definition char_is :: "char \<Rightarrow> string \<Rightarrow> string option" where
  "char_is c s = (case s of x # r \<Rightarrow> if x = c then Some r else None | [] \<Rightarrow> None)"

definition skip_blank :: "string \<Rightarrow> string option" where
  "skip_blank s = (if s \<noteq> [] \<and> hd s \<noteq> CHR '' '' then None else Some (dropWhile (\<lambda>c. c = CHR '' '') s))"

definition fraction :: "string \<Rightarrow> int \<times> string" where
  "fraction s = (case s of
     p # d # r \<Rightarrow>
       if (p = CHR ''.'' \<or> p = CHR '','') \<and> is_digit d
       then (let ds = takeWhile is_digit (d # r)
             in (foldl (\<lambda>n c. n * 10 + (of_char c - 48)) 0 (take 9 (ds @ replicate 9 (CHR ''0''))), dropWhile is_digit (d # r)))
       else (0, s)
   | _ \<Rightarrow> (0, s))"

definition zone :: "string \<Rightarrow> int option" where
  "zone s = (if length s \<noteq> 5 then None
     else (case (digits2 (take 2 (drop 1 s)), digits2 (drop 3 s)) of
             (Some (h, _), Some (m, _)) \<Rightarrow>
               if h > 24 \<or> m > 60 then None
               else if hd s = CHR ''+'' then Some (int h * 3600 + int m * 60)
               else if hd s = CHR ''-'' then Some (- (int h * 3600 + int m * 60)) else None
           | _ \<Rightarrow> None))"

definition is_leap :: "int \<Rightarrow> bool" where
  "is_leap y \<longleftrightarrow> y mod 4 = 0 \<and> (y mod 100 \<noteq> 0 \<or> y mod 400 = 0)"

definition month_days :: "int \<Rightarrow> nat \<Rightarrow> nat" where
  "month_days y m = (if m = 1 then (if is_leap y then 29 else 28) else if m = 3 \<or> m = 5 \<or> m = 8 \<or> m = 10 then 30 else 31)"

text \<open>Days from 1 January 1970; months count from 0.\<close>

definition civil_days :: "int \<Rightarrow> nat \<Rightarrow> nat \<Rightarrow> int" where
  "civil_days y m d =
     (y - 1) * 365 + (y - 1) div 4 - (y - 1) div 100 + (y - 1) div 400 - 719162
     + int (sum_list (map (month_days y) [0..<m])) + int d - 1"

definition shortDayNames :: "string list" where
  "shortDayNames = [''Sun'', ''Mon'', ''Tue'', ''Wed'', ''Thu'', ''Fri'', ''Sat'']"

definition shortMonthNames :: "string list" where
  "shortMonthNames = [''Jan'', ''Feb'', ''Mar'', ''Apr'', ''May'', ''Jun'', ''Jul'', ''Aug'', ''Sep'', ''Oct'', ''Nov'', ''Dec'']"

definition parse_RFC1123Z :: "string \<Rightarrow> time option" where
  "parse_RFC1123Z s0 =
     Option.bind (name3 shortDayNames s0) (\<lambda>(_, s1). Option.bind (char_is (CHR '','') s1) (\<lambda>s2.
     Option.bind (skip_blank s2) (\<lambda>s3. Option.bind (digits2 s3) (\<lambda>(d, s4).
     Option.bind (skip_blank s4) (\<lambda>s5. Option.bind (name3 shortMonthNames s5) (\<lambda>(m, s6).
     Option.bind (skip_blank s6) (\<lambda>s7. Option.bind (year4 s7) (\<lambda>(y, s8).
     Option.bind (skip_blank s8) (\<lambda>s9. Option.bind (digits12 s9) (\<lambda>(hh, s10).
     Option.bind (char_is (CHR '':'') s10) (\<lambda>s11. Option.bind (digits2 s11) (\<lambda>(mi, s12).
     Option.bind (char_is (CHR '':'') s12) (\<lambda>s13. Option.bind (digits2 s13) (\<lambda>(sec, s14).
     (case fraction s14 of (ns, s15) \<Rightarrow>
     Option.bind (skip_blank s15) (\<lambda>s16. Option.bind (zone s16) (\<lambda>off.
     if hh > 23 \<or> mi > 59 \<or> sec > 59 \<or> d < 1 \<or> d > month_days (int y) m then None
     else Some ((civil_days (int y) m d * 86400 + int hh * 3600 + int mi * 60 + int sec - off) * Second + ns))))))))))))))))))"

text \<open>The zero value of the date stands for a header that is missing or cannot be read.\<close>

record envelope =
  env_Date :: "time option"
  env_Subject :: string
  env_From :: "address list"
  env_To :: "address list"
  env_MessageID :: string

definition env_line :: "string \<Rightarrow> envelope \<Rightarrow> envelope" where
  "env_line line env =
     (let l = ToLower line
      in if HasPrefix l ''subject:'' then env\<lparr>env_Subject := TrimSpace (drop 8 line)\<rparr>
         else if HasPrefix l ''date:''
         then (case parse_RFC1123Z (TrimSpace (drop 5 line)) of None \<Rightarrow> env | Some t \<Rightarrow> env\<lparr>env_Date := Some t\<rparr>)
         else if HasPrefix l ''from:'' then env\<lparr>env_From := parseAddresses (TrimSpace (drop 5 line))\<rparr>
         else if HasPrefix l ''to:'' then env\<lparr>env_To := parseAddresses (TrimSpace (drop 3 line))\<rparr>
         else if HasPrefix l ''message-id:'' then env\<lparr>env_MessageID := TrimSpace (drop 11 line)\<rparr>
         else env)"

definition is_blank_line :: "string \<Rightarrow> bool" where
  "is_blank_line line \<longleftrightarrow> line = [] \<or> line = [CHR 0x0D]"

fun env_loop :: "string list \<Rightarrow> envelope \<Rightarrow> envelope" where
  "env_loop [] env = env"
| "env_loop (line # lines) env = (if is_blank_line line then env else env_loop lines (env_line line env))"

definition extractEnvelope :: "string \<Rightarrow> envelope" where
  "extractEnvelope data =
     env_loop (Split data (CHR 0x0A)) \<lparr>env_Date = None, env_Subject = [], env_From = [], env_To = [], env_MessageID = []\<rparr>"

datatype specifier = SpecNone | SpecHeader | SpecText

record body_section =
  bs_Part :: "int list"
  bs_Specifier :: specifier

definition CRLF2 :: string where
  "CRLF2 = [CHR 0x0D, CHR 0x0A, CHR 0x0D, CHR 0x0A]"

definition LF2 :: string where
  "LF2 = [CHR 0x0A, CHR 0x0A]"

definition extractBodySection :: "string \<Rightarrow> body_section \<Rightarrow> string" where
  "extractBodySection data sec =
     (if bs_Part sec \<noteq> [] then data
      else case bs_Specifier sec of
          SpecHeader \<Rightarrow>
            (case Index data CRLF2 of
               Some idx \<Rightarrow> take (idx + 2) data
             | None \<Rightarrow> (case Index data LF2 of Some idx \<Rightarrow> take (idx + 1) data | None \<Rightarrow> data))
        | SpecText \<Rightarrow>
            (case Index data CRLF2 of
               Some idx \<Rightarrow> drop (idx + 4) data
             | None \<Rightarrow> (case Index data LF2 of Some idx \<Rightarrow> drop (idx + 2) data | None \<Rightarrow> data))
        | SpecNone \<Rightarrow> data)"


section \<open>Messages of the selected mailbox\<close>

datatype num_set = UIDSet "int \<Rightarrow> bool" | SeqSet "nat \<Rightarrow> bool"

text \<open>The messages with their sequence numbers, and those that a set names. Ranging over the map from sequence numbers (or UIDs)
  gives them in some order.\<close>

definition numbered :: "stored_message list \<Rightarrow> (nat \<times> stored_message) list" where
  "numbered messages = zip [1..<Suc (length messages)] messages"

fun in_set :: "num_set \<Rightarrow> nat \<times> stored_message \<Rightarrow> bool" where
  "in_set (UIDSet P) (seqNum, msg) = P (sm_UID msg)"
| "in_set (SeqSet P) (seqNum, msg) = P seqNum"

type_synonym range_order = "(nat \<times> stored_message) list \<Rightarrow> (nat \<times> stored_message) list"

record fetch_options =
  fo_Flags :: bool
  fo_InternalDate :: bool
  fo_RFC822Size :: bool
  fo_Envelope :: bool
  fo_BodySection :: "body_section list"

record fetch_item =
  fi_Seq :: nat
  fi_UID :: int
  fi_Flags :: "string list option"
  fi_InternalDate :: "time option"
  fi_Size :: "int option"
  fi_Envelope :: "envelope option"
  fi_Sections :: "(body_section \<times> string) list"

text \<open>A body that cannot be read is left out of the response.\<close>

definition read_body :: "stored_message \<Rightarrow> ('e, string option) proc" where
  "read_body msg = onErr (\<lambda>e. retE None) (bindE (GetMessageBody msg) (\<lambda>data. retE (Some data)))"

fun fetch_sections :: "stored_message \<Rightarrow> body_section list \<Rightarrow> ('e, (body_section \<times> string) list) proc" where
  "fetch_sections msg [] = retE []"
| "fetch_sections msg (bs # bss) =
     bindE (read_body msg) (\<lambda>data. bindE (fetch_sections msg bss) (\<lambda>rest.
     retE (case data of None \<Rightarrow> rest | Some d \<Rightarrow> (bs, extractBodySection d bs) # rest)))"

definition fetch_one :: "fetch_options \<Rightarrow> nat \<times> stored_message \<Rightarrow> ('e, fetch_item) proc" where
  "fetch_one opt nm = (case nm of (seqNum, msg) \<Rightarrow>
     bindE (if fo_Envelope opt then read_body msg else retE None) (\<lambda>data.
     bindE (fetch_sections msg (fo_BodySection opt)) (\<lambda>secs.
     retE \<lparr>fi_Seq = seqNum, fi_UID = sm_UID msg, fi_Flags = (if fo_Flags opt then Some (sm_Flags msg) else None),
           fi_InternalDate = (if fo_InternalDate opt then Some (sm_InternalDate msg) else None),
           fi_Size = (if fo_RFC822Size opt then Some (sm_Size msg) else None),
           fi_Envelope = map_option extractEnvelope data, fi_Sections = secs\<rparr>)))"

fun fetch_loop :: "fetch_options \<Rightarrow> (nat \<times> stored_message) list \<Rightarrow> ('e, fetch_item list) proc" where
  "fetch_loop opt [] = retE []"
| "fetch_loop opt (nm # nms) =
     bindE (fetch_one opt nm) (\<lambda>item. bindE (fetch_loop opt nms) (\<lambda>items. retE (item # items)))"

definition list_all_messages :: "string \<Rightarrow> mailbox \<Rightarrow> (imap_error, stored_message list) proc" where
  "list_all_messages txt mb = mapErr (\<lambda>e. Failure (txt @ e)) (ListMessages (mb_ID mb) 0 0)"

definition Fetch_imap :: "range_order \<Rightarrow> num_set \<Rightarrow> fetch_options \<Rightarrow> imap_session \<Rightarrow> (imap_error, fetch_item list) proc" where
  "Fetch_imap ord numSet opt s =
     with_selected s (\<lambda>selected.
     bindE (list_all_messages ''failed to list messages: '' selected) (\<lambda>messages.
     fetch_loop opt (ord (filter (in_set numSet) (numbered messages)))))"

datatype store_op = StoreFlagsAdd | StoreFlagsDel | StoreFlagsSet

definition store_flags :: "(string list \<Rightarrow> string list) \<Rightarrow> store_op \<Rightarrow> int \<Rightarrow> int \<Rightarrow> string list \<Rightarrow> (string, unit) proc" where
  "store_flags ford op mailboxID uid flags =
     (case op of
        StoreFlagsAdd \<Rightarrow> UpdateFlags ford mailboxID uid flags True
      | StoreFlagsDel \<Rightarrow> UpdateFlags ford mailboxID uid flags False
      | StoreFlagsSet \<Rightarrow> SetFlags mailboxID uid flags)"

text \<open>The response of \<open>Store\<close> to one message: none when the update fails or the client wants none; without flags when reading them
  again fails.\<close>

definition store_one ::
    "(string list \<Rightarrow> string list) \<Rightarrow> store_op \<Rightarrow> bool \<Rightarrow> int \<Rightarrow> string list \<Rightarrow> nat \<times> stored_message
     \<Rightarrow> ('e, (nat \<times> string list option) list) proc" where
  "store_one ford op silent mailboxID flags nm = (case nm of (seqNum, msg) \<Rightarrow>
     onErr (\<lambda>e. retE []) (bindE (store_flags ford op mailboxID (sm_UID msg) flags) (\<lambda>_.
     if silent then retE []
     else onErr (\<lambda>e. retE [(seqNum, None)])
            (bindE (GetMessage_md mailboxID (sm_UID msg)) (\<lambda>m. retE [(seqNum, Some (sm_Flags m))])))))"

fun store_loop ::
    "(string list \<Rightarrow> string list) \<Rightarrow> store_op \<Rightarrow> bool \<Rightarrow> int \<Rightarrow> string list \<Rightarrow> (nat \<times> stored_message) list
     \<Rightarrow> ('e, (nat \<times> string list option) list) proc" where
  "store_loop ford op silent mailboxID flags [] = retE []"
| "store_loop ford op silent mailboxID flags (nm # nms) =
     bindE (store_one ford op silent mailboxID flags nm) (\<lambda>r.
     bindE (store_loop ford op silent mailboxID flags nms) (\<lambda>rs. retE (r @ rs)))"

text \<open>The flags, with the operation and whether the client wants no response, may be nil.\<close>

definition Store_imap ::
    "range_order \<Rightarrow> (string list \<Rightarrow> string list) \<Rightarrow> num_set \<Rightarrow> (store_op \<times> bool \<times> string list) option \<Rightarrow> imap_session
     \<Rightarrow> (imap_error, (nat \<times> string list option) list) proc" where
  "Store_imap ord ford numSet flags s =
     with_selected s (\<lambda>selected.
     case flags of
       None \<Rightarrow> failE (Failure ''flags cannot be nil'')
     | Some (op, silent, fs) \<Rightarrow>
         bindE (list_all_messages ''failed to list messages: '' selected) (\<lambda>messages.
         store_loop ford op silent (mb_ID selected) fs (ord (filter (in_set numSet) (numbered messages)))))"

definition uid_to_seq :: "stored_message list \<Rightarrow> int \<Rightarrow> nat option" where
  "uid_to_seq messages uid = map_of (rev (map (\<lambda>(n, m). (sm_UID m, n)) (numbered messages))) uid"

text \<open>The set of UIDs that a UID EXPUNGE names is not looked at. The numbers are those of the EXPUNGE responses.\<close>

definition Expunge_imap :: "imap_session \<Rightarrow> (imap_error, int list) proc" where
  "Expunge_imap s =
     with_selected s (\<lambda>selected.
     bindE (mapErr (\<lambda>e. Failure (''failed to expunge mailbox: '' @ e)) (ExpungeMailbox (mb_ID selected))) (\<lambda>expunged.
     onErr (\<lambda>e. retE expunged)
       (bindE (ListMessages (mb_ID selected) 0 0) (\<lambda>messages.
        retE [int n. uid \<leftarrow> expunged, n \<leftarrow> (case uid_to_seq messages uid of None \<Rightarrow> [] | Some n \<Rightarrow> [n])]))))"

text \<open>\<open>Copy\<close>: the clock and the random bytes of the key of each copy come from a supply. A message that cannot be copied is left out.\<close>

definition copy_one ::
    "unseen_fun \<Rightarrow> time \<Rightarrow> string \<Rightarrow> int \<Rightarrow> int \<Rightarrow> stored_message \<Rightarrow> ('e, (int \<times> int) list) proc" where
  "copy_one unseen now buf src dest msg =
     onErr (\<lambda>e. retE [])
       (bindE (CopyMessage unseen now buf src (sm_UID msg) dest) (\<lambda>newMsg. retE [(sm_UID msg, sm_UID newMsg)]))"

fun copy_loop ::
    "unseen_fun \<Rightarrow> (nat \<Rightarrow> time \<times> string) \<Rightarrow> int \<Rightarrow> int \<Rightarrow> (nat \<times> stored_message) list \<Rightarrow> ('e, (int \<times> int) list) proc" where
  "copy_loop unseen keys src dest [] = retE []"
| "copy_loop unseen keys src dest ((n, msg) # nms) =
     bindE (copy_one unseen (fst (keys n)) (snd (keys n)) src dest msg) (\<lambda>c.
     bindE (copy_loop unseen keys src dest nms) (\<lambda>cs. retE (c @ cs)))"

record copy_data =
  cd_UIDValidity :: int
  cd_UIDs :: "(int \<times> int) list" \<comment> \<open>source and destination\<close>

definition Copy_imap ::
    "unseen_fun \<Rightarrow> (nat \<Rightarrow> time \<times> string) \<Rightarrow> trackers \<Rightarrow> num_set \<Rightarrow> string \<Rightarrow> imap_session
     \<Rightarrow> (imap_error, copy_data \<times> (int \<times> nat) option) proc" where
  "Copy_imap unseen keys ts numSet dest s =
     with_selected s (\<lambda>selected. with_user s (\<lambda>u.
     bindE (get_mailbox ''TRYCREATE'' ''Destination mailbox not found'' u dest) (\<lambda>destMb.
     bindE (list_all_messages ''failed to list messages: '' selected) (\<lambda>messages.
     bindE (copy_loop unseen keys (mb_ID selected) (mb_ID destMb) (filter (in_set numSet) (numbered messages))) (\<lambda>uids.
     bindE (NotifyMailboxUpdate ts (mb_ID destMb)) (\<lambda>note.
     retE (\<lparr>cd_UIDValidity = mb_UIDValidity destMb, cd_UIDs = uids\<rparr>, note)))))))"

record imap_criteria =
  ic_Since :: "time option"
  ic_Before :: "time option"
  ic_Flag :: "string list"
  ic_NotFlag :: "string list"

definition convert_criteria :: "imap_criteria option \<Rightarrow> search_criteria" where
  "convert_criteria criteria =
     (case criteria of
        None \<Rightarrow> \<lparr>sc_Since = None, sc_Before = None, sc_From = [], sc_To = [], sc_Subject = [], sc_Flags = [], sc_NotFlags = [],
                 sc_Larger = 0, sc_Smaller = 0\<rparr>
      | Some c \<Rightarrow> \<lparr>sc_Since = ic_Since c, sc_Before = ic_Before c, sc_From = [], sc_To = [], sc_Subject = [],
                   sc_Flags = ic_Flag c, sc_NotFlags = ic_NotFlag c, sc_Larger = 0, sc_Smaller = 0\<rparr>)"

datatype search_data = FoundUIDs "int list" | FoundSeqs "nat list"

definition Search_imap :: "bool \<Rightarrow> imap_criteria option \<Rightarrow> imap_session \<Rightarrow> (imap_error, search_data) proc" where
  "Search_imap byUID criteria s =
     with_selected s (\<lambda>selected.
     bindE (mapErr (\<lambda>e. Failure (''failed to search messages: '' @ e)) (SearchMessages (mb_ID selected) (Some (convert_criteria criteria)))) (\<lambda>uids.
     if byUID then retE (FoundUIDs uids)
     else bindE (list_all_messages ''failed to list messages for seq conversion: '' selected) (\<lambda>messages.
          retE (FoundSeqs [n. uid \<leftarrow> uids, n \<leftarrow> (case uid_to_seq messages uid of None \<Rightarrow> [] | Some n \<Rightarrow> [n])]))))"


section \<open>What a user's commands leave alone\<close>

definition user_dir :: "int \<Rightarrow> string" where
  "user_dir u = ''user_'' @ show_int u"

definition foreign :: "int \<Rightarrow> world \<Rightarrow> mailbox list" where
  "foreign u w = [mb \<leftarrow> w_mailboxes w. mb_UserID mb \<noteq> u]"

definition foreign_ids :: "int \<Rightarrow> world \<Rightarrow> int set" where
  "foreign_ids u w = mb_ID ` set (foreign u w)"

definition foreign_rows :: "int \<Rightarrow> world \<Rightarrow> msg_row list" where
  "foreign_rows u w = [m \<leftarrow> w_messages w. mr_mailbox_id m \<in> foreign_ids u w]"

definition name_below :: "string \<Rightarrow> bool" where
  "name_below n \<longleftrightarrow> ReplaceAll n ''/'' ''.'' \<noteq> ''..''"

text \<open>The state of the tables and names in which the user \<open>u\<close> works on the mailboxes \<open>I\<close>.\<close>

definition tenancy :: "int \<Rightarrow> int set \<Rightarrow> world \<Rightarrow> bool" where
  "tenancy u I w \<longleftrightarrow> distinct (map mb_ID (w_mailboxes w)) \<and> (\<forall>mb\<in>set (w_mailboxes w). mb_ID mb \<le> w_mailbox_seq w) \<and>
     (\<forall>mb\<in>set (w_mailboxes w). mb_UserID mb = u \<longrightarrow> name_below (mb_Name mb)) \<and> distinct (map fst (w_files w)) \<and>
     I \<inter> foreign_ids u w = {}"

definition frame :: "int \<Rightarrow> int set \<Rightarrow> world \<Rightarrow> world \<Rightarrow> bool" where
  "frame u I w w' \<longleftrightarrow> tenancy u I w \<longrightarrow>
     tenancy u I w' \<and> foreign u w' = foreign u w \<and> foreign_rows u w' = foreign_rows u w \<and>
     (\<forall>d k. \<not> prefix [user_dir u] d \<longrightarrow> bodies d k (w_files w') = bodies d k (w_files w))"

lemma frame_same: "same_world w w' \<Longrightarrow> frame u I w w'"
  by (simp add: frame_def tenancy_def foreign_def foreign_rows_def foreign_ids_def same_worldD)

lemma frame_trans: "frame u I w w1 \<Longrightarrow> frame u I w1 w2 \<Longrightarrow> frame u I w w2"
  by (simp add: frame_def)

interpretation fr: step_rel "frame u I"
  by unfold_locales (rule frame_same, assumption, rule frame_trans)

named_theorems frame_intros

lemmas frame_rules [frame_intros] = fr.retE fr.failE fr.readE fr.bindE fr.onErr fr.mapErr fr.ignoreE fr.execE fr.tryE

lemma frame_not_tenancy: "\<not> tenancy u I w \<Longrightarrow> frame u I w w'"
  by (simp add: frame_def)

lemma frame_insert: "frame u (insert i I) w w' \<Longrightarrow> i \<notin> foreign_ids u w \<Longrightarrow> frame u I w w'"
  by (auto simp: frame_def tenancy_def)

text \<open>Files below the directory of the user.\<close>

definition my_path :: "int \<Rightarrow> path \<Rightarrow> bool" where
  "my_path u p \<longleftrightarrow> prefix [user_dir u] p"

lemma user_dir_not_sub: "user_dir u \<noteq> ''cur''" "user_dir u \<noteq> ''new''"
  by (simp_all add: user_dir_def)

lemma my_path_append: "my_path u p \<Longrightarrow> my_path u (p @ q)"
  by (auto simp: my_path_def prefix_def)

lemma my_path_not_hit:
  assumes "my_path u p" "\<not> prefix [user_dir u] d"
  shows "\<not> hit d k p"
proof
  assume "hit d k p"
  then obtain s n where p: "p = d @ [s, n]" "s = ''cur'' \<or> s = ''new''" by (auto simp: hit_def in_msg_dir_def)
  show False
  proof (cases d)
    case Nil
    then show False using assms(1) p user_dir_not_sub by (auto simp: my_path_def)
  next
    case (Cons x xs)
    then show False using assms p by (auto simp: my_path_def)
  qed
qed

lemma frame_files:
  assumes "distinct (map fst (w_files w)) \<Longrightarrow> distinct (map fst fs)"
    "\<And>d k. distinct (map fst (w_files w)) \<Longrightarrow> \<not> prefix [user_dir u] d \<Longrightarrow> bodies d k fs = bodies d k (w_files w)"
  shows "frame u I w (w\<lparr>w_files := fs\<rparr>)"
  using assms by (simp add: frame_def tenancy_def foreign_def foreign_rows_def foreign_ids_def)

lemma frame_dirs: "frame u I w (w\<lparr>w_dirs := ds\<rparr>)"
  by (simp add: frame_def tenancy_def foreign_def foreign_rows_def foreign_ids_def)

lemma frame_update: "my_path u p \<Longrightarrow> frame u I w (w\<lparr>w_files := AList.update p c (w_files w)\<rparr>)"
  by (rule frame_files) (simp_all add: distinct_update bodies_update_miss my_path_not_hit)

lemma frame_delete: "my_path u p \<Longrightarrow> frame u I w (w\<lparr>w_files := AList.delete p (w_files w)\<rparr>)"
  by (rule frame_files) (simp_all add: distinct_delete bodies_delete_miss my_path_not_hit)

lemma frame_move:
  "my_path u p \<Longrightarrow> my_path u q \<Longrightarrow> frame u I w (w\<lparr>w_files := AList.update q c (AList.delete p (w_files w))\<rparr>)"
  by (rule frame_files) (simp_all add: distinct_update distinct_delete bodies_update_miss bodies_delete_miss my_path_not_hit)

lemma frame_os [frame_intros]:
  "stepsM (frame u I) (os_MkdirAll p)"
  "my_path u p \<Longrightarrow> stepsM (frame u I) (os_Remove_file p)"
  "my_path u p \<Longrightarrow> my_path u q \<Longrightarrow> stepsM (frame u I) (os_Rename_file p q)"
  "my_path u p \<Longrightarrow> stepsM (frame u I) (open_excl p)"
  unfolding os_MkdirAll_def os_Remove_file_def os_Rename_file_def open_excl_def
  by (intro frame_intros; auto intro!: frame_dirs frame_delete frame_update frame_move split: if_splits option.splits)+

lemma frame_write_sync [frame_intros]: "my_path u p \<Longrightarrow> stepsM (frame u I) (write_sync p body)"
  unfolding write_sync_def by (cases body) (auto intro!: frame_intros frame_update)

lemma frame_small [frame_intros]:
  "stepsM (frame u I) (ensureMaildir p)" "my_path u p \<Longrightarrow> stepsM (frame u I) (cleanup_fail p e)"
  "stepsM (frame u I) (os_Open p)" "stepsM (frame u I) (os_Stat_ok p)" "stepsM (frame u I) (GetMailboxByID i)"
  "stepsM (frame u I) (GetMailbox v n)" "stepsM (frame u I) (ListMailboxes v)" "stepsM (frame u I) (ListMessages i a b)"
  "stepsM (frame u I) (SearchMessages i cr)" "stepsM (frame u I) (GetMessage_md i uid)"
  "my_path u p \<Longrightarrow> stepsM (frame u I) (remove_both p k)"
  unfolding ensureMaildir_def cleanup_fail_def os_Open_def os_Stat_ok_def GetMailboxByID_def GetMailbox_def ListMailboxes_def
    ListMessages_def SearchMessages_def scan_mailbox_def GetMessage_md_def remove_both_def
  by (auto intro!: frame_intros my_path_append split: option.split)

lemma frame_users: "frame u I w (w\<lparr>w_users := us\<rparr>)"
  by (simp add: frame_def tenancy_def foreign_def foreign_rows_def foreign_ids_def)

lemma frame_quota [frame_intros]: "stepsM (frame u I) (UpdateUserQuota v d)"
  unfolding UpdateUserQuota_def by (intro frame_intros) (simp add: frame_users)

lemma frame_lists [frame_intros]:
  "stepsM (frame u I) (first_open ps)" "stepsM (frame u I) (scan_dirs p k ds)" "my_path u p \<Longrightarrow> stepsM (frame u I) (remove_files p ks)"
proof -
  show 1: "stepsM (frame u I) (first_open ps)" for ps by (induction ps) (auto intro: frame_intros)
  show "stepsM (frame u I) (scan_dirs p k ds)" by (induction ds) (auto intro: frame_intros 1)
  show "my_path u p \<Longrightarrow> stepsM (frame u I) (remove_files p ks)" by (induction ks) (auto intro: frame_intros)
qed

lemma frame_GetMessageBody [frame_intros]: "stepsM (frame u I) (GetMessageBody msg)"
  unfolding GetMessageBody_def Let_def by (intro frame_intros)

lemma frame_stats [frame_intros]: "stepsM (frame u I) (GetMailboxStats i)"
  unfolding GetMailboxStats_def by (intro frame_intros)


lemma foreign_map:
  assumes "\<And>mb. mb_ID (g mb) = mb_ID mb \<and> mb_UserID (g mb) = mb_UserID mb" "\<And>mb. mb_UserID mb \<noteq> u \<Longrightarrow> mb \<in> set mbs \<Longrightarrow> g mb = mb"
  shows "[mb \<leftarrow> map g mbs. mb_UserID mb \<noteq> u] = [mb \<leftarrow> mbs. mb_UserID mb \<noteq> u]"
  using assms(2)
proof (induction mbs)
  case (Cons a mbs)
  then show ?case using assms(1) [of a] by auto
qed simp

text \<open>Changes to mailboxes of the user.\<close>

lemma frame_mailboxes:
  assumes g: "\<And>mb. mb_ID (g mb) = mb_ID mb \<and> mb_UserID (g mb) = mb_UserID mb"
    and own: "\<And>mb. tenancy u I w \<Longrightarrow> mb \<in> set (w_mailboxes w) \<Longrightarrow> mb_UserID mb \<noteq> u \<Longrightarrow> g mb = mb"
    and name: "\<And>mb. name_below (mb_Name mb) \<Longrightarrow> name_below (mb_Name (g mb))"
  shows "frame u I w (w\<lparr>w_mailboxes := map g (w_mailboxes w)\<rparr>)"
  unfolding frame_def
proof
  assume t: "tenancy u I w"
  have f: "foreign u (w\<lparr>w_mailboxes := map g (w_mailboxes w)\<rparr>) = foreign u w"
    using foreign_map [of g u "w_mailboxes w"] g own [OF t] by (simp add: foreign_def)
  have ids: "map mb_ID (map g (w_mailboxes w)) = map mb_ID (w_mailboxes w)" using g by simp
  have "tenancy u I (w\<lparr>w_mailboxes := map g (w_mailboxes w)\<rparr>)"
    using t g name unfolding tenancy_def foreign_ids_def f by (simp add: ids del: map_map)
  then show "tenancy u I (w\<lparr>w_mailboxes := map g (w_mailboxes w)\<rparr>) \<and>
    foreign u (w\<lparr>w_mailboxes := map g (w_mailboxes w)\<rparr>) = foreign u w \<and>
    foreign_rows u (w\<lparr>w_mailboxes := map g (w_mailboxes w)\<rparr>) = foreign_rows u w \<and>
    (\<forall>d k. \<not> prefix [user_dir u] d \<longrightarrow> bodies d k (w_files (w\<lparr>w_mailboxes := map g (w_mailboxes w)\<rparr>)) = bodies d k (w_files w))"
    by (simp add: f foreign_rows_def foreign_ids_def)
qed

lemma owned:
  assumes "tenancy u I w" "i \<in> I" "mb \<in> set (w_mailboxes w)" "mb_ID mb = i"
  shows "mb_UserID mb = u"
  using assms by (auto simp: tenancy_def foreign_ids_def foreign_def)

lemma frame_bump: "i \<in> I \<Longrightarrow> frame u I w (fst (bump_uidnext i w))"
  unfolding bump_uidnext_def fst_conv by (rule frame_mailboxes) (auto dest: owned)

text \<open>Changes to messages of these mailboxes.\<close>

lemma frame_messages:
  assumes "tenancy u I w \<Longrightarrow> [m \<leftarrow> ms. mr_mailbox_id m \<in> foreign_ids u w] = foreign_rows u w"
  shows "frame u I w (w\<lparr>w_messages := ms\<rparr>)"
  using assms by (simp add: frame_def tenancy_def foreign_rows_def foreign_ids_def foreign_def)

lemma frame_update_row: "i \<in> I \<Longrightarrow> (\<And>m. mr_mailbox_id (f m) = mr_mailbox_id m) \<Longrightarrow> frame u I w (update_row i uid f w)"
proof -
  assume i: "i \<in> I" and f: "\<And>m. mr_mailbox_id (f m) = mr_mailbox_id m"
  have "[m \<leftarrow> map (\<lambda>m. if mr_mailbox_id m = i \<and> mr_uid m = uid then f m else m) ms. mr_mailbox_id m \<in> F] =
      [m \<leftarrow> ms. mr_mailbox_id m \<in> F]" if "i \<notin> F" for F ms
    using that f by (induction ms) auto
  moreover have "tenancy u I w \<Longrightarrow> i \<notin> foreign_ids u w" using i by (auto simp: tenancy_def)
  ultimately show ?thesis unfolding update_row_def by (intro frame_messages) (simp add: foreign_rows_def)
qed

lemma frame_filter_rows:
  assumes "\<And>m. tenancy u I w \<Longrightarrow> mr_mailbox_id m \<in> foreign_ids u w \<Longrightarrow> P m"
  shows "frame u I w (w\<lparr>w_messages := filter P (w_messages w)\<rparr>)"
  using assms by (intro frame_messages) (auto simp: foreign_rows_def intro: filter_cong)

lemma frame_insert_message: "i \<in> I \<Longrightarrow> insert_message i uid k sz date f now w = Inr (w', x) \<Longrightarrow> frame u I w w'"
proof -
  assume i: "i \<in> I" and r: "insert_message i uid k sz date f now w = Inr (w', x)"
  let ?m = "\<lparr>mr_id = w_message_seq w + 1, mr_mailbox_id = i, mr_uid = uid, mr_maildir_key = k, mr_size = sz, mr_internal_date = date,
    mr_flags = f, mr_subject = None, mr_from_address = None, mr_to_addresses = None, mr_created_at = now\<rparr>"
  from r have w': "w' = w\<lparr>w_message_seq := w_message_seq w + 1, w_messages := w_messages w @ [?m]\<rparr>"
    by (auto simp: insert_message_def Let_def split: if_splits)
  have "tenancy u I w \<Longrightarrow> i \<notin> foreign_ids u w" using i by (auto simp: tenancy_def)
  then show ?thesis unfolding w' by (simp add: frame_def tenancy_def foreign_rows_def foreign_ids_def foreign_def)
qed

lemma path_below: "mb_UserID mb = u \<Longrightarrow> name_below (mb_Name mb) \<Longrightarrow> my_path u (mb_path mb)"
  by (auto simp: my_path_def mb_path_def getUserMaildirPath_def user_dir_def name_below_def Let_def)

lemma frame_found:
  assumes "i \<in> I" "GetMailboxByID i w = (w1, Inr mb)"
    and f: "\<And>mb. mb_UserID mb = u \<Longrightarrow> my_path u (mb_path mb) \<Longrightarrow> stepsM (frame u I) (f mb)"
  shows "frame u I w (fst (f mb w1))"
proof (cases "tenancy u I w")
  case True
  have r: "same_world w w1" "find (\<lambda>mb. mb_ID mb = i) (w_mailboxes w) = Some mb" using GetMailboxByID_Inr [OF assms(2)] by auto
  then have mb: "mb \<in> set (w_mailboxes w)" "mb_ID mb = i" by (auto simp: find_Some_iff)
  have u: "mb_UserID mb = u" by (rule owned [OF True assms(1) mb])
  have "name_below (mb_Name mb)" using True mb(1) u by (simp add: tenancy_def)
  then have "stepsM (frame u I) (f mb)" by (intro f u path_below)
  then have "frame u I w1 (fst (f mb w1))" by (simp add: stepsM_def)
  with frame_same [OF r(1)] show ?thesis by (rule frame_trans)
qed (rule frame_not_tenancy)

lemma frame_bind_mailbox:
  assumes "i \<in> I" "\<And>mb. mb_UserID mb = u \<Longrightarrow> my_path u (mb_path mb) \<Longrightarrow> stepsM (frame u I) (f mb)"
  shows "stepsM (frame u I) (bindE (GetMailboxByID i) f)"
  unfolding stepsM_def
proof
  fix w
  have q: "stepsM (frame u I) (GetMailboxByID i)" by (intro frame_intros)
  obtain w1 r where r: "GetMailboxByID i w = (w1, r)" by fastforce
  show "frame u I w (fst (bindE (GetMailboxByID i) f w))"
  proof (cases r)
    case (Inl e)
    then show ?thesis using stepsM_D [OF q r] r by (simp add: runE)
  next
    case (Inr mb)
    have "frame u I w (fst (f mb w1))" by (rule frame_found [OF assms(1) r [unfolded Inr]]) (rule assms(2))
    then show ?thesis using r Inr by (simp add: runE)
  qed
qed

lemma frame_bind_mailbox_err:
  assumes "i \<in> I" "\<And>mb. mb_UserID mb = u \<Longrightarrow> my_path u (mb_path mb) \<Longrightarrow> stepsM (frame u I) (f mb)"
  shows "stepsM (frame u I) (bindE (mapErr h (GetMailboxByID i)) f)"
  unfolding stepsM_def
proof
  fix w
  have q: "stepsM (frame u I) (GetMailboxByID i)" by (intro frame_intros)
  obtain w1 r where r: "GetMailboxByID i w = (w1, r)" by fastforce
  show "frame u I w (fst (bindE (mapErr h (GetMailboxByID i)) f w))"
  proof (cases r)
    case (Inl e)
    then show ?thesis using stepsM_D [OF q r] r by (simp add: runE)
  next
    case (Inr mb)
    have "frame u I w (fst (f mb w1))" by (rule frame_found [OF assms(1) r [unfolded Inr]]) (rule assms(2))
    then show ?thesis using r Inr by (simp add: runE)
  qed
qed

lemma frame_append_file [frame_intros]: "my_path u p \<Longrightarrow> stepsM (frame u I) (append_file p key flags body)"
  unfolding append_file_def Let_def by (intro frame_intros my_path_append)

lemma append_file_dest:
  assumes "append_file p key flags body w = (w', Inr (dest, sz))"
  shows "dest = p @ [dest_dir flags, with_flags key flags]"
  using assms by (auto simp: append_file_def Let_def bindE_Inr)

lemma frame_append_rows: "i \<in> I \<Longrightarrow> my_path u dest \<Longrightarrow> stepsM (frame u I) (append_rows i mb fk flags date now dest sz)"
  unfolding append_rows_def
  by (auto intro!: frame_intros frame_bump intro: frame_insert_message)

lemma frame_unseen:
  assumes "maildir_lib unseen"
  shows "frame u I w (w\<lparr>w_files := unseen p (w_files w)\<rparr>)"
  using assms by (intro frame_files) (simp_all add: maildir_lib.unseen_bodies maildir_lib.unseen_distinct)

lemma frame_append_tail:
  assumes "maildir_lib unseen" "i \<in> I" "my_path u p"
  shows "stepsM (frame u I) (bindE (append_file p key flags body) (\<lambda>(destPath, sz).
    bindE (append_rows i mb fk flags date now destPath sz) (\<lambda>msgID. bindE (ignoreE (UpdateUserQuota v sz)) (\<lambda>_.
    bindE (ignoreE (execE (\<lambda>w. (w\<lparr>w_files := unseen p (w_files w)\<rparr>, ())))) (\<lambda>_. retE (res msgID sz))))))"
  unfolding stepsM_def
proof
  fix w
  let ?tail = "\<lambda>destPath sz. bindE (append_rows i mb fk flags date now destPath sz) (\<lambda>msgID. bindE (ignoreE (UpdateUserQuota v sz)) (\<lambda>_.
    bindE (ignoreE (execE (\<lambda>w. (w\<lparr>w_files := unseen p (w_files w)\<rparr>, ())))) (\<lambda>_. retE (res msgID sz))))"
  obtain w1 r where r: "append_file p key flags body w = (w1, r)" by fastforce
  have 1: "frame u I w w1" using stepsM_D [OF frame_append_file [OF assms(3)] r] .
  have t: "stepsM (frame u I) (?tail dest sz)" if "my_path u dest" for dest sz
    by (intro frame_intros frame_append_rows assms that) (simp add: frame_unseen [OF assms(1)])
  show "frame u I w (fst (bindE (append_file p key flags body) (\<lambda>(destPath, sz). ?tail destPath sz) w))"
  proof (cases r)
    case (Inl e)
    then show ?thesis using 1 r by (simp add: runE)
  next
    case (Inr x)
    obtain dest sz where x: "x = (dest, sz)" by fastforce
    have "my_path u dest" using append_file_dest [OF r [unfolded Inr x]] my_path_append [OF assms(3)] by simp
    from t [OF this, of sz] have "frame u I w1 (fst (?tail dest sz w1))" by (simp only: stepsM_def)
    with 1 have "frame u I w (fst (?tail dest sz w1))" by (rule frame_trans)
    then show ?thesis using r Inr x by (simp add: runE)
  qed
qed

lemma frame_AppendMessage:
  assumes "maildir_lib unseen" "i \<in> I"
  shows "stepsM (frame u I) (AppendMessage unseen now buf i flags date body)"
  unfolding AppendMessage_def Let_def by (intro frame_bind_mailbox_err frame_append_tail assms)

lemma frame_SetFlags:
  assumes "i \<in> I"
  shows "stepsM (frame u I) (SetFlags i uid flags)"
  unfolding SetFlags_def flags_to_file_def rename_flags_def Let_def
  by (auto intro!: frame_intros frame_bind_mailbox frame_update_row my_path_append assms)

lemma frame_UpdateFlags: "i \<in> I \<Longrightarrow> stepsM (frame u I) (UpdateFlags ord i uid flags add)"
  unfolding UpdateFlags_def by (intro frame_intros frame_SetFlags)

lemma frame_CopyMessage: "maildir_lib unseen \<Longrightarrow> j \<in> I \<Longrightarrow> stepsM (frame u I) (CopyMessage unseen now buf i uid j)"
  unfolding CopyMessage_def by (intro frame_intros frame_AppendMessage)

lemma frame_ExpungeMailbox: "i \<in> I \<Longrightarrow> stepsM (frame u I) (ExpungeMailbox i)"
proof -
  assume i: "i \<in> I"
  have "frame u I w (w\<lparr>w_messages := [m \<leftarrow> w_messages w. \<not> (mr_mailbox_id m = i \<and> is_deleted m)]\<rparr>)" for w
    by (rule frame_filter_rows) (use i in \<open>auto simp: tenancy_def\<close>)
  then show ?thesis unfolding ExpungeMailbox_def by (auto intro!: frame_intros frame_bind_mailbox i)
qed


lemma frame_bind_ids:
  assumes "stepsM (frame u I) m" "\<And>w w1 x. m w = (w1, Inr x) \<Longrightarrow> tenancy u I w \<Longrightarrow> ids x \<inter> foreign_ids u w1 = {}"
    "\<And>x. stepsM (frame u (ids x \<union> I)) (f x)"
  shows "stepsM (frame u I) (bindE m f)"
  unfolding stepsM_def
proof
  fix w
  obtain w1 r where r: "m w = (w1, r)" by fastforce
  have 1: "frame u I w w1" using stepsM_D [OF assms(1) r] .
  show "frame u I w (fst (bindE m f w))"
  proof (cases r)
    case (Inl e)
    then show ?thesis using 1 r by (simp add: runE)
  next
    case (Inr x)
    have 2: "frame u (ids x \<union> I) w1 (fst (f x w1))" using assms(3) by (simp add: stepsM_def)
    show ?thesis
    proof (cases "tenancy u I w")
      case True
      then have "ids x \<inter> foreign_ids u w1 = {}" using assms(2) r Inr by blast
      then have "frame u I w1 (fst (f x w1))" using 2 unfolding frame_def tenancy_def by auto
      with 1 have "frame u I w (fst (f x w1))" by (rule frame_trans)
      then show ?thesis using r Inr by (simp add: runE)
    qed (rule frame_not_tenancy)
  qed
qed

lemma frame_delete_rows:
  assumes "i \<in> I"
  shows "frame u I w (delete_mailbox_rows i w)"
  unfolding frame_def
proof
  assume t: "tenancy u I w"
  then have i: "i \<notin> foreign_ids u w" using assms by (auto simp: tenancy_def)
  have f: "foreign u (delete_mailbox_rows i w) = foreign u w"
    using i by (auto simp: foreign_def delete_mailbox_rows_def foreign_ids_def intro: filter_cong)
  moreover have "foreign_rows u (delete_mailbox_rows i w) = foreign_rows u w"
    using i unfolding foreign_rows_def foreign_ids_def f by (auto simp: delete_mailbox_rows_def intro: filter_cong)
  moreover have "tenancy u I (delete_mailbox_rows i w)"
    using t unfolding tenancy_def foreign_ids_def f by (simp add: delete_mailbox_rows_def distinct_map_filter)
  ultimately show "tenancy u I (delete_mailbox_rows i w) \<and> foreign u (delete_mailbox_rows i w) = foreign u w \<and>
    foreign_rows u (delete_mailbox_rows i w) = foreign_rows u w \<and>
    (\<forall>d k. \<not> prefix [user_dir u] d \<longrightarrow> bodies d k (w_files (delete_mailbox_rows i w)) = bodies d k (w_files w))"
    by (simp add: delete_mailbox_rows_def)
qed

lemma insert_mailbox_Inr:
  assumes "insert_mailbox v n val s now w = Inr (w', i)"
  shows "i = w_mailbox_seq w + 1 \<and> w' = w\<lparr>w_mailbox_seq := i, w_mailboxes := w_mailboxes w @ [\<lparr>mb_ID = i, mb_UserID = v, mb_Name = n,
    mb_UIDValidity = val, mb_UIDNext = 1, mb_SpecialUse = s, mb_Subscribed = True, mb_CreatedAt = now\<rparr>]\<rparr>"
  using assms by (auto simp: insert_mailbox_def Let_def split: if_splits)

lemma frame_insert_mailbox:
  assumes "insert_mailbox u n val s now w = Inr (w', i)" "name_below n"
  shows "frame u I w w'" "tenancy u I w \<Longrightarrow> i \<notin> foreign_ids u w'"
proof -
  note w' = insert_mailbox_Inr [OF assms(1)]
  have f: "foreign u w' = foreign u w" using w' by (simp add: foreign_def)
  show "frame u I w w'"
    unfolding frame_def
  proof
    assume t: "tenancy u I w"
    have m: "w_mailboxes w' = w_mailboxes w @ [\<lparr>mb_ID = i, mb_UserID = u, mb_Name = n, mb_UIDValidity = val, mb_UIDNext = 1,
      mb_SpecialUse = s, mb_Subscribed = True, mb_CreatedAt = now\<rparr>]" "w_mailbox_seq w' = i" "w_files w' = w_files w" using w' by simp_all
    have "i \<notin> mb_ID ` set (w_mailboxes w)" "\<forall>mb\<in>set (w_mailboxes w). mb_ID mb \<le> i" using t w' by (force simp: tenancy_def)+
    then have "tenancy u I w'" using t assms(2) unfolding tenancy_def foreign_ids_def f m by simp
    then show "tenancy u I w' \<and> foreign u w' = foreign u w \<and> foreign_rows u w' = foreign_rows u w \<and>
      (\<forall>d k. \<not> prefix [user_dir u] d \<longrightarrow> bodies d k (w_files w') = bodies d k (w_files w))"
      using f w' by (simp add: foreign_rows_def foreign_ids_def)
  qed
  show "i \<notin> foreign_ids u w'" if "tenancy u I w"
    using that w' unfolding foreign_ids_def f by (force simp: tenancy_def foreign_def)
qed

lemma frame_CreateMailbox:
  assumes "name_below n"
  shows "stepsM (frame u I) (CreateMailbox u n s now)"
  unfolding CreateMailbox_def Let_def
proof (rule frame_bind_ids [where ids = "\<lambda>i. {i}"])
  let ?ins = "insert_mailbox u n ((now div Second) mod 2 ^ 32) s now"
  show "stepsM (frame u I) (mapErr ((@) ''failed to create mailbox: '') (tryE ?ins))"
    by (intro frame_intros) (rule frame_insert_mailbox [OF _ assms])
  show "{i} \<inter> foreign_ids u w1 = {}" if "mapErr ((@) ''failed to create mailbox: '') (tryE ?ins) w = (w1, Inr i)" "tenancy u I w" for w w1 i
  proof -
    from that(1) obtain w0 where "same_world w w0" "?ins w0 = Inr (w1, i)" by (auto dest!: tryE_Inr)
    moreover from this(1) that(2) have "tenancy u I w0"
      by (simp add: tenancy_def foreign_ids_def foreign_def same_worldD)
    ultimately show ?thesis using frame_insert_mailbox(2) [OF _ assms] by auto
  qed
qed (intro frame_intros; simp add: frame_delete_rows)+

lemma frame_remove_all:
  assumes "my_path u p"
  shows "stepsM (frame u I) (os_RemoveAll p)"
proof -
  have "frame u I w (w\<lparr>w_files := [f \<leftarrow> w_files w. \<not> prefix p (fst f)]\<rparr>)" for w
  proof (rule frame_files)
    fix d k
    assume d: "\<not> prefix [user_dir u] d"
    have "\<not> prefix p (fst f)" if "hit d k (fst f)" for f
      using that my_path_not_hit [OF _ d] assms by (auto simp: my_path_def dest: prefix_order.trans)
    then have "filter (\<lambda>f. hit d k (fst f)) [f \<leftarrow> w_files w. \<not> prefix p (fst f)] = [f \<leftarrow> w_files w. hit d k (fst f)]"
      by (auto intro: filter_cong)
    then show "bodies d k [f \<leftarrow> w_files w. \<not> prefix p (fst f)] = bodies d k (w_files w)" by (simp only: bodies_def)
  qed (simp add: distinct_map_filter)
  then have "frame u I w (w\<lparr>w_files := [f \<leftarrow> w_files w. \<not> prefix p (fst f)], w_dirs := ds\<rparr>)" for w ds
    using frame_trans frame_dirs by blast
  then show ?thesis unfolding os_RemoveAll_def by (intro frame_intros) simp
qed


lemma frame_DeleteMailbox:
  assumes "name_below n"
  shows "stepsM (frame u I) (DeleteMailbox u n)"
  unfolding DeleteMailbox_def
proof (rule frame_bind_ids [where ids = "\<lambda>row. case row of None \<Rightarrow> {} | Some mb \<Rightarrow> {mb_ID mb}"])
  let ?find = "\<lambda>w. find (\<lambda>mb. mb_UserID mb = u \<and> mb_Name mb = n) (w_mailboxes w)"
  show "stepsM (frame u I) (mapErr (\<lambda>e. ''mailbox not found'') (readE ?find))" by (intro frame_intros)
  show "(case row of None \<Rightarrow> {} | Some mb \<Rightarrow> {mb_ID mb}) \<inter> foreign_ids u w1 = {}"
    if "mapErr (\<lambda>e. ''mailbox not found'') (readE ?find) w = (w1, Inr row)" "tenancy u I w" for w w1 row
  proof -
    from that(1) have r: "same_world w w1" "row = ?find w" by (auto dest!: readE_Inr simp: same_worldD)
    have "mb_ID mb \<notin> foreign_ids u w1" if mb: "?find w = Some mb" for mb
    proof
      assume "mb_ID mb \<in> foreign_ids u w1"
      then obtain mb' where mb': "mb' \<in> set (w_mailboxes w)" "mb_ID mb' = mb_ID mb" "mb_UserID mb' \<noteq> u"
        using r(1) by (auto simp: foreign_ids_def foreign_def same_worldD)
      have "mb \<in> set (w_mailboxes w)" "mb_UserID mb = u" using mb by (auto simp: find_Some_iff)
      with mb' \<open>tenancy u I w\<close> show False
        using inj_onD [of mb_ID "set (w_mailboxes w)" mb mb'] by (auto simp: tenancy_def distinct_map)
    qed
    then show ?thesis using r(2) by (simp split: option.split)
  qed
  have p: "my_path u (getUserMaildirPath u n)"
    using assms by (auto simp: my_path_def getUserMaildirPath_def user_dir_def name_below_def Let_def)
  show "stepsM (frame u ((case row of None \<Rightarrow> {} | Some mb \<Rightarrow> {mb_ID mb}) \<union> I))
    (case row of None \<Rightarrow> failE ''mailbox not found''
     | Some mb \<Rightarrow> bindE (execE (\<lambda>w. (delete_mailbox_rows (mb_ID mb) w, ())))
         (\<lambda>_. mapErr (\<lambda>e. ''failed to remove maildir: '' @ e) (os_RemoveAll (getUserMaildirPath u n))))" for row
    by (cases row) (auto intro!: frame_intros frame_delete_rows frame_remove_all p)
qed

lemma frame_SubscribeMailbox: "stepsM (frame u I) (SubscribeMailbox u n b)"
  unfolding SubscribeMailbox_def by (intro frame_intros) (auto intro!: frame_mailboxes)

lemma frame_set_name:
  assumes "set_mailbox_name u old new w = Inr (w', x)" "name_below new"
  shows "frame u I w w'"
proof -
  have "w' = w\<lparr>w_mailboxes := map (\<lambda>mb. if mb_UserID mb = u \<and> mb_Name mb = old then mb\<lparr>mb_Name := new\<rparr> else mb) (w_mailboxes w)\<rparr>"
    using assms(1) by (auto simp: set_mailbox_name_def Let_def split: if_splits)
  then show ?thesis using assms(2) by (auto intro!: frame_mailboxes)
qed

lemma move_path_distinct:
  assumes "distinct ps" "\<And>p. p \<in> set ps \<Longrightarrow> \<not> prefix new p"
  shows "distinct (map (move_path old new) ps)"
proof -
  have "inj_on (move_path old new) (set ps)"
  proof (rule inj_onI)
    fix p q
    assume pq: "p \<in> set ps" "q \<in> set ps" "move_path old new p = move_path old new q"
    then show "p = q"
      using assms(2) [OF pq(1)] assms(2) [OF pq(2)]
      by (cases "prefix old p"; cases "prefix old q") (auto simp: move_path_def prefix_def)
  qed
  then show ?thesis using assms(1) by (simp add: distinct_map)
qed

lemma bodies_rename: "(\<And>p. hit d k (g p) = hit d k p) \<Longrightarrow> bodies d k (map (\<lambda>(p, c). (g p, c)) fs) = bodies d k fs"
  by (induction fs) (auto simp del: hit_iff)

lemma frame_Rename_dir:
  assumes "my_path u old" "my_path u new" "os_Rename_dir old new w = (w', r)"
  shows "frame u I w w'"
proof -
  obtain w1 f where n: "Mail_World.next_fault w = (w1, f)" by fastforce
  have s: "frame u I w w1" using frame_same [OF next_fault_same [OF n]] .
  have mv: "frame u I w1 (w1\<lparr>w_dirs := ds, w_files := map (\<lambda>(p, c). (move_path old new p, c)) (w_files w1)\<rparr>)"
    if no: "\<not> list_ex (\<lambda>f. prefix new (fst f)) (w_files w1)" for ds
  proof -
    have "frame u I w1 (w1\<lparr>w_files := map (\<lambda>(p, c). (move_path old new p, c)) (w_files w1)\<rparr>)"
    proof (rule frame_files)
      have e: "map fst (map (\<lambda>(p, c). (move_path old new p, c)) (w_files w1)) = map (move_path old new) (map fst (w_files w1))" by auto
      show "distinct (map fst (map (\<lambda>(p, c). (move_path old new p, c)) (w_files w1)))" if "distinct (map fst (w_files w1))"
        unfolding e by (rule move_path_distinct [OF that]) (use no in \<open>auto simp: list_ex_iff\<close>)
      fix d k
      assume d: "\<not> prefix [user_dir u] d"
      have h: "hit d k (move_path old new p) = hit d k p" for p
      proof (cases "prefix old p")
        case True
        then have "my_path u p" "my_path u (move_path old new p)"
          using assms(1,2) my_path_append by (auto simp: move_path_def prefix_def my_path_def)
        then show ?thesis using my_path_not_hit [OF _ d] by blast
      qed (simp add: move_path_def)
      show "bodies d k (map (\<lambda>(p, c). (move_path old new p, c)) (w_files w1)) = bodies d k (w_files w1)"
        using bodies_rename [OF h] .
    qed
    from frame_trans [OF this frame_dirs [of u I _ ds]] show ?thesis by (cases w1) simp
  qed
  show ?thesis using assms(3) s n frame_trans [OF s mv] by (auto simp: os_Rename_dir_def split: option.splits if_splits)
qed


lemma frame_RenameMailbox:
  assumes "name_below old" "name_below new"
  shows "stepsM (frame u I) (RenameMailbox u old new)"
proof -
  have p: "my_path u (getUserMaildirPath u n)" if "name_below n" for n
    using that by (auto simp: my_path_def getUserMaildirPath_def user_dir_def name_below_def Let_def)
  have t: "stepsM (frame u I) (tryE (set_mailbox_name u a b))" if "name_below b" for a b
    using that by (intro frame_intros) (rule frame_set_name)
  let ?dir = "\<lambda>w. case os_Rename_dir (getUserMaildirPath u old) (getUserMaildirPath u new) w of
      (w1, Inl (False, e)) \<Rightarrow> (fst (tryE (set_mailbox_name u new old) w1), Inl (''failed to rename maildir: '' @ e))
    | (w1, _) \<Rightarrow> (w1, Inr ())"
  have "stepsM (frame u I) ?dir"
    unfolding stepsM_def
  proof
    fix w
    obtain w1 r where r: "os_Rename_dir (getUserMaildirPath u old) (getUserMaildirPath u new) w = (w1, r)" by fastforce
    note g = frame_Rename_dir [OF p [OF assms(1)] p [OF assms(2)] r]
    have "frame u I w (fst (tryE (set_mailbox_name u new old) w1))"
      using t [OF assms(1), of new] g frame_trans unfolding stepsM_def by blast
    then show "frame u I w (fst (?dir w))" using g unfolding r by (simp split: sum.split bool.split)
  qed
  then show ?thesis unfolding RenameMailbox_def using t [OF assms(2)] by (intro fr.bindE) (auto intro: frame_intros)
qed

section \<open>The commands of a session\<close>

lemma frame_with_user: "(\<And>u'. is_user s = Some u' \<Longrightarrow> stepsM R (f u')) \<Longrightarrow> stepsM R (failE NotAuthenticated :: (imap_error, 'a) proc) \<Longrightarrow>
    stepsM R (with_user s f :: (imap_error, 'a) proc)"
  by (simp add: with_user_def split: option.split)

lemma frame_with_selected: "(\<And>mb. is_selected s = Some mb \<Longrightarrow> stepsM R (f mb)) \<Longrightarrow> stepsM R (failE NotSelected :: (imap_error, 'a) proc) \<Longrightarrow>
    stepsM R (with_selected s f :: (imap_error, 'a) proc)"
  by (simp add: with_selected_def split: option.split)

lemma GetMailbox_Inr:
  assumes "GetMailbox v n w = (w', Inr mb)"
  shows "same_world w w' \<and> mb \<in> set (w_mailboxes w) \<and> mb_UserID mb = v \<and> mb_Name mb = n"
proof -
  from assms obtain w1 row where r: "readE (\<lambda>w. find (\<lambda>mb. mb_UserID mb = v \<and> mb_Name mb = n) (w_mailboxes w)) w = (w1, Inr row)"
    and s: "scan_mailbox row w1 = (w', Inr mb)" by (auto simp: GetMailbox_def bindE_Inr)
  from s have "row = Some mb" "w' = w1"
    by (auto simp only: scan_mailbox_def option.simps retE_iff failE_iff sum.simps split: option.splits if_splits)
  moreover have "same_world w w1" "row = find (\<lambda>mb. mb_UserID mb = v \<and> mb_Name mb = n) (w_mailboxes w)"
    using readE_Inr [OF r] by (auto simp: same_worldD)
  ultimately show ?thesis by (auto simp: find_Some_iff)
qed

lemma own_not_foreign:
  assumes "tenancy u I w" "mb \<in> set (w_mailboxes w)" "mb_UserID mb = u"
  shows "mb_ID mb \<notin> foreign_ids u w"
proof
  assume "mb_ID mb \<in> foreign_ids u w"
  then obtain mb' where "mb' \<in> set (w_mailboxes w)" "mb_ID mb' = mb_ID mb" "mb_UserID mb' \<noteq> u"
    by (auto simp: foreign_ids_def foreign_def)
  with assms show False
    using inj_onD [of mb_ID "set (w_mailboxes w)" mb mb'] by (auto simp: tenancy_def distinct_map)
qed

lemma frame_get_mailbox:
  assumes "\<And>mb. mb_UserID mb = us_ID u \<Longrightarrow> stepsM (frame (us_ID u) ({mb_ID mb} \<union> I)) (f mb)"
  shows "stepsM (frame (us_ID u) I) (bindE (get_mailbox code txt u name) f)"
proof -
  let ?f = "\<lambda>mb. if mb_UserID mb = us_ID u then f mb else failE NotSelected"
  have "bindE (get_mailbox code txt u name) f = bindE (get_mailbox code txt u name) ?f"
    by (auto simp: bindE_def fun_eq_iff get_mailbox_def split: prod.split sum.split dest!: GetMailbox_Inr)
  moreover have "stepsM (frame (us_ID u) I) (bindE (get_mailbox code txt u name) ?f)"
  proof (rule frame_bind_ids [where ids = "\<lambda>mb. {mb_ID mb}"])
    show "stepsM (frame (us_ID u) I) (get_mailbox code txt u name)" unfolding get_mailbox_def by (intro frame_intros)
    show "{mb_ID mb} \<inter> foreign_ids (us_ID u) w1 = {}" if "get_mailbox code txt u name w = (w1, Inr mb)" "tenancy (us_ID u) I w" for w w1 mb
    proof -
      from that(1) have "GetMailbox (us_ID u) name w = (w1, Inr mb)" by (simp add: get_mailbox_def)
      from GetMailbox_Inr [OF this] that(2) own_not_foreign [of "us_ID u" I w mb] show ?thesis
        by (auto simp: foreign_ids_def foreign_def same_worldD)
    qed
    show "stepsM (frame (us_ID u) ({mb_ID mb} \<union> I)) (?f mb)" for mb using assms by (auto intro: frame_intros)
  qed
  ultimately show ?thesis by simp
qed

lemma frame_notify [frame_intros]: "stepsM (frame u I) (NotifyMailboxUpdate ts i)"
  unfolding NotifyMailboxUpdate_def by (auto intro!: frame_intros)

lemma frame_read_body [frame_intros]: "stepsM (frame u I) (read_body msg)"
  unfolding read_body_def by (intro frame_intros)

lemma frame_fetch_sections [frame_intros]: "stepsM (frame u I) (fetch_sections msg bss)"
  by (induction bss) (auto intro!: frame_intros)

lemma frame_fetch_loop [frame_intros]: "stepsM (frame u I) (fetch_loop opt nms)"
  by (induction nms) (auto intro!: frame_intros simp: fetch_one_def split: prod.split)

lemma frame_store_loop: "i \<in> I \<Longrightarrow> stepsM (frame u I) (store_loop ford op silent i flags nms)"
  by (induction nms)
    (auto intro!: frame_intros frame_SetFlags frame_UpdateFlags simp: store_one_def store_flags_def split: prod.split store_op.split)

lemma frame_copy_loop:
  assumes "maildir_lib unseen" "j \<in> I"
  shows "stepsM (frame u I) (copy_loop unseen keys i j nms)"
proof (induction nms)
  case (Cons nm nms)
  then show ?case by (cases nm) (auto intro!: frame_intros frame_CopyMessage assms simp: copy_one_def)
qed (auto intro: frame_intros)

lemma frame_list_all [frame_intros]: "stepsM (frame u I) (list_all_messages txt mb)"
  unfolding list_all_messages_def by (intro frame_intros)


lemma frame_get [frame_intros]: "stepsM (frame v I) (get_mailbox code txt u name)"
  unfolding get_mailbox_def by (intro frame_intros)

lemma frame_commands:
  assumes u: "is_user s = Some u" and sel: "\<And>mb. is_selected s = Some mb \<Longrightarrow> mb_ID mb \<in> I"
  shows "stepsM (frame (us_ID u) I) (Select_imap name ts s)"
    "name_below name \<Longrightarrow> stepsM (frame (us_ID u) I) (Create_imap name now s)"
    "name_below name \<Longrightarrow> stepsM (frame (us_ID u) I) (Delete_imap name s)"
    "name_below name \<Longrightarrow> name_below name' \<Longrightarrow> stepsM (frame (us_ID u) I) (Rename_imap name name' s)"
    "stepsM (frame (us_ID u) I) (Subscribe_imap name s)" "stepsM (frame (us_ID u) I) (Unsubscribe_imap name s)"
    "stepsM (frame (us_ID u) I) (List_imap pats b s)" "stepsM (frame (us_ID u) I) (Status_imap name s)"
    "stepsM (frame (us_ID u) I) (Fetch_imap ord numSet opt s)"
    "stepsM (frame (us_ID u) I) (Store_imap ord ford numSet flags s)"
    "stepsM (frame (us_ID u) I) (Expunge_imap s)" "stepsM (frame (us_ID u) I) (Search_imap b cr s)"
  unfolding Select_imap_def Create_imap_def Delete_imap_def Rename_imap_def Subscribe_imap_def Unsubscribe_imap_def List_imap_def
    Status_imap_def Fetch_imap_def Store_imap_def Expunge_imap_def Search_imap_def
  by (auto intro!: frame_with_user frame_with_selected frame_intros frame_get_mailbox frame_CreateMailbox frame_DeleteMailbox
      frame_RenameMailbox frame_SubscribeMailbox frame_store_loop frame_ExpungeMailbox sel simp: u split: option.split)

lemma frame_append_copy:
  assumes u: "is_user s = Some u" and lib: "maildir_lib unseen"
  shows "stepsM (frame (us_ID u) I) (Append_imap unseen ts now buf name flags date r s)"
    "stepsM (frame (us_ID u) I) (Copy_imap unseen keys ts numSet name s)"
proof -
  show "stepsM (frame (us_ID u) I) (Append_imap unseen ts now buf name flags date r s)"
    unfolding Append_imap_def
    by (rule frame_with_user, simp add: u, rule frame_get_mailbox)
      (auto intro!: frame_intros frame_AppendMessage lib)
  show "stepsM (frame (us_ID u) I) (Copy_imap unseen keys ts numSet name s)"
    unfolding Copy_imap_def
    by (rule frame_with_selected, rule frame_with_user, simp add: u, rule frame_get_mailbox)
      (auto intro!: frame_intros frame_copy_loop lib)
qed

text \<open>The commands of a session whose user has logged in, with mailbox names other than two dots.\<close>

inductive imap_step :: "unseen_fun \<Rightarrow> imap_session \<times> world \<Rightarrow> imap_session \<times> world \<Rightarrow> bool" for unseen where
  im_select: "Select_imap name ts s w = (w', Inr (s', ts', d)) \<Longrightarrow> imap_step unseen (s, w) (s', w')"
| im_select_failed: "Select_imap name ts s w = (w', Inl e) \<Longrightarrow> imap_step unseen (s, w) (s, w')"
| im_unselect: "imap_step unseen (s, w) (Unselect_imap s, w)"
| im_close: "imap_step unseen (s, w) (Close_imap s, w)"
| im_create: "name_below name \<Longrightarrow> Create_imap name now s w = (w', r1) \<Longrightarrow> imap_step unseen (s, w) (s, w')"
| im_delete: "name_below name \<Longrightarrow> Delete_imap name s w = (w', r2) \<Longrightarrow> imap_step unseen (s, w) (s, w')"
| im_rename: "name_below name \<Longrightarrow> name_below name' \<Longrightarrow> Rename_imap name name' s w = (w', r3) \<Longrightarrow> imap_step unseen (s, w) (s, w')"
| im_subscribe: "Subscribe_imap name s w = (w', r4) \<Longrightarrow> imap_step unseen (s, w) (s, w')"
| im_unsubscribe: "Unsubscribe_imap name s w = (w', r5) \<Longrightarrow> imap_step unseen (s, w) (s, w')"
| im_list: "List_imap pats b s w = (w', r6) \<Longrightarrow> imap_step unseen (s, w) (s, w')"
| im_status: "Status_imap name s w = (w', r7) \<Longrightarrow> imap_step unseen (s, w) (s, w')"
| im_append: "Append_imap unseen ts now buf name flags date body s w = (w', r8) \<Longrightarrow> imap_step unseen (s, w) (s, w')"
| im_fetch: "Fetch_imap ord numSet opt s w = (w', r9) \<Longrightarrow> imap_step unseen (s, w) (s, w')"
| im_store: "Store_imap ord ford numSet sf s w = (w', r10) \<Longrightarrow> imap_step unseen (s, w) (s, w')"
| im_expunge: "Expunge_imap s w = (w', r11) \<Longrightarrow> imap_step unseen (s, w) (s, w')"
| im_copy: "Copy_imap unseen keys ts numSet name s w = (w', r12) \<Longrightarrow> imap_step unseen (s, w) (s, w')"
| im_search: "Search_imap b cr s w = (w', r13) \<Longrightarrow> imap_step unseen (s, w) (s, w')"

text \<open>The selected mailbox belongs to the user of the session, or is gone.\<close>

definition session_ok :: "user \<Rightarrow> imap_session \<times> world \<Rightarrow> bool" where
  "session_ok u sw \<longleftrightarrow> is_user (fst sw) = Some u \<and> tenancy (us_ID u) {} (snd sw) \<and>
     (\<forall>mb. is_selected (fst sw) = Some mb \<longrightarrow> mb_ID mb \<notin> foreign_ids (us_ID u) (snd sw))"

definition selected_ids :: "imap_session \<Rightarrow> int set" where
  "selected_ids s = (case is_selected s of None \<Rightarrow> {} | Some mb \<Rightarrow> {mb_ID mb})"

lemma selected_ids: "is_selected s = Some mb \<Longrightarrow> mb_ID mb \<in> selected_ids s"
  by (simp add: selected_ids_def)

definition session_frame :: "user \<Rightarrow> imap_session \<times> world \<Rightarrow> imap_session \<times> world \<Rightarrow> bool" where
  "session_frame u sw sw' \<longleftrightarrow> session_ok u sw \<longrightarrow> session_ok u sw' \<and> frame (us_ID u) {} (snd sw) (snd sw')"

lemma session_frame_same_session:
  assumes "session_ok u (s, w) \<Longrightarrow> frame (us_ID u) (selected_ids s) w w'"
  shows "session_frame u (s, w) (s, w')"
  unfolding session_frame_def
proof
  assume ok: "session_ok u (s, w)"
  from assms [OF ok] have f: "frame (us_ID u) (selected_ids s) w w'" .
  have "selected_ids s \<inter> foreign_ids (us_ID u) w = {}" "tenancy (us_ID u) {} w"
    using ok by (auto simp: session_ok_def selected_ids_def split: option.splits)
  then have t: "tenancy (us_ID u) (selected_ids s) w" by (simp add: tenancy_def)
  have "foreign_ids (us_ID u) w' = foreign_ids (us_ID u) w" using f t by (simp add: frame_def foreign_ids_def)
  moreover have "tenancy (us_ID u) {} w'" "frame (us_ID u) {} w w'" using f t by (auto simp: frame_def tenancy_def)
  ultimately show "session_ok u (s, w') \<and> frame (us_ID u) {} (snd (s, w)) (snd (s, w'))"
    using ok by (simp add: session_ok_def)
qed

lemma command_step:
  assumes "m w = (w', r)"
    "is_user s = Some u \<Longrightarrow> (\<And>mb. is_selected s = Some mb \<Longrightarrow> mb_ID mb \<in> selected_ids s) \<Longrightarrow> stepsM (frame (us_ID u) (selected_ids s)) m"
  shows "session_frame u (s, w) (s, w')"
proof (rule session_frame_same_session)
  assume "session_ok u (s, w)"
  then have "stepsM (frame (us_ID u) (selected_ids s)) m" by (intro assms(2) selected_ids) (simp_all add: session_ok_def)
  from stepsM_D [OF this assms(1)] show "frame (us_ID u) (selected_ids s) w w'" .
qed

lemma select_step:
  assumes "Select_imap name ts s w = (w', Inr (s', ts', d))"
  shows "session_frame u (s, w) (s', w')"
  unfolding session_frame_def
proof
  assume ok: "session_ok u (s, w)"
  then have u: "is_user s = Some u" and t: "tenancy (us_ID u) {} w" by (simp_all add: session_ok_def)
  from assms u obtain w1 mb where g: "GetMailbox (us_ID u) name w = (w1, Inr mb)" and s': "s' = s\<lparr>is_selected := Some mb, is_tracker := Some (mb_ID mb)\<rparr>"
    by (auto simp: Select_imap_def with_user_def bindE_Inr get_mailbox_def)
  note m = GetMailbox_Inr [OF g]
  have f: "session_frame u (s, w) (s, w')"
    by (rule command_step [where m = "Select_imap name ts s", OF assms]) (rule frame_commands)
  then have f2: "session_ok u (s, w')" "frame (us_ID u) {} w w'" using ok by (simp_all add: session_frame_def)
  have "mb_ID mb \<notin> foreign_ids (us_ID u) w" using own_not_foreign [OF t] m by blast
  moreover have "foreign_ids (us_ID u) w' = foreign_ids (us_ID u) w" using f2(2) t by (simp add: frame_def foreign_ids_def)
  ultimately show "session_ok u (s', w') \<and> frame (us_ID u) {} (snd (s, w)) (snd (s', w'))"
    using f2 u by (simp add: session_ok_def s')
qed

lemma step_frame:
  assumes lib: "maildir_lib unseen" and "imap_step unseen sw sw'"
  shows "session_frame u sw sw'"
  using assms(2)
proof cases
  case (im_select name ts s w w' s' ts' d)
  then show ?thesis using select_step by blast
next
  case (im_unselect s w)
  then show ?thesis by (auto simp: session_frame_def session_ok_def Unselect_imap_def frame_def)
next
  case (im_close s w)
  then show ?thesis by (auto simp: session_frame_def session_ok_def Close_imap_def frame_def)
qed (simp only:, erule command_step, (rule frame_commands frame_append_copy [OF _ lib]; assumption))+


lemma steps_frame:
  assumes "maildir_lib unseen" "(imap_step unseen)\<^sup>*\<^sup>* sw sw'"
  shows "session_frame u sw sw'"
  using assms(2)
proof (induction rule: rtranclp_induct)
  case base
  then show ?case by (simp add: session_frame_def frame_def)
next
  case (step sw1 sw2)
  from step.IH step_frame [OF assms(1) step.hyps(2), of u] show ?case
    unfolding session_frame_def using frame_trans by blast
qed

lemma find_unique:
  assumes "distinct (map mb_ID mbs)" "mb \<in> set mbs"
  shows "find (\<lambda>m. mb_ID m = mb_ID mb) mbs = Some mb"
  using assms by (induction mbs) auto

lemma foreign_path: "mb_UserID mb \<noteq> u \<Longrightarrow> \<not> prefix [user_dir u] (mb_path mb)"
  by (auto simp: mb_path_def getUserMaildirPath_def user_dir_def show_int_inj Let_def)

lemma frame_contents:
  assumes "frame u {} w w'" "tenancy u {} w" "mb \<in> set (w_mailboxes w)" "mb_UserID mb \<noteq> u"
  shows "contents w' (mb_ID mb) = contents w (mb_ID mb)"
proof -
  have t: "tenancy u {} w'" and f: "foreign u w' = foreign u w" "foreign_rows u w' = foreign_rows u w"
    and b: "\<And>d k. \<not> prefix [user_dir u] d \<Longrightarrow> bodies d k (w_files w') = bodies d k (w_files w)"
    using assms(1,2) by (auto simp: frame_def)
  have m: "mb \<in> set (foreign u w)" using assms(3,4) by (simp add: foreign_def)
  then have "mb \<in> set (foreign u w')" by (simp add: f)
  then have m': "mb \<in> set (w_mailboxes w')" by (simp add: foreign_def)
  have p: "path_of w (mb_ID mb) = mb_path mb" "path_of w' (mb_ID mb) = mb_path mb"
    using find_unique [OF _ assms(3)] find_unique [OF _ m'] assms(2) t by (simp_all add: path_of_def tenancy_def)
  have i: "mb_ID mb \<in> foreign_ids u w" "mb_ID mb \<in> foreign_ids u w'" using m by (simp_all add: foreign_ids_def f)
  have "[r \<leftarrow> w_messages v. mr_mailbox_id r = mb_ID mb] = [r \<leftarrow> foreign_rows u v. mr_mailbox_id r = mb_ID mb]" if "mb_ID mb \<in> foreign_ids u v" for v
    using that by (auto simp: foreign_rows_def intro: filter_cong)
  from this [OF i(1)] this [OF i(2)]
  have rows: "[r \<leftarrow> w_messages w'. mr_mailbox_id r = mb_ID mb] = [r \<leftarrow> w_messages w. mr_mailbox_id r = mb_ID mb]" by (simp add: f)
  show ?thesis using b [OF foreign_path [OF assms(4)]] by (simp add: contents_def rows abs_msg_def p)
qed



text \<open>The user 2 with a mailbox of the same name as that of user 1.\<close>

definition world_3 :: world where
  "world_3 = (fst run_append)\<lparr>w_mailboxes := w_mailboxes (fst run_append) @
     [\<lparr>mb_ID = 2, mb_UserID = 2, mb_Name = ''INBOX'', mb_UIDValidity = 7, mb_UIDNext = 1, mb_SpecialUse = [], mb_Subscribed = True,
       mb_CreatedAt = 0\<rparr>], w_mailbox_seq := 2\<rparr>"

definition user_2 :: user where
  "user_2 = \<lparr>us_ID = 2, us_DomainID = 1, us_Username = ''ann'', us_Domain = ''a.org'', us_Email = ''ann@a.org'', us_DisplayName = [],
     us_QuotaBytes = 0, us_UsedBytes = 0, us_IsActive = True\<rparr>"

definition session_2 :: imap_session where
  "session_2 = NewSession_imap\<lparr>is_user := Some user_2\<rparr>"

definition mailbox_1 :: mailbox where
  "mailbox_1 = hd (w_mailboxes world_3)"

lemma run_append_table: "map (\<lambda>mb. (mb_ID mb, mb_UserID mb)) (w_mailboxes (fst run_append)) = [(1, 1)]"
  by code_simp

lemma run_append_mailbox:
  obtains mb where "w_mailboxes (fst run_append) = [mb]" "mb_ID mb = 1" "mb_UserID mb = 1"
  using run_append_table by (auto simp: map_eq_Cons_conv)

lemma world_3_facts:
  "mb_ID mailbox_1 = 1 \<and> mb_UserID mailbox_1 = 1 \<and> w_mailboxes world_3 \<noteq> []"
  "distinct (map mb_ID (w_mailboxes world_3)) \<and> list_all (\<lambda>mb. mb_ID mb \<le> w_mailbox_seq world_3) (w_mailboxes world_3)"
  "list_all (\<lambda>mb. mb_UserID mb = 2 \<longrightarrow> name_below (mb_Name mb)) (w_mailboxes world_3) \<and> distinct (map fst (w_files world_3))"
proof -
  obtain mb where "w_mailboxes (fst run_append) = [mb]" "mb_ID mb = 1" "mb_UserID mb = 1" by (rule run_append_mailbox)
  then show "mb_ID mailbox_1 = 1 \<and> mb_UserID mailbox_1 = 1 \<and> w_mailboxes world_3 \<noteq> []"
    "distinct (map mb_ID (w_mailboxes world_3)) \<and> list_all (\<lambda>mb. mb_ID mb \<le> w_mailbox_seq world_3) (w_mailboxes world_3)"
    "list_all (\<lambda>mb. mb_UserID mb = 2 \<longrightarrow> name_below (mb_Name mb)) (w_mailboxes world_3) \<and> distinct (map fst (w_files world_3))"
    using world_2(1) by (simp_all add: mailbox_1_def world_3_def name_below_def ReplaceAll_char store_ok_def files_ok_def)
qed

lemma session_2_ok: "session_ok user_2 (session_2, world_3)"
  using world_3_facts by (simp add: session_ok_def session_2_def NewSession_imap_def tenancy_def user_2_def list_all_iff)

lemma contents_3: "contents world_3 1 = contents (fst run_append) 1"
proof -
  obtain mb where "w_mailboxes (fst run_append) = [mb]" "mb_ID mb = 1" by (rule run_append_mailbox)
  then have "path_of world_3 1 = path_of (fst run_append) 1" by (simp add: path_of_def world_3_def)
  then have "contents world_3 1 = map (abs_msg (fst run_append)) [m \<leftarrow> w_messages (fst run_append). mr_mailbox_id m = 1]"
    by (simp add: contents_def abs_msg_def world_3_def)
  then show ?thesis by (simp add: contents_def)
qed


section \<open>Fetching and expunging\<close>

lemma read_body_ok:
  assumes "store_ok w" "w_faults w = []" "m \<in> set (w_messages w)" "\<forall>mb\<in>set (w_mailboxes w). mb_UIDNext mb < 2 ^ 32"
  shows "\<exists>c. read_body (scan_message m) w = (w, Inr (Some c)) \<and> (\<exists>f d. abs_msg w m = (mr_uid m, f, d, {#c#}))"
proof -
  obtain c where c: "GetMessageBody (scan_message m) w = (w, Inr c)"
    "bodies (path_of w (mr_mailbox_id m)) (base_key (mr_maildir_key m)) (w_files w) = {#c#}"
    using GetMessageBody_stored [OF assms(1-3) assms(4)] by blast
  then show ?thesis by (auto simp: read_body_def runE onErr_def abs_msg_def)
qed

text \<open>What a response says of one message of the abstract mailbox.\<close>

definition answers :: "fetch_options \<Rightarrow> amsg \<Rightarrow> fetch_item \<Rightarrow> bool" where
  "answers opt a item \<longleftrightarrow> (case a of (uid, flags, date, body) \<Rightarrow>
     fi_UID item = uid \<and> fi_Flags item = (if fo_Flags opt then Some flags else None) \<and>
     fi_InternalDate item = (if fo_InternalDate opt then Some date else None) \<and>
     (\<exists>c. body = {#c#} \<and> fi_Envelope item = (if fo_Envelope opt then Some (extractEnvelope c) else None) \<and>
          fi_Sections item = map (\<lambda>bs. (bs, extractBodySection c bs)) (fo_BodySection opt)))"

definition names_message :: "num_set \<Rightarrow> nat \<Rightarrow> int \<Rightarrow> bool" where
  "names_message numSet n uid = (case numSet of UIDSet P \<Rightarrow> P uid | SeqSet P \<Rightarrow> P n)"

lemma in_set_names: "in_set numSet (n, m) = names_message numSet n (sm_UID m)"
  by (cases numSet) (simp_all add: names_message_def)

lemma map_sort_key: "map f (sort_key (\<lambda>x. g (f x)) xs) = sort_key g (map f xs)"
proof -
  have "map f (insort_key (\<lambda>x. g (f x)) x ys) = insort_key g (f x) (map f ys)" for x ys by (induction ys) auto
  then show ?thesis by (induction xs) auto
qed

lemma map_of_perm:
  assumes "mset ys = image_mset f (mset xs)"
  shows "\<exists>xs'. ys = map f xs' \<and> mset xs' = mset xs"
  using assms
proof (induction ys arbitrary: xs)
  case (Cons y ys)
  from Cons.prems have "y \<in># image_mset f (mset xs)" by (metis list.set_intros(1) set_mset_mset)
  then obtain x where x: "x \<in> set xs" "y = f x" by auto
  have "mset xs = mset (x # remove1 x xs)" using x(1) by simp
  with Cons.prems have "mset ys = image_mset f (mset (remove1 x xs))" by (simp add: x(2) del: mset_remove1)
  with Cons.IH obtain xs' where "ys = map f xs'" "mset xs' = mset (remove1 x xs)" by blast
  then have "y # ys = map f (x # xs') \<and> mset (x # xs') = mset xs" using x by simp
  then show ?case by (rule exI [of _ "x # xs'"])
qed auto

lemma fetch_sections_ok:
  assumes "(read_body msg :: (imap_error, string option) proc) w = (w, Inr (Some c))"
  shows "(fetch_sections msg bss :: (imap_error, (body_section \<times> string) list) proc) w = (w, Inr (map (\<lambda>bs. (bs, extractBodySection c bs)) bss))"
  by (induction bss) (simp_all add: runE assms)

lemma fetch_one_ok:
  assumes "store_ok w" "w_faults w = []" "\<forall>mb\<in>set (w_mailboxes w). mb_UIDNext mb < 2 ^ 32" "m \<in> set (w_messages w)"
  shows "\<exists>item. (fetch_one opt (n, scan_message m) :: (imap_error, fetch_item) proc) w = (w, Inr item) \<and> fi_Seq item = n \<and> answers opt (abs_msg w m) item"
proof -
  obtain c f d where c: "(read_body (scan_message m) :: (imap_error, string option) proc) w = (w, Inr (Some c))" and a: "abs_msg w m = (mr_uid m, f, d, {#c#})"
    using read_body_ok [OF assms(1,2,4,3)] by blast
  have "f = stringToFlags (mr_flags m)" "d = mr_internal_date m" using a by (simp_all add: abs_msg_def)
  moreover have "sm_UID (scan_message m) = mr_uid m" "sm_Flags (scan_message m) = stringToFlags (mr_flags m)"
    "sm_InternalDate (scan_message m) = mr_internal_date m" by (simp_all add: scan_message_def)
  ultimately show ?thesis using c unfolding a answers_def by (simp add: fetch_one_def runE fetch_sections_ok [OF c])
qed

lemma fetch_loop_ok:
  assumes "store_ok w" "w_faults w = []" "\<forall>mb\<in>set (w_mailboxes w). mb_UIDNext mb < 2 ^ 32" "\<forall>(n, m)\<in>set nms. m \<in> set (w_messages w)"
  shows "\<exists>items. (fetch_loop opt (map (\<lambda>(n, m). (n, scan_message m)) nms) :: (imap_error, fetch_item list) proc) w = (w, Inr items) \<and>
    list_all2 (\<lambda>(n, m) item. fi_Seq item = n \<and> answers opt (abs_msg w m) item) nms items"
  using assms(4)
proof (induction nms)
  case (Cons nm nms)
  obtain n m where nm: "nm = (n, m)" by force
  with Cons.prems obtain item where i: "(fetch_one opt (n, scan_message m) :: (imap_error, fetch_item) proc) w = (w, Inr item)" "fi_Seq item = n" "answers opt (abs_msg w m) item"
    using fetch_one_ok [OF assms(1-3)] by fastforce
  moreover from Cons obtain items where "(fetch_loop opt (map (\<lambda>(n, m). (n, scan_message m)) nms) :: (imap_error, fetch_item list) proc) w = (w, Inr items)"
    "list_all2 (\<lambda>(n, m) item. fi_Seq item = n \<and> answers opt (abs_msg w m) item) nms items" by auto
  ultimately show ?case by (simp add: nm runE)
qed (simp add: runE)

lemma numbered_map: "numbered (map f xs) = map (\<lambda>(n, m). (n, f m)) (zip [1..<Suc (length xs)] xs)"
  by (simp add: numbered_def zip_map2)

lemma ListMessages_ok:
  assumes "w_faults w = []"
  shows "list_all_messages txt mb w = (w, Inr (map scan_message (sort_key mr_uid [m \<leftarrow> w_messages w. mr_mailbox_id m = mb_ID mb])))"
  by (simp add: list_all_messages_def ListMessages_def runE assms)

text \<open>C9. Fetch answers for exactly the messages that the set names, by UID or by position in the order of UIDs, once each, and each
  answer holds what was asked for of that very message: its flags, date, envelope and the sections of the stored body.\<close>

theorem fetch_correct:
  assumes "store_ok w" "w_faults w = []" "\<forall>mb\<in>set (w_mailboxes w). mb_UIDNext mb < 2 ^ 32" "is_selected s = Some mb"
    "\<And>xs. mset (ord xs) = mset xs"
  defines "msgs \<equiv> sort_key fst (contents w (mb_ID mb))"
  shows "\<exists>items. Fetch_imap ord numSet opt s w = (w, Inr items) \<and> distinct (map fi_Seq items) \<and>
    fi_Seq ` set items = {n. 1 \<le> n \<and> n \<le> length msgs \<and> names_message numSet n (fst (msgs ! (n - 1)))} \<and>
    (\<forall>item\<in>set items. answers opt (msgs ! (fi_Seq item - 1)) item)"
proof -
  define rows where "rows = sort_key mr_uid [m \<leftarrow> w_messages w. mr_mailbox_id m = mb_ID mb]"
  have msgs: "msgs = map (abs_msg w) rows"
    using map_sort_key [of "abs_msg w" fst "[m \<leftarrow> w_messages w. mr_mailbox_id m = mb_ID mb]"]
    by (simp add: msgs_def rows_def contents_def abs_msg_def)
  define N where "N = filter (\<lambda>(n, m). names_message numSet n (mr_uid m)) (zip [1..<Suc (length rows)] rows)"
  have "filter (in_set numSet) (numbered (map scan_message rows)) = map (\<lambda>(n, m). (n, scan_message m)) N"
    by (simp add: N_def numbered_map filter_map o_def split_def in_set_names scan_message_def)
  then have "mset (ord (filter (in_set numSet) (numbered (map scan_message rows)))) = image_mset (\<lambda>(n, m). (n, scan_message m)) (mset N)"
    by (simp add: assms(5))
  from map_of_perm [OF this] obtain N' where N': "ord (filter (in_set numSet) (numbered (map scan_message rows))) = map (\<lambda>(n, m). (n, scan_message m)) N'"
    and p: "mset N' = mset N" by blast
  have zs: "set (zip [1..<Suc (length rows)] rows) = {(n, rows ! (n - 1)) | n. 1 \<le> n \<and> n \<le> length rows}"
    using in_set_enumerate_eq [of _ 1 rows] by (auto simp: enumerate_eq_zip)
  have sN: "set N' = {(n, rows ! (n - 1)) | n. 1 \<le> n \<and> n \<le> length rows \<and> names_message numSet n (mr_uid (rows ! (n - 1)))}"
    using mset_eq_setD [OF p] zs by (auto simp: N_def)
  have "set rows \<subseteq> set (w_messages w)" by (auto simp: rows_def)
  then have "\<forall>(n, m)\<in>set N'. m \<in> set (w_messages w)" using sN nth_mem by fastforce
  from fetch_loop_ok [OF assms(1-3) this] obtain items where
    run: "(fetch_loop opt (map (\<lambda>(n, m). (n, scan_message m)) N') :: (imap_error, fetch_item list) proc) w = (w, Inr items)"
    and all: "list_all2 (\<lambda>(n, m) item. fi_Seq item = n \<and> answers opt (abs_msg w m) item) N' items" by blast
  have seqs: "map fi_Seq items = map fst N'" using all by (induction rule: list_all2_induct) auto
  have "distinct (map fst N)" unfolding N_def by (rule distinct_map_filter) simp
  then have d: "distinct (map fi_Seq items)" using p seqs by (metis mset_eq_imp_distinct_iff mset_map)
  have "fi_Seq ` set items = fst ` set N'" using arg_cong [OF seqs, of set] by simp
  then have i: "fi_Seq ` set items = {n. 1 \<le> n \<and> n \<le> length msgs \<and> names_message numSet n (fst (msgs ! (n - 1)))}"
    unfolding sN by (force simp: msgs abs_msg_def image_iff)
  have "answers opt (msgs ! (fi_Seq item - 1)) item" if "item \<in> set items" for item
  proof -
    from that all obtain n m where "(n, m) \<in> set N'" "fi_Seq item = n" "answers opt (abs_msg w m) item"
      by (auto simp: list_all2_conv_all_nth in_set_conv_nth) (metis (mono_tags, lifting) case_prod_conv nth_mem surj_pair)
    then show ?thesis using sN by (auto simp: msgs)
  qed
  moreover have "Fetch_imap ord numSet opt s w = (w, Inr items)"
    by (simp add: Fetch_imap_def with_selected_def assms(4) runE ListMessages_ok [OF assms(2)] rows_def [symmetric] N' run)
  ultimately show ?thesis using d i by blast
qed
definition session_1 :: imap_session where
  "session_1 = NewSession_imap\<lparr>is_selected := Some mailbox_1\<rparr>"

definition body_options :: fetch_options where
  "body_options = \<lparr>fo_Flags = True, fo_InternalDate = False, fo_RFC822Size = False, fo_Envelope = False,
     fo_BodySection = [\<lparr>bs_Part = [], bs_Specifier = SpecNone\<rparr>]\<rparr>"

lemma run_append_limits: "w_faults (fst run_append) = [] \<and> list_all (\<lambda>mb. mb_UIDNext mb < 2 ^ 32) (w_mailboxes (fst run_append))"
  by code_simp

theorem fetch_correct_witness:
  "\<exists>item. Fetch_imap id (SeqSet (\<lambda>n. n = 1)) body_options session_1 (fst run_append) = (fst run_append, Inr [item]) \<and>
     fi_UID item = 1 \<and> fi_Flags item = Some [FlagFlagged] \<and> map snd (fi_Sections item) = [''hello'']"
proof -
  have sel: "is_selected session_1 = Some mailbox_1" by (simp add: session_1_def)
  have lim: "\<forall>mb\<in>set (w_mailboxes (fst run_append)). mb_UIDNext mb < 2 ^ 32" using run_append_limits by (simp add: list_all_iff)
  have c: "sort_key fst (contents (fst run_append) (mb_ID mailbox_1)) = [(1, [FlagFlagged], 9, {#''hello''#})]"
    using world_3_facts(1) world_2(2) by simp
  obtain items where i: "Fetch_imap id (SeqSet (\<lambda>n. n = 1)) body_options session_1 (fst run_append) = (fst run_append, Inr items)"
    "distinct (map fi_Seq items)" "fi_Seq ` set items = {1}"
    "\<forall>item\<in>set items. answers body_options ([(1, [FlagFlagged], 9, {#''hello''#})] ! (fi_Seq item - 1)) item"
    using fetch_correct [OF world_2(1) conjunct1 [OF run_append_limits] lim sel, of id "SeqSet (\<lambda>n. n = 1)" body_options]
    by (auto simp: c names_message_def cong: conj_cong)
  have "length items = card (fi_Seq ` set items)" using distinct_card [OF i(2)] by simp
  then obtain item where item: "items = [item]" unfolding i(3) by (cases items) auto
  with i(3,4) have "answers body_options (1, [FlagFlagged], 9, {#''hello''#}) item" by simp
  then show ?thesis using i(1) item by (simp add: answers_def body_options_def extractBodySection_def)
qed

lemma uid_to_seq_None: "uid_to_seq messages uid = None \<longleftrightarrow> uid \<notin> sm_UID ` set messages"
proof -
  have "map snd (numbered messages) = messages" by (cases messages) (simp_all add: numbered_def del: upt_Suc)
  then have "snd ` set (numbered messages) = set messages" by (metis set_map)
  then show ?thesis by (force simp: uid_to_seq_def map_of_eq_None_iff)
qed

lemma contents_distinct: "store_ok w \<Longrightarrow> distinct (map fst (contents w i))"
  by (auto simp: store_ok_def tables_ok_def contents_def abs_msg_def distinct_map inj_on_def)

lemma ListMessages_uids:
  assumes "ListMessages i 0 0 w = (w', Inr messages)"
  shows "sm_UID ` set messages = fst ` set (contents w' i)"
  using readE_Inr [OF assms [unfolded ListMessages_def]] by (force simp: contents_def abs_msg_def scan_message_def)

text \<open>C10. Expunge removes exactly the messages marked as deleted, but it never tells the client which ones: the sequence numbers are
  looked up after the removal, so the response is empty, or, when the listing fails, it gives UIDs in place of sequence numbers.\<close>

theorem expunge_silent:
  assumes "store_ok w" "is_selected s = Some mb" "Expunge_imap s w = (w', Inr nums)"
  shows "contents w' = (contents w)(mb_ID mb := filter kept (contents w (mb_ID mb))) \<and>
    (nums = [] \<or> nums = map fst (filter (\<lambda>a. \<not> kept a) (contents w (mb_ID mb))))"
proof -
  obtain w1 uids where e: "ExpungeMailbox (mb_ID mb) w = (w1, Inr uids)"
    and l: "onErr (\<lambda>e. retE uids) (bindE (ListMessages (mb_ID mb) 0 0) (\<lambda>messages.
       retE [int n. uid \<leftarrow> uids, n \<leftarrow> (case uid_to_seq messages uid of None \<Rightarrow> [] | Some n \<Rightarrow> [n])])) w1 = (w', (Inr nums :: (imap_error, int list) result))"
    using assms(2,3) by (auto simp: Expunge_imap_def with_selected_def bindE_Inr)
  note st = ExpungeMailbox_store [OF assms(1) e]
  have w': "contents w' = contents w1"
  proof -
    have "same_world w1 w'" using l by (auto simp: onErr_Inr bindE_Inr bindE_Inl ListMessages_def dest: readE_same)
    then show ?thesis using quiet_store [OF quiet_same] st by blast
  qed
  have gone: "u \<notin> fst ` set (contents w' (mb_ID mb))" if "u \<in> set uids" for u
    using that st contents_distinct [OF assms(1), of "mb_ID mb"] unfolding w' by (auto simp: distinct_map inj_on_def)
  have "nums = [] \<or> nums = uids"
    using l gone by (auto simp: onErr_Inr bindE_Inr uid_to_seq_None dest!: ListMessages_uids split: option.splits)
  then show ?thesis using st w' by auto
qed

lemma run_expunge_imap:
  "snd (Expunge_imap session_1 (fst (SetFlags 1 1 [FlagDeleted] (fst run_append)))) = Inr []"
  by code_simp

theorem expunge_silent_witness:
  "snd (Expunge_imap session_1 (fst (SetFlags 1 1 [FlagDeleted] (fst run_append)))) = Inr [] \<and>
   contents (fst (Expunge_imap session_1 (fst (SetFlags 1 1 [FlagDeleted] (fst run_append))))) 1 = []"
proof -
  let ?w = "fst (SetFlags 1 1 [FlagDeleted] (fst run_append))"
  have f: "list_all flag_ok [FlagDeleted]" by (simp add: flag_ok_def flag_defs)
  have ok: "store_ok ?w \<and> contents ?w 1 = [(1, [FlagDeleted], 9, {#''hello''#})]"
    using SetFlags_store [OF world_2(1) f, of 1 1] run_expunge_ok(1) world_2(2)
    by (cases "SetFlags 1 1 [FlagDeleted] (fst run_append)") (simp add: set_flags_of_def)
  obtain w' where r: "Expunge_imap session_1 ?w = (w', Inr [])" using run_expunge_imap by (metis prod.collapse)
  have "is_selected session_1 = Some mailbox_1" by (simp add: session_1_def)
  from expunge_silent [OF conjunct1 [OF ok] this r] ok world_3_facts(1) show ?thesis
    by (simp add: r kept_def deleted_flags_mem)
qed

text \<open>The header of a message, its blank line and its text make up the message.\<close>

lemma header_text_split:
  assumes "Index data CRLF2 \<noteq> None \<or> Index data LF2 \<noteq> None"
  shows "\<exists>eol\<in>{[CHR 0x0D, CHR 0x0A], [CHR 0x0A]}. extractBodySection data \<lparr>bs_Part = [], bs_Specifier = SpecHeader\<rparr> @ eol @
    extractBodySection data \<lparr>bs_Part = [], bs_Specifier = SpecText\<rparr> = data"
proof (cases "Index data CRLF2")
  case (Some i)
  from Index_Some [OF this] obtain a b where "data = a @ CRLF2 @ b" "length a = i" by blast
  then show ?thesis using Some by (auto simp: extractBodySection_def CRLF2_def)
next
  case None
  with assms obtain i where i: "Index data LF2 = Some i" by auto
  from Index_Some [OF this] obtain a b where "data = a @ LF2 @ b" "length a = i" by blast
  then show ?thesis using i None by (auto simp: extractBodySection_def LF2_def)
qed

end
