(* ===== verification/State_Err.thy ===== *)
theory State_Err
  imports Go_Prelude
begin

text \<open>
  Operations on a state that may fail: sequencing in the order of the code, errors that are mapped or handled, and how a run of a
  composed operation splits into runs of its parts. The sessions of \<^verbatim>\<open>internal/smtp\<close> and the handlers of
  \<^verbatim>\<open>internal/dav\<close> are written with it.
\<close>

type_synonym ('s, 'e, 'a) sproc = "'s \<Rightarrow> 's \<times> ('e, 'a) result"

definition retS :: "'a \<Rightarrow> ('s, 'e, 'a) sproc" where
  "retS x y = (y, Inr x)"

definition failS :: "'e \<Rightarrow> ('s, 'e, 'a) sproc" where
  "failS e y = (y, Inl e)"

definition bindS :: "('s, 'e, 'a) sproc \<Rightarrow> ('a \<Rightarrow> ('s, 'e, 'b) sproc) \<Rightarrow> ('s, 'e, 'b) sproc" where
  "bindS m f y = (case m y of (y1, Inl e) \<Rightarrow> (y1, Inl e) | (y1, Inr x) \<Rightarrow> f x y1)"

definition orElse :: "('s, 'e, 'a) sproc \<Rightarrow> ('e \<Rightarrow> ('s, 'f, 'a) sproc) \<Rightarrow> ('s, 'f, 'a) sproc" where
  "orElse m h y = (case m y of (y1, Inl e) \<Rightarrow> h e y1 | (y1, Inr x) \<Rightarrow> (y1, Inr x))"

definition mapErrS :: "('e \<Rightarrow> 'f) \<Rightarrow> ('s, 'e, 'a) sproc \<Rightarrow> ('s, 'f, 'a) sproc" where
  "mapErrS h m = orElse m (\<lambda>e. failS (h e))"

definition modifyS :: "('s \<Rightarrow> 's) \<Rightarrow> ('s, 'e, unit) sproc" where
  "modifyS f y = (f y, Inr ())"

lemma bindS_Inr: "bindS m f y = (y', Inr x) \<longleftrightarrow> (\<exists>y1 z. m y = (y1, Inr z) \<and> f z y1 = (y', Inr x))"
  by (auto simp: bindS_def split: prod.splits sum.splits)

lemma bindS_Inl: "bindS m f y = (y', Inl e) \<longleftrightarrow> m y = (y', Inl e) \<or> (\<exists>y1 z. m y = (y1, Inr z) \<and> f z y1 = (y', Inl e))"
  by (auto simp: bindS_def split: prod.splits sum.splits)

lemma orElse_Inr: "orElse m h y = (y', Inr x) \<longleftrightarrow> m y = (y', Inr x) \<or> (\<exists>y1 e. m y = (y1, Inl e) \<and> h e y1 = (y', Inr x))"
  by (auto simp: orElse_def split: prod.splits sum.splits)

lemma orElse_Inl: "orElse m h y = (y', Inl x) \<longleftrightarrow> (\<exists>y1 e. m y = (y1, Inl e) \<and> h e y1 = (y', Inl x))"
  by (auto simp: orElse_def split: prod.splits sum.splits)

lemma retS_iff [simp]: "retS x y = (y', r) \<longleftrightarrow> y' = y \<and> r = Inr x"
  by (auto simp: retS_def)

lemma failS_iff [simp]: "failS e y = (y', r) \<longleftrightarrow> y' = y \<and> r = Inl e"
  by (auto simp: failS_def)

lemma modifyS_iff [simp]: "modifyS f y = (y', r) \<longleftrightarrow> y' = f y \<and> r = Inr ()"
  by (auto simp: modifyS_def)

lemma mapErrS_Inr [simp]: "mapErrS h m y = (y', Inr x) \<longleftrightarrow> m y = (y', Inr x)"
  by (auto simp: mapErrS_def orElse_Inr)

lemma mapErrS_Inl: "mapErrS h m y = (y', Inl e) \<longleftrightarrow> (\<exists>e1. m y = (y', Inl e1) \<and> e = h e1)"
  by (auto simp: mapErrS_def orElse_Inl)

lemmas runS = bindS_Inr bindS_Inl orElse_Inr orElse_Inl mapErrS_Inl

text \<open>A relation between the states before and after, kept by sequencing.\<close>

definition stepsS :: "('s \<Rightarrow> 's \<Rightarrow> bool) \<Rightarrow> ('s, 'e, 'a) sproc \<Rightarrow> bool" where
  "stepsS R m \<longleftrightarrow> (\<forall>y. R y (fst (m y)))"

lemma stepsS_D: "stepsS R m \<Longrightarrow> m y = (y', r) \<Longrightarrow> R y y'"
  unfolding stepsS_def by (metis fst_conv)

locale state_rel =
  fixes R :: "'s \<Rightarrow> 's \<Rightarrow> bool"
  assumes same: "R y y"
    and trans: "R y y1 \<Longrightarrow> R y1 y2 \<Longrightarrow> R y y2"
begin

lemma retS: "stepsS R (retS x)"
  by (simp add: stepsS_def retS_def same)

lemma failS: "stepsS R (failS e)"
  by (simp add: stepsS_def failS_def same)

lemma bindS:
  assumes "stepsS R m" "\<And>x. stepsS R (f x)"
  shows "stepsS R (bindS m f)"
  unfolding stepsS_def
proof
  fix y
  obtain y1 z where "m y = (y1, z)" by force
  with assms show "R y (fst (bindS m f y))"
    by (cases z) (auto simp: bindS_def stepsS_def intro: trans dest: spec [of _ y] spec [of _ y1])
qed

lemma orElse:
  assumes "stepsS R m" "\<And>e. stepsS R (h e)"
  shows "stepsS R (orElse m h)"
  unfolding stepsS_def
proof
  fix y
  obtain y1 z where "m y = (y1, z)" by force
  with assms show "R y (fst (orElse m h y))"
    by (cases z) (auto simp: orElse_def stepsS_def intro: trans dest: spec [of _ y] spec [of _ y1])
qed

lemma mapErrS: "stepsS R m \<Longrightarrow> stepsS R (mapErrS h m)"
  unfolding mapErrS_def by (intro orElse failS)

lemma ifS: "stepsS R m \<Longrightarrow> stepsS R m' \<Longrightarrow> stepsS R (if b then m else m')"
  by simp

end

end
