(* ===== verification/Go_Path.thy ===== *)
theory Go_Path
  imports Go_Prelude
begin

text \<open>
  The functions of Go's packages \<^verbatim>\<open>path\<close> and \<^verbatim>\<open>path/filepath\<close> (on Unix they are the same) that the code uses.
\<close>

text \<open>\<open>filepath.Clean\<close> on Unix, and \<open>filepath.Join\<close> of two parts. The stack of the parts that stay is reversed.\<close>

fun clean_parts :: "bool \<Rightarrow> string list \<Rightarrow> string list \<Rightarrow> string list" where
  "clean_parts rooted [] stack = stack"
| "clean_parts rooted (p # ps) stack =
     (if p = [] \<or> p = ''.'' then clean_parts rooted ps stack
      else if p = ''..''
      then (case stack of
              [] \<Rightarrow> clean_parts rooted ps (if rooted then [] else [''..''])
            | q # qs \<Rightarrow> clean_parts rooted ps (if q = ''..'' then ''..'' # stack else qs))
      else clean_parts rooted ps (p # stack))"

fun join_parts :: "string list \<Rightarrow> string" where
  "join_parts [] = []"
| "join_parts [p] = p"
| "join_parts (p # ps) = p @ ''/'' @ join_parts ps"

definition filepath_Clean :: "string \<Rightarrow> string" where
  "filepath_Clean p =
     (let rooted = HasPrefix p ''/'';
          body = join_parts (rev (clean_parts rooted (Split p (CHR ''/'')) []))
      in if rooted then ''/'' @ body else if body = [] then ''.'' else body)"

definition filepath_Join :: "string \<Rightarrow> string \<Rightarrow> string" where
  "filepath_Join a b =
     (case filter (\<lambda>p. p \<noteq> []) [a, b] of [] \<Rightarrow> [] | ps \<Rightarrow> filepath_Clean (join_parts ps))"

text \<open>\<open>strings.Trim(s, "/")\<close>, and the parts of a URL path.\<close>

definition trim_slashes :: "string \<Rightarrow> string" where
  "trim_slashes s = rev (dropWhile (\<lambda>c. c = CHR ''/'') (rev (dropWhile (\<lambda>c. c = CHR ''/'') s)))"

definition path_parts :: "string \<Rightarrow> string list" where
  "path_parts p = Split (trim_slashes p) (CHR ''/'')"

text \<open>The last part, and the last but one; every call has enough parts.\<close>

definition part_from_end :: "nat \<Rightarrow> string list \<Rightarrow> string" where
  "part_from_end n parts = parts ! (length parts - n)"

end
