(* ===== verification/Smtp_Session.thy ===== *)
theory Smtp_Session
  imports Imap_Session Delivery Sieve_Exec Greylist State_Err Go_Path
begin

text \<open>
  Package \<^verbatim>\<open>internal/smtp\<close>: the sessions of the MX and the submission server (\<^verbatim>\<open>backend.go\<close>, and the submission backend of
  \<^verbatim>\<open>server.go\<close>). A session joins the other components: accounts and mail store (the world of \<open>Mail_World\<close>), the Sieve
  executor with its scripts and vacation store, greylisting, and the engine with the queue. The record \<open>mail_system\<close> holds their
  states together; its last two fields collect the goroutines that a delivery starts. What a call sees of clock, random numbers
  and file errors is the record \<open>smtp_env\<close>. The context of a session is never cancelled, so the checks of it are left out, like
  log messages and metrics.
\<close>

section \<open>State\<close>

record backend =
  bk_Domain :: string \<comment> \<open>\<open>config.Server.Domain\<close>\<close>
  bk_MaxMessageSize :: int
  bk_queuePath :: string
  bk_sieve :: bool \<comment> \<open>a Sieve executor is set\<close>
  bk_greylister :: "greylister option"
  bk_notifier :: bool \<comment> \<open>\<open>onLocalDelivery\<close> is set\<close>

record 'r mail_system =
  sy_world :: world
  sy_engine :: "'r engine option"
  sy_grey :: "grey_row list"
  sy_scripts :: "script_row list"
  sy_vacations :: "vac_store option"
  sy_responses :: "(sv_result \<times> user) list" \<comment> \<open>vacation responses to be sent\<close>
  sy_notes :: "(string \<times> string) list" \<comment> \<open>notifications of local deliveries\<close>

record smtp_session =
  ss_user :: "user option"
  ss_from :: string
  ss_rcpts :: "string list"
  ss_isSubmission :: bool
  ss_remoteAddr :: string

datatype smtp_error =
    SMTPError nat "nat \<times> nat \<times> nat" string
  | AuthFailed
  | AccountErr string auth_error \<comment> \<open>wrapping text, cause\<close>
  | QueueErr enqueue_error
  | Failed string

record smtp_env =
  sx_now :: time
  sx_key :: string \<comment> \<open>the random bytes of a maildir key\<close>
  sx_rand :: "string option" \<comment> \<open>the random bytes of a queue file name\<close>
  sx_write :: "(string \<times> string option) option" \<comment> \<open>an error of \<open>os.WriteFile\<close>, and what it left in the file\<close>
  sx_rename :: "string option"
  sx_script :: "string option" \<comment> \<open>an error of the query for the active script\<close>
  sx_greySelect :: "string option"
  sx_greyExec :: "string option"
  sx_denv :: denv

text \<open>An operation of the world as one of the system.\<close>

definition liftS :: "('e, 'a) proc \<Rightarrow> ('r mail_system, 'e, 'a) sproc" where
  "liftS m y = (case m (sy_world y) of (w, r) \<Rightarrow> (y\<lparr>sy_world := w\<rparr>, r))"

section \<open>Opening a session\<close>

text \<open>\<open>NewBackend\<close>: the configuration is its domain, size limit and data directory; the flags say whether the arguments are
  not nil.\<close>

definition NewBackend ::
    "(string \<times> int \<times> string) option \<Rightarrow> bool \<Rightarrow> bool \<Rightarrow> bool \<Rightarrow> string option \<Rightarrow> (string, backend) result" where
  "NewBackend cfg authenticator store logger mkdirErr =
     (case cfg of
        None \<Rightarrow> Inl ''config cannot be nil''
      | Some (domain, maxSize, dataDir) \<Rightarrow>
          if \<not> authenticator then Inl ''authenticator cannot be nil''
          else if \<not> store then Inl ''store cannot be nil''
          else if \<not> logger then Inl ''logger cannot be nil''
          else (case mkdirErr of
                  Some e \<Rightarrow> Inl (''failed to create queue directory: '' @ e)
                | None \<Rightarrow> Inr \<lparr>bk_Domain = domain, bk_MaxMessageSize = maxSize, bk_queuePath = filepath_Join dataDir ''queue'',
                               bk_sieve = False, bk_greylister = None, bk_notifier = False\<rparr>))"

definition SetLocalDeliveryNotifier :: "bool \<Rightarrow> backend \<Rightarrow> backend" where
  "SetLocalDeliveryNotifier notifier b = b\<lparr>bk_notifier := notifier\<rparr>"

definition SetGreylister :: "greylister option \<Rightarrow> backend \<Rightarrow> backend" where
  "SetGreylister gl b = b\<lparr>bk_greylister := gl\<rparr>"

definition SetSieveExecutor :: "bool \<Rightarrow> backend \<Rightarrow> backend" where
  "SetSieveExecutor executor b = b\<lparr>bk_sieve := executor\<rparr>"

text \<open>\<open>NewSession\<close> of a backend and a connection that are not nil; the address is empty when there is none.\<close>

definition NewSession_smtp :: "string \<Rightarrow> smtp_session" where
  "NewSession_smtp remoteAddr =
     \<lparr>ss_user = None, ss_from = [], ss_rcpts = [], ss_isSubmission = False, ss_remoteAddr = remoteAddr\<rparr>"

definition NewSession_submission :: "string \<Rightarrow> smtp_session" where
  "NewSession_submission remoteAddr = (NewSession_smtp remoteAddr)\<lparr>ss_isSubmission := True\<rparr>"

definition AuthMechanisms :: "string list" where
  "AuthMechanisms = [''PLAIN'']"

definition Auth_smtp :: "argon2 \<Rightarrow> string \<Rightarrow> string \<Rightarrow> smtp_session \<Rightarrow> ('r mail_system, smtp_error, smtp_session) sproc" where
  "Auth_smtp A username password s =
     bindS (mapErrS (\<lambda>e. AuthFailed) (liftS (Authenticate A username password))) (\<lambda>u. retS (s\<lparr>ss_user := Some u\<rparr>))"

definition Mail_smtp :: "string \<Rightarrow> smtp_session \<Rightarrow> smtp_session" where
  "Mail_smtp from s = s\<lparr>ss_from := from\<rparr>"

definition Reset_smtp :: "smtp_session \<Rightarrow> smtp_session" where
  "Reset_smtp s = s\<lparr>ss_from := [], ss_rcpts := []\<rparr>"

text \<open>\<open>Rcpt\<close>: a greylister that fails lets the recipient pass.\<close>

definition greylist_passes :: "backend \<Rightarrow> smtp_env \<Rightarrow> string \<Rightarrow> smtp_session \<Rightarrow> ('r mail_system, smtp_error, unit) sproc" where
  "greylist_passes b env addr s y =
     (case bk_greylister b of
        None \<Rightarrow> (y, Inr ())
      | Some gl \<Rightarrow>
          if \<not> g_enabled gl then (y, Inr ())
          else (case Check (Some gl) (sx_now env) (sx_greySelect env) (sx_greyExec env) (ss_remoteAddr s) (ss_from s) addr (sy_grey y) of
                  (rows, res) \<Rightarrow>
                    (y\<lparr>sy_grey := rows\<rparr>,
                     if cr_err res \<noteq> None \<or> cr_allow res then Inr ()
                     else Inl (SMTPError 451 (4, 7, 1) ''Greylisting in effect, please retry in a few minutes''))))"

definition Rcpt_smtp :: "backend \<Rightarrow> smtp_env \<Rightarrow> string \<Rightarrow> smtp_session \<Rightarrow> ('r mail_system, smtp_error, smtp_session) sproc" where
  "Rcpt_smtp b env addr s =
     (if ss_isSubmission s then retS (s\<lparr>ss_rcpts := ss_rcpts s @ [addr]\<rparr>)
      else bindS (mapErrS (\<lambda>e. SMTPError 451 (4, 3, 0) ''Temporary failure, please try again'') (liftS (ValidateAddress addr))) (\<lambda>valid.
           if \<not> valid then failS (SMTPError 550 (5, 1, 1) ''User not found'')
           else bindS (greylist_passes b env addr s) (\<lambda>_. retS (s\<lparr>ss_rcpts := ss_rcpts s @ [addr]\<rparr>))))"

section \<open>Addresses and headers\<close>

definition parseAddress :: "string \<Rightarrow> string \<times> string" where
  "parseAddress addr0 =
     (let addr = TrimSuffix (TrimPrefix addr0 ''<'') ''>''
      in case SplitN2 addr (CHR ''@'') of [l, d] \<Rightarrow> (ToLower l, ToLower d) | _ \<Rightarrow> (addr, []))"

fun hex_nat :: "nat \<Rightarrow> string" where
  "hex_nat n = (if n < 16 then [hex_digit n] else hex_nat (n div 16) @ [hex_digit (n mod 16)])"

declare hex_nat.simps [simp del]

definition generateID :: "time \<Rightarrow> string option \<Rightarrow> string" where
  "generateID now rnd =
     (case rnd of
        None \<Rightarrow> show_int now @ ''-'' @ hex_nat (nat (now mod 0xFFFFFF))
      | Some b \<Rightarrow> hex_encode b)"

text \<open>\<open>textproto.ReadMIMEHeader\<close>: the lines of the data without their line ends (a last line that is not ended keeps its carriage
  return), continuation lines joined with one blank, and header lines up to the first blank or malformed one. The error is not
  returned, because its only use in \<open>parseMessageForSieve\<close> is together with an empty header, which gives the same message.\<close>

definition chop_CR :: "string \<Rightarrow> string" where
  "chop_CR l = TrimSuffix l [CHR 0x0D]"

definition input_lines :: "string \<Rightarrow> string list" where
  "input_lines data =
     (let ls = Split data (CHR 0x0A) in map chop_CR (butlast ls) @ (if last ls = [] then [] else [last ls]))"

definition is_blank :: "char \<Rightarrow> bool" where
  "is_blank c \<longleftrightarrow> c = CHR '' '' \<or> c = CHR 0x09"

definition trim_blanks :: "string \<Rightarrow> string" where
  "trim_blanks s = rev (dropWhile is_blank (rev (dropWhile is_blank s)))"

definition continues :: "string \<Rightarrow> bool" where
  "continues l \<longleftrightarrow> l \<noteq> [] \<and> is_blank (hd l)"

fun take_continued :: "string list \<Rightarrow> string \<Rightarrow> string \<times> string list" where
  "take_continued [] acc = (acc, [])"
| "take_continued (l # ls) acc = (if continues l then take_continued ls (acc @ '' '' @ trim_blanks l) else (acc, l # ls))"

definition token_chars :: string where
  "token_chars = ''!#$%&'' @ [CHR 0x27] @ ''*+-.^_`|~''"

definition is_letter :: "char \<Rightarrow> bool" where
  "is_letter c \<longleftrightarrow> (let n = (of_char (lower_char c) :: nat) in 97 \<le> n \<and> n \<le> 122)"

definition upper_char :: "char \<Rightarrow> char" where
  "upper_char c = (let n = (of_char c :: nat) in if 97 \<le> n \<and> n \<le> 122 then char_of (n - 32) else c)"

definition validHeaderFieldByte :: "char \<Rightarrow> bool" where
  "validHeaderFieldByte c \<longleftrightarrow> is_digit c \<or> is_letter c \<or> c \<in> set token_chars"

definition validHeaderValueByte :: "char \<Rightarrow> bool" where
  "validHeaderValueByte c \<longleftrightarrow> c = CHR 0x09 \<or> (0x20 \<le> (of_char c :: nat) \<and> c \<noteq> CHR 0x7F)"

fun canon_bytes :: "bool \<Rightarrow> string \<Rightarrow> string" where
  "canon_bytes up [] = []"
| "canon_bytes up (c # cs) = (let d = (if up then upper_char c else lower_char c) in d # canon_bytes (d = CHR ''-'') cs)"

definition canonicalMIMEHeaderKey :: "string \<Rightarrow> string option" where
  "canonicalMIMEHeaderKey k =
     (if k = [] \<or> \<not> list_all (\<lambda>c. validHeaderFieldByte c \<or> c = CHR '' '') k then None
      else if CHR '' '' \<in> set k then Some k else Some (canon_bytes True k))"

definition header_line :: "string \<Rightarrow> (string \<times> string) option" where
  "header_line kv = (case Index kv '':'' of
     None \<Rightarrow> None
   | Some i \<Rightarrow> (case canonicalMIMEHeaderKey (take i kv) of
        None \<Rightarrow> None
      | Some key \<Rightarrow> if list_all validHeaderValueByte (drop (i + 1) kv) then Some (key, dropWhile is_blank (drop (i + 1) kv)) else None))"

definition add_header :: "string \<Rightarrow> string \<Rightarrow> (string \<times> string list) list \<Rightarrow> (string \<times> string list) list" where
  "add_header k v m = AList.update k ((case map_of m k of None \<Rightarrow> [] | Some vs \<Rightarrow> vs) @ [v]) m"

lemma take_continued_length: "length (snd (take_continued ls acc)) \<le> length ls"
  by (induction ls acc rule: take_continued.induct) auto

function read_headers :: "string list \<Rightarrow> (string \<times> string list) list \<Rightarrow> (string \<times> string list) list" where
  "read_headers ls m =
     (case ls of
        [] \<Rightarrow> m
      | l # rest \<Rightarrow>
          if l = [] \<or> CHR '':'' \<notin> set l then m
          else (case header_line (fst (take_continued rest (trim_blanks l))) of
                  None \<Rightarrow> m
                | Some (k, v) \<Rightarrow> read_headers (snd (take_continued rest (trim_blanks l))) (add_header k v m)))"
  by auto
termination by (relation "measure (\<lambda>(ls, m). length ls)") (auto simp: less_Suc_eq_le take_continued_length)

declare read_headers.simps [simp del]

definition ReadMIMEHeader :: "string \<Rightarrow> (string \<times> string list) list" where
  "ReadMIMEHeader data = (if continues data then [] else read_headers (input_lines data) [])"

definition header_Get :: "(string \<times> string list) list \<Rightarrow> string \<Rightarrow> string" where
  "header_Get m k = (case map_of m k of Some (v # vs) \<Rightarrow> v | _ \<Rightarrow> [])"

definition parseMessageForSieve :: "smtp_session \<Rightarrow> string \<Rightarrow> sv_message" where
  "parseMessageForSieve s data =
     (let headers = ReadMIMEHeader data
      in sv_message.make
           (let from = header_Get headers ''From'' in if from \<noteq> [] then from else ss_from s)
           (let dest = header_Get headers ''To'' in if dest \<noteq> [] then map TrimSpace (Split dest (CHR '','')) else [])
           (header_Get headers ''Subject'') headers (int (length data)))"

section \<open>The queue directory\<close>

definition saveMessageToQueue :: "backend \<Rightarrow> smtp_env \<Rightarrow> string \<Rightarrow> 'r engine \<Rightarrow> 'r engine \<times> (string, string) result" where
  "saveMessageToQueue b env data e =
     (if data = [] then (e, Inl ''message data is empty'')
      else (let filename = show_int (sx_now env) @ ''-'' @ generateID (sx_now env) (sx_rand env) @ ''.eml'';
                path = filepath_Join (bk_queuePath b) filename;
                tempPath = path @ ''.tmp''
            in case sx_write env of
                 Some (err, left) \<Rightarrow>
                   (e\<lparr>en_files := (case left of None \<Rightarrow> en_files e | Some part \<Rightarrow> AList.update tempPath part (en_files e))\<rparr>,
                    Inl (''failed to write temp file: '' @ err))
               | None \<Rightarrow>
                   (let files = AList.update tempPath data (en_files e)
                    in case sx_rename env of
                         Some err \<Rightarrow>
                           (e\<lparr>en_files := fst (os_Remove (sx_denv env) tempPath files)\<rparr>, Inl (''failed to rename temp file: '' @ err))
                       | None \<Rightarrow> (e\<lparr>en_files := AList.update path data (AList.delete tempPath files)\<rparr>, Inr path))))"

text \<open>Saving a message and handing it to the engine, which four places of the code do; when the engine does not take it the file
  is removed again.\<close>

datatype queue_failure = SaveFailed string | EnqueueFailed enqueue_error

definition queue_message ::
    "('d, 'r) redis \<Rightarrow> backend \<Rightarrow> smtp_env \<Rightarrow> string \<Rightarrow> string list \<Rightarrow> string \<Rightarrow> 'r engine
     \<Rightarrow> 'r engine \<times> (queue_failure, message list) result" where
  "queue_message R b env sender rcpts data e =
     (case saveMessageToQueue b env data e of
        (e1, Inl err) \<Rightarrow> (e1, Inl (SaveFailed err))
      | (e1, Inr path) \<Rightarrow>
          (case Enqueue_engine R (sx_denv env) (sx_now env) sender rcpts path e1 of
             (e2, Inl err) \<Rightarrow> (e2\<lparr>en_files := fst (os_Remove (sx_denv env) path (en_files e2))\<rparr>, Inl (EnqueueFailed err))
           | (e2, Inr ms) \<Rightarrow> (e2, Inr ms)))"

definition with_engine ::
    "('r engine \<Rightarrow> 'r engine \<times> ('e, 'a) result) \<Rightarrow> 'r engine \<Rightarrow> ('r mail_system, 'e, 'a) sproc" where
  "with_engine f e y = (case f e of (e', r) \<Rightarrow> (y\<lparr>sy_engine := Some e'\<rparr>, r))"

text \<open>\<open>sendVacationResponse\<close>, the goroutine that a delivery starts; the date is the clock formatted.\<close>

definition CRLF :: string where
  "CRLF = [CHR 0x0D, CHR 0x0A]"

definition vacation_message :: "backend \<Rightarrow> smtp_env \<Rightarrow> sv_result \<Rightarrow> user \<Rightarrow> string" where
  "vacation_message b env result u =
     ''From: '' @ us_Email u @ CRLF @ ''To: '' @ sr_VacationTo result @ CRLF @ ''Subject: '' @ sr_VacationSubject result @ CRLF @
     ''Auto-Submitted: auto-replied'' @ CRLF @ ''X-Auto-Response-Suppress: All'' @ CRLF @
     ''Date: '' @ ev_date (sx_denv env) @ CRLF @
     ''Message-ID: <'' @ generateID (sx_now env) (sx_rand env) @ ''@'' @ bk_Domain b @ ''>'' @ CRLF @
     ''MIME-Version: 1.0'' @ CRLF @ ''Content-Type: text/plain; charset=utf-8'' @ CRLF @ CRLF @ sr_VacationBody result"

definition sendVacationResponse ::
    "('d, 'r) redis \<Rightarrow> backend \<Rightarrow> smtp_env \<Rightarrow> sv_result \<times> user \<Rightarrow> 'r mail_system \<Rightarrow> 'r mail_system" where
  "sendVacationResponse R b env task y =
     (case (sy_engine y, task) of
        (None, _) \<Rightarrow> y
      | (Some e, (result, u)) \<Rightarrow>
          y\<lparr>sy_engine := Some (fst (queue_message R b env (us_Email u) [sr_VacationTo result] (vacation_message b env result u) e))\<rparr>)"

section \<open>Local delivery\<close>

text \<open>The part of \<open>deliverToLocalRecipient\<close> for an alias with an external address: without an engine the message is dropped.\<close>

definition forward_external ::
    "('d, 'r) redis \<Rightarrow> backend \<Rightarrow> smtp_env \<Rightarrow> smtp_session \<Rightarrow> string \<Rightarrow> string \<Rightarrow> ('r mail_system, smtp_error, unit) sproc" where
  "forward_external R b env s external data y =
     (case sy_engine y of
        None \<Rightarrow> (y, Inr ())
      | Some e \<Rightarrow>
          bindS (mapErrS (\<lambda>f. case f of SaveFailed err \<Rightarrow> Failed (''failed to save message for forwarding: '' @ err)
                                        | EnqueueFailed err \<Rightarrow> QueueErr err)
                   (with_engine (queue_message R b env (ss_from s) [external] data) e)) (\<lambda>_. retS ()) y)"

text \<open>The outcome of the Sieve script: \<open>None\<close> when delivery ends here with success, otherwise the mailbox to deliver to. Redirecting
  returns whether delivery goes on: a failure of the engine is only logged.\<close>

definition redirect_message ::
    "('d, 'r) redis \<Rightarrow> backend \<Rightarrow> smtp_env \<Rightarrow> smtp_session \<Rightarrow> sv_result \<Rightarrow> string \<Rightarrow> ('r mail_system, smtp_error, bool) sproc" where
  "redirect_message R b env s result data y =
     (case sy_engine y of
        None \<Rightarrow> (y, Inr (sr_Keep result))
      | Some e \<Rightarrow>
          orElse (bindS (with_engine (queue_message R b env (ss_from s) (sr_RedirectTo result) data) e) (\<lambda>_. retS (sr_Keep result)))
            (\<lambda>f. case f of
               SaveFailed err \<Rightarrow> failS (Failed (''failed to save message for redirect: '' @ err))
             | EnqueueFailed err \<Rightarrow> retS (sr_Keep result)) y)"

definition file_and_reply :: "sv_result \<Rightarrow> user \<Rightarrow> ('r mail_system, smtp_error, string option) sproc" where
  "file_and_reply result u =
     bindS (modifyS (\<lambda>y. if sr_Vacation result \<and> sr_VacationTo result \<noteq> [] then y\<lparr>sy_responses := sy_responses y @ [(result, u)]\<rparr> else y))
       (\<lambda>_. retS (Some (if sr_Filed result \<and> sr_FileInto result \<noteq> [] then sr_FileInto result else ''INBOX'')))"

definition apply_result ::
    "('d, 'r) redis \<Rightarrow> backend \<Rightarrow> smtp_env \<Rightarrow> smtp_session \<Rightarrow> user \<Rightarrow> string \<Rightarrow> sv_result \<Rightarrow> ('r mail_system, smtp_error, string option) sproc" where
  "apply_result R b env s u data result =
     (if sr_Discarded result then retS None
      else if sr_Rejected result then failS (Failed (''message rejected: '' @ sr_RejectMsg result))
      else if sr_Redirected result \<and> sr_RedirectTo result \<noteq> []
      then bindS (redirect_message R b env s result data) (\<lambda>goOn. if goOn then file_and_reply result u else retS None)
      else file_and_reply result u)"

definition run_sieve ::
    "('d, 'r) redis \<Rightarrow> backend \<Rightarrow> smtp_env \<Rightarrow> smtp_session \<Rightarrow> user \<Rightarrow> string \<Rightarrow> ('r mail_system, smtp_error, string option) sproc" where
  "run_sieve R b env s u data y =
     (if \<not> bk_sieve b then (y, Inr (Some ''INBOX''))
      else (case Execute_sieve (sx_now env) (us_ID u) (parseMessageForSieve s data) (sx_script env) (sy_scripts y) (sy_vacations y) of
              Inl err \<Rightarrow> (y, Inr (Some ''INBOX''))
            | Inr (result, vs) \<Rightarrow> apply_result R b env s u data result (y\<lparr>sy_vacations := vs\<rparr>)))"

text \<open>The mailbox to deliver to, with the name that is notified.\<close>

definition find_mailbox_for :: "smtp_env \<Rightarrow> user \<Rightarrow> string \<Rightarrow> (string, mailbox \<times> string) proc" where
  "find_mailbox_for env u target =
     onErr (\<lambda>err.
         if target \<noteq> ''INBOX''
         then onErr (\<lambda>err2. bindE (mapErr (\<lambda>e. ''INBOX not found: '' @ e) (GetMailbox (us_ID u) ''INBOX'')) (\<lambda>mb. retE (mb, ''INBOX'')))
                (bindE (CreateMailbox (us_ID u) target [] (sx_now env)) (\<lambda>mb. retE (mb, target)))
         else failE (''INBOX not found: '' @ err))
       (bindE (GetMailbox (us_ID u) target) (\<lambda>mb. retE (mb, target)))"

definition over_quota :: "user \<Rightarrow> string \<Rightarrow> bool" where
  "over_quota u data \<longleftrightarrow> us_QuotaBytes u > 0 \<and> us_UsedBytes u + int (length data) > us_QuotaBytes u"

definition store_locally ::
    "unseen_fun \<Rightarrow> backend \<Rightarrow> smtp_env \<Rightarrow> user \<Rightarrow> string \<Rightarrow> string \<Rightarrow> ('r mail_system, smtp_error, unit) sproc" where
  "store_locally unseen b env u data target =
     bindS (mapErrS Failed (liftS (find_mailbox_for env u target))) (\<lambda>(mailbox, name).
     if over_quota u data then failS (SMTPError 452 (4, 2, 2) ''Mailbox quota exceeded'')
     else
     bindS (mapErrS (\<lambda>e. Failed (''failed to append message: '' @ e))
              (liftS (AppendMessage unseen (sx_now env) (sx_key env) (mb_ID mailbox) [] (sx_now env) (Inr data)))) (\<lambda>_.
     bindS (liftS (ignoreE (UpdateUsedBytes (us_ID u) (int (length data))))) (\<lambda>_.
     modifyS (\<lambda>y. if bk_notifier b then y\<lparr>sy_notes := sy_notes y @ [(us_Email u, name)]\<rparr> else y))))"

definition deliver_to_user ::
    "('d, 'r) redis \<Rightarrow> unseen_fun \<Rightarrow> backend \<Rightarrow> smtp_env \<Rightarrow> smtp_session \<Rightarrow> string \<Rightarrow> user \<Rightarrow> ('r mail_system, smtp_error, unit) sproc" where
  "deliver_to_user R unseen b env s data u =
     bindS (run_sieve R b env s u data) (\<lambda>target.
     case target of None \<Rightarrow> retS () | Some t \<Rightarrow> store_locally unseen b env u data t)"

definition deliverToLocalRecipient ::
    "('d, 'r) redis \<Rightarrow> unseen_fun \<Rightarrow> backend \<Rightarrow> smtp_env \<Rightarrow> smtp_session \<Rightarrow> string \<Rightarrow> string \<Rightarrow> ('r mail_system, smtp_error, unit) sproc" where
  "deliverToLocalRecipient R unseen b env s data rcpt =
     bindS (mapErrS (AccountErr ''failed to resolve alias'') (liftS (ResolveAlias rcpt))) (\<lambda>(userID, external).
     case external of
       Some addr \<Rightarrow> forward_external R b env s addr data
     | None \<Rightarrow>
         bindS (mapErrS (AccountErr ''user not found'')
                  (liftS (case userID of Some i \<Rightarrow> LookupUserByID i | None \<Rightarrow> LookupUser rcpt)))
           (deliver_to_user R unseen b env s data))"

section \<open>Data\<close>

text \<open>One recipient after the other, each with its own environment; the result says for each whether it failed.\<close>

fun deliver_each ::
    "('d, 'r) redis \<Rightarrow> unseen_fun \<Rightarrow> backend \<Rightarrow> (nat \<Rightarrow> smtp_env) \<Rightarrow> nat \<Rightarrow> smtp_session \<Rightarrow> string \<Rightarrow> string list
     \<Rightarrow> 'r mail_system \<Rightarrow> 'r mail_system \<times> (string \<times> smtp_error option) list" where
  "deliver_each R unseen b envs i s data [] y = (y, [])"
| "deliver_each R unseen b envs i s data (rcpt # rcpts) y =
     (case deliverToLocalRecipient R unseen b (envs i) s data rcpt y of
        (y1, r) \<Rightarrow>
          (case deliver_each R unseen b envs (Suc i) s data rcpts y1 of
             (y2, rs) \<Rightarrow> (y2, (rcpt, case r of Inl e \<Rightarrow> Some e | Inr _ \<Rightarrow> None) # rs)))"

definition handleInbound ::
    "('d, 'r) redis \<Rightarrow> unseen_fun \<Rightarrow> backend \<Rightarrow> (nat \<Rightarrow> smtp_env) \<Rightarrow> smtp_session \<Rightarrow> string \<Rightarrow> ('r mail_system, smtp_error, unit) sproc" where
  "handleInbound R unseen b envs s data y =
     (case deliver_each R unseen b envs 0 s data (ss_rcpts s) y of
        (y1, rs) \<Rightarrow>
          (let deliveryErrors = [e. (rcpt, Some e) \<leftarrow> rs]; successCount = length [rcpt. (rcpt, None) \<leftarrow> rs]
           in (y1, if successCount = 0 \<and> length deliveryErrors > 0
                   then Inl (SMTPError 451 (4, 0, 0) ''Temporary delivery failure for all recipients'') else Inr ())))"

definition is_local :: "backend \<Rightarrow> string \<Rightarrow> bool" where
  "is_local b rcpt \<longleftrightarrow> snd (parseAddress rcpt) = bk_Domain b"

definition queue_external ::
    "('d, 'r) redis \<Rightarrow> backend \<Rightarrow> smtp_env \<Rightarrow> smtp_session \<Rightarrow> string \<Rightarrow> string list \<Rightarrow> ('r mail_system, smtp_error, unit) sproc" where
  "queue_external R b env s data externalRcpts y =
     (if externalRcpts = [] then (y, Inr ())
      else (case sy_engine y of
              None \<Rightarrow> (y, Inl (SMTPError 451 (4, 3, 0) ''Mail delivery temporarily unavailable''))
            | Some e \<Rightarrow>
                bindS (mapErrS (\<lambda>f. case f of
                                     SaveFailed err \<Rightarrow> SMTPError 451 (4, 3, 0) ''Temporary failure saving message''
                                   | EnqueueFailed err \<Rightarrow> SMTPError 451 (4, 3, 0) ''Temporary failure queuing message'')
                         (with_engine (queue_message R b env (ss_from s) externalRcpts data) e)) (\<lambda>_. retS ()) y))"

definition save_to_sent :: "unseen_fun \<Rightarrow> smtp_env \<Rightarrow> smtp_session \<Rightarrow> string \<Rightarrow> ('e, unit) proc" where
  "save_to_sent unseen env s data =
     (case ss_user s of
        None \<Rightarrow> retE ()
      | Some u \<Rightarrow>
          onErr (\<lambda>e. retE ())
            (bindE (GetMailbox (us_ID u) ''Sent'') (\<lambda>sent.
             bindE (AppendMessage unseen (sx_now env) (sx_key env) (mb_ID sent) [FlagSeen] (sx_now env) (Inr data)) (\<lambda>_. retE ()))))"

text \<open>\<open>handleOutbound\<close>: \<open>env\<close> is for the queue and the folder of sent mail, \<open>envs\<close> for the local recipients.\<close>

definition handleOutbound ::
    "('d, 'r) redis \<Rightarrow> unseen_fun \<Rightarrow> backend \<Rightarrow> smtp_env \<Rightarrow> (nat \<Rightarrow> smtp_env) \<Rightarrow> smtp_session \<Rightarrow> string \<Rightarrow> ('r mail_system, smtp_error, unit) sproc" where
  "handleOutbound R unseen b env envs s data y =
     (let localRcpts = filter (is_local b) (ss_rcpts s); externalRcpts = filter (\<lambda>r. \<not> is_local b r) (ss_rcpts s)
      in case deliver_each R unseen b envs 0 s data localRcpts y of
           (y1, rs) \<Rightarrow>
             bindS (queue_external R b env s data externalRcpts) (\<lambda>_.
             bindS (liftS (save_to_sent unseen env s data)) (\<lambda>_.
             if (\<exists>(rcpt, e)\<in>set rs. e \<noteq> None) \<and> externalRcpts = [] then failS (SMTPError 451 (4, 0, 0) ''Delivery failed'')
             else retS ())) y1)"

text \<open>What the reader of \<open>Data\<close> gives: its bytes, then its end or an error; \<open>None\<close> is the nil reader. The limited reader stops at
  the limit without a look at what follows.\<close>

definition ReadAll_limited :: "int \<Rightarrow> string \<times> string option \<Rightarrow> (string, string) result" where
  "ReadAll_limited limit r =
     (case r of (content, err) \<Rightarrow>
        if int (length content) \<ge> limit then Inr (take (nat limit) content)
        else (case err of Some e \<Rightarrow> Inl e | None \<Rightarrow> Inr content))"

definition Data_smtp ::
    "('d, 'r) redis \<Rightarrow> unseen_fun \<Rightarrow> backend \<Rightarrow> smtp_env \<Rightarrow> (nat \<Rightarrow> smtp_env) \<Rightarrow> (string \<times> string option) option \<Rightarrow> smtp_session
     \<Rightarrow> ('r mail_system, smtp_error, unit) sproc" where
  "Data_smtp R unseen b env envs r s =
     (case r of
        None \<Rightarrow> failS (SMTPError 451 (4, 3, 0) ''Invalid data reader'')
      | Some reader \<Rightarrow>
          if ss_rcpts s = [] then failS (SMTPError 503 (5, 5, 1) ''No recipients specified'')
          else (case ReadAll_limited (bk_MaxMessageSize b) reader of
                  Inl e \<Rightarrow> failS (SMTPError 451 (4, 3, 0) ''Error reading message data'')
                | Inr data \<Rightarrow> if ss_isSubmission s then handleOutbound R unseen b env envs s data
                              else handleInbound R unseen b envs s data))"

section \<open>What a delivery does to the mail store\<close>

lemma liftS_iff: "liftS m y = (y', r) \<longleftrightarrow> (\<exists>w. m (sy_world y) = (w, r) \<and> y' = y\<lparr>sy_world := w\<rparr>)"
  by (auto simp: liftS_def split: prod.splits)

lemma with_engine_world: "with_engine f e y = (y', r) \<Longrightarrow> sy_world y' = sy_world y"
  by (auto simp: with_engine_def split: prod.splits)

text \<open>Operations that keep all mail; a key that was free stays free.\<close>

definition mail_kept :: "world \<Rightarrow> world \<Rightarrow> bool" where
  "mail_kept w w' \<longleftrightarrow> Maildir_Store.store_ok w \<longrightarrow>
     Maildir_Store.store_ok w' \<and> contents w' = contents w \<and> (\<forall>k. fresh_key k w \<longrightarrow> fresh_key k w')"

lemma mail_kept_quiet:
  assumes "quiet w w'"
  shows "mail_kept w w'"
  unfolding mail_kept_def
proof
  assume ok: "Maildir_Store.store_ok w"
  have "fresh_key k w'" if "fresh_key k w" for k
    using that assms ok by (simp add: fresh_key_def quiet_def same_tables_def same_bodies_def Maildir_Store.store_ok_def files_ok_def)
  then show "Maildir_Store.store_ok w' \<and> contents w' = contents w \<and> (\<forall>k. fresh_key k w \<longrightarrow> fresh_key k w')"
    using quiet_store [OF assms ok] by simp
qed

lemma mail_kept_trans: "mail_kept w w1 \<Longrightarrow> mail_kept w1 w2 \<Longrightarrow> mail_kept w w2"
  by (simp add: mail_kept_def)

interpretation kp: step_rel mail_kept
  by unfold_locales (rule mail_kept_quiet, rule quiet_same, assumption, rule mail_kept_trans)

lemma raise_seq:
  assumes "Maildir_Store.store_ok w" "w_mailbox_seq w \<le> n"
  shows "Maildir_Store.store_ok (w\<lparr>w_mailbox_seq := n\<rparr>) \<and> contents (w\<lparr>w_mailbox_seq := n\<rparr>) = contents w"
proof -
  have p: "path_of (w\<lparr>w_mailbox_seq := n\<rparr>) = path_of w" by (rule path_of_cong) simp
  have "tables_ok (w\<lparr>w_mailbox_seq := n\<rparr>)" using assms by (force simp: Maildir_Store.store_ok_def tables_ok_def)
  then show ?thesis
    using assms(1) by (simp add: Maildir_Store.store_ok_def body_stored_def contents_def abs_msg_def p fun_eq_iff)
qed

lemma find_append_hit: "x \<in> set xs \<Longrightarrow> P x \<Longrightarrow> find P (xs @ ys) = find P xs"
  by (induction xs) auto

lemma new_mailbox_row:
  assumes "insert_mailbox u n v sp now w = Inr (w1, i)"
  obtains mb where "w1 = w\<lparr>w_mailbox_seq := i, w_mailboxes := w_mailboxes w @ [mb]\<rparr>" "i = w_mailbox_seq w + 1" "mb_ID mb = i"
    "mb_UserID mb = u" "mb_Name mb = n" "\<not> list_ex (\<lambda>mb. mb_UserID mb = u \<and> mb_Name mb = n) (w_mailboxes w)"
proof -
  define mb where "mb = \<lparr>mb_ID = w_mailbox_seq w + 1, mb_UserID = u, mb_Name = n, mb_UIDValidity = v, mb_UIDNext = 1, mb_SpecialUse = sp,
    mb_Subscribed = True, mb_CreatedAt = now\<rparr>"
  have new: "\<not> list_ex (\<lambda>mb. mb_UserID mb = u \<and> mb_Name mb = n) (w_mailboxes w)"
    and e: "w\<lparr>w_mailbox_seq := w_mailbox_seq w + 1, w_mailboxes := w_mailboxes w @ [mb]\<rparr> = w1 \<and> w_mailbox_seq w + 1 = i"
    using assms unfolding insert_mailbox_def Let_def mb_def by (auto simp only: sum.inject prod.inject sum.simps split: if_splits)
  have w1: "w1 = w\<lparr>w_mailbox_seq := i, w_mailboxes := w_mailboxes w @ [mb]\<rparr>" using e by blast
  have i: "i = w_mailbox_seq w + 1" "mb_ID mb = i" and mb: "mb_UserID mb = u" "mb_Name mb = n" using e by (simp_all add: mb_def)
  from that [OF w1 i mb new] show ?thesis .
qed

lemma mail_kept_insert:
  assumes "insert_mailbox u n v sp now w = Inr (w1, i)"
  shows "mail_kept w w1"
  unfolding mail_kept_def
proof
  assume ok: "Maildir_Store.store_ok w"
  then have t: "tables_ok w" by (simp add: Maildir_Store.store_ok_def)
  obtain mb where w1: "w1 = w\<lparr>w_mailbox_seq := i, w_mailboxes := w_mailboxes w @ [mb]\<rparr>" and i: "i = w_mailbox_seq w + 1" "mb_ID mb = i"
    and mb: "mb_UserID mb = u" "mb_Name mb = n" and new: "\<not> list_ex (\<lambda>mb. mb_UserID mb = u \<and> mb_Name mb = n) (w_mailboxes w)"
    by (rule new_mailbox_row [OF assms])
  have p: "path_of w1 (mr_mailbox_id m) = path_of w (mr_mailbox_id m)" if "m \<in> set (w_messages w)" for m
  proof -
    from t that obtain mb0 where "mb0 \<in> set (w_mailboxes w)" "mb_ID mb0 = mr_mailbox_id m" by (auto simp: tables_ok_def)
    then have "find (\<lambda>mb. mb_ID mb = mr_mailbox_id m) (w_mailboxes w @ [mb]) = find (\<lambda>mb. mb_ID mb = mr_mailbox_id m) (w_mailboxes w)"
      by (rule find_append_hit)
    then show ?thesis by (simp add: path_of_def w1)
  qed
  have m: "w_messages w1 = w_messages w" "w_files w1 = w_files w" by (simp_all add: w1)
  have "contents w1 = contents w" using p by (simp add: contents_def abs_msg_def m fun_eq_iff cong: map_cong)
  moreover have "tables_ok w1"
  proof -
    have "mb_ID mb \<notin> mb_ID ` set (w_mailboxes w)" "(mb_UserID mb, mb_Name mb) \<notin> (\<lambda>mb. (mb_UserID mb, mb_Name mb)) ` set (w_mailboxes w)"
      using t i new by (force simp: tables_ok_def, force simp: mb list_ex_iff)
    then show ?thesis using t i unfolding tables_ok_def m by (force simp: w1)
  qed
  moreover have "\<forall>m\<in>set (w_messages w1). body_stored w1 m" using ok p by (simp add: Maildir_Store.store_ok_def body_stored_def m)
  moreover have "fresh_key k w1" if "fresh_key k w" for k using that by (simp add: fresh_key_def m)
  ultimately show "Maildir_Store.store_ok w1 \<and> contents w1 = contents w \<and> (\<forall>k. fresh_key k w \<longrightarrow> fresh_key k w1)"
    using ok by (simp add: Maildir_Store.store_ok_def m)
qed

lemma reset_seq: "w_mailbox_seq w = i \<Longrightarrow> w\<lparr>w_mailbox_seq := j, w_mailbox_seq := i\<rparr> = (w :: world)"
  by (cases w) simp

lemma insert_then_delete:
  assumes ok: "Maildir_Store.store_ok w" and ins: "insert_mailbox u n v sp now w = Inr (w1, i)" and q: "quiet w1 w2"
  shows "Maildir_Store.store_ok (delete_mailbox_rows i w2) \<and> contents (delete_mailbox_rows i w2) = contents w \<and>
    (\<forall>k. fresh_key k w \<longrightarrow> fresh_key k (delete_mailbox_rows i w2))"
proof -
  let ?w3 = "delete_mailbox_rows i w2"
  have t: "tables_ok w" using ok by (simp add: Maildir_Store.store_ok_def)
  obtain mb where w1: "w1 = w\<lparr>w_mailbox_seq := i, w_mailboxes := w_mailboxes w @ [mb]\<rparr>" and i: "i = w_mailbox_seq w + 1" "mb_ID mb = i"
    by (rule new_mailbox_row [OF ins])
  have q2: "w_mailboxes w2 = w_mailboxes w @ [mb]" "w_messages w2 = w_messages w" "same_bodies (w_files w) (w_files w2)"
    using q ok by (simp_all add: quiet_def same_tables_def Maildir_Store.store_ok_def files_ok_def w1)
  have old: "mb_ID x \<noteq> i" if "x \<in> set (w_mailboxes w)" for x using t that i(1) by (force simp: tables_ok_def)
  then have mbs: "w_mailboxes ?w3 = w_mailboxes w"
    using i(2) by (simp add: delete_mailbox_rows_def q2 filter_id_conv)
  have "mr_mailbox_id m \<noteq> i" if "m \<in> set (w_messages w)" for m using t that old by (fastforce simp: tables_ok_def)
  then have msgs: "w_messages ?w3 = w_messages w" by (simp add: delete_mailbox_rows_def q2 filter_id_conv)
  have f: "w_files ?w3 = w_files w2" by (simp add: delete_mailbox_rows_def)
  let ?w4 = "?w3\<lparr>w_mailbox_seq := w_mailbox_seq w\<rparr>"
  have 4: "Maildir_Store.store_ok ?w4 \<and> contents ?w4 = contents w"
    by (rule same_bodies_store [OF ok]) (simp_all add: mbs msgs f q2)
  have s: "w_mailbox_seq ?w3 = i" using q by (simp add: delete_mailbox_rows_def quiet_def same_tables_def w1)
  have "Maildir_Store.store_ok ?w3 \<and> contents ?w3 = contents w"
    using raise_seq [OF conjunct1 [OF 4], of i] 4 i(1) reset_seq [OF s] by simp
  moreover have "fresh_key k ?w3" if "fresh_key k w" for k using that q2(3) by (simp add: fresh_key_def msgs f same_bodies_def)
  ultimately show ?thesis by blast
qed

text \<open>The shape of \<open>CreateMailbox\<close>, whatever the texts of its errors are.\<close>

lemma create_shape:
  assumes run: "bindE (mapErr h1 (tryE (insert_mailbox u n v sp now))) (\<lambda>i.
      bindE (onErr (\<lambda>err. bindE (mapErr (h2 err) (execE (\<lambda>w. (delete_mailbox_rows i w, ())))) (\<lambda>_. failE (h3 err))) (ensureMaildir p))
        (\<lambda>_. retE (mk i))) w = (w', r)"
  shows "mail_kept w w'"
proof (cases "tryE (insert_mailbox u n v sp now) w")
  case (Pair w1 x)
  show ?thesis
  proof (cases x)
    case (Inl e)
    then have "w' = w1" using run Pair \<open>x = Inl e\<close> by (simp add: bindE_def mapErr_def onErr_def failE_def retE_def)
    then show ?thesis using mail_kept_quiet [OF quiet_same [OF tryE_Inl]] Pair Inl by blast
  next
    case (Inr i)
    obtain w0 where w0: "same_world w w0" "insert_mailbox u n v sp now w0 = Inr (w1, i)" using tryE_Inr [OF Pair [unfolded Inr]] by blast
    have k1: "mail_kept w w0" "mail_kept w0 w1" using w0 mail_kept_quiet quiet_same mail_kept_insert by blast+
    obtain w2 z where e: "ensureMaildir p w1 = (w2, z)" by force
    have q: "quiet w1 w2" using quietM_D [OF quietM_ensureMaildir e] .
    show ?thesis
    proof (cases z)
      case (Inr z')
      then have "w' = w2" using run Pair \<open>x = Inr i\<close> e by (simp add: bindE_def mapErr_def onErr_def failE_def retE_def)
      then show ?thesis using k1 mail_kept_quiet [OF q] mail_kept_trans by blast
    next
      case (Inl err)
      obtain w3 d where d: "execE (\<lambda>w. (delete_mailbox_rows i w, ())) w2 = (w3, d)" by force
      have w': "w' = w3" using run Pair \<open>x = Inr i\<close> e Inl d by (cases d) (simp_all add: bindE_def mapErr_def onErr_def failE_def retE_def)
      from execE_cases [OF d] show ?thesis
      proof
        assume "same_world w2 w3"
        then show ?thesis using w' k1 mail_kept_quiet [OF q] mail_kept_quiet [OF quiet_same] mail_kept_trans by blast
      next
        assume "\<exists>w4. same_world w2 w4 \<and> w3 = fst (delete_mailbox_rows i w4, ())"
        then obtain w4 where w4: "same_world w2 w4" "w3 = delete_mailbox_rows i w4" by auto
        have "mail_kept w0 w3" unfolding mail_kept_def
          using insert_then_delete [OF _ w0(2) quiet_trans [OF q quiet_same [OF w4(1)]]] w4(2) by blast
        then show ?thesis using w' k1(1) mail_kept_trans by blast
      qed
    qed
  qed
qed

lemma kept_CreateMailbox: "stepsM mail_kept (CreateMailbox u n sp now)"
  unfolding stepsM_def CreateMailbox_def Let_def by (intro allI) (rule create_shape [OF prod.collapse [symmetric]])

lemma kept_find_mailbox_for: "stepsM mail_kept (find_mailbox_for env u target)"
proof -
  have "stepsM mail_kept (GetMailbox v n)" for v n
    unfolding GetMailbox_def scan_mailbox_def by (auto intro!: kp.bindE kp.readE kp.failE kp.retE kp.mapErr split: option.split)
  then show ?thesis unfolding find_mailbox_for_def
    by (auto intro!: kp.bindE kp.onErr kp.mapErr kp.failE kp.retE kept_CreateMailbox)
qed

text \<open>Appending keeps the mailboxes with their owners.\<close>

definition owners_kept :: "world \<Rightarrow> world \<Rightarrow> bool" where
  "owners_kept w w' \<longleftrightarrow> map (\<lambda>mb. (mb_ID mb, mb_UserID mb, mb_Name mb)) (w_mailboxes w') = map (\<lambda>mb. (mb_ID mb, mb_UserID mb, mb_Name mb)) (w_mailboxes w)"

interpretation ow: step_rel owners_kept
  by unfold_locales (simp_all add: owners_kept_def same_worldD)

lemmas owner_rules = ow.retE ow.failE ow.readE ow.bindE ow.onErr ow.mapErr ow.ignoreE ow.execE ow.tryE

lemma if_steps: "stepsM R m \<Longrightarrow> stepsM R m' \<Longrightarrow> stepsM R (if b then m else m')"
  by simp

lemma owners_append: "stepsM owners_kept (AppendMessage unseen now buf i flags date body)"
proof -
  have f: "stepsM owners_kept (append_file p key flags body)" for p key
    unfolding stepsM_def owners_kept_def using append_file_mailboxes [OF prod.collapse [symmetric]] by simp
  have r: "stepsM owners_kept (append_rows i mb fk flags date now dest sz)" for mb fk dest sz
  proof -
    have c: "stepsM owners_kept (cleanup_fail dest e :: (string, 'z) proc)" for e
      unfolding cleanup_fail_def os_Remove_file_def by (intro owner_rules) (auto simp: owners_kept_def split: if_splits)
    have b: "owners_kept w (fst (bump_uidnext i w))" for w by (simp add: owners_kept_def bump_uidnext_def)
    have n: "owners_kept w w1" if "insert_message i uid fk sz date fl now w = Inr (w1, j)" for w w1 uid fl j
      using that by (auto simp: owners_kept_def insert_message_def Let_def split: if_splits)
    show ?thesis unfolding append_rows_def
      by (rule ow.bindE, rule ow.onErr, rule ow.execE, rule b, rule c, rule if_steps, rule c, rule ow.onErr, rule ow.tryE, rule n, assumption, rule c)
  qed
  have g: "stepsM owners_kept (GetMailboxByID i)"
    unfolding GetMailboxByID_def scan_mailbox_def by (auto intro!: owner_rules split: option.split)
  have q: "stepsM owners_kept (UpdateUserQuota v d)" for v d
    unfolding UpdateUserQuota_def by (intro owner_rules) (simp add: owners_kept_def)
  have u: "owners_kept w (fst (w\<lparr>w_files := fs\<rparr>, ()))" for w fs by (simp add: owners_kept_def)
  show ?thesis unfolding AppendMessage_def Let_def split_beta by (intro owner_rules f r g q u)
qed

lemma CreateMailbox_owner:
  assumes "CreateMailbox u n sp now w = (w', Inr mb)"
  shows "mb_UserID mb = u \<and> mb_Name mb = n \<and> (\<exists>mb'\<in>set (w_mailboxes w'). mb_ID mb' = mb_ID mb \<and> mb_UserID mb' = u \<and> mb_Name mb' = n)"
proof -
  from assms obtain w1 i w2 where t: "tryE (insert_mailbox u n ((now div Second) mod 2 ^ 32) sp now) w = (w1, Inr i)"
    and e: "ensureMaildir (getUserMaildirPath u n) w1 = (w2, Inr ())" and m: "w' = w2" "mb_ID mb = i" "mb_UserID mb = u" "mb_Name mb = n"
    by (auto simp: CreateMailbox_def Let_def bindE_Inr onErr_Inr)
  obtain w0 where w0: "insert_mailbox u n ((now div Second) mod 2 ^ 32) sp now w0 = Inr (w1, i)" using tryE_Inr [OF t] by blast
  obtain mb' where "w_mailboxes w1 = w_mailboxes w0 @ [mb']" "mb_ID mb' = i" "mb_UserID mb' = u" "mb_Name mb' = n"
    by (rule new_mailbox_row [OF w0]) simp
  moreover have "w_mailboxes w2 = w_mailboxes w1" using quietM_D [OF quietM_ensureMaildir e] by (simp add: quiet_def same_tables_def)
  ultimately show ?thesis using m by auto
qed

lemma find_mailbox_for_owner:
  assumes "find_mailbox_for env u target w = (w', Inr (mb, name))"
  shows "name \<in> {target, ''INBOX''} \<and> (\<exists>mb'\<in>set (w_mailboxes w'). mb_ID mb' = mb_ID mb \<and> mb_UserID mb' = us_ID u \<and> mb_Name mb' = name)"
proof -
  have get: "name' = n \<and> (\<exists>mb'\<in>set (w_mailboxes w2). mb_ID mb' = mb_ID mb \<and> mb_UserID mb' = us_ID u \<and> mb_Name mb' = n)"
    if "GetMailbox (us_ID u) n w1 = (w2, Inr mb)" "name' = n" for n w1 w2 name'
    using GetMailbox_Inr [OF that(1)] that(2) by (auto simp: same_worldD)
  show ?thesis using assms unfolding find_mailbox_for_def
    by (auto simp: onErr_Inr bindE_Inr split: if_splits dest!: get CreateMailbox_owner)
qed

text \<open>Exactly one copy of the data is new, in a mailbox of the user.\<close>

definition one_copy :: "world \<Rightarrow> world \<Rightarrow> user \<Rightarrow> time \<Rightarrow> string \<Rightarrow> bool" where
  "one_copy w w' u date data \<longleftrightarrow> (\<exists>mb\<in>set (w_mailboxes w'). mb_UserID mb = us_ID u \<and>
     (\<exists>uid. contents w' = (contents w)(mb_ID mb := contents w (mb_ID mb) @ [(uid, [], date, {#data#})])))"

lemma kept_UpdateUsedBytes: "stepsM mail_kept (UpdateUsedBytes u d)" "stepsM owners_kept (UpdateUsedBytes u d)"
proof -
  have "mail_kept w (w\<lparr>w_users := us\<rparr>)" for w us
    unfolding mail_kept_def
  proof
    assume ok: "Maildir_Store.store_ok w"
    then have "same_bodies (w_files w) (w_files w)" by (simp add: same_bodies_refl Maildir_Store.store_ok_def files_ok_def)
    then show "Maildir_Store.store_ok (w\<lparr>w_users := us\<rparr>) \<and> contents (w\<lparr>w_users := us\<rparr>) = contents w \<and>
      (\<forall>k. fresh_key k w \<longrightarrow> fresh_key k (w\<lparr>w_users := us\<rparr>))"
      using same_bodies_store [OF ok, of "w\<lparr>w_users := us\<rparr>"] by (simp add: fresh_key_def)
  qed
  then show "stepsM mail_kept (UpdateUsedBytes u d)" unfolding UpdateUsedBytes_def by (intro kp.execE) simp
  show "stepsM owners_kept (UpdateUsedBytes u d)" unfolding UpdateUsedBytes_def by (intro ow.execE) (simp add: owners_kept_def)
qed

definition fresh_env :: "smtp_env \<Rightarrow> world \<Rightarrow> bool" where
  "fresh_env env w \<longleftrightarrow> 0 \<le> sx_now env \<and> length (sx_key env) = 16 \<and> fresh_key (generateMaildirKey (sx_now env) (sx_key env)) w"

lemma fresh_env_kept: "mail_kept w w' \<Longrightarrow> Maildir_Store.store_ok w \<Longrightarrow> fresh_env env w \<Longrightarrow>
    Maildir_Store.store_ok w' \<and> contents w' = contents w \<and> fresh_env env w'"
  by (simp add: mail_kept_def fresh_env_def)

lemma store_locally_outcome:
  assumes lib: "maildir_lib unseen" and ok: "Maildir_Store.store_ok (sy_world y)" and fresh: "fresh_env env (sy_world y)"
    and run: "store_locally unseen b env u data target y = (y', r)"
  shows "Maildir_Store.store_ok (sy_world y') \<and>
    (case r of Inl e \<Rightarrow> contents (sy_world y') = contents (sy_world y)
     | Inr _ \<Rightarrow> \<not> over_quota u data \<and> one_copy (sy_world y) (sy_world y') u (sx_now env) data)"
proof -
  obtain w1 x where f: "find_mailbox_for env u target (sy_world y) = (w1, x)" by force
  note 1 = fresh_env_kept [OF stepsM_D [OF kept_find_mailbox_for f] ok fresh]
  show ?thesis
  proof (cases "\<exists>mb name. x = Inr (mb, name) \<and> \<not> over_quota u data")
    case False
    then have "y' = y\<lparr>sy_world := w1\<rparr> \<and> (\<exists>e. r = Inl e)"
      using run f by (cases x) (auto simp: store_locally_def bindS_def mapErrS_def orElse_def liftS_def failS_def)
    then show ?thesis using 1 by auto
  next
    case True
    then obtain mb name where x: "x = Inr (mb, name)" and q: "\<not> over_quota u data" by blast
    obtain w2 z where a: "AppendMessage unseen (sx_now env) (sx_key env) (mb_ID mb) [] (sx_now env) (Inr data) w1 = (w2, z)" by force
    have key: "key_ok (generateMaildirKey (sx_now env) (sx_key env))" "fresh_key (generateMaildirKey (sx_now env) (sx_key env)) w1"
      using 1 by (simp_all add: fresh_env_def generateMaildirKey_ok)
    show ?thesis
    proof (cases z)
      case (Inl e)
      then have "y' = y\<lparr>sy_world := w2\<rparr> \<and> (\<exists>e. r = Inl e)"
        using run f x q a by (auto simp: store_locally_def bindS_def mapErrS_def orElse_def liftS_def failS_def)
      then show ?thesis using AppendMessage_Inl_store [OF _ key a [unfolded Inl]] 1 by auto
    next
      case (Inr msg)
      obtain w3 z3 where u: "ignoreE (UpdateUsedBytes (us_ID u) (int (length data))) w2 = (w3, z3 :: (smtp_error, unit) result)" by force
      have z3: "z3 = Inr ()" using u by (simp add: ignoreE_iff)
      have yr: "sy_world y' = w3" "r = Inr ()"
        using run f x q a Inr u z3 by (auto simp: store_locally_def bindS_def mapErrS_def orElse_def liftS_def modifyS_def split: if_splits)
      obtain c where c: "Inr data = (Inr c :: (string, string) result)" "Maildir_Store.store_ok w2"
        "contents w2 = (contents w1)(mb_ID mb := contents w1 (mb_ID mb) @ [(sm_UID msg, stringToFlags (flagsToString []), sx_now env, {#c#})])"
        by (rule AppendMessage_Inr_store [OF _ lib key a [unfolded Inr]]) (use 1 in auto)
      have k: "Maildir_Store.store_ok w3" "contents w3 = contents w2"
        using stepsM_D [OF kp.ignoreE [OF kept_UpdateUsedBytes(1)] u] c(2) by (simp_all add: mail_kept_def)
      have o: "owners_kept w1 w3"
        using ow.trans [OF stepsM_D [OF owners_append a] stepsM_D [OF ow.ignoreE [OF kept_UpdateUsedBytes(2)] u]] .
      obtain mb1 where "mb1 \<in> set (w_mailboxes w1)" "mb_ID mb1 = mb_ID mb" "mb_UserID mb1 = us_ID u"
        using find_mailbox_for_owner [OF f [unfolded x]] by blast
      then have "(mb_ID mb, us_ID u, mb_Name mb1) \<in> set (map (\<lambda>mb. (mb_ID mb, mb_UserID mb, mb_Name mb)) (w_mailboxes w3))"
        unfolding o [unfolded owners_kept_def] by (auto simp: image_iff intro!: bexI [of _ mb1])
      then obtain mb3 where "mb3 \<in> set (w_mailboxes w3)" "mb_ID mb3 = mb_ID mb" "mb_UserID mb3 = us_ID u" by auto
      moreover have "contents w3 = (contents (sy_world y))(mb_ID mb := contents (sy_world y) (mb_ID mb) @ [(sm_UID msg, [], sx_now env, {#data#})])"
        using k(2) c(1,3) 1 by (simp add: stringToFlags_def flagsToString_def)
      ultimately have "one_copy (sy_world y) w3 u (sx_now env) data" unfolding one_copy_def by metis
      then show ?thesis using k(1) q by (simp add: yr)
    qed
  qed
qed

lemma redirect_world: "redirect_message R b env s result data y = (y', r) \<Longrightarrow> sy_world y' = sy_world y"
  by (auto simp: redirect_message_def orElse_def bindS_def with_engine_def retS_def failS_def
      split: option.splits prod.splits sum.splits queue_failure.splits)

lemma redirect_Inr: "redirect_message R b env s result data y = (y', Inr goOn) \<Longrightarrow> goOn = sr_Keep result"
  by (cases "sy_engine y") (auto simp: redirect_message_def orElse_def bindS_def retS_def failS_def split: prod.splits sum.splits queue_failure.splits)

lemma file_and_reply_iff: "file_and_reply result u y = (y', r) \<Longrightarrow> sy_world y' = sy_world y \<and> (\<exists>t. r = Inr (Some t))"
  by (auto simp: file_and_reply_def bindS_def modifyS_def retS_def split: if_splits)

lemma apply_result_world:
  assumes "apply_result R b env s u data result y = (y', r)"
  shows "sy_world y' = sy_world y"
proof -
  obtain y1 z where m: "redirect_message R b env s result data y = (y1, z)" by force
  obtain y2 z2 where f: "file_and_reply result u y1 = (y2, z2)" by force
  obtain y3 z3 where g: "file_and_reply result u y = (y3, z3)" by force
  have "y' \<in> {y, y1, y2, y3}"
    using assms m f g by (cases z) (auto simp only: apply_result_def bindS_def retS_iff failS_iff prod.case sum.case prod.inject split: if_splits)
  then show ?thesis
    using redirect_world [OF m] conjunct1 [OF file_and_reply_iff [OF f]] conjunct1 [OF file_and_reply_iff [OF g]] by auto
qed

lemma run_sieve_world:
  assumes "run_sieve R b env s u data y = (y', r)"
  shows "sy_world y' = sy_world y"
  using assms unfolding run_sieve_def
  by (auto simp only: prod.inject split: if_splits sum.splits prod.splits dest!: apply_result_world) simp_all

text \<open>The Sieve result for a delivery, and when it ends the delivery.\<close>

definition sieve_result :: "backend \<Rightarrow> smtp_env \<Rightarrow> smtp_session \<Rightarrow> user \<Rightarrow> string \<Rightarrow> 'r mail_system \<Rightarrow> sv_result option" where
  "sieve_result b env s u data y =
     (if \<not> bk_sieve b then None
      else case Execute_sieve (sx_now env) (us_ID u) (parseMessageForSieve s data) (sx_script env) (sy_scripts y) (sy_vacations y) of
             Inl err \<Rightarrow> None | Inr (result, vs) \<Rightarrow> Some result)"

definition sieve_takes :: "sv_result \<Rightarrow> bool" where
  "sieve_takes result \<longleftrightarrow> sr_Discarded result \<or> (sr_Redirected result \<and> sr_RedirectTo result \<noteq> [] \<and> \<not> sr_Keep result)"

lemma run_sieve_None:
  assumes "run_sieve R b env s u data y = (y', Inr None)"
  shows "\<exists>result. sieve_result b env s u data y = Some result \<and> sieve_takes result"
  using assms unfolding run_sieve_def sieve_result_def sieve_takes_def apply_result_def
  by (auto simp: bindS_Inr split: if_splits sum.splits dest: redirect_Inr file_and_reply_iff)

text \<open>The user that a recipient stands for, and recipients that an alias sends to an external address.\<close>

definition recipient_user :: "string \<Rightarrow> world \<Rightarrow> user \<Rightarrow> bool" where
  "recipient_user rcpt w u \<longleftrightarrow> (\<exists>w1 w2 i. ResolveAlias rcpt w = (w1, Inr (i, None)) \<and>
     (case i of Some j \<Rightarrow> LookupUserByID j | None \<Rightarrow> LookupUser rcpt) w1 = (w2, Inr u))"

definition external_alias :: "string \<Rightarrow> world \<Rightarrow> bool" where
  "external_alias rcpt w \<longleftrightarrow> (\<exists>w1 i addr. ResolveAlias rcpt w = (w1, Inr (i, Some addr)))"

lemma accounts_same:
  "ResolveAlias rcpt w = (w', r) \<Longrightarrow> same_world w w'" "LookupUserByID j w = (w', r') \<Longrightarrow> same_world w w'"
  "LookupUser rcpt w = (w', r') \<Longrightarrow> same_world w w'"
proof -
  have sw: "step_rel same_world" by unfold_locales (assumption, rule same_world_trans)
  note rules = step_rel.bindE [OF sw] step_rel.mapErr [OF sw] step_rel.readE [OF sw] step_rel.failE [OF sw] step_rel.retE [OF sw]
  have "stepsM same_world (ResolveAlias rcpt)" "stepsM same_world (LookupUserByID j)" "stepsM same_world (LookupUser rcpt)"
    unfolding ResolveAlias_def LookupUserByID_def LookupUser_def lookupUserWithPassword_def
    by (auto intro!: rules split: option.split)
  then show "ResolveAlias rcpt w = (w', r) \<Longrightarrow> same_world w w'" "LookupUserByID j w = (w', r') \<Longrightarrow> same_world w w'"
    "LookupUser rcpt w = (w', r') \<Longrightarrow> same_world w w'" using stepsM_D by blast+
qed

lemma deliver_to_user_outcome:
  assumes lib: "maildir_lib unseen" and ok: "Maildir_Store.store_ok (sy_world y)" and fresh: "fresh_env env (sy_world y)"
    and run: "deliver_to_user R unseen b env s data u y = (y', r)"
  shows "Maildir_Store.store_ok (sy_world y') \<and>
    (one_copy (sy_world y) (sy_world y') u (sx_now env) data \<and> r = Inr () \<and> \<not> over_quota u data \<or>
     contents (sy_world y') = contents (sy_world y) \<and>
       (r = Inr () \<longrightarrow> (\<exists>result. sieve_result b env s u data y = Some result \<and> sieve_takes result)))"
proof -
  obtain y1 x where sv: "run_sieve R b env s u data y = (y1, x)" by force
  have w1: "sy_world y1 = sy_world y" by (rule run_sieve_world [OF sv])
  consider e where "x = Inl e" | "x = Inr None" | t where "x = Inr (Some t)" by (metis sum.exhaust option.exhaust)
  then show ?thesis
  proof (cases)
    case 1
    then have "y' = y1" "r \<noteq> Inr ()" using run sv by (auto simp: deliver_to_user_def bindS_def)
    then show ?thesis using ok w1 by simp
  next
    case 2
    then have "y' = y1" using run sv by (simp add: deliver_to_user_def bindS_def retS_def)
    then show ?thesis using ok w1 run_sieve_None sv 2 by metis
  next
    case 3
    then have st: "store_locally unseen b env u data t y1 = (y', r)" using run sv by (simp add: deliver_to_user_def bindS_def)
    from store_locally_outcome [OF lib _ _ st] ok fresh w1 show ?thesis by (cases r) auto
  qed
qed


definition backend_1 :: backend where
  "backend_1 = \<lparr>bk_Domain = ''a.org'', bk_MaxMessageSize = 10, bk_queuePath = ''/q'', bk_sieve = False, bk_greylister = None, bk_notifier = True\<rparr>"

definition smtp_env_1 :: smtp_env where
  "smtp_env_1 = \<lparr>sx_now = 5, sx_key = replicate 16 (CHR 0x00), sx_rand = Some [CHR ''a''], sx_write = None, sx_rename = None, sx_script = None,
     sx_greySelect = None, sx_greyExec = None, sx_denv = wdenv\<rparr>"

definition system_1 :: "mem mail_system" where
  "system_1 = \<lparr>sy_world = world_1, sy_engine = Some wdeng, sy_grey = [], sy_scripts = [], sy_vacations = None, sy_responses = [], sy_notes = []\<rparr>"

definition run_deliver :: "mem mail_system \<times> (smtp_error, unit) result" where
  "run_deliver = deliverToLocalRecipient mem_redis move_new backend_1 smtp_env_1 (NewSession_smtp ''10.0.0.1'') ''hi'' ''joe@a.org'' system_1"

lemma run_deliver_ok: "snd run_deliver = Inr ()" "snd (ResolveAlias ''joe@a.org'' world_1) = Inr (None, None)"
  by code_simp+

lemma fresh_env_1: "fresh_env smtp_env_1 world_1"
  by (simp add: fresh_env_def smtp_env_1_def world_1_ok)


section \<open>Submission\<close>

lemma session_user_irrelevant:
  "parseMessageForSieve (s\<lparr>ss_user := u\<rparr>) = parseMessageForSieve s"
  "forward_external R b env (s\<lparr>ss_user := u\<rparr>) = forward_external R b env s"
  "redirect_message R b env (s\<lparr>ss_user := u\<rparr>) = redirect_message R b env s"
  "queue_external R b env (s\<lparr>ss_user := u\<rparr>) = queue_external R b env s"
proof -
  have f: "ss_from (s\<lparr>ss_user := u\<rparr>) = ss_from s" by simp
  show "parseMessageForSieve (s\<lparr>ss_user := u\<rparr>) = parseMessageForSieve s"
    "forward_external R b env (s\<lparr>ss_user := u\<rparr>) = forward_external R b env s"
    "redirect_message R b env (s\<lparr>ss_user := u\<rparr>) = redirect_message R b env s"
    "queue_external R b env (s\<lparr>ss_user := u\<rparr>) = queue_external R b env s"
    unfolding parseMessageForSieve_def [abs_def] forward_external_def [abs_def] redirect_message_def [abs_def] queue_external_def [abs_def] f
    by (rule refl)+
qed

lemma deliver_user_irrelevant:
  "deliverToLocalRecipient R unseen b env (s\<lparr>ss_user := u\<rparr>) data rcpt = deliverToLocalRecipient R unseen b env s data rcpt"
  unfolding deliverToLocalRecipient_def deliver_to_user_def [abs_def] run_sieve_def [abs_def] apply_result_def [abs_def] session_user_irrelevant
  by (rule refl)

lemma deliver_each_user_irrelevant:
  "deliver_each R unseen b envs i (s\<lparr>ss_user := u\<rparr>) data rcpts y = deliver_each R unseen b envs i s data rcpts y"
  by (induction rcpts arbitrary: i y) (simp_all add: deliver_user_irrelevant)

lemma save_to_sent_Inr: "\<exists>w'. (save_to_sent unseen env s data :: ('e, unit) proc) w = (w', Inr ())"
proof (cases "(save_to_sent unseen env s data :: ('e, unit) proc) w")
  case (Pair w' r)
  then show ?thesis
    by (cases "ss_user s"; cases r) (auto simp: save_to_sent_def onErr_Inl retE_def)
qed

text \<open>\<open>handleOutbound\<close> up to the folder of sent mail.\<close>

lemma handleOutbound_run:
  assumes "deliver_each R unseen b envs 0 s data (filter (is_local b) (ss_rcpts s)) y = (y1, rs)"
    "queue_external R b env s data (filter (\<lambda>r. \<not> is_local b r) (ss_rcpts s)) y1 = (y2, q)"
  shows "\<exists>w. handleOutbound R unseen b env envs s data y =
    (case q of Inl e \<Rightarrow> (y2, Inl e)
     | Inr _ \<Rightarrow> (y2\<lparr>sy_world := w\<rparr>, if (\<exists>(rcpt, e)\<in>set rs. e \<noteq> None) \<and> filter (\<lambda>r. \<not> is_local b r) (ss_rcpts s) = []
                             then Inl (SMTPError 451 (4, 0, 0) ''Delivery failed'') else Inr ()))"
proof -
  obtain w where w: "(save_to_sent unseen env s data :: (smtp_error, unit) proc) (sy_world y2) = (w, Inr ())" using save_to_sent_Inr by metis
  have "liftS (save_to_sent unseen env s data) y2 = (y2\<lparr>sy_world := w\<rparr>, (Inr () :: (smtp_error, unit) result))" by (simp add: liftS_def w)
  then show ?thesis unfolding handleOutbound_def Let_def assms(1) prod.case bindS_def assms(2)
    by (intro exI [of _ w], cases q) (simp_all add: failS_def retS_def)
qed

text \<open>The submission server does not ask for a login: a session takes every recipient, and the reply to DATA and what goes to the
  queue are the same whoever has logged in, or nobody.\<close>

theorem submission_ignores_login:
  "Rcpt_smtp b env addr (s\<lparr>ss_isSubmission := True\<rparr>) y = (y, Inr (s\<lparr>ss_isSubmission := True, ss_rcpts := ss_rcpts s @ [addr]\<rparr>)) \<and>
   snd (Data_smtp R unseen b env envs r (s\<lparr>ss_isSubmission := True, ss_user := None\<rparr>) y) =
     snd (Data_smtp R unseen b env envs r (s\<lparr>ss_isSubmission := True, ss_user := u\<rparr>) y) \<and>
   sy_engine (fst (Data_smtp R unseen b env envs r (s\<lparr>ss_isSubmission := True, ss_user := None\<rparr>) y)) =
     sy_engine (fst (Data_smtp R unseen b env envs r (s\<lparr>ss_isSubmission := True, ss_user := u\<rparr>) y))"
proof -
  let ?s = "s\<lparr>ss_isSubmission := True\<rparr>"
  have out: "snd (handleOutbound R unseen b env envs (?s\<lparr>ss_user := v\<rparr>) data y) = snd (handleOutbound R unseen b env envs ?s data y) \<and>
    sy_engine (fst (handleOutbound R unseen b env envs (?s\<lparr>ss_user := v\<rparr>) data y)) = sy_engine (fst (handleOutbound R unseen b env envs ?s data y))" for v data
  proof -
    obtain y1 rs where d: "deliver_each R unseen b envs 0 ?s data (filter (is_local b) (ss_rcpts s)) y = (y1, rs)" by force
    obtain y2 q where q: "queue_external R b env ?s data (filter (\<lambda>r. \<not> is_local b r) (ss_rcpts s)) y1 = (y2, q)" by force
    from handleOutbound_run [of R unseen b envs "?s\<lparr>ss_user := v\<rparr>" data y y1 rs env y2 q] handleOutbound_run [of R unseen b envs ?s data y y1 rs env y2 q] d q
    show ?thesis by (cases q) (auto simp: deliver_each_user_irrelevant session_user_irrelevant)
  qed
  have "snd (Data_smtp R unseen b env envs r (?s\<lparr>ss_user := v\<rparr>) y) = snd (Data_smtp R unseen b env envs r ?s y) \<and>
    sy_engine (fst (Data_smtp R unseen b env envs r (?s\<lparr>ss_user := v\<rparr>) y)) = sy_engine (fst (Data_smtp R unseen b env envs r ?s y))" for v
    using out by (simp add: Data_smtp_def failS_def split: option.split sum.split)
  then show ?thesis by (simp add: Rcpt_smtp_def retS_def)
qed

lemma queue_message_Inr:
  assumes "redis_server R" "go_choices (sx_denv env)" "queue_message R b env sender rcpts data e = (e', Inr ms)" "rcpt \<in> set rcpts" "extractDomain rcpt \<noteq> []"
  shows "\<exists>m :: message. rcpt \<in> set (msg_Recipients m) \<and> msg_Sender m = sender \<and> map_of (en_files e') (msg_MessagePath m) = Some data \<and>
    msg_ID m \<in> tracked (en_queue e') (rd_view R (en_redis e'))"
proof -
  from assms(3) obtain e1 path where s: "saveMessageToQueue b env data e = (e1, Inr path)"
    and q: "Enqueue_engine R (sx_denv env) (sx_now env) sender rcpts path e1 = (e', Inr ms)"
    by (auto simp: queue_message_def split: prod.splits sum.splits)
  have f: "map_of (en_files e1) path = Some data"
    using s by (auto simp: saveMessageToQueue_def Let_def update_conv split: if_splits option.splits)
  have e': "en_files e' = en_files e1" "en_queue e' = en_queue e1"
    using q by (auto simp: Enqueue_engine_def Let_def split: sum.splits if_splits prod.splits)
  note ok = Enqueue_engine_spec [OF assms(1,2) q]
  have "rcpt \<in># mset (concat (map msg_Recipients ms))" using ok assms(4,5) by simp
  then obtain m where "m \<in> set ms" "rcpt \<in> set (msg_Recipients m)" by auto
  moreover from this(1) ok have "msg_Sender m = sender \<and> msg_MessagePath m = path \<and> msg_ID m \<in> tracked (en_queue e1) (rd_view R (en_redis e'))"
    by (simp add: list_all_iff)
  ultimately show ?thesis using f e' by auto
qed


text \<open>The addresses that the MX server takes: of an active user or alias in an active domain.\<close>

definition deliverable :: "string \<Rightarrow> world \<Rightarrow> bool" where
  "deliverable addr w \<longleftrightarrow> (case parseEmail addr of
     None \<Rightarrow> False
   | Some (username, domain) \<Rightarrow>
       (case active_domain domain w of
          None \<Rightarrow> False
        | Some d \<Rightarrow>
            (\<exists>u\<in>set (w_users w). u_domain_id u = d_id d \<and> u_username u = username \<and> u_active u) \<or>
            (\<exists>a\<in>set (w_aliases w). a_domain_id a = d_id d \<and> a_source_address a = username \<and> a_active a)))"

lemma ValidateAddress_Inr:
  assumes "ValidateAddress addr w = (w', Inr v)"
  shows "same_world w w' \<and> v = deliverable addr w"
proof (cases "parseEmail addr")
  case None
  then show ?thesis using assms by (simp add: ValidateAddress_def deliverable_def)
next
  case (Some ud)
  obtain username domain where ud: "ud = (username, domain)" by force
  from assms obtain w1 row where r: "readE (active_domain domain) w = (w1, Inr row)"
    by (auto simp: ValidateAddress_def Some ud bindE_Inr)
  have s1: "same_world w w1" using readE_Inr [OF r] by blast
  have row: "row = active_domain domain w" using readE_Inr [OF r] same_worldD(1) [OF s1] by (simp add: active_domain_def)
  show ?thesis
  proof (cases row)
    case None
    then show ?thesis using assms r row s1 Some ud by (auto simp: ValidateAddress_def bindE_Inr deliverable_def)
  next
    case (Some d)
    let ?us = "\<lambda>w. list_ex (\<lambda>u. u_domain_id u = d_id d \<and> u_username u = username \<and> u_active u) (w_users w)"
    let ?as = "\<lambda>w. list_ex (\<lambda>a. a_domain_id a = d_id d \<and> a_source_address a = username \<and> a_active a) (w_aliases w)"
    from assms r Some \<open>parseEmail addr = _\<close> ud obtain w2 x where x: "readE ?us w1 = (w2, Inr x)"
      and y: "if x then w' = w2 \<and> v = True else readE ?as w2 = (w', Inr v)"
      by (auto simp: ValidateAddress_def bindE_Inr split: if_splits)
    have 2: "same_world w w2" using readE_Inr [OF x] same_world_trans [OF s1] by blast
    have s2: "same_world w w2" "x = ?us w" using readE_Inr [OF x] 2 same_worldD(2) [OF 2] by simp_all
    have s3: "same_world w w'" "v \<longleftrightarrow> ?us w \<or> ?as w"
    proof -
      have "same_world w2 w' \<and> (\<not> x \<longrightarrow> v = ?as w')" using y readE_Inr [of ?as w2 w' v] by (auto split: if_splits)
      then show 3: "same_world w w'" using same_world_trans [OF 2] by blast
      show "v \<longleftrightarrow> ?us w \<or> ?as w"
        using y s2(2) \<open>same_world w2 w' \<and> _\<close> same_worldD(3) [OF 3] by (auto split: if_splits)
    qed
    moreover have "active_domain domain w = Some d" "parseEmail addr = Some (username, domain)" using row Some \<open>parseEmail addr = _\<close> ud by simp_all
    ultimately show ?thesis by (simp add: deliverable_def list_ex_iff)
  qed
qed

lemma ValidateAddress_ok:
  assumes "w_faults w = []"
  shows "\<exists>w'. ValidateAddress addr w = (w', Inr (deliverable addr w)) \<and> w' = w"
proof -
  have "\<exists>v. ValidateAddress addr w = (w, Inr v)"
    using assms by (auto simp: ValidateAddress_def runE split: option.split)
  then show ?thesis using ValidateAddress_Inr by blast
qed

text \<open>C7. The MX server is no relay: on its sessions a recipient is accepted exactly when the address belongs to an active user or alias
  of an active domain and greylisting lets it pass, provided the database answers; otherwise the list of recipients is unchanged
  and the reply is an error, 550 for an unknown address.\<close>

theorem mx_accepts_iff:
  assumes "\<not> ss_isSubmission s" "w_faults (sy_world y) = []"
  shows "\<exists>y' r. Rcpt_smtp b env addr s y = (y', r) \<and>
    (if \<not> deliverable addr (sy_world y) then r = Inl (SMTPError 550 (5, 1, 1) ''User not found'') \<and> y' = y
     else if snd (greylist_passes b env addr s y) = Inr () then r = Inr (s\<lparr>ss_rcpts := ss_rcpts s @ [addr]\<rparr>)
     else r = Inl (SMTPError 451 (4, 7, 1) ''Greylisting in effect, please retry in a few minutes''))"
proof -
  obtain w' where v: "ValidateAddress addr (sy_world y) = (w', Inr (deliverable addr (sy_world y)))" and w': "w' = sy_world y"
    using ValidateAddress_ok [OF assms(2)] by blast
  have l: "mapErrS (\<lambda>e. SMTPError 451 (4, 3, 0) ''Temporary failure, please try again'') (liftS (ValidateAddress addr)) y =
    (y, Inr (deliverable addr (sy_world y)))" by (simp add: liftS_iff v w')
  obtain y2 g where g: "greylist_passes b env addr s y = (y2, g)" by force
  have "g = Inr () \<or> g = Inl (SMTPError 451 (4, 7, 1) ''Greylisting in effect, please retry in a few minutes'')"
    using g by (auto simp only: greylist_passes_def prod.inject split: option.splits if_splits prod.splits)
  then show ?thesis using assms(1)
    by (auto simp: Rcpt_smtp_def bindS_def l g retS_def failS_def)
qed

theorem mx_accepts_iff_witness:
  "snd (Rcpt_smtp backend_1 smtp_env_1 ''joe@a.org'' (NewSession_smtp ''10.0.0.1'') system_1) =
     Inr ((NewSession_smtp ''10.0.0.1'')\<lparr>ss_rcpts := [''joe@a.org'']\<rparr>) \<and>
   snd (Rcpt_smtp backend_1 smtp_env_1 ''jim@a.org'' (NewSession_smtp ''10.0.0.1'') system_1) = Inl (SMTPError 550 (5, 1, 1) ''User not found'')"
proof -
  have s: "\<not> ss_isSubmission (NewSession_smtp ''10.0.0.1'')" "w_faults (sy_world system_1) = []" "ss_rcpts (NewSession_smtp ''10.0.0.1'') = []"
    by (simp_all add: NewSession_smtp_def system_1_def world_1_def)
  have "snd (ValidateAddress ''joe@a.org'' world_1) = Inr True" "snd (ValidateAddress ''jim@a.org'' world_1) = Inr False" by code_simp+
  then have d: "deliverable ''joe@a.org'' (sy_world system_1)" "\<not> deliverable ''jim@a.org'' (sy_world system_1)"
    using ValidateAddress_Inr [of _ world_1 "fst (ValidateAddress _ world_1)"] by (auto simp: system_1_def prod_eq_iff)
  have "snd (greylist_passes backend_1 smtp_env_1 ''joe@a.org'' (NewSession_smtp ''10.0.0.1'') system_1) = Inr ()"
    by (simp add: greylist_passes_def backend_1_def)
  then show ?thesis
    using mx_accepts_iff [OF s(1,2), of backend_1 smtp_env_1 "''joe@a.org''"] mx_accepts_iff [OF s(1,2), of backend_1 smtp_env_1 "''jim@a.org''"] d s(3)
    by auto
qed

definition session_3 :: smtp_session where
  "session_3 = (NewSession_submission ''10.0.0.9'')\<lparr>ss_from := ''x@spam'', ss_rcpts := [''v@far.org'']\<rparr>"

definition run_data :: "mem mail_system \<times> (smtp_error, unit) result" where
  "run_data = Data_smtp mem_redis move_new backend_1 smtp_env_1 (\<lambda>i. smtp_env_1) (Some (''0123456789abc'', None)) session_3 system_1"

lemma run_data_ok: "snd run_data = Inr ()"
  by code_simp


text \<open>The size of one delivered message is added to the used bytes twice, by the store and by the session.\<close>

lemma quota_counted_twice:
  "map u_used_bytes (w_users world_1) = [0] \<and> length ''hi'' = 2 \<and> map u_used_bytes (w_users (sy_world (fst run_deliver))) = [4]"
  by code_simp

text \<open>When one recipient of a message fails and another does not, the session reports success.\<close>

lemma partial_failure_accepted:
  assumes "deliver_each R unseen b envs 0 s data (ss_rcpts s) y = (y', rs)" "(rcpt, Some e) \<in> set rs" "(rcpt', None) \<in> set rs"
  shows "handleInbound R unseen b envs s data y = (y', Inr ())"
proof -
  have "[rcpt. (rcpt, None) \<leftarrow> rs] \<noteq> []" using assms(3) by force
  then show ?thesis using assms(1) by (simp add: handleInbound_def Let_def)
qed

end
