(* ===== verification/Dav_Store.thy ===== *)
theory Dav_Store
  imports Auth Maildir_Store State_Err
begin

text \<open>
  Package \<^verbatim>\<open>internal/dav\<close>, the two backends: calendars with their events (\<^verbatim>\<open>caldav.go\<close>) and address books with their
  contacts (\<^verbatim>\<open>carddav.go\<close>). The tables are lists of rows with the constraints of the schema: unique identifiers, foreign
  keys with deletion of the dependent rows. The fault script of the world makes any statement fail. The columns of time stamps that
  the database fills in are left out; start and end of an event are instants.
\<close>

section \<open>Tables\<close>

record calendar =
  ca_ID :: int
  ca_UserID :: int
  ca_UID :: string
  ca_Name :: string
  ca_Description :: string
  ca_Color :: string
  ca_Timezone :: string
  ca_CTag :: string
  ca_IsDefault :: bool

record calendar_event =
  ce_ID :: int
  ce_CalendarID :: int
  ce_UID :: string
  ce_ETag :: string
  ce_ICalendarData :: string
  ce_Summary :: string
  ce_Description :: string
  ce_Location :: string
  ce_StartTime :: time
  ce_EndTime :: time
  ce_AllDay :: bool
  ce_Recurrence :: string

record address_book =
  ab_ID :: int
  ab_UserID :: int
  ab_UID :: string
  ab_Name :: string
  ab_Description :: string
  ab_CTag :: string
  ab_IsDefault :: bool

record contact =
  co_ID :: int
  co_AddressBookID :: int
  co_UID :: string
  co_ETag :: string
  co_VCardData :: string
  co_FullName :: string
  co_GivenName :: string
  co_FamilyName :: string
  co_Nickname :: string
  co_Emails :: string
  co_Phones :: string
  co_Organization :: string

record dav_state =
  dv_world :: world
  dv_calendars :: "calendar list"
  dv_events :: "calendar_event list"
  dv_books :: "address_book list"
  dv_contacts :: "contact list"
  dv_calendar_seq :: int
  dv_event_seq :: int
  dv_book_seq :: int
  dv_contact_seq :: int

text \<open>A query, and a statement that changes the tables or violates a constraint.\<close>

definition queryD :: "(dav_state \<Rightarrow> 'a) \<Rightarrow> (dav_state, string, 'a) sproc" where
  "queryD f y = (case Mail_World.next_fault (dv_world y) of
     (w, Some e) \<Rightarrow> (y\<lparr>dv_world := w\<rparr>, Inl e)
   | (w, None) \<Rightarrow> (y\<lparr>dv_world := w\<rparr>, Inr (f y)))"

definition execD :: "(dav_state \<Rightarrow> (string, dav_state \<times> 'a) result) \<Rightarrow> (dav_state, string, 'a) sproc" where
  "execD f y = (case Mail_World.next_fault (dv_world y) of
     (w, Some e) \<Rightarrow> (y\<lparr>dv_world := w\<rparr>, Inl e)
   | (w, None) \<Rightarrow> (case f (y\<lparr>dv_world := w\<rparr>) of Inl e \<Rightarrow> (y\<lparr>dv_world := w\<rparr>, Inl e) | Inr (y', x) \<Rightarrow> (y', Inr x)))"

section \<open>Identifiers\<close>

definition ErrRandomGeneration :: string where
  "ErrRandomGeneration = ''failed to generate random data''"

text \<open>The random bytes, or the error of the generator.\<close>

definition generateUID :: "(string, string) result \<Rightarrow> (string, string) result" where
  "generateUID rnd = (case rnd of Inl e \<Rightarrow> Inl (ErrRandomGeneration @ '': '' @ e) | Inr buf \<Rightarrow> Inr (hex_encode buf))"

definition generateCTag :: "time \<Rightarrow> string" where
  "generateCTag now = show_int now"

definition generateETag :: "(string, string) result \<Rightarrow> (string, string) result" where
  "generateETag rnd = (case rnd of
     Inl e \<Rightarrow> Inl (ErrRandomGeneration @ '': '' @ e)
   | Inr buf \<Rightarrow> Inr (CHR 0x22 # hex_encode buf @ [CHR 0x22]))"

definition liftR :: "('e, 'a) result \<Rightarrow> ('s, 'e, 'a) sproc" where
  "liftR r y = (y, r)"

section \<open>Calendars\<close>

definition insert_calendar :: "int \<Rightarrow> string \<Rightarrow> string \<Rightarrow> string \<Rightarrow> string \<Rightarrow> dav_state \<Rightarrow> (string, dav_state \<times> int) result" where
  "insert_calendar userID uid name description ctag y =
     (if \<not> list_ex (\<lambda>u. u_id u = userID) (w_users (dv_world y)) then Inl ''FOREIGN KEY constraint failed''
      else if list_ex (\<lambda>c. ca_UID c = uid) (dv_calendars y) then Inl ''UNIQUE constraint failed: calendars.uid''
      else (let i = dv_calendar_seq y + 1
            in Inr (y\<lparr>dv_calendar_seq := i,
                      dv_calendars := dv_calendars y @ [\<lparr>ca_ID = i, ca_UserID = userID, ca_UID = uid, ca_Name = name,
                        ca_Description = description, ca_Color = ''#0066CC'', ca_Timezone = ''UTC'', ca_CTag = ctag,
                        ca_IsDefault = False\<rparr>]\<rparr>, i)))"

text \<open>The result has no colour and no time zone.\<close>

definition CreateCalendar :: "time \<Rightarrow> (string, string) result \<Rightarrow> int \<Rightarrow> string \<Rightarrow> string \<Rightarrow> (dav_state, string, calendar) sproc" where
  "CreateCalendar now rnd userID name description =
     bindS (mapErrS (\<lambda>e. ''failed to generate UID: '' @ e) (liftR (generateUID rnd))) (\<lambda>uid.
     bindS (mapErrS (\<lambda>e. ''failed to create calendar: '' @ e)
              (execD (insert_calendar userID uid name description (generateCTag now)))) (\<lambda>i.
     retS \<lparr>ca_ID = i, ca_UserID = userID, ca_UID = uid, ca_Name = name, ca_Description = description, ca_Color = [],
           ca_Timezone = [], ca_CTag = generateCTag now, ca_IsDefault = False\<rparr>))"

definition GetCalendar :: "string \<Rightarrow> (dav_state, string, calendar) sproc" where
  "GetCalendar uid =
     bindS (queryD (\<lambda>y. find (\<lambda>c. ca_UID c = uid) (dv_calendars y))) (\<lambda>row.
     case row of None \<Rightarrow> failS (''calendar not found: '' @ uid) | Some c \<Rightarrow> retS c)"

definition ListCalendars :: "int \<Rightarrow> (dav_state, string, calendar list) sproc" where
  "ListCalendars userID = queryD (\<lambda>y. sort_key ca_Name [c \<leftarrow> dv_calendars y. ca_UserID c = userID])"

definition update_calendars :: "(calendar \<Rightarrow> bool) \<Rightarrow> (calendar \<Rightarrow> calendar) \<Rightarrow> dav_state \<Rightarrow> (string, dav_state \<times> nat) result" where
  "update_calendars P f y =
     Inr (y\<lparr>dv_calendars := map (\<lambda>c. if P c then f c else c) (dv_calendars y)\<rparr>, length (filter P (dv_calendars y)))"

definition UpdateCalendar :: "time \<Rightarrow> string \<Rightarrow> string \<Rightarrow> string \<Rightarrow> string \<Rightarrow> (dav_state, string, unit) sproc" where
  "UpdateCalendar now uid name description color =
     bindS (execD (update_calendars (\<lambda>c. ca_UID c = uid)
              (\<lambda>c. c\<lparr>ca_Name := name, ca_Description := description, ca_Color := color, ca_CTag := generateCTag now\<rparr>))) (\<lambda>affected.
     if affected = 0 then failS (''calendar not found: '' @ uid) else retS ())"

definition delete_calendar :: "string \<Rightarrow> dav_state \<Rightarrow> (string, dav_state \<times> nat) result" where
  "delete_calendar uid y =
     (let gone = [c \<leftarrow> dv_calendars y. ca_UID c = uid]
      in Inr (y\<lparr>dv_calendars := [c \<leftarrow> dv_calendars y. ca_UID c \<noteq> uid],
                dv_events := [e \<leftarrow> dv_events y. ce_CalendarID e \<notin> ca_ID ` set gone]\<rparr>, length gone))"

definition DeleteCalendar :: "string \<Rightarrow> (dav_state, string, unit) sproc" where
  "DeleteCalendar uid =
     bindS (execD (delete_calendar uid)) (\<lambda>affected.
     if affected = 0 then failS (''calendar not found: '' @ uid) else retS ())"

text \<open>\<open>calendar_id = (SELECT id FROM calendars WHERE uid = ?)\<close>; no calendar gives NULL, which equals nothing.\<close>

definition in_calendar :: "string \<Rightarrow> dav_state \<Rightarrow> calendar_event \<Rightarrow> bool" where
  "in_calendar calendarUID y e = (case find (\<lambda>c. ca_UID c = calendarUID) (dv_calendars y) of
     None \<Rightarrow> False | Some c \<Rightarrow> ce_CalendarID e = ca_ID c)"

definition insert_event :: "int \<Rightarrow> calendar_event \<Rightarrow> dav_state \<Rightarrow> (string, dav_state \<times> unit) result" where
  "insert_event calID event y =
     (if \<not> list_ex (\<lambda>c. ca_ID c = calID) (dv_calendars y) then Inl ''FOREIGN KEY constraint failed''
      else if list_ex (\<lambda>e. ce_CalendarID e = calID \<and> ce_UID e = ce_UID event) (dv_events y)
      then Inl ''UNIQUE constraint failed: calendar_events.calendar_id, calendar_events.uid''
      else (let i = dv_event_seq y + 1
            in Inr (y\<lparr>dv_event_seq := i, dv_events := dv_events y @ [event\<lparr>ce_ID := i, ce_CalendarID := calID\<rparr>]\<rparr>, ())))"

definition touch_calendar :: "time \<Rightarrow> (calendar \<Rightarrow> bool) \<Rightarrow> (dav_state, string, unit) sproc" where
  "touch_calendar now P = bindS (execD (update_calendars P (\<lambda>c. c\<lparr>ca_CTag := generateCTag now\<rparr>))) (\<lambda>_. retS ())"

definition CreateEvent :: "time \<Rightarrow> (string, string) result \<Rightarrow> string \<Rightarrow> calendar_event \<Rightarrow> (dav_state, string, unit) sproc" where
  "CreateEvent now rnd calendarUID event =
     bindS (mapErrS (\<lambda>e. ''failed to query calendar: '' @ e)
              (queryD (\<lambda>y. find (\<lambda>c. ca_UID c = calendarUID) (dv_calendars y)))) (\<lambda>row.
     case row of
       None \<Rightarrow> failS (''calendar not found: '' @ calendarUID)
     | Some c \<Rightarrow>
         bindS (mapErrS (\<lambda>e. ''failed to generate ETag: '' @ e) (liftR (generateETag rnd))) (\<lambda>etag.
         bindS (mapErrS (\<lambda>e. ''failed to create event: '' @ e) (execD (insert_event (ca_ID c) (event\<lparr>ce_ETag := etag\<rparr>)))) (\<lambda>_.
         mapErrS (\<lambda>e. ''event created but failed to update calendar ctag: '' @ e) (touch_calendar now (\<lambda>c'. ca_ID c' = ca_ID c)))))"

definition GetEvent :: "string \<Rightarrow> string \<Rightarrow> (dav_state, string, calendar_event) sproc" where
  "GetEvent calendarUID eventUID =
     bindS (queryD (\<lambda>y. find (\<lambda>e. in_calendar calendarUID y e \<and> ce_UID e = eventUID) (dv_events y))) (\<lambda>row.
     case row of None \<Rightarrow> failS (''event not found: '' @ eventUID) | Some e \<Rightarrow> retS e)"

definition ListEvents :: "string \<Rightarrow> (dav_state, string, calendar_event list) sproc" where
  "ListEvents calendarUID = queryD (\<lambda>y. sort_key ce_StartTime (filter (in_calendar calendarUID y) (dv_events y)))"

definition ListEventsInRange :: "string \<Rightarrow> time \<Rightarrow> time \<Rightarrow> (dav_state, string, calendar_event list) sproc" where
  "ListEventsInRange calendarUID start finish =
     queryD (\<lambda>y. sort_key ce_StartTime [e \<leftarrow> dv_events y. in_calendar calendarUID y e \<and> start \<le> ce_StartTime e \<and> ce_EndTime e \<le> finish])"

definition update_events :: "(dav_state \<Rightarrow> calendar_event \<Rightarrow> bool) \<Rightarrow> (calendar_event \<Rightarrow> calendar_event) \<Rightarrow> dav_state \<Rightarrow> (string, dav_state \<times> nat) result" where
  "update_events P f y = Inr (y\<lparr>dv_events := map (\<lambda>e. if P y e then f e else e) (dv_events y)\<rparr>, length (filter (P y) (dv_events y)))"

definition UpdateEvent :: "time \<Rightarrow> (string, string) result \<Rightarrow> string \<Rightarrow> calendar_event \<Rightarrow> (dav_state, string, unit) sproc" where
  "UpdateEvent now rnd calendarUID event =
     bindS (mapErrS (\<lambda>e. ''failed to generate ETag: '' @ e) (liftR (generateETag rnd))) (\<lambda>etag.
     bindS (mapErrS (\<lambda>e. ''failed to update event: '' @ e)
              (execD (update_events (\<lambda>y e. ce_UID e = ce_UID event \<and> in_calendar calendarUID y e)
                 (\<lambda>e. event\<lparr>ce_ID := ce_ID e, ce_CalendarID := ce_CalendarID e, ce_UID := ce_UID e, ce_ETag := etag\<rparr>)))) (\<lambda>affected.
     if affected = 0 then failS (''event not found: '' @ ce_UID event)
     else mapErrS (\<lambda>e. ''event updated but failed to update calendar ctag: '' @ e) (touch_calendar now (\<lambda>c. ca_UID c = calendarUID))))"

definition delete_events :: "string \<Rightarrow> string \<Rightarrow> dav_state \<Rightarrow> (string, dav_state \<times> nat) result" where
  "delete_events calendarUID eventUID y =
     (let P = (\<lambda>e. ce_UID e = eventUID \<and> in_calendar calendarUID y e)
      in Inr (y\<lparr>dv_events := [e \<leftarrow> dv_events y. \<not> P e]\<rparr>, length (filter P (dv_events y))))"

definition DeleteEvent :: "time \<Rightarrow> string \<Rightarrow> string \<Rightarrow> (dav_state, string, unit) sproc" where
  "DeleteEvent now calendarUID eventUID =
     bindS (mapErrS (\<lambda>e. ''failed to delete event: '' @ e) (execD (delete_events calendarUID eventUID))) (\<lambda>affected.
     if affected = 0 then failS (''event not found: '' @ eventUID)
     else mapErrS (\<lambda>e. ''event deleted but failed to update calendar ctag: '' @ e) (touch_calendar now (\<lambda>c. ca_UID c = calendarUID)))"

section \<open>Address books\<close>

definition insert_book :: "int \<Rightarrow> string \<Rightarrow> string \<Rightarrow> string \<Rightarrow> string \<Rightarrow> dav_state \<Rightarrow> (string, dav_state \<times> int) result" where
  "insert_book userID uid name description ctag y =
     (if \<not> list_ex (\<lambda>u. u_id u = userID) (w_users (dv_world y)) then Inl ''FOREIGN KEY constraint failed''
      else if list_ex (\<lambda>b. ab_UID b = uid) (dv_books y) then Inl ''UNIQUE constraint failed: addressbooks.uid''
      else (let i = dv_book_seq y + 1
            in Inr (y\<lparr>dv_book_seq := i,
                      dv_books := dv_books y @ [\<lparr>ab_ID = i, ab_UserID = userID, ab_UID = uid, ab_Name = name,
                        ab_Description = description, ab_CTag = ctag, ab_IsDefault = False\<rparr>]\<rparr>, i)))"

definition CreateAddressBook :: "time \<Rightarrow> (string, string) result \<Rightarrow> int \<Rightarrow> string \<Rightarrow> string \<Rightarrow> (dav_state, string, address_book) sproc" where
  "CreateAddressBook now rnd userID name description =
     bindS (mapErrS (\<lambda>e. ''failed to generate UID: '' @ e) (liftR (generateUID rnd))) (\<lambda>uid.
     bindS (mapErrS (\<lambda>e. ''failed to create address book: '' @ e)
              (execD (insert_book userID uid name description (generateCTag now)))) (\<lambda>i.
     retS \<lparr>ab_ID = i, ab_UserID = userID, ab_UID = uid, ab_Name = name, ab_Description = description,
           ab_CTag = generateCTag now, ab_IsDefault = False\<rparr>))"

definition GetAddressBook :: "string \<Rightarrow> (dav_state, string, address_book) sproc" where
  "GetAddressBook uid =
     bindS (queryD (\<lambda>y. find (\<lambda>b. ab_UID b = uid) (dv_books y))) (\<lambda>row.
     case row of None \<Rightarrow> failS (''address book not found: '' @ uid) | Some b \<Rightarrow> retS b)"

definition ListAddressBooks :: "int \<Rightarrow> (dav_state, string, address_book list) sproc" where
  "ListAddressBooks userID = queryD (\<lambda>y. sort_key ab_Name [b \<leftarrow> dv_books y. ab_UserID b = userID])"

definition update_books :: "(address_book \<Rightarrow> bool) \<Rightarrow> (address_book \<Rightarrow> address_book) \<Rightarrow> dav_state \<Rightarrow> (string, dav_state \<times> nat) result" where
  "update_books P f y =
     Inr (y\<lparr>dv_books := map (\<lambda>b. if P b then f b else b) (dv_books y)\<rparr>, length (filter P (dv_books y)))"

definition UpdateAddressBook :: "time \<Rightarrow> string \<Rightarrow> string \<Rightarrow> string \<Rightarrow> (dav_state, string, unit) sproc" where
  "UpdateAddressBook now uid name description =
     bindS (execD (update_books (\<lambda>b. ab_UID b = uid)
              (\<lambda>b. b\<lparr>ab_Name := name, ab_Description := description, ab_CTag := generateCTag now\<rparr>))) (\<lambda>affected.
     if affected = 0 then failS (''address book not found: '' @ uid) else retS ())"

definition delete_book :: "string \<Rightarrow> dav_state \<Rightarrow> (string, dav_state \<times> nat) result" where
  "delete_book uid y =
     (let gone = [b \<leftarrow> dv_books y. ab_UID b = uid]
      in Inr (y\<lparr>dv_books := [b \<leftarrow> dv_books y. ab_UID b \<noteq> uid],
                dv_contacts := [c \<leftarrow> dv_contacts y. co_AddressBookID c \<notin> ab_ID ` set gone]\<rparr>, length gone))"

definition DeleteAddressBook :: "string \<Rightarrow> (dav_state, string, unit) sproc" where
  "DeleteAddressBook uid =
     bindS (execD (delete_book uid)) (\<lambda>affected.
     if affected = 0 then failS (''address book not found: '' @ uid) else retS ())"

definition in_book :: "string \<Rightarrow> dav_state \<Rightarrow> contact \<Rightarrow> bool" where
  "in_book addressBookUID y c = (case find (\<lambda>b. ab_UID b = addressBookUID) (dv_books y) of
     None \<Rightarrow> False | Some b \<Rightarrow> co_AddressBookID c = ab_ID b)"

definition insert_contact :: "int \<Rightarrow> contact \<Rightarrow> dav_state \<Rightarrow> (string, dav_state \<times> unit) result" where
  "insert_contact abID contact y =
     (if \<not> list_ex (\<lambda>b. ab_ID b = abID) (dv_books y) then Inl ''FOREIGN KEY constraint failed''
      else if list_ex (\<lambda>c. co_AddressBookID c = abID \<and> co_UID c = co_UID contact) (dv_contacts y)
      then Inl ''UNIQUE constraint failed: contacts.addressbook_id, contacts.uid''
      else (let i = dv_contact_seq y + 1
            in Inr (y\<lparr>dv_contact_seq := i, dv_contacts := dv_contacts y @ [contact\<lparr>co_ID := i, co_AddressBookID := abID\<rparr>]\<rparr>, ())))"

definition touch_book :: "time \<Rightarrow> (address_book \<Rightarrow> bool) \<Rightarrow> (dav_state, string, unit) sproc" where
  "touch_book now P = bindS (execD (update_books P (\<lambda>b. b\<lparr>ab_CTag := generateCTag now\<rparr>))) (\<lambda>_. retS ())"

definition CreateContact :: "time \<Rightarrow> (string, string) result \<Rightarrow> string \<Rightarrow> contact \<Rightarrow> (dav_state, string, unit) sproc" where
  "CreateContact now rnd addressBookUID contact =
     bindS (mapErrS (\<lambda>e. ''failed to query address book: '' @ e)
              (queryD (\<lambda>y. find (\<lambda>b. ab_UID b = addressBookUID) (dv_books y)))) (\<lambda>row.
     case row of
       None \<Rightarrow> failS (''address book not found: '' @ addressBookUID)
     | Some b \<Rightarrow>
         bindS (mapErrS (\<lambda>e. ''failed to generate ETag: '' @ e) (liftR (generateETag rnd))) (\<lambda>etag.
         bindS (mapErrS (\<lambda>e. ''failed to create contact: '' @ e) (execD (insert_contact (ab_ID b) (contact\<lparr>co_ETag := etag\<rparr>)))) (\<lambda>_.
         mapErrS (\<lambda>e. ''contact created but failed to update address book ctag: '' @ e) (touch_book now (\<lambda>b'. ab_ID b' = ab_ID b)))))"

definition GetContact :: "string \<Rightarrow> string \<Rightarrow> (dav_state, string, contact) sproc" where
  "GetContact addressBookUID contactUID =
     bindS (queryD (\<lambda>y. find (\<lambda>c. in_book addressBookUID y c \<and> co_UID c = contactUID) (dv_contacts y))) (\<lambda>row.
     case row of None \<Rightarrow> failS (''contact not found: '' @ contactUID) | Some c \<Rightarrow> retS c)"

definition ListContacts :: "string \<Rightarrow> (dav_state, string, contact list) sproc" where
  "ListContacts addressBookUID = queryD (\<lambda>y. sort_key co_FullName (filter (in_book addressBookUID y) (dv_contacts y)))"

text \<open>The LIKE operator of SQLite with an escape character: it does not distinguish the case of ASCII letters; an escape character at
  the end of the pattern matches nothing.\<close>

fun like_escape :: "char \<Rightarrow> string \<Rightarrow> string \<Rightarrow> bool" where
  "like_escape x [] s \<longleftrightarrow> s = []"
| "like_escape x (c # p) s \<longleftrightarrow>
     (if c = x then (case (p, s) of (d # p', t # s') \<Rightarrow> lower_char t = lower_char d \<and> like_escape x p' s' | _ \<Rightarrow> False)
      else if c = CHR ''%'' then like_escape x p s \<or> (case s of t # s' \<Rightarrow> like_escape x (c # p) s' | [] \<Rightarrow> False)
      else (case s of t # s' \<Rightarrow> (c = CHR ''_'' \<or> lower_char t = lower_char c) \<and> like_escape x p s' | [] \<Rightarrow> False))"

definition escape_like :: "string \<Rightarrow> string" where
  "escape_like query = ReplaceAll (ReplaceAll (ReplaceAll query ''!'' ''!!'') ''%'' ''!%'') ''_'' ''!_''"

definition SearchContacts :: "string \<Rightarrow> string \<Rightarrow> (dav_state, string, contact list) sproc" where
  "SearchContacts addressBookUID query =
     (let pat = ''%'' @ escape_like query @ ''%''
      in queryD (\<lambda>y. sort_key co_FullName [c \<leftarrow> dv_contacts y. in_book addressBookUID y c \<and>
           (like_escape (CHR ''!'') pat (co_FullName c) \<or> like_escape (CHR ''!'') pat (co_Emails c))]))"

definition update_contacts :: "(dav_state \<Rightarrow> contact \<Rightarrow> bool) \<Rightarrow> (contact \<Rightarrow> contact) \<Rightarrow> dav_state \<Rightarrow> (string, dav_state \<times> nat) result" where
  "update_contacts P f y = Inr (y\<lparr>dv_contacts := map (\<lambda>c. if P y c then f c else c) (dv_contacts y)\<rparr>, length (filter (P y) (dv_contacts y)))"

definition UpdateContact :: "time \<Rightarrow> (string, string) result \<Rightarrow> string \<Rightarrow> contact \<Rightarrow> (dav_state, string, unit) sproc" where
  "UpdateContact now rnd addressBookUID contact =
     bindS (mapErrS (\<lambda>e. ''failed to generate ETag: '' @ e) (liftR (generateETag rnd))) (\<lambda>etag.
     bindS (mapErrS (\<lambda>e. ''failed to update contact: '' @ e)
              (execD (update_contacts (\<lambda>y c. co_UID c = co_UID contact \<and> in_book addressBookUID y c)
                 (\<lambda>c. contact\<lparr>co_ID := co_ID c, co_AddressBookID := co_AddressBookID c, co_UID := co_UID c, co_ETag := etag\<rparr>)))) (\<lambda>affected.
     if affected = 0 then failS (''contact not found: '' @ co_UID contact)
     else mapErrS (\<lambda>e. ''contact updated but failed to update address book ctag: '' @ e) (touch_book now (\<lambda>b. ab_UID b = addressBookUID))))"

definition delete_contacts :: "string \<Rightarrow> string \<Rightarrow> dav_state \<Rightarrow> (string, dav_state \<times> nat) result" where
  "delete_contacts addressBookUID contactUID y =
     (let P = (\<lambda>c. co_UID c = contactUID \<and> in_book addressBookUID y c)
      in Inr (y\<lparr>dv_contacts := [c \<leftarrow> dv_contacts y. \<not> P c]\<rparr>, length (filter P (dv_contacts y))))"

definition DeleteContact :: "time \<Rightarrow> string \<Rightarrow> string \<Rightarrow> (dav_state, string, unit) sproc" where
  "DeleteContact now addressBookUID contactUID =
     bindS (mapErrS (\<lambda>e. ''failed to delete contact: '' @ e) (execD (delete_contacts addressBookUID contactUID))) (\<lambda>affected.
     if affected = 0 then failS (''contact not found: '' @ contactUID)
     else mapErrS (\<lambda>e. ''contact deleted but failed to update address book ctag: '' @ e) (touch_book now (\<lambda>b. ab_UID b = addressBookUID)))"

section \<open>Searching\<close>

lemma next_fault_ok: "w_faults w = [] \<Longrightarrow> Mail_World.next_fault w = (w, None)"
  by (simp add: Mail_World.next_fault_def)

lemma queryD_ok: "w_faults (dv_world y) = [] \<Longrightarrow> queryD f y = (y, Inr (f y))"
  by (simp add: queryD_def next_fault_ok)

lemma execD_ok: "w_faults (dv_world y) = [] \<Longrightarrow> execD f y = (case f y of Inl e \<Rightarrow> (y, Inl e) | Inr (y', x) \<Rightarrow> (y', Inr x))"
  by (simp add: execD_def next_fault_ok split: sum.split)

lemma ReplaceAll_single: "ReplaceAll s [c] t = concat (map (\<lambda>x. if x = c then t else [x]) s)"
  unfolding ReplaceAll_def by (induction s) auto

definition like_quote :: "char \<Rightarrow> string" where
  "like_quote x = (if x = CHR ''!'' \<or> x = CHR ''%'' \<or> x = CHR ''_'' then [CHR ''!'', x] else [x])"

lemma escape_like_quote: "escape_like q = concat (map like_quote q)"
  unfolding escape_like_def ReplaceAll_single by (induction q) (auto simp: like_quote_def)

lemma like_percent: "like_escape x (CHR ''%'' # p) s \<longleftrightarrow> (\<exists>a b. s = a @ b \<and> like_escape x p b)" if "x \<noteq> CHR ''%''"
proof (induction s)
  case Nil
  then show ?case using that by simp
next
  case (Cons t s)
  have "like_escape x (CHR ''%'' # p) (t # s) \<longleftrightarrow> like_escape x p (t # s) \<or> like_escape x (CHR ''%'' # p) s" using that by simp
  also have "\<dots> \<longleftrightarrow> like_escape x p (t # s) \<or> (\<exists>a b. s = a @ b \<and> like_escape x p b)" by (simp only: Cons.IH)
  also have "\<dots> \<longleftrightarrow> (\<exists>a b. t # s = a @ b \<and> like_escape x p b)" by (metis append_Cons append_Nil list.exhaust list.inject)
  finally show ?case .
qed

lemma like_quoted:
  "like_escape (CHR ''!'') (concat (map like_quote q) @ p) s \<longleftrightarrow>
     (\<exists>a b. s = a @ b \<and> ToLower a = ToLower q \<and> like_escape (CHR ''!'') p b)"
proof (induction q arbitrary: s)
  case Nil
  then show ?case by (simp add: ToLower_def)
next
  case (Cons c q)
  have "like_escape (CHR ''!'') (concat (map like_quote (c # q)) @ p) s \<longleftrightarrow>
    (case s of [] \<Rightarrow> False | t # s' \<Rightarrow> lower_char t = lower_char c \<and> like_escape (CHR ''!'') (concat (map like_quote q) @ p) s')"
    by (auto simp: like_quote_def split: list.split)
  also have "\<dots> \<longleftrightarrow> (\<exists>a b. s = a @ b \<and> ToLower a = ToLower (c # q) \<and> like_escape (CHR ''!'') p b)"
    by (cases s) (auto simp: Cons.IH ToLower_def Cons_eq_append_conv map_eq_Cons_conv)
  finally show ?case .
qed

lemma like_contains:
  "like_escape (CHR ''!'') (''%'' @ escape_like q @ ''%'') s \<longleftrightarrow> Contains (ToLower s) (ToLower q)"
proof -
  have "like_escape (CHR ''!'') (''%'' @ escape_like q @ ''%'') s \<longleftrightarrow> (\<exists>a m b. s = a @ m @ b \<and> ToLower m = ToLower q)"
    by (simp add: like_percent like_quoted escape_like_quote del: like_escape.simps(2)) blast
  also have "\<dots> \<longleftrightarrow> (\<exists>a b. ToLower s = a @ ToLower q @ b)"
    unfolding ToLower_def by (metis map_append append_eq_map_conv map_eq_append_conv)
  finally show ?thesis by (simp add: Contains_iff)
qed

text \<open>Searching contacts finds exactly the contacts of the address book whose name or addresses contain the query without regard to
  case, whatever characters the query has: the wildcards of LIKE in it stand for themselves.\<close>

theorem search_contacts_iff:
  assumes "w_faults (dv_world y) = []"
  shows "SearchContacts uid query y = (y, Inr (sort_key co_FullName [c \<leftarrow> dv_contacts y. in_book uid y c \<and>
    (Contains (ToLower (co_FullName c)) (ToLower query) \<or> Contains (ToLower (co_Emails c)) (ToLower query))]))"
  unfolding SearchContacts_def Let_def like_contains using assms by (simp add: queryD_ok)

definition book_1 :: dav_state where
  "book_1 = \<lparr>dv_world = world_1, dv_calendars = [], dv_events = [],
     dv_books = [\<lparr>ab_ID = 1, ab_UserID = 1, ab_UID = ''b1'', ab_Name = ''Contacts'', ab_Description = [], ab_CTag = [], ab_IsDefault = False\<rparr>],
     dv_contacts = map (\<lambda>(i, n). \<lparr>co_ID = i, co_AddressBookID = 1, co_UID = show_int i, co_ETag = [], co_VCardData = [], co_FullName = n,
       co_GivenName = [], co_FamilyName = [], co_Nickname = [], co_Emails = [], co_Phones = [], co_Organization = []\<rparr>)
       [(1, ''A_B''), (2, ''AxB''), (3, ''xa_bx'')],
     dv_calendar_seq = 0, dv_event_seq = 0, dv_book_seq = 1, dv_contact_seq = 3\<rparr>"

theorem search_contacts_iff_witness:
  "\<exists>cs. SearchContacts ''b1'' ''a_b'' book_1 = (book_1, Inr cs) \<and> co_ID ` set cs = {1, 3}"
proof -
  have f: "w_faults (dv_world book_1) = []" by (simp add: book_1_def world_1_def)
  have "map co_ID [c \<leftarrow> dv_contacts book_1. in_book ''b1'' book_1 c \<and>
    (Contains (ToLower (co_FullName c)) (ToLower ''a_b'') \<or> Contains (ToLower (co_Emails c)) (ToLower ''a_b''))] = [1, 3]"
    by code_simp
  then have "co_ID ` set [c \<leftarrow> dv_contacts book_1. in_book ''b1'' book_1 c \<and>
    (Contains (ToLower (co_FullName c)) (ToLower ''a_b'') \<or> Contains (ToLower (co_Emails c)) (ToLower ''a_b''))] = {1, 3}"
    by (metis (no_types, lifting) list.set_map list.simps(15) list.set(1))
  then have "co_ID ` set (sort_key co_FullName [c \<leftarrow> dv_contacts book_1. in_book ''b1'' book_1 c \<and>
    (Contains (ToLower (co_FullName c)) (ToLower ''a_b'') \<or> Contains (ToLower (co_Emails c)) (ToLower ''a_b''))]) = {1, 3}"
    by (simp only: set_sort)
  with search_contacts_iff [OF f, of "''b1''" "''a_b''"] show ?thesis by blast
qed

section \<open>Invariant\<close>

text \<open>The constraints of the schema on the tables of the two backends.\<close>

definition dav_ok :: "dav_state \<Rightarrow> bool" where
  "dav_ok y \<longleftrightarrow> distinct (map ca_ID (dv_calendars y)) \<and> distinct (map ca_UID (dv_calendars y)) \<and>
     (\<forall>c\<in>set (dv_calendars y). ca_ID c \<le> dv_calendar_seq y) \<and>
     distinct (map (\<lambda>e. (ce_CalendarID e, ce_UID e)) (dv_events y)) \<and> ce_CalendarID ` set (dv_events y) \<subseteq> ca_ID ` set (dv_calendars y) \<and>
     distinct (map ab_ID (dv_books y)) \<and> distinct (map ab_UID (dv_books y)) \<and> (\<forall>b\<in>set (dv_books y). ab_ID b \<le> dv_book_seq y) \<and>
     distinct (map (\<lambda>c. (co_AddressBookID c, co_UID c)) (dv_contacts y)) \<and> co_AddressBookID ` set (dv_contacts y) \<subseteq> ab_ID ` set (dv_books y)"

definition keeps_ok :: "dav_state \<Rightarrow> dav_state \<Rightarrow> bool" where
  "keeps_ok y y' \<longleftrightarrow> dav_ok y \<longrightarrow> dav_ok y'"

interpretation ok: state_rel keeps_ok
  by unfold_locales (simp_all add: keeps_ok_def)

named_theorems dav_intros

lemmas ok_rules [dav_intros] = ok.retS ok.failS ok.bindS ok.orElse ok.mapErrS ok.ifS

lemma dav_ok_world [simp]: "dav_ok (y\<lparr>dv_world := w\<rparr>) = dav_ok y"
  by (simp add: dav_ok_def)

lemma ok_queryD [dav_intros]: "stepsS keeps_ok (queryD f)"
  by (auto simp: stepsS_def queryD_def keeps_ok_def split: prod.split option.split)

lemma ok_execD [dav_intros]: "(\<And>y y' x. dav_ok y \<Longrightarrow> f y = Inr (y', x) \<Longrightarrow> dav_ok y') \<Longrightarrow> stepsS keeps_ok (execD f)"
  by (auto simp: stepsS_def execD_def keeps_ok_def split: prod.split option.split sum.split) (metis dav_ok_world)

lemma ok_liftR [dav_intros]: "stepsS keeps_ok (liftR r)"
  by (simp add: stepsS_def liftR_def keeps_ok_def)

lemma ok_insert_calendar: "dav_ok y \<Longrightarrow> insert_calendar u uid n d t y = Inr (y', i) \<Longrightarrow> dav_ok y'"
  by (force simp: insert_calendar_def dav_ok_def Let_def list_ex_iff split: if_splits)

lemma ok_insert_book: "dav_ok y \<Longrightarrow> insert_book u uid n d t y = Inr (y', i) \<Longrightarrow> dav_ok y'"
  by (force simp: insert_book_def dav_ok_def Let_def list_ex_iff split: if_splits)

lemma ok_map_dv_calendars:
  assumes "dav_ok y" "\<And>x. ca_ID (g x) = ca_ID x \<and> ca_UID (g x) = ca_UID x"
  shows "dav_ok (y\<lparr>dv_calendars := map g (dv_calendars y)\<rparr>)"
  using assms by (simp add: dav_ok_def image_image o_def)

lemma ok_update_calendars:
  assumes "dav_ok y" "update_calendars P f y = Inr (y', n)" "\<And>x. ca_ID (f x) = ca_ID x \<and> ca_UID (f x) = ca_UID x"
  shows "dav_ok y'"
  using ok_map_dv_calendars [OF assms(1), of "\<lambda>x. if P x then f x else x"] assms(2,3) by (auto simp: update_calendars_def)

lemma ok_map_dv_books:
  assumes "dav_ok y" "\<And>x. ab_ID (g x) = ab_ID x \<and> ab_UID (g x) = ab_UID x"
  shows "dav_ok (y\<lparr>dv_books := map g (dv_books y)\<rparr>)"
  using assms by (simp add: dav_ok_def image_image o_def)

lemma ok_update_books:
  assumes "dav_ok y" "update_books P f y = Inr (y', n)" "\<And>x. ab_ID (f x) = ab_ID x \<and> ab_UID (f x) = ab_UID x"
  shows "dav_ok y'"
  using ok_map_dv_books [OF assms(1), of "\<lambda>x. if P x then f x else x"] assms(2,3) by (auto simp: update_books_def)

lemma ok_cascade:
  "dav_ok y \<Longrightarrow> dav_ok (y\<lparr>dv_calendars := [c \<leftarrow> dv_calendars y. ca_UID c \<noteq> uid],
     dv_events := [e \<leftarrow> dv_events y. ce_CalendarID e \<notin> ca_ID ` {c \<in> set (dv_calendars y). ca_UID c = uid}]\<rparr>)"
  "dav_ok y \<Longrightarrow> dav_ok (y\<lparr>dv_books := [b \<leftarrow> dv_books y. ab_UID b \<noteq> uid],
     dv_contacts := [c \<leftarrow> dv_contacts y. co_AddressBookID c \<notin> ab_ID ` {b \<in> set (dv_books y). ab_UID b = uid}]\<rparr>)"
  by (simp_all add: dav_ok_def distinct_map_filter image_subset_iff) blast+

lemma ok_delete_calendar: "dav_ok y \<Longrightarrow> delete_calendar uid y = Inr (y', n) \<Longrightarrow> dav_ok y'"
  by (auto simp: delete_calendar_def Let_def intro: ok_cascade)

lemma ok_delete_book: "dav_ok y \<Longrightarrow> delete_book uid y = Inr (y', n) \<Longrightarrow> dav_ok y'"
  by (auto simp: delete_book_def Let_def intro: ok_cascade)

lemma ok_insert_event: "dav_ok y \<Longrightarrow> insert_event i e y = Inr (y', x) \<Longrightarrow> dav_ok y'"
  by (force simp: insert_event_def dav_ok_def Let_def list_ex_iff split: if_splits)

lemma ok_insert_contact: "dav_ok y \<Longrightarrow> insert_contact i c y = Inr (y', x) \<Longrightarrow> dav_ok y'"
  by (force simp: insert_contact_def dav_ok_def Let_def list_ex_iff split: if_splits)

lemma ok_filter:
  "dav_ok y \<Longrightarrow> dav_ok (y\<lparr>dv_events := filter P (dv_events y)\<rparr>)" "dav_ok y \<Longrightarrow> dav_ok (y\<lparr>dv_contacts := filter Q (dv_contacts y)\<rparr>)"
  by (simp_all add: dav_ok_def distinct_map_filter image_subset_iff)

lemma ok_delete_events: "dav_ok y \<Longrightarrow> delete_events c u y = Inr (y', n) \<Longrightarrow> dav_ok y'"
  by (auto simp: delete_events_def Let_def intro: ok_filter)

lemma ok_delete_contacts: "dav_ok y \<Longrightarrow> delete_contacts c u y = Inr (y', n) \<Longrightarrow> dav_ok y'"
  by (auto simp: delete_contacts_def Let_def intro: ok_filter)

lemma ok_map_dv_events:
  assumes "dav_ok y" "\<And>x. ce_CalendarID (g x) = ce_CalendarID x \<and> ce_UID (g x) = ce_UID x"
  shows "dav_ok (y\<lparr>dv_events := map g (dv_events y)\<rparr>)"
  using assms by (simp add: dav_ok_def image_image o_def)

lemma ok_update_events:
  assumes "dav_ok y" "update_events P f y = Inr (y', n)" "\<And>x. ce_CalendarID (f x) = ce_CalendarID x \<and> ce_UID (f x) = ce_UID x"
  shows "dav_ok y'"
  using ok_map_dv_events [OF assms(1), of "\<lambda>x. if P y x then f x else x"] assms(2,3) by (auto simp: update_events_def)

lemma ok_map_dv_contacts:
  assumes "dav_ok y" "\<And>x. co_AddressBookID (g x) = co_AddressBookID x \<and> co_UID (g x) = co_UID x"
  shows "dav_ok (y\<lparr>dv_contacts := map g (dv_contacts y)\<rparr>)"
  using assms by (simp add: dav_ok_def image_image o_def)

lemma ok_update_contacts:
  assumes "dav_ok y" "update_contacts P f y = Inr (y', n)" "\<And>x. co_AddressBookID (f x) = co_AddressBookID x \<and> co_UID (f x) = co_UID x"
  shows "dav_ok y'"
  using ok_map_dv_contacts [OF assms(1), of "\<lambda>x. if P y x then f x else x"] assms(2,3) by (auto simp: update_contacts_def)

lemma option_steps: "stepsS R m \<Longrightarrow> (\<And>x. stepsS R (f x)) \<Longrightarrow> stepsS R (case z of None \<Rightarrow> m | Some x \<Rightarrow> f x)"
  by (cases z) simp_all

lemma ok_touch [dav_intros]: "stepsS keeps_ok (touch_calendar now P)" "stepsS keeps_ok (touch_book now Q)"
  unfolding touch_calendar_def touch_book_def by (intro dav_intros; (erule (1) ok_update_calendars ok_update_books; simp))+

lemma ok_backends [dav_intros]:
  "stepsS keeps_ok (CreateCalendar now rnd u n d)" "stepsS keeps_ok (GetEvent c e)" "stepsS keeps_ok (ListCalendars u)"
  "stepsS keeps_ok (ListEvents c)" "stepsS keeps_ok (CreateEvent now rnd c ev)" "stepsS keeps_ok (UpdateEvent now rnd c ev)"
  "stepsS keeps_ok (DeleteEvent now c e)" "stepsS keeps_ok (CreateAddressBook now rnd u n d)" "stepsS keeps_ok (GetContact c e)"
  "stepsS keeps_ok (ListAddressBooks u)" "stepsS keeps_ok (ListContacts c)" "stepsS keeps_ok (CreateContact now rnd c co)"
  "stepsS keeps_ok (UpdateContact now rnd c co)" "stepsS keeps_ok (DeleteContact now c e)"
  "stepsS keeps_ok (UpdateCalendar now c n d col)" "stepsS keeps_ok (DeleteCalendar c)" "stepsS keeps_ok (UpdateAddressBook now c n d)"
  "stepsS keeps_ok (DeleteAddressBook c)"
  unfolding CreateCalendar_def GetEvent_def ListCalendars_def ListEvents_def CreateEvent_def UpdateEvent_def DeleteEvent_def
    CreateAddressBook_def GetContact_def ListAddressBooks_def ListContacts_def CreateContact_def UpdateContact_def DeleteContact_def
    UpdateCalendar_def DeleteCalendar_def UpdateAddressBook_def DeleteAddressBook_def
  by (intro dav_intros option_steps; (erule (1) ok_insert_calendar ok_insert_book ok_insert_event ok_insert_contact ok_delete_events
      ok_delete_contacts ok_delete_calendar ok_delete_book ok_update_calendars ok_update_books ok_update_events ok_update_contacts; simp)?)+

end
