(* ===== verification/Go_Http.thy ===== *)
theory Go_Http
  imports Go_Path
begin

text \<open>
  The parts of Go's packages \<^verbatim>\<open>net/http\<close> and \<^verbatim>\<open>html\<close> that the HTTP servers use: responses, errors, redirects
  and the routes of \<^verbatim>\<open>http.ServeMux\<close>. Paths are of characters that need no escaping in a URL, and the method CONNECT is
  left out.
\<close>

section \<open>Responses\<close>

record http_response =
  rs_Status :: nat
  rs_Header :: "(string \<times> string) list"
  rs_Body :: string

definition LF :: string where
  "LF = [CHR 0x0A]"

definition http_Error :: "string \<Rightarrow> nat \<Rightarrow> http_response" where
  "http_Error msg code = \<lparr>rs_Status = code,
     rs_Header = [(''Content-Type'', ''text/plain; charset=utf-8''), (''X-Content-Type-Options'', ''nosniff'')], rs_Body = msg @ LF\<rparr>"

definition http_NotFound :: http_response where
  "http_NotFound = http_Error ''404 page not found'' 404"

definition plain_status :: "nat \<Rightarrow> http_response" where
  "plain_status code = \<lparr>rs_Status = code, rs_Header = [], rs_Body = []\<rparr>"

definition EscapeString :: "string \<Rightarrow> string" where
  "EscapeString s = concat (map (\<lambda>c. if c = CHR ''&'' then ''&amp;'' else if c = CHR 0x27 then ''&#39;'' else if c = CHR ''<'' then ''&lt;''
     else if c = CHR ''>'' then ''&gt;'' else if c = CHR 0x22 then ''&#34;'' else [c]) s)"

text \<open>\<open>http.Redirect\<close> with the two codes the servers use: GET has a body, GET and HEAD a content type.\<close>

definition StatusText :: "nat \<Rightarrow> string" where
  "StatusText code = (if code = 301 then ''Moved Permanently'' else ''See Other'')"

definition http_Redirect :: "string \<Rightarrow> string \<Rightarrow> nat \<Rightarrow> http_response" where
  \<open>http_Redirect meth url code = \<lparr>rs_Status = code,
     rs_Header = (''Location'', url) # (if meth = ''GET'' \<or> meth = ''HEAD'' then [(''Content-Type'', ''text/html; charset=utf-8'')] else []),
     rs_Body = (if meth = ''GET'' then ''<a href="'' @ EscapeString url @ ''">'' @ StatusText code @ ''</a>.'' @ LF @ LF else [])\<rparr>\<close>

section \<open>Routes\<close>

definition clean_url :: "string \<Rightarrow> string" where
  "clean_url p =
     (if p = [] then ''/''
      else let q = (if HasPrefix p ''/'' then p else ''/'' @ p); c = filepath_Clean q
           in if HasSuffix q ''/'' \<and> c \<noteq> ''/'' then c @ ''/'' else c)"

datatype route = Route string | RedirectTo string | NoRoute

text \<open>A pattern that ends in a slash stands for everything below it; the longest wins. The path is cleaned first; a clean path that is
  no pattern but is one with a slash is redirected there, and a path that is not clean to the clean one.\<close>

definition longest :: "string list \<Rightarrow> string option" where
  "longest ps = fold (\<lambda>p best. case best of None \<Rightarrow> Some p | Some b \<Rightarrow> if length b < length p then Some p else best) ps None"

definition mux_route :: "string list \<Rightarrow> string \<Rightarrow> route" where
  "mux_route patterns p =
     (let c = clean_url p
      in if c \<notin> set patterns \<and> c @ ''/'' \<in> set patterns then RedirectTo (c @ ''/'')
         else if c \<noteq> p then RedirectTo c
         else if p \<in> set patterns then Route p
         else (case longest [q \<leftarrow> patterns. HasSuffix q ''/'' \<and> HasPrefix p q] of None \<Rightarrow> NoRoute | Some q \<Rightarrow> Route q))"

lemma longest_in: "longest ps = Some q \<Longrightarrow> q \<in> set ps"
proof -
  have "fold (\<lambda>p best. case best of None \<Rightarrow> Some p | Some b \<Rightarrow> if length b < length p then Some p else best) ps b = Some q \<Longrightarrow>
      q \<in> set ps \<or> b = Some q" for b
    by (induction ps arbitrary: b) (auto split: option.splits if_splits)
  then show "longest ps = Some q \<Longrightarrow> q \<in> set ps" unfolding longest_def by blast
qed

lemma mux_route_sound: "mux_route patterns p = Route q \<Longrightarrow> q \<in> set patterns \<and> HasPrefix p q"
  by (auto simp: mux_route_def Let_def split: if_splits option.splits dest!: longest_in)

end
