(* ===== verification/Dav_Server.thy ===== *)
theory Dav_Server
  imports Dav_Store Go_Http
begin

text \<open>
  Package \<^verbatim>\<open>internal/dav\<close>, the HTTP server (\<^verbatim>\<open>server.go\<close>): authentication, the check of the user in the path, and the
  handlers of CalDAV and CardDAV. A request is a record; a handler gives the response and the new state. An early return of a
  handler is an error of its sequence (\<open>State_Err\<close>), so that error and result are both responses. The bodies of the XML responses
  are written out. The routing of \<open>http.ServeMux\<close> is modelled as far as the patterns of \<open>Start\<close> need it.
\<close>

section \<open>Requests and responses\<close>

record http_request =
  rq_Method :: string
  rq_Path :: string
  rq_BasicAuth :: "(string \<times> string) option"
  rq_ContentLength :: int
  rq_Body :: "string \<times> string option" \<comment> \<open>the bytes, then the end or an error\<close>
  rq_IfMatch :: string
  rq_IfNoneMatch :: string

record dav_env =
  dx_now :: time
  dx_rand :: "(string, string) result"

type_synonym handler = "(dav_state, http_response, http_response) sproc"

definition respond :: "handler \<Rightarrow> dav_state \<Rightarrow> dav_state \<times> http_response" where
  "respond h y = (case h y of (y', Inl r) \<Rightarrow> (y', r) | (y', Inr r) \<Rightarrow> (y', r))"

definition xml_response :: "string \<Rightarrow> http_response" where
  "xml_response body = \<lparr>rs_Status = 207, rs_Header = [(''Content-Type'', ''application/xml; charset=utf-8'')], rs_Body = body\<rparr>"

definition escapeXML :: "string \<Rightarrow> string" where
  "escapeXML s = EscapeString s"

section \<open>Checks\<close>

definition maxRequestBodySize :: int where
  "maxRequestBodySize = 10 * 1024 * 1024"

definition safeReadBody :: "http_request \<Rightarrow> int \<Rightarrow> (string, string) result" where
  "safeReadBody r maxSize =
     (if rq_ContentLength r > maxSize
      then Inl (''request body too large: '' @ show_int (rq_ContentLength r) @ '' bytes exceeds limit of '' @ show_int maxSize)
      else (case rq_Body r of (content, err) \<Rightarrow>
        if int (length content) \<ge> maxSize + 1 then Inl (''request body too large: body exceeds '' @ show_int maxSize @ '' bytes'')
        else (case err of Some e \<Rightarrow> Inl (''failed to read request body: '' @ e) | None \<Rightarrow> Inr content)))"

definition validatePath :: "string \<Rightarrow> string option" where
  "validatePath p = (if p = [] then Some ''path cannot be empty''
     else if Contains p ''..'' then Some ''path traversal not allowed'' else None)"

definition isValidICalendar :: "string \<Rightarrow> bool" where
  "isValidICalendar data \<longleftrightarrow> data \<noteq> [] \<and> HasPrefix (TrimSpace data) ''BEGIN:VCALENDAR'' \<and> HasSuffix (TrimSpace data) ''END:VCALENDAR''"

definition isValidVCard :: "string \<Rightarrow> bool" where
  "isValidVCard data \<longleftrightarrow> data \<noteq> [] \<and> HasPrefix (TrimSpace data) ''BEGIN:VCARD'' \<and> HasSuffix (TrimSpace data) ''END:VCARD''"

definition extractPathUser :: "string \<Rightarrow> string \<Rightarrow> string" where
  "extractPathUser p pre =
     (case SplitN2 (TrimPrefix (TrimPrefix p pre) ''/'') (CHR ''/'') of part # _ \<Rightarrow> part | [] \<Rightarrow> [])"

section \<open>Handlers of both protocols\<close>

text \<open>An operation of the backend whose error is the text of an HTTP error.\<close>

definition or_error :: "nat \<Rightarrow> (dav_state, string, 'a) sproc \<Rightarrow> (dav_state, http_response, 'a) sproc" where
  "or_error code m = mapErrS (\<lambda>e. http_Error e code) m"

definition optionally :: "(dav_state, string, 'a) sproc \<Rightarrow> (dav_state, 'e, 'a option) sproc" where
  "optionally m = orElse (bindS m (\<lambda>x. retS (Some x))) (\<lambda>e. retS None)"

definition guardS :: "bool \<Rightarrow> http_response \<Rightarrow> (dav_state, http_response, unit) sproc" where
  "guardS b r = (if b then retS () else failS r)"

text \<open>The handlers of PUT of the two protocols are the same but for the names: \<open>get\<close>, \<open>update\<close> and \<open>create\<close> of the backend, the format
  of the data, the ETag of a resource. First the write and the new ETag, then the conditions of the header, then the whole handler.\<close>

definition put_response :: "nat \<Rightarrow> ('a \<Rightarrow> string) \<Rightarrow> 'a option \<Rightarrow> http_response" where
  "put_response code etag updated = \<lparr>rs_Status = code, rs_Header = (case updated of None \<Rightarrow> [] | Some x \<Rightarrow> [(''ETag'', etag x)]), rs_Body = []\<rparr>"

definition put_store ::
    "nat \<Rightarrow> (dav_state, string, 'a) sproc \<Rightarrow> ('a \<Rightarrow> string) \<Rightarrow> (dav_state, string, unit) sproc \<Rightarrow> handler" where
  "put_store code get etag write =
     bindS (or_error 500 write) (\<lambda>_.
     bindS (optionally get) (\<lambda>updated.
     retS (put_response code etag updated)))"

definition put_conditional ::
    "http_request \<Rightarrow> (dav_state, string, 'a) sproc \<Rightarrow> ('a \<Rightarrow> string) \<Rightarrow> (dav_state, string, unit) sproc \<Rightarrow> (dav_state, string, unit) sproc
     \<Rightarrow> handler" where
  "put_conditional r get etag update create =
     bindS (optionally get) (\<lambda>existing.
     bindS (guardS (case existing of None \<Rightarrow> True | Some x \<Rightarrow> rq_IfMatch r = [] \<or> rq_IfMatch r = etag x \<or> rq_IfMatch r = ''*'')
              (http_Error ''Precondition failed'' 412)) (\<lambda>_.
     bindS (guardS (\<not> (rq_IfNoneMatch r = ''*'' \<and> existing \<noteq> None)) (http_Error ''Resource already exists'' 412)) (\<lambda>_.
     if existing \<noteq> None then put_store 204 get etag update else put_store 201 get etag create)))"

definition put_resource ::
    "http_request \<Rightarrow> string \<Rightarrow> (string \<Rightarrow> bool) \<Rightarrow> string \<Rightarrow> (string \<Rightarrow> string \<Rightarrow> (dav_state, string, 'a) sproc) \<Rightarrow> ('a \<Rightarrow> string)
     \<Rightarrow> (string \<Rightarrow> string \<Rightarrow> string \<Rightarrow> (dav_state, string, unit) sproc) \<Rightarrow> (string \<Rightarrow> string \<Rightarrow> string \<Rightarrow> (dav_state, string, unit) sproc) \<Rightarrow> handler" where
  "put_resource r suf valid invalid get etag update create =
     bindS (case validatePath (rq_Path r) of None \<Rightarrow> retS () | Some e \<Rightarrow> failS (http_Error (''Invalid path: '' @ e) 400)) (\<lambda>_.
     (let parts = path_parts (rq_Path r)
      in bindS (guardS (length parts \<ge> 3) (http_Error ''Invalid path'' 400)) (\<lambda>_.
     (let collUID = part_from_end 2 parts; resUID = TrimSuffix (part_from_end 1 parts) suf
      in bindS (mapErrS (\<lambda>e. http_Error (''Failed to read request body: '' @ e) 400) (liftR (safeReadBody r maxRequestBodySize))) (\<lambda>data.
     bindS (guardS (valid data) (http_Error invalid 400)) (\<lambda>_.
     put_conditional r (get collUID resUID) etag (update collUID resUID data) (create collUID resUID data)))))))"

text \<open>GET, DELETE and the listing of REPORT have their own shapes in common.\<close>

definition get_resource ::
    "http_request \<Rightarrow> string \<Rightarrow> string \<Rightarrow> (string \<Rightarrow> string \<Rightarrow> (dav_state, string, 'a) sproc) \<Rightarrow> ('a \<Rightarrow> string) \<Rightarrow> ('a \<Rightarrow> string) \<Rightarrow> handler" where
  "get_resource r suf ctype get etag content =
     (let parts = path_parts (rq_Path r)
      in bindS (guardS (length parts \<ge> 3) (http_Error ''Invalid path'' 400)) (\<lambda>_.
         bindS (or_error 404 (get (part_from_end 2 parts) (TrimSuffix (part_from_end 1 parts) suf))) (\<lambda>x.
         retS \<lparr>rs_Status = 200, rs_Header = [(''Content-Type'', ctype), (''ETag'', etag x)], rs_Body = content x\<rparr>)))"

definition delete_resource :: "http_request \<Rightarrow> string \<Rightarrow> (string \<Rightarrow> string \<Rightarrow> (dav_state, string, unit) sproc) \<Rightarrow> handler" where
  "delete_resource r suf del =
     (let parts = path_parts (rq_Path r)
      in bindS (guardS (length parts \<ge> 3) (http_Error ''Invalid path'' 400)) (\<lambda>_.
         bindS (or_error 404 (del (part_from_end 2 parts) (TrimSuffix (part_from_end 1 parts) suf))) (\<lambda>_.
         retS (plain_status 204))))"

definition report_uid :: "string list \<Rightarrow> string" where
  "report_uid parts = (let uid = part_from_end 1 parts in if uid = [] \<and> length parts \<ge> 2 then part_from_end 2 parts else uid)"

definition report_resources ::
    "http_request \<Rightarrow> string \<Rightarrow> (string \<Rightarrow> (dav_state, string, 'a list) sproc) \<Rightarrow> (string \<Rightarrow> 'a \<Rightarrow> string) \<Rightarrow> handler" where
  "report_resources r head lst item =
     (let parts = path_parts (rq_Path r)
      in bindS (guardS (length parts \<ge> 2) (http_Error ''Invalid path'' 400)) (\<lambda>_.
         bindS (or_error 500 (lst (report_uid parts))) (\<lambda>xs.
         retS (xml_response (head @ concat (map (item (report_uid parts)) xs) @ LF @ ''</D:multistatus>'')))))"

section \<open>XML\<close>

text \<open>The lines of a template, joined with newlines.\<close>

fun xml :: "string list \<Rightarrow> string" where
  "xml [] = []"
| "xml [l] = l"
| "xml (l # ls) = l @ LF @ xml ls"

definition xml_decl :: string where
  \<open>xml_decl = ''<?xml version="1.0" encoding="UTF-8"?>''\<close>

definition caldav_head :: string where
  \<open>caldav_head = xml [xml_decl,
     ''<D:multistatus xmlns:D="DAV:" xmlns:C="urn:ietf:params:xml:ns:caldav" xmlns:CS="http://calendarserver.org/ns/">'']\<close>

definition principal_xml :: "user \<Rightarrow> string" where
  \<open>principal_xml u =
     (let principalURL = ''/principals/'' @ escapeXML (us_Email u) @ ''/'';
          calendarHomeURL = ''/calendars/'' @ escapeXML (us_Email u) @ ''/'';
          addressbookHomeURL = ''/addressbooks/'' @ escapeXML (us_Email u) @ ''/''
      in xml [xml_decl,
       ''<D:multistatus xmlns:D="DAV:" xmlns:C="urn:ietf:params:xml:ns:caldav" xmlns:A="urn:ietf:params:xml:ns:carddav">'',
       ''  <D:response>'',
       ''    <D:href>'' @ principalURL @ ''</D:href>'',
       ''    <D:propstat>'',
       ''      <D:prop>'',
       ''        <D:displayname>'' @ escapeXML (us_DisplayName u) @ ''</D:displayname>'',
       ''        <D:resourcetype>'',
       ''          <D:principal/>'',
       ''          <D:collection/>'',
       ''        </D:resourcetype>'',
       ''        <C:calendar-home-set>'',
       ''          <D:href>'' @ calendarHomeURL @ ''</D:href>'',
       ''        </C:calendar-home-set>'',
       ''        <A:addressbook-home-set>'',
       ''          <D:href>'' @ addressbookHomeURL @ ''</D:href>'',
       ''        </A:addressbook-home-set>'',
       ''        <D:current-user-principal>'',
       ''          <D:href>'' @ principalURL @ ''</D:href>'',
       ''        </D:current-user-principal>'',
       ''      </D:prop>'',
       ''      <D:status>HTTP/1.1 200 OK</D:status>'',
       ''    </D:propstat>'',
       ''  </D:response>'',
       ''</D:multistatus>''])\<close>

text \<open>The collection of a user's calendars or address books, and one of them. The values go into the text as they are.\<close>

definition home_xml :: "string \<Rightarrow> string \<Rightarrow> string \<Rightarrow> string \<Rightarrow> string" where
  \<open>home_xml homeURL principalURL title home =
     xml [[],
       ''  <D:response>'',
       ''    <D:href>'' @ homeURL @ ''</D:href>'',
       ''    <D:propstat>'',
       ''      <D:prop>'',
       ''        <D:resourcetype>'',
       ''          <D:collection/>'',
       ''        </D:resourcetype>'',
       ''        <D:displayname>'' @ title @ ''</D:displayname>'',
       ''        <D:current-user-principal>'',
       ''          <D:href>'' @ principalURL @ ''</D:href>'',
       ''        </D:current-user-principal>'',
       ''        <'' @ home @ ''>'',
       ''          <D:href>'' @ homeURL @ ''</D:href>'',
       ''        </'' @ home @ ''>'',
       ''      </D:prop>'',
       ''      <D:status>HTTP/1.1 200 OK</D:status>'',
       ''    </D:propstat>'',
       ''  </D:response>'']\<close>

definition calendar_xml :: "user \<Rightarrow> calendar \<Rightarrow> string" where
  \<open>calendar_xml u cal =
     xml [[],
       ''  <D:response>'',
       ''    <D:href>/calendars/'' @ us_Email u @ ''/'' @ ca_UID cal @ ''/</D:href>'',
       ''    <D:propstat>'',
       ''      <D:prop>'',
       ''        <D:resourcetype>'',
       ''          <D:collection/>'',
       ''          <C:calendar/>'',
       ''        </D:resourcetype>'',
       ''        <D:displayname>'' @ ca_Name cal @ ''</D:displayname>'',
       ''        <CS:getctag>'' @ ca_CTag cal @ ''</CS:getctag>'',
       ''        <C:calendar-description>'' @ ca_Description cal @ ''</C:calendar-description>'',
       ''        <C:supported-calendar-component-set>'',
       ''          <C:comp name="VEVENT"/>'',
       ''          <C:comp name="VTODO"/>'',
       ''        </C:supported-calendar-component-set>'',
       ''      </D:prop>'',
       ''      <D:status>HTTP/1.1 200 OK</D:status>'',
       ''    </D:propstat>'',
       ''  </D:response>'']\<close>

definition book_xml :: "user \<Rightarrow> address_book \<Rightarrow> string" where
  \<open>book_xml u ab =
     xml [[],
       ''  <D:response>'',
       ''    <D:href>/addressbooks/'' @ us_Email u @ ''/'' @ ab_UID ab @ ''/</D:href>'',
       ''    <D:propstat>'',
       ''      <D:prop>'',
       ''        <D:resourcetype>'',
       ''          <D:collection/>'',
       ''          <A:addressbook/>'',
       ''        </D:resourcetype>'',
       ''        <D:displayname>'' @ ab_Name ab @ ''</D:displayname>'',
       ''        <CS:getctag>'' @ ab_CTag ab @ ''</CS:getctag>'',
       ''        <A:addressbook-description>'' @ ab_Description ab @ ''</A:addressbook-description>'',
       ''      </D:prop>'',
       ''      <D:status>HTTP/1.1 200 OK</D:status>'',
       ''    </D:propstat>'',
       ''  </D:response>'']\<close>

definition resource_xml :: "string \<Rightarrow> string \<Rightarrow> string \<Rightarrow> string \<Rightarrow> string" where
  \<open>resource_xml url etag tag data =
     xml [[],
       ''  <D:response>'',
       ''    <D:href>'' @ url @ ''</D:href>'',
       ''    <D:propstat>'',
       ''      <D:prop>'',
       ''        <D:getetag>'' @ etag @ ''</D:getetag>'',
       ''        <'' @ tag @ ''>'' @ data @ ''</'' @ tag @ ''>'',
       ''      </D:prop>'',
       ''      <D:status>HTTP/1.1 200 OK</D:status>'',
       ''    </D:propstat>'',
       ''  </D:response>'']\<close>

section \<open>CalDAV\<close>

definition handleCalDAVOptions :: http_response where
  "handleCalDAVOptions = \<lparr>rs_Status = 200, rs_Header = [(''Allow'', ''OPTIONS, GET, PUT, DELETE, PROPFIND, REPORT, MKCALENDAR''),
     (''DAV'', ''1, 2, 3, calendar-access'')], rs_Body = []\<rparr>"

definition handleCalDAVPropfind :: "user \<Rightarrow> handler" where
  "handleCalDAVPropfind u =
     bindS (or_error 500 (ListCalendars (us_ID u))) (\<lambda>calendars.
     retS (xml_response (caldav_head @
       home_xml (''/calendars/'' @ us_Email u @ ''/'') (''/principals/'' @ us_Email u @ ''/'') ''Calendars'' ''C:calendar-home-set'' @
       concat (map (calendar_xml u) calendars) @ LF @ ''</D:multistatus>'')))"

definition handleCalDAVReport :: "http_request \<Rightarrow> user \<Rightarrow> handler" where
  \<open>handleCalDAVReport r u =
     report_resources r (xml [xml_decl, ''<D:multistatus xmlns:D="DAV:" xmlns:C="urn:ietf:params:xml:ns:caldav">'']) ListEvents
       (\<lambda>calendarUID event. resource_xml (''/calendars/'' @ us_Email u @ ''/'' @ calendarUID @ ''/'' @ ce_UID event @ ''.ics'')
          (ce_ETag event) ''C:calendar-data'' (ce_ICalendarData event))\<close>

definition handleCalDAVGet :: "http_request \<Rightarrow> handler" where
  "handleCalDAVGet r = get_resource r ''.ics'' ''text/calendar; charset=utf-8'' GetEvent ce_ETag ce_ICalendarData"

text \<open>An event of a PUT has only its UID and its data; the zero time is year 1.\<close>

definition zero_time :: time where
  "zero_time = - 62135596800 * Second"

definition event_of :: "string \<Rightarrow> string \<Rightarrow> calendar_event" where
  "event_of uid data = \<lparr>ce_ID = 0, ce_CalendarID = 0, ce_UID = uid, ce_ETag = [], ce_ICalendarData = data, ce_Summary = [], ce_Description = [],
     ce_Location = [], ce_StartTime = zero_time, ce_EndTime = zero_time, ce_AllDay = False, ce_Recurrence = []\<rparr>"

definition handleCalDAVPut :: "dav_env \<Rightarrow> http_request \<Rightarrow> handler" where
  "handleCalDAVPut env r =
     put_resource r ''.ics'' isValidICalendar ''Invalid iCalendar data'' GetEvent ce_ETag
       (\<lambda>cal uid data. UpdateEvent (dx_now env) (dx_rand env) cal (event_of uid data))
       (\<lambda>cal uid data. CreateEvent (dx_now env) (dx_rand env) cal (event_of uid data))"

definition handleCalDAVDelete :: "dav_env \<Rightarrow> http_request \<Rightarrow> handler" where
  "handleCalDAVDelete env r = delete_resource r ''.ics'' (DeleteEvent (dx_now env))"

definition handleMkCalendar :: "dav_env \<Rightarrow> http_request \<Rightarrow> user \<Rightarrow> handler" where
  "handleMkCalendar env r u =
     (let parts = path_parts (rq_Path r);
          calName = (if length parts \<ge> 2 then part_from_end 1 parts else ''New Calendar'')
      in bindS (or_error 500 (CreateCalendar (dx_now env) (dx_rand env) (us_ID u) calName [])) (\<lambda>_. retS (plain_status 201)))"

text \<open>The user of the path, looked for behind the first prefix and, when that gives none, behind the second.\<close>

definition path_user :: "string \<Rightarrow> string \<Rightarrow> string \<Rightarrow> string" where
  "path_user p pre1 pre2 = (let a = extractPathUser p pre1 in if a = [] then extractPathUser p pre2 else a)"

definition handleCalDAV :: "dav_env \<Rightarrow> http_request \<Rightarrow> user option \<Rightarrow> handler" where
  "handleCalDAV env r ctxUser =
     (if rq_Method r = ''OPTIONS'' then retS handleCalDAVOptions
      else case ctxUser of
        None \<Rightarrow> failS (http_Error ''Unauthorized'' 401)
      | Some u \<Rightarrow>
          (let pathUser = path_user (rq_Path r) ''/calendars'' ''/caldav''
           in if pathUser \<noteq> [] \<and> pathUser \<noteq> us_Email u then failS (http_Error ''Forbidden'' 403)
              else if rq_Method r = ''PROPFIND'' then handleCalDAVPropfind u
              else if rq_Method r = ''REPORT'' then handleCalDAVReport r u
              else if rq_Method r = ''GET'' then handleCalDAVGet r
              else if rq_Method r = ''PUT'' then handleCalDAVPut env r
              else if rq_Method r = ''DELETE'' then handleCalDAVDelete env r
              else if rq_Method r = ''MKCALENDAR'' then handleMkCalendar env r u
              else failS (http_Error ''Method not allowed'' 405)))"

section \<open>CardDAV\<close>

definition handleCardDAVOptions :: http_response where
  "handleCardDAVOptions = \<lparr>rs_Status = 200, rs_Header = [(''Allow'', ''OPTIONS, GET, PUT, DELETE, PROPFIND, REPORT, MKCOL''),
     (''DAV'', ''1, 2, 3, addressbook'')], rs_Body = []\<rparr>"

definition handleCardDAVPropfind :: "user \<Rightarrow> handler" where
  \<open>handleCardDAVPropfind u =
     bindS (or_error 500 (ListAddressBooks (us_ID u))) (\<lambda>addressBooks.
     retS (xml_response (xml [xml_decl,
         ''<D:multistatus xmlns:D="DAV:" xmlns:A="urn:ietf:params:xml:ns:carddav" xmlns:CS="http://calendarserver.org/ns/">''] @
       home_xml (''/addressbooks/'' @ us_Email u @ ''/'') (''/principals/'' @ us_Email u @ ''/'') ''Address Books'' ''A:addressbook-home-set'' @
       concat (map (book_xml u) addressBooks) @ LF @ ''</D:multistatus>'')))\<close>

definition handleCardDAVReport :: "http_request \<Rightarrow> user \<Rightarrow> handler" where
  \<open>handleCardDAVReport r u =
     report_resources r (xml [xml_decl, ''<D:multistatus xmlns:D="DAV:" xmlns:A="urn:ietf:params:xml:ns:carddav">'']) ListContacts
       (\<lambda>bookUID contact. resource_xml (''/addressbooks/'' @ us_Email u @ ''/'' @ bookUID @ ''/'' @ co_UID contact @ ''.vcf'')
          (co_ETag contact) ''A:address-data'' (co_VCardData contact))\<close>

definition handleCardDAVGet :: "http_request \<Rightarrow> handler" where
  "handleCardDAVGet r = get_resource r ''.vcf'' ''text/vcard; charset=utf-8'' GetContact co_ETag co_VCardData"

definition contact_of :: "string \<Rightarrow> string \<Rightarrow> contact" where
  "contact_of uid data = \<lparr>co_ID = 0, co_AddressBookID = 0, co_UID = uid, co_ETag = [], co_VCardData = data, co_FullName = [], co_GivenName = [],
     co_FamilyName = [], co_Nickname = [], co_Emails = [], co_Phones = [], co_Organization = []\<rparr>"

definition handleCardDAVPut :: "dav_env \<Rightarrow> http_request \<Rightarrow> handler" where
  "handleCardDAVPut env r =
     put_resource r ''.vcf'' isValidVCard ''Invalid vCard data'' GetContact co_ETag
       (\<lambda>book uid data. UpdateContact (dx_now env) (dx_rand env) book (contact_of uid data))
       (\<lambda>book uid data. CreateContact (dx_now env) (dx_rand env) book (contact_of uid data))"

definition handleCardDAVDelete :: "dav_env \<Rightarrow> http_request \<Rightarrow> handler" where
  "handleCardDAVDelete env r = delete_resource r ''.vcf'' (DeleteContact (dx_now env))"

definition handleMkAddressBook :: "dav_env \<Rightarrow> http_request \<Rightarrow> user \<Rightarrow> handler" where
  "handleMkAddressBook env r u =
     (let parts = path_parts (rq_Path r);
          abName = (if length parts \<ge> 2 then part_from_end 1 parts else ''Contacts'')
      in bindS (or_error 500 (CreateAddressBook (dx_now env) (dx_rand env) (us_ID u) abName [])) (\<lambda>_. retS (plain_status 201)))"

definition handleCardDAV :: "dav_env \<Rightarrow> http_request \<Rightarrow> user option \<Rightarrow> handler" where
  "handleCardDAV env r ctxUser =
     (if rq_Method r = ''OPTIONS'' then retS handleCardDAVOptions
      else case ctxUser of
        None \<Rightarrow> failS (http_Error ''Unauthorized'' 401)
      | Some u \<Rightarrow>
          (let pathUser = path_user (rq_Path r) ''/addressbooks'' ''/carddav''
           in if pathUser \<noteq> [] \<and> pathUser \<noteq> us_Email u then failS (http_Error ''Forbidden'' 403)
              else if rq_Method r = ''PROPFIND'' then handleCardDAVPropfind u
              else if rq_Method r = ''REPORT'' then handleCardDAVReport r u
              else if rq_Method r = ''GET'' then handleCardDAVGet r
              else if rq_Method r = ''PUT'' then handleCardDAVPut env r
              else if rq_Method r = ''DELETE'' then handleCardDAVDelete env r
              else if rq_Method r = ''MKCOL'' then handleMkAddressBook env r u
              else failS (http_Error ''Method not allowed'' 405)))"

section \<open>The server\<close>

definition handlePrincipalPropfind :: "user \<Rightarrow> http_response" where
  "handlePrincipalPropfind u = xml_response (principal_xml u)"

definition handlePrincipal :: "http_request \<Rightarrow> user option \<Rightarrow> handler" where
  "handlePrincipal r ctxUser = (case ctxUser of
     None \<Rightarrow> failS (http_Error ''Unauthorized'' 401)
   | Some u \<Rightarrow> if rq_Method r = ''PROPFIND'' then retS (handlePrincipalPropfind u) else failS (http_Error ''Method not allowed'' 405))"

definition wellKnownCalDAV :: "http_request \<Rightarrow> http_response" where
  "wellKnownCalDAV r = http_Redirect (rq_Method r) ''/caldav/'' 301"

definition wellKnownCardDAV :: "http_request \<Rightarrow> http_response" where
  "wellKnownCardDAV r = http_Redirect (rq_Method r) ''/carddav/'' 301"

text \<open>The routes of \<open>Start\<close>. The requests of DAV clients have no query.\<close>

definition dav_patterns :: "string list" where
  "dav_patterns = [''/.well-known/caldav'', ''/.well-known/carddav'', ''/caldav/'', ''/calendars/'', ''/carddav/'', ''/addressbooks/'', ''/principals/'']"

definition serve_mux :: "dav_env \<Rightarrow> http_request \<Rightarrow> user option \<Rightarrow> handler" where
  "serve_mux env r ctxUser = (case mux_route dav_patterns (rq_Path r) of
     NoRoute \<Rightarrow> failS http_NotFound
   | RedirectTo url \<Rightarrow> retS (http_Redirect (rq_Method r) url 301)
   | Route q \<Rightarrow>
       if q = ''/.well-known/caldav'' then retS (wellKnownCalDAV r)
       else if q = ''/.well-known/carddav'' then retS (wellKnownCardDAV r)
       else if q = ''/caldav/'' \<or> q = ''/calendars/'' then handleCalDAV env r ctxUser
       else if q = ''/carddav/'' \<or> q = ''/addressbooks/'' then handleCardDAV env r ctxUser
       else handlePrincipal r ctxUser)"

definition liftD :: "('e, 'a) proc \<Rightarrow> (dav_state, 'e, 'a) sproc" where
  "liftD m y = (case m (dv_world y) of (w, r) \<Rightarrow> (y\<lparr>dv_world := w\<rparr>, r))"

definition unauthorized :: http_response where
  \<open>unauthorized = (http_Error ''Unauthorized'' 401)\<lparr>rs_Header := (''WWW-Authenticate'', ''Basic realm="Mail Server"'') # rs_Header (http_Error ''Unauthorized'' 401)\<rparr>\<close>

definition authMiddleware :: "argon2 \<Rightarrow> (user option \<Rightarrow> handler) \<Rightarrow> http_request \<Rightarrow> handler" where
  "authMiddleware A handle r =
     (if HasPrefix (rq_Path r) ''/.well-known/'' \<or> rq_Method r = ''OPTIONS'' then handle None
      else case rq_BasicAuth r of
        None \<Rightarrow> failS unauthorized
      | Some (username, password) \<Rightarrow>
          bindS (mapErrS (\<lambda>e. unauthorized) (liftD (Authenticate A username password))) (\<lambda>u. handle (Some u)))"

definition serve_dav :: "argon2 \<Rightarrow> dav_env \<Rightarrow> http_request \<Rightarrow> dav_state \<Rightarrow> dav_state \<times> http_response" where
  "serve_dav A env r = respond (authMiddleware A (serve_mux env r) r)"

section \<open>The invariant of the tables\<close>

lemma ok_liftD [dav_intros]: "stepsS keeps_ok (liftD m)"
  by (simp add: stepsS_def liftD_def keeps_ok_def split: prod.split)

lemma ok_lift [dav_intros]:
  "stepsS keeps_ok (guardS b q)" "stepsS keeps_ok n \<Longrightarrow> stepsS keeps_ok (or_error code n)"
  "stepsS keeps_ok n \<Longrightarrow> stepsS keeps_ok (optionally n)"
  unfolding guardS_def or_error_def optionally_def by (intro dav_intros; assumption)+

lemma ok_resources [dav_intros]:
  "(\<And>c e. stepsS keeps_ok (get c e)) \<Longrightarrow> (\<And>c e d. stepsS keeps_ok (upd c e d)) \<Longrightarrow> (\<And>c e d. stepsS keeps_ok (cre c e d)) \<Longrightarrow>
     stepsS keeps_ok (put_resource r suf valid invalid get etag upd cre)"
  "(\<And>c e. stepsS keeps_ok (get c e)) \<Longrightarrow> stepsS keeps_ok (get_resource r suf ctype get etag content)"
  "(\<And>c e. stepsS keeps_ok (del c e)) \<Longrightarrow> stepsS keeps_ok (delete_resource r suf del)"
  "(\<And>c. stepsS keeps_ok (lst c)) \<Longrightarrow> stepsS keeps_ok (report_resources r head lst item)"
  unfolding put_resource_def put_conditional_def put_store_def get_resource_def delete_resource_def report_resources_def Let_def
  by (intro dav_intros option_steps; assumption?)+

lemma route_steps:
  "(\<And>q. stepsS R (f q)) \<Longrightarrow> (\<And>u. stepsS R (g u)) \<Longrightarrow> stepsS R h \<Longrightarrow> stepsS R (case z of Route q \<Rightarrow> f q | RedirectTo u \<Rightarrow> g u | NoRoute \<Rightarrow> h)"
  by (cases z) simp_all

lemma ok_serve_mux: "stepsS keeps_ok (serve_mux env r ctxUser)"
  unfolding serve_mux_def handleCalDAV_def handleCardDAV_def handlePrincipal_def Let_def handleCalDAVPropfind_def handleCalDAVReport_def
    handleCalDAVGet_def handleCalDAVPut_def handleCalDAVDelete_def handleMkCalendar_def handleCardDAVPropfind_def handleCardDAVReport_def
    handleCardDAVGet_def handleCardDAVPut_def handleCardDAVDelete_def handleMkAddressBook_def
  by (intro dav_intros option_steps route_steps)

lemma respond_fst: "fst (respond h y) = fst (h y)"
  by (simp add: respond_def split: prod.split sum.split)

lemma serve_mux_anonymous: "fst (serve_mux env r None y) = y"
  by (simp add: serve_mux_def handleCalDAV_def handleCardDAV_def handlePrincipal_def Let_def retS_def failS_def split: route.split)

lemma serve_mux_foreign:
  assumes "\<not> (if HasPrefix (rq_Path r) ''/caldav/'' \<or> HasPrefix (rq_Path r) ''/calendars/''
     then path_user (rq_Path r) ''/calendars'' ''/caldav'' \<in> {[], us_Email u}
     else path_user (rq_Path r) ''/addressbooks'' ''/carddav'' \<in> {[], us_Email u})"
  shows "fst (serve_mux env r (Some u) y) = y"
proof (cases "mux_route dav_patterns (rq_Path r)")
  case (Route q)
  note pre = mux_route_sound [OF Route]
  show ?thesis
  proof (cases "HasPrefix (rq_Path r) ''/caldav/'' \<or> HasPrefix (rq_Path r) ''/calendars/''")
    case True
    with assms have p: "path_user (rq_Path r) ''/calendars'' ''/caldav'' \<notin> {[], us_Email u}" by simp
    from True pre have "q \<noteq> ''/carddav/''" "q \<noteq> ''/addressbooks/''" by (auto simp: HasPrefix_iff)
    with p Route show ?thesis by (simp add: serve_mux_def handleCalDAV_def handlePrincipal_def Let_def retS_def failS_def)
  next
    case False
    with assms have p: "path_user (rq_Path r) ''/addressbooks'' ''/carddav'' \<notin> {[], us_Email u}" by simp
    from False pre have "q \<noteq> ''/caldav/''" "q \<noteq> ''/calendars/''" by auto
    with p Route show ?thesis by (simp add: serve_mux_def handleCardDAV_def handlePrincipal_def Let_def retS_def failS_def)
  qed
qed (simp_all add: serve_mux_def retS_def failS_def)

text \<open>The rows a client sees, without the accounts and the fault script.\<close>

definition dav_tables :: "dav_state \<Rightarrow> calendar list \<times> calendar_event list \<times> address_book list \<times> contact list" where
  "dav_tables y = (dv_calendars y, dv_events y, dv_books y, dv_contacts y)"


text \<open>C11. Whoever changes a calendar, an event, an address book or a contact over HTTP has given the name and password of an active
  account, and the path names no other user.\<close>

theorem dav_change_needs_login:
  assumes "serve_dav A env r y = (y', q)" "dav_tables y' \<noteq> dav_tables y"
  shows "\<exists>username password w u. rq_BasicAuth r = Some (username, password) \<and>
    Authenticate A username password (dv_world y) = (w, Inr u) \<and>
    (if HasPrefix (rq_Path r) ''/caldav/'' \<or> HasPrefix (rq_Path r) ''/calendars/''
     then path_user (rq_Path r) ''/calendars'' ''/caldav'' \<in> {[], us_Email u}
     else path_user (rq_Path r) ''/addressbooks'' ''/carddav'' \<in> {[], us_Email u})"
proof -
  have fst: "fst (authMiddleware A (serve_mux env r) r y) = y'"
    using assms(1) by (metis fst_conv respond_fst serve_dav_def)
  with assms(2) have "\<not> (HasPrefix (rq_Path r) ''/.well-known/'' \<or> rq_Method r = ''OPTIONS'')"
    by (auto simp: authMiddleware_def serve_mux_anonymous)
  with fst obtain un pw where b: "rq_BasicAuth r = Some (un, pw)"
    and m: "fst (bindS (mapErrS (\<lambda>e. unauthorized) (liftD (Authenticate A un pw))) (\<lambda>u. serve_mux env r (Some u)) y) = y'"
    using assms(2) by (auto simp: authMiddleware_def failS_def split: option.splits)
  obtain w z where au: "Authenticate A un pw (dv_world y) = (w, z)" by force
  with m assms(2) obtain u where z: "z = Inr u" and s: "fst (serve_mux env r (Some u) (y\<lparr>dv_world := w\<rparr>)) = y'"
    by (cases z) (auto simp: bindS_def mapErrS_def orElse_def liftD_def failS_def dav_tables_def)
  have "if HasPrefix (rq_Path r) ''/caldav/'' \<or> HasPrefix (rq_Path r) ''/calendars/''
     then path_user (rq_Path r) ''/calendars'' ''/caldav'' \<in> {[], us_Email u}
     else path_user (rq_Path r) ''/addressbooks'' ''/carddav'' \<in> {[], us_Email u}"
  proof (rule ccontr)
    assume "\<not> ?thesis"
    then have "fst (serve_mux env r (Some u) (y\<lparr>dv_world := w\<rparr>)) = y\<lparr>dv_world := w\<rparr>" by (rule serve_mux_foreign)
    with s assms(2) show False by (auto simp: dav_tables_def)
  qed
  with b au z show ?thesis by blast
qed

section \<open>Conditional requests\<close>

lemma optionally_run:
  "optionally m y = (y', Inr (Some x)) \<longleftrightarrow> m y = (y', Inr x)"
  "optionally m y = (y', Inr None) \<longleftrightarrow> (\<exists>e. m y = (y', Inl e))"
  "optionally m y \<noteq> (y', Inl e')"
  by (auto simp: optionally_def runS)

lemma guardS_run: "guardS b q y = (y', z) \<longleftrightarrow> y' = y \<and> z = (if b then Inr () else Inl q)"
  by (auto simp: guardS_def)

lemma liftR_run: "liftR x y = (y', z) \<longleftrightarrow> y' = y \<and> z = x"
  by (auto simp: liftR_def)

lemma put_store_Inr:
  fixes etag :: "'a \<Rightarrow> string"
  shows "put_store code get etag write y = (y', Inr q) \<longleftrightarrow> (\<exists>y1 v. write y = (y1, Inr ()) \<and> optionally get y1 = (y', (Inr v :: (http_response, 'a option) result)) \<and>
     q = put_response code etag v)"
  unfolding put_store_def bindS_Inr or_error_def mapErrS_Inr retS_iff by auto

lemma put_conditional_new: "get y = (y1, Inl e) \<Longrightarrow> put_conditional r get etag upd cre y = put_store 201 get etag cre y1"
  by (simp add: put_conditional_def optionally_def bindS_def orElse_def guardS_def retS_def)

lemma put_conditional_old:
  "get y = (y1, Inr x) \<Longrightarrow> put_conditional r get etag upd cre y =
     (if rq_IfMatch r \<notin> {[], etag x, ''*''} then (y1, Inl (http_Error ''Precondition failed'' 412))
      else if rq_IfNoneMatch r = ''*'' then (y1, Inl (http_Error ''Resource already exists'' 412))
      else put_store 204 get etag upd y1)"
  by (simp add: put_conditional_def optionally_def bindS_def orElse_def guardS_def retS_def failS_def)

lemma put_resource_run:
  assumes "put_resource r suf valid invalid get etag upd cre y = (y', z)"
    and "c = part_from_end 2 (path_parts (rq_Path r))" "u = TrimSuffix (part_from_end 1 (path_parts (rq_Path r))) suf"
  obtains (early) q where "y' = y" "z = Inl q" "rs_Status q = 400"
  | (checked) d where "safeReadBody r maxRequestBodySize = Inr d" "length (path_parts (rq_Path r)) \<ge> 3"
      "put_conditional r (get c u) etag (upd c u d) (cre c u d) y = (y', z)"
proof -
  have e: "rs_Status (http_Error m 400) = 400" for m by (simp add: http_Error_def)
  have "(\<exists>q. y' = y \<and> z = Inl q \<and> rs_Status q = 400) \<or>
    (\<exists>d. safeReadBody r maxRequestBodySize = Inr d \<and> length (path_parts (rq_Path r)) \<ge> 3 \<and>
      put_conditional r (get c u) etag (upd c u d) (cre c u d) y = (y', z))"
    using assms(1) unfolding put_resource_def Let_def assms(2,3) [symmetric]
    by (cases "safeReadBody r maxRequestBodySize"; cases "validatePath (rq_Path r)")
      (simp_all add: bindS_def mapErrS_def orElse_def liftR_def guardS_def retS_def failS_def split: if_splits, (blast intro: e)+)
  then show ?thesis using early checked by blast
qed

text \<open>What the handlers of PUT and GET rely on: the backend's reads give what is stored, its writes store the data, and creating never
  replaces.\<close>

locale dav_resources =
  fixes get :: "string \<Rightarrow> string \<Rightarrow> (dav_state, string, 'a) sproc"
    and upd :: "string \<Rightarrow> string \<Rightarrow> string \<Rightarrow> (dav_state, string, unit) sproc"
    and cre :: "string \<Rightarrow> string \<Rightarrow> string \<Rightarrow> (dav_state, string, unit) sproc"
    and stored :: "dav_state \<Rightarrow> string \<Rightarrow> string \<Rightarrow> 'a option"
    and content :: "'a \<Rightarrow> string"
  assumes get_keeps: "stored (fst (get c u y)) c u = stored y c u"
    and get_sound: "get c u y = (y', Inr x) \<Longrightarrow> stored y c u = Some x"
    and get_ok: "w_faults (dv_world y) = [] \<Longrightarrow> stored y c u = Some x \<Longrightarrow> get c u y = (y, Inr x)"
    and get_quiet: "w_faults (dv_world y) = [] \<Longrightarrow> fst (get c u y) = y"
    and cre_keeps: "stored y c u = Some x \<Longrightarrow> stored (fst (cre c u d y)) c u = Some x"
    and cre_stores: "w_faults (dv_world y) = [] \<Longrightarrow> cre c u d y = (y', Inr ()) \<Longrightarrow>
      w_faults (dv_world y') = [] \<and> (\<exists>x. stored y' c u = Some x \<and> content x = d)"
    and upd_stores: "w_faults (dv_world y) = [] \<Longrightarrow> upd c u d y = (y', Inr ()) \<Longrightarrow>
      w_faults (dv_world y') = [] \<and> (\<exists>x. stored y' c u = Some x \<and> content x = d)"
begin

lemma store_keeps: "stored (fst (put_store code (get c u) etag write y)) c u = stored (fst (write y)) c u"
  using get_keeps [of c u] by (auto simp: put_store_def bindS_def or_error_def mapErrS_def orElse_def failS_def optionally_def retS_def
      split: prod.split sum.split) (metis fst_conv)+

text \<open>A PUT replaces a resource only when its conditions hold of the stored version, even when statements fail.\<close>

lemma no_lost_update:
  assumes put: "put_resource r suf valid invalid get etag upd cre y = (y', z)"
    and p: "c = part_from_end 2 (path_parts (rq_Path r))" "u = TrimSuffix (part_from_end 1 (path_parts (rq_Path r))) suf"
    and st: "stored y c u = Some x" "stored y' c u \<noteq> Some x"
  shows "rq_IfMatch r \<in> {[], etag x, ''*''} \<and> rq_IfNoneMatch r \<noteq> ''*''"
  using put p
proof (cases rule: put_resource_run)
  case (checked d)
  obtain y1 v where g: "get c u y = (y1, v)" by force
  with get_keeps [of c u y] st have s1: "stored y1 c u = Some x" by simp
  show ?thesis
  proof (cases v)
    case (Inl e)
    with g checked(3) put_conditional_new have "put_store 201 (get c u) etag (cre c u d) y1 = (y', z)" by metis
    with store_keeps [of 201 c u etag "cre c u d" y1] cre_keeps [OF s1] st show ?thesis by simp
  next
    case (Inr x')
    with get_sound [of c u y y1 x'] g st have [simp]: "x' = x" by simp
    show ?thesis using checked(3) s1 st(2) unfolding put_conditional_old [of "get c u", OF g [unfolded Inr]] by (auto split: if_splits)
  qed
qed (use st in auto)

text \<open>What a PUT has stored, a GET of the same path gives back, with the ETag the PUT announced.\<close>

lemma store_then_get:
  assumes "put_store code (get c u) etag write y = (y', Inr q)" "w_faults (dv_world y) = []"
    "\<And>y1. write y = (y1, Inr ()) \<Longrightarrow> w_faults (dv_world y1) = [] \<and> (\<exists>x. stored y1 c u = Some x \<and> content x = d)"
  shows "\<exists>x. get c u y' = (y', Inr x) \<and> content x = d \<and> rs_Header q = [(''ETag'', etag x)]"
proof -
  from assms(1) obtain y1 v where w: "write y = (y1, Inr ())" and o: "optionally (get c u) y1 = (y', (Inr v :: (http_response, 'a option) result))"
    and q: "q = put_response code etag v"
    unfolding put_store_Inr by blast
  from assms(3) [OF w] obtain x where "w_faults (dv_world y1) = []" "stored y1 c u = Some x" "content x = d" by blast
  moreover from this have "get c u y1 = (y1, Inr x)" by (intro get_ok)
  moreover from this have "y' = y1" "rs_Header q = [(''ETag'', etag x)]"
    using o q by (auto simp: put_response_def bindS_def optionally_def orElse_def retS_def)
  ultimately show ?thesis by auto
qed

lemma put_then_get:
  assumes put: "put_resource r suf valid invalid get etag upd cre y = (y', Inr q)"
    and nf: "w_faults (dv_world y) = []" and same: "rq_Path r' = rq_Path r"
  shows "\<exists>d x. safeReadBody r maxRequestBodySize = Inr d \<and> content x = d \<and> rs_Header q = [(''ETag'', etag x)] \<and>
    get_resource r' suf ctype get etag content y' =
      (y', Inr \<lparr>rs_Status = 200, rs_Header = [(''Content-Type'', ctype), (''ETag'', etag x)], rs_Body = d\<rparr>)"
  using put refl refl
proof (cases rule: put_resource_run)
  case (checked d)
  define c u where cu: "c = part_from_end 2 (path_parts (rq_Path r))" "u = TrimSuffix (part_from_end 1 (path_parts (rq_Path r))) suf"
  obtain v where g: "get c u y = (y, v)" using get_quiet [OF nf] by (metis prod.collapse)
  have "\<exists>x. get c u y' = (y', Inr x) \<and> content x = d \<and> rs_Header q = [(''ETag'', etag x)]"
  proof (cases v)
    case (Inl e)
    with g checked(3) put_conditional_new have "put_store 201 (get c u) etag (cre c u d) y = (y', Inr q)" unfolding cu by metis
    from store_then_get [OF this nf cre_stores [OF nf]] show ?thesis .
  next
    case (Inr x')
    with checked(3) have "put_store 204 (get c u) etag (upd c u d) y = (y', Inr q)"
      unfolding cu [symmetric] put_conditional_old [of "get c u", OF g [unfolded Inr]] by (simp split: if_splits)
    from store_then_get [OF this nf upd_stores [OF nf]] show ?thesis .
  qed
  then obtain x where x: "get c u y' = (y', Inr x)" "content x = d" "rs_Header q = [(''ETag'', etag x)]" by blast
  have "get_resource r' suf ctype get etag content y' =
      (y', Inr \<lparr>rs_Status = 200, rs_Header = [(''Content-Type'', ctype), (''ETag'', etag x)], rs_Body = d\<rparr>)"
    using x(1,2) checked(2) unfolding get_resource_def Let_def same cu [symmetric]
    by (simp add: bindS_def guardS_def or_error_def mapErrS_def orElse_def retS_def)
  with x checked(1) show ?thesis by blast
qed auto

end

subsection \<open>The two backends keep the contract\<close>

definition stored_event :: "dav_state \<Rightarrow> string \<Rightarrow> string \<Rightarrow> calendar_event option" where
  "stored_event y c u = find (\<lambda>e. in_calendar c y e \<and> ce_UID e = u) (dv_events y)"

definition stored_contact :: "dav_state \<Rightarrow> string \<Rightarrow> string \<Rightarrow> contact option" where
  "stored_contact y c u = find (\<lambda>x. in_book c y x \<and> co_UID x = u) (dv_contacts y)"

lemma find_filter: "filter P xs \<noteq> [] \<Longrightarrow> \<exists>x. find P xs = Some x \<and> P x"
  by (induction xs) auto

lemma find_none: "\<forall>x\<in>set xs. \<not> P x \<Longrightarrow> find P (xs @ ys) = find P ys"
  by (induction xs) auto

lemma find_map_same: "(\<And>x. P (g x) = P x) \<Longrightarrow> find P (map g xs) = map_option g (find P xs)"
  by (induction xs) auto

lemma in_collection_simps [simp]:
  "in_calendar c (y\<lparr>dv_world := w\<rparr>) = in_calendar c y" "in_book c (y\<lparr>dv_world := w\<rparr>) = in_book c y"
  "in_calendar c (y\<lparr>dv_event_seq := i\<rparr>) = in_calendar c y" "in_book c (y\<lparr>dv_contact_seq := i\<rparr>) = in_book c y"
  "in_calendar c (y\<lparr>dv_events := es\<rparr>) = in_calendar c y" "in_book c (y\<lparr>dv_contacts := cs\<rparr>) = in_book c y"
  by (simp_all add: in_calendar_def in_book_def fun_eq_iff)

lemma stored_simps [simp]:
  "stored_event (y\<lparr>dv_world := w\<rparr>) = stored_event y" "stored_contact (y\<lparr>dv_world := w\<rparr>) = stored_contact y"
  by (simp_all add: stored_event_def stored_contact_def fun_eq_iff)

lemma stored_touched:
  "dv_calendars y' = map g (dv_calendars y) \<Longrightarrow> dv_events y' = dv_events y \<Longrightarrow> (\<And>x. ca_UID (g x) = ca_UID x \<and> ca_ID (g x) = ca_ID x) \<Longrightarrow>
     stored_event y' = stored_event y"
  "dv_books y' = map h (dv_books y) \<Longrightarrow> dv_contacts y' = dv_contacts y \<Longrightarrow> (\<And>x. ab_UID (h x) = ab_UID x \<and> ab_ID (h x) = ab_ID x) \<Longrightarrow>
     stored_contact y' = stored_contact y"
  by (simp_all add: stored_event_def stored_contact_def in_calendar_def in_book_def fun_eq_iff find_map_same option.case_eq_if option.map_sel)

lemma touched_stored: "stored_event (fst (touch_calendar now P y)) = stored_event y"
proof (cases "Mail_World.next_fault (dv_world y)")
  case (Pair w f)
  then show ?thesis
    by (cases f) (simp_all add: touch_calendar_def bindS_def execD_def update_calendars_def retS_def
        stored_touched(1) [where g = "\<lambda>c. if P c then c\<lparr>ca_CTag := generateCTag now\<rparr> else c"])
qed

lemma touched_book_stored: "stored_contact (fst (touch_book now P y)) = stored_contact y"
proof (cases "Mail_World.next_fault (dv_world y)")
  case (Pair w f)
  then show ?thesis
    by (cases f) (simp_all add: touch_book_def bindS_def execD_def update_books_def retS_def
        stored_touched(2) [where h = "\<lambda>c. if P c then c\<lparr>ab_CTag := generateCTag now\<rparr> else c"])
qed

lemma touched_quiet:
  "w_faults (dv_world y) = [] \<Longrightarrow> w_faults (dv_world (fst (touch_calendar now P y))) = []"
  "w_faults (dv_world y) = [] \<Longrightarrow> w_faults (dv_world (fst (touch_book now Q y))) = []"
  by (simp_all add: touch_calendar_def touch_book_def bindS_def execD_ok update_calendars_def update_books_def retS_def)

lemma GetEvent_run: "GetEvent c u y = (case Mail_World.next_fault (dv_world y) of
    (w, Some e) \<Rightarrow> (y\<lparr>dv_world := w\<rparr>, Inl e)
  | (w, None) \<Rightarrow> (y\<lparr>dv_world := w\<rparr>, case stored_event y c u of None \<Rightarrow> Inl (''event not found: '' @ u) | Some x \<Rightarrow> Inr x))"
  by (simp add: GetEvent_def bindS_def queryD_def stored_event_def failS_def retS_def split: prod.split option.split)

lemma GetContact_run: "GetContact c u y = (case Mail_World.next_fault (dv_world y) of
    (w, Some e) \<Rightarrow> (y\<lparr>dv_world := w\<rparr>, Inl e)
  | (w, None) \<Rightarrow> (y\<lparr>dv_world := w\<rparr>, case stored_contact y c u of None \<Rightarrow> Inl (''contact not found: '' @ u) | Some x \<Rightarrow> Inr x))"
  by (simp add: GetContact_def bindS_def queryD_def stored_contact_def failS_def retS_def split: prod.split option.split)

lemma insert_keeps_stored:
  "insert_event i e y = Inr (y', ()) \<Longrightarrow> stored_event y c u = Some x \<Longrightarrow> stored_event y' c u = Some x"
  "insert_contact i e' y = Inr (y', ()) \<Longrightarrow> stored_contact y c u = Some x' \<Longrightarrow> stored_contact y' c u = Some x'"
  by (auto simp: insert_event_def insert_contact_def Let_def stored_event_def stored_contact_def find_append split: if_splits)

lemma insert_keeps_world:
  "insert_event i e (y\<lparr>dv_world := w\<rparr>) = Inr (y', ()) \<Longrightarrow> stored_event y c u = Some x \<Longrightarrow> stored_event y' c u = Some x"
  "insert_contact i e' (y\<lparr>dv_world := w\<rparr>) = Inr (y', ()) \<Longrightarrow> stored_contact y c u = Some x' \<Longrightarrow> stored_contact y' c u = Some x'"
  by (erule insert_keeps_stored, simp)+

lemma insert_stores:
  "insert_event (ca_ID k) e y = Inr (y', ()) \<Longrightarrow> find (\<lambda>c. ca_UID c = c0) (dv_calendars y) = Some k \<Longrightarrow>
     stored_event y' c0 (ce_UID e) = Some (e\<lparr>ce_ID := dv_event_seq y + 1, ce_CalendarID := ca_ID k\<rparr>) \<and> dv_world y' = dv_world y"
  "insert_contact (ab_ID b) e' y = Inr (y', ()) \<Longrightarrow> find (\<lambda>c. ab_UID c = c0) (dv_books y) = Some b \<Longrightarrow>
     stored_contact y' c0 (co_UID e') = Some (e'\<lparr>co_ID := dv_contact_seq y + 1, co_AddressBookID := ab_ID b\<rparr>) \<and> dv_world y' = dv_world y"
  by (auto simp: insert_event_def insert_contact_def Let_def stored_event_def stored_contact_def find_none in_calendar_def in_book_def
      list_ex_iff split: if_splits)

lemma update_stores:
  "update_events (\<lambda>y e. ce_UID e = u \<and> in_calendar c y e) f y = Inr (y', n) \<Longrightarrow> n \<noteq> 0 \<Longrightarrow>
     (\<And>e. ce_UID (f e) = ce_UID e \<and> ce_CalendarID (f e) = ce_CalendarID e) \<Longrightarrow> \<exists>e. stored_event y' c u = Some (f e) \<and> dv_world y' = dv_world y"
  "update_contacts (\<lambda>y e. co_UID e = u \<and> in_book c y e) g y = Inr (y', n) \<Longrightarrow> n \<noteq> 0 \<Longrightarrow>
     (\<And>e. co_UID (g e) = co_UID e \<and> co_AddressBookID (g e) = co_AddressBookID e) \<Longrightarrow> \<exists>e. stored_contact y' c u = Some (g e) \<and> dv_world y' = dv_world y"
proof -
  assume u: "update_events (\<lambda>y e. ce_UID e = u \<and> in_calendar c y e) f y = Inr (y', n)" "n \<noteq> 0"
    and f: "\<And>e. ce_UID (f e) = ce_UID e \<and> ce_CalendarID (f e) = ce_CalendarID e"
  let ?P = "\<lambda>e. ce_UID e = u \<and> in_calendar c y e"
  let ?h = "\<lambda>e. if ?P e then f e else e"
  have P: "?P (?h e) = ?P e" for e using f by (simp add: in_calendar_def split: option.split)
  from u have y': "y' = y\<lparr>dv_events := map ?h (dv_events y)\<rparr>" and "filter ?P (dv_events y) \<noteq> []" by (auto simp: update_events_def)
  then obtain e where "find ?P (dv_events y) = Some e" and "?P e" using find_filter [of ?P] by blast
  then have "stored_event y' c u = Some (f e)"
    using find_map_same [of ?P ?h "dv_events y", OF P] by (simp add: y' stored_event_def conj_commute)
  with y' show "\<exists>e. stored_event y' c u = Some (f e) \<and> dv_world y' = dv_world y" by auto
next
  assume u: "update_contacts (\<lambda>y e. co_UID e = u \<and> in_book c y e) g y = Inr (y', n)" "n \<noteq> 0"
    and f: "\<And>e. co_UID (g e) = co_UID e \<and> co_AddressBookID (g e) = co_AddressBookID e"
  let ?P = "\<lambda>e. co_UID e = u \<and> in_book c y e"
  let ?h = "\<lambda>e. if ?P e then g e else e"
  have P: "?P (?h e) = ?P e" for e using f by (simp add: in_book_def split: option.split)
  from u have y': "y' = y\<lparr>dv_contacts := map ?h (dv_contacts y)\<rparr>" and "filter ?P (dv_contacts y) \<noteq> []" by (auto simp: update_contacts_def)
  then obtain e where "find ?P (dv_contacts y) = Some e" and "?P e" using find_filter [of ?P] by blast
  then have "stored_contact y' c u = Some (g e)"
    using find_map_same [of ?P ?h "dv_contacts y", OF P] by (simp add: y' stored_contact_def conj_commute)
  with y' show "\<exists>e. stored_contact y' c u = Some (g e) \<and> dv_world y' = dv_world y" by auto
qed

lemma touched_run:
  "touch_calendar now P y = (y1, z) \<Longrightarrow> stored_event y1 = stored_event y \<and> (w_faults (dv_world y) = [] \<longrightarrow> w_faults (dv_world y1) = [])"
  "touch_book now Q y = (y2, z) \<Longrightarrow> stored_contact y2 = stored_contact y \<and> (w_faults (dv_world y) = [] \<longrightarrow> w_faults (dv_world y2) = [])"
  by (metis touched_stored touched_quiet(1) fst_conv) (metis touched_book_stored touched_quiet(2) fst_conv)

lemma create_keeps:
  "stored_event y c u = Some x \<Longrightarrow> stored_event (fst (CreateEvent now rnd c0 e y)) c u = Some x"
  "stored_contact y c u = Some x' \<Longrightarrow> stored_contact (fst (CreateContact now rnd c0 e' y)) c u = Some x'"
  by (auto simp: CreateEvent_def CreateContact_def bindS_def mapErrS_def orElse_def queryD_def execD_def liftR_def failS_def
      split: prod.split sum.split option.split dest!: touched_run intro: insert_keeps_world)

lemma execD_Inr: "w_faults (dv_world y) = [] \<Longrightarrow> execD f y = (y', Inr x) \<longleftrightarrow> f y = Inr (y', x)"
  by (auto simp: execD_ok split: sum.splits)

lemma create_stores:
  "CreateEvent now rnd c e y = (y', Inr ()) \<Longrightarrow> w_faults (dv_world y) = [] \<Longrightarrow>
     w_faults (dv_world y') = [] \<and> (\<exists>x. stored_event y' c (ce_UID e) = Some x \<and> ce_ICalendarData x = ce_ICalendarData e)"
  "CreateContact now rnd c e' y = (y', Inr ()) \<Longrightarrow> w_faults (dv_world y) = [] \<Longrightarrow>
     w_faults (dv_world y') = [] \<and> (\<exists>x. stored_contact y' c (co_UID e') = Some x \<and> co_VCardData x = co_VCardData e')"
  by (auto simp: CreateEvent_def CreateContact_def runS queryD_ok execD_Inr liftR_run
      split: option.splits dest!: touched_run insert_stores)

lemma update_stores_data:
  "UpdateEvent now rnd c e y = (y', Inr ()) \<Longrightarrow> w_faults (dv_world y) = [] \<Longrightarrow>
     w_faults (dv_world y') = [] \<and> (\<exists>x. stored_event y' c (ce_UID e) = Some x \<and> ce_ICalendarData x = ce_ICalendarData e)"
  "UpdateContact now rnd c e' y = (y', Inr ()) \<Longrightarrow> w_faults (dv_world y) = [] \<Longrightarrow>
     w_faults (dv_world y') = [] \<and> (\<exists>x. stored_contact y' c (co_UID e') = Some x \<and> co_VCardData x = co_VCardData e')"
  by (auto simp: UpdateEvent_def UpdateContact_def runS execD_Inr liftR_run
      split: if_splits dest!: touched_run update_stores)

interpretation events: dav_resources GetEvent "\<lambda>c u d. UpdateEvent now rnd c (event_of u d)" "\<lambda>c u d. CreateEvent now rnd c (event_of u d)"
  stored_event ce_ICalendarData for now rnd
proof unfold_locales
  fix c u d y y' x
  show "stored_event (fst (GetEvent c u y)) c u = stored_event y c u" by (simp add: GetEvent_run split: prod.split option.split)
  show "GetEvent c u y = (y', Inr x) \<Longrightarrow> stored_event y c u = Some x" by (auto simp: GetEvent_run split: prod.splits option.splits)
  show "w_faults (dv_world y) = [] \<Longrightarrow> stored_event y c u = Some x \<Longrightarrow> GetEvent c u y = (y, Inr x)" by (simp add: GetEvent_run next_fault_ok)
  show "w_faults (dv_world y) = [] \<Longrightarrow> fst (GetEvent c u y) = y" by (simp add: GetEvent_run next_fault_ok)
qed (use create_keeps(1) create_stores(1) [of now rnd _ "event_of _ _"] update_stores_data(1) [of now rnd _ "event_of _ _"] in \<open>force simp: event_of_def\<close>)+

interpretation contacts: dav_resources GetContact "\<lambda>c u d. UpdateContact now rnd c (contact_of u d)" "\<lambda>c u d. CreateContact now rnd c (contact_of u d)"
  stored_contact co_VCardData for now rnd
proof unfold_locales
  fix c u d y y' x
  show "stored_contact (fst (GetContact c u y)) c u = stored_contact y c u" by (simp add: GetContact_run split: prod.split option.split)
  show "GetContact c u y = (y', Inr x) \<Longrightarrow> stored_contact y c u = Some x" by (auto simp: GetContact_run split: prod.splits option.splits)
  show "w_faults (dv_world y) = [] \<Longrightarrow> stored_contact y c u = Some x \<Longrightarrow> GetContact c u y = (y, Inr x)" by (simp add: GetContact_run next_fault_ok)
  show "w_faults (dv_world y) = [] \<Longrightarrow> fst (GetContact c u y) = y" by (simp add: GetContact_run next_fault_ok)
qed (use create_keeps(2) create_stores(2) [of now rnd _ "contact_of _ _"] update_stores_data(2) [of now rnd _ "contact_of _ _"] in \<open>force simp: contact_of_def\<close>)+

section \<open>What clients get\<close>


lemma put_contact_no_lost_update:
  assumes "handleCardDAVPut env r y = (y', z)"
    and "c = part_from_end 2 (path_parts (rq_Path r))" "u = TrimSuffix (part_from_end 1 (path_parts (rq_Path r))) ''.vcf''"
    and "stored_contact y c u = Some x" "stored_contact y' c u \<noteq> Some x"
  shows "rq_IfMatch r \<in> {[], co_ETag x, ''*''} \<and> rq_IfNoneMatch r \<noteq> ''*''"
  using contacts.no_lost_update [OF assms(1) [unfolded handleCardDAVPut_def] assms(2-5)] .

text \<open>C13. What a PUT has stored, a GET of the same path gives back byte for byte, with the ETag that the PUT announced; for calendars and for
  address books.\<close>

theorem put_get_roundtrip:
  assumes "w_faults (dv_world y) = []" "rq_Path r' = rq_Path r"
  shows "(handleCalDAVPut env r y = (y', Inr q) \<longrightarrow> (\<exists>d etag. safeReadBody r maxRequestBodySize = Inr d \<and> rs_Header q = [(''ETag'', etag)] \<and>
      handleCalDAVGet r' y' = (y', Inr \<lparr>rs_Status = 200,
        rs_Header = [(''Content-Type'', ''text/calendar; charset=utf-8''), (''ETag'', etag)], rs_Body = d\<rparr>))) \<and>
    (handleCardDAVPut env r y = (y', Inr q) \<longrightarrow> (\<exists>d etag. safeReadBody r maxRequestBodySize = Inr d \<and> rs_Header q = [(''ETag'', etag)] \<and>
      handleCardDAVGet r' y' = (y', Inr \<lparr>rs_Status = 200,
        rs_Header = [(''Content-Type'', ''text/vcard; charset=utf-8''), (''ETag'', etag)], rs_Body = d\<rparr>)))"
  unfolding handleCalDAVPut_def handleCalDAVGet_def handleCardDAVPut_def handleCardDAVGet_def
  by (intro conjI impI; drule events.put_then_get [OF _ assms] contacts.put_then_get [OF _ assms]; elim exE conjE; intro exI conjI; assumption)

lemma path_parts_resource:
  assumes "CHR ''/'' \<notin> set a" "CHR ''/'' \<notin> set b" "CHR ''/'' \<notin> set c" "CHR ''/'' \<notin> set d" "a \<noteq> []" "d \<noteq> []"
  shows "path_parts (CHR ''/'' # a @ CHR ''/'' # b @ CHR ''/'' # c @ CHR ''/'' # d) = [a, b, c, d]"
proof -
  have "dropWhile (\<lambda>x. x = CHR ''/'') (a @ t) = a @ t" for t using assms(1,5) by (cases a) auto
  moreover have "dropWhile (\<lambda>x. x = CHR ''/'') (rev d @ t) = rev d @ t" for t using assms(4,6) by (cases d rule: rev_cases) auto
  ultimately have "trim_slashes (CHR ''/'' # a @ CHR ''/'' # b @ CHR ''/'' # c @ CHR ''/'' # d) = a @ CHR ''/'' # b @ CHR ''/'' # c @ CHR ''/'' # d"
    by (simp add: trim_slashes_def)
  then show ?thesis using assms by (simp add: path_parts_def Split_append_sep Split_single)
qed

lemma TrimSuffix_append: "TrimSuffix (s @ p) p = s"
  by (simp add: TrimSuffix_def HasSuffix_def)

text \<open>A logged-in user gets the events of every calendar whose identifier it names below its own address: the owner of the calendar is
  never compared with the user.\<close>

theorem get_ignores_owner:
  assumes "w_faults (dv_world y) = []" "stored_event y c e = Some x"
    and "us_Email u \<noteq> []" "CHR ''/'' \<notin> set (us_Email u)" "CHR ''/'' \<notin> set c" "CHR ''/'' \<notin> set e"
    and "rq_Method r = ''GET''" "rq_Path r = ''/calendars/'' @ us_Email u @ ''/'' @ c @ ''/'' @ e @ ''.ics''"
  shows "handleCalDAV env r (Some u) y = (y, Inr \<lparr>rs_Status = 200,
    rs_Header = [(''Content-Type'', ''text/calendar; charset=utf-8''), (''ETag'', ce_ETag x)], rs_Body = ce_ICalendarData x\<rparr>)"
proof -
  have parts: "path_parts (rq_Path r) = [''calendars'', us_Email u, c, e @ ''.ics'']"
    using path_parts_resource [of "''calendars''" "us_Email u" c "e @ ''.ics''"] assms(3-6,8) by simp
  have "extractPathUser (rq_Path r) ''/calendars'' = us_Email u"
    using SplitN2_append [OF assms(4), of "c @ ''/'' @ e @ ''.ics''"] by (simp add: extractPathUser_def TrimPrefix_def assms(8))
  moreover have "GetEvent c e y = (y, Inr x)" using assms(1,2) by (rule events.get_ok)
  ultimately show ?thesis
    using assms(3,7) TrimSuffix_append [of e "''.ics''"]
    by (simp add: handleCalDAV_def path_user_def Let_def handleCalDAVGet_def get_resource_def parts part_from_end_def bindS_def guardS_def
        retS_def or_error_def mapErrS_def orElse_def)
qed

text \<open>Discovery leads nowhere: the well-known address redirects to \<open>/caldav/\<close>, and there every request of every user is refused, because
  the first part of the path is taken for the name of a user.\<close>

theorem caldav_alias_forbidden:
  assumes "HasPrefix (rq_Path r) ''/caldav/''" "rq_Method r \<noteq> ''OPTIONS''" "us_Email u \<noteq> ''caldav''"
  shows "handleCalDAV env r (Some u) y = (y, Inl (http_Error ''Forbidden'' 403)) \<and>
    (''Location'', ''/caldav/'') \<in> set (rs_Header (wellKnownCalDAV r'))"
proof -
  from assms(1) obtain t where p: "rq_Path r = ''/caldav/'' @ t" by (auto simp: HasPrefix_iff)
  have "extractPathUser (rq_Path r) ''/calendars'' = ''caldav''"
    using SplitN2_append [of "CHR ''/''" "''caldav''" t] by (simp add: extractPathUser_def TrimPrefix_def p)
  with assms(2,3) show ?thesis
    by (simp add: handleCalDAV_def path_user_def Let_def failS_def wellKnownCalDAV_def http_Redirect_def)
qed

section \<open>Witnesses\<close>

text \<open>A calendar of user 2 with one event, and the user 1 with the password \<open>secret12\<close>.\<close>

definition ann_1 :: user where
  "ann_1 = \<lparr>us_ID = 1, us_DomainID = 1, us_Username = ''ann'', us_Domain = ''x.org'', us_Email = ''ann@x.org'', us_DisplayName = [],
     us_QuotaBytes = 0, us_UsedBytes = 0, us_IsActive = True\<rparr>"

definition event_1 :: calendar_event where
  "event_1 = (event_of ''e1'' ''old'')\<lparr>ce_ID := 1, ce_CalendarID := 1, ce_ETag := ''t1''\<rparr>"

definition cal_1 :: dav_state where
  "cal_1 = \<lparr>dv_world = wworld,
     dv_calendars = [\<lparr>ca_ID = 1, ca_UserID = 2, ca_UID = ''c1'', ca_Name = ''Private'', ca_Description = [], ca_Color = [], ca_Timezone = [],
       ca_CTag = [], ca_IsDefault = False\<rparr>],
     dv_events = [event_1], dv_books = [], dv_contacts = [],
     dv_calendar_seq = 1, dv_event_seq = 1, dv_book_seq = 0, dv_contact_seq = 0\<rparr>"

definition env_1 :: dav_env where
  "env_1 = \<lparr>dx_now = 7, dx_rand = Inr ''k''\<rparr>"

definition req_1 :: "string \<Rightarrow> string \<Rightarrow> http_request" where
  "req_1 m p = \<lparr>rq_Method = m, rq_Path = p, rq_BasicAuth = Some (''ann@x.org'', ''secret12''), rq_ContentLength = 0,
     rq_Body = (''BEGIN:VCALENDAR END:VCALENDAR'', None), rq_IfMatch = ''t1'', rq_IfNoneMatch = []\<rparr>"

lemma cal_1_quiet: "w_faults (dv_world cal_1) = []"
  by (simp add: cal_1_def wworld_def)

lemma cal_1_stored: "stored_event cal_1 ''c1'' ''e1'' = Some event_1"
  by (simp add: stored_event_def in_calendar_def cal_1_def event_1_def event_of_def)


lemma ann_login: "Authenticate wargon ''ann@x.org'' ''secret12'' wworld = (wworld, Inr (scan_user (w_users wworld ! 0, hd (w_domains wworld))))"
proof -
  have p: "parseEmail ''ann@x.org'' = Some (''ann'', ''x.org'')" by code_simp
  show ?thesis
    using lookup_ok [OF wworld_ok wworld_users(6,1)] verify_hash [OF wargon_ok whash_eq] wworld_users wemails(3)
    by (simp add: Authenticate_def runE Validate_eqs p)
qed

definition mk_1 :: http_request where
  "mk_1 = req_1 ''MKCALENDAR'' ''/calendars/ann@x.org/work''"

lemma mk_1_done: "length (dv_calendars (fst (serve_dav wargon env_1 mk_1 cal_1))) = 2"
proof -
  have p: "rq_Path mk_1 = ''/calendars/ann@x.org/work''" "rq_Method mk_1 = ''MKCALENDAR''" "rq_BasicAuth mk_1 = Some (''ann@x.org'', ''secret12'')"
    by (simp_all add: mk_1_def req_1_def)
  have c: "mux_route dav_patterns ''/calendars/ann@x.org/work'' = Route ''/calendars/''"
    "path_user ''/calendars/ann@x.org/work'' ''/calendars'' ''/caldav'' = ''ann@x.org''" by code_simp+
  have k: "hex_encode ''k'' = ''6b''" by code_simp
  have "us_Email (scan_user (w_users wworld ! 0, hd (w_domains wworld))) = ''ann@x.org''" "us_ID (scan_user (w_users wworld ! 0, hd (w_domains wworld))) = 1"
    by (simp_all add: scan_user_def wworld_def)
  moreover have w: "dv_world cal_1 = wworld" "cal_1\<lparr>dv_world := wworld\<rparr> = cal_1" by (simp_all add: cal_1_def)
  have m: "fst (bindS (mapErrS h n) (\<lambda>_. retS q) y) = fst (n y)" for n :: "(dav_state, string, calendar) sproc" and h and q y
    by (simp add: bindS_def mapErrS_def orElse_def failS_def retS_def split: prod.split sum.split)
  moreover have "length (dv_calendars (fst (CreateCalendar 7 (Inr ''k'') 1 n [] cal_1))) = 2" for n
    by (simp add: CreateCalendar_def bindS_def mapErrS_def orElse_def liftR_def generateUID_def execD_ok cal_1_quiet k
        insert_calendar_def retS_def) (simp add: cal_1_def wworld_def retS_def)
  moreover have "fst (authMiddleware wargon (serve_mux env_1 mk_1) mk_1 cal_1) =
      fst (serve_mux env_1 mk_1 (Some (scan_user (w_users wworld ! 0, hd (w_domains wworld)))) cal_1)"
    using ann_login by (simp add: authMiddleware_def p bindS_def mapErrS_def orElse_def liftD_def w)
  ultimately show ?thesis
    by (simp add: serve_dav_def respond_fst p serve_mux_def c handleCalDAV_def handleMkCalendar_def env_1_def or_error_def m Let_def)
qed

theorem dav_change_needs_login_witness:
  "\<exists>w u. Authenticate wargon ''ann@x.org'' ''secret12'' wworld = (w, Inr u) \<and> path_user (rq_Path mk_1) ''/calendars'' ''/caldav'' \<in> {[], us_Email u}"
proof -
  have "dav_tables (fst (serve_dav wargon env_1 mk_1 cal_1)) \<noteq> dav_tables cal_1"
    using mk_1_done by (auto simp: dav_tables_def cal_1_def)
  from dav_change_needs_login [OF prod.collapse [symmetric] this] show ?thesis
    by (auto simp: mk_1_def req_1_def cal_1_def)
qed

definition put_1 :: http_request where
  "put_1 = req_1 ''PUT'' ''/calendars/ann@x.org/c1/e1.ics''"

lemma put_1_path:
  "''c1'' = part_from_end 2 (path_parts (rq_Path put_1))" "''e1'' = TrimSuffix (part_from_end 1 (path_parts (rq_Path put_1))) ''.ics''"
  by code_simp+

lemma put_1_checks:
  "validatePath (rq_Path put_1) = None" "length (path_parts (rq_Path put_1)) \<ge> 3" "isValidICalendar (fst (rq_Body put_1))"
  "safeReadBody put_1 maxRequestBodySize = Inr (fst (rq_Body put_1))"
  by (code_simp, code_simp, code_simp, simp add: safeReadBody_def put_1_def req_1_def maxRequestBodySize_def)

definition event_2 :: calendar_event where
  "event_2 = (event_of ''e1'' (fst (rq_Body put_1)))\<lparr>ce_ID := 1, ce_CalendarID := 1, ce_ETag := CHR 0x22 # hex_encode ''k'' @ [CHR 0x22]\<rparr>"

definition cal_2 :: dav_state where
  "cal_2 = cal_1\<lparr>dv_events := [event_2], dv_calendars := map (\<lambda>c. c\<lparr>ca_CTag := generateCTag 7\<rparr>) (dv_calendars cal_1)\<rparr>"

lemma update_1: "UpdateEvent (dx_now env_1) (dx_rand env_1) ''c1'' (event_of ''e1'' (fst (rq_Body put_1))) cal_1 = (cal_2, Inr ())"
  by (simp add: UpdateEvent_def generateETag_def env_1_def bindS_def mapErrS_def orElse_def liftR_def execD_def update_events_def
      touch_calendar_def update_calendars_def retS_def in_calendar_def cal_1_def cal_2_def event_1_def event_2_def event_of_def
      Mail_World.next_fault_def wworld_def)

lemma put_1_done: "handleCalDAVPut env_1 put_1 cal_1 = (cal_2, Inr (put_response 204 ce_ETag (Some event_2)))"
proof -
  have "stored_event cal_2 ''c1'' ''e1'' = Some event_2"
    by (simp add: stored_event_def in_calendar_def cal_1_def cal_2_def event_2_def event_of_def)
  then have "GetEvent ''c1'' ''e1'' cal_2 = (cal_2, Inr event_2)"
    using events.get_ok [of cal_2] cal_1_quiet by (simp add: cal_2_def)
  moreover have "GetEvent ''c1'' ''e1'' cal_1 = (cal_1, Inr event_1)" using cal_1_quiet cal_1_stored by (rule events.get_ok)
  moreover have "rq_IfMatch put_1 = ce_ETag event_1" "rq_IfNoneMatch put_1 \<noteq> ''*''" by (simp_all add: put_1_def req_1_def event_1_def)
  ultimately show ?thesis
    unfolding handleCalDAVPut_def put_resource_def Let_def put_1_path [symmetric] put_conditional_def put_store_def
    using put_1_checks update_1
    by (simp add: bindS_def guardS_def mapErrS_def orElse_def liftR_def retS_def optionally_def or_error_def)
qed


theorem put_get_roundtrip_witness:
  "\<exists>etag. handleCalDAVGet (req_1 ''GET'' ''/calendars/ann@x.org/c1/e1.ics'') (fst (handleCalDAVPut env_1 put_1 cal_1)) =
    (cal_2, Inr \<lparr>rs_Status = 200,
      rs_Header = [(''Content-Type'', ''text/calendar; charset=utf-8''), (''ETag'', etag)], rs_Body = fst (rq_Body put_1)\<rparr>)"
proof -
  have p: "rq_Path (req_1 ''GET'' ''/calendars/ann@x.org/c1/e1.ics'') = rq_Path put_1" by (simp add: put_1_def req_1_def)
  show ?thesis
    using put_get_roundtrip [THEN conjunct1, THEN mp, OF cal_1_quiet p put_1_done] put_1_checks(4) by (auto simp: put_1_done)
qed

theorem get_ignores_owner_witness:
  "ca_UserID (hd (dv_calendars cal_1)) \<noteq> us_ID ann_1 \<and>
   handleCalDAV env_1 (req_1 ''GET'' ''/calendars/ann@x.org/c1/e1.ics'') (Some ann_1) cal_1 = (cal_1, Inr \<lparr>rs_Status = 200,
    rs_Header = [(''Content-Type'', ''text/calendar; charset=utf-8''), (''ETag'', ce_ETag event_1)], rs_Body = ce_ICalendarData event_1\<rparr>)"
proof
  show "ca_UserID (hd (dv_calendars cal_1)) \<noteq> us_ID ann_1" by (simp add: cal_1_def ann_1_def)
  show "handleCalDAV env_1 (req_1 ''GET'' ''/calendars/ann@x.org/c1/e1.ics'') (Some ann_1) cal_1 = (cal_1, Inr \<lparr>rs_Status = 200,
    rs_Header = [(''Content-Type'', ''text/calendar; charset=utf-8''), (''ETag'', ce_ETag event_1)], rs_Body = ce_ICalendarData event_1\<rparr>)"
    by (rule get_ignores_owner [OF cal_1_quiet cal_1_stored]) (simp_all add: ann_1_def req_1_def)
qed

theorem caldav_alias_forbidden_witness:
  "handleCalDAV env_1 (req_1 ''PROPFIND'' ''/caldav/'') (Some ann_1) cal_1 = (cal_1, Inl (http_Error ''Forbidden'' 403))"
  using caldav_alias_forbidden [of "req_1 ''PROPFIND'' ''/caldav/''" ann_1 env_1 cal_1] by (simp add: req_1_def ann_1_def)

end
