(* ===== verification/Audit_Log.thy ===== *)
theory Audit_Log
  imports Mail_World State_Err "HOL-Library.Multiset"
begin

text \<open>
  \<^verbatim>\<open>internal/audit/audit.go\<close>: the audit log. The table is the list of its rows in the order of insertion, each with the
  time stamp the database gives it; the details are the pairs that the code marshals to JSON. A logger without a database does nothing.
\<close>

datatype EventType = EventUserCreate | EventUserDelete | EventUserUpdate | EventPasswordChange | EventDomainCreate | EventDomainDelete
  | EventLoginSuccess | EventLoginFailure | EventSieveUpdate | EventQueueRetry | EventQueueDelete | EventConfigChange

fun event_text :: "EventType \<Rightarrow> string" where
  "event_text EventUserCreate = ''user.create''"
| "event_text EventUserDelete = ''user.delete''"
| "event_text EventUserUpdate = ''user.update''"
| "event_text EventPasswordChange = ''password.change''"
| "event_text EventDomainCreate = ''domain.create''"
| "event_text EventDomainDelete = ''domain.delete''"
| "event_text EventLoginSuccess = ''login.success''"
| "event_text EventLoginFailure = ''login.failure''"
| "event_text EventSieveUpdate = ''sieve.update''"
| "event_text EventQueueRetry = ''queue.retry''"
| "event_text EventQueueDelete = ''queue.delete''"
| "event_text EventConfigChange = ''config.change''"

text \<open>Values of the details: numbers and truth values.\<close>

datatype detail = DInt int | DBool bool

record audit_event =
  ae_ID :: int
  ae_Timestamp :: time
  ae_Actor :: string
  ae_Action :: string
  ae_Target :: string
  ae_Details :: "(string \<times> detail) list option"
  ae_IPAddress :: string

record audit_log =
  al_rows :: "audit_event list"
  al_seq :: int

record query_filter =
  qf_Actor :: string
  qf_Action :: string
  qf_Target :: string
  qf_StartTime :: "time option" \<comment> \<open>\<open>None\<close> is the zero time\<close>
  qf_EndTime :: "time option"
  qf_Limit :: int
  qf_Offset :: int

text \<open>\<open>Log\<close>: the statement works or fails; the result is its error.\<close>

definition Log :: "bool \<Rightarrow> time \<Rightarrow> string option \<Rightarrow> string \<Rightarrow> EventType \<Rightarrow> string \<Rightarrow> (string \<times> detail) list option \<Rightarrow> string \<Rightarrow> audit_log
    \<Rightarrow> audit_log \<times> string option" where
  "Log configured now fault actor action target details ip l =
     (if \<not> configured then (l, None)
      else (case fault of
              Some e \<Rightarrow> (l, Some e)
            | None \<Rightarrow> (l\<lparr>al_rows := al_rows l @ [\<lparr>ae_ID = al_seq l + 1, ae_Timestamp = truncate_second now, ae_Actor = actor, ae_Action = event_text action,
                        ae_Target = target, ae_Details = details, ae_IPAddress = ip\<rparr>], al_seq := al_seq l + 1\<rparr>, None)))"

definition LogSimple :: "bool \<Rightarrow> time \<Rightarrow> string option \<Rightarrow> string \<Rightarrow> EventType \<Rightarrow> string \<Rightarrow> string \<Rightarrow> audit_log \<Rightarrow> audit_log \<times> string option" where
  "LogSimple configured now fault actor action target ip = Log configured now fault actor action target None ip"

text \<open>\<open>LIKE\<close> without an escape character, for ASCII letters without regard to case.\<close>

fun like :: "string \<Rightarrow> string \<Rightarrow> bool" where
  "like [] s \<longleftrightarrow> s = []"
| "like (c # p) s \<longleftrightarrow>
     (if c = CHR ''%'' then like p s \<or> (case s of t # s' \<Rightarrow> like (c # p) s' | [] \<Rightarrow> False)
      else (case s of t # s' \<Rightarrow> (c = CHR ''_'' \<or> lower_char t = lower_char c) \<and> like p s' | [] \<Rightarrow> False))"

definition selected :: "query_filter \<Rightarrow> audit_event \<Rightarrow> bool" where
  "selected f e \<longleftrightarrow> (qf_Actor f \<noteq> [] \<longrightarrow> ae_Actor e = qf_Actor f) \<and> (qf_Action f \<noteq> [] \<longrightarrow> ae_Action e = qf_Action f) \<and>
     (qf_Target f \<noteq> [] \<longrightarrow> like (''%'' @ qf_Target f @ ''%'') (ae_Target e)) \<and>
     (case qf_StartTime f of None \<Rightarrow> True | Some t \<Rightarrow> t \<le> ae_Timestamp e) \<and>
     (case qf_EndTime f of None \<Rightarrow> True | Some t \<Rightarrow> ae_Timestamp e \<le> t)"

definition Query :: "bool \<Rightarrow> string option \<Rightarrow> query_filter \<Rightarrow> audit_log \<Rightarrow> (string, audit_event list) result" where
  "Query configured fault f l =
     (if \<not> configured then Inr []
      else (case fault of
              Some e \<Rightarrow> Inl e
            | None \<Rightarrow> Inr (take (if qf_Limit f > 0 then nat (qf_Limit f) else 100)
                (drop (if qf_Offset f > 0 then nat (qf_Offset f) else 0)
                  (sort_key (\<lambda>e. - ae_Timestamp e) (filter (selected f) (al_rows l)))))))"

definition GetRecent :: "bool \<Rightarrow> string option \<Rightarrow> int \<Rightarrow> audit_log \<Rightarrow> (string, audit_event list) result" where
  "GetRecent configured fault limit =
     Query configured fault \<lparr>qf_Actor = [], qf_Action = [], qf_Target = [], qf_StartTime = None, qf_EndTime = None, qf_Limit = limit, qf_Offset = 0\<rparr>"

definition Count_audit :: "bool \<Rightarrow> string option \<Rightarrow> query_filter \<Rightarrow> audit_log \<Rightarrow> (string, nat) result" where
  "Count_audit configured fault f l =
     (if \<not> configured then Inr 0
      else (case fault of
              Some e \<Rightarrow> Inl e
            | None \<Rightarrow> Inr (length [e \<leftarrow> al_rows l. (qf_Actor f \<noteq> [] \<longrightarrow> ae_Actor e = qf_Actor f) \<and>
                (qf_Action f \<noteq> [] \<longrightarrow> ae_Action e = qf_Action f)])))"

section \<open>Queries\<close>

text \<open>The order among rows of one second is that of the index; the model keeps the order of insertion.\<close>

lemma set_take_drop: "set (take n (drop k xs)) \<subseteq> set xs"
  by (meson set_drop_subset set_take_subset subset_trans)

text \<open>Pages of a query put together are the whole answer: reading on with the offset after each page misses nothing and repeats nothing.\<close>

lemma Query_pages:
  assumes "Query True None (f\<lparr>qf_Limit := int m, qf_Offset := int k\<rparr>) l = Inr p"
    and "Query True None (f\<lparr>qf_Limit := int n, qf_Offset := int (k + m)\<rparr>) l = Inr q" and "m > 0" "n > 0"
  shows "Query True None (f\<lparr>qf_Limit := int (m + n), qf_Offset := int k\<rparr>) l = Inr (p @ q)"
proof -
  have s: "selected (f\<lparr>qf_Limit := a, qf_Offset := b\<rparr>) = selected f" for a b by (simp add: selected_def fun_eq_iff)
  have n: "nat (int a) = a" "nat (int a + int b) = a + b" for a b by simp_all
  show ?thesis using assms by (auto simp: Query_def s take_add n add.commute)
qed

text \<open>A query gives events of the filter, newest first; without a limit reached, all of them.\<close>

lemma Query_correct:
  assumes "Query True None f l = Inr es"
  shows "set es \<subseteq> {e \<in> set (al_rows l). selected f e}" "sorted (map (\<lambda>e. - ae_Timestamp e) es)"
    "length (filter (selected f) (al_rows l)) \<le> (if qf_Limit f > 0 then nat (qf_Limit f) else 100) \<Longrightarrow> qf_Offset f \<le> 0 \<Longrightarrow>
       mset es = filter_mset (selected f) (mset (al_rows l))"
proof -
  let ?s = "sort_key (\<lambda>e. - ae_Timestamp e) (filter (selected f) (al_rows l))"
  from assms have es: "es = take (if qf_Limit f > 0 then nat (qf_Limit f) else 100) (drop (if qf_Offset f > 0 then nat (qf_Offset f) else 0) ?s)"
    by (simp add: Query_def)
  have "set es \<subseteq> set ?s" unfolding es by (rule set_take_drop)
  then show "set es \<subseteq> {e \<in> set (al_rows l). selected f e}" by auto
  show "sorted (map (\<lambda>e. - ae_Timestamp e) es)" unfolding es by (metis take_map drop_map sorted_wrt_take sorted_wrt_drop sorted_sort_key)
  show "length (filter (selected f) (al_rows l)) \<le> (if qf_Limit f > 0 then nat (qf_Limit f) else 100) \<Longrightarrow> qf_Offset f \<le> 0 \<Longrightarrow>
       mset es = filter_mset (selected f) (mset (al_rows l))"
    unfolding es by (auto simp: mset_filter)
qed

end
