(* ===== verification/Admin_Access.thy ===== *)
theory Admin_Access
  imports Rate_Limiter Auth Maildir_Store Sieve_Exec Redis_Queue Audit_Log Go_Http
begin

text \<open>
  Package \<^verbatim>\<open>internal/admin\<close>, the state of the web interface and the checks in front of its handlers
  (\<^verbatim>\<open>middleware.go\<close>): sessions, CSRF tokens, the headers of every response. The state has the accounts and mailboxes
  (\<open>world\<close>, whose fault script makes any statement fail), the column \<open>is_admin\<close> as the list of the identifiers where it is true, the
  scripts, the limiter of logins, the two token tables, the audit log, the two log tables, Redis, and the files of test messages. A page
  is the name of its template with the values it is rendered with; the cause of an error stays a value in place of its text. Recovering
  from panics and logging of requests do not change a request or its response and are left out.
\<close>

section \<open>State, requests and replies\<close>

record session =
  se_userID :: int
  se_createdAt :: time
  se_expiresAt :: time

record auth_log_row =
  lg_username :: string
  lg_remote_addr :: string
  lg_protocol :: string
  lg_success :: bool
  lg_failure_reason :: "string option"
  lg_created_at :: time

record delivery_log_row =
  dl_message_id :: "string option"
  dl_sender :: string
  dl_recipient :: string
  dl_status :: string
  dl_smtp_code :: "int option"
  dl_error_message :: "string option"
  dl_created_at :: time

record 'r admin_state =
  ad_world :: world
  ad_admins :: "int list"
  ad_domain_seq :: int
  ad_scripts :: "script_row list"
  ad_script_seq :: int
  ad_limiter :: rate_limiter
  ad_sessions :: "string \<rightharpoonup> session"
  ad_csrf :: "string \<rightharpoonup> time"
  ad_audit :: audit_log
  ad_auth_log :: "auth_log_row list"
  ad_delivery_log :: "delivery_log_row list"
  ad_redis :: 'r
  ad_tmp :: "(string \<times> string) list"

text \<open>The settings of the server: its queue if it has one, whether it has a Sieve store and an audit logger, names and paths.\<close>

record admin_server =
  as_queue :: "redis_queue option"
  as_sieve :: bool
  as_audit :: bool
  as_hostname :: string
  as_domain :: string
  as_maildirPath :: string
  as_startTime :: time

text \<open>A request: the headers that \<open>getIP\<close> reads, then the rest. \<open>aq_FormErr\<close> is the error of parsing the form if it has not been
  parsed before; what could be parsed is in \<open>aq_Form\<close>.\<close>

record admin_request = Rate_Limiter.http_request +
  aq_Method :: string
  aq_Path :: string
  aq_RawQuery :: string
  aq_Query :: "(string \<times> string) list"
  aq_Form :: "(string \<times> string) list"
  aq_FormErr :: "string option"
  aq_Cookie :: "string option"
  aq_CSRFHeader :: string
  aq_TLS :: bool

definition lookup_first :: "(string \<times> string) list \<Rightarrow> string \<Rightarrow> string" where
  "lookup_first kvs k = (case map_of kvs k of None \<Rightarrow> [] | Some v \<Rightarrow> v)"

definition FormValue :: "admin_request \<Rightarrow> string \<Rightarrow> string" where
  "FormValue r k = lookup_first (aq_Form r) k"

definition client_ip :: "admin_request \<Rightarrow> string" where
  "client_ip r = getIP (http_request.truncate r)"

text \<open>What a request takes from outside: the clock, also as texts in the formats the code uses, random bytes, the name of a temporary file
  and whether it can be written, the page of the metrics library, and the answers of DNS.\<close>

record admin_env =
  ax_now :: time
  ax_clock :: string
  ax_csrfRand :: "(string, string) result"
  ax_sessionRand :: "(string, string) result"
  ax_salt :: "(string, string) result"
  ax_msgRand :: "string option"
  ax_rfc1123 :: string
  ax_rfc1123z :: string
  ax_stamp :: string
  ax_tempFile :: "(string, string) result"
  ax_written :: bool
  ax_metrics :: string
  ax_lookupMX :: "string \<Rightarrow> (string, string list) result"
  ax_lookupTXT :: "string \<Rightarrow> (string, string list) result"

datatype cause = ByAuth auth_error | ByInput v_error | ByQueue q_error | ByScript store_error | ByText string

record user_view =
  uv_ID :: int
  uv_Username :: string
  uv_Domain :: string
  uv_Email :: string
  uv_IsAdmin :: bool

record domain_view =
  dw_ID :: int
  dw_Name :: string
  dw_UserCount :: nat

record activity_item =
  it_Time :: time
  it_Type :: string
  it_Description :: string
  it_Status :: string

record admin_stats =
  st_TotalUsers :: nat
  st_TotalDomains :: nat
  st_TotalMessages :: nat
  st_QueuePending :: int
  st_QueueFailed :: int
  st_RecentActivity :: "activity_item list"

record queue_view =
  qv_ID :: string
  qv_Sender :: string
  qv_Recipients :: string
  qv_Status :: Status
  qv_Attempts :: int
  qv_MaxAttempts :: int
  qv_LastError :: string
  qv_NextAttempt :: "time option"
  qv_CreatedAt :: "time option"

record dns_check_result =
  dr_RecordType :: string
  dr_Status :: string
  dr_Expected :: string
  dr_Actual :: string
  dr_Message :: string

record health_status =
  hs_Status :: string
  hs_Timestamp :: time
  hs_Uptime :: duration
  hs_Services :: "(string \<times> string \<times> cause option) list"

datatype page_value = PText string | PInt int | PWait string duration | PBool bool | PError string "cause option" | PStats admin_stats | PUsers "user_view list"
  | PChoices "(int \<times> string) list" | PDomains "domain_view list" | PScripts "script_row list" | PAuthLog "auth_log_row list"
  | PDeliveryLog "delivery_log_row list" | PQueueStats queue_stats | PQueue "queue_view list" | PDNS "dns_check_result list"
  | PAudit "audit_event list"

datatype admin_reply = Reply http_response | Refused nat string "cause option" | Page string "(string \<times> page_value) list"
  | HealthReply nat health_status

type_synonym 'r ahandler = "('r admin_state, admin_reply, admin_reply) sproc"

section \<open>Statements\<close>

definition liftW :: "('e, 'a) proc \<Rightarrow> ('r admin_state, 'e, 'a) sproc" where
  "liftW m y = (case m (ad_world y) of (w, z) \<Rightarrow> (y\<lparr>ad_world := w\<rparr>, z))"

definition queryA :: "('r admin_state \<Rightarrow> 'a) \<Rightarrow> ('r admin_state, string, 'a) sproc" where
  "queryA f y = (case Mail_World.next_fault (ad_world y) of
     (w, Some e) \<Rightarrow> (y\<lparr>ad_world := w\<rparr>, Inl e)
   | (w, None) \<Rightarrow> (y\<lparr>ad_world := w\<rparr>, Inr (f y)))"

definition execA :: "('r admin_state \<Rightarrow> (string, 'r admin_state \<times> 'a) result) \<Rightarrow> ('r admin_state, string, 'a) sproc" where
  "execA f y = (case Mail_World.next_fault (ad_world y) of
     (w, Some e) \<Rightarrow> (y\<lparr>ad_world := w\<rparr>, Inl e)
   | (w, None) \<Rightarrow> (case f (y\<lparr>ad_world := w\<rparr>) of Inl e \<Rightarrow> (y\<lparr>ad_world := w\<rparr>, Inl e) | Inr (y', x) \<Rightarrow> (y', Inr x)))"

text \<open>An operation of the queue.\<close>

definition liftQ :: "('r \<Rightarrow> 'r \<times> ('e, 'a) result) \<Rightarrow> ('r admin_state, 'e, 'a) sproc" where
  "liftQ m y = (case m (ad_redis y) of (d, z) \<Rightarrow> (y\<lparr>ad_redis := d\<rparr>, z))"

text \<open>A call whose error nobody looks at.\<close>

definition ignoreA :: "('r admin_state, 'e, 'a) sproc \<Rightarrow> ('r admin_state, 'f, unit) sproc" where
  "ignoreA m = orElse (bindS m (\<lambda>_. retS ())) (\<lambda>_. retS ())"

text \<open>The statement \<open>SELECT is_admin FROM users WHERE id = ?\<close>: no row, or the value.\<close>

definition is_admin :: "int \<Rightarrow> 'r admin_state \<Rightarrow> bool option" where
  "is_admin i y = (if list_ex (\<lambda>u. u_id u = i) (w_users (ad_world y)) then Some (i \<in> set (ad_admins y)) else None)"

section \<open>Tokens\<close>

definition generateToken :: "(string, string) result \<Rightarrow> string \<Rightarrow> string" where
  "generateToken rnd clock = hex_encode (case rnd of Inl e \<Rightarrow> clock | Inr b \<Rightarrow> b)"

definition is_hex :: "char \<Rightarrow> bool" where
  "is_hex c \<longleftrightarrow> (let n = (of_char c :: nat) in 48 \<le> n \<and> n \<le> 57 \<or> 65 \<le> n \<and> n \<le> 70 \<or> 97 \<le> n \<and> n \<le> 102)"

definition isValidToken :: "string \<Rightarrow> bool" where
  "isValidToken token \<longleftrightarrow> (if length token < 32 then False else if length token > 128 then False
     else even (length token) \<and> list_all is_hex token)"

section \<open>Sessions\<close>

definition createSession :: "admin_env \<Rightarrow> int \<Rightarrow> 'r admin_state \<Rightarrow> 'r admin_state \<times> string" where
  "createSession env userID y =
     (let token = generateToken (ax_sessionRand env) (ax_clock env)
      in (y\<lparr>ad_sessions := (ad_sessions y)(token \<mapsto> \<lparr>se_userID = userID, se_createdAt = ax_now env,
            se_expiresAt = ax_now env + 7 * 24 * Hour\<rparr>)\<rparr>, token))"

definition validateSession :: "time \<Rightarrow> string \<Rightarrow> 'r admin_state \<Rightarrow> 'r admin_state \<times> int option" where
  "validateSession now token y =
     (if \<not> isValidToken token then (y, None)
      else (case ad_sessions y token of
              None \<Rightarrow> (y, None)
            | Some sess \<Rightarrow>
                if now > se_expiresAt sess then (y\<lparr>ad_sessions := (ad_sessions y)(token := None)\<rparr>, None)
                else (y, Some (se_userID sess))))"

definition to_login :: "admin_request \<Rightarrow> admin_reply" where
  "to_login r = Reply (http_Redirect (aq_Method r) ''/admin/login'' 303)"

definition withAuth :: "admin_env \<Rightarrow> admin_request \<Rightarrow> 'r ahandler \<Rightarrow> 'r ahandler" where
  "withAuth env r next = (case aq_Cookie r of
     None \<Rightarrow> failS (to_login r)
   | Some cookie \<Rightarrow>
       (\<lambda>y. case validateSession (ax_now env) cookie y of
          (y1, None) \<Rightarrow> failS (to_login r) y1
        | (y1, Some userID) \<Rightarrow>
            bindS (mapErrS (\<lambda>e. to_login r) (queryA (is_admin userID))) (\<lambda>row.
            if row = Some True then next else failS (to_login r)) y1))"

definition getSessionUser :: "admin_env \<Rightarrow> admin_request \<Rightarrow> 'r admin_state \<Rightarrow> string" where
  "getSessionUser env r y = (case aq_Cookie r of
     None \<Rightarrow> ''unknown''
   | Some cookie \<Rightarrow>
       if \<not> isValidToken cookie then ''unknown''
       else (case ad_sessions y cookie of
               None \<Rightarrow> ''unknown''
             | Some sess \<Rightarrow> if ax_now env > se_expiresAt sess then ''unknown'' else ''user:'' @ show_int (se_userID sess)))"

section \<open>CSRF tokens\<close>

definition safe_method :: "string \<Rightarrow> bool" where
  "safe_method m \<longleftrightarrow> m = ''GET'' \<or> m = ''HEAD'' \<or> m = ''OPTIONS''"

definition csrf_issue :: "admin_env \<Rightarrow> 'r admin_state \<Rightarrow> 'r admin_state \<times> string" where
  "csrf_issue env y =
     (let token = generateToken (ax_csrfRand env) (ax_clock env)
      in (y\<lparr>ad_csrf := (ad_csrf y)(token \<mapsto> ax_now env + Hour)\<rparr>, token))"

definition csrf_token :: "admin_request \<Rightarrow> string" where
  "csrf_token r = (let token = FormValue r ''csrf_token'' in if token = [] then aq_CSRFHeader r else token)"

text \<open>The check under the read lock, and the removal under the write lock.\<close>

definition csrf_valid :: "time \<Rightarrow> string \<Rightarrow> 'r admin_state \<Rightarrow> bool" where
  "csrf_valid now token y \<longleftrightarrow> isValidToken token \<and> (case ad_csrf y token of None \<Rightarrow> False | Some expiry \<Rightarrow> \<not> now > expiry)"

definition csrf_take :: "time \<Rightarrow> string \<Rightarrow> 'r admin_state \<Rightarrow> 'r admin_state" where
  "csrf_take now token y = (case ad_csrf y token of
     None \<Rightarrow> y
   | Some expiry \<Rightarrow> if \<not> now > expiry then y\<lparr>ad_csrf := (ad_csrf y)(token := None)\<rparr> else y)"

text \<open>The new token is passed on: the handlers put it into their pages, and it is a header of the response. Reading the token from the
  form parses the form, so that a handler does not see an error of parsing any more.\<close>

type_synonym full_reply = "(string \<times> string) list \<times> admin_reply"

definition run_handler :: "'r ahandler \<Rightarrow> 'r admin_state \<Rightarrow> 'r admin_state \<times> admin_reply" where
  "run_handler h y = (case h y of (y', Inl q) \<Rightarrow> (y', q) | (y', Inr q) \<Rightarrow> (y', q))"

definition withCSRF :: "admin_env \<Rightarrow> (string \<Rightarrow> admin_request \<Rightarrow> 'r ahandler) \<Rightarrow> admin_request \<Rightarrow> 'r admin_state \<Rightarrow> 'r admin_state \<times> full_reply" where
  "withCSRF env next r y =
     (if safe_method (aq_Method r)
      then (case csrf_issue env y of (y1, token) \<Rightarrow>
              (case run_handler (next token r) y1 of (y2, q) \<Rightarrow> (y2, [(''X-CSRF-Token'', token)], q)))
      else if \<not> csrf_valid (ax_now env) (csrf_token r) y then (y, [], Refused 403 ''Invalid or expired CSRF token'' None)
      else (case csrf_issue env (csrf_take (ax_now env) (csrf_token r) y) of (y1, token) \<Rightarrow>
              (case run_handler (next token (r\<lparr>aq_FormErr := None\<rparr>)) y1 of (y2, q) \<Rightarrow> (y2, [(''X-CSRF-Token'', token)], q))))"

section \<open>Headers, clean-up and shutdown\<close>

definition quoted :: "string \<Rightarrow> string" where
  "quoted s = CHR 0x27 # s @ [CHR 0x27]"

definition security_headers :: "string \<Rightarrow> (string \<times> string) list" where
  "security_headers p =
     [(''X-Frame-Options'', ''DENY''), (''X-Content-Type-Options'', ''nosniff''), (''X-XSS-Protection'', ''1; mode=block''),
      (''Referrer-Policy'', ''strict-origin-when-cross-origin''),
      (''Content-Security-Policy'', concat [''default-src '', quoted ''self'', ''; script-src '', quoted ''self'', '' '', quoted ''unsafe-inline'',
         ''; style-src '', quoted ''self'', '' '', quoted ''unsafe-inline'', ''; img-src '', quoted ''self'', '' data:; font-src '', quoted ''self'',
         ''; form-action '', quoted ''self'', ''; frame-ancestors '', quoted ''none'', ''; base-uri '', quoted ''self'']),
      (''Permissions-Policy'',
        ''accelerometer=(), camera=(), geolocation=(), gyroscope=(), magnetometer=(), microphone=(), payment=(), usb=()'')] @
     (if p \<noteq> ''/admin/login''
      then [(''Cache-Control'', ''no-store, no-cache, must-revalidate, private''), (''Pragma'', ''no-cache''), (''Expires'', ''0'')] else [])"

definition withSecurityHeaders :: "(admin_request \<Rightarrow> 'r admin_state \<Rightarrow> 'r admin_state \<times> full_reply) \<Rightarrow> admin_request \<Rightarrow> 'r admin_state
    \<Rightarrow> 'r admin_state \<times> full_reply" where
  "withSecurityHeaders next r y = (case next r y of (y', hs, q) \<Rightarrow> (y', security_headers (aq_Path r) @ hs, q))"

text \<open>One tick of \<open>CleanupExpiredSessions\<close>; and what \<open>Shutdown\<close> does to the tokens.\<close>

definition cleanup_tokens :: "time \<Rightarrow> 'r admin_state \<Rightarrow> 'r admin_state" where
  "cleanup_tokens now y =
     y\<lparr>ad_sessions := (\<lambda>t. case ad_sessions y t of None \<Rightarrow> None | Some sess \<Rightarrow> if now > se_expiresAt sess then None else Some sess),
       ad_csrf := (\<lambda>t. case ad_csrf y t of None \<Rightarrow> None | Some expiry \<Rightarrow> if now > expiry then None else Some expiry)\<rparr>"

definition Shutdown_admin :: "'r admin_state \<Rightarrow> 'r admin_state" where
  "Shutdown_admin y = y\<lparr>ad_sessions := Map.empty, ad_csrf := Map.empty\<rparr>"

end
