(* ===== verification/Admin_Server.thy ===== *)
theory Admin_Server
  imports Admin_Access
begin

text \<open>
  Package \<^verbatim>\<open>internal/admin\<close>, the handlers (\<^verbatim>\<open>handlers.go\<close>) and the routes of the server
  (\<^verbatim>\<open>server.go\<close>). An early return of a handler is the error of its sequence. Time stamps of accounts and domains, which
  are only displayed, are left out.
\<close>

section \<open>Helpers\<close>

definition renderTemplate :: "string \<Rightarrow> string \<Rightarrow> (string \<times> page_value) list \<Rightarrow> admin_reply" where
  "renderTemplate csrf name data = Page name (data @ [(''CSRFToken'', PText csrf)])"

definition see_other :: "admin_request \<Rightarrow> string \<Rightarrow> admin_reply" where
  "see_other r url = Reply (http_Redirect (aq_Method r) url 303)"

definition not_found :: admin_reply where
  "not_found = Reply http_NotFound"

definition guardA :: "bool \<Rightarrow> admin_reply \<Rightarrow> ('r admin_state, admin_reply, unit) sproc" where
  "guardA b q = (if b then retS () else failS q)"

definition internal_error :: admin_reply where
  "internal_error = Refused 500 ''Internal server error'' None"

text \<open>\<open>r.ParseForm()\<close>.\<close>

definition ParseForm :: "admin_request \<Rightarrow> ('r admin_state, admin_reply, unit) sproc" where
  "ParseForm r = guardA (aq_FormErr r = None) (Refused 400 ''Bad request'' None)"

text \<open>A number in the path: the part with the given index.\<close>

definition path_id :: "nat \<Rightarrow> string \<Rightarrow> admin_request \<Rightarrow> ('r admin_state, admin_reply, int) sproc" where
  "path_id k what r =
     (let parts = Split (aq_Path r) (CHR ''/'')
      in bindS (guardA (length parts > k) not_found) (\<lambda>_.
         case ParseInt64 (parts ! k) of
           None \<Rightarrow> failS (Refused 400 (''Invalid '' @ what @ '' ID format'') None)
         | Some i \<Rightarrow> retS i))"

definition only_post :: "admin_request \<Rightarrow> ('r admin_state, admin_reply, unit) sproc" where
  "only_post r = guardA (aq_Method r = ''POST'') (Refused 405 ''Method not allowed'' None)"

text \<open>The audit logger: its statement may fail, which nobody looks at.\<close>

definition audit :: "admin_server \<Rightarrow> admin_env \<Rightarrow> admin_request \<Rightarrow> string \<Rightarrow> EventType \<Rightarrow> string \<Rightarrow> (string \<times> detail) list option
    \<Rightarrow> ('r admin_state, 'e, unit) sproc" where
  "audit srv env r actor action target details y =
     (case (if as_audit srv then Mail_World.next_fault (ad_world y) else (ad_world y, None)) of (w, fault) \<Rightarrow>
        (y\<lparr>ad_world := w, ad_audit := fst (Log (as_audit srv) (ax_now env) fault actor action target details (client_ip r) (ad_audit y))\<rparr>, Inr ()))"

definition audit_admin :: "admin_server \<Rightarrow> admin_env \<Rightarrow> admin_request \<Rightarrow> EventType \<Rightarrow> string \<Rightarrow> (string \<times> detail) list option
    \<Rightarrow> ('r admin_state, 'e, unit) sproc" where
  "audit_admin srv env r action target details y = audit srv env r (getSessionUser env r y) action target details y"

text \<open>\<open>Duration.Round\<close>: halves away from zero.\<close>

definition Round :: "duration \<Rightarrow> duration \<Rightarrow> duration" where
  "Round d m = (let k = \<bar>d\<bar> mod m; a = (if k + k < m then \<bar>d\<bar> - k else \<bar>d\<bar> + m - k) in if d < 0 then - a else a)"

section \<open>Dashboard\<close>

definition activity_of :: "auth_log_row \<Rightarrow> activity_item" where
  "activity_of l = (let rest = lg_username l @ '' via '' @ lg_protocol l @ '' from '' @ lg_remote_addr l
     in \<lparr>it_Time = lg_created_at l, it_Type = ''auth'',
         it_Description = (if lg_success l then lg_username l @ '' logged in via '' @ lg_protocol l @ '' from '' @ lg_remote_addr l
                           else ''Failed login for '' @ rest),
         it_Status = (if lg_success l then ''success'' else ''failed'')\<rparr>)"

definition queue_counts :: "('d, 'r) redis \<Rightarrow> admin_server \<Rightarrow> ('r admin_state, 'e, int \<times> int) sproc" where
  "queue_counts R srv = (case as_queue srv of
     None \<Rightarrow> retS (0, 0)
   | Some q \<Rightarrow> orElse (bindS (liftQ (Stats_queue R q)) (\<lambda>s. retS (qs_Pending s, qs_Failed s))) (\<lambda>e. retS (0, 0)))"

definition getStats :: "('d, 'r) redis \<Rightarrow> admin_server \<Rightarrow> ('r admin_state, string, admin_stats) sproc" where
  "getStats R srv =
     bindS (queryA (\<lambda>y. length (w_users (ad_world y)))) (\<lambda>users.
     bindS (queryA (\<lambda>y. length (w_domains (ad_world y)))) (\<lambda>domains.
     bindS (queue_counts R srv) (\<lambda>(pending, failed).
     bindS (orElse (queryA (\<lambda>y. map activity_of (take 10 (sort_key (\<lambda>l. - lg_created_at l) (ad_auth_log y))))) (\<lambda>e. retS [])) (\<lambda>recent.
     retS \<lparr>st_TotalUsers = users, st_TotalDomains = domains, st_TotalMessages = 0, st_QueuePending = pending, st_QueueFailed = failed,
           st_RecentActivity = recent\<rparr>))))"

definition handleDashboard :: "('d, 'r) redis \<Rightarrow> admin_server \<Rightarrow> string \<Rightarrow> admin_request \<Rightarrow> 'r ahandler" where
  "handleDashboard R srv csrf r =
     bindS (guardA (aq_Path r = ''/admin/'') (see_other r ''/admin/'')) (\<lambda>_.
     bindS (mapErrS (\<lambda>e. internal_error) (getStats R srv)) (\<lambda>stats.
     retS (renderTemplate csrf ''dashboard.html'' [(''Title'', PText ''Dashboard''), (''Stats'', PStats stats)])))"

definition handleAPIStats :: "('d, 'r) redis \<Rightarrow> admin_server \<Rightarrow> 'r ahandler" where
  \<open>handleAPIStats R srv =
     bindS (mapErrS (\<lambda>e. internal_error) (getStats R srv)) (\<lambda>stats.
     retS (Reply \<lparr>rs_Status = 200, rs_Header = [(''Content-Type'', ''application/json'')],
       rs_Body = ''{"users":'' @ show_nat (st_TotalUsers stats) @ '',"domains":'' @ show_nat (st_TotalDomains stats) @
         '',"messages":'' @ show_nat (st_TotalMessages stats) @ ''}''\<rparr>))\<close>

section \<open>Login and logout\<close>

definition login_page :: "string \<Rightarrow> page_value option \<Rightarrow> admin_reply" where
  "login_page csrf err = renderTemplate csrf ''login.html''
     ((''Title'', PText ''Admin Login'') # (case err of None \<Rightarrow> [] | Some v \<Rightarrow> [(''Error'', v)]))"

definition session_cookie :: "bool \<Rightarrow> string \<Rightarrow> string \<times> string" where
  "session_cookie tls token = (''Set-Cookie'', ''admin_session='' @ token @ ''; Path=/admin; Max-Age=604800; HttpOnly'' @
     (if tls then ''; Secure'' else []) @ ''; SameSite=Strict'')"

definition with_cookie :: "string \<times> string \<Rightarrow> http_response \<Rightarrow> admin_reply" where
  "with_cookie c q = Reply (q\<lparr>rs_Header := c # rs_Header q\<rparr>)"

definition failed_login :: "admin_server \<Rightarrow> admin_env \<Rightarrow> string \<Rightarrow> admin_request \<Rightarrow> 'r ahandler" where
  "failed_login srv env csrf r y =
     (let ip = client_ip r; username = FormValue r ''username''
      in case RecordFailure (ad_limiter y) (ax_now env) ip of (rl, blocked) \<Rightarrow>
         (let remaining = RemainingAttempts rl (ax_now env) ip;
              errorMsg = (if 0 < remaining \<and> remaining < 3 then ''Invalid credentials. '' @ show_int remaining @ '' attempts remaining''
                          else if blocked then ''Too many failed attempts. Account temporarily locked'' else ''Invalid credentials'')
          in bindS (audit srv env r username EventLoginFailure username (Some [(''blocked'', DBool blocked), (''remaining_attempts'', DInt remaining)])) (\<lambda>_.
             failS (login_page csrf (Some (PText errorMsg)))) (y\<lparr>ad_limiter := rl\<rparr>)))"

definition successful_login :: "admin_server \<Rightarrow> admin_env \<Rightarrow> admin_request \<Rightarrow> int \<Rightarrow> 'r ahandler" where
  "successful_login srv env r userID y =
     (case createSession env userID (y\<lparr>ad_limiter := RecordSuccess (ad_limiter y) (client_ip r)\<rparr>) of (y1, token) \<Rightarrow>
        bindS (audit srv env r (FormValue r ''username'') EventLoginSuccess (FormValue r ''username'') None) (\<lambda>_.
        retS (with_cookie (session_cookie (aq_TLS r) token) (http_Redirect (aq_Method r) ''/admin/'' 303))) y1)"

definition handleLogin :: "argon2 \<Rightarrow> admin_server \<Rightarrow> admin_env \<Rightarrow> string \<Rightarrow> admin_request \<Rightarrow> 'r ahandler" where
  "handleLogin A srv env csrf r y =
     (let ip = client_ip r
      in if IsBlocked (ad_limiter y) (ax_now env) ip
         then failS (login_page csrf (Some (PWait ''Too many failed attempts. Please try again in ''
                (case BlockedUntil (ad_limiter y) ip of None \<Rightarrow> 0 | Some t \<Rightarrow> Round (t - ax_now env) Minute)))) y
         else if aq_Method r = ''GET'' then retS (login_page csrf None) y
         else bindS (ParseForm r) (\<lambda>_ y0.
           case liftW (Authenticate A (FormValue r ''username'') (FormValue r ''password'')) y0 of
             (y1, Inl err) \<Rightarrow> failed_login srv env csrf r y1
           | (y1, Inr u) \<Rightarrow>
               (case queryA (is_admin (us_ID u)) y1 of
                  (y2, Inr (Some True)) \<Rightarrow> successful_login srv env r (us_ID u) y2
                | (y2, _) \<Rightarrow> failS (login_page csrf (Some (PText ''Access denied - admin rights required'')))
                    (y2\<lparr>ad_limiter := fst (RecordFailure (ad_limiter y2) (ax_now env) ip)\<rparr>))) y)"

definition handleLogout :: "admin_request \<Rightarrow> 'r ahandler" where
  "handleLogout r = retS (with_cookie (''Set-Cookie'', ''admin_session=; Path=/admin; Max-Age=0; HttpOnly'')
     (http_Redirect (aq_Method r) ''/admin/login'' 303))"

section \<open>Users\<close>

definition user_view_of :: "'r admin_state \<Rightarrow> user_row \<times> domain_row \<Rightarrow> user_view" where
  "user_view_of y ud = (case ud of (u, d) \<Rightarrow> \<lparr>uv_ID = u_id u, uv_Username = u_username u, uv_Domain = d_name d,
     uv_Email = u_username u @ ''@'' @ d_name d, uv_IsAdmin = (u_id u \<in> set (ad_admins y))\<rparr>)"

definition handleUsers :: "string \<Rightarrow> 'r ahandler" where
  "handleUsers csrf =
     bindS (mapErrS (\<lambda>e. internal_error)
       (queryA (\<lambda>y. map (user_view_of y)
          (sort_key (\<lambda>(u, d). d_name d) (sort_key (\<lambda>(u, d). u_username u) (users_join_domains (ad_world y))))))) (\<lambda>users.
     retS (renderTemplate csrf ''users.html'' [(''Title'', PText ''Users''), (''Users'', PUsers users)]))"

definition set_admin :: "int \<Rightarrow> bool \<Rightarrow> 'r admin_state \<Rightarrow> (string, 'r admin_state \<times> unit) result" where
  "set_admin i b y = Inr (if list_ex (\<lambda>u. u_id u = i) (w_users (ad_world y))
     then y\<lparr>ad_admins := (if b then List.insert i (ad_admins y) else removeAll i (ad_admins y))\<rparr> else y, ())"

definition user_form :: "string \<Rightarrow> 'r ahandler" where
  "user_form csrf =
     bindS (mapErrS (\<lambda>e. internal_error)
       (queryA (\<lambda>y. map (\<lambda>d. (d_id d, d_name d)) (sort_key d_name (w_domains (ad_world y)))))) (\<lambda>domains.
     retS (renderTemplate csrf ''user_form.html'' [(''Title'', PText ''Add User''), (''Domains'', PChoices domains)]))"

definition handleUserAdd :: "argon2 \<Rightarrow> admin_server \<Rightarrow> admin_env \<Rightarrow> string \<Rightarrow> admin_request \<Rightarrow> 'r ahandler" where
  "handleUserAdd A srv env csrf r =
     (if aq_Method r = ''GET'' then user_form csrf
      else
     bindS (ParseForm r) (\<lambda>_.
     (let username = FormValue r ''username''; password = FormValue r ''password''; isAdmin = (FormValue r ''is_admin'' = ''on'')
      in case ParseInt64 (FormValue r ''domain_id'') of
        None \<Rightarrow> failS (Refused 400 ''Invalid domain ID format'' None)
      | Some domainID \<Rightarrow>
     bindS (case Username username of None \<Rightarrow> retS () | Some e \<Rightarrow> failS (Refused 400 [] (Some (ByInput e)))) (\<lambda>_.
     bindS (case Password password of None \<Rightarrow> retS () | Some e \<Rightarrow> failS (Refused 400 [] (Some (ByInput e)))) (\<lambda>_.
     bindS (guardA (domainID \<noteq> 0) (Refused 400 ''Domain is required'' None)) (\<lambda>_.
     bindS (mapErrS (\<lambda>e. Refused 500 ''Failed to create user: '' (Some (ByAuth e)))
              (liftW (CreateUser A (ax_salt env) username password domainID))) (\<lambda>u.
     bindS (ignoreA (liftW (InitializeUserMailboxes (us_ID u) (ax_now env)))) (\<lambda>_.
     bindS (if isAdmin then ignoreA (execA (set_admin (us_ID u) True)) else retS ()) (\<lambda>_.
     bindS (audit_admin srv env r EventUserCreate (us_Username u) (Some [(''domain_id'', DInt domainID), (''is_admin'', DBool isAdmin)])) (\<lambda>_.
     retS (see_other r ''/admin/users'')))))))))))"

definition user_edit_page :: "string \<Rightarrow> int \<Rightarrow> 'r ahandler" where
  "user_edit_page csrf userID =
     bindS (mapErrS (\<lambda>e. not_found)
       (queryA (\<lambda>y. map_option (user_view_of y) (find (\<lambda>(u, d). u_id u = userID) (users_join_domains (ad_world y)))))) (\<lambda>row.
     case row of
       None \<Rightarrow> failS not_found
     | Some v \<Rightarrow> retS (renderTemplate csrf ''user_edit.html'' [(''Title'', PText ''Edit User''), (''UserID'', PInt userID),
         (''Username'', PText (uv_Username v)), (''Email'', PText (uv_Email v)), (''IsAdmin'', PBool (uv_IsAdmin v))]))"

definition change_password :: "argon2 \<Rightarrow> admin_server \<Rightarrow> admin_env \<Rightarrow> admin_request \<Rightarrow> int \<Rightarrow> string \<Rightarrow> ('r admin_state, admin_reply, unit) sproc" where
  "change_password A srv env r userID password =
     bindS (case Password password of None \<Rightarrow> retS () | Some e \<Rightarrow> failS (Refused 400 [] (Some (ByInput e)))) (\<lambda>_.
     bindS (mapErrS (\<lambda>e. Refused 500 ''Failed to update password'' None) (liftW (UpdatePassword A (ax_salt env) userID password))) (\<lambda>_.
     audit_admin srv env r EventPasswordChange (show_int userID) None))"

definition handleUserEdit :: "argon2 \<Rightarrow> admin_server \<Rightarrow> admin_env \<Rightarrow> string \<Rightarrow> admin_request \<Rightarrow> 'r ahandler" where
  "handleUserEdit A srv env csrf r =
     bindS (path_id 4 ''user'' r) (\<lambda>userID.
     if aq_Method r = ''GET'' then user_edit_page csrf userID
     else
     bindS (ParseForm r) (\<lambda>_.
     (let password = FormValue r ''password''; isAdmin = (FormValue r ''is_admin'' = ''on'')
      in
     bindS (mapErrS (\<lambda>e. Refused 500 ''Failed to update user'' None) (execA (set_admin userID isAdmin))) (\<lambda>_.
     bindS (if password \<noteq> [] then change_password A srv env r userID password else retS ()) (\<lambda>_.
     bindS (audit_admin srv env r EventUserUpdate (show_int userID) (Some [(''is_admin'', DBool isAdmin)])) (\<lambda>_.
     retS (see_other r ''/admin/users'')))))))"

text \<open>Deleting users deletes what refers to them: mailboxes with their messages, aliases, scripts (and calendars and address books, which are not in this state). Their files stay.\<close>

definition delete_users :: "(user_row \<Rightarrow> bool) \<Rightarrow> 'r admin_state \<Rightarrow> 'r admin_state" where
  "delete_users P y =
     (let w = ad_world y; gone = u_id ` set (filter P (w_users w)); boxes = mb_ID ` set [b \<leftarrow> w_mailboxes w. mb_UserID b \<in> gone]
      in y\<lparr>ad_world := w\<lparr>w_users := [u \<leftarrow> w_users w. \<not> P u],
                         w_aliases := [a \<leftarrow> w_aliases w. case a_destination_user_id a of None \<Rightarrow> True | Some i \<Rightarrow> i \<notin> gone],
                         w_mailboxes := [b \<leftarrow> w_mailboxes w. mb_UserID b \<notin> gone],
                         w_messages := [m \<leftarrow> w_messages w. mr_mailbox_id m \<notin> boxes]\<rparr>,
           ad_admins := [i \<leftarrow> ad_admins y. i \<notin> gone],
           ad_scripts := [s \<leftarrow> ad_scripts y. sc_user s \<notin> gone]\<rparr>)"

definition handleUserDelete :: "admin_server \<Rightarrow> admin_env \<Rightarrow> admin_request \<Rightarrow> 'r ahandler" where
  "handleUserDelete srv env r =
     bindS (only_post r) (\<lambda>_.
     bindS (path_id 4 ''user'' r) (\<lambda>userID.
     bindS (mapErrS (\<lambda>e. Refused 500 ''Failed to delete user'' None) (execA (\<lambda>y. Inr (delete_users (\<lambda>u. u_id u = userID) y, ())))) (\<lambda>_.
     bindS (audit_admin srv env r EventUserDelete (show_int userID) None) (\<lambda>_.
     retS (see_other r ''/admin/users'')))))"

section \<open>Domains\<close>

definition handleDomains :: "string \<Rightarrow> 'r ahandler" where
  "handleDomains csrf =
     bindS (mapErrS (\<lambda>e. internal_error)
       (queryA (\<lambda>y. map (\<lambda>d. \<lparr>dw_ID = d_id d, dw_Name = d_name d,
          dw_UserCount = length [u \<leftarrow> w_users (ad_world y). u_domain_id u = d_id d]\<rparr>) (sort_key d_name (w_domains (ad_world y)))))) (\<lambda>domains.
     retS (renderTemplate csrf ''domains.html'' [(''Title'', PText ''Domains''), (''Domains'', PDomains domains)]))"

definition domain_form :: "string \<Rightarrow> page_value option \<Rightarrow> admin_reply" where
  "domain_form csrf err = renderTemplate csrf ''domain_form.html''
     ((''Title'', PText ''Add Domain'') # (case err of None \<Rightarrow> [] | Some v \<Rightarrow> [(''Error'', v)]))"

definition insert_domain :: "string \<Rightarrow> 'r admin_state \<Rightarrow> (string, 'r admin_state \<times> unit) result" where
  "insert_domain name y =
     (if list_ex (\<lambda>d. d_name d = name) (w_domains (ad_world y)) then Inl ''UNIQUE constraint failed: domains.name''
      else (let i = ad_domain_seq y + 1
            in Inr (y\<lparr>ad_domain_seq := i,
                      ad_world := (ad_world y)\<lparr>w_domains := w_domains (ad_world y) @ [\<lparr>d_id = i, d_name = name, d_active = True\<rparr>]\<rparr>\<rparr>, ())))"

definition handleDomainAdd :: "admin_server \<Rightarrow> admin_env \<Rightarrow> string \<Rightarrow> admin_request \<Rightarrow> 'r ahandler" where
  "handleDomainAdd srv env csrf r =
     (if aq_Method r = ''GET'' then retS (domain_form csrf None)
      else
     bindS (ParseForm r) (\<lambda>_.
     (let name = TrimSpace (ToLower (FormValue r ''name''))
      in
     bindS (case Domain name of None \<Rightarrow> retS () | Some e \<Rightarrow> failS (domain_form csrf (Some (PError [] (Some (ByInput e)))))) (\<lambda>_.
     bindS (orElse (queryA (\<lambda>y. length [d \<leftarrow> w_domains (ad_world y). d_name d = name])) (\<lambda>e. retS 0)) (\<lambda>exists.
     bindS (guardA (\<not> exists > 0) (domain_form csrf (Some (PError ''Domain already exists'' None)))) (\<lambda>_.
     bindS (mapErrS (\<lambda>e. domain_form csrf (Some (PError ''Failed to create domain: '' (Some (ByText e))))) (execA (insert_domain name))) (\<lambda>_.
     bindS (audit_admin srv env r EventDomainCreate name None) (\<lambda>_.
     retS (see_other r ''/admin/domains'')))))))))"

text \<open>Deleting a domain deletes its users with all they have, and its aliases.\<close>

definition delete_domain :: "int \<Rightarrow> 'r admin_state \<Rightarrow> 'r admin_state" where
  "delete_domain i y =
     (let y1 = delete_users (\<lambda>u. u_domain_id u = i) y; w = ad_world y1
      in y1\<lparr>ad_world := w\<lparr>w_domains := [d \<leftarrow> w_domains w. d_id d \<noteq> i], w_aliases := [a \<leftarrow> w_aliases w. a_domain_id a \<noteq> i]\<rparr>\<rparr>)"

definition handleDomainDelete :: "admin_server \<Rightarrow> admin_env \<Rightarrow> admin_request \<Rightarrow> 'r ahandler" where
  "handleDomainDelete srv env r =
     bindS (only_post r) (\<lambda>_.
     bindS (path_id 4 ''domain'' r) (\<lambda>domainID.
     bindS (mapErrS (\<lambda>e. Refused 500 ''Failed to delete domain'' None) (execA (\<lambda>y. Inr (delete_domain domainID y, ())))) (\<lambda>_.
     bindS (audit_admin srv env r EventDomainDelete (show_int domainID) None) (\<lambda>_.
     retS (see_other r ''/admin/domains'')))))"

section \<open>Sieve scripts\<close>

text \<open>The operations of the script store on the state: a statement that is not reached takes nothing from the fault script. The script
  of a user that does not exist violates a foreign key.\<close>

definition with_fault :: "(string option \<Rightarrow> 'r admin_state \<Rightarrow> 'r admin_state \<times> ('e, 'a) result) \<Rightarrow> ('r admin_state, 'e, 'a) sproc" where
  "with_fault f y = (case Mail_World.next_fault (ad_world y) of (w, fault) \<Rightarrow> f fault (y\<lparr>ad_world := w\<rparr>))"

definition to_result :: "'e option \<Rightarrow> ('e, unit) result" where
  "to_result e = (case e of None \<Rightarrow> Inr () | Some x \<Rightarrow> Inl x)"

definition script_list :: "int \<Rightarrow> ('r admin_state, store_error, script_row list) sproc" where
  "script_list userID = with_fault (\<lambda>fault y. (y, ListScripts userID fault (ad_scripts y)))"

definition script_create :: "int \<Rightarrow> string \<Rightarrow> string \<Rightarrow> ('r admin_state, store_error, unit) sproc" where
  "script_create userID name content =
     (case ValidateScript content of
        Some e \<Rightarrow> failS (ErrParse e)
      | None \<Rightarrow> with_fault (\<lambda>fault y.
          let fk = (if list_ex (\<lambda>u. u_id u = userID) (w_users (ad_world y)) then None else Some ''FOREIGN KEY constraint failed'')
          in case CreateScript (ad_script_seq y + 1) userID name content (case fault of None \<Rightarrow> fk | Some e \<Rightarrow> fault) (ad_scripts y) of
               (rows, Inl e) \<Rightarrow> (y\<lparr>ad_scripts := rows\<rparr>, Inl e)
             | (rows, Inr s) \<Rightarrow> (y\<lparr>ad_scripts := rows, ad_script_seq := ad_script_seq y + 1\<rparr>, Inr ())))"

definition script_update :: "int \<Rightarrow> string \<Rightarrow> string \<Rightarrow> ('r admin_state, store_error, unit) sproc" where
  "script_update userID name content =
     (case ValidateScript content of
        Some e \<Rightarrow> failS (ErrParse e)
      | None \<Rightarrow> with_fault (\<lambda>fault y. case UpdateScript userID name content fault (ad_scripts y) of (rows, e) \<Rightarrow> (y\<lparr>ad_scripts := rows\<rparr>, to_result e)))"

definition script_delete :: "int \<Rightarrow> string \<Rightarrow> ('r admin_state, store_error, unit) sproc" where
  "script_delete userID name =
     with_fault (\<lambda>fault y. case DeleteScript userID name fault (ad_scripts y) of (rows, e) \<Rightarrow> (y\<lparr>ad_scripts := rows\<rparr>, to_result e))"

definition activate :: "int \<Rightarrow> string \<Rightarrow> string option \<Rightarrow> string option \<Rightarrow> string option \<Rightarrow> string option \<Rightarrow> ('r admin_state, store_error, unit) sproc" where
  "activate userID name f1 f2 f3 f4 y =
     (case SetActiveScript userID name (f1, f2, f3, f4) (ad_scripts y) of (rows, e) \<Rightarrow> (y\<lparr>ad_scripts := rows\<rparr>, to_result e))"

text \<open>The four statements of the transaction take their faults one after the other, as far as it gets.\<close>

definition script_activate :: "int \<Rightarrow> string \<Rightarrow> ('r admin_state, store_error, unit) sproc" where
  "script_activate userID name =
     with_fault (\<lambda>f1. if f1 \<noteq> None then activate userID name f1 None None None else
     with_fault (\<lambda>f2. if f2 \<noteq> None then activate userID name f1 f2 None None else
     (if name \<noteq> [] then with_fault (\<lambda>f3. if f3 \<noteq> None then activate userID name f1 f2 f3 None else with_fault (\<lambda>f4. activate userID name f1 f2 f3 f4))
      else with_fault (\<lambda>f4. activate userID name f1 f2 None f4))))"

definition handleSieve :: "admin_server \<Rightarrow> string \<Rightarrow> admin_request \<Rightarrow> 'r ahandler" where
  "handleSieve srv csrf r =
     bindS (path_id 3 ''user'' r) (\<lambda>userID.
     bindS (guardA (as_sieve srv) (Refused 503 ''Sieve not configured'' None)) (\<lambda>_.
     if aq_Method r = ''GET''
     then bindS (orElse (script_list userID) (\<lambda>e. retS [])) (\<lambda>scripts.
          retS (renderTemplate csrf ''sieve.html'' [(''Title'', PText ''Sieve Scripts''), (''UserID'', PInt userID), (''Scripts'', PScripts scripts)]))
     else
     bindS (ParseForm r) (\<lambda>_.
     (let name = FormValue r ''name''; content = FormValue r ''content''; action = FormValue r ''action''
      in
     bindS (if action = ''create'' then mapErrS (\<lambda>e. Refused 400 ''Failed to create script: '' (Some (ByScript e))) (script_create userID name content)
            else if action = ''update'' then mapErrS (\<lambda>e. Refused 400 ''Failed to update script: '' (Some (ByScript e))) (script_update userID name content)
            else if action = ''delete'' then mapErrS (\<lambda>e. Refused 500 ''Failed to delete script'' None) (script_delete userID name)
            else if action = ''activate'' then mapErrS (\<lambda>e. Refused 500 ''Failed to activate script'' None) (script_activate userID name)
            else retS ()) (\<lambda>_.
     retS (see_other r (aq_Path r)))))))"

section \<open>Logs\<close>

definition handleAuthLogs :: "string \<Rightarrow> 'r ahandler" where
  "handleAuthLogs csrf =
     bindS (mapErrS (\<lambda>e. internal_error) (queryA (\<lambda>y. take 100 (sort_key (\<lambda>l. - lg_created_at l) (ad_auth_log y))))) (\<lambda>logs.
     retS (renderTemplate csrf ''auth_logs.html'' [(''Title'', PText ''Authentication Logs''), (''Logs'', PAuthLog logs)]))"

definition handleDeliveryLogs :: "string \<Rightarrow> 'r ahandler" where
  "handleDeliveryLogs csrf =
     bindS (mapErrS (\<lambda>e. internal_error) (queryA (\<lambda>y. take 100 (sort_key (\<lambda>l. - dl_created_at l) (ad_delivery_log y))))) (\<lambda>logs.
     retS (renderTemplate csrf ''delivery_logs.html'' [(''Title'', PText ''Delivery Logs''), (''Logs'', PDeliveryLog logs)]))"

definition audit_filter :: "admin_request \<Rightarrow> query_filter" where
  "audit_filter r = \<lparr>qf_Actor = lookup_first (aq_Query r) ''actor'', qf_Action = lookup_first (aq_Query r) ''action'',
     qf_Target = lookup_first (aq_Query r) ''target'', qf_StartTime = None, qf_EndTime = None, qf_Limit = 100, qf_Offset = 0\<rparr>"

definition handleAuditLogs :: "admin_server \<Rightarrow> string \<Rightarrow> admin_request \<Rightarrow> 'r ahandler" where
  "handleAuditLogs srv csrf r =
     (if \<not> as_audit srv
      then retS (renderTemplate csrf ''audit_logs.html'' [(''Title'', PText ''Audit Logs''), (''Error'', PText ''Audit logging not configured'')])
      else
     bindS (mapErrS (\<lambda>e. internal_error) (with_fault (\<lambda>fault y. (y, Query True fault (audit_filter r) (ad_audit y))))) (\<lambda>events.
     retS (renderTemplate csrf ''audit_logs.html'' [(''Title'', PText ''Audit Logs''), (''Logs'', PAudit events),
       (''FilterActor'', PText (lookup_first (aq_Query r) ''actor'')), (''FilterAction'', PText (lookup_first (aq_Query r) ''action''))])))"

section \<open>Queue\<close>

definition convertQueueMessages :: "message list \<Rightarrow> queue_view list" where
  "convertQueueMessages msgs = map (\<lambda>m. \<lparr>qv_ID = msg_ID m, qv_Sender = msg_Sender m, qv_Recipients = Join (msg_Recipients m) '', '',
     qv_Status = msg_Status m, qv_Attempts = msg_Attempts m, qv_MaxAttempts = msg_MaxAttempts m, qv_LastError = msg_LastError m,
     qv_NextAttempt = msg_NextAttempt m, qv_CreatedAt = msg_CreatedAt m\<rparr>) msgs"

definition queue_error_page :: "string \<Rightarrow> string \<Rightarrow> cause option \<Rightarrow> admin_reply" where
  "queue_error_page csrf text c = renderTemplate csrf ''queue.html'' [(''Title'', PText ''Email Queue''), (''Error'', PError text c)]"

definition listed :: "('r \<Rightarrow> 'r \<times> (q_error, message list) result) \<Rightarrow> ('r admin_state, 'e, queue_view list) sproc" where
  "listed m = orElse (bindS (liftQ m) (\<lambda>ms. retS (convertQueueMessages ms))) (\<lambda>e. retS [])"

definition handleQueue :: "('d, 'r) redis \<Rightarrow> admin_server \<Rightarrow> string \<Rightarrow> 'r ahandler" where
  "handleQueue R srv csrf = (case as_queue srv of
     None \<Rightarrow> retS (queue_error_page csrf ''Queue not configured - Redis not available'' None)
   | Some q \<Rightarrow>
     bindS (mapErrS (\<lambda>e. queue_error_page csrf ''Failed to get queue stats: '' (Some (ByQueue e))) (liftQ (Stats_queue R q))) (\<lambda>stats.
     bindS (listed (ListPending R q False 50)) (\<lambda>pending.
     bindS (listed (ListFailed R q False 50)) (\<lambda>failed.
     bindS (listed (ListSent R q False 20)) (\<lambda>sent.
     retS (renderTemplate csrf ''queue.html'' [(''Title'', PText ''Email Queue''), (''Stats'', PQueueStats stats), (''PendingMessages'', PQueue pending),
       (''FailedMessages'', PQueue failed), (''SentMessages'', PQueue sent)]))))))"

text \<open>The queue and the message that the path of a request names.\<close>

definition queue_target :: "admin_server \<Rightarrow> admin_request \<Rightarrow> ('r admin_state, admin_reply, redis_queue \<times> string) sproc" where
  "queue_target srv r =
     bindS (only_post r) (\<lambda>_.
     case as_queue srv of
       None \<Rightarrow> failS (Refused 503 ''Queue not configured'' None)
     | Some q \<Rightarrow>
         (let parts = Split (aq_Path r) (CHR ''/'')
          in bindS (guardA (length parts \<ge> 5) not_found) (\<lambda>_. retS (q, parts ! 4))))"

definition handleQueueRetry :: "('d, 'r) redis \<Rightarrow> admin_server \<Rightarrow> admin_env \<Rightarrow> admin_request \<Rightarrow> 'r ahandler" where
  "handleQueueRetry R srv env r =
     bindS (queue_target srv r) (\<lambda>(q, msgID).
     bindS (mapErrS (\<lambda>e. Refused 404 ''Message not found: '' (Some (ByQueue e))) (liftQ (GetMessage R q msgID))) (\<lambda>msg.
     bindS (mapErrS (\<lambda>e. Refused 500 ''Failed to reschedule message: '' (Some (ByQueue e)))
       (liftQ (Enqueue R q False (ax_msgRand env) (ax_now env) (Some (msg\<lparr>msg_Attempts := 0, msg_NextAttempt := Some (ax_now env)\<rparr>))))) (\<lambda>_.
     retS (see_other r ''/admin/queue''))))"

definition handleQueueDelete :: "('d, 'r) redis \<Rightarrow> admin_server \<Rightarrow> admin_env \<Rightarrow> admin_request \<Rightarrow> 'r ahandler" where
  "handleQueueDelete R srv env r =
     bindS (queue_target srv r) (\<lambda>(q, msgID).
     bindS (mapErrS (\<lambda>e. Refused 500 ''Failed to delete message: '' (Some (ByQueue e)))
       (liftQ (\<lambda>d. case Fail R q (ax_now env) msgID ''Manually deleted by admin'' d of (d', e) \<Rightarrow> (d', to_result e)))) (\<lambda>_.
     retS (see_other r ''/admin/queue'')))"

section \<open>Health\<close>

definition ping :: "('r admin_state, string, unit) sproc" where
  "ping = queryA (\<lambda>y. ())"

definition queue_health :: "('d, 'r) redis \<Rightarrow> admin_server \<Rightarrow> ('r admin_state, 'e, string \<times> string \<times> cause option) sproc" where
  "queue_health R srv = (case as_queue srv of
     None \<Rightarrow> retS (''queue'', ''not configured'', None)
   | Some q \<Rightarrow> orElse (bindS (liftQ (Stats_queue R q)) (\<lambda>_. retS (''queue'', ''ok'', None))) (\<lambda>e. retS (''queue'', ''error: '', Some (ByQueue e))))"

definition handleHealth :: "('d, 'r) redis \<Rightarrow> admin_server \<Rightarrow> admin_env \<Rightarrow> 'r ahandler" where
  "handleHealth R srv env =
     bindS (orElse (bindS ping (\<lambda>_. retS (''database'', ''ok'', None))) (\<lambda>e. retS (''database'', ''error: '', Some (ByText e)))) (\<lambda>db.
     bindS (queue_health R srv) (\<lambda>qu.
     (let bad = (snd (snd db) \<noteq> None \<or> snd (snd qu) \<noteq> None)
      in retS (HealthReply (if bad then 503 else 200)
           \<lparr>hs_Status = (if bad then ''degraded'' else ''ok''), hs_Timestamp = ax_now env, hs_Uptime = Round (ax_now env - as_startTime srv) Second,
            hs_Services = [db, qu]\<rparr>))))"

definition handleReady :: "'r ahandler" where
  "handleReady =
     bindS (mapErrS (\<lambda>e. Reply \<lparr>rs_Status = 503, rs_Header = [], rs_Body = ''not ready: database unavailable''\<rparr>) ping) (\<lambda>_.
     retS (Reply \<lparr>rs_Status = 200, rs_Header = [], rs_Body = ''ready''\<rparr>))"

section \<open>Tools\<close>

definition dns_result :: "string \<Rightarrow> string \<Rightarrow> string \<Rightarrow> string \<Rightarrow> string \<Rightarrow> dns_check_result" where
  "dns_result ty st ex ac ms = \<lparr>dr_RecordType = ty, dr_Status = st, dr_Expected = ex, dr_Actual = ac, dr_Message = ms\<rparr>"

definition check_mx :: "admin_env \<Rightarrow> string \<Rightarrow> string \<Rightarrow> dns_check_result" where
  "check_mx env mailServer domain = (case ax_lookupMX env domain of
     Inl e \<Rightarrow> dns_result ''MX'' ''fail'' mailServer [] (''No MX records found: '' @ e)
   | Inr hosts \<Rightarrow>
       (let actual = TrimSpace (concat (map (\<lambda>h. h @ '' '') hosts))
        in if list_ex (\<lambda>h. TrimSuffix h ''.'' = mailServer) hosts
           then dns_result ''MX'' ''pass'' mailServer actual ''MX record correctly points to mail server''
           else dns_result ''MX'' ''fail'' mailServer actual ''MX record does not point to expected mail server''))"

definition check_spf :: "admin_env \<Rightarrow> string \<Rightarrow> dns_check_result" where
  "check_spf env domain = (case ax_lookupTXT env domain of
     Inl e \<Rightarrow> dns_result ''SPF'' ''fail'' ''v=spf1 ...'' [] (''No TXT records found: '' @ e)
   | Inr txts \<Rightarrow> (case find (\<lambda>t. HasPrefix t ''v=spf1'') txts of
       Some t \<Rightarrow> dns_result ''SPF'' ''pass'' ''v=spf1 ...'' t ''SPF record found''
     | None \<Rightarrow> dns_result ''SPF'' ''fail'' ''v=spf1 mx -all'' [] ''No SPF record found''))"

definition check_dkim :: "admin_env \<Rightarrow> string \<Rightarrow> dns_check_result" where
  "check_dkim env domain =
     (let dkimDomain = ''mail._domainkey.'' @ domain
      in case ax_lookupTXT env dkimDomain of
        Inl e \<Rightarrow> dns_result ''DKIM'' ''fail'' ''v=DKIM1; ...'' [] (''No DKIM record found at '' @ dkimDomain)
      | Inr txts \<Rightarrow> (case find (\<lambda>t. Contains t ''DKIM1'' \<or> Contains t ''p='') txts of
          Some t \<Rightarrow> dns_result ''DKIM'' ''pass'' ''v=DKIM1; ...'' (take (min (length t) 50) t @ ''...'') ''DKIM record found''
        | None \<Rightarrow> dns_result ''DKIM'' ''fail'' ''v=DKIM1; k=rsa; p=...'' [] ''Invalid DKIM record''))"

definition check_dmarc :: "admin_env \<Rightarrow> string \<Rightarrow> dns_check_result" where
  "check_dmarc env domain = (case ax_lookupTXT env (''_dmarc.'' @ domain) of
     Inl e \<Rightarrow> dns_result ''DMARC'' ''warning'' ''v=DMARC1; ...'' [] ''No DMARC record found (recommended)''
   | Inr txts \<Rightarrow> (case find (\<lambda>t. HasPrefix t ''v=DMARC1'') txts of
       Some t \<Rightarrow> dns_result ''DMARC'' ''pass'' ''v=DMARC1; ...'' t ''DMARC record found''
     | None \<Rightarrow> dns_result ''DMARC'' ''warning'' ''v=DMARC1; p=quarantine; ...'' [] ''Invalid DMARC record''))"

definition handleDNSCheck :: "admin_server \<Rightarrow> admin_env \<Rightarrow> string \<Rightarrow> admin_request \<Rightarrow> 'r ahandler" where
  "handleDNSCheck srv env csrf r =
     (let domain = lookup_first (aq_Query r) ''domain''
      in if domain = [] then retS (renderTemplate csrf ''dns_check.html'' [(''Title'', PText ''DNS Check'')])
         else retS (renderTemplate csrf ''dns_check.html'' [(''Title'', PText ''DNS Check''), (''Domain'', PText domain),
           (''Results'', PDNS [check_mx env (as_hostname srv) domain, check_spf env domain, check_dkim env domain, check_dmarc env domain])]))"

fun base36 :: "nat \<Rightarrow> string" where
  "base36 n = (let d = (if n mod 36 < 10 then char_of (48 + n mod 36) else char_of (87 + n mod 36 :: nat))
     in if n < 36 then [d] else base36 (n div 36) @ [d])"

declare base36.simps [simp del]

definition admin_messageID :: "admin_env \<Rightarrow> string \<Rightarrow> string" where
  "admin_messageID env domain = ax_stamp env @ ''.'' @ base36 (nat (ax_now env)) @ ''@'' @ domain"

definition CRLF :: string where
  "CRLF = [CHR 0x0D, CHR 0x0A]"

definition test_message :: "admin_server \<Rightarrow> admin_env \<Rightarrow> string \<Rightarrow> string" where
  "test_message srv env recipient =
     ''From: postmaster@'' @ as_domain srv @ CRLF @ ''To: '' @ recipient @ CRLF @ ''Subject: Test Email from '' @ as_hostname srv @ CRLF @
     ''Message-ID: <'' @ admin_messageID env (as_domain srv) @ ''>'' @ CRLF @ ''Date: '' @ ax_rfc1123z env @ CRLF @
     ''MIME-Version: 1.0'' @ CRLF @ ''Content-Type: text/plain; charset=utf-8'' @ CRLF @ CRLF @
     ''This is a test email sent from the mail server admin panel.'' @ LF @ LF @
     ''Server: '' @ as_hostname srv @ LF @ ''Time: '' @ ax_rfc1123 env @ LF @ LF @
     ''If you received this email, your mail server is working correctly!''"

definition test_page :: "string \<Rightarrow> (string \<times> page_value) list \<Rightarrow> admin_reply" where
  "test_page csrf data = renderTemplate csrf ''test_email.html'' ((''Title'', PText ''Send Test Email'') # data)"

definition test_entry :: "admin_server \<Rightarrow> string \<Rightarrow> string \<Rightarrow> int \<Rightarrow> message" where
  "test_entry srv recipient path sz =
     (let parts = Split recipient (CHR ''@'')
      in \<lparr>msg_ID = [], msg_Sender = ''postmaster@'' @ as_domain srv, msg_Recipients = [recipient], msg_MessagePath = path, msg_Size = sz,
          msg_Attempts = 0, msg_MaxAttempts = 0, msg_LastAttempt = None, msg_NextAttempt = None, msg_LastError = [], msg_Status = StatusPending,
          msg_CreatedAt = None, msg_Domain = (if length parts = 2 then parts ! 1 else [])\<rparr>)"

text \<open>A write to the temporary file that fails is not noticed.\<close>

definition write_temp :: "admin_env \<Rightarrow> string \<Rightarrow> ('r admin_state, string, string) sproc" where
  "write_temp env content = (case ax_tempFile env of
     Inl e \<Rightarrow> failS e
   | Inr path \<Rightarrow> bindS (modifyS (\<lambda>y. y\<lparr>ad_tmp := ad_tmp y @ [(path, if ax_written env then content else [])]\<rparr>)) (\<lambda>_. retS path))"

definition handleTestEmail :: "('d, 'r) redis \<Rightarrow> admin_server \<Rightarrow> admin_env \<Rightarrow> string \<Rightarrow> admin_request \<Rightarrow> 'r ahandler" where
  "handleTestEmail R srv env csrf r =
     (if aq_Method r = ''GET'' then retS (test_page csrf [])
      else
     bindS (ParseForm r) (\<lambda>_.
     (let recipient = FormValue r ''recipient''; msg = test_message srv env recipient
      in
     bindS (guardA (recipient \<noteq> []) (test_page csrf [(''Error'', PError ''Recipient email is required'' None)])) (\<lambda>_.
     case as_queue srv of
       None \<Rightarrow> retS (test_page csrf [(''Error'', PError ''Queue not configured - cannot send email'' None)])
     | Some q \<Rightarrow>
     bindS (mapErrS (\<lambda>e. test_page csrf [(''Error'', PError ''Failed to create message file: '' (Some (ByText e)))]) (write_temp env msg)) (\<lambda>path.
     bindS (orElse (liftQ (Enqueue R q False (ax_msgRand env) (ax_now env) (Some (test_entry srv recipient path (int (length msg))))))
              (\<lambda>e. bindS (modifyS (\<lambda>y. y\<lparr>ad_tmp := [f \<leftarrow> ad_tmp y. fst f \<noteq> path]\<rparr>)) (\<lambda>_.
                failS (test_page csrf [(''Error'', PError ''Failed to queue message: '' (Some (ByQueue e)))])))) (\<lambda>_.
     retS (test_page csrf [(''Success'', PText (''Test email queued for delivery to '' @ recipient))])))))))"

section \<open>Routes\<close>

definition open_patterns :: "string list" where
  "open_patterns = [''/health'', ''/healthz'', ''/ready'', ''/metrics'', ''/admin/login'', ''/admin/logout'']"

definition admin_patterns :: "string list" where
  "admin_patterns = open_patterns @ [''/admin/'', ''/admin/users'', ''/admin/users/add'', ''/admin/users/edit/'', ''/admin/users/delete/'',
     ''/admin/domains'', ''/admin/domains/add'', ''/admin/domains/delete/'', ''/admin/sieve/'', ''/admin/logs/auth'', ''/admin/logs/delivery'',
     ''/admin/logs/audit'', ''/admin/queue'', ''/admin/queue/retry/'', ''/admin/queue/delete/'', ''/admin/api/stats'', ''/admin/tools/dns'',
     ''/admin/tools/test-email'']"

definition open_handler :: "argon2 \<Rightarrow> ('d, 'r) redis \<Rightarrow> admin_server \<Rightarrow> admin_env \<Rightarrow> string \<Rightarrow> admin_request \<Rightarrow> string \<Rightarrow> 'r ahandler" where
  "open_handler A R srv env csrf r q =
     (if q = ''/admin/login'' then handleLogin A srv env csrf r
      else if q = ''/admin/logout'' then handleLogout r
      else if q = ''/ready'' then handleReady
      else if q = ''/metrics'' then retS (Reply \<lparr>rs_Status = 200, rs_Header = [], rs_Body = ax_metrics env\<rparr>)
      else handleHealth R srv env)"

definition admin_handler :: "argon2 \<Rightarrow> ('d, 'r) redis \<Rightarrow> admin_server \<Rightarrow> admin_env \<Rightarrow> string \<Rightarrow> admin_request \<Rightarrow> string \<Rightarrow> 'r ahandler" where
  "admin_handler A R srv env csrf r q =
     (if q = ''/admin/users'' then handleUsers csrf
      else if q = ''/admin/users/add'' then handleUserAdd A srv env csrf r
      else if q = ''/admin/users/edit/'' then handleUserEdit A srv env csrf r
      else if q = ''/admin/users/delete/'' then handleUserDelete srv env r
      else if q = ''/admin/domains'' then handleDomains csrf
      else if q = ''/admin/domains/add'' then handleDomainAdd srv env csrf r
      else if q = ''/admin/domains/delete/'' then handleDomainDelete srv env r
      else if q = ''/admin/sieve/'' then handleSieve srv csrf r
      else if q = ''/admin/logs/auth'' then handleAuthLogs csrf
      else if q = ''/admin/logs/delivery'' then handleDeliveryLogs csrf
      else if q = ''/admin/logs/audit'' then handleAuditLogs srv csrf r
      else if q = ''/admin/queue'' then handleQueue R srv csrf
      else if q = ''/admin/queue/retry/'' then handleQueueRetry R srv env r
      else if q = ''/admin/queue/delete/'' then handleQueueDelete R srv env r
      else if q = ''/admin/api/stats'' then handleAPIStats R srv
      else if q = ''/admin/tools/dns'' then handleDNSCheck srv env csrf r
      else if q = ''/admin/tools/test-email'' then handleTestEmail R srv env csrf r
      else handleDashboard R srv csrf r)"

definition admin_mux :: "argon2 \<Rightarrow> ('d, 'r) redis \<Rightarrow> admin_server \<Rightarrow> admin_env \<Rightarrow> string \<Rightarrow> admin_request \<Rightarrow> 'r ahandler" where
  "admin_mux A R srv env csrf r = (case mux_route admin_patterns (aq_Path r) of
     NoRoute \<Rightarrow> failS not_found
   | RedirectTo url \<Rightarrow> retS (Reply (http_Redirect (aq_Method r) (url @ (if aq_RawQuery r = [] then [] else ''?'' @ aq_RawQuery r)) 301))
   | Route q \<Rightarrow> if q \<in> set open_patterns then open_handler A R srv env csrf r q
                else withAuth env r (admin_handler A R srv env csrf r q))"

definition serve_admin :: "argon2 \<Rightarrow> ('d, 'r) redis \<Rightarrow> admin_server \<Rightarrow> admin_env \<Rightarrow> admin_request \<Rightarrow> 'r admin_state \<Rightarrow> 'r admin_state \<times> full_reply" where
  "serve_admin A R srv env = withSecurityHeaders (withCSRF env (admin_mux A R srv env))"

end
