(* ===== verification/Admin_Safety.thy ===== *)
theory Admin_Safety
  imports Admin_Server
begin

text \<open>
  What the web interface guarantees: who can change accounts, where sessions come from, that the constraints of the tables hold, and what
  is written to the audit log.
\<close>

lemma TrimSpace_idem: "TrimSpace (TrimSpace s) = TrimSpace s"
proof (cases "TrimSpace s = []")
  case True
  show ?thesis unfolding True by (simp add: TrimSpace_def)
next
  case False
  let ?t = "dropWhile is_space s"
  obtain b where b: "?t = TrimSpace s @ b"
    using takeWhile_dropWhile_id [of is_space "rev ?t"] unfolding TrimSpace_def by (metis rev_append rev_rev_ident)
  have "?t \<noteq> []" using False unfolding TrimSpace_def by (metis dropWhile.simps(1) rev.simps(1))
  then have "\<not> is_space (hd (TrimSpace s))" using False b hd_dropWhile [of is_space s] by (metis hd_append2)
  then show ?thesis using False TrimSpace_last by (intro TrimSpace_id) auto
qed

section \<open>What a handler can do to the state\<close>

text \<open>The patterns of the handlers that change users or domains.\<close>

definition changing :: "string list" where
  "changing = [''/admin/users/add'', ''/admin/users/edit/'', ''/admin/users/delete/'', ''/admin/domains/add'', ''/admin/domains/delete/'']"

text \<open>A relation between states that holds of the statements that the handlers behind the log-in run holds of the handlers themselves. First
  the statements of all handlers but those of users and domains, the logger apart.\<close>

abbreviation after_fault :: "'r admin_state \<Rightarrow> 'r admin_state" where
  "after_fault y \<equiv> y\<lparr>ad_world := fst (Mail_World.next_fault (ad_world y))\<rparr>"

locale admin_reads = state_rel R for R :: "'r admin_state \<Rightarrow> 'r admin_state \<Rightarrow> bool" +
  assumes fault: "R y (after_fault y)"
    and redis: "R y (y\<lparr>ad_redis := d\<rparr>)"
    and files: "R y (y\<lparr>ad_tmp := fs\<rparr>)"
    and scripts: "stepsS R (script_create i n c)" "stepsS R (script_update i n c)" "stepsS R (script_delete i n)" "stepsS R (script_activate i n)"
begin

lemma queryA: "stepsS R (queryA f)"
  unfolding stepsS_def
proof
  fix y :: "'r admin_state"
  obtain w e where n: "Mail_World.next_fault (ad_world y) = (w, e)" by fastforce
  then show "R y (fst (queryA f y))" using fault [of y] by (simp add: queryA_def split: option.split)
qed

lemma with_fault: "(\<And>x. stepsS R (f x)) \<Longrightarrow> stepsS R (with_fault f)"
  unfolding stepsS_def with_fault_def
proof
  fix y :: "'r admin_state"
  assume f: "\<And>x. \<forall>y. R y (fst (f x y))"
  obtain w e where n: "Mail_World.next_fault (ad_world y) = (w, e)" by fastforce
  have "R y (y\<lparr>ad_world := w\<rparr>)" using fault [of y] n by simp
  with f show "R y (fst (case Mail_World.next_fault (ad_world y) of (w, fault) \<Rightarrow> f fault (y\<lparr>ad_world := w\<rparr>)))"
    by (simp add: n trans)
qed

lemma execA:
  assumes "\<And>y y' x. f y = Inr (y', x) \<Longrightarrow> R y y'"
  shows "stepsS R (execA f)"
  unfolding stepsS_def
proof
  fix y :: "'r admin_state"
  obtain w e where n: "Mail_World.next_fault (ad_world y) = (w, e)" by fastforce
  have "R y (y\<lparr>ad_world := w\<rparr>)" using fault [of y] n by simp
  then show "R y (fst (execA f y))"
    unfolding execA_def using n assms [of "y\<lparr>ad_world := w\<rparr>"] by (auto split: option.split sum.split intro: trans)
qed

lemma liftQ: "stepsS R (liftQ m)"
  by (auto simp: stepsS_def liftQ_def redis split: prod.split)

lemma ignoreA: "stepsS R m \<Longrightarrow> stepsS R (ignoreA m)"
  unfolding ignoreA_def by (intro orElse bindS retS)

lemma guardA: "stepsS R (guardA b q)"
  unfolding guardA_def by (intro ifS retS failS)

lemma optS: "stepsS R m \<Longrightarrow> (\<And>x. stepsS R (k x)) \<Longrightarrow> stepsS R (case z of None \<Rightarrow> m | Some x \<Rightarrow> k x)"
  by (cases z) simp_all

lemma fail_first: "stepsS R (bindS (failS e) k)"
  by (simp add: stepsS_def bindS_def failS_def same)

lemma path_id: "stepsS R (path_id k what r)"
  unfolding path_id_def Let_def by (intro bindS guardA optS retS failS)

lemma files_changed: "(\<And>y. \<exists>fs. f y = y\<lparr>ad_tmp := fs\<rparr>) \<Longrightarrow> stepsS R (modifyS f)"
  by (simp add: stepsS_def modifyS_def) (metis files)

lemmas steps = retS failS bindS orElse mapErrS ifS optS queryA with_fault liftQ ignoreA guardA path_id scripts

lemma getStats: "stepsS R (getStats RQ srv)"
  unfolding getStats_def queue_counts_def by (intro steps) (auto intro!: steps split: prod.split)

lemma handleSieve: "stepsS R (handleSieve srv csrf r)"
  unfolding handleSieve_def script_list_def ParseForm_def Let_def by (intro steps) (simp add: stepsS_def same)

lemma handleAuditLogs: "stepsS R (handleAuditLogs srv csrf r)"
  unfolding handleAuditLogs_def by (intro steps) (simp add: stepsS_def same)

lemma queue_target: "stepsS R (queue_target srv r)"
  unfolding queue_target_def only_post_def Let_def by (intro steps)

lemma handleQueueRetry: "stepsS R (handleQueueRetry RQ srv env r)"
  unfolding handleQueueRetry_def by (intro steps queue_target) (auto intro!: steps split: prod.split)

lemma handleQueueDelete: "stepsS R (handleQueueDelete RQ srv env r)"
  unfolding handleQueueDelete_def by (intro steps queue_target) (auto intro!: steps split: prod.split)

lemma handleQueue: "stepsS R (handleQueue RQ srv csrf)"
  unfolding handleQueue_def listed_def by (intro steps)

lemma handleTestEmail: "stepsS R (handleTestEmail RQ srv env csrf r)"
proof -
  have "stepsS R (write_temp env c)" for c
    by (cases "ax_tempFile env") (auto simp: write_temp_def intro!: steps files_changed)
  then show ?thesis
    unfolding handleTestEmail_def ParseForm_def Let_def by (intro steps files_changed) auto
qed

lemma reading_handlers: "q \<notin> set changing \<Longrightarrow> stepsS R (admin_handler A RQ srv env csrf r q)"
  unfolding admin_handler_def changing_def list.set insert_iff empty_iff de_Morgan_disj
  by (simp only: if_False simp_thms, intro ifS handleSieve handleAuditLogs handleQueue handleQueueRetry handleQueueDelete handleTestEmail)
    (simp_all only: handleUsers_def handleDomains_def handleAuthLogs_def handleDeliveryLogs_def handleAPIStats_def handleDNSCheck_def
      handleDashboard_def Let_def, (intro steps getStats)+)

end

text \<open>Then the logger and the statements on users and domains.\<close>

locale admin_rel = admin_reads R for R :: "'r admin_state \<Rightarrow> 'r admin_state \<Rightarrow> bool" +
  assumes logged: "R y (y\<lparr>ad_audit := l\<rparr>)"
    and admins: "set_admin i b y = Inr (y', u) \<Longrightarrow> R y y'"
    and users: "R y (delete_users P y)"
    and domains: "R y (delete_domain i y)"
    and new_domain: "domain_name_ok name \<Longrightarrow> insert_domain name y = Inr (y', u) \<Longrightarrow> R y y'"
    and create: "stepsS R (liftW (CreateUser A salt n p i))"
    and update: "stepsS R (liftW (UpdatePassword A salt i p))"
    and boxes: "stepsS R (liftW (InitializeUserMailboxes i now))"
begin

lemma audit: "stepsS R (audit srv env r actor action target details)"
  unfolding stepsS_def
proof
  fix y
  have "R y (y\<lparr>ad_world := fst (Mail_World.next_fault (ad_world y)), ad_audit := l\<rparr>)" for l
    using trans [OF fault [of y] logged] by simp
  then show "R y (fst (audit srv env r actor action target details y))"
    using logged by (auto simp: audit_def split: prod.split)
qed

lemma audit_admin: "stepsS R (audit_admin srv env r action target details)"
  unfolding stepsS_def audit_admin_def by (intro allI audit [unfolded stepsS_def, rule_format])

lemmas all_steps = steps audit_admin create update boxes

lemma handleUserAdd: "stepsS R (handleUserAdd A srv env csrf r)"
  unfolding handleUserAdd_def user_form_def ParseForm_def Let_def by (intro all_steps execA admins)

lemma handleUserEdit: "stepsS R (handleUserEdit A srv env csrf r)"
  unfolding handleUserEdit_def user_edit_page_def change_password_def ParseForm_def Let_def by (intro all_steps execA admins)

lemma handleUserDelete: "stepsS R (handleUserDelete srv env r)"
  unfolding handleUserDelete_def only_post_def by (intro all_steps execA) (auto intro: users)

lemma handleDomainDelete: "stepsS R (handleDomainDelete srv env r)"
  unfolding handleDomainDelete_def only_post_def by (intro all_steps execA) (auto intro: domains)

lemma handleDomainAdd: "stepsS R (handleDomainAdd srv env csrf r)"
proof (cases "Domain (TrimSpace (ToLower (FormValue r ''name'')))")
  case None
  then have "domain_name_ok (TrimSpace (ToLower (FormValue r ''name'')))" by (simp add: domain_name_ok_def lower_trim TrimSpace_idem)
  then show ?thesis
    unfolding handleDomainAdd_def ParseForm_def Let_def by (intro all_steps execA new_domain)
next
  case (Some e)
  then show ?thesis unfolding handleDomainAdd_def ParseForm_def Let_def by (simp only: option.case) (intro all_steps fail_first)
qed

lemma handlers: "stepsS R (admin_handler A RQ srv env csrf r q)"
proof (cases "q \<in> set changing")
  case True
  then show ?thesis
    unfolding admin_handler_def changing_def list.set insert_iff empty_iff
    by (elim disjE) (simp_all add: handleUserAdd handleUserEdit handleUserDelete handleDomainAdd handleDomainDelete)
next
  case False
  then show ?thesis by (rule reading_handlers)
qed

end

section \<open>Scripts\<close>

text \<open>What the operations on scripts can do: only scripts of users that exist are new, and the constraints of the store are kept.\<close>

definition script_move :: "'r admin_state \<Rightarrow> 'r admin_state \<Rightarrow> bool" where
  "script_move y y' \<longleftrightarrow> (\<exists>w s n. same_world (ad_world y) w \<and> (w_faults (ad_world y) = [] \<longrightarrow> w_faults w = []) \<and> y' = y\<lparr>ad_world := w, ad_scripts := s, ad_script_seq := n\<rparr> \<and>
     (Sieve_Exec.store_ok (ad_scripts y) \<longrightarrow> Sieve_Exec.store_ok s) \<and> sc_user ` set s \<subseteq> sc_user ` set (ad_scripts y) \<union> u_id ` set (w_users (ad_world y)))"

lemma script_moveI:
  assumes "Sieve_Exec.store_ok (ad_scripts y) \<Longrightarrow> Sieve_Exec.store_ok s"
    "sc_user ` set s \<subseteq> sc_user ` set (ad_scripts y) \<union> u_id ` set (w_users (ad_world y))"
    "y' = y\<lparr>ad_scripts := s, ad_script_seq := n\<rparr>"
  shows "script_move y y'"
  unfolding script_move_def using assms by (intro exI [of _ "ad_world y"] exI [of _ s] exI [of _ n]) simp

lemma script_move_trans:
  assumes "script_move y y1" "script_move y1 y2"
  shows "script_move y y2"
proof -
  from assms(1) obtain w s n where 1: "same_world (ad_world y) w" "w_faults (ad_world y) = [] \<longrightarrow> w_faults w = []"
    "Sieve_Exec.store_ok (ad_scripts y) \<longrightarrow> Sieve_Exec.store_ok s" "sc_user ` set s \<subseteq> sc_user ` set (ad_scripts y) \<union> u_id ` set (w_users (ad_world y))"
    and y1: "y1 = y\<lparr>ad_world := w, ad_scripts := s, ad_script_seq := n\<rparr>"
    unfolding script_move_def by blast
  from assms(2) y1 obtain w' s' n' where 2: "same_world w w'" "w_faults w = [] \<longrightarrow> w_faults w' = []"
    "Sieve_Exec.store_ok s \<longrightarrow> Sieve_Exec.store_ok s'" "sc_user ` set s' \<subseteq> sc_user ` set s \<union> u_id ` set (w_users w)"
    "y2 = y\<lparr>ad_world := w', ad_scripts := s', ad_script_seq := n'\<rparr>"
    unfolding script_move_def by auto
  have "sc_user ` set s' \<subseteq> sc_user ` set (ad_scripts y) \<union> u_id ` set (w_users (ad_world y))"
    using 1(4) 2(4) [unfolded same_worldD(2) [OF 1(1)]] by (meson Un_least order_trans sup.cobounded2)
  then show ?thesis
    unfolding script_move_def using 1(2,3) 2(2,3,5) same_world_trans [OF 1(1) 2(1)]
    by (intro exI [of _ w'] exI [of _ s'] exI [of _ n']) simp
qed

lemma script_move_refl: "script_move y y"
  by (rule script_moveI [of _ "ad_scripts y" _ "ad_script_seq y"]) simp_all

interpretation scm: state_rel script_move
  by unfold_locales (rule script_move_refl, rule script_move_trans)

lemma script_fault:
  assumes "\<And>x. stepsS script_move (f x :: ('r admin_state, 'e, 'a) sproc)"
  shows "stepsS script_move (with_fault f)"
  unfolding stepsS_def
proof
  fix y :: "'r admin_state"
  obtain w x where n: "Mail_World.next_fault (ad_world y) = (w, x)" by fastforce
  have "script_move y (y\<lparr>ad_world := w\<rparr>)"
    unfolding script_move_def using next_fault_same [OF n] n no_faults [of "ad_world y"]
    by (intro exI [of _ w] exI [of _ "ad_scripts y"] exI [of _ "ad_script_seq y"]) auto
  moreover have "script_move (y\<lparr>ad_world := w\<rparr>) (fst (f x (y\<lparr>ad_world := w\<rparr>)))" using assms by (simp add: stepsS_def)
  ultimately show "script_move y (fst (with_fault f y))" unfolding with_fault_def by (simp add: n script_move_trans)
qed

lemma script_row_users:
  "sc_user ` set (fst (UpdateScript i name content fault rows)) \<subseteq> sc_user ` set rows"
  "sc_user ` set (fst (DeleteScript i name fault rows)) \<subseteq> sc_user ` set rows"
  "sc_user ` set (fst (SetActiveScript i name faults rows)) \<subseteq> sc_user ` set rows"
  by (auto simp: UpdateScript_def DeleteScript_def SetActiveScript_def Let_def split: sum.split option.split prod.split)

lemma script_rows_move:
  assumes "\<And>rows. Sieve_Exec.store_ok rows \<Longrightarrow> Sieve_Exec.store_ok (fst (f rows))" "\<And>rows. sc_user ` set (fst (f rows)) \<subseteq> sc_user ` set rows"
  shows "stepsS script_move (\<lambda>y :: 'r admin_state. case f (ad_scripts y) of (rows, e) \<Rightarrow> (y\<lparr>ad_scripts := rows\<rparr>, g e))"
  unfolding stepsS_def
proof
  fix y :: "'r admin_state"
  show "script_move y (fst (case f (ad_scripts y) of (rows, e) \<Rightarrow> (y\<lparr>ad_scripts := rows\<rparr>, g e)))"
    by (rule script_moveI [of _ "fst (f (ad_scripts y))" _ "ad_script_seq y"])
      (use assms [of "ad_scripts y"] in \<open>auto split: prod.split\<close>)
qed

lemma script_ops:
  "stepsS script_move (script_create i name content :: ('r admin_state, store_error, unit) sproc)" "stepsS script_move (script_update i name content :: ('r admin_state, store_error, unit) sproc)"
  "stepsS script_move (script_delete i name)" "stepsS script_move (script_activate i name)"
proof -
  have "stepsS script_move (\<lambda>y :: 'r admin_state. let fk = (if list_ex (\<lambda>u. u_id u = i) (w_users (ad_world y)) then None else Some ''FOREIGN KEY constraint failed'')
          in case CreateScript (ad_script_seq y + 1) i name content (case fault of None \<Rightarrow> fk | Some e \<Rightarrow> fault) (ad_scripts y) of
               (rows, Inl e) \<Rightarrow> (y\<lparr>ad_scripts := rows\<rparr>, Inl e)
             | (rows, Inr s) \<Rightarrow> (y\<lparr>ad_scripts := rows, ad_script_seq := ad_script_seq y + 1\<rparr>, Inr ()))" for fault
    unfolding stepsS_def
  proof
    fix y :: "'r admin_state"
    let ?f = "case fault of None \<Rightarrow> (if list_ex (\<lambda>u. u_id u = i) (w_users (ad_world y)) then None else Some ''FOREIGN KEY constraint failed'') | Some e \<Rightarrow> fault"
    let ?c = "CreateScript (ad_script_seq y + 1) i name content ?f (ad_scripts y)"
    have "sc_user ` set (fst ?c) \<subseteq> sc_user ` set (ad_scripts y) \<union> u_id ` set (w_users (ad_world y))"
      by (auto simp: CreateScript_def Let_def list_ex_iff split: sum.split option.split)
    then have "script_move y (y\<lparr>ad_scripts := fst ?c, ad_script_seq := n\<rparr>)" for n
      by (intro script_moveI [OF store_ok_create]) simp_all
    from this [of "ad_script_seq y"] this [of "ad_script_seq y + 1"] show "script_move y (fst (let fk = (if list_ex (\<lambda>u. u_id u = i) (w_users (ad_world y)) then None else Some ''FOREIGN KEY constraint failed'')
          in case CreateScript (ad_script_seq y + 1) i name content (case fault of None \<Rightarrow> fk | Some e \<Rightarrow> fault) (ad_scripts y) of
               (rows, Inl e) \<Rightarrow> (y\<lparr>ad_scripts := rows\<rparr>, Inl e)
             | (rows, Inr s) \<Rightarrow> (y\<lparr>ad_scripts := rows, ad_script_seq := ad_script_seq y + 1\<rparr>, Inr ())))"
      by (cases ?c; cases "snd ?c") (simp_all add: Let_def)
  qed
  then show "stepsS script_move (script_create i name content :: ('r admin_state, store_error, unit) sproc)"
    unfolding script_create_def by (cases "ValidateScript content") (simp_all add: scm.failS script_fault)
  have "stepsS script_move (\<lambda>y :: 'r admin_state. case UpdateScript i name content fault (ad_scripts y) of (rows, e) \<Rightarrow> (y\<lparr>ad_scripts := rows\<rparr>, to_result e))" for fault
    by (rule script_rows_move) (simp_all add: store_ok_update script_row_users)
  then show "stepsS script_move (script_update i name content :: ('r admin_state, store_error, unit) sproc)"
    unfolding script_update_def by (cases "ValidateScript content") (simp_all add: scm.failS script_fault)
  show "stepsS script_move (script_delete i name)"
    unfolding script_delete_def by (intro script_fault script_rows_move) (simp_all add: store_ok_delete script_row_users)
  have act: "stepsS script_move (activate i name f1 f2 f3 f4)" for f1 f2 f3 f4
    unfolding activate_def by (rule script_rows_move) (simp_all add: store_ok_activate script_row_users)
  show "stepsS script_move (script_activate i name)"
    unfolding script_activate_def by (intro script_fault scm.ifS act)
qed

section \<open>The constraints of the tables\<close>

text \<open>Keys are unique, every reference has its row, and domain names are normal.\<close>

abbreviation user_ids :: "world \<Rightarrow> int set" where
  "user_ids w \<equiv> u_id ` set (w_users w)"

definition refs_ok :: "world \<Rightarrow> bool" where
  "refs_ok w \<longleftrightarrow> accounts_ok w \<and> u_domain_id ` set (w_users w) \<subseteq> d_id ` set (w_domains w) \<and>
     a_domain_id ` set (w_aliases w) \<subseteq> d_id ` set (w_domains w) \<and>
     (\<forall>a\<in>set (w_aliases w). \<forall>i. a_destination_user_id a = Some i \<longrightarrow> i \<in> user_ids w) \<and>
     mb_UserID ` set (w_mailboxes w) \<subseteq> user_ids w \<and>
     mr_mailbox_id ` set (w_messages w) \<subseteq> mb_ID ` set (w_mailboxes w)"

definition admin_ok :: "'r admin_state \<Rightarrow> bool" where
  "admin_ok y \<longleftrightarrow> refs_ok (ad_world y) \<and> list_all (\<lambda>d. d_id d \<le> ad_domain_seq y) (w_domains (ad_world y)) \<and>
     set (ad_admins y) \<subseteq> user_ids (ad_world y) \<and>
     Sieve_Exec.store_ok (ad_scripts y) \<and> sc_user ` set (ad_scripts y) \<subseteq> user_ids (ad_world y)"

lemma refs_okD:
  assumes "refs_ok w"
  shows "accounts_ok w" "u_domain_id ` set (w_users w) \<subseteq> d_id ` set (w_domains w)" "a_domain_id ` set (w_aliases w) \<subseteq> d_id ` set (w_domains w)"
    "a \<in> set (w_aliases w) \<Longrightarrow> a_destination_user_id a = Some i \<Longrightarrow> i \<in> user_ids w" "mb_UserID ` set (w_mailboxes w) \<subseteq> user_ids w"
    "mr_mailbox_id ` set (w_messages w) \<subseteq> mb_ID ` set (w_mailboxes w)"
  using assms by (simp_all add: refs_ok_def)

lemma admin_okD:
  assumes "admin_ok y"
  shows "refs_ok (ad_world y)" "list_all (\<lambda>d. d_id d \<le> ad_domain_seq y) (w_domains (ad_world y))" "set (ad_admins y) \<subseteq> user_ids (ad_world y)"
    "Sieve_Exec.store_ok (ad_scripts y)" "sc_user ` set (ad_scripts y) \<subseteq> user_ids (ad_world y)"
  using assms by (simp_all add: admin_ok_def)

lemma refs_ok_same: "same_world w w' \<Longrightarrow> refs_ok w' = refs_ok w"
  by (simp add: refs_ok_def accounts_ok_same same_worldD)

lemma admin_ok_world:
  assumes "refs_ok w" "user_ids (ad_world y) \<subseteq> user_ids w" "w_domains w = w_domains (ad_world y)" "admin_ok y"
  shows "admin_ok (y\<lparr>ad_world := w\<rparr>)"
proof -
  note d = admin_okD [OF assms(4)]
  show ?thesis
    using d(2,4) subset_trans [OF d(3) assms(2)] subset_trans [OF d(5) assms(2)] assms(1,3) by (simp add: admin_ok_def)
qed

lemma accounts_ok_filter:
  "accounts_ok w \<Longrightarrow> w_users w' = filter P (w_users w) \<Longrightarrow> w_domains w' = filter Q (w_domains w) \<Longrightarrow> w_user_seq w' = w_user_seq w \<Longrightarrow> accounts_ok w'"
  unfolding accounts_ok_def by (simp add: distinct_map_filter list_all_iff)

lemma delete_users_world:
  assumes "gone = u_id ` set (filter P (w_users (ad_world y)))"
  shows "w_users (ad_world (delete_users P y)) = [u \<leftarrow> w_users (ad_world y). \<not> P u]"
    "w_aliases (ad_world (delete_users P y)) = [a \<leftarrow> w_aliases (ad_world y). case a_destination_user_id a of None \<Rightarrow> True | Some i \<Rightarrow> i \<notin> gone]"
    "w_mailboxes (ad_world (delete_users P y)) = [b \<leftarrow> w_mailboxes (ad_world y). mb_UserID b \<notin> gone]"
    "w_messages (ad_world (delete_users P y)) = [m \<leftarrow> w_messages (ad_world y). mr_mailbox_id m \<notin> mb_ID ` set [b \<leftarrow> w_mailboxes (ad_world y). mb_UserID b \<in> gone]]"
    "ad_admins (delete_users P y) = [i \<leftarrow> ad_admins y. i \<notin> gone]" "ad_scripts (delete_users P y) = [s \<leftarrow> ad_scripts y. sc_user s \<notin> gone]"
    "w_domains (ad_world (delete_users P y)) = w_domains (ad_world y)" "w_user_seq (ad_world (delete_users P y)) = w_user_seq (ad_world y)"
    "ad_domain_seq (delete_users P y) = ad_domain_seq y"
  unfolding assms by (simp_all add: delete_users_def Let_def del: set_filter)

lemma filter_refs:
  "f ` set xs \<subseteq> g ` set bs \<Longrightarrow> f ` set [x \<leftarrow> xs. f x \<notin> g ` set [b \<leftarrow> bs. Q b]] \<subseteq> g ` set [b \<leftarrow> bs. \<not> Q b]"
  by fastforce

lemma delete_users_refs:
  assumes ok: "refs_ok (ad_world y)" and gone: "gone = u_id ` set (filter P (w_users (ad_world y)))"
  shows "refs_ok (ad_world (delete_users P y)) \<and> user_ids (ad_world (delete_users P y)) = user_ids (ad_world y) - gone"
proof -
  let ?w = "ad_world y"
  note d = refs_okD [OF ok] and new = delete_users_world [OF gone]
  have inj: "u = v" if "u \<in> set (w_users ?w)" "v \<in> set (w_users ?w)" "u_id u = u_id v" for u v
    using that d(1) distinct_map_eq [of u_id "w_users ?w" u v] by (simp add: accounts_ok_def)
  have kept: "u_id ` set [u \<leftarrow> w_users ?w. \<not> P u] = user_ids ?w - gone"
  proof
    show "u_id ` set [u \<leftarrow> w_users ?w. \<not> P u] \<subseteq> user_ids ?w - gone"
    proof
      fix i assume "i \<in> u_id ` set [u \<leftarrow> w_users ?w. \<not> P u]"
      then obtain u where u: "u \<in> set (w_users ?w)" "\<not> P u" "i = u_id u" by auto
      then have "i \<notin> gone" using inj [of u] gone by auto
      with u show "i \<in> user_ids ?w - gone" by simp
    qed
    show "user_ids ?w - gone \<subseteq> u_id ` set [u \<leftarrow> w_users ?w. \<not> P u]" unfolding gone set_filter by blast
  qed
  have acc: "accounts_ok (ad_world (delete_users P y))"
    by (rule accounts_ok_filter [OF d(1) new(1), where Q = "\<lambda>_. True"]) (simp_all add: new(7,8))
  have users: "u_domain_id ` set [u \<leftarrow> w_users ?w. \<not> P u] \<subseteq> d_id ` set (w_domains ?w)" using d(2) by auto
  have aliases: "a_domain_id ` set (filter Q (w_aliases ?w)) \<subseteq> d_id ` set (w_domains ?w)" for Q using d(3) by auto
  have boxes: "mb_UserID ` set [b \<leftarrow> w_mailboxes ?w. mb_UserID b \<notin> gone] \<subseteq> user_ids ?w - gone" using d(5) by auto
  have msgs: "mr_mailbox_id ` set [m \<leftarrow> w_messages ?w. mr_mailbox_id m \<notin> mb_ID ` set [b \<leftarrow> w_mailboxes ?w. mb_UserID b \<in> gone]]
      \<subseteq> mb_ID ` set [b \<leftarrow> w_mailboxes ?w. mb_UserID b \<notin> gone]"
    by (rule filter_refs [OF d(6)])
  have dest: "i \<in> user_ids ?w - gone"
    if "a \<in> set [a \<leftarrow> w_aliases ?w. case a_destination_user_id a of None \<Rightarrow> True | Some i \<Rightarrow> i \<notin> gone]" "a_destination_user_id a = Some i" for a i
    using that d(4) [of a i] by simp
  show ?thesis
    unfolding refs_ok_def new kept by (intro conjI refl acc users aliases boxes msgs ballI allI impI dest)
qed

lemma delete_users_ok:
  assumes ok: "admin_ok y"
  shows "admin_ok (delete_users P y)"
proof -
  define gone where "gone = u_id ` set (filter P (w_users (ad_world y)))"
  note d = admin_okD [OF ok] and new = delete_users_world [OF gone_def]
  note w = delete_users_refs [OF d(1) gone_def]
  show ?thesis
    unfolding admin_ok_def new(5,6,7,9) using w d store_ok_filter by (auto simp: gone_def)
qed

lemma delete_domain_ok:
  assumes "admin_ok y"
  shows "admin_ok (delete_domain i y)"
proof -
  let ?y = "delete_users (\<lambda>u. u_domain_id u = i) y"
  let ?w = "ad_world ?y"
  let ?w' = "?w\<lparr>w_domains := [d \<leftarrow> w_domains ?w. d_id d \<noteq> i], w_aliases := [a \<leftarrow> w_aliases ?w. a_domain_id a \<noteq> i]\<rparr>"
  have ok: "admin_ok ?y" by (rule delete_users_ok [OF assms])
  note d = admin_okD [OF ok] and r = refs_okD [OF admin_okD(1) [OF ok]]
  have "\<forall>u\<in>set (w_users ?w). u_domain_id u \<noteq> i" by (simp add: delete_users_def Let_def)
  then have "u_domain_id ` set (w_users ?w) \<subseteq> d_id ` set [d \<leftarrow> w_domains ?w. d_id d \<noteq> i]" using r(2) by fastforce
  moreover have "a_domain_id ` set [a \<leftarrow> w_aliases ?w. a_domain_id a \<noteq> i] \<subseteq> d_id ` set [d \<leftarrow> w_domains ?w. d_id d \<noteq> i]"
    using r(3) by fastforce
  moreover have "accounts_ok ?w'"
    by (rule accounts_ok_filter [OF r(1), where P = "\<lambda>_. True" and Q = "\<lambda>d. d_id d \<noteq> i"]) simp_all
  moreover have "j \<in> user_ids ?w" if "a \<in> set [a \<leftarrow> w_aliases ?w. a_domain_id a \<noteq> i]" "a_destination_user_id a = Some j" for a j
    using that r(4) [of a j] by simp
  ultimately have "refs_ok ?w'" unfolding refs_ok_def using r(5,6) by (simp del: set_filter)
  then show ?thesis using d(2-) unfolding delete_domain_def Let_def admin_ok_def by (simp add: list_all_iff)
qed

lemma insert_domain_ok:
  assumes "domain_name_ok name" "insert_domain name y = Inr (y', u)" "admin_ok y"
  shows "admin_ok y'"
proof -
  let ?w = "ad_world y"
  let ?w' = "?w\<lparr>w_domains := w_domains ?w @ [\<lparr>d_id = ad_domain_seq y + 1, d_name = name, d_active = True\<rparr>]\<rparr>"
  note d = admin_okD [OF assms(3)] and r = refs_okD [OF admin_okD(1) [OF assms(3)]]
  have y': "y' = y\<lparr>ad_domain_seq := ad_domain_seq y + 1, ad_world := ?w'\<rparr>" and n: "name \<notin> d_name ` set (w_domains ?w)"
    using assms(2) by (auto simp: insert_domain_def Let_def list_ex_iff split: if_splits)
  have le: "d_id x \<le> ad_domain_seq y" if "x \<in> set (w_domains ?w)" for x using d(2) that by (simp add: list_all_iff)
  then have "ad_domain_seq y + 1 \<notin> d_id ` set (w_domains ?w)" by fastforce
  then have "accounts_ok ?w'" using r(1) n assms(1) unfolding accounts_ok_def by simp
  then have "refs_ok ?w'" unfolding refs_ok_def using r by (simp add: subset_insertI2)
  then show ?thesis using d(3-) le unfolding y' admin_ok_def by (simp add: list_all_iff) fastforce
qed

lemma set_admin_ok: "set_admin i b y = Inr (y', u) \<Longrightarrow> admin_ok y \<Longrightarrow> admin_ok y'"
  unfolding set_admin_def admin_ok_def by (simp add: list_ex_iff split: if_splits) (use set_removeAll in \<open>fastforce\<close>)+

text \<open>Methods of accounts and mailboxes.\<close>

definition boxes_kept :: "world \<Rightarrow> world \<Rightarrow> bool" where
  "boxes_kept w w' \<longleftrightarrow> (refs_ok w \<longrightarrow> refs_ok w') \<and> w_users w' = w_users w \<and> w_domains w' = w_domains w"

interpretation bxk: step_rel boxes_kept
  by unfold_locales (simp_all add: boxes_kept_def refs_ok_same same_worldD)

lemma boxes_keptI:
  assumes "w_users w' = w_users w" "w_domains w' = w_domains w" "w_aliases w' = w_aliases w" "w_user_seq w' = w_user_seq w"
    "refs_ok w \<Longrightarrow> mb_UserID ` set (w_mailboxes w') \<subseteq> user_ids w" "refs_ok w \<Longrightarrow> mr_mailbox_id ` set (w_messages w') \<subseteq> mb_ID ` set (w_mailboxes w')"
  shows "boxes_kept w w'"
  using assms by (simp add: boxes_kept_def refs_ok_def accounts_ok_def)

lemma insert_mailbox_kept:
  assumes "insert_mailbox userID name v su now w = Inr (w', i)"
  shows "boxes_kept w w'"
  using assms by (intro boxes_keptI) (auto simp: insert_mailbox_def Let_def refs_ok_def list_ex_iff image_subset_iff split: if_splits)

lemma delete_mailbox_kept: "boxes_kept w (delete_mailbox_rows i w)"
proof (rule boxes_keptI)
  assume "refs_ok w"
  note r = refs_okD(5,6) [OF this]
  show "mb_UserID ` set (w_mailboxes (delete_mailbox_rows i w)) \<subseteq> user_ids w" using r(1) by (auto simp: delete_mailbox_rows_def)
  show "mr_mailbox_id ` set (w_messages (delete_mailbox_rows i w)) \<subseteq> mb_ID ` set (w_mailboxes (delete_mailbox_rows i w))"
    using r(2) by (fastforce simp: delete_mailbox_rows_def)
qed (simp_all add: delete_mailbox_rows_def)

lemma CreateMailbox_kept: "stepsM boxes_kept (CreateMailbox userID name su now)"
proof -
  have "stepsM boxes_kept (os_MkdirAll p)" for p
    unfolding os_MkdirAll_def by (rule bxk.execE) (simp add: boxes_keptI refs_okD)
  then have "stepsM boxes_kept (ensureMaildir p)" for p
    unfolding ensureMaildir_def by (intro bxk.mapErr bxk.bindE)
  then show ?thesis
    unfolding CreateMailbox_def Let_def
    by (intro bxk.bindE bxk.mapErr bxk.tryE bxk.onErr bxk.execE bxk.failE bxk.retE) (auto simp: delete_mailbox_kept dest: insert_mailbox_kept)
qed

lemma InitializeUserMailboxes_kept: "stepsM boxes_kept (InitializeUserMailboxes userID now)"
proof -
  have "stepsM boxes_kept (create_mailboxes userID now mbs)" for mbs
    by (induction userID now mbs rule: create_mailboxes.induct) (auto intro!: bxk.retE bxk.bindE bxk.mapErr CreateMailbox_kept)
  then show ?thesis by (simp add: InitializeUserMailboxes_def)
qed

lemma refs_ok_insert:
  assumes "refs_ok w" "insert_user domainID username h w = Inr (w', i)"
  shows "refs_ok w' \<and> user_ids w \<subseteq> user_ids w' \<and> w_domains w' = w_domains w"
proof -
  have "accounts_ok w'" by (rule accounts_ok_insert [OF refs_okD(1) [OF assms(1)] assms(2)])
  with refs_okD(2-) [OF assms(1)] assms(2) show ?thesis
    unfolding refs_ok_def by (auto simp: insert_user_def Let_def list_ex_iff image_subset_iff split: if_splits)
qed

lemma CreateUser_kept:
  assumes "CreateUser A salt n p i w = (w', r)" "refs_ok w"
  shows "refs_ok w' \<and> user_ids w \<subseteq> user_ids w' \<and> w_domains w' = w_domains w"
proof (cases r)
  case (Inl e)
  then have "same_world w w'" using assms(1)
    by (auto simp: CreateUser_def Let_def split: option.splits prod.splits sum.splits)
  then show ?thesis using assms(2) by (simp add: refs_ok_same same_worldD)
next
  case (Inr us)
  obtain b where "salt = Inr b"
  proof (cases salt)
    case (Inl e)
    with assms(1) Inr show ?thesis
      by (auto simp: CreateUser_def Let_def HashPassword_def bindE_Inr split: option.splits prod.splits sum.splits)
  qed
  with assms(1) Inr CreateUser_Inr [of A b n p i w w' us] obtain w1 w2 h where w1: "same_world w w1"
    and ins: "insert_user i (ToLower (TrimSpace n)) h w1 = Inr (w2, us_ID us)" and w2: "same_world w2 w'" by blast
  have "refs_ok w1" using assms(2) refs_ok_same [OF w1] by simp
  from refs_ok_insert [OF this ins] show ?thesis using refs_ok_same [OF w2] same_worldD [OF w1] same_worldD [OF w2] by simp
qed

lemma UpdatePassword_kept:
  assumes "UpdatePassword A salt i p w = (w', r)" "refs_ok w"
  shows "refs_ok w' \<and> user_ids w \<subseteq> user_ids w' \<and> w_domains w' = w_domains w"
proof -
  let ?f = "\<lambda>h. map (\<lambda>u. if u_id u = i then u\<lparr>u_password_hash := h\<rparr> else u)"
  have row: "u_id (if u_id u = i then u\<lparr>u_password_hash := h\<rparr> else u) = u_id u"
    "u_domain_id (if u_id u = i then u\<lparr>u_password_hash := h\<rparr> else u) = u_domain_id u"
    "u_username (if u_id u = i then u\<lparr>u_password_hash := h\<rparr> else u) = u_username u" for u h by simp_all
  have ids: "u_id ` set (?f h us) = u_id ` set us" "u_domain_id ` set (?f h us) = u_domain_id ` set us" for h us
    by (simp_all only: set_map image_image row)
  have upd: "refs_ok (w1\<lparr>w_users := ?f h (w_users w1)\<rparr>) = refs_ok w1" for w1 h
  proof -
    have "accounts_ok (w1\<lparr>w_users := ?f h (w_users w1)\<rparr>) = accounts_ok w1"
      by (simp add: accounts_ok_def comp_def row list.pred_map del: distinct_map)
    then show ?thesis by (simp add: refs_ok_def ids del: set_map)
  qed
  from assms(1) have "same_world w w' \<or> (\<exists>w1 h. same_world w w1 \<and> w' = w1\<lparr>w_users := ?f h (w_users w1)\<rparr>)"
    unfolding UpdatePassword_def
    by (cases r) (auto simp: bindE_Inl bindE_Inr dest!: execE_Inl execE_Inr split: option.splits sum.splits if_splits)
  then show ?thesis
  proof (elim disjE exE conjE)
    fix w1 h assume w1: "same_world w w1" "w' = w1\<lparr>w_users := ?f h (w_users w1)\<rparr>"
    have "user_ids w' = user_ids w1" unfolding w1(2) by (simp add: ids del: set_map)
    moreover have "refs_ok w'" unfolding w1(2) upd using assms(2) refs_ok_same [OF w1(1)] by simp
    moreover have "w_domains w' = w_domains w1" unfolding w1(2) by simp
    ultimately show ?thesis using same_worldD(1,2) [OF w1(1)] by simp
  qed (simp add: assms(2) refs_ok_same same_worldD)
qed

section \<open>Every request keeps the constraints\<close>

definition keeps_tokens :: "'r admin_state \<Rightarrow> 'r admin_state \<Rightarrow> bool" where
  "keeps_tokens y y' \<longleftrightarrow> ad_sessions y' = ad_sessions y \<and> ad_csrf y' = ad_csrf y \<and> ad_limiter y' = ad_limiter y"

definition keeps_admin_ok :: "'r admin_state \<Rightarrow> 'r admin_state \<Rightarrow> bool" where
  "keeps_admin_ok y y' \<longleftrightarrow> (admin_ok y \<longrightarrow> admin_ok y')"

lemma liftW_tokens: "stepsS keeps_tokens (liftW m)"
  by (simp add: stepsS_def liftW_def keeps_tokens_def split: prod.split)

lemma script_move_tokens: "script_move y y' \<Longrightarrow> keeps_tokens y y'"
  by (auto simp: script_move_def keeps_tokens_def)

lemma script_move_ok:
  assumes "script_move y y'" "admin_ok y"
  shows "admin_ok y'"
proof -
  from assms(1) obtain w s n where w: "same_world (ad_world y) w" and y': "y' = y\<lparr>ad_world := w, ad_scripts := s, ad_script_seq := n\<rparr>"
    and s: "Sieve_Exec.store_ok (ad_scripts y) \<longrightarrow> Sieve_Exec.store_ok s" "sc_user ` set s \<subseteq> sc_user ` set (ad_scripts y) \<union> user_ids (ad_world y)"
    unfolding script_move_def by blast
  note d = admin_okD [OF assms(2)]
  have "sc_user ` set s \<subseteq> user_ids (ad_world y)" using s(2) d(5) by blast
  then show ?thesis
    unfolding y' admin_ok_def using d s(1) refs_ok_same [OF w] same_worldD [OF w] by simp
qed

lemma stepsS_mono: "stepsS Q m \<Longrightarrow> (\<And>y y'. Q y y' \<Longrightarrow> R y y') \<Longrightarrow> stepsS R m"
  by (simp add: stepsS_def)

interpretation tkn: admin_rel keeps_tokens
proof
  show "set_admin i b y = Inr (y', u) \<Longrightarrow> keeps_tokens y y'" for i b u and y y' :: "'r admin_state"
    by (auto simp: set_admin_def keeps_tokens_def split: if_splits)
  show "insert_domain name y = Inr (y', u) \<Longrightarrow> keeps_tokens y y'" for name u and y y' :: "'r admin_state"
    by (auto simp: insert_domain_def keeps_tokens_def Let_def split: if_splits)
qed (auto simp: keeps_tokens_def delete_users_def delete_domain_def Let_def intro: liftW_tokens stepsS_mono [OF script_ops(1) script_move_tokens]
   stepsS_mono [OF script_ops(2) script_move_tokens] stepsS_mono [OF script_ops(3) script_move_tokens] stepsS_mono [OF script_ops(4) script_move_tokens])

lemma admin_ok_same: "same_world (ad_world y) w \<Longrightarrow> admin_ok y \<Longrightarrow> admin_ok (y\<lparr>ad_world := w\<rparr>)"
  by (simp add: admin_ok_world refs_ok_same admin_okD same_worldD)

lemma liftW_ok:
  assumes "\<And>w w' r. m w = (w', r) \<Longrightarrow> refs_ok w \<Longrightarrow> refs_ok w' \<and> user_ids w \<subseteq> user_ids w' \<and> w_domains w' = w_domains w"
  shows "stepsS keeps_admin_ok (liftW m)"
  unfolding stepsS_def keeps_admin_ok_def
proof (intro allI impI)
  fix y :: "'r admin_state"
  assume ok: "admin_ok y"
  obtain w r where m: "m (ad_world y) = (w, r)" by fastforce
  from assms [OF m admin_okD(1) [OF ok]] ok show "admin_ok (fst (liftW m y))"
    by (simp add: liftW_def m admin_ok_world)
qed

interpretation aok: admin_rel keeps_admin_ok
proof
  fix y y' y2 :: "'r admin_state"
  show "keeps_admin_ok y y" by (simp add: keeps_admin_ok_def)
  show "keeps_admin_ok y y' \<Longrightarrow> keeps_admin_ok y' y2 \<Longrightarrow> keeps_admin_ok y y2" by (simp add: keeps_admin_ok_def)
  show "keeps_admin_ok y (after_fault y)"
    using admin_ok_same [of y "fst (Mail_World.next_fault (ad_world y))"] next_fault_same by (metis keeps_admin_ok_def prod.collapse)
  show "keeps_admin_ok y (y\<lparr>ad_audit := l\<rparr>)" "keeps_admin_ok y (y\<lparr>ad_redis := d\<rparr>)" "keeps_admin_ok y (y\<lparr>ad_tmp := fs\<rparr>)" for l d fs
    by (simp_all add: keeps_admin_ok_def admin_ok_def)
  show "set_admin i b y = Inr (y', u) \<Longrightarrow> keeps_admin_ok y y'" for i b u
    by (simp add: keeps_admin_ok_def set_admin_ok)
  show "keeps_admin_ok y (delete_users P y)" "keeps_admin_ok y (delete_domain i y)" for P i
    by (simp_all add: keeps_admin_ok_def delete_users_ok delete_domain_ok)
  show "domain_name_ok name \<Longrightarrow> insert_domain name y = Inr (y', u) \<Longrightarrow> keeps_admin_ok y y'" for name u
    by (simp add: keeps_admin_ok_def insert_domain_ok)
  show "stepsS keeps_admin_ok (liftW (CreateUser A salt n p i))" "stepsS keeps_admin_ok (liftW (UpdatePassword A salt i p))" for A salt n p i
    by (rule liftW_ok, rule CreateUser_kept UpdatePassword_kept, assumption+)+
  show "stepsS keeps_admin_ok (liftW (InitializeUserMailboxes i now))" for i now
    by (rule liftW_ok) (use stepsM_D [OF InitializeUserMailboxes_kept] in \<open>force simp: boxes_kept_def\<close>)
  show "stepsS keeps_admin_ok (script_create i n c)" "stepsS keeps_admin_ok (script_update i n c)"
    "stepsS keeps_admin_ok (script_delete i n)" "stepsS keeps_admin_ok (script_activate i n)" for i n c
    by (rule stepsS_mono, rule script_ops, simp add: keeps_admin_ok_def script_move_ok)+
qed

section \<open>Requests without a session\<close>

definition same_core :: "'r admin_state \<Rightarrow> 'r admin_state \<Rightarrow> bool" where
  "same_core y y' \<longleftrightarrow> same_world (ad_world y) (ad_world y') \<and> ad_admins y' = ad_admins y \<and> ad_domain_seq y' = ad_domain_seq y \<and>
     ad_scripts y' = ad_scripts y \<and> ad_script_seq y' = ad_script_seq y \<and> ad_tmp y' = ad_tmp y \<and> ad_auth_log y' = ad_auth_log y \<and>
     ad_delivery_log y' = ad_delivery_log y"

text \<open>Only the statistics of the queue are read.\<close>

definition untouched :: "('d, 'r) redis \<Rightarrow> admin_server \<Rightarrow> 'r admin_state \<Rightarrow> 'r admin_state \<Rightarrow> bool" where
  "untouched R srv y y' \<longleftrightarrow> same_core y y' \<and>
     (ad_redis y' = ad_redis y \<or> (case as_queue srv of None \<Rightarrow> False | Some q \<Rightarrow> ad_redis y' = fst (Stats_queue R q (ad_redis y))))"

text \<open>The request carries the token of a session that has not expired, of a user who is an administrator.\<close>

definition signed_in :: "admin_env \<Rightarrow> admin_request \<Rightarrow> 'r admin_state \<Rightarrow> bool" where
  "signed_in env r y = (case aq_Cookie r of None \<Rightarrow> False | Some c \<Rightarrow> isValidToken c \<and> (case ad_sessions y c of None \<Rightarrow> False
     | Some sess \<Rightarrow> \<not> ax_now env > se_expiresAt sess \<and> is_admin (se_userID sess) y = Some True))"

interpretation swd: step_rel same_world
  by unfold_locales (assumption, rule same_world_trans)

lemma Authenticate_steps: "stepsM same_world (Authenticate A email password)"
proof -
  have "stepsM same_world (lookupUserWithPassword n m)" for n m
    unfolding lookupUserWithPassword_def
    by (intro swd.bindE swd.mapErr swd.readE) (auto intro!: swd.failE swd.retE split: option.split)
  then show ?thesis
    unfolding Authenticate_def by (auto intro!: swd.bindE swd.mapErr swd.failE swd.retE split: option.split prod.split)
qed

lemma same_core_world: "same_world (ad_world y) w \<Longrightarrow> same_core y (y\<lparr>ad_world := w\<rparr>)"
  by (simp add: same_core_def)

lemma same_core_trans: "same_core y y1 \<Longrightarrow> same_core y1 y2 \<Longrightarrow> same_core y y2"
  by (auto simp: same_core_def intro: same_world_trans)

text \<open>The logger and the queries of a log-in change nothing but the audit log.\<close>

definition log_only :: "'r admin_state \<Rightarrow> 'r admin_state \<Rightarrow> bool" where
  "log_only y y' \<longleftrightarrow> (\<exists>w l. same_world (ad_world y) w \<and> y' = y\<lparr>ad_world := w, ad_audit := l\<rparr>)"

lemma log_only_audit: "audit srv env r actor action target details y = (y', z) \<Longrightarrow> log_only y y' \<and> z = Inr ()"
  unfolding log_only_def audit_def
  by (auto dest: next_fault_same split: prod.splits if_splits intro: exI [of _ "ad_world y"])

lemma after_fault_same: "same_world (ad_world y) (fst (Mail_World.next_fault (ad_world y)))"
  using next_fault_same by (metis prod.collapse)

lemma queryA_run:
  assumes "queryA f y = (y', z)"
  shows "y' = after_fault y \<and> (z = Inr (f y) \<or> (\<exists>e. z = Inl e))"
  using assms unfolding queryA_def by (auto split: prod.splits option.splits)

lemma queryA_cases:
  assumes "queryA f y = (y', z)"
  shows "\<exists>w. same_world (ad_world y) w \<and> y' = y\<lparr>ad_world := w\<rparr> \<and> (z = Inr (f y) \<or> (\<exists>e. z = Inl e))"
  using queryA_run [OF assms] after_fault_same by blast

lemma failed_login_cases:
  assumes "failed_login srv env csrf r y = (y', z)"
  shows "\<exists>rl. log_only (y\<lparr>ad_limiter := rl\<rparr>) y'"
  using assms unfolding failed_login_def bindS_def Let_def
  by (auto split: prod.splits sum.splits dest!: log_only_audit)

lemma successful_login_cases:
  assumes "successful_login srv env r i y = (y', z)"
  shows "\<exists>rl. log_only (y\<lparr>ad_limiter := rl, ad_sessions := (ad_sessions y)(generateToken (ax_sessionRand env) (ax_clock env) \<mapsto>
     \<lparr>se_userID = i, se_createdAt = ax_now env, se_expiresAt = ax_now env + 7 * 24 * Hour\<rparr>)\<rparr>) y'"
  using assms unfolding successful_login_def createSession_def bindS_def Let_def
  by (auto split: prod.splits sum.splits dest!: log_only_audit)

text \<open>The two outcomes of the login page for the sessions.\<close>

definition login_ok :: "argon2 \<Rightarrow> admin_env \<Rightarrow> admin_request \<Rightarrow> 'r admin_state \<Rightarrow> int \<Rightarrow> bool" where
  "login_ok A env r y i \<longleftrightarrow> aq_Method r \<noteq> ''GET'' \<and> \<not> IsBlocked (ad_limiter y) (ax_now env) (client_ip r) \<and>
     (case snd (Authenticate A (FormValue r ''username'') (FormValue r ''password'') (ad_world y)) of Inl e \<Rightarrow> False | Inr u \<Rightarrow> us_ID u = i) \<and>
     is_admin i y = Some True"

definition login_result :: "argon2 \<Rightarrow> admin_env \<Rightarrow> admin_request \<Rightarrow> 'r admin_state \<Rightarrow> 'r admin_state \<Rightarrow> bool" where
  "login_result A env r y y' \<longleftrightarrow> (\<exists>s rl w l. same_world (ad_world y) w \<and>
     y' = y\<lparr>ad_limiter := rl, ad_sessions := s, ad_world := w, ad_audit := l\<rparr> \<and>
     (s = ad_sessions y \<or> (\<exists>i. login_ok A env r y i \<and> s = (ad_sessions y)(generateToken (ax_sessionRand env) (ax_clock env) \<mapsto>
        \<lparr>se_userID = i, se_createdAt = ax_now env, se_expiresAt = ax_now env + 7 * 24 * Hour\<rparr>))))"

lemma login_result_none:
  "same_world (ad_world y) w \<Longrightarrow> login_result A env r y (y\<lparr>ad_limiter := rl, ad_world := w, ad_audit := l\<rparr>)"
  unfolding login_result_def
  by (intro exI [of _ "ad_sessions y"] exI [of _ rl] exI [of _ w] exI [of _ l]) simp

lemma login_result_failed:
  assumes w: "same_world (ad_world y) w" and f: "failed_login srv env csrf r (y\<lparr>ad_world := w\<rparr>) = (y', z)"
  shows "login_result A env r y y'"
proof -
  from failed_login_cases [OF f] obtain rl w2 l where "same_world w w2" "y' = y\<lparr>ad_limiter := rl, ad_world := w2, ad_audit := l\<rparr>"
    unfolding log_only_def by auto
  with login_result_none [OF same_world_trans [OF w]] show ?thesis by simp
qed

lemma login_result_successful:
  assumes w: "same_world (ad_world y) w" and f: "successful_login srv env r i (y\<lparr>ad_world := w\<rparr>) = (y', z)" and ok: "login_ok A env r y i"
  shows "login_result A env r y y'"
proof -
  let ?s = "(ad_sessions y)(generateToken (ax_sessionRand env) (ax_clock env) \<mapsto>
     \<lparr>se_userID = i, se_createdAt = ax_now env, se_expiresAt = ax_now env + 7 * 24 * Hour\<rparr>)"
  from successful_login_cases [OF f] obtain rl w2 l where "same_world w w2"
    "y' = y\<lparr>ad_limiter := rl, ad_sessions := ?s, ad_world := w2, ad_audit := l\<rparr>"
    unfolding log_only_def by auto
  with ok same_world_trans [OF w] show ?thesis
    unfolding login_result_def by (intro exI [of _ ?s] exI [of _ rl] exI [of _ w2] exI [of _ l]) blast
qed

lemma handleLogin_cases:
  assumes h: "handleLogin A srv env csrf r y = (y', z)"
  shows "login_result A env r y y'"
proof (cases "IsBlocked (ad_limiter y) (ax_now env) (client_ip r) \<or> aq_Method r = ''GET'' \<or> aq_FormErr r \<noteq> None")
  case True
  then have "y' = y" using h
    unfolding handleLogin_def Let_def ParseForm_def guardA_def bindS_def
    by (auto simp: retS_def failS_def split: if_splits)
  then show ?thesis using login_result_none [OF same_world_refl, where y = y and rl = "ad_limiter y" and l = "ad_audit y"] by simp
next
  case False
  note run = handleLogin_def Let_def ParseForm_def guardA_def bindS_def liftW_def retS_def failS_def
  obtain w z1 where a: "Authenticate A (FormValue r ''username'') (FormValue r ''password'') (ad_world y) = (w, z1)" by fastforce
  have w: "same_world (ad_world y) w" using stepsM_D [OF Authenticate_steps a] .
  show ?thesis
  proof (cases z1)
    case (Inl e)
    with h False a show ?thesis unfolding run by (intro login_result_failed [OF w]) simp
  next
    case (Inr u)
    obtain y2 z2 where q: "queryA (is_admin (us_ID u)) (y\<lparr>ad_world := w\<rparr>) = (y2, z2)" by fastforce
    from queryA_cases [OF q] obtain w2 where w2: "same_world w w2" and y2: "y2 = y\<lparr>ad_world := w2\<rparr>"
      and z2: "z2 = Inr (is_admin (us_ID u) (y\<lparr>ad_world := w\<rparr>)) \<or> (\<exists>e. z2 = Inl e)" by auto
    have ad: "is_admin (us_ID u) (y\<lparr>ad_world := w\<rparr>) = is_admin (us_ID u) y" using same_worldD(2) [OF w] by (simp add: is_admin_def)
    note ww2 = same_world_trans [OF w w2]
    show ?thesis
    proof (cases "z2 = Inr (Some True)")
      case True
      have "successful_login srv env r (us_ID u) (y\<lparr>ad_world := w2\<rparr>) = (y', z)"
        using h False a Inr q True y2 unfolding run by simp
      moreover have "login_ok A env r y (us_ID u)" unfolding login_ok_def using False a Inr True z2 ad by auto
      ultimately show ?thesis by (rule login_result_successful [OF ww2])
    next
      case no: False
      have "y' = y2\<lparr>ad_limiter := fst (RecordFailure (ad_limiter y2) (ax_now env) (client_ip r))\<rparr>"
        using h False a Inr q no unfolding run by (auto split: sum.splits option.splits bool.splits)
      then have "y' = y\<lparr>ad_limiter := fst (RecordFailure (ad_limiter y2) (ax_now env) (client_ip r)), ad_world := w2, ad_audit := ad_audit y\<rparr>"
        using y2 by simp
      then show ?thesis by (simp only: login_result_none [OF ww2])
    qed
  qed
qed

text \<open>The other open pages read the database and the statistics of the queue.\<close>

lemma untouched_world: "same_world (ad_world y) w \<Longrightarrow> untouched R srv y (y\<lparr>ad_world := w\<rparr>)"
  by (simp add: untouched_def same_core_def)

lemma handleHealth_untouched:
  assumes "handleHealth R srv env y = (y', z)"
  shows "untouched R srv y y' \<and> ad_sessions y' = ad_sessions y"
proof -
  obtain y1 z1 where q: "queryA (\<lambda>y. ()) y = (y1, z1)" by fastforce
  then obtain w where w: "same_world (ad_world y) w" and y1: "y1 = y\<lparr>ad_world := w\<rparr>" using queryA_cases by blast
  have "y' = y1 \<or> (\<exists>q. as_queue srv = Some q \<and> y' = y1\<lparr>ad_redis := fst (Stats_queue R q (ad_redis y1))\<rparr>)"
    using assms q unfolding handleHealth_def queue_health_def ping_def bindS_def orElse_def liftQ_def Let_def
    by (auto simp: retS_def split: sum.splits prod.splits option.splits)
  then show ?thesis using w y1 by (auto simp: untouched_def same_core_def)
qed

lemma open_handler_untouched:
  assumes "open_handler A R srv env csrf r p y = (y', z)"
  shows "untouched R srv y y' \<and> (ad_sessions y' = ad_sessions y \<or> p = ''/admin/login'' \<and> login_result A env r y y')"
proof -
  have ready: "untouched R srv y y' \<and> ad_sessions y' = ad_sessions y" if "handleReady y = (y', z)"
  proof -
    obtain y1 z1 where q: "queryA (\<lambda>y. ()) y = (y1, z1)" by fastforce
    then obtain w where "same_world (ad_world y) w" "y1 = y\<lparr>ad_world := w\<rparr>" using queryA_cases by blast
    moreover have "y' = y1" using that q unfolding handleReady_def ping_def bindS_def mapErrS_def orElse_def
      by (auto simp: retS_def failS_def split: sum.splits)
    ultimately show ?thesis by (simp add: untouched_world)
  qed
  have login: "untouched R srv y y'" if "login_result A env r y y'"
    using that by (auto simp: login_result_def untouched_def same_core_def)
  consider "p = ''/admin/login''" "handleLogin A srv env csrf r y = (y', z)" | "y' = y" | "handleReady y = (y', z)" | "handleHealth R srv env y = (y', z)"
    using assms unfolding open_handler_def handleLogout_def by (auto simp: retS_def split: if_splits)
  then show ?thesis
  proof cases
    case 1 then show ?thesis using handleLogin_cases [of A srv env csrf r y y' z] login by blast
  next
    case 2 then show ?thesis using untouched_world [OF same_world_refl, of R srv y] by simp
  next
    case 3 then show ?thesis using ready by blast
  next
    case 4 then show ?thesis using handleHealth_untouched [OF 4] by blast
  qed
qed

lemma withAuth_cases:
  assumes "withAuth env r next y = (y', z)"
  shows "signed_in env r y \<and> next (after_fault y) = (y', z) \<or>
    z = Inl (to_login r) \<and> untouched R srv y y' \<and> ad_sessions y' \<subseteq>\<^sub>m ad_sessions y"
proof (cases "aq_Cookie r")
  case None
  then show ?thesis using assms untouched_world [OF same_world_refl, of R srv y] by (simp add: withAuth_def)
next
  case (Some c)
  obtain y1 i where v: "validateSession (ax_now env) c y = (y1, i)" by fastforce
  show ?thesis
  proof (cases i)
    case None
    then have "z = Inl (to_login r)" "y' = y1" using assms Some v by (simp_all add: withAuth_def)
    moreover have "untouched R srv y y1 \<and> ad_sessions y1 \<subseteq>\<^sub>m ad_sessions y"
      using v None by (auto simp: validateSession_def untouched_def same_core_def map_le_def split: if_splits option.splits)
    ultimately show ?thesis by blast
  next
    case (Some j)
    then obtain sess where s: "y1 = y" "isValidToken c" "ad_sessions y c = Some sess" "\<not> ax_now env > se_expiresAt sess" "j = se_userID sess"
      using v by (auto simp: validateSession_def split: if_splits option.splits)
    obtain y2 z2 where q: "queryA (is_admin j) y = (y2, z2)" by fastforce
    note w = after_fault_same [of y] queryA_run [OF q, THEN conjunct1] queryA_run [OF q, THEN conjunct2]
    have run: "(y', z) = (case z2 of Inl e \<Rightarrow> (y2, Inl (to_login r)) | Inr row \<Rightarrow> (if row = Some True then next y2 else (y2, Inl (to_login r))))"
      using assms \<open>aq_Cookie r = Some c\<close> v Some s(1) q unfolding withAuth_def bindS_def mapErrS_def orElse_def
      by (auto simp: failS_def split: sum.splits if_splits)
    show ?thesis
    proof (cases "z2 = Inr (Some True)")
      case True
      then have "next y2 = (y', z)" using run by simp
      moreover have "signed_in env r y"
        using \<open>aq_Cookie r = Some c\<close> s True w(3) by (auto simp: signed_in_def)
      ultimately show ?thesis using w(2) by simp
    next
      case False
      then have "z = Inl (to_login r)" "y' = y2" using run by (auto split: sum.splits if_splits)
      then show ?thesis using w untouched_world [OF w(1), of R srv] by simp
    qed
  qed
qed

section \<open>Who can change what\<close>

lemma mux_route_exact: "mux_route patterns p = Route q \<Longrightarrow> \<not> HasSuffix q ''/'' \<Longrightarrow> p = q"
  by (auto simp: mux_route_def Let_def split: if_splits option.splits dest!: longest_in)

lemma admin_mux_cases:
  assumes "admin_mux A R srv env csrf r y = (y', z)"
  shows "untouched R srv y y' \<and> (ad_sessions y' \<subseteq>\<^sub>m ad_sessions y \<or> aq_Path r = ''/admin/login'' \<and> login_result A env r y y') \<or>
    signed_in env r y \<and> (\<exists>p. admin_handler A R srv env csrf r p (after_fault y) = (y', z))"
proof (cases "mux_route admin_patterns (aq_Path r)")
  case NoRoute
  then show ?thesis using assms untouched_world [OF same_world_refl, of R srv y] by (simp add: admin_mux_def)
next
  case (RedirectTo u)
  then show ?thesis using assms untouched_world [OF same_world_refl, of R srv y] by (simp add: admin_mux_def)
next
  case (Route p)
  show ?thesis
  proof (cases "p \<in> set open_patterns")
    case True
    then have h: "open_handler A R srv env csrf r p y = (y', z)" using assms Route by (simp add: admin_mux_def)
    have "\<not> HasSuffix ''/admin/login'' ''/''" by code_simp
    then have "aq_Path r = p" if "p = ''/admin/login''" using mux_route_exact [OF Route] that by simp
    with open_handler_untouched [OF h] show ?thesis by auto
  next
    case False
    then have "withAuth env r (admin_handler A R srv env csrf r p) y = (y', z)" using assms Route by (simp add: admin_mux_def)
    from withAuth_cases [OF this, of R srv] show ?thesis by blast
  qed
qed

lemma serve_admin_cases:
  assumes "serve_admin A R srv env r y = (y', hs, q)"
  shows "y' = y \<or> (safe_method (aq_Method r) \<or> csrf_valid (ax_now env) (csrf_token r) y) \<and>
    (\<exists>c csrf r1 z. (r1 = r \<or> r1 = r\<lparr>aq_FormErr := None\<rparr>) \<and> admin_mux A R srv env csrf r1 (y\<lparr>ad_csrf := c\<rparr>) = (y', z) \<and> (z = Inl q \<or> z = Inr q))"
proof -
  have take: "\<exists>c. csrf_take now t y = y\<lparr>ad_csrf := c\<rparr>" for now t
    unfolding csrf_take_def by (auto split: option.split intro: exI [of _ "ad_csrf y"])
  have run: "\<exists>z. h y1 = (y', z) \<and> (z = Inl q \<or> z = Inr q)" if "run_handler h y1 = (y', q)" for h y1
    using that by (auto simp: run_handler_def split: prod.splits sum.splits)
  from assms have "y' = y \<or> (safe_method (aq_Method r) \<or> csrf_valid (ax_now env) (csrf_token r) y) \<and>
    (\<exists>c csrf r1. (r1 = r \<or> r1 = r\<lparr>aq_FormErr := None\<rparr>) \<and> run_handler (admin_mux A R srv env csrf r1) (y\<lparr>ad_csrf := c\<rparr>) = (y', q))"
    unfolding serve_admin_def withSecurityHeaders_def withCSRF_def csrf_issue_def Let_def
    using take [of "ax_now env" "csrf_token r"] by (auto split: prod.splits if_splits)
  then show ?thesis using run by blast
qed

text \<open>C3. Nothing about accounts, domains, mailboxes, scripts or files changes, and the queue is only asked for its statistics, unless the
  request has the cookie of a session that has not expired of a user who is an administrator at that moment, and either a CSRF token
  that was issued within the hour or a method that the check lets pass.\<close>

theorem admin_change_needs_session:
  assumes "serve_admin A R srv env r y = (y', reply)" and "\<not> untouched R srv y y'"
  shows "signed_in env r y \<and> (safe_method (aq_Method r) \<or> csrf_valid (ax_now env) (csrf_token r) y)"
proof -
  obtain hs q where reply: "reply = (hs, q)" by fastforce
  have "y' \<noteq> y" using assms(2) untouched_world [OF same_world_refl, of R srv y] by auto
  with serve_admin_cases [OF assms(1) [unfolded reply]] obtain c csrf r1 z
    where tok: "safe_method (aq_Method r) \<or> csrf_valid (ax_now env) (csrf_token r) y"
      and r1: "r1 = r \<or> r1 = r\<lparr>aq_FormErr := None\<rparr>" and m: "admin_mux A R srv env csrf r1 (y\<lparr>ad_csrf := c\<rparr>) = (y', z)" by blast
  have "untouched R srv (y\<lparr>ad_csrf := c\<rparr>) y' = untouched R srv y y'" by (cases "as_queue srv") (simp_all add: untouched_def same_core_def)
  moreover have "signed_in env r1 (y\<lparr>ad_csrf := c\<rparr>) = signed_in env r y" using r1
    by (elim disjE) (simp_all add: signed_in_def is_admin_def cong: option.case_cong)
  ultimately show ?thesis using admin_mux_cases [OF m] assms(2) tok by blast
qed

text \<open>C4. A session comes into being only through the login page, for a client that the limiter does not block, who has sent the name and the
  password of an active account of an administrator; it has the token that was drawn for it and lasts seven days.\<close>

theorem session_needs_password:
  assumes "serve_admin A R srv env r y = (y', reply)" and "ad_sessions y' t = Some s" and "ad_sessions y t \<noteq> Some s"
  shows "aq_Path r = ''/admin/login'' \<and> login_ok A env r y (se_userID s) \<and> t = generateToken (ax_sessionRand env) (ax_clock env) \<and>
    se_expiresAt s = ax_now env + 7 * 24 * Hour"
proof -
  obtain hs q where reply: "reply = (hs, q)" by fastforce
  have "y' \<noteq> y" using assms(2,3) by auto
  with serve_admin_cases [OF assms(1) [unfolded reply]] obtain c csrf r1 z
    where r1: "r1 = r \<or> r1 = r\<lparr>aq_FormErr := None\<rparr>" and m: "admin_mux A R srv env csrf r1 (y\<lparr>ad_csrf := c\<rparr>) = (y', z)" by blast
  have new: "\<not> ad_sessions y' \<subseteq>\<^sub>m ad_sessions y"
  proof
    assume "ad_sessions y' \<subseteq>\<^sub>m ad_sessions y"
    moreover have "t \<in> dom (ad_sessions y')" using assms(2) by blast
    ultimately have "ad_sessions y' t = ad_sessions y t" unfolding map_le_def by blast
    with assms(2,3) show False by simp
  qed
  have "ad_sessions y' = ad_sessions y" if "admin_handler A R srv env csrf r1 p (after_fault (y\<lparr>ad_csrf := c\<rparr>)) = (y', z)" for p
    using stepsS_D [OF tkn.handlers that] by (simp add: keeps_tokens_def)
  with new have "\<not> (\<exists>p. admin_handler A R srv env csrf r1 p (after_fault (y\<lparr>ad_csrf := c\<rparr>)) = (y', z))"
    using map_le_refl by metis
  moreover have "\<not> ad_sessions y' \<subseteq>\<^sub>m ad_sessions (y\<lparr>ad_csrf := c\<rparr>)" using new by simp
  ultimately have p: "aq_Path r1 = ''/admin/login''" and l: "login_result A env r1 (y\<lparr>ad_csrf := c\<rparr>) y'"
    using admin_mux_cases [OF m] by blast+
  have "login_ok A env r1 (y\<lparr>ad_csrf := c\<rparr>) i = login_ok A env r y i" for i
    using r1 by (auto simp: login_ok_def is_admin_def FormValue_def client_ip_def http_request.truncate_def)
  with l obtain i where i: "login_ok A env r y i"
    and s: "ad_sessions y' = (ad_sessions y)(generateToken (ax_sessionRand env) (ax_clock env) \<mapsto>
        \<lparr>se_userID = i, se_createdAt = ax_now env, se_expiresAt = ax_now env + 7 * 24 * Hour\<rparr>)"
    unfolding login_result_def using new by auto
  have "aq_Path r = ''/admin/login''" using p r1 by auto
  moreover have "t = generateToken (ax_sessionRand env) (ax_clock env)" using assms(2,3) s by (metis fun_upd_other)
  ultimately show ?thesis using i s assms(2) by auto
qed

text \<open>C5. Every request keeps the constraints of the tables: keys stay unique, every reference has its row, domain names stay normal, only
  users are administrators, and each script parses and belongs to a user who has at most one active one.\<close>

theorem admin_keeps_schema:
  assumes "serve_admin A R srv env r y = (y', reply)" and "admin_ok y"
  shows "admin_ok y'"
proof -
  obtain hs q where reply: "reply = (hs, q)" by fastforce
  from serve_admin_cases [OF assms(1) [unfolded reply]] consider "y' = y" | c csrf r1 z where "admin_mux A R srv env csrf r1 (y\<lparr>ad_csrf := c\<rparr>) = (y', z)" by blast
  then show ?thesis
  proof cases
    case 1 then show ?thesis using assms(2) by simp
  next
    case (2 c csrf r1 z)
    have ok: "admin_ok (y\<lparr>ad_csrf := c\<rparr>)" using assms(2) by (simp add: admin_ok_def)
    have un: "admin_ok y'" if "untouched R srv (y\<lparr>ad_csrf := c\<rparr>) y'"
      using that assms(2) by (auto simp: untouched_def same_core_def admin_ok_def refs_ok_same same_worldD)
    from admin_mux_cases [OF 2] show ?thesis
    proof (elim disjE conjE exE)
      fix p assume h: "admin_handler A R srv env csrf r1 p (after_fault (y\<lparr>ad_csrf := c\<rparr>)) = (y', z)"
      have "admin_ok (after_fault (y\<lparr>ad_csrf := c\<rparr>))" by (rule admin_ok_same [OF after_fault_same ok])
      with stepsS_D [OF aok.handlers h] show "admin_ok y'" by (simp add: keeps_admin_ok_def)
    qed (rule un, assumption)+
  qed
qed

section \<open>What the audit log tells\<close>

text \<open>A method that starts without pending faults ends without.\<close>

definition calm :: "('e, 'a) proc \<Rightarrow> bool" where
  "calm m \<longleftrightarrow> (\<forall>w. w_faults w = [] \<longrightarrow> w_faults (fst (m w)) = [])"

lemma calmD: "calm m \<Longrightarrow> m w = (w', z) \<Longrightarrow> w_faults w = [] \<Longrightarrow> w_faults w' = []"
  unfolding calm_def by (metis fst_conv)

named_theorems calm_intros

lemma calm_ret [calm_intros]: "calm (retE x)" "calm (failE e)" "calm (readE f)"
  by (simp_all add: calm_def retE_def failE_def)

lemma calm_bindE [calm_intros]:
  assumes "calm m" "\<And>x. calm (f x)"
  shows "calm (bindE m f)"
  unfolding calm_def
proof (intro allI impI)
  fix w :: world assume w: "w_faults w = []"
  obtain w1 z where m: "m w = (w1, z)" by fastforce
  have "w_faults w1 = []" by (rule calmD [OF assms(1) m w])
  then show "w_faults (fst (bindE m f w)) = []" using assms(2) by (cases z) (simp_all add: bindE_def m calm_def)
qed

lemma calm_onErr [calm_intros]:
  assumes "calm m" "\<And>e. calm (h e)"
  shows "calm (onErr h m)"
  unfolding calm_def
proof (intro allI impI)
  fix w :: world assume w: "w_faults w = []"
  obtain w1 z where m: "m w = (w1, z)" by fastforce
  have "w_faults w1 = []" by (rule calmD [OF assms(1) m w])
  then show "w_faults (fst (onErr h m w)) = []" using assms(2) by (cases z) (simp_all add: onErr_def m calm_def)
qed

lemma calm_mapErr [calm_intros]: "calm m \<Longrightarrow> calm (mapErr h m)"
  unfolding mapErr_def by (intro calm_intros)

lemma calm_option [calm_intros]: "calm m \<Longrightarrow> (\<And>x. calm (k x)) \<Longrightarrow> calm (case z of None \<Rightarrow> m | Some x \<Rightarrow> k x)"
  by (cases z) simp_all

lemma calm_result [calm_intros]: "(\<And>e. calm (h e)) \<Longrightarrow> (\<And>x. calm (k x)) \<Longrightarrow> calm (case z of Inl e \<Rightarrow> h e | Inr x \<Rightarrow> k x)"
  by (cases z) simp_all

lemma calm_execE: "(\<And>w. w_faults (fst (f w)) = w_faults w) \<Longrightarrow> calm (execE f)"
  by (auto simp: calm_def execE_def split: prod.split) (metis fst_conv)

lemma calm_tryE: "(\<And>w w' x. f w = Inr (w', x) \<Longrightarrow> w_faults w' = w_faults w) \<Longrightarrow> calm (tryE f)"
  by (auto simp: calm_def tryE_def split: sum.split)

lemma calm_UpdatePassword: "calm (UpdatePassword A salt i p)"
  unfolding UpdatePassword_def by (auto intro!: calm_intros calm_execE split: option.split sum.split)

lemma calm_CreateUser: "calm (CreateUser A salt n p i)"
proof -
  have ins: "calm (tryE (insert_user i u h))" for u h
    by (rule calm_tryE) (auto simp: insert_user_def Let_def split: if_splits)
  let ?tx = "bindE (mapErr (ErrDB ''failed to begin transaction'') (readE (\<lambda>w. ()))) (\<lambda>_.
               bindE (mapErr (ErrDB ''failed to query domain id'')
                        (readE (\<lambda>w. find (\<lambda>d. d_id d = i \<and> d_active d) (w_domains w)))) (\<lambda>row.
               case row of None \<Rightarrow> failE ErrDomainNotFound | Some d \<Rightarrow>
               (case HashPassword A salt p of
                  Inl e \<Rightarrow> failE (ErrHash e)
                | Inr passwordHash \<Rightarrow>
               bindE (mapErr (ErrDB ''failed to create user'') (tryE (insert_user i (ToLower (TrimSpace n)) passwordHash))) (\<lambda>j.
               bindE (mapErr (ErrDB ''failed to commit transaction'') (readE (\<lambda>w. ()))) (\<lambda>_.
               retE \<lparr>us_ID = j, us_DomainID = i, us_Username = ToLower (TrimSpace n), us_Domain = d_name d,
                     us_Email = ToLower (TrimSpace n) @ ''@'' @ d_name d, us_DisplayName = [], us_QuotaBytes = 0,
                     us_UsedBytes = 0, us_IsActive = True\<rparr>)))))"
  have tx: "calm ?tx" by (intro calm_intros ins)
  show ?thesis unfolding calm_def
  proof (intro allI impI)
    fix w :: world assume w: "w_faults w = []"
    consider e where "ValidateUsername n = Some e" | e where "ValidateUsername n = None" "ValidatePassword p = Some e"
      | "ValidateUsername n = None" "ValidatePassword p = None" by (cases "ValidateUsername n"; cases "ValidatePassword p") auto
    then show "w_faults (fst (CreateUser A salt n p i w)) = []"
    proof cases
      case 3
      obtain w1 z where t: "?tx w = (w1, z)" by (rule prod.exhaust)
      have "w_faults w1 = []" by (rule calmD [OF tx t w])
      moreover have "CreateUser A salt n p i w = (case z of Inl e \<Rightarrow> (w\<lparr>w_faults := w_faults w1\<rparr>, Inl e) | Inr u \<Rightarrow> (w1, Inr u))"
        by (simp only: CreateUser_def Let_def 3 option.case t prod.case)
      ultimately show ?thesis by (cases z) simp_all
    qed (simp_all only: CreateUser_def option.case fst_conv w)
  qed
qed

lemma calm_InitializeUserMailboxes: "calm (InitializeUserMailboxes i now)"
proof -
  have mk: "calm (os_MkdirAll q)" for q unfolding os_MkdirAll_def by (rule calm_execE) simp
  have ins: "calm (tryE (insert_mailbox i n v su now))" for n v su
    by (rule calm_tryE) (auto simp: insert_mailbox_def Let_def split: if_splits)
  have del: "calm (execE (\<lambda>w. (delete_mailbox_rows j w, ())))" for j by (rule calm_execE) (simp add: delete_mailbox_rows_def)
  have "calm (CreateMailbox i n su now)" for n su
    unfolding CreateMailbox_def ensureMaildir_def Let_def by (intro calm_intros mk ins del)
  then have "calm (create_mailboxes i now mbs)" for mbs
    by (induction i now mbs rule: create_mailboxes.induct) (auto intro!: calm_intros)
  then show ?thesis by (simp add: InitializeUserMailboxes_def)
qed

text \<open>The log grows by events of the session and the address of the request.\<close>

definition log_grows :: "admin_env \<Rightarrow> admin_request \<Rightarrow> 'r admin_state \<Rightarrow> 'r admin_state \<Rightarrow> bool" where
  "log_grows env r y y' \<longleftrightarrow> (\<exists>evs. al_rows (ad_audit y') = al_rows (ad_audit y) @ evs \<and>
       (\<forall>ev\<in>set evs. ae_Actor ev = getSessionUser env r y \<and> ae_IPAddress ev = client_ip r)) \<and>
     ad_sessions y' = ad_sessions y \<and> (w_faults (ad_world y) = [] \<longrightarrow> w_faults (ad_world y') = [])"

definition same_accounts :: "'r admin_state \<Rightarrow> 'r admin_state \<Rightarrow> bool" where
  "same_accounts y y' \<longleftrightarrow> w_users (ad_world y') = w_users (ad_world y) \<and> w_domains (ad_world y') = w_domains (ad_world y) \<and> ad_admins y' = ad_admins y"

definition is_refused :: "admin_reply \<Rightarrow> bool" where
  "is_refused q = (case q of Refused c t e \<Rightarrow> True | _ \<Rightarrow> False)"

lemma same_user: "ad_sessions y' = ad_sessions y \<Longrightarrow> getSessionUser env r y' = getSessionUser env r y"
  by (simp add: getSessionUser_def split: option.split)

lemma no_growth:
  "ad_audit y' = ad_audit y \<Longrightarrow> ad_sessions y' = ad_sessions y \<Longrightarrow> (w_faults (ad_world y) = [] \<Longrightarrow> w_faults (ad_world y') = []) \<Longrightarrow> log_grows env r y y'"
  by (simp add: log_grows_def)

lemma script_move_quiet: "script_move y y' \<Longrightarrow> log_grows env r y y'" "script_move y y' \<Longrightarrow> same_accounts y y'"
  by (auto simp: script_move_def same_accounts_def same_worldD intro!: no_growth)

lemma log_grows_trans:
  assumes "log_grows env r y y1" "log_grows env r y1 y2"
  shows "log_grows env r y y2"
proof -
  from assms(1) obtain a where a: "al_rows (ad_audit y1) = al_rows (ad_audit y) @ a" "\<forall>ev\<in>set a. ae_Actor ev = getSessionUser env r y \<and> ae_IPAddress ev = client_ip r"
    by (auto simp: log_grows_def)
  from assms(2) obtain b where b: "al_rows (ad_audit y2) = al_rows (ad_audit y1) @ b" "\<forall>ev\<in>set b. ae_Actor ev = getSessionUser env r y1 \<and> ae_IPAddress ev = client_ip r"
    by (auto simp: log_grows_def)
  have "getSessionUser env r y1 = getSessionUser env r y" using assms(1) by (intro same_user) (simp add: log_grows_def)
  with a b have "al_rows (ad_audit y2) = al_rows (ad_audit y) @ (a @ b) \<and> (\<forall>ev\<in>set (a @ b). ae_Actor ev = getSessionUser env r y \<and> ae_IPAddress ev = client_ip r)"
    by auto
  with assms show ?thesis unfolding log_grows_def by (intro conjI exI [of _ "a @ b"]) auto
qed

interpretation lgr: admin_reads "log_grows env r" for env r
proof
  fix y y1 y2 :: "'r admin_state" and fs d i n c
  show "log_grows env r y y1 \<Longrightarrow> log_grows env r y1 y2 \<Longrightarrow> log_grows env r y y2" by (rule log_grows_trans)
  show "stepsS (log_grows env r) (script_create i n c)" "stepsS (log_grows env r) (script_update i n c)"
    "stepsS (log_grows env r) (script_delete i n)" "stepsS (log_grows env r) (script_activate i n)"
    by (rule stepsS_mono, rule script_ops, rule script_move_quiet, assumption)+
qed (simp_all add: no_growth)

interpretation sac: admin_reads same_accounts
proof
  fix y y1 y2 :: "'r admin_state" and fs d i n c
  show "same_accounts y y1 \<Longrightarrow> same_accounts y1 y2 \<Longrightarrow> same_accounts y y2" by (simp add: same_accounts_def)
  show "same_accounts y (after_fault y)" using same_worldD [OF after_fault_same [of y]] by (simp add: same_accounts_def)
  show "stepsS same_accounts (script_create i n c)" "stepsS same_accounts (script_update i n c)"
    "stepsS same_accounts (script_delete i n)" "stepsS same_accounts (script_activate i n)"
    by (rule stepsS_mono, rule script_ops, rule script_move_quiet, assumption)+
qed (simp_all add: same_accounts_def)

text \<open>\<open>noted\<close>: at least one event was written. \<open>after_change\<close> is what remains to be done once accounts have changed: it ends with an event or
  refuses; \<open>before_change\<close> is a handler that may still leave the accounts as they are.\<close>

definition noted :: "admin_env \<Rightarrow> admin_request \<Rightarrow> 'r admin_state \<Rightarrow> 'r admin_state \<Rightarrow> bool" where
  "noted env r y y' \<longleftrightarrow> log_grows env r y y' \<and> al_rows (ad_audit y') \<noteq> al_rows (ad_audit y)"

definition after_change :: "admin_env \<Rightarrow> admin_request \<Rightarrow> 'r ahandler \<Rightarrow> bool" where
  "after_change env r m \<longleftrightarrow> (\<forall>y. w_faults (ad_world y) = [] \<longrightarrow>
     (case m y of (y', Inl q) \<Rightarrow> is_refused q | (y', Inr x) \<Rightarrow> noted env r y y'))"

definition before_change :: "admin_env \<Rightarrow> admin_request \<Rightarrow> 'r ahandler \<Rightarrow> bool" where
  "before_change env r m \<longleftrightarrow> (\<forall>y. w_faults (ad_world y) = [] \<longrightarrow>
     (case m y of (y', Inl q) \<Rightarrow> same_accounts y y' \<or> is_refused q | (y', Inr x) \<Rightarrow> same_accounts y y' \<or> noted env r y y'))"

lemma noted_trans: "log_grows env r y y1 \<Longrightarrow> noted env r y1 y2 \<Longrightarrow> noted env r y y2"
  using log_grows_trans [of env r y y1 y2] by (auto simp: noted_def log_grows_def)

lemma before_reads: "stepsS same_accounts m \<Longrightarrow> before_change env r m"
  by (auto simp: before_change_def stepsS_def split: prod.split sum.split) (metis fst_conv)+

lemma before_bind:
  assumes "stepsS (log_grows env r) m" "stepsS same_accounts m" "\<And>x. before_change env r (f x)"
  shows "before_change env r (bindS m f)"
  unfolding before_change_def
proof (intro allI impI)
  fix y :: "'a admin_state" assume nf: "w_faults (ad_world y) = []"
  obtain y1 z where m: "m y = (y1, z)" by fastforce
  have g: "log_grows env r y y1" "same_accounts y y1" using stepsS_D [OF assms(1) m] stepsS_D [OF assms(2) m] .
  show "case bindS m f y of (y', Inl q) \<Rightarrow> same_accounts y y' \<or> is_refused q | (y', Inr x) \<Rightarrow> same_accounts y y' \<or> noted env r y y'"
  proof (cases z)
    case (Inl q)
    with g m show ?thesis by (simp add: bindS_def)
  next
    case (Inr x)
    have "w_faults (ad_world y1) = []" using g(1) nf by (simp add: log_grows_def)
    with assms(3) [of x] have "case f x y1 of (y', Inl q) \<Rightarrow> same_accounts y1 y' \<or> is_refused q | (y', Inr x) \<Rightarrow> same_accounts y1 y' \<or> noted env r y1 y'"
      by (simp add: before_change_def)
    then show ?thesis
      using m Inr sac.trans [OF g(2)] noted_trans [OF g(1)] by (auto simp: bindS_def split: prod.split sum.split)
  qed
qed

lemma change_bind:
  assumes "stepsS (log_grows env r) m" "\<And>y y' q. m y = (y', Inl q) \<Longrightarrow> same_accounts y y' \<or> is_refused q" "\<And>x. after_change env r (f x)"
  shows "before_change env r (bindS m f)"
  unfolding before_change_def
proof (intro allI impI)
  fix y :: "'a admin_state" assume nf: "w_faults (ad_world y) = []"
  obtain y1 z where m: "m y = (y1, z)" by fastforce
  have g: "log_grows env r y y1" using stepsS_D [OF assms(1) m] .
  show "case bindS m f y of (y', Inl q) \<Rightarrow> same_accounts y y' \<or> is_refused q | (y', Inr x) \<Rightarrow> same_accounts y y' \<or> noted env r y y'"
  proof (cases z)
    case (Inl q)
    with assms(2) [of y y1 q] m show ?thesis by (simp add: bindS_def)
  next
    case (Inr x)
    have "w_faults (ad_world y1) = []" using g nf by (simp add: log_grows_def)
    with assms(3) [of x] have "case f x y1 of (y', Inl q) \<Rightarrow> is_refused q | (y', Inr x) \<Rightarrow> noted env r y1 y'"
      by (simp add: after_change_def)
    then show ?thesis using m Inr noted_trans [OF g] by (auto simp: bindS_def split: prod.split sum.split)
  qed
qed

definition refuses :: "('r admin_state, admin_reply, 'a) sproc \<Rightarrow> bool" where
  "refuses m \<longleftrightarrow> (\<forall>y y' q. m y = (y', Inl q) \<longrightarrow> is_refused q)"

lemma after_bind:
  assumes "stepsS (log_grows env r) m" "refuses m" "\<And>x. after_change env r (f x)"
  shows "after_change env r (bindS m f)"
  unfolding after_change_def
proof (intro allI impI)
  fix y :: "'a admin_state" assume nf: "w_faults (ad_world y) = []"
  obtain y1 z where m: "m y = (y1, z)" by fastforce
  have g: "log_grows env r y y1" using stepsS_D [OF assms(1) m] .
  show "case bindS m f y of (y', Inl q) \<Rightarrow> is_refused q | (y', Inr x) \<Rightarrow> noted env r y y'"
  proof (cases z)
    case (Inl q)
    with assms(2) m show ?thesis by (simp add: bindS_def refuses_def)
  next
    case (Inr x)
    have "w_faults (ad_world y1) = []" using g nf by (simp add: log_grows_def)
    with assms(3) [of x] have "case f x y1 of (y', Inl q) \<Rightarrow> is_refused q | (y', Inr x) \<Rightarrow> noted env r y1 y'"
      by (simp add: after_change_def)
    then show ?thesis using m Inr noted_trans [OF g] by (auto simp: bindS_def split: prod.split sum.split)
  qed
qed

lemma liftW_grows: "calm m \<Longrightarrow> stepsS (log_grows env r) (liftW m)"
  by (auto simp: stepsS_def liftW_def intro!: no_growth split: prod.split dest: calmD)

lemma audit_grows: "stepsS (log_grows env r) (audit_admin srv env r action target details)"
proof -
  have "al_rows (fst (Log b now x actor action target details ip l)) = al_rows l @ (if b \<and> x = None then [\<lparr>ae_ID = al_seq l + 1, ae_Timestamp = truncate_second now,
    ae_Actor = actor, ae_Action = event_text action, ae_Target = target, ae_Details = details, ae_IPAddress = ip\<rparr>] else [])" for b now x actor ip l
    by (simp add: Log_def split: option.split)
  then show ?thesis
    unfolding stepsS_def audit_admin_def audit_def log_grows_def by (auto split: prod.split)
qed

lemma after_audit:
  assumes "as_audit srv"
  shows "after_change env r (bindS (audit_admin srv env r action target details) (\<lambda>_. retS q))"
  unfolding after_change_def
proof (intro allI impI)
  fix y :: "'r admin_state" assume nf: "w_faults (ad_world y) = []"
  obtain y' z where a: "audit_admin srv env r action target details y = (y', z :: (admin_reply, unit) result)" by fastforce
  have "log_grows env r y y'" using stepsS_D [OF audit_grows a] .
  moreover have "z = Inr ()" "al_rows (ad_audit y') \<noteq> al_rows (ad_audit y)"
    using a nf assms by (auto simp: audit_admin_def audit_def Log_def)
  ultimately show "case bindS (audit_admin srv env r action target details) (\<lambda>_. retS q) y of (y', Inl q) \<Rightarrow> is_refused q | (y', Inr x) \<Rightarrow> noted env r y y'"
    using a by (simp add: bindS_def retS_def noted_def)
qed

lemma refuses_rules:
  "refuses (retS x)" "refuses (ignoreA m)" "refuses (failS (Refused c t e))" "refuses (audit_admin srv env r action target details)"
  by (auto simp: refuses_def is_refused_def ignoreA_def orElse_def bindS_def retS_def audit_admin_def audit_def split: prod.splits sum.splits)

lemma refuses_mapErr: "(\<And>e. is_refused (h e)) \<Longrightarrow> refuses (mapErrS h m)"
  by (auto simp: refuses_def mapErrS_Inl)

lemma refuses_bind: "refuses m \<Longrightarrow> (\<And>x. refuses (f x)) \<Longrightarrow> refuses (bindS m f)"
  by (auto simp: refuses_def bindS_Inl)

lemma refuses_if: "refuses m \<Longrightarrow> refuses m' \<Longrightarrow> refuses (if b then m else m')"
  by simp

lemma refuses_option: "refuses m \<Longrightarrow> (\<And>x. refuses (k x)) \<Longrightarrow> refuses (case z of None \<Rightarrow> m | Some x \<Rightarrow> k x)"
  by (cases z) simp_all

lemma is_refused_simp: "is_refused (Refused c t e)"
  by (simp add: is_refused_def)

lemma before_changeD:
  assumes "before_change env r m" "m y = (y', z)" "z = Inl q \<or> z = Inr q" "w_faults (ad_world y) = []" "\<not> same_accounts y y'" "\<not> is_refused q"
  shows "noted env r y y'"
  using assms(1) [unfolded before_change_def, rule_format, OF assms(4)] assms(2,3,5,6) by auto

lemma before_if: "before_change env r m \<Longrightarrow> before_change env r m' \<Longrightarrow> before_change env r (if b then m else m')"
  by simp

lemma before_option: "before_change env r m \<Longrightarrow> (\<And>x. before_change env r (k x)) \<Longrightarrow> before_change env r (case z of None \<Rightarrow> m | Some x \<Rightarrow> k x)"
  by (cases z) simp_all

lemmas refuses_steps = refuses_rules refuses_mapErr refuses_bind refuses_if refuses_option is_refused_simp

lemma set_admin_grows: "stepsS (log_grows env r) (execA (set_admin i b))"
  by (rule lgr.execA) (auto simp: set_admin_def intro!: no_growth)

lemma before_guard:
  assumes "\<And>x. before_change env r (f x)"
  shows "before_change env r (bindS (guardA b q) f)"
  by (rule before_bind [OF lgr.guardA sac.guardA assms])

lemma before_path:
  assumes "\<And>x. before_change env r (f x)"
  shows "before_change env r (bindS (path_id k what r1) f)"
  by (rule before_bind [OF lgr.path_id sac.path_id assms])

lemma before_check:
  assumes "\<And>x. before_change env r (f x)"
  shows "before_change env r (bindS (case z of None \<Rightarrow> retS () | Some e \<Rightarrow> failS (q e)) f)"
  by (rule before_bind [OF _ _ assms]) (intro lgr.steps, intro sac.steps)

lemma before_query:
  assumes "\<And>x. before_change env r (f x)"
  shows "before_change env r (bindS (orElse (queryA g) (\<lambda>e. retS d)) f)"
  by (rule before_bind [OF _ _ assms]) (intro lgr.steps, intro sac.steps)

lemma before_change_refused:
  assumes "stepsS (log_grows env r) m" "\<And>x. after_change env r (f x)"
  shows "before_change env r (bindS (mapErrS (\<lambda>e. Refused c t (g e)) m) f)"
  by (rule change_bind [OF lgr.mapErrS [OF assms(1)] _ assms(2)]) (auto simp: mapErrS_Inl is_refused_simp)

lemmas before_rules = before_if before_option before_guard before_path before_check before_query before_change_refused
lemmas grow_rules = lgr.steps liftW_grows calm_CreateUser calm_UpdatePassword calm_InitializeUserMailboxes set_admin_grows audit_grows

lemma UserAdd_audited:
  assumes "as_audit srv"
  shows "before_change env r (handleUserAdd A srv env csrf r)"
proof -
  have "before_change env r (user_form csrf)" unfolding user_form_def by (intro before_reads sac.steps)
  moreover have "before_change env r (failS q)" for q by (intro before_reads sac.steps)
  ultimately show ?thesis
    unfolding handleUserAdd_def Let_def ParseForm_def
    by (intro before_rules after_bind after_audit assms grow_rules refuses_steps)
qed

lemma UserEdit_audited:
  assumes "as_audit srv"
  shows "before_change env r (handleUserEdit A srv env csrf r)"
proof -
  have "before_change env r (user_edit_page csrf i)" for i unfolding user_edit_page_def by (intro before_reads sac.steps)
  then show ?thesis
    unfolding handleUserEdit_def change_password_def Let_def ParseForm_def
    by (intro before_rules after_bind after_audit assms grow_rules refuses_steps)
qed

lemma UserDelete_audited:
  assumes "as_audit srv"
  shows "before_change env r (handleUserDelete srv env r)"
proof -
  have "stepsS (log_grows env r) (execA (\<lambda>y. Inr (delete_users P y, ())))" for P
    by (rule lgr.execA) (auto simp: delete_users_def Let_def intro!: no_growth)
  then show ?thesis
    unfolding handleUserDelete_def only_post_def by (intro before_rules after_audit assms)
qed

lemma DomainDelete_audited:
  assumes "as_audit srv"
  shows "before_change env r (handleDomainDelete srv env r)"
proof -
  have "stepsS (log_grows env r) (execA (\<lambda>y. Inr (delete_domain i y, ())))" for i
    by (rule lgr.execA) (auto simp: delete_domain_def delete_users_def Let_def intro!: no_growth)
  then show ?thesis
    unfolding handleDomainDelete_def only_post_def by (intro before_rules after_audit assms)
qed

lemma DomainAdd_audited:
  assumes "as_audit srv"
  shows "before_change env r (handleDomainAdd srv env csrf r)"
proof -
  have g: "stepsS (log_grows env r) (execA (insert_domain name))" for name
    by (rule lgr.execA) (auto simp: insert_domain_def Let_def intro!: no_growth split: if_splits)
  have s: "same_accounts y y'" if "execA (insert_domain name) y = (y', Inl e)" for name y y' e
    using that same_worldD [OF after_fault_same [of y]]
    by (auto simp: execA_def same_accounts_def split: prod.splits option.splits sum.splits)
  have ins: "before_change env r (bindS (mapErrS h (execA (insert_domain name))) f)" if "\<And>x. after_change env r (f x)" for h name f
    by (rule change_bind [OF lgr.mapErrS [OF g] _ that]) (auto simp: mapErrS_Inl dest: s)
  have "before_change env r (retS q)" for q by (intro before_reads sac.steps)
  then show ?thesis
    unfolding handleDomainAdd_def Let_def ParseForm_def by (intro before_if before_guard before_check before_query ins after_audit assms)
qed

lemma handlers_audited:
  assumes "as_audit srv"
  shows "before_change env r (admin_handler A R srv env csrf r p)"
proof (cases "p \<in> set changing")
  case True
  then show ?thesis
    unfolding admin_handler_def changing_def list.set insert_iff empty_iff
    by (elim disjE) (simp_all add: UserAdd_audited UserEdit_audited UserDelete_audited DomainAdd_audited DomainDelete_audited assms)
next
  case False
  then show ?thesis by (intro before_reads sac.reading_handlers)
qed

text \<open>C6. When the database works and the request is not refused, a change of users, domains or administrators is in the audit log: the log has
  grown, what was in it is still there, and the new events name the user of the session and the address of the client.\<close>

theorem account_changes_audited:
  assumes "serve_admin A R srv env r y = (y', hs, q)" and "as_audit srv" and "w_faults (ad_world y) = []"
    and "\<not> same_accounts y y'" and "\<not> is_refused q"
  shows "\<exists>c sess evs. aq_Cookie r = Some c \<and> ad_sessions y c = Some sess \<and> evs \<noteq> [] \<and> al_rows (ad_audit y') = al_rows (ad_audit y) @ evs \<and>
    (\<forall>ev\<in>set evs. ae_Actor ev = ''user:'' @ show_int (se_userID sess) \<and> ae_IPAddress ev = client_ip r)"
proof -
  have "y' \<noteq> y" using assms(4) sac.same by auto
  with serve_admin_cases [OF assms(1)] obtain c csrf r1 z where r1: "r1 = r \<or> r1 = r\<lparr>aq_FormErr := None\<rparr>"
    and m: "admin_mux A R srv env csrf r1 (y\<lparr>ad_csrf := c\<rparr>) = (y', z)" and z: "z = Inl q \<or> z = Inr q" by blast
  let ?y = "after_fault (y\<lparr>ad_csrf := c\<rparr>)"
  have acc: "same_accounts y ?y" using same_worldD [OF after_fault_same [of y]] by (simp add: same_accounts_def)
  have "\<not> untouched R srv (y\<lparr>ad_csrf := c\<rparr>) y'" using assms(4) by (auto simp: untouched_def same_core_def same_accounts_def same_worldD)
  with admin_mux_cases [OF m] obtain p where s: "signed_in env r1 (y\<lparr>ad_csrf := c\<rparr>)" and h: "admin_handler A R srv env csrf r1 p ?y = (y', z)" by blast
  have "\<not> same_accounts ?y y'" using assms(4) sac.trans [OF acc] by blast
  moreover have "w_faults (ad_world ?y) = []" using assms(3) by simp
  ultimately have n: "noted env r1 ?y y'"
    using before_changeD [OF handlers_audited [OF assms(2)] h z] assms(5) by blast
  from s r1 obtain t sess where t: "aq_Cookie r = Some t" "isValidToken t" "ad_sessions y t = Some sess" "\<not> ax_now env > se_expiresAt sess"
    by (auto simp: signed_in_def split: option.splits)
  have user: "getSessionUser env r1 ?y = ''user:'' @ show_int (se_userID sess)"
    using t r1 by (auto simp: getSessionUser_def)
  have ip: "client_ip r1 = client_ip r" using r1 by (auto simp: client_ip_def http_request.truncate_def)
  from n obtain evs where "al_rows (ad_audit y') = al_rows (ad_audit y) @ evs" "evs \<noteq> []"
    "\<forall>ev\<in>set evs. ae_Actor ev = getSessionUser env r1 ?y \<and> ae_IPAddress ev = client_ip r1"
    by (auto simp: noted_def log_grows_def)
  with t user ip show ?thesis by auto
qed

text \<open>The exception: editing a user with a new password that is too short refuses the request, but has changed the administrator flag before,
  and writes nothing to the log.\<close>

lemma edit_refused_unlogged:
  assumes "aq_Method r = ''POST''" "aq_FormErr r = None" "Split (aq_Path r) (CHR ''/'') = [a, b, c, d, i]" "ParseInt64 i = Some userID"
    "w_faults (ad_world y) = []" "list_ex (\<lambda>u. u_id u = userID) (w_users (ad_world y))"
    "FormValue r ''is_admin'' = ''on''" "Password (FormValue r ''password'') = Some e" "FormValue r ''password'' \<noteq> []"
  shows "handleUserEdit A srv env csrf r y = (y\<lparr>ad_admins := List.insert userID (ad_admins y)\<rparr>, Inl (Refused 400 [] (Some (ByInput e))))"
  using assms
  by (simp add: handleUserEdit_def path_id_def guardA_def ParseForm_def change_password_def bindS_def retS_def failS_def mapErrS_def orElse_def
      execA_def set_admin_def Let_def)

section \<open>Deleting a queued message\<close>

text \<open>Deleting a message of the queue records it as failed and takes it out of the processing set, but leaves the pending set as it is:
  a message that waits for its next attempt is delivered all the same.\<close>

theorem queue_delete_keeps_pending:
  assumes "redis_server R" and "handleQueueDelete R srv env r y = (y', Inr q)" and "as_queue srv = Some qu"
  shows "\<exists>i. Split (aq_Path r) (CHR ''/'') ! 4 = i \<and> v_zset (rd_view R (ad_redis y')) (failedKey qu) i = Some (float64 (ax_now env)) \<and>
    v_set (rd_view R (ad_redis y')) (processingKey qu) = v_set (rd_view R (ad_redis y)) (processingKey qu) - {i} \<and>
    v_zset (rd_view R (ad_redis y')) (pendingKey qu) = v_zset (rd_view R (ad_redis y)) (pendingKey qu)"
proof -
  let ?i = "Split (aq_Path r) (CHR ''/'') ! 4"
  from assms(2,3) obtain d' where f: "Fail R qu (ax_now env) ?i ''Manually deleted by admin'' (ad_redis y) = (d', None)" and y': "ad_redis y' = d'"
    unfolding handleQueueDelete_def queue_target_def only_post_def guardA_def Let_def
    by (auto simp: bindS_Inr liftQ_def to_result_def split: prod.splits if_splits option.splits)
  then obtain r1 msg where g: "GetMessage R qu ?i (ad_redis y) = (r1, Inr msg)" by (auto simp: Fail_def split: prod.splits sum.splits)
  from Fail_OkD [OF assms(1) f g] obtain d where v: "rd_view R d' = apply_cmds (fail_cmds qu (ax_now env) ?i d) (rd_view R (ad_redis y))" by blast
  show ?thesis unfolding y' v by (simp add: apply_cmds_def fail_cmds_def)
qed

section \<open>Tokens\<close>

text \<open>A CSRF token that has been used is refused from then on.\<close>

lemma csrf_token_once: "csrf_valid now t y \<Longrightarrow> \<not> csrf_valid now' t (csrf_take now t y)"
  by (auto simp: csrf_valid_def csrf_take_def split: option.splits)

text \<open>The method HEAD (or OPTIONS) passes without a token, and the handler that adds a user takes every method but GET for POST.\<close>

lemma head_needs_no_token:
  assumes "aq_Method r = ''HEAD''"
  shows "\<exists>csrf y1. y1 = fst (csrf_issue env y) \<and> fst (serve_admin A R srv env r y) = fst (run_handler (admin_mux A R srv env csrf r) y1)"
  using assms
  by (cases "csrf_issue env y") (auto simp: serve_admin_def withSecurityHeaders_def withCSRF_def safe_method_def split: prod.split intro: exI [of _ "snd (csrf_issue env y)"])

lemma head_adds_user:
  assumes "aq_Method r \<noteq> ''GET''"
  shows "fst (handleUserAdd A srv env csrf r y) = fst (handleUserAdd A srv env csrf (r\<lparr>aq_Method := ''POST''\<rparr>) y)"
proof -
  have keep: "fst (bindS m (\<lambda>_. retS q) y) = fst (bindS m (\<lambda>_. retS q') y)" for m q q' y
    by (simp add: bindS_def retS_def split: prod.split sum.split)
  have b: "fst (bindS m f y) = fst (bindS m g y)" if "\<And>x y. fst (f x y) = fst (g x y)" for m f g y
    using that by (simp add: bindS_def split: prod.split sum.split)
  have same: "FormValue (r\<lparr>aq_Method := ''POST''\<rparr>) = FormValue r" "ParseForm (r\<lparr>aq_Method := ''POST''\<rparr>) = ParseForm r"
    "audit_admin srv env (r\<lparr>aq_Method := ''POST''\<rparr>) = audit_admin srv env r"
    by (auto simp: FormValue_def ParseForm_def audit_admin_def audit_def getSessionUser_def client_ip_def http_request.truncate_def fun_eq_iff)
  show ?thesis
    unfolding handleUserAdd_def Let_def same using assms
    by (simp, intro b keep) (auto intro!: b keep split: option.split)
qed

text \<open>Logging out removes the cookie of the browser only: the session stays in the table until it expires.\<close>

lemma logout_keeps_session: "fst (handleLogout r y) = y"
  by (simp add: handleLogout_def retS_def)

text \<open>A client that the limiter blocks gets the login page whatever it sends.\<close>

lemma blocked_login:
  assumes "IsBlocked (ad_limiter y) (ax_now env) (client_ip r)"
  shows "\<exists>v. handleLogin A srv env csrf r y = (y, Inl (login_page csrf (Some v)))"
  using assms by (auto simp: handleLogin_def failS_def)

section \<open>Witnesses\<close>

text \<open>A server with the accounts of \<open>wworld\<close>, whose first user is signed in as an administrator and deletes the second one.\<close>

definition wtok :: string where "wtok = replicate 32 (CHR ''a'')"

definition wasrv :: admin_server where
  "wasrv = \<lparr>as_queue = Some wq, as_sieve = True, as_audit = True, as_hostname = ''mx.x.org'', as_domain = ''x.org'', as_maildirPath = [], as_startTime = 0\<rparr>"

definition waenv :: admin_env where
  "waenv = \<lparr>ax_now = 50, ax_clock = [], ax_csrfRand = Inr (replicate 32 (CHR ''x'')), ax_sessionRand = Inr (replicate 32 (CHR ''y'')), ax_salt = Inr ''salt'',
     ax_msgRand = None, ax_rfc1123 = [], ax_rfc1123z = [], ax_stamp = [], ax_tempFile = Inl ''disk full'', ax_written = False, ax_metrics = [],
     ax_lookupMX = (\<lambda>d. Inl ''no such host''), ax_lookupTXT = (\<lambda>d. Inl ''no such host'')\<rparr>"

definition wastate :: "mem admin_state" where
  "wastate = \<lparr>ad_world = wworld, ad_admins = [1], ad_domain_seq = 1, ad_scripts = [], ad_script_seq = 0, ad_limiter = NewRateLimiter 5 100 100,
     ad_sessions = [wtok \<mapsto> \<lparr>se_userID = 1, se_createdAt = 0, se_expiresAt = 1000\<rparr>], ad_csrf = [wtok \<mapsto> 100], ad_audit = \<lparr>al_rows = [], al_seq = 0\<rparr>,
     ad_auth_log = [], ad_delivery_log = [], ad_redis = wmem1, ad_tmp = []\<rparr>"

definition wareq :: "string \<Rightarrow> (string \<times> string) list \<Rightarrow> admin_request" where
  "wareq p form = \<lparr>rq_XForwardedFor = [], rq_XRealIP = [], rq_RemoteAddr = ''192.0.2.7:4711'', aq_Method = ''POST'', aq_Path = p, aq_RawQuery = [], aq_Query = [],
     aq_Form = form, aq_FormErr = None, aq_Cookie = Some wtok, aq_CSRFHeader = wtok, aq_TLS = True\<rparr>"

lemma wtok_ok: "isValidToken wtok" "csrf_token (wareq p []) = wtok"
  unfolding wtok_def by code_simp (simp add: csrf_token_def FormValue_def lookup_first_def wareq_def wtok_def)

definition wdelete :: admin_request where "wdelete = wareq ''/admin/users/delete/2'' []"

definition wdeleted :: "mem admin_state \<times> full_reply" where
  "wdeleted = serve_admin wargon mem_redis wasrv waenv wdelete wastate"

lemma wdelete_route: "mux_route admin_patterns ''/admin/users/delete/2'' = Route ''/admin/users/delete/''" "''/admin/users/delete/'' \<notin> set open_patterns"
  "Split ''/admin/users/delete/2'' (CHR ''/'') = [[], ''admin'', ''users'', ''delete'', ''2'']" "ParseInt64 ''2'' = Some 2"
  by code_simp+

lemma wdelete_sel:
  "aq_Method wdelete = ''POST''" "aq_Path wdelete = ''/admin/users/delete/2''" "aq_Cookie wdelete = Some wtok" "aq_FormErr wdelete = None" "csrf_token wdelete = wtok"
  using wtok_ok(2) by (simp_all add: wdelete_def wareq_def)

lemma wastate_sel: "ad_sessions wastate wtok = Some \<lparr>se_userID = 1, se_createdAt = 0, se_expiresAt = 1000\<rparr>" "ad_csrf wastate wtok = Some 100"
  "ad_world wastate = wworld" "ad_admins wastate = [1]" "ad_audit wastate = \<lparr>al_rows = [], al_seq = 0\<rparr>" "ad_redis wastate = wmem1" "ax_now waenv = 50" "as_audit wasrv"
  by (simp_all add: wastate_def waenv_def wasrv_def)

lemma wcsrf: "csrf_valid 50 wtok wastate" "\<not> safe_method ''POST''"
  by (simp_all add: csrf_valid_def wtok_ok wastate_sel safe_method_def)

lemma serve_post:
  assumes "\<not> safe_method (aq_Method r)" "csrf_valid (ax_now env) (csrf_token r) y" "aq_FormErr r = None"
  shows "\<exists>c csrf hs y' q. run_handler (admin_mux A R srv env csrf r) (y\<lparr>ad_csrf := c\<rparr>) = (y', q) \<and> serve_admin A R srv env r y = (y', hs, q)"
proof -
  have "r\<lparr>aq_FormErr := None\<rparr> = r" using assms(3) by simp
  moreover have "\<exists>c. csrf_take (ax_now env) (csrf_token r) y = y\<lparr>ad_csrf := c\<rparr>"
    unfolding csrf_take_def by (auto split: option.split intro: exI [of _ "ad_csrf y"])
  ultimately show ?thesis
    using assms(1,2) by (auto simp: serve_admin_def withSecurityHeaders_def withCSRF_def csrf_issue_def Let_def split: prod.split) blast
qed

lemma withAuth_signed_in:
  assumes "signed_in env r y" "w_faults (ad_world y) = []"
  shows "withAuth env r next y = next y"
  using assms
  by (auto simp: signed_in_def withAuth_def validateSession_def bindS_def mapErrS_def orElse_def queryA_def split: option.splits)

lemma wsigned_in: "signed_in waenv (wareq p f) (wastate\<lparr>ad_csrf := c\<rparr>)"
  by (simp add: signed_in_def wareq_def wtok_ok wastate_sel is_admin_def) (simp add: wworld_def)

lemma wdelete_mux:
  "admin_mux A R srv waenv csrf wdelete (wastate\<lparr>ad_csrf := c\<rparr>) = handleUserDelete srv waenv wdelete (wastate\<lparr>ad_csrf := c\<rparr>)"
proof -
  have "signed_in waenv wdelete (wastate\<lparr>ad_csrf := c\<rparr>)" unfolding wdelete_def by (rule wsigned_in)
  moreover have "w_faults (ad_world (wastate\<lparr>ad_csrf := c\<rparr>)) = []" by (simp add: wastate_sel wworld_users)
  moreover have "admin_handler A R srv waenv csrf wdelete ''/admin/users/delete/'' = handleUserDelete srv waenv wdelete"
    by (simp add: admin_handler_def)
  ultimately show ?thesis
    by (simp add: admin_mux_def wdelete_sel wdelete_route withAuth_signed_in)
qed

lemma wdelete_run: "\<exists>y'. handleUserDelete wasrv waenv wdelete (wastate\<lparr>ad_csrf := c\<rparr>) = (y', Inr (see_other wdelete ''/admin/users'')) \<and>
    w_users (ad_world y') = [w_users wworld ! 0]"
  by (simp add: handleUserDelete_def only_post_def path_id_def guardA_def wdelete_sel wdelete_route bindS_def retS_def mapErrS_def orElse_def
      execA_def wastate_sel wworld_users audit_admin_def audit_def delete_users_def Let_def)
    (simp add: wworld_def)

lemma wdeleted_ok: "\<exists>hs. wdeleted = (fst wdeleted, hs, see_other wdelete ''/admin/users'')" "w_users (ad_world (fst wdeleted)) = [w_users wworld ! 0]"
proof -
  obtain c csrf hs y2 q where run: "run_handler (admin_mux wargon mem_redis wasrv waenv csrf wdelete) (wastate\<lparr>ad_csrf := c\<rparr>) = (y2, q)"
    and s: "wdeleted = (y2, hs, q)"
    unfolding wdeleted_def using serve_post [of wdelete waenv wastate wargon mem_redis wasrv] wcsrf by (auto simp: wdelete_sel wastate_sel)
  obtain y' where "handleUserDelete wasrv waenv wdelete (wastate\<lparr>ad_csrf := c\<rparr>) = (y', Inr (see_other wdelete ''/admin/users''))"
    and u: "w_users (ad_world y') = [w_users wworld ! 0]" using wdelete_run by blast
  then have "run_handler (admin_mux wargon mem_redis wasrv waenv csrf wdelete) (wastate\<lparr>ad_csrf := c\<rparr>) = (y', see_other wdelete ''/admin/users'')"
    by (simp add: run_handler_def wdelete_mux)
  with s run have "wdeleted = (y', hs, see_other wdelete ''/admin/users'')" by simp
  note w = this
  have f: "fst wdeleted = y'" unfolding w by (rule fst_conv)
  show "\<exists>hs. wdeleted = (fst wdeleted, hs, see_other wdelete ''/admin/users'')" unfolding f using w by blast
  show "w_users (ad_world (fst wdeleted)) = [w_users wworld ! 0]" unfolding f by (rule u)
qed

lemma wdeleted_changed: "\<not> same_accounts wastate (fst wdeleted)" "\<not> untouched R srv wastate (fst wdeleted)" "\<not> is_refused (see_other wdelete u)"
proof -
  have n: "w_users (ad_world (fst wdeleted)) \<noteq> w_users wworld" unfolding wdeleted_ok by (simp add: wworld_def)
  then show "\<not> same_accounts wastate (fst wdeleted)" by (simp add: same_accounts_def wastate_sel)
  show "\<not> untouched R srv wastate (fst wdeleted)" using n same_worldD(2) by (auto simp: untouched_def same_core_def wastate_sel)
  show "\<not> is_refused (see_other wdelete u)" by (simp add: is_refused_def see_other_def)
qed

theorem admin_change_needs_session_witness: "\<not> same_accounts wastate (fst wdeleted) \<and> signed_in waenv wdelete wastate"
proof -
  have "serve_admin wargon mem_redis wasrv waenv wdelete wastate = (fst wdeleted, snd wdeleted)" by (simp add: wdeleted_def)
  from admin_change_needs_session [OF this wdeleted_changed(2)] show ?thesis using wdeleted_changed(1) by simp
qed

lemma wastate_ok: "admin_ok wastate"
proof -
  have "refs_ok wworld" unfolding refs_ok_def using wworld_ok by (simp add: wworld_def)
  then show ?thesis unfolding admin_ok_def wastate_sel by (simp add: wastate_def store_ok_def) (simp add: wworld_def)
qed

theorem admin_keeps_schema_witness: "admin_ok (fst wdeleted) \<and> w_users (ad_world (fst wdeleted)) \<noteq> w_users wworld"
proof -
  have "serve_admin wargon mem_redis wasrv waenv wdelete wastate = (fst wdeleted, snd wdeleted)" by (simp add: wdeleted_def)
  from admin_keeps_schema [OF this wastate_ok] wdeleted_changed(1) show ?thesis
    unfolding wdeleted_ok by (simp add: wworld_def)
qed

theorem account_changes_audited_witness: "\<exists>ev\<in>set (al_rows (ad_audit (fst wdeleted))). ae_Actor ev = ''user:1''"
proof -
  obtain hs where "serve_admin wargon mem_redis wasrv waenv wdelete wastate = (fst wdeleted, hs, see_other wdelete ''/admin/users'')"
    using wdeleted_ok(1) by (auto simp: wdeleted_def)
  moreover have "w_faults (ad_world wastate) = []" by (simp add: wastate_sel wworld_users)
  ultimately obtain c sess evs where e: "aq_Cookie wdelete = Some c" "ad_sessions wastate c = Some sess" "evs \<noteq> []"
    "al_rows (ad_audit (fst wdeleted)) = al_rows (ad_audit wastate) @ evs" "\<forall>ev\<in>set evs. ae_Actor ev = ''user:'' @ show_int (se_userID sess)"
    using account_changes_audited [of wargon mem_redis wasrv waenv wdelete wastate "fst wdeleted"] wastate_sel(8) wdeleted_changed(1,3) by meson
  then have "sess = \<lparr>se_userID = 1, se_createdAt = 0, se_expiresAt = 1000\<rparr>" using wdelete_sel(3) wastate_sel(1) by simp
  then have "se_userID sess = 1" by simp
  moreover have "''user:'' @ show_int 1 = ''user:1''" by code_simp
  ultimately have "\<forall>ev\<in>set evs. ae_Actor ev = ''user:1''" using e(5) by (simp only: simp_thms)
  then show ?thesis using e(3,4) by (cases evs) simp_all
qed

text \<open>The first user logs in.\<close>

definition wlogin :: admin_request where
  "wlogin = wareq ''/admin/login'' [(''username'', '' Ann@X.org''), (''password'', ''secret12'')]"

definition wlogged :: "mem admin_state \<times> full_reply" where
  "wlogged = serve_admin wargon mem_redis wasrv waenv wlogin wastate"

definition wsession :: session where
  "wsession = \<lparr>se_userID = 1, se_createdAt = 50, se_expiresAt = 50 + 7 * 24 * Hour\<rparr>"

lemma wsession_user: "se_userID wsession = 1"
  by (simp add: wsession_def)

definition wnewtok :: string where
  "wnewtok = generateToken (ax_sessionRand waenv) (ax_clock waenv)"

lemma wlogin_sel: "aq_Method wlogin = ''POST''" "aq_Path wlogin = ''/admin/login''" "aq_FormErr wlogin = None" "csrf_token wlogin = wtok"
  "FormValue wlogin ''username'' = '' Ann@X.org''" "FormValue wlogin ''password'' = ''secret12''"
  "mux_route admin_patterns ''/admin/login'' = Route ''/admin/login''" "''/admin/login'' \<in> set open_patterns"
  by (simp_all add: wlogin_def wareq_def FormValue_def lookup_first_def csrf_token_def open_patterns_def) code_simp

lemma wauth: "Authenticate wargon '' Ann@X.org'' ''secret12'' wworld = (wworld, Inr (scan_user (w_users wworld ! 0, hd (w_domains wworld))))"
  using wworld_users wemails verify_hash [OF wargon_ok whash_eq, of "''secret12''"] lookup_ok [OF wworld_ok wworld_users(6,1)]
  by (simp add: Authenticate_def runE Validate_eqs)

lemma wlogin_run: "\<exists>y' z. handleLogin wargon wasrv waenv csrf wlogin (wastate\<lparr>ad_csrf := c\<rparr>) = (y', z) \<and> ad_sessions y' = (ad_sessions wastate)(wnewtok \<mapsto> wsession)"
proof -
  have b: "\<not> IsBlocked (ad_limiter wastate) 50 (client_ip wlogin)"
    by (simp add: wastate_def IsBlocked_def NewRateLimiter_def Mapping.lookup_empty)
  have a: "is_admin 1 (wastate\<lparr>ad_csrf := c, ad_world := wworld\<rparr>) = Some True" "u_id (w_users wworld ! 0) = 1"
    by (simp_all add: is_admin_def wastate_sel) (simp_all add: wworld_def)
  then show ?thesis
    using b by (simp add: handleLogin_def wlogin_sel wastate_sel ParseForm_def guardA_def bindS_def retS_def liftW_def wauth queryA_def wworld_users
        successful_login_def createSession_def audit_def wnewtok_def wsession_def Let_def)
qed

lemma wlogged_session: "ad_sessions (fst wlogged) wnewtok = Some wsession"
proof -
  obtain c csrf hs y2 q where run: "run_handler (admin_mux wargon mem_redis wasrv waenv csrf wlogin) (wastate\<lparr>ad_csrf := c\<rparr>) = (y2, q)"
    and s: "wlogged = (y2, hs, q)"
    unfolding wlogged_def using serve_post [of wlogin waenv wastate wargon mem_redis wasrv] wcsrf by (auto simp: wlogin_sel wastate_sel)
  obtain y' z where "handleLogin wargon wasrv waenv csrf wlogin (wastate\<lparr>ad_csrf := c\<rparr>) = (y', z)"
    and u: "ad_sessions y' = (ad_sessions wastate)(wnewtok \<mapsto> wsession)" using wlogin_run by blast
  then have "fst (run_handler (admin_mux wargon mem_redis wasrv waenv csrf wlogin) (wastate\<lparr>ad_csrf := c\<rparr>)) = y'"
    by (cases z) (simp_all add: run_handler_def admin_mux_def wlogin_sel open_handler_def)
  with run have "y2 = y'" by simp
  moreover have "fst wlogged = y2" unfolding s by (rule fst_conv)
  ultimately show ?thesis using u by (simp only: fun_upd_same)
qed

theorem session_needs_password_witness: "login_ok wargon waenv wlogin wastate 1 \<and> ad_sessions (fst wlogged) wnewtok = Some wsession"
proof -
  have "serve_admin wargon mem_redis wasrv waenv wlogin wastate = (fst wlogged, snd wlogged)" by (simp add: wlogged_def)
  moreover have "wnewtok \<noteq> wtok" by code_simp
  then have "ad_sessions wastate wnewtok \<noteq> Some wsession" by (simp add: wastate_def)
  ultimately show ?thesis
    using session_needs_password [of wargon mem_redis wasrv waenv wlogin wastate "fst wlogged" "snd wlogged" wnewtok wsession] wlogged_session wsession_user
    by (simp only: simp_thms)
qed

text \<open>The message that was queued is deleted and stays pending.\<close>

definition wqdelete :: admin_request where "wqdelete = wareq ''/admin/queue/delete/a'' []"

theorem queue_delete_keeps_pending_witness:
  "\<exists>y'. handleQueueDelete mem_redis wasrv waenv wqdelete wastate = (y', Inr (see_other wqdelete ''/admin/queue'')) \<and>
     v_zset (rd_view mem_redis (ad_redis y')) (pendingKey wq) ''a'' = Some (float64 100)"
proof -
  have sp: "Split ''/admin/queue/delete/a'' (CHR ''/'') = [[], ''admin'', ''queue'', ''delete'', ''a'']" by code_simp
  have f: "snd (Fail mem_redis wq 50 ''a'' ''Manually deleted by admin'' wmem1) = None" unfolding wmem1_def by code_simp
  have p: "v_zset (rd_view mem_redis wmem1) (pendingKey wq) ''a'' = Some (float64 100)" unfolding wmem1_def by code_simp
  obtain d' where d: "Fail mem_redis wq 50 ''a'' ''Manually deleted by admin'' wmem1 = (d', None)" using f by (metis prod.collapse)
  have h: "handleQueueDelete mem_redis wasrv waenv wqdelete wastate = (wastate\<lparr>ad_redis := d'\<rparr>, Inr (see_other wqdelete ''/admin/queue''))"
    using d sp by (simp add: handleQueueDelete_def queue_target_def only_post_def guardA_def wqdelete_def wareq_def wasrv_def bindS_def retS_def mapErrS_def orElse_def
        liftQ_def to_result_def wastate_sel Let_def)
  have "as_queue wasrv = Some wq" by (simp add: wasrv_def)
  from queue_delete_keeps_pending [OF memr.redis_server_axioms h this] show ?thesis using h p by (auto simp: wastate_sel)
qed

end
