(* ===== verification/Server_Config.thy ===== *)
theory Server_Config
  imports Redis_Queue Go_Path "HOL-Library.Multiset"
begin

text \<open>
  Package \<^verbatim>\<open>internal/config\<close>: the configuration, its defaults, loading and validation. The YAML reader and the file system are arguments.
  Go visits the entries of a map in any order, so every loop over a map has its own order, an argument as well. \<open>ParseDuration\<close> of
  package time is here, with its arithmetic on 64 bits and its floating-point fractions.
\<close>

section \<open>Durations\<close>

datatype duration_error = InvalidDuration | MissingUnit | UnknownUnit string

text \<open>\<open>leadingInt\<close>: the number, or nothing when it exceeds $2^{63}$, and the rest of the text.\<close>

fun leadingInt :: "nat \<Rightarrow> string \<Rightarrow> (nat \<times> string) option" where
  "leadingInt x [] = Some (x, [])"
| "leadingInt x (c # s) =
     (if \<not> is_digit c then Some (x, c # s)
      else if x > 2 ^ 63 div 10 then None
      else let y = x * 10 + digit_val c in if y > 2 ^ 63 then None else leadingInt y s)"

text \<open>\<open>leadingFraction\<close>: the digits that fit, the power of ten that goes with them as a float64, and the rest. The flag says that
  further digits are ignored.\<close>

fun leadingFraction :: "bool \<Rightarrow> nat \<Rightarrow> nat \<Rightarrow> string \<Rightarrow> nat \<times> nat \<times> string" where
  "leadingFraction overflow x scale [] = (x, scale, [])"
| "leadingFraction overflow x scale (c # s) =
     (if \<not> is_digit c then (x, scale, c # s)
      else if overflow then leadingFraction True x scale s
      else if x > (2 ^ 63 - 1) div 10 then leadingFraction True x scale s
      else let y = x * 10 + digit_val c
           in if y > 2 ^ 63 then leadingFraction True x scale s
              else leadingFraction False y (nat (float64 (int (scale * 10)))) s)"

text \<open>\<open>uint64(float64(f) * (float64(unit) / scale))\<close>: the quotient as a mantissa of 53 bits and a power of two, the product rounded to 53 bits, and
  what is left of the binary point.\<close>

definition fraction_ns :: "nat \<Rightarrow> nat \<Rightarrow> nat \<Rightarrow> nat" where
  "fraction_ns f unit scale =
     (let k0 = 52 + bit_len scale - bit_len unit;
          k = (if unit * 2 ^ k0 div scale \<ge> 2 ^ 52 then k0 else k0 + 1);
          m = round_even scale (unit * 2 ^ k) div scale
      in nat (float64 (float64 (int f) * int m)) div 2 ^ k)"

definition unitMap :: "string \<Rightarrow> nat option" where
  "unitMap u =
     (if u = ''ns'' then Some 1
      else if u = ''us'' \<or> u = [CHR 0xC2, CHR 0xB5, CHR ''s''] \<or> u = [CHR 0xCE, CHR 0xBC, CHR ''s''] then Some 1000
      else if u = ''ms'' then Some 1000000
      else if u = ''s'' then Some 1000000000
      else if u = ''m'' then Some 60000000000
      else if u = ''h'' then Some 3600000000000
      else None)"

definition unit_char :: "char \<Rightarrow> bool" where
  "unit_char c \<longleftrightarrow> c \<noteq> CHR ''.'' \<and> \<not> is_digit c"

text \<open>One number with its unit.\<close>

definition duration_part :: "string \<Rightarrow> (duration_error, nat \<times> string) result" where
  "duration_part s =
     (if \<not> (hd s = CHR ''.'' \<or> is_digit (hd s)) then Inl InvalidDuration
      else case leadingInt 0 s of
        None \<Rightarrow> Inl InvalidDuration
      | Some (v, s1) \<Rightarrow>
          (let pre = (length s \<noteq> length s1);
               (f, scale, s2) = (case s1 of [] \<Rightarrow> (0, 1, s1) | c # r \<Rightarrow> if c = CHR ''.'' then leadingFraction False 0 1 r else (0, 1, s1));
               post = (case s1 of [] \<Rightarrow> False | c # r \<Rightarrow> c = CHR ''.'' \<and> length r \<noteq> length s2);
               u = takeWhile unit_char s2
           in if \<not> pre \<and> \<not> post then Inl InvalidDuration
              else if u = [] then Inl MissingUnit
              else case unitMap u of
                None \<Rightarrow> Inl (UnknownUnit u)
              | Some unit \<Rightarrow>
                  if v > 2 ^ 63 div unit then Inl InvalidDuration
                  else (let w = v * unit + (if f > 0 then fraction_ns f unit scale else 0)
                        in if f > 0 \<and> w > 2 ^ 63 then Inl InvalidDuration else Inr (w, dropWhile unit_char s2))))"

lemma leadingInt_length: "leadingInt x s = Some (v, r) \<Longrightarrow> length r \<le> length s"
  by (induction x s rule: leadingInt.induct) (auto split: if_splits simp: Let_def)

lemma leadingFraction_length: "leadingFraction b x sc s = (f, sc', r) \<Longrightarrow> length r \<le> length s"
  by (induction b x sc s rule: leadingFraction.induct) (auto split: if_splits simp: Let_def)

lemma dropWhile_shorter: "takeWhile P s \<noteq> [] \<Longrightarrow> length (dropWhile P s) < length s"
  by (cases s) (auto split: if_splits simp: le_imp_less_Suc length_dropWhile_le)

lemma duration_part_length: "duration_part s = Inr (v, r) \<Longrightarrow> length r < length s"
proof -
  assume p: "duration_part s = Inr (v, r)"
  obtain x s1 where s1: "leadingInt 0 s = Some (x, s1)" using p by (auto simp: duration_part_def split: if_splits option.splits)
  obtain f sc s2 where s2: "(case s1 of [] \<Rightarrow> (0, 1, s1) | c # r \<Rightarrow> if c = CHR ''.'' then leadingFraction False 0 1 r else (0, 1, s1)) = (f, sc, s2)"
    by (metis prod.exhaust)
  have "length s2 \<le> length s1" using s2 leadingFraction_length [of False 0 1 _ f sc s2] by (fastforce split: list.splits if_splits)
  moreover have "takeWhile unit_char s2 \<noteq> [] \<and> r = dropWhile unit_char s2"
    using p unfolding duration_part_def s1 option.case prod.case s2 Let_def by (simp split: if_splits option.splits)
  ultimately show "length r < length s" using leadingInt_length [OF s1] dropWhile_shorter [of unit_char s2] by auto
qed

text \<open>The loop adds in 64 bits before it compares.\<close>

function duration_loop :: "nat \<Rightarrow> string \<Rightarrow> (duration_error, nat) result" where
  "duration_loop d s =
     (if s = [] then Inr d
      else case duration_part s of
        Inl e \<Rightarrow> Inl e
      | Inr (v, r) \<Rightarrow> (let d' = (d + v) mod 2 ^ 64 in if d' > 2 ^ 63 then Inl InvalidDuration else duration_loop d' r))"
  by auto
termination by (relation "measure (\<lambda>(d, s). length s)") (auto dest: duration_part_length)

declare duration_loop.simps [simp del]

definition ParseDuration :: "string \<Rightarrow> (duration_error, int) result" where
  "ParseDuration orig =
     (let neg = (orig \<noteq> [] \<and> hd orig = CHR ''-'');
          s = (if orig \<noteq> [] \<and> (hd orig = CHR ''-'' \<or> hd orig = CHR ''+'') then tl orig else orig)
      in if s = ''0'' then Inr 0
         else if s = [] then Inl InvalidDuration
         else case duration_loop 0 s of
           Inl e \<Rightarrow> Inl e
         | Inr d \<Rightarrow> if neg then Inr (- int d) else if d > 2 ^ 63 - 1 then Inl InvalidDuration else Inr (int d))"

section \<open>The configuration\<close>

record server_config =
  sc_Hostname :: string
  sc_Domain :: string
  sc_SMTPPort :: int
  sc_SubmissionPort :: int
  sc_SMTPSPort :: int
  sc_IMAPPort :: int
  sc_IMAPSPort :: int
  sc_DAVPort :: int
  sc_ShutdownTimeout :: string

record tls_config =
  tc_AutoTLS :: bool
  tc_Email :: string
  tc_CertFile :: string
  tc_KeyFile :: string
  tc_CacheDir :: string

record storage_config =
  st_DataDir :: string
  st_DatabasePath :: string
  st_MaildirPath :: string

record domain_config =
  dn_Name :: string
  dn_DKIMSelector :: string
  dn_DKIMKeyFile :: string

record security_config =
  se_RequireTLS :: bool
  se_VerifySPF :: bool
  se_VerifyDKIM :: bool
  se_VerifyDMARC :: bool
  se_SignOutbound :: bool
  se_MaxMessageSize :: int

record logging_config =
  lo_Level :: string
  lo_Format :: string
  lo_Output :: string

record queue_section =
  qc_RedisURL :: string
  qc_Prefix :: string
  qc_MaxRetries :: int
  qc_RetryMaxAge :: string

record delivery_section =
  dl_Workers :: int
  dl_ConnectTimeout :: string
  dl_CommandTimeout :: string
  dl_RequireTLS :: bool
  dl_VerifyTLS :: bool
  dl_RelayHost :: string

record admin_section =
  ac_Enabled :: bool
  ac_Port :: int
  ac_Listen :: string

record sieve_section =
  sv_Enabled :: bool
  sv_MaxScriptSize :: int
  sv_MaxScriptsPerUser :: int

record autodiscover_section =
  au_Enabled :: bool
  au_Port :: int
  au_Listen :: string
  au_DisplayName :: string

record config =
  cf_Server :: server_config
  cf_TLS :: tls_config
  cf_Storage :: storage_config
  cf_Domains :: "domain_config list"
  cf_Security :: security_config
  cf_Logging :: logging_config
  cf_Queue :: queue_section
  cf_Delivery :: delivery_section
  cf_Admin :: admin_section
  cf_Sieve :: sieve_section
  cf_Autodiscover :: autodiscover_section

definition DefaultConfig :: config where
  "DefaultConfig =
     \<lparr>cf_Server = \<lparr>sc_Hostname = ''localhost'', sc_Domain = ''localhost'', sc_SMTPPort = 25, sc_SubmissionPort = 587, sc_SMTPSPort = 465,
        sc_IMAPPort = 143, sc_IMAPSPort = 993, sc_DAVPort = 443, sc_ShutdownTimeout = ''30s''\<rparr>,
      cf_TLS = \<lparr>tc_AutoTLS = False, tc_Email = [], tc_CertFile = [], tc_KeyFile = [], tc_CacheDir = ''/var/lib/mailserver/acme''\<rparr>,
      cf_Storage = \<lparr>st_DataDir = ''/var/lib/mailserver'', st_DatabasePath = ''/var/lib/mailserver/mail.db'', st_MaildirPath = ''/var/lib/mailserver/maildir''\<rparr>,
      cf_Domains = [],
      cf_Security = \<lparr>se_RequireTLS = True, se_VerifySPF = True, se_VerifyDKIM = True, se_VerifyDMARC = True, se_SignOutbound = True,
        se_MaxMessageSize = 26214400\<rparr>,
      cf_Logging = \<lparr>lo_Level = ''info'', lo_Format = ''json'', lo_Output = ''stdout''\<rparr>,
      cf_Queue = \<lparr>qc_RedisURL = ''redis://localhost:6379/0'', qc_Prefix = ''mail'', qc_MaxRetries = 15, qc_RetryMaxAge = ''168h''\<rparr>,
      cf_Delivery = \<lparr>dl_Workers = 4, dl_ConnectTimeout = ''30s'', dl_CommandTimeout = ''5m'', dl_RequireTLS = False, dl_VerifyTLS = True, dl_RelayHost = []\<rparr>,
      cf_Admin = \<lparr>ac_Enabled = True, ac_Port = 8080, ac_Listen = ''127.0.0.1''\<rparr>,
      cf_Sieve = \<lparr>sv_Enabled = True, sv_MaxScriptSize = 32768, sv_MaxScriptsPerUser = 5\<rparr>,
      cf_Autodiscover = \<lparr>au_Enabled = True, au_Port = 8081, au_Listen = ''0.0.0.0'', au_DisplayName = []\<rparr>\<rparr>"

text \<open>The file system: what \<open>os.Stat\<close> tells of a path, and the error of opening it.\<close>

datatype stat_result = NotExist | StatError string | IsFile | IsDir

record host_files =
  hf_Stat :: "string \<Rightarrow> stat_result"
  hf_Open :: "string \<Rightarrow> string option"

text \<open>The errors: a text, or one that wraps the error of reading a duration.\<close>

datatype config_error = CfgError string | BadTimeout string duration_error

text \<open>\<open>Load\<close>: the reader of YAML gives a tree or an error, and decoding the tree changes the defaults.\<close>

definition Load :: "host_files \<Rightarrow> (string \<Rightarrow> (string, 'k) result) \<Rightarrow> ('k \<Rightarrow> config \<Rightarrow> (string, config) result) \<Rightarrow> string \<Rightarrow>
    (config_error, config) result" where
  "Load fs koanf_Load koanf_Unmarshal path =
     (if hf_Stat fs path = NotExist then Inr DefaultConfig
      else case koanf_Load path of
        Inl e \<Rightarrow> Inl (CfgError (''failed to load config file: '' @ e))
      | Inr k \<Rightarrow> (case koanf_Unmarshal k DefaultConfig of
            Inl e \<Rightarrow> Inl (CfgError (''failed to unmarshal config: '' @ e))
          | Inr cfg \<Rightarrow> Inr cfg))"

section \<open>Validation\<close>

text \<open>The orders in which the three loops over maps visit the entries.\<close>

record map_orders =
  mo_ports :: "(string \<times> int) list \<Rightarrow> (string \<times> int) list"
  mo_conflicts :: "(string \<times> int) list \<Rightarrow> (string \<times> int) list"
  mo_timeouts :: "(string \<times> string) list \<Rightarrow> (string \<times> string) list"

definition port_map :: "config \<Rightarrow> (string \<times> int) list" where
  "port_map c = (let s = cf_Server c in
     [(''server.smtp_port'', sc_SMTPPort s), (''server.submission_port'', sc_SubmissionPort s), (''server.smtps_port'', sc_SMTPSPort s),
      (''server.imap_port'', sc_IMAPPort s), (''server.imaps_port'', sc_IMAPSPort s), (''server.dav_port'', sc_DAVPort s)])"

definition port_ok :: "int \<Rightarrow> bool" where
  "port_ok p \<longleftrightarrow> \<not> (p < 1 \<or> p > 65535)"

fun range_loop :: "(string \<times> int) list \<Rightarrow> config_error option" where
  "range_loop [] = None"
| "range_loop ((name, port) # ps) =
     (if \<not> port_ok port then Some (CfgError (name @ '' must be between 1 and 65535 (got: '' @ show_int port @ '')''))
      else range_loop ps)"

fun conflict_loop :: "(int \<Rightarrow> string option) \<Rightarrow> (string \<times> int) list \<Rightarrow> config_error option" where
  "conflict_loop usedPorts [] = None"
| "conflict_loop usedPorts ((name, port) # ps) = (case usedPorts port of
     Some existing \<Rightarrow> Some (CfgError (''port conflict: '' @ name @ '' and '' @ existing @ '' both use port '' @ show_int port))
   | None \<Rightarrow> conflict_loop (usedPorts(port \<mapsto> name)) ps)"

definition validatePorts :: "map_orders \<Rightarrow> config \<Rightarrow> config_error option" where
  "validatePorts ord c = (case range_loop (mo_ports ord (port_map c)) of
     Some e \<Rightarrow> Some e
   | None \<Rightarrow> conflict_loop Map.empty (mo_conflicts ord (port_map c)))"

definition IsAbs :: "string \<Rightarrow> bool" where
  "IsAbs path = HasPrefix path ''/''"

definition validateStorage :: "config \<Rightarrow> config_error option" where
  "validateStorage c = (let s = cf_Storage c in
     if st_DataDir s = [] then Some (CfgError ''storage.data_dir is required'')
     else if st_DatabasePath s = [] then Some (CfgError ''storage.database_path is required'')
     else if st_MaildirPath s = [] then Some (CfgError ''storage.maildir_path is required'')
     else if \<not> IsAbs (st_DataDir s) then Some (CfgError (''storage.data_dir must be an absolute path (got: '' @ st_DataDir s @ '')''))
     else if \<not> IsAbs (st_DatabasePath s) then Some (CfgError (''storage.database_path must be an absolute path (got: '' @ st_DatabasePath s @ '')''))
     else if \<not> IsAbs (st_MaildirPath s) then Some (CfgError (''storage.maildir_path must be an absolute path (got: '' @ st_MaildirPath s @ '')''))
     else None)"

definition timeout_map :: "config \<Rightarrow> (string \<times> string) list" where
  "timeout_map c =
     [(''server.shutdown_timeout'', sc_ShutdownTimeout (cf_Server c)), (''delivery.connect_timeout'', dl_ConnectTimeout (cf_Delivery c)),
      (''delivery.command_timeout'', dl_CommandTimeout (cf_Delivery c)), (''queue.retry_max_age'', qc_RetryMaxAge (cf_Queue c))]"

definition timeout_limit :: "string \<Rightarrow> (int \<times> string) option" where
  "timeout_limit name =
     (if name = ''server.shutdown_timeout'' then Some (5 * 60 * 10 ^ 9, ''5m'')
      else if name = ''delivery.connect_timeout'' then Some (2 * 60 * 10 ^ 9, ''2m'')
      else if name = ''delivery.command_timeout'' then Some (10 * 60 * 10 ^ 9, ''10m'')
      else if name = ''queue.retry_max_age'' then Some (30 * 24 * 3600 * 10 ^ 9, ''30d'')
      else None)"

definition check_timeout :: "string \<Rightarrow> string \<Rightarrow> config_error option" where
  "check_timeout name timeout =
     (if timeout = [] then None
      else case ParseDuration timeout of
        Inl e \<Rightarrow> Some (BadTimeout name e)
      | Inr duration \<Rightarrow>
          if duration < 0 then Some (CfgError (name @ '' cannot be negative (got: '' @ timeout @ '')''))
          else if duration = 0 then Some (CfgError (name @ '' cannot be zero (got: '' @ timeout @ '')''))
          else (case timeout_limit name of
              Some (l, t) \<Rightarrow>
                if duration > l then Some (CfgError (name @ '' is too long, maximum is '' @ t @ '' (got: '' @ timeout @ '')'')) else None
            | None \<Rightarrow> None))"

fun timeout_loop :: "(string \<times> string) list \<Rightarrow> config_error option" where
  "timeout_loop [] = None"
| "timeout_loop ((name, timeout) # ts) = (case check_timeout name timeout of Some e \<Rightarrow> Some e | None \<Rightarrow> timeout_loop ts)"

definition validateTimeouts :: "map_orders \<Rightarrow> config \<Rightarrow> config_error option" where
  "validateTimeouts ord c = timeout_loop (mo_timeouts ord (timeout_map c))"

definition validateFileReadable :: "host_files \<Rightarrow> string \<Rightarrow> string option" where
  "validateFileReadable fs path =
     (if \<not> IsAbs path then Some (''must be an absolute path (got: '' @ path @ '')'')
      else case hf_Stat fs path of
        NotExist \<Rightarrow> Some (''file does not exist: '' @ path)
      | StatError e \<Rightarrow> Some (''cannot access file: '' @ e)
      | IsDir \<Rightarrow> Some (''path is a directory, expected a file: '' @ path)
      | IsFile \<Rightarrow> map_option (\<lambda>e. ''file is not readable: '' @ e) (hf_Open fs path))"

definition domain_at :: "nat \<Rightarrow> string" where
  "domain_at i = ''domains['' @ show_nat i @ ''].''"

fun validate_domains :: "host_files \<Rightarrow> bool \<Rightarrow> nat \<Rightarrow> domain_config list \<Rightarrow> config_error option" where
  "validate_domains fs sign i [] = None"
| "validate_domains fs sign i (d # ds) =
     (if dn_Name d = [] then Some (CfgError (domain_at i @ ''name is required''))
      else if sign \<and> dn_DKIMKeyFile d = [] then Some (CfgError (domain_at i @ ''dkim_key_file is required when sign_outbound is enabled''))
      else case (if dn_DKIMKeyFile d \<noteq> [] then validateFileReadable fs (dn_DKIMKeyFile d) else None) of
        Some e \<Rightarrow> Some (CfgError (domain_at i @ ''dkim_key_file: '' @ e))
      | None \<Rightarrow> validate_domains fs sign (i + 1) ds)"

definition validate_tls :: "host_files \<Rightarrow> tls_config \<Rightarrow> config_error option" where
  "validate_tls fs t =
     (if tc_AutoTLS t
      then (if tc_Email t = [] then Some (CfgError ''tls.email is required when auto_tls is enabled'')
            else if tc_CacheDir t = [] then Some (CfgError ''tls.cache_dir is required when auto_tls is enabled'')
            else None)
      else if tc_CertFile t \<noteq> [] \<and> tc_KeyFile t = [] then Some (CfgError ''tls.key_file is required when tls.cert_file is set'')
      else if tc_KeyFile t \<noteq> [] \<and> tc_CertFile t = [] then Some (CfgError ''tls.cert_file is required when tls.key_file is set'')
      else case (if tc_CertFile t \<noteq> [] then validateFileReadable fs (tc_CertFile t) else None) of
        Some e \<Rightarrow> Some (CfgError (''tls.cert_file: '' @ e))
      | None \<Rightarrow> (case (if tc_KeyFile t \<noteq> [] then validateFileReadable fs (tc_KeyFile t) else None) of
            Some e \<Rightarrow> Some (CfgError (''tls.key_file: '' @ e))
          | None \<Rightarrow> None))"

definition validate_limits :: "config \<Rightarrow> config_error option" where
  "validate_limits c =
     (if se_MaxMessageSize (cf_Security c) < 1024 then Some (CfgError ''security.max_message_size must be at least 1024 bytes'')
      else if se_MaxMessageSize (cf_Security c) > 100 * 1024 * 1024
      then Some (CfgError ''security.max_message_size cannot exceed 100MB (104857600 bytes)'')
      else if qc_MaxRetries (cf_Queue c) < 1 then Some (CfgError ''queue.max_retries must be at least 1'')
      else if qc_MaxRetries (cf_Queue c) > 100 then Some (CfgError ''queue.max_retries cannot exceed 100'')
      else if qc_RedisURL (cf_Queue c) = [] then Some (CfgError ''queue.redis_url is required'')
      else if dl_Workers (cf_Delivery c) < 1 then Some (CfgError ''delivery.workers must be at least 1'')
      else if dl_Workers (cf_Delivery c) > 100 then Some (CfgError ''delivery.workers cannot exceed 100'')
      else None)"

definition validate_logging :: "logging_config \<Rightarrow> config_error option" where
  "validate_logging l =
     (if lo_Level l \<noteq> [] \<and> lo_Level l \<notin> set [''debug'', ''info'', ''warn'', ''error'']
      then Some (CfgError (''logging.level must be one of: debug, info, warn, error (got: '' @ lo_Level l @ '')''))
      else if lo_Format l \<noteq> [] \<and> lo_Format l \<notin> set [''json'', ''text'']
      then Some (CfgError (''logging.format must be one of: json, text (got: '' @ lo_Format l @ '')''))
      else None)"

definition validate_admin :: "admin_section \<Rightarrow> config_error option" where
  "validate_admin a =
     (if \<not> ac_Enabled a then None
      else if ac_Port a < 1 \<or> ac_Port a > 65535
      then Some (CfgError (''admin.port must be between 1 and 65535 (got: '' @ show_int (ac_Port a) @ '')''))
      else if ac_Listen a = [] then Some (CfgError ''admin.listen is required when admin is enabled'')
      else None)"

definition validate_sieve :: "sieve_section \<Rightarrow> config_error option" where
  "validate_sieve s =
     (if \<not> sv_Enabled s then None
      else if sv_MaxScriptSize s < 1024 then Some (CfgError ''sieve.max_script_size must be at least 1024 bytes'')
      else if sv_MaxScriptsPerUser s < 1 then Some (CfgError ''sieve.max_scripts_per_user must be at least 1'')
      else None)"

text \<open>The first error of a list of checks.\<close>

fun first_error :: "'e option list \<Rightarrow> 'e option" where
  "first_error [] = None"
| "first_error (x # xs) = (case x of Some e \<Rightarrow> Some e | None \<Rightarrow> first_error xs)"

definition Validate :: "map_orders \<Rightarrow> host_files \<Rightarrow> config \<Rightarrow> config_error option" where
  "Validate ord fs c = first_error
     [if sc_Hostname (cf_Server c) = [] then Some (CfgError ''server.hostname is required'') else None,
      validatePorts ord c,
      validateStorage c,
      validateTimeouts ord c,
      if cf_Domains c = [] then Some (CfgError ''at least one domain must be configured'') else None,
      validate_domains fs (se_SignOutbound (cf_Security c)) 0 (cf_Domains c),
      validate_tls fs (cf_TLS c),
      validate_limits c,
      validate_logging (cf_Logging c),
      validate_admin (cf_Admin c),
      validate_sieve (cf_Sieve c)]"

section \<open>Directories and domains\<close>

definition filepath_Dir :: "string \<Rightarrow> string" where
  "filepath_Dir path = filepath_Clean (rev (dropWhile (\<lambda>c. c \<noteq> CHR ''/'') (rev path)))"

text \<open>\<open>os.MkdirAll\<close> is an argument that changes the file system and may fail.\<close>

fun mkdir_loop :: "(string \<Rightarrow> 'f \<Rightarrow> 'f \<times> string option) \<Rightarrow> string list \<Rightarrow> 'f \<Rightarrow> 'f \<times> config_error option" where
  "mkdir_loop MkdirAll [] f = (f, None)"
| "mkdir_loop MkdirAll (d # ds) f = (case MkdirAll d f of
     (f', Some e) \<Rightarrow> (f', Some (CfgError (''failed to create directory '' @ d @ '': '' @ e)))
   | (f', None) \<Rightarrow> mkdir_loop MkdirAll ds f')"

definition EnsureDirectories :: "(string \<Rightarrow> 'f \<Rightarrow> 'f \<times> string option) \<Rightarrow> config \<Rightarrow> 'f \<Rightarrow> 'f \<times> config_error option" where
  "EnsureDirectories MkdirAll c f =
     (let dirs = [st_DataDir (cf_Storage c), st_MaildirPath (cf_Storage c), filepath_Dir (st_DatabasePath (cf_Storage c))] @
        (if tc_AutoTLS (cf_TLS c) \<and> tc_CacheDir (cf_TLS c) \<noteq> [] then [tc_CacheDir (cf_TLS c)] else [])
      in mkdir_loop MkdirAll dirs f)"

definition GetDomain :: "config \<Rightarrow> string \<Rightarrow> domain_config option" where
  "GetDomain c name = find (\<lambda>d. dn_Name d = name) (cf_Domains c)"

definition IsManagedDomain :: "config \<Rightarrow> string \<Rightarrow> bool" where
  "IsManagedDomain c name \<longleftrightarrow> GetDomain c name \<noteq> None"

section \<open>What validation accepts\<close>

text \<open>Every loop over a map visits each entry once.\<close>

definition orders_ok :: "map_orders \<Rightarrow> bool" where
  "orders_ok ord \<longleftrightarrow> (\<forall>xs. mset (mo_ports ord xs) = mset xs) \<and> (\<forall>xs. mset (mo_conflicts ord xs) = mset xs) \<and> (\<forall>xs. mset (mo_timeouts ord xs) = mset xs)"

definition ports_of :: "config \<Rightarrow> int list" where
  "ports_of c = (let s = cf_Server c in
     [sc_SMTPPort s, sc_SubmissionPort s, sc_SMTPSPort s, sc_IMAPPort s, sc_IMAPSPort s, sc_DAVPort s])"

definition timeout_ok :: "int \<Rightarrow> string \<Rightarrow> bool" where
  "timeout_ok limit t \<longleftrightarrow> t = [] \<or> (\<exists>d. ParseDuration t = Inr d \<and> 0 < d \<and> d \<le> limit)"

definition readable :: "host_files \<Rightarrow> string \<Rightarrow> bool" where
  "readable fs p \<longleftrightarrow> IsAbs p \<and> hf_Stat fs p = IsFile \<and> hf_Open fs p = None"

definition minutes :: "int \<Rightarrow> int" where
  "minutes n = n * 60 * 10 ^ 9"

definition network_ok :: "config \<Rightarrow> bool" where
  "network_ok c \<longleftrightarrow> sc_Hostname (cf_Server c) \<noteq> [] \<and> (\<forall>p\<in>set (ports_of c). 1 \<le> p \<and> p \<le> 65535) \<and> distinct (ports_of c)"

definition timeouts_ok :: "config \<Rightarrow> bool" where
  "timeouts_ok c \<longleftrightarrow> timeout_ok (minutes 5) (sc_ShutdownTimeout (cf_Server c)) \<and> timeout_ok (minutes 2) (dl_ConnectTimeout (cf_Delivery c)) \<and>
     timeout_ok (minutes 10) (dl_CommandTimeout (cf_Delivery c)) \<and> timeout_ok (minutes 43200) (qc_RetryMaxAge (cf_Queue c))"

definition domain_ok :: "host_files \<Rightarrow> bool \<Rightarrow> domain_config \<Rightarrow> bool" where
  "domain_ok fs sign d \<longleftrightarrow> dn_Name d \<noteq> [] \<and> (if dn_DKIMKeyFile d = [] then \<not> sign else readable fs (dn_DKIMKeyFile d))"

definition tls_ok :: "host_files \<Rightarrow> tls_config \<Rightarrow> bool" where
  "tls_ok fs t \<longleftrightarrow> (if tc_AutoTLS t then tc_Email t \<noteq> [] \<and> tc_CacheDir t \<noteq> []
     else tc_CertFile t = [] \<and> tc_KeyFile t = [] \<or> readable fs (tc_CertFile t) \<and> readable fs (tc_KeyFile t))"

definition config_ok :: "host_files \<Rightarrow> config \<Rightarrow> bool" where
  "config_ok fs c \<longleftrightarrow> network_ok c \<and>
     IsAbs (st_DataDir (cf_Storage c)) \<and> IsAbs (st_DatabasePath (cf_Storage c)) \<and> IsAbs (st_MaildirPath (cf_Storage c)) \<and>
     timeouts_ok c \<and> cf_Domains c \<noteq> [] \<and> (\<forall>d\<in>set (cf_Domains c). domain_ok fs (se_SignOutbound (cf_Security c)) d) \<and> tls_ok fs (cf_TLS c) \<and>
     1024 \<le> se_MaxMessageSize (cf_Security c) \<and> se_MaxMessageSize (cf_Security c) \<le> 104857600 \<and>
     1 \<le> qc_MaxRetries (cf_Queue c) \<and> qc_MaxRetries (cf_Queue c) \<le> 100 \<and> qc_RedisURL (cf_Queue c) \<noteq> [] \<and>
     1 \<le> dl_Workers (cf_Delivery c) \<and> dl_Workers (cf_Delivery c) \<le> 100 \<and>
     lo_Level (cf_Logging c) \<in> {[], ''debug'', ''info'', ''warn'', ''error''} \<and> lo_Format (cf_Logging c) \<in> {[], ''json'', ''text''} \<and>
     (ac_Enabled (cf_Admin c) \<longrightarrow> 1 \<le> ac_Port (cf_Admin c) \<and> ac_Port (cf_Admin c) \<le> 65535 \<and> ac_Listen (cf_Admin c) \<noteq> []) \<and>
     (sv_Enabled (cf_Sieve c) \<longrightarrow> 1024 \<le> sv_MaxScriptSize (cf_Sieve c) \<and> 1 \<le> sv_MaxScriptsPerUser (cf_Sieve c))"

lemma first_error_None: "first_error xs = None \<longleftrightarrow> (\<forall>x\<in>set xs. x = None)"
  by (induction xs) (auto split: option.splits)

lemma range_loop_None: "range_loop ps = None \<longleftrightarrow> (\<forall>p\<in>snd ` set ps. port_ok p)"
  by (induction ps rule: range_loop.induct) auto

lemma conflict_loop_None: "conflict_loop used ps = None \<longleftrightarrow> distinct (map snd ps) \<and> (\<forall>p\<in>snd ` set ps. used p = None)"
proof (induction ps arbitrary: used)
  case (Cons a ps)
  obtain n p where a: "a = (n, p)" by fastforce
  show ?case unfolding a by (cases "used p") (auto simp: Cons.IH image_iff)
qed simp

lemma timeout_loop_None: "timeout_loop ts = None \<longleftrightarrow> (\<forall>(n, t)\<in>set ts. check_timeout n t = None)"
  by (induction ts rule: timeout_loop.induct) (auto split: option.splits)

lemma validatePorts_None:
  assumes "orders_ok ord"
  shows "validatePorts ord c = None \<longleftrightarrow> (\<forall>p\<in>set (ports_of c). 1 \<le> p \<and> p \<le> 65535) \<and> distinct (ports_of c)"
proof -
  have m: "mset (mo_ports ord (port_map c)) = mset (port_map c)" "mset (mo_conflicts ord (port_map c)) = mset (port_map c)"
    using assms by (auto simp: orders_ok_def)
  have p: "map snd (port_map c) = ports_of c" by (simp add: port_map_def ports_of_def Let_def)
  have "snd ` set (mo_ports ord (port_map c)) = set (ports_of c)" using m(1) p by (metis mset_eq_setD set_map)
  moreover have "mset (map snd (mo_conflicts ord (port_map c))) = mset (ports_of c)" using m(2) p by (metis mset_map)
  then have "distinct (map snd (mo_conflicts ord (port_map c))) = distinct (ports_of c)" by (rule mset_eq_imp_distinct_iff)
  ultimately have "range_loop (mo_ports ord (port_map c)) = None \<longleftrightarrow> (\<forall>p\<in>set (ports_of c). 1 \<le> p \<and> p \<le> 65535)"
    "conflict_loop Map.empty (mo_conflicts ord (port_map c)) = None \<longleftrightarrow> distinct (ports_of c)"
    unfolding range_loop_None conflict_loop_None port_ok_def by auto
  then show ?thesis unfolding validatePorts_def by (cases "range_loop (mo_ports ord (port_map c))") auto
qed

lemma check_timeout_None:
  "timeout_limit n = Some (l, x) \<Longrightarrow> check_timeout n t = None \<longleftrightarrow> timeout_ok l t"
  by (auto simp: check_timeout_def timeout_ok_def split: sum.split if_splits)

lemma timeout_limits:
  "timeout_limit ''server.shutdown_timeout'' = Some (minutes 5, ''5m'')" "timeout_limit ''delivery.connect_timeout'' = Some (minutes 2, ''2m'')"
  "timeout_limit ''delivery.command_timeout'' = Some (minutes 10, ''10m'')" "timeout_limit ''queue.retry_max_age'' = Some (minutes 43200, ''30d'')"
  by (simp_all add: timeout_limit_def minutes_def)

lemma validateTimeouts_None: "orders_ok ord \<Longrightarrow> validateTimeouts ord c = None \<longleftrightarrow> timeouts_ok c"
proof -
  assume "orders_ok ord"
  then have "set (mo_timeouts ord (timeout_map c)) = set (timeout_map c)" by (metis mset_eq_setD orders_ok_def)
  then show ?thesis
    unfolding validateTimeouts_def timeout_loop_None timeouts_ok_def by (simp add: timeout_map_def check_timeout_None [OF timeout_limits(1)]
      check_timeout_None [OF timeout_limits(2)] check_timeout_None [OF timeout_limits(3)] check_timeout_None [OF timeout_limits(4)])
qed

lemma validateFileReadable_None: "validateFileReadable fs p = None \<longleftrightarrow> readable fs p"
  by (simp add: validateFileReadable_def readable_def split: stat_result.split)

lemma readable_named: "readable fs p \<Longrightarrow> p \<noteq> []"
  by (auto simp: readable_def IsAbs_def HasPrefix_def)

lemma validate_domains_None: "validate_domains fs sign i ds = None \<longleftrightarrow> (\<forall>d\<in>set ds. domain_ok fs sign d)"
proof (induction ds arbitrary: i)
  case (Cons d ds)
  then show ?case using validateFileReadable_None [of fs "dn_DKIMKeyFile d"] by (auto simp: domain_ok_def split: option.splits)
qed simp

lemma validate_tls_None: "validate_tls fs t = None \<longleftrightarrow> tls_ok fs t"
  using validateFileReadable_None [of fs "tc_CertFile t"] validateFileReadable_None [of fs "tc_KeyFile t"] readable_named [of fs "tc_CertFile t"]
    readable_named [of fs "tc_KeyFile t"]
  by (auto simp: validate_tls_def tls_ok_def split: option.splits)

lemma validateStorage_None:
  "validateStorage c = None \<longleftrightarrow> IsAbs (st_DataDir (cf_Storage c)) \<and> IsAbs (st_DatabasePath (cf_Storage c)) \<and> IsAbs (st_MaildirPath (cf_Storage c))"
  by (auto simp: validateStorage_def Let_def IsAbs_def HasPrefix_def)

lemma Validate_None: "orders_ok ord \<Longrightarrow> Validate ord fs c = None \<longleftrightarrow> config_ok fs c"
  unfolding Validate_def first_error_None config_ok_def network_ok_def
  by (simp only: list.set ball_simps validatePorts_None validateTimeouts_None validateStorage_None validate_domains_None validate_tls_None)
    (auto simp: validate_limits_def validate_logging_def validate_admin_def validate_sieve_def)


section \<open>Durations\<close>

lemma duration_loop_bound: "d \<le> 2 ^ 63 \<Longrightarrow> duration_loop d s = Inr x \<Longrightarrow> x \<le> 2 ^ 63"
proof (induction d s rule: duration_loop.induct)
  case (1 d s)
  show ?case
  proof (cases "s = [] \<or> (\<exists>e. duration_part s = Inl e)")
    case True
    then show ?thesis using 1(2,3) by (subst (asm) duration_loop.simps) (auto split: if_splits)
  next
    case False
    then obtain v r where p: "s \<noteq> []" "duration_part s = Inr (v, r)" by (cases "duration_part s") auto
    with 1(3) have "(d + v) mod 2 ^ 64 \<le> 2 ^ 63" "duration_loop ((d + v) mod 2 ^ 64) r = Inr x"
      by (subst (asm) duration_loop.simps, simp add: Let_def split: if_splits)+
    then show ?thesis using 1(1) [OF p, of v r "(d + v) mod 2 ^ 64"] by auto
  qed
qed

text \<open>A duration fits a signed integer of 64 bits.\<close>

theorem ParseDuration_range: "ParseDuration s = Inr d \<Longrightarrow> - (2 ^ 63) \<le> d \<and> d < 2 ^ 63"
  using duration_loop_bound [of 0] by (fastforce simp: ParseDuration_def Let_def split: if_splits sum.splits)

lemma parse_digits_le: "parse_digits x ds = Some v \<Longrightarrow> x \<le> v"
proof (induction ds arbitrary: x)
  case (Cons c ds)
  then have "x * 10 + digit_val c \<le> v" by (simp split: if_splits)
  then show ?case by linarith
qed simp

lemma leadingInt_digits:
  assumes "\<not> (u \<noteq> [] \<and> is_digit (hd u))" and "parse_digits x ds = Some v" and "v \<le> 2 ^ 63"
  shows "leadingInt x (ds @ u) = Some (v, u)"
  using assms(2)
proof (induction ds arbitrary: x)
  case Nil
  then show ?case using assms(1) by (cases u) auto
next
  case (Cons c ds)
  then have d: "is_digit c" "parse_digits (x * 10 + digit_val c) ds = Some v" by (auto split: if_splits)
  then have "x * 10 + digit_val c \<le> 2 ^ 63" using parse_digits_le [OF d(2)] assms(3) by linarith
  moreover from this have "x \<le> 2 ^ 63 div 10" by linarith
  ultimately show ?case using d Cons.IH [OF d(2)] by (simp add: Let_def)
qed

text \<open>The units, and a text of one number and a unit.\<close>

lemma unitMap_chars: "unitMap u = Some k \<Longrightarrow> u \<noteq> [] \<and> 0 < k \<and> takeWhile unit_char u = u"
  by (auto simp: unitMap_def unit_char_def is_digit_def split: if_splits)

text \<open>A whole number with a unit is read as that many units, as long as the nanoseconds fit.\<close>

theorem ParseDuration_print:
  assumes u: "unitMap u = Some k" and n: "n * k < 2 ^ 63"
  shows "ParseDuration (show_nat n @ u) = Inr (int (n * k))"
proof -
  let ?s = "show_nat n @ u"
  have uc: "u \<noteq> []" "0 < k" "takeWhile unit_char u = u" using unitMap_chars [OF u] by auto
  then have dw: "dropWhile unit_char u = []" by (metis append_self_conv2 takeWhile_dropWhile_id append_eq_append_conv_if self_append_conv)
  obtain c r where c: "show_nat n = c # r" by (cases "show_nat n") auto
  have d: "is_digit c" using show_nat_digits [of c n] c by simp
  obtain a t where a: "u = a # t" using uc(1) by (cases u) auto
  have nd: "a \<noteq> CHR ''.''" "\<not> is_digit a" using uc(3) a by (auto simp: unit_char_def split: if_splits)
  have le: "n \<le> 2 ^ 63 div k" using n uc(2) by (simp add: less_eq_div_iff_mult_less_eq)
  have "n \<le> n * k" using uc(2) by simp
  then have "n \<le> 2 ^ 63" using n by linarith
  then have "leadingInt 0 ?s = Some (n, u)" using nd a by (intro leadingInt_digits parse_show_nat) auto
  then have "duration_part ?s = Inr (n * k, [])"
    unfolding duration_part_def using c d a nd u uc le dw by (simp add: Let_def)
  then have "duration_loop 0 ?s = Inr (n * k)" using n c by (subst duration_loop.simps) (simp add: duration_loop.simps [of _ "[]"] Let_def)
  moreover have "c \<noteq> CHR ''-''" "c \<noteq> CHR ''+''" using d by (auto simp: is_digit_def)
  moreover have "?s \<noteq> ''0''" using c a by auto
  ultimately show ?thesis using c n uc(1) by (auto simp: ParseDuration_def Let_def)
qed

text \<open>Fractions are computed in floating point; and the sum of the parts wraps around before it is compared with its limit.\<close>

lemma half_hour: "fraction_ns 5 3600000000000 10 = 1800000000000"
proof -
  have l: "bit_len 10 = 4" "bit_len 3600000000000 = 42" "bit_len 5 = 3" "bit_len 29491200000000000 = 55" "bit_len 5898240000000000 = 53"
    by (simp_all add: bit_len.simps)
  show ?thesis by (simp add: fraction_ns_def Let_def l round_even_def float64_def)
qed

lemma ParseDuration_fraction: "ParseDuration ''1.5h'' = Inr 5400000000000"
proof -
  have "bit_len 10 = 4" by (simp add: bit_len.simps)
  then have "duration_part ''1.5h'' = Inr (5400000000000, [])"
    by (simp add: duration_part_def is_digit_def digit_val_def unit_char_def unitMap_def Let_def float64_def round_even_def half_hour)
  then show ?thesis by (simp add: ParseDuration_def duration_loop.simps)
qed

lemma part_2_63: "r \<noteq> [] \<and> is_digit (hd r) \<Longrightarrow> duration_part (''9223372036854775808ns'' @ r) = Inr (9223372036854775808, r)"
  by (cases r) (simp_all add: duration_part_def is_digit_def digit_val_def unit_char_def unitMap_def Let_def)

lemma ParseDuration_wraps: "ParseDuration (''9223372036854775808ns'' @ ''9223372036854775808ns'' @ ''30s'') = Inr 30000000000"
proof -
  have "duration_part ''30s'' = Inr (30000000000, [])"
    by (simp add: duration_part_def is_digit_def digit_val_def unit_char_def unitMap_def Let_def)
  then have "duration_loop 0 ''30s'' = Inr 30000000000" by (simp add: duration_loop.simps)
  moreover have "duration_part (''9223372036854775808ns'' @ ''30s'') = Inr (9223372036854775808, ''30s'')" by (rule part_2_63) (simp add: is_digit_def)
  ultimately have "duration_loop 9223372036854775808 (''9223372036854775808ns'' @ ''30s'') = Inr 30000000000" by (subst duration_loop.simps) simp
  moreover have "duration_part (''9223372036854775808ns'' @ ''9223372036854775808ns'' @ ''30s'') = Inr (9223372036854775808, ''9223372036854775808ns'' @ ''30s'')"
    by (rule part_2_63) (simp add: is_digit_def)
  ultimately have "duration_loop 0 (''9223372036854775808ns'' @ ''9223372036854775808ns'' @ ''30s'') = Inr 30000000000" by (subst duration_loop.simps) simp
  then show ?thesis by (simp add: ParseDuration_def Let_def)
qed

section \<open>Loading, directories and domains\<close>

lemma durations_1: "ParseDuration ''30s'' = Inr (30 * 10 ^ 9)" "ParseDuration ''5m'' = Inr (minutes 5)" "ParseDuration ''168h'' = Inr (minutes 10080)"
proof -
  have s: "show_nat 30 = ''30''" "show_nat 5 = ''5''" "show_nat 168 = ''168''" by code_simp+
  show "ParseDuration ''30s'' = Inr (30 * 10 ^ 9)" using ParseDuration_print [of "''s''" 1000000000 30] by (simp add: s unitMap_def)
  show "ParseDuration ''5m'' = Inr (minutes 5)" using ParseDuration_print [of "''m''" 60000000000 5] by (simp add: s unitMap_def minutes_def)
  show "ParseDuration ''168h'' = Inr (minutes 10080)" using ParseDuration_print [of "''h''" 3600000000000 168] by (simp add: s unitMap_def minutes_def)
qed

definition config_1 :: config where
  "config_1 = DefaultConfig\<lparr>cf_Domains := [\<lparr>dn_Name = ''x.org'', dn_DKIMSelector = ''mail'', dn_DKIMKeyFile = ''/k''\<rparr>]\<rparr>"

definition files_1 :: host_files where
  "files_1 = \<lparr>hf_Stat = (\<lambda>p. if p = ''/k'' then IsFile else NotExist), hf_Open = (\<lambda>p. None)\<rparr>"

definition orders_1 :: map_orders where
  "orders_1 = \<lparr>mo_ports = rev, mo_conflicts = id, mo_timeouts = rev\<rparr>"

lemma orders_1_ok: "orders_ok orders_1"
  by (simp add: orders_ok_def orders_1_def)

lemma network_1: "network_ok config_1"
  by (simp add: network_ok_def config_1_def DefaultConfig_def ports_of_def Let_def)

lemma timeouts_1: "timeouts_ok config_1"
proof -
  have "timeout_ok (minutes 5) ''30s''" "timeout_ok (minutes 2) ''30s''" "timeout_ok (minutes 10) ''5m''" "timeout_ok (minutes 43200) ''168h''"
    unfolding timeout_ok_def by (simp_all add: durations_1) (simp_all add: minutes_def)
  then show ?thesis by (simp add: timeouts_ok_def config_1_def DefaultConfig_def)
qed

lemma config_1_ok: "config_ok files_1 config_1"
proof -
  have "domain_ok files_1 True \<lparr>dn_Name = ''x.org'', dn_DKIMSelector = ''mail'', dn_DKIMKeyFile = ''/k''\<rparr>"
    by (simp add: domain_ok_def readable_def files_1_def IsAbs_def HasPrefix_def)
  then show ?thesis using network_1 timeouts_1 unfolding config_ok_def
    by (simp add: config_1_def DefaultConfig_def tls_ok_def IsAbs_def HasPrefix_def)
qed


text \<open>Without a file there is the default configuration, which \<open>Validate\<close> refuses, because it has no domain.\<close>

theorem missing_file_refused:
  assumes "hf_Stat fs path = NotExist" and "orders_ok ord"
  shows "\<exists>c. Load fs L U path = Inr c \<and> Validate ord fs c = Some (CfgError ''at least one domain must be configured'')"
proof -
  have p: "port_map DefaultConfig = port_map config_1" "timeout_map DefaultConfig = timeout_map config_1"
    "sc_Hostname (cf_Server DefaultConfig) \<noteq> []" "cf_Storage DefaultConfig = cf_Storage config_1" "cf_Domains DefaultConfig = []"
    by (simp_all add: config_1_def port_map_def timeout_map_def DefaultConfig_def)
  have "validatePorts ord config_1 = None" using network_1 validatePorts_None [OF assms(2)] by (simp add: network_ok_def)
  then have 1: "validatePorts ord DefaultConfig = None" unfolding validatePorts_def p(1) .
  have "validateTimeouts ord config_1 = None" using timeouts_1 validateTimeouts_None [OF assms(2)] by simp
  then have 2: "validateTimeouts ord DefaultConfig = None" unfolding validateTimeouts_def p(2) .
  have 3: "validateStorage DefaultConfig = None" using config_1_ok by (simp add: validateStorage_None p config_ok_def)
  show ?thesis using assms(1) 1 2 3 p(3,5) by (simp add: Load_def Validate_def)
qed

text \<open>The ports of the web interface and of autodiscover are not compared with the others, and the latter is not checked at all.\<close>

lemma autodiscover_unchecked: "Validate ord fs (c\<lparr>cf_Autodiscover := a\<rparr>) = Validate ord fs c"
proof -
  let ?c = "c\<lparr>cf_Autodiscover := a\<rparr>"
  have m: "port_map ?c = port_map c" "timeout_map ?c = timeout_map c" by (simp_all add: port_map_def timeout_map_def)
  have "validatePorts ord ?c = validatePorts ord c" "validateTimeouts ord ?c = validateTimeouts ord c" "validateStorage ?c = validateStorage c"
    "validate_limits ?c = validate_limits c"
    unfolding validatePorts_def validateTimeouts_def m validateStorage_def validate_limits_def by simp_all
  then show ?thesis unfolding Validate_def by simp
qed

lemma admin_port_taken:
  "orders_ok ord \<Longrightarrow> Validate ord files_1 (config_1\<lparr>cf_Admin := \<lparr>ac_Enabled = True, ac_Port = 25, ac_Listen = ''0.0.0.0''\<rparr>\<rparr>) = None"
proof -
  let ?c = "config_1\<lparr>cf_Admin := \<lparr>ac_Enabled = True, ac_Port = 25, ac_Listen = ''0.0.0.0''\<rparr>\<rparr>"
  have "config_ok files_1 ?c"
    using config_1_ok by (simp add: config_ok_def network_ok_def timeouts_ok_def ports_of_def)
  then show "orders_ok ord \<Longrightarrow> Validate ord files_1 ?c = None" using Validate_None [of ord files_1 ?c] by simp
qed

text \<open>When \<open>MkdirAll\<close> keeps what is there and makes the directory or fails, a successful \<open>EnsureDirectories\<close> leaves all of them.\<close>

lemma mkdir_loop_creates:
  assumes keeps: "\<And>d f x. there f x \<Longrightarrow> there (fst (MkdirAll d f)) x" and makes: "\<And>d f f'. MkdirAll d f = (f', None) \<Longrightarrow> there f' d"
  shows "mkdir_loop MkdirAll ds f = (f', None) \<Longrightarrow> (there f x \<longrightarrow> there f' x) \<and> (\<forall>d\<in>set ds. there f' d)"
proof (induction ds arbitrary: f x)
  case (Cons d ds)
  obtain f1 where f1: "MkdirAll d f = (f1, None)" "mkdir_loop MkdirAll ds f1 = (f', None)"
    using Cons.prems by (auto split: prod.splits option.splits)
  have "there f1 d" "there f x \<longrightarrow> there f1 x" using makes [OF f1(1)] keeps [of f x d] f1(1) by auto
  then show ?case using Cons.IH [OF f1(2), of x] Cons.IH [OF f1(2), of d] by auto
qed simp

theorem EnsureDirectories_creates:
  assumes "\<And>d f x. there f x \<Longrightarrow> there (fst (MkdirAll d f)) x" and "\<And>d f f'. MkdirAll d f = (f', None) \<Longrightarrow> there f' d"
    and "EnsureDirectories MkdirAll c f = (f', None)"
  shows "there f' (st_DataDir (cf_Storage c)) \<and> there f' (st_MaildirPath (cf_Storage c)) \<and> there f' (filepath_Dir (st_DatabasePath (cf_Storage c))) \<and>
    (tc_AutoTLS (cf_TLS c) \<and> tc_CacheDir (cf_TLS c) \<noteq> [] \<longrightarrow> there f' (tc_CacheDir (cf_TLS c)))"
  using mkdir_loop_creates [where there = there and MkdirAll = MkdirAll, OF assms(1,2) assms(3) [unfolded EnsureDirectories_def Let_def]] by auto

lemma GetDomain_iff: "IsManagedDomain c name \<longleftrightarrow> name \<in> dn_Name ` set (cf_Domains c)"
  by (auto simp: IsManagedDomain_def GetDomain_def find_None_iff)

end
