(* ===== verification/Dns_Records.thy ===== *)
theory Dns_Records
  imports Validation Go_Net Auth
begin

text \<open>
  Package \<^verbatim>\<open>internal/dns\<close>: the records a domain should publish (\<^verbatim>\<open>generator.go\<close>) and the checks of what it does
  publish (\<^verbatim>\<open>checker.go\<close>). The resolver is an argument with the answers to its queries; the pattern of domain names is the
  one of \<open>Validation\<close>. Encoding a public key is the business of the library and a field of the key.
\<close>

section \<open>Generating records\<close>

datatype dns_error = InvalidDomain string | InvalidMailServer string | InvalidIP string | InvalidKey string

record dns_record =
  rc_Type :: string
  rc_Host :: string
  rc_Value :: string
  rc_Priority :: int
  rc_TTL :: int
  rc_Comment :: string

text \<open>A public key: the length of its modulus, and its encoding or the error of encoding it.\<close>

record rsa_key =
  rk_bits :: nat
  rk_pkix :: "(string, string) result"

record dns_generator =
  gn_domain :: string
  gn_mailServer :: string
  gn_serverIP :: string
  gn_dkimKey :: "rsa_key option"
  gn_dkimKeyPEM :: string

definition NewGenerator :: "string \<Rightarrow> string \<Rightarrow> string \<Rightarrow> (dns_error, dns_generator) result" where
  "NewGenerator domain mailServer serverIP =
     (if domain = [] then Inl (InvalidDomain ''domain cannot be empty'')
      else if mailServer = [] then Inl (InvalidMailServer ''mail server cannot be empty'')
      else if serverIP = [] then Inl (InvalidIP ''server IP cannot be empty'')
      else if \<not> MatchString domainPattern domain then Inl (InvalidDomain domain)
      else if \<not> MatchString domainPattern mailServer then Inl (InvalidMailServer mailServer)
      else if ParseIP serverIP = None then Inl (InvalidIP serverIP)
      else Inr \<lparr>gn_domain = domain, gn_mailServer = mailServer, gn_serverIP = serverIP, gn_dkimKey = None, gn_dkimKeyPEM = []\<rparr>)"

definition SetDKIMKey :: "rsa_key option \<Rightarrow> dns_generator \<Rightarrow> dns_generator \<times> dns_error option" where
  "SetDKIMKey key g = (case key of
     None \<Rightarrow> (g, Some (InvalidKey ''DKIM key cannot be nil''))
   | Some k \<Rightarrow>
       if rk_bits k < 1024 then (g, Some (InvalidKey (''DKIM key too short: '' @ show_nat (rk_bits k) @ '' bits (minimum 1024)'')))
       else (g\<lparr>gn_dkimKey := Some k\<rparr>, None))"

definition SetDKIMKeyPEM :: "string \<Rightarrow> dns_generator \<Rightarrow> dns_generator \<times> dns_error option" where
  "SetDKIMKeyPEM pem g =
     (if pem = [] then (g, Some (InvalidKey ''PEM string cannot be empty''))
      else if \<not> Contains pem ''-----BEGIN'' \<or> \<not> Contains pem ''-----END''
      then (g, Some (InvalidKey ''invalid PEM format: missing header or footer''))
      else (g\<lparr>gn_dkimKeyPEM := pem\<rparr>, None))"

definition GenerateMX :: "dns_generator \<Rightarrow> dns_record" where
  "GenerateMX g = \<lparr>rc_Type = ''MX'', rc_Host = ''@'', rc_Value = gn_mailServer g @ ''.'', rc_Priority = 10, rc_TTL = 3600,
     rc_Comment = ''Mail server for '' @ gn_domain g\<rparr>"

definition GenerateA :: "dns_generator \<Rightarrow> dns_record" where
  "GenerateA g =
     (let host = (if HasSuffix (gn_mailServer g) (''.'' @ gn_domain g) then TrimSuffix (gn_mailServer g) (''.'' @ gn_domain g) else gn_mailServer g)
      in \<lparr>rc_Type = ''A'', rc_Host = host, rc_Value = gn_serverIP g, rc_Priority = 0, rc_TTL = 3600, rc_Comment = ''Mail server IP address''\<rparr>)"

definition GenerateSPF :: "dns_generator \<Rightarrow> dns_record" where
  "GenerateSPF g = \<lparr>rc_Type = ''TXT'', rc_Host = ''@'', rc_Value = ''v=spf1 mx a:'' @ gn_mailServer g @ '' -all'', rc_Priority = 0, rc_TTL = 3600,
     rc_Comment = ''SPF record - authorizes mail server to send email''\<rparr>"

text \<open>Base64 with padding.\<close>

definition std_EncodeToString :: "string \<Rightarrow> string" where
  "std_EncodeToString s = EncodeToString s @ replicate ((3 - length s mod 3) mod 3) (CHR ''='')"

definition pem_data :: "string \<Rightarrow> string" where
  "pem_data pem = concat (map TrimSpace [line \<leftarrow> Split pem (CHR 0x0A). \<not> HasPrefix line ''-----'' \<and> line \<noteq> []])"

definition dkim_value :: "dns_generator \<Rightarrow> string" where
  "dkim_value g = (case gn_dkimKey g of
     Some k \<Rightarrow> (case rk_pkix k of
         Inl e \<Rightarrow> ''v=DKIM1; k=rsa; p=<ERROR_MARSHALING_KEY:'' @ e @ ''>''
       | Inr b \<Rightarrow> ''v=DKIM1; k=rsa; p='' @ std_EncodeToString b)
   | None \<Rightarrow>
       if gn_dkimKeyPEM g \<noteq> []
       then (let keyData = pem_data (gn_dkimKeyPEM g)
             in if keyData = [] then ''v=DKIM1; k=rsa; p=<INVALID_PEM_NO_KEY_DATA>'' else ''v=DKIM1; k=rsa; p='' @ keyData)
       else ''v=DKIM1; k=rsa; p=<YOUR_DKIM_PUBLIC_KEY_HERE>'')"

definition GenerateDKIM :: "dns_generator \<Rightarrow> dns_record" where
  "GenerateDKIM g = \<lparr>rc_Type = ''TXT'', rc_Host = ''mail._domainkey'', rc_Value = dkim_value g, rc_Priority = 0, rc_TTL = 3600,
     rc_Comment = ''DKIM signing key - verifies email authenticity''\<rparr>"

definition GenerateDMARC :: "dns_generator \<Rightarrow> dns_record" where
  "GenerateDMARC g = \<lparr>rc_Type = ''TXT'', rc_Host = ''_dmarc'',
     rc_Value = ''v=DMARC1; p=quarantine; rua=mailto:postmaster@'' @ gn_domain g @ ''; ruf=mailto:postmaster@'' @ gn_domain g @ ''; fo=1'',
     rc_Priority = 0, rc_TTL = 3600, rc_Comment = ''DMARC policy - handles failed authentication''\<rparr>"

definition GenerateAll :: "dns_generator \<Rightarrow> dns_record list" where
  "GenerateAll g = [GenerateMX g, GenerateA g, GenerateSPF g, GenerateDKIM g, GenerateDMARC g]"

section \<open>Printing records\<close>

definition TAB :: string where "TAB = [CHR 0x09]"

definition dquoted :: "string \<Rightarrow> string" where
  "dquoted s = CHR 0x22 # s @ [CHR 0x22]"

function chunks :: "nat \<Rightarrow> 'a list \<Rightarrow> 'a list list" where
  "chunks n value = (if value = [] \<or> n = 0 then [] else take (min n (length value)) value # chunks n (drop (min n (length value)) value))"
  by auto
termination by (relation "measure (\<lambda>(n, v). length v)") auto

declare chunks.simps [simp del]

definition splitTXTRecord :: "string \<Rightarrow> string" where
  "splitTXTRecord value = Join (map dquoted (chunks 255 value)) '' ''"

definition zone_host :: "string \<Rightarrow> string \<Rightarrow> string" where
  "zone_host domain host = (if host = ''@'' then domain @ ''.'' else if \<not> HasSuffix host ''.'' then host @ ''.'' @ domain @ ''.'' else host)"

definition zone_record :: "string \<Rightarrow> dns_record \<Rightarrow> string" where
  "zone_record domain r =
     (let host = zone_host domain (rc_Host r); NL = [CHR 0x0A]; head = host @ TAB @ show_int (rc_TTL r) @ TAB @ ''IN'' @ TAB @ rc_Type r @ TAB
      in ''; '' @ rc_Comment r @ NL @
         (if rc_Type r = ''MX'' then head @ show_int (rc_Priority r) @ TAB @ rc_Value r @ NL @ NL
          else if rc_Type r = ''TXT''
          then head @ (if length (rc_Value r) > 255 then splitTXTRecord (rc_Value r) else dquoted (rc_Value r)) @ NL @ NL
          else head @ rc_Value r @ NL @ NL))"

definition FormatAsZone :: "dns_record list \<Rightarrow> string \<Rightarrow> string" where
  "FormatAsZone records domain =
     ''; DNS records for '' @ domain @ [CHR 0x0A] @ ''; Generated by mailserver dns generate'' @ [CHR 0x0A, CHR 0x0A] @ concat (map (zone_record domain) records)"

definition provider_record :: "dns_record \<Rightarrow> string" where
  "provider_record r =
     (let NL = [CHR 0x0A]
      in ''Type: '' @ rc_Type r @ NL @ ''Host/Name: '' @ rc_Host r @ NL @ (if rc_Type r = ''MX'' then ''Priority: '' @ show_int (rc_Priority r) @ NL else []) @
         ''Value: '' @ rc_Value r @ NL @ ''TTL: '' @ show_int (rc_TTL r) @ NL @ ''Note: '' @ rc_Comment r @ NL @ replicate 50 (CHR ''-'') @ NL @ NL)"

definition FormatForProvider :: "dns_record list \<Rightarrow> string \<Rightarrow> string" where
  "FormatForProvider records domain =
     ''DNS Records for '' @ domain @ [CHR 0x0A] @ ''='' @ replicate 50 (CHR ''='') @ [CHR 0x0A, CHR 0x0A] @ concat (map provider_record records)"

section \<open>Checking records\<close>

datatype dns_status = StatusPass | StatusFail | StatusWarning | StatusMissing

record check_result =
  cr_RecordType :: string
  cr_Status :: dns_status
  cr_Expected :: string
  cr_Actual :: string
  cr_Message :: string

text \<open>An error of a query: its text, whether it comes from DNS and says that there is no such record, and whether the time for the check was
  over when the query returned.\<close>

record lookup_error =
  le_text :: string
  le_dns :: bool
  le_notFound :: bool
  le_deadline :: bool

record resolver =
  rv_LookupMX :: "string \<Rightarrow> (lookup_error, (string \<times> int) list) result"
  rv_LookupTXT :: "string \<Rightarrow> (lookup_error, string list) result"
  rv_LookupIPAddr :: "string \<Rightarrow> (lookup_error, string list) result"
  rv_LookupAddr :: "string \<Rightarrow> (lookup_error, string list) result"
  rv_expired :: "string \<Rightarrow> bool" \<comment> \<open>the time is over before the query for the name\<close>

record dns_checker =
  ck_domain :: string
  ck_mailServer :: string

definition NewChecker :: "string \<Rightarrow> string \<Rightarrow> (dns_error, dns_checker) result" where
  "NewChecker domain mailServer =
     (if domain = [] then Inl (InvalidDomain ''domain cannot be empty'')
      else if mailServer = [] then Inl (InvalidMailServer ''mail server cannot be empty'')
      else if \<not> MatchString domainPattern domain then Inl (InvalidDomain domain)
      else if \<not> MatchString domainPattern mailServer then Inl (InvalidMailServer mailServer)
      else Inr \<lparr>ck_domain = domain, ck_mailServer = mailServer\<rparr>)"

definition check :: "string \<Rightarrow> dns_status \<Rightarrow> string \<Rightarrow> string \<Rightarrow> string \<Rightarrow> check_result" where
  "check ty st ex ac ms = \<lparr>cr_RecordType = ty, cr_Status = st, cr_Expected = ex, cr_Actual = ac, cr_Message = ms\<rparr>"

definition context_error :: "string \<Rightarrow> string \<Rightarrow> check_result" where
  "context_error ty e = check ty StatusFail [] [] (''Context error: '' @ e)"

text \<open>The first argument of a check is the error of the context that it is given, if it has ended before.\<close>

definition CheckMX :: "string option \<Rightarrow> resolver \<Rightarrow> dns_checker \<Rightarrow> check_result" where
  "CheckMX ctx rv c = (case ctx of Some e \<Rightarrow> context_error ''MX'' e | None \<Rightarrow>
     (case rv_LookupMX rv (ck_domain c) of
        Inl err \<Rightarrow>
          if le_deadline err then check ''MX'' StatusFail (ck_mailServer c) [] ''DNS lookup timeout''
          else if le_dns err
          then (if le_notFound err then check ''MX'' StatusMissing (ck_mailServer c) [] ''No MX records found''
                else check ''MX'' StatusFail (ck_mailServer c) [] (''DNS error: '' @ le_text err))
          else check ''MX'' StatusFail (ck_mailServer c) [] (''Lookup failed: '' @ le_text err)
      | Inr records \<Rightarrow>
          (case find (\<lambda>(h, p). EqualFold (TrimSuffix h ''.'') (ck_mailServer c)) records of
             Some (h, p) \<Rightarrow> check ''MX'' StatusPass (ck_mailServer c) (TrimSuffix h ''.'')
               (''MX record points to '' @ TrimSuffix h ''.'' @ '' with priority '' @ show_int p)
           | None \<Rightarrow> check ''MX'' StatusWarning (ck_mailServer c) (Join (map (\<lambda>(h, p). TrimSuffix h ''.'') records) '', '')
               (''MX record found but doesn'' @ [CHR 0x27] @ ''t match expected mail server''))))"

definition CheckSPF :: "string option \<Rightarrow> resolver \<Rightarrow> dns_checker \<Rightarrow> check_result" where
  "CheckSPF ctx rv c = (case ctx of Some e \<Rightarrow> context_error ''SPF'' e | None \<Rightarrow>
     (case rv_LookupTXT rv (ck_domain c) of
        Inl err \<Rightarrow>
          if le_deadline err then check ''SPF'' StatusFail [] [] ''DNS lookup timeout''
          else if le_dns err \<and> le_notFound err then check ''SPF'' StatusMissing [] [] ''No TXT records found''
          else check ''SPF'' StatusFail [] [] (''Failed to lookup TXT records: '' @ le_text err)
      | Inr records \<Rightarrow>
          (case find (\<lambda>t. HasPrefix t ''v=spf1'') records of
             Some t \<Rightarrow>
               if Contains t ''mx'' \<or> Contains t (ck_mailServer c) \<or> Contains t (''a:'' @ ck_mailServer c)
               then check ''SPF'' StatusPass [] t ''SPF record found and includes mail server''
               else check ''SPF'' StatusWarning [] t ''SPF record found but may not authorize mail server''
           | None \<Rightarrow> check ''SPF'' StatusMissing [] [] ''No SPF record found'')))"

definition truncate_dns :: "string \<Rightarrow> nat \<Rightarrow> string" where
  "truncate_dns s len = (if length s \<le> len then s else take len s @ ''...'')"

fun dkim_loop :: "resolver \<Rightarrow> string \<Rightarrow> string list \<Rightarrow> check_result" where
  "dkim_loop rv domain [] = check ''DKIM'' StatusMissing [] [] ''No DKIM record found (checked: mail, default, selector1, dkim)''"
| "dkim_loop rv domain (selector # rest) =
     (let dkimHost = selector @ ''._domainkey.'' @ domain
      in if rv_expired rv dkimHost then check ''DKIM'' StatusFail [] [] ''DNS lookup timeout''
         else (case rv_LookupTXT rv dkimHost of
           Inl err \<Rightarrow>
             if le_dns err \<and> le_notFound err then dkim_loop rv domain rest
             else if le_deadline err then check ''DKIM'' StatusFail [] [] ''DNS lookup timeout''
             else dkim_loop rv domain rest
         | Inr records \<Rightarrow>
             (case find (\<lambda>t. Contains t ''v=DKIM1'' \<or> Contains t ''k=rsa'') records of
                Some t \<Rightarrow> check ''DKIM'' StatusPass [] (selector @ '': '' @ truncate_dns t 50 @ ''...'')
                  (''DKIM record found for selector '' @ [CHR 0x27] @ selector @ [CHR 0x27])
              | None \<Rightarrow> dkim_loop rv domain rest)))"

definition CheckDKIM :: "string option \<Rightarrow> resolver \<Rightarrow> dns_checker \<Rightarrow> check_result" where
  "CheckDKIM ctx rv c = (case ctx of Some e \<Rightarrow> context_error ''DKIM'' e | None \<Rightarrow>
     dkim_loop rv (ck_domain c) [''mail'', ''default'', ''selector1'', ''dkim''])"

definition CheckDMARC :: "string option \<Rightarrow> resolver \<Rightarrow> dns_checker \<Rightarrow> check_result" where
  "CheckDMARC ctx rv c = (case ctx of Some e \<Rightarrow> context_error ''DMARC'' e | None \<Rightarrow>
     (case rv_LookupTXT rv (''_dmarc.'' @ ck_domain c) of
        Inl err \<Rightarrow>
          if le_deadline err then check ''DMARC'' StatusFail [] [] ''DNS lookup timeout''
          else if le_dns err \<and> le_notFound err then check ''DMARC'' StatusMissing [] [] ''No DMARC record found''
          else check ''DMARC'' StatusFail [] [] (''DNS lookup failed: '' @ le_text err)
      | Inr records \<Rightarrow>
          (case find (\<lambda>t. HasPrefix t ''v=DMARC1'') records of
             Some t \<Rightarrow>
               (let policy = (if Contains t ''p=reject'' then ''reject'' else if Contains t ''p=quarantine'' then ''quarantine'' else ''none'')
                in check ''DMARC'' (if policy = ''none'' then StatusWarning else StatusPass) [] t (''DMARC record found with policy: '' @ policy))
           | None \<Rightarrow> check ''DMARC'' StatusMissing [] [] ''No DMARC record found'')))"

definition CheckPTR :: "string option \<Rightarrow> resolver \<Rightarrow> dns_checker \<Rightarrow> check_result" where
  "CheckPTR ctx rv c = (case ctx of Some e \<Rightarrow> context_error ''PTR'' e | None \<Rightarrow>
     (case rv_LookupIPAddr rv (ck_mailServer c) of
        Inl err \<Rightarrow>
          if le_deadline err then check ''PTR'' StatusFail [] [] ''DNS lookup timeout''
          else check ''PTR'' StatusFail [] [] (''Failed to resolve mail server '' @ ck_mailServer c @ '': '' @ le_text err)
      | Inr [] \<Rightarrow> check ''PTR'' StatusFail [] [] ''Mail server has no A/AAAA record''
      | Inr (ip # _) \<Rightarrow>
          (case rv_LookupAddr rv ip of
             Inl err \<Rightarrow>
               if le_deadline err then check ''PTR'' StatusFail (ck_mailServer c) ip ''DNS lookup timeout''
               else if le_dns err \<and> le_notFound err
               then check ''PTR'' StatusWarning (ck_mailServer c) ip ''No PTR record found for mail server IP''
               else check ''PTR'' StatusFail (ck_mailServer c) ip (''PTR lookup failed: '' @ le_text err)
           | Inr names \<Rightarrow>
               (case find (\<lambda>n. EqualFold (TrimSuffix n ''.'') (ck_mailServer c)) names of
                  Some n \<Rightarrow> check ''PTR'' StatusPass (ck_mailServer c) (TrimSuffix n ''.'')
                    (''PTR record for '' @ ip @ '' correctly points to '' @ TrimSuffix n ''.'')
                | None \<Rightarrow> check ''PTR'' StatusWarning (ck_mailServer c) (Join names '', '')
                    (''PTR record exists but doesn'' @ [CHR 0x27] @ ''t match mail server hostname'')))))"

definition CheckAll :: "(nat \<Rightarrow> string option) \<Rightarrow> resolver \<Rightarrow> dns_checker \<Rightarrow> check_result list" where
  "CheckAll ctx rv c = [CheckMX (ctx 0) rv c, CheckSPF (ctx 1) rv c, CheckDKIM (ctx 2) rv c, CheckDMARC (ctx 3) rv c, CheckPTR (ctx 4) rv c]"

section \<open>What the generator recommends passes the checks\<close>

text \<open>A resolver for a zone of records: the answers are the values of the records at the name, or that there are none.\<close>

definition at_name :: "string \<Rightarrow> dns_record list \<Rightarrow> string \<Rightarrow> string \<Rightarrow> dns_record list" where
  "at_name domain records ty name = [r \<leftarrow> records. rc_Type r = ty \<and> zone_host domain (rc_Host r) = name @ ''.'']"

definition not_found_dns :: lookup_error where
  "not_found_dns = \<lparr>le_text = ''no such host'', le_dns = True, le_notFound = True, le_deadline = False\<rparr>"

definition answer :: "(dns_record \<Rightarrow> 'a) \<Rightarrow> dns_record list \<Rightarrow> (lookup_error, 'a list) result" where
  "answer f rs = (if rs = [] then Inl not_found_dns else Inr (map f rs))"

definition published :: "string \<Rightarrow> dns_record list \<Rightarrow> resolver" where
  "published domain records =
     \<lparr>rv_LookupMX = (\<lambda>n. answer (\<lambda>r. (rc_Value r, rc_Priority r)) (at_name domain records ''MX'' n)),
      rv_LookupTXT = (\<lambda>n. answer rc_Value (at_name domain records ''TXT'' n)),
      rv_LookupIPAddr = (\<lambda>n. answer rc_Value (at_name domain records ''A'' n)),
      rv_LookupAddr = (\<lambda>ip. Inl not_found_dns),
      rv_expired = (\<lambda>n. False)\<rparr>"

lemma records_at:
  "at_name d (GenerateAll g) ''MX'' d = [GenerateMX g]"
  "at_name d (GenerateAll g) ''TXT'' d = [GenerateSPF g]"
  "at_name d (GenerateAll g) ''TXT'' (''mail._domainkey.'' @ d) = [GenerateDKIM g]"
  "at_name d (GenerateAll g) ''TXT'' (''_dmarc.'' @ d) = [GenerateDMARC g]"
  by (simp_all add: at_name_def GenerateAll_def GenerateMX_def GenerateA_def GenerateSPF_def GenerateDKIM_def GenerateDMARC_def Let_def zone_host_def HasSuffix_def
      append_eq_Cons_conv)

lemma published_answers:
  "rv_LookupMX (published d (GenerateAll g)) d = Inr [(gn_mailServer g @ ''.'', 10)]"
  "rv_LookupTXT (published d (GenerateAll g)) d = Inr [rc_Value (GenerateSPF g)]"
  "rv_LookupTXT (published d (GenerateAll g)) (''mail._domainkey.'' @ d) = Inr [dkim_value g]"
  "rv_LookupTXT (published d (GenerateAll g)) (''_dmarc.'' @ d) = Inr [rc_Value (GenerateDMARC g)]"
  by (simp_all only: published_def resolver.simps records_at answer_def list.distinct if_False list.map)
    (simp_all only: GenerateMX_def GenerateDKIM_def dns_record.simps)

lemma DKIM_value_ok: "HasPrefix (dkim_value g) ''v=DKIM1''"
  by (simp add: dkim_value_def Let_def split: option.split sum.split)

lemma published_dkim: "cr_Status (CheckDKIM None (published (ck_domain c) (GenerateAll g)) c) = StatusPass"
proof -
  let ?rv = "published (ck_domain c) (GenerateAll g)"
  have "\<not> rv_expired ?rv n" for n by (simp add: published_def)
  then show ?thesis
    using published_answers(3) [of "ck_domain c" g] Contains_prefix [OF DKIM_value_ok]
    unfolding CheckDKIM_def option.case by (simp add: Let_def check_def)
qed

text \<open>C39. A domain that publishes what the generator recommends passes the checks of its MX, SPF, DKIM and DMARC records, also while no key has
  been set. (The reverse record belongs to the network of the address and is not among the recommended records.)\<close>

theorem generated_records_pass:
  assumes "gn_domain g = ck_domain c" and "gn_mailServer g = ck_mailServer c"
  shows "map cr_Status (take 4 (CheckAll (\<lambda>_. None) (published (ck_domain c) (GenerateAll g)) c)) = [StatusPass, StatusPass, StatusPass, StatusPass]"
proof -
  let ?rv = "published (ck_domain c) (GenerateAll g)"
  have t: "TrimSuffix (gn_mailServer g @ ''.'') ''.'' = gn_mailServer g" by (simp add: TrimSuffix_def HasSuffix_def)
  have mx: "cr_Status (CheckMX None ?rv c) = StatusPass"
    unfolding CheckMX_def option.case published_answers sum.case using assms(2) t by (simp add: EqualFold_def check_def)
  have "Contains (''v=spf1 '' @ ''mx'' @ ('' a:'' @ gn_mailServer g @ '' -all'')) ''mx''" unfolding Contains_iff by blast
  then have "Contains (rc_Value (GenerateSPF g)) ''mx''" by (simp add: GenerateSPF_def)
  moreover have "HasPrefix (rc_Value (GenerateSPF g)) ''v=spf1''" by (simp add: GenerateSPF_def)
  ultimately have spf: "cr_Status (CheckSPF None ?rv c) = StatusPass"
    unfolding CheckSPF_def option.case published_answers sum.case by (simp add: check_def)
  have dkim: "cr_Status (CheckDKIM None ?rv c) = StatusPass" by (rule published_dkim)
  have "Contains (''v=DMARC1; '' @ ''p=quarantine'' @ s) ''p=quarantine''" for s unfolding Contains_iff by blast
  then have "Contains (rc_Value (GenerateDMARC g)) ''p=quarantine''" by (simp add: GenerateDMARC_def)
  moreover have "HasPrefix (rc_Value (GenerateDMARC g)) ''v=DMARC1''" by (simp add: GenerateDMARC_def)
  ultimately have dmarc: "cr_Status (CheckDMARC None ?rv c) = StatusPass"
    unfolding CheckDMARC_def option.case published_answers sum.case by (simp add: check_def Let_def)
  show ?thesis by (simp add: CheckAll_def mx spf dkim dmarc)
qed

section \<open>Long records\<close>

lemma concat_chunks: "0 < n \<Longrightarrow> concat (chunks n v) = v"
proof (induction n v rule: chunks.induct)
  case (1 n v)
  then show ?case by (subst chunks.simps) (cases "v = []"; simp add: min_def)
qed

lemma chunks_size: "x \<in> set (chunks n v) \<Longrightarrow> 0 < length x \<and> length x \<le> n"
proof (induction n v rule: chunks.induct)
  case (1 n v)
  have "\<not> (v = [] \<or> n = 0)" using 1(2) by (subst (asm) chunks.simps) (auto split: if_splits)
  moreover from this have "x = take (min n (length v)) v \<or> x \<in> set (chunks n (drop (min n (length v)) v))"
    using 1(2) by (subst (asm) chunks.simps) (simp split: if_splits)
  ultimately show ?case using 1(1) by (elim disjE) auto
qed

text \<open>A TXT record of more than 255 bytes is printed as quoted strings of at most 255 bytes each, which together are the record.\<close>

theorem splitTXT_strings:
  "\<exists>parts. splitTXTRecord v = Join (map dquoted parts) '' '' \<and> concat parts = v \<and> (\<forall>p\<in>set parts. 0 < length p \<and> length p \<le> 255)"
  using concat_chunks [of 255 v] chunks_size [of _ 255 v] unfolding splitTXTRecord_def by (intro exI [of _ "chunks 255 v"]) auto

section \<open>What the checks do not see\<close>

text \<open>The check of SPF looks for the letters mx anywhere in the record: one that authorizes another host only passes.\<close>

lemma spf_pass_by_letters:
  "cr_Status (CheckSPF None (published ''x.org'' [\<lparr>rc_Type = ''TXT'', rc_Host = ''@'', rc_Value = ''v=spf1 a:smtp.mxhost.net -all'', rc_Priority = 0, rc_TTL = 60,
     rc_Comment = []\<rparr>]) \<lparr>ck_domain = ''x.org'', ck_mailServer = ''mail.x.org''\<rparr>) = StatusPass"
  by code_simp

text \<open>Without a key the generator gives a placeholder, which the check of DKIM takes for a key.\<close>

lemma wgen: "NewGenerator ''x.org'' ''mail.x.org'' ''10.0.0.1'' =
   Inr \<lparr>gn_domain = ''x.org'', gn_mailServer = ''mail.x.org'', gn_serverIP = ''10.0.0.1'', gn_dkimKey = None, gn_dkimKeyPEM = []\<rparr>"
proof -
  have "MatchString domainPattern ''x.org''" "MatchString domainPattern ''mail.x.org''" "ParseIP ''10.0.0.1'' \<noteq> None"
    by (code_simp, code_simp, simp add: ParseIP_def parseIPv4Fields_def parse_octet_def v4_groups_def digit_val_def is_digit_def)
  then show ?thesis unfolding NewGenerator_def by (simp only: list.distinct if_False not_True_eq_False)
qed

lemma wchk: "NewChecker ''x.org'' ''mail.x.org'' = Inr \<lparr>ck_domain = ''x.org'', ck_mailServer = ''mail.x.org''\<rparr>"
proof -
  have "MatchString domainPattern ''x.org''" "MatchString domainPattern ''mail.x.org''" by (code_simp, code_simp)
  then show ?thesis unfolding NewChecker_def by (simp only: list.distinct if_False not_True_eq_False)
qed

theorem generated_records_pass_witness:
  "\<exists>g c. NewGenerator ''x.org'' ''mail.x.org'' ''10.0.0.1'' = Inr g \<and> NewChecker ''x.org'' ''mail.x.org'' = Inr c \<and>
     map cr_Status (take 4 (CheckAll (\<lambda>_. None) (published (ck_domain c) (GenerateAll g)) c)) = [StatusPass, StatusPass, StatusPass, StatusPass]"
  by (intro exI conjI, rule wgen, rule wchk, rule generated_records_pass) (simp_all only: dns_generator.simps dns_checker.simps)

text \<open>Without a key the generator gives a placeholder, which the check of DKIM takes for a key.\<close>

lemma dkim_placeholder_passes:
  assumes "gn_dkimKey g = None" and "gn_dkimKeyPEM g = []" and "gn_domain g = ck_domain c" and "gn_mailServer g = ck_mailServer c"
  shows "dkim_value g = ''v=DKIM1; k=rsa; p=<YOUR_DKIM_PUBLIC_KEY_HERE>'' \<and>
     cr_Status (CheckDKIM None (published (ck_domain c) (GenerateAll g)) c) = StatusPass"
proof
  show "dkim_value g = ''v=DKIM1; k=rsa; p=<YOUR_DKIM_PUBLIC_KEY_HERE>''" using assms(1,2) by (simp add: dkim_value_def)
  show "cr_Status (CheckDKIM None (published (ck_domain c) (GenerateAll g)) c) = StatusPass" by (rule published_dkim)
qed

text \<open>An address of IP version 6 is accepted and put into an A record; and the name of a mail server outside the domain gets the domain appended
  in the zone file.\<close>

lemma generator_accepts_v6: "\<exists>g. NewGenerator ''x.org'' ''mail.y.net'' ''::1'' = Inr g \<and> rc_Type (GenerateA g) = ''A'' \<and> rc_Value (GenerateA g) = ''::1''"
proof -
  have "MatchString domainPattern ''x.org''" "MatchString domainPattern ''mail.y.net''" "ParseIP ''::1'' \<noteq> None"
    by (code_simp, code_simp, code_simp)
  then have "NewGenerator ''x.org'' ''mail.y.net'' ''::1'' = Inr \<lparr>gn_domain = ''x.org'', gn_mailServer = ''mail.y.net'', gn_serverIP = ''::1'', gn_dkimKey = None, gn_dkimKeyPEM = []\<rparr>"
    unfolding NewGenerator_def by (simp only: list.distinct if_False not_True_eq_False)
  then show ?thesis by (intro exI conjI, assumption) (simp_all only: GenerateA_def Let_def dns_record.simps dns_generator.simps)
qed

lemma zone_foreign_host: "zone_host ''x.org'' (rc_Host (GenerateA \<lparr>gn_domain = ''x.org'', gn_mailServer = ''mail.y.net'', gn_serverIP = ip, gn_dkimKey = None, gn_dkimKeyPEM = []\<rparr>))
   = ''mail.y.net.x.org.''"
  by (simp add: GenerateA_def HasSuffix_def zone_host_def suffix_def)

end
