(* ===== verification/Autodiscover.thy ===== *)
theory Autodiscover
  imports Go_Http "HOL-Library.Word"
begin

unbundle bit_operations_syntax

text \<open>
  Package \<^verbatim>\<open>internal/autodiscover\<close>: the settings that mail clients ask for, in the formats of Mozilla, Microsoft and Apple, and the policy of
  MTA-STS. Decoding the XML body of a request is left to the library: the request carries the address it finds, or nothing on an error. The
  template of the Apple profile always parses, and writing a response succeeds.
\<close>

section \<open>Characters and escaping\<close>

text \<open>\<open>utf8.DecodeRune\<close>: a code point and the bytes it takes; what is no UTF-8 gives U+FFFD for one byte.\<close>

definition between :: "nat \<Rightarrow> nat \<Rightarrow> nat \<Rightarrow> bool" where
  "between lo hi b \<longleftrightarrow> lo \<le> b \<and> b \<le> hi"

definition RuneError :: nat where "RuneError = 0xFFFD"

fun DecodeRune :: "nat list \<Rightarrow> nat \<times> nat" where
  "DecodeRune [] = (RuneError, 0)"
| "DecodeRune (b0 # r) =
     (if b0 < 0x80 then (b0, 1)
      else if between 0xC2 0xDF b0
      then (case r of b1 # _ \<Rightarrow> if between 0x80 0xBF b1 then ((b0 - 0xC0) * 64 + (b1 - 0x80), 2) else (RuneError, 1) | [] \<Rightarrow> (RuneError, 1))
      else if between 0xE0 0xEF b0
      then (case r of b1 # b2 # _ \<Rightarrow>
              if between (if b0 = 0xE0 then 0xA0 else 0x80) (if b0 = 0xED then 0x9F else 0xBF) b1 \<and> between 0x80 0xBF b2
              then ((b0 - 0xE0) * 4096 + (b1 - 0x80) * 64 + (b2 - 0x80), 3) else (RuneError, 1)
            | _ \<Rightarrow> (RuneError, 1))
      else if between 0xF0 0xF4 b0
      then (case r of b1 # b2 # b3 # _ \<Rightarrow>
              if between (if b0 = 0xF0 then 0x90 else 0x80) (if b0 = 0xF4 then 0x8F else 0xBF) b1 \<and> between 0x80 0xBF b2 \<and> between 0x80 0xBF b3
              then ((b0 - 0xF0) * 262144 + (b1 - 0x80) * 4096 + (b2 - 0x80) * 64 + (b3 - 0x80), 4) else (RuneError, 1)
            | _ \<Rightarrow> (RuneError, 1))
      else (RuneError, 1))"

definition rune_at :: "string \<Rightarrow> nat \<times> nat" where
  "rune_at s = DecodeRune (map of_char s)"

lemma DecodeRune_width: "bs \<noteq> [] \<Longrightarrow> 1 \<le> snd (DecodeRune bs) \<and> snd (DecodeRune bs) \<le> length bs"
  by (induction bs rule: DecodeRune.induct) (auto split: list.split)

text \<open>The characters of a text, each with its bytes.\<close>

function runes :: "string \<Rightarrow> (nat \<times> string) list" where
  "runes s = (if s = [] then [] else let (r, w) = rune_at s in (r, take w s) # runes (drop w s))"
  by auto
termination
proof (relation "measure length")
  fix s :: string and x r w
  assume "s \<noteq> []" "x = rune_at s" "(r, w) = x"
  then show "(drop w s, s) \<in> measure length" using DecodeRune_width [of "map of_char s"] by (cases "rune_at s") (auto simp: rune_at_def)
qed simp

declare runes.simps [simp del]

definition isInCharacterRange :: "nat \<Rightarrow> bool" where
  "isInCharacterRange r \<longleftrightarrow> r = 0x09 \<or> r = 0x0A \<or> r = 0x0D \<or> between 0x20 0xD7FF r \<or> between 0xE000 0xFFFD r \<or> between 0x10000 0x10FFFF r"

text \<open>The escaping of \<^verbatim>\<open>encoding/xml\<close>.\<close>

definition escape_rune :: "nat \<times> string \<Rightarrow> string" where
  "escape_rune x = (case x of (r, bytes) \<Rightarrow>
     if r = 34 then ''&#34;'' else if r = 39 then ''&#39;'' else if r = 38 then ''&amp;'' else if r = 60 then ''&lt;''
     else if r = 62 then ''&gt;'' else if r = 9 then ''&#x9;'' else if r = 10 then ''&#xA;'' else if r = 13 then ''&#xD;''
     else if \<not> isInCharacterRange r \<or> r = RuneError \<and> length bytes = 1 then [CHR 0xEF, CHR 0xBF, CHR 0xBD]
     else bytes)"

definition xml_escape :: "string \<Rightarrow> string" where
  "xml_escape s = concat (map escape_rune (runes s))"

section \<open>The server\<close>

record ad_config =
  ag_Domain :: string
  ag_Hostname :: string
  ag_IMAPPort :: int
  ag_SMTPPort :: int
  ag_DisplayName :: string

definition NewServer_ad :: "ad_config \<Rightarrow> ad_config" where
  "NewServer_ad c =
     (let c1 = (if ag_IMAPPort c = 0 then c\<lparr>ag_IMAPPort := 993\<rparr> else c);
          c2 = (if ag_SMTPPort c1 = 0 then c1\<lparr>ag_SMTPPort := 587\<rparr> else c1)
      in if ag_DisplayName c2 = [] then c2\<lparr>ag_DisplayName := ag_Domain c2 @ '' Mail''\<rparr> else c2)"

record ad_request =
  dq_Method :: string
  dq_Path :: string
  dq_RawQuery :: string
  dq_Query :: "(string \<times> string) list" \<comment> \<open>the parameters of the query\<close>
  dq_Decoded :: "string option" \<comment> \<open>the address in the XML body\<close>

definition Query_Get :: "ad_request \<Rightarrow> string \<Rightarrow> string" where
  "Query_Get r k = (case map_of (dq_Query r) k of None \<Rightarrow> [] | Some v \<Rightarrow> v)"

definition text_of :: "string list \<Rightarrow> string" where
  "text_of ls = Join ls LF"

definition ok_response :: "(string \<times> string) list \<Rightarrow> string \<Rightarrow> http_response" where
  "ok_response hs body = \<lparr>rs_Status = 200, rs_Header = hs, rs_Body = body\<rparr>"

definition xml_type :: "(string \<times> string) list" where
  "xml_type = [(''Content-Type'', ''application/xml; charset=utf-8'')]"

section \<open>Mozilla Autoconfig\<close>

record mozilla_server =
  ms_Type :: string
  ms_Hostname :: string
  ms_Port :: int
  ms_SocketType :: string
  ms_Username :: string
  ms_Auth :: string

record mozillaConfig =
  mz_Version :: string
  mz_ID :: string
  mz_Domain :: string
  mz_DisplayName :: string
  mz_InServer :: mozilla_server
  mz_OutServer :: mozilla_server

definition mozilla_settings :: "ad_config \<Rightarrow> string \<Rightarrow> mozillaConfig" where
  "mozilla_settings c email =
     \<lparr>mz_Version = ''1.1'', mz_ID = ag_Domain c, mz_Domain = ag_Domain c, mz_DisplayName = ag_DisplayName c,
      mz_InServer = \<lparr>ms_Type = ''imap'', ms_Hostname = ag_Hostname c, ms_Port = ag_IMAPPort c, ms_SocketType = ''SSL'', ms_Username = email,
        ms_Auth = ''password-cleartext''\<rparr>,
      mz_OutServer = \<lparr>ms_Type = ''smtp'', ms_Hostname = ag_Hostname c, ms_Port = ag_SMTPPort c, ms_SocketType = ''STARTTLS'', ms_Username = email,
        ms_Auth = ''password-cleartext''\<rparr>\<rparr>"

text \<open>\<open>xml.MarshalIndent\<close> of the structure, with two blanks for each level.\<close>

definition xml_elem :: "string \<Rightarrow> string \<Rightarrow> string" where
  "xml_elem tag s = ''<'' @ tag @ ''>'' @ xml_escape s @ ''</'' @ tag @ ''>''"

definition xml_start :: "string \<Rightarrow> string \<Rightarrow> string \<Rightarrow> string" where
  \<open>xml_start tag attr s = ''<'' @ tag @ '' '' @ attr @ ''="'' @ xml_escape s @ ''">''\<close>

definition server_lines :: "string \<Rightarrow> mozilla_server \<Rightarrow> string list" where
  "server_lines tag s =
     [''    '' @ xml_start tag ''type'' (ms_Type s), ''      '' @ xml_elem ''hostname'' (ms_Hostname s), ''      '' @ xml_elem ''port'' (show_int (ms_Port s)),
      ''      '' @ xml_elem ''socketType'' (ms_SocketType s), ''      '' @ xml_elem ''username'' (ms_Username s),
      ''      '' @ xml_elem ''authentication'' (ms_Auth s), ''    </'' @ tag @ ''>'']"

definition MarshalIndent :: "mozillaConfig \<Rightarrow> string" where
  "MarshalIndent m = text_of
     ([xml_start ''clientConfig'' ''version'' (mz_Version m), ''  '' @ xml_start ''emailProvider'' ''id'' (mz_ID m),
       ''    '' @ xml_elem ''domain'' (mz_Domain m), ''    '' @ xml_elem ''displayName'' (mz_DisplayName m)] @
      server_lines ''incomingServer'' (mz_InServer m) @ server_lines ''outgoingServer'' (mz_OutServer m) @ [''  </emailProvider>'', ''</clientConfig>''])"

definition xml_Header :: string where
  \<open>xml_Header = ''<?xml version="1.0" encoding="UTF-8"?>'' @ LF\<close>

definition mozilla_email :: "ad_request \<Rightarrow> string" where
  "mozilla_email r = (let email = Query_Get r ''emailaddress'' in if email = [] then ''%EMAILADDRESS%'' else email)"

definition handleMozillaAutoconfig :: "ad_config \<Rightarrow> ad_request \<Rightarrow> http_response" where
  "handleMozillaAutoconfig c r = ok_response xml_type (xml_Header @ MarshalIndent (mozilla_settings c (mozilla_email r)))"

section \<open>Microsoft Autodiscover\<close>

definition microsoft_text :: "ad_config \<Rightarrow> string \<Rightarrow> string" where
  \<open>microsoft_text c email = text_of
     [''<?xml version="1.0" encoding="utf-8"?>'',
      ''<Autodiscover xmlns="http://schemas.microsoft.com/exchange/autodiscover/responseschema/2006">'',
      ''  <Response xmlns="http://schemas.microsoft.com/exchange/autodiscover/outlook/responseschema/2006a">'',
      ''    <Account>'',
      ''      <AccountType>email</AccountType>'',
      ''      <Action>settings</Action>'',
      ''      <Protocol>'',
      ''        <Type>IMAP</Type>'',
      ''        <Server>'' @ ag_Hostname c @ ''</Server>'',
      ''        <Port>'' @ show_int (ag_IMAPPort c) @ ''</Port>'',
      ''        <LoginName>'' @ email @ ''</LoginName>'',
      ''        <DomainRequired>off</DomainRequired>'',
      ''        <SPA>off</SPA>'',
      ''        <SSL>on</SSL>'',
      ''        <AuthRequired>on</AuthRequired>'',
      ''      </Protocol>'',
      ''      <Protocol>'',
      ''        <Type>SMTP</Type>'',
      ''        <Server>'' @ ag_Hostname c @ ''</Server>'',
      ''        <Port>'' @ show_int (ag_SMTPPort c) @ ''</Port>'',
      ''        <LoginName>'' @ email @ ''</LoginName>'',
      ''        <DomainRequired>off</DomainRequired>'',
      ''        <SPA>off</SPA>'',
      ''        <Encryption>TLS</Encryption>'',
      ''        <AuthRequired>on</AuthRequired>'',
      ''        <UsePOPAuth>on</UsePOPAuth>'',
      ''        <SMTPLast>off</SMTPLast>'',
      ''      </Protocol>'',
      ''    </Account>'',
      ''  </Response>'',
      ''</Autodiscover>'']\<close>

definition microsoft_email :: "ad_config \<Rightarrow> ad_request \<Rightarrow> string" where
  "microsoft_email c r =
     (let e1 = (if dq_Method r = ''POST'' then (case dq_Decoded r of Some e \<Rightarrow> e | None \<Rightarrow> []) else []);
          e2 = (if e1 = [] then Query_Get r ''Email'' else e1)
      in if e2 = [] then ''user@'' @ ag_Domain c else e2)"

definition handleMicrosoftAutodiscover :: "ad_config \<Rightarrow> ad_request \<Rightarrow> http_response" where
  "handleMicrosoftAutodiscover c r = ok_response xml_type (microsoft_text c (microsoft_email c r))"

section \<open>Apple profile\<close>

record profile_data =
  pd_DisplayName :: string
  pd_Domain :: string
  pd_Hostname :: string
  pd_Email :: string
  pd_IMAPPort :: int
  pd_SMTPPort :: int
  pd_UUID :: string
  pd_ProfileUUID :: string

definition appleMobileconfigTemplate :: "profile_data \<Rightarrow> string" where
  \<open>appleMobileconfigTemplate d = text_of
     [''<?xml version="1.0" encoding="UTF-8"?>'',
      ''<!DOCTYPE plist PUBLIC "-//Apple//DTD PLIST 1.0//EN" "http://www.apple.com/DTDs/PropertyList-1.0.dtd">'',
      ''<plist version="1.0">'',
      ''<dict>'',
      ''    <key>PayloadContent</key>'',
      ''    <array>'',
      ''        <dict>'',
      ''            <key>EmailAccountDescription</key>'',
      ''            <string>'' @ pd_DisplayName d @ ''</string>'',
      ''            <key>EmailAccountName</key>'',
      ''            <string>'' @ pd_Email d @ ''</string>'',
      ''            <key>EmailAccountType</key>'',
      ''            <string>EmailTypeIMAP</string>'',
      ''            <key>EmailAddress</key>'',
      ''            <string>'' @ pd_Email d @ ''</string>'',
      ''            <key>IncomingMailServerAuthentication</key>'',
      ''            <string>EmailAuthPassword</string>'',
      ''            <key>IncomingMailServerHostName</key>'',
      ''            <string>'' @ pd_Hostname d @ ''</string>'',
      ''            <key>IncomingMailServerPortNumber</key>'',
      ''            <integer>'' @ show_int (pd_IMAPPort d) @ ''</integer>'',
      ''            <key>IncomingMailServerUseSSL</key>'',
      ''            <true/>'',
      ''            <key>IncomingMailServerUsername</key>'',
      ''            <string>'' @ pd_Email d @ ''</string>'',
      ''            <key>OutgoingMailServerAuthentication</key>'',
      ''            <string>EmailAuthPassword</string>'',
      ''            <key>OutgoingMailServerHostName</key>'',
      ''            <string>'' @ pd_Hostname d @ ''</string>'',
      ''            <key>OutgoingMailServerPortNumber</key>'',
      ''            <integer>465</integer>'',
      ''            <key>OutgoingMailServerUseSSL</key>'',
      ''            <true/>'',
      ''            <key>OutgoingMailServerUsername</key>'',
      ''            <string>'' @ pd_Email d @ ''</string>'',
      ''            <key>OutgoingPasswordSameAsIncomingPassword</key>'',
      ''            <true/>'',
      ''            <key>PayloadDescription</key>'',
      ''            <string>Email account configuration for '' @ pd_Domain d @ ''</string>'',
      ''            <key>PayloadDisplayName</key>'',
      ''            <string>'' @ pd_DisplayName d @ ''</string>'',
      ''            <key>PayloadIdentifier</key>'',
      ''            <string>com.'' @ pd_Domain d @ ''.email</string>'',
      ''            <key>PayloadType</key>'',
      ''            <string>com.apple.mail.managed</string>'',
      ''            <key>PayloadUUID</key>'',
      ''            <string>'' @ pd_UUID d @ ''</string>'',
      ''            <key>PayloadVersion</key>'',
      ''            <integer>1</integer>'',
      ''            <key>PreventAppSheet</key>'',
      ''            <false/>'',
      ''            <key>PreventMove</key>'',
      ''            <false/>'',
      ''            <key>SMIMEEnabled</key>'',
      ''            <false/>'',
      ''        </dict>'',
      ''    </array>'',
      ''    <key>PayloadDescription</key>'',
      ''    <string>Email configuration profile for '' @ pd_Domain d @ ''</string>'',
      ''    <key>PayloadDisplayName</key>'',
      ''    <string>'' @ pd_DisplayName d @ ''</string>'',
      ''    <key>PayloadIdentifier</key>'',
      ''    <string>com.'' @ pd_Domain d @ ''.profile</string>'',
      ''    <key>PayloadOrganization</key>'',
      ''    <string>'' @ pd_Domain d @ ''</string>'',
      ''    <key>PayloadRemovalDisallowed</key>'',
      ''    <false/>'',
      ''    <key>PayloadType</key>'',
      ''    <string>Configuration</string>'',
      ''    <key>PayloadUUID</key>'',
      ''    <string>'' @ pd_ProfileUUID d @ ''</string>'',
      ''    <key>PayloadVersion</key>'',
      ''    <integer>1</integer>'',
      ''</dict>'',
      ''</plist>'']\<close>

definition apple_form :: "ad_config \<Rightarrow> string" where
  \<open>apple_form c = text_of
     [''<!DOCTYPE html>'',
      ''<html>'',
      ''<head>'',
      ''    <title>'' @ ag_DisplayName c @ '' - Email Setup</title>'',
      ''    <meta name="viewport" content="width=device-width, initial-scale=1">'',
      ''    <style>'',
      ''        body { font-family: -apple-system, BlinkMacSystemFont, sans-serif; max-width: 400px; margin: 50px auto; padding: 20px; }'',
      ''        h1 { font-size: 24px; }'',
      ''        input[type=email] { width: 100%; padding: 12px; margin: 10px 0; border: 1px solid #ccc; border-radius: 8px; font-size: 16px; }'',
      ''        button { width: 100%; padding: 12px; background: #007AFF; color: white; border: none; border-radius: 8px; font-size: 16px; cursor: pointer; }'',
      ''        button:hover { background: #0056b3; }'',
      ''        p { color: #666; font-size: 14px; }'',
      ''    </style>'',
      ''</head>'',
      ''<body>'',
      ''    <h1>'' @ ag_DisplayName c @ '' Email Setup</h1>'',
      ''    <p>Enter your email address to download the configuration profile for Apple Mail.</p>'',
      ''    <form method="get">'',
      ''        <input type="email" name="email" placeholder="your.email@'' @ ag_Domain c @ ''" required>'',
      ''        <button type="submit">Download Profile</button>'',
      ''    </form>'',
      ''    <p>After downloading, open the profile on your iPhone, iPad, or Mac to automatically configure your email.</p>'',
      ''</body>'',
      ''</html>'']\<close>

definition upper_hex :: "nat \<Rightarrow> char" where
  "upper_hex d = (if d < 10 then char_of (48 + d) else char_of (55 + d))"

fun show_HEX :: "nat \<Rightarrow> nat \<Rightarrow> string" where
  "show_HEX 0 n = []"
| "show_HEX (Suc k) n = show_HEX k (n div 16) @ [upper_hex (n mod 16)]"

definition uuid_hash :: "string \<Rightarrow> 64 word" where
  "uuid_hash input = foldl (\<lambda>hash c. hash * 31 + of_nat (fst c)) 0 (runes input)"

definition generateUUID :: "string \<Rightarrow> string" where
  "generateUUID input =
     (let hash = uuid_hash input
      in show_HEX 8 (unat (hash AND 0xFFFFFFFF)) @ ''-'' @ show_HEX 4 (unat (drop_bit 32 hash AND 0xFFFF)) @ ''-'' @
         show_HEX 4 (unat (drop_bit 48 hash AND 0xFFFF)) @ ''-'' @ show_HEX 4 (unat (drop_bit 56 hash AND 0xFFFF)) @ ''-'' @
         show_HEX 12 (unat (hash AND 0xFFFFFFFFFFFF)))"

definition apple_data :: "ad_config \<Rightarrow> string \<Rightarrow> profile_data" where
  "apple_data c email = \<lparr>pd_DisplayName = ag_DisplayName c, pd_Domain = ag_Domain c, pd_Hostname = ag_Hostname c, pd_Email = email,
     pd_IMAPPort = ag_IMAPPort c, pd_SMTPPort = ag_SMTPPort c, pd_UUID = generateUUID email, pd_ProfileUUID = generateUUID (email @ ''-profile'')\<rparr>"

definition handleAppleMobileconfig :: "ad_config \<Rightarrow> ad_request \<Rightarrow> http_response" where
  \<open>handleAppleMobileconfig c r =
     (let email = Query_Get r ''email''
      in if email = [] then ok_response [(''Content-Type'', ''text/html; charset=utf-8'')] (apple_form c)
         else if length (Split email (CHR ''@'')) \<noteq> 2 then http_Error ''Invalid email address'' 400
         else ok_response [(''Content-Type'', ''application/x-apple-aspen-config''),
             (''Content-Disposition'', ''attachment; filename="'' @ ag_Domain c @ ''-email.mobileconfig"'')]
           (appleMobileconfigTemplate (apple_data c email)))\<close>

section \<open>MTA-STS and the routes\<close>

definition handleMTASTS :: "ad_config \<Rightarrow> http_response" where
  "handleMTASTS c = ok_response [(''Content-Type'', ''text/plain; charset=utf-8'')]
     (text_of [''version: STSv1'', ''mode: enforce'', ''mx: '' @ ag_Hostname c, ''max_age: 604800'', []])"

definition mozilla_paths :: "string list" where
  "mozilla_paths = [''/.well-known/autoconfig/mail/config-v1.1.xml'', ''/mail/config-v1.1.xml'']"

definition microsoft_paths :: "string list" where
  "microsoft_paths = [''/autodiscover/autodiscover.xml'', ''/Autodiscover/Autodiscover.xml'', ''/AutoDiscover/AutoDiscover.xml'']"

definition apple_paths :: "string list" where
  "apple_paths = [''/email.mobileconfig'', ''/.well-known/email.mobileconfig'']"

definition setupRoutes_ad :: "string list" where
  "setupRoutes_ad = mozilla_paths @ microsoft_paths @ apple_paths @ [''/.well-known/mta-sts.txt'']"

definition serve_autodiscover :: "ad_config \<Rightarrow> ad_request \<Rightarrow> http_response" where
  "serve_autodiscover c r = (case mux_route setupRoutes_ad (dq_Path r) of
     NoRoute \<Rightarrow> http_NotFound
   | RedirectTo url \<Rightarrow> http_Redirect (dq_Method r) (url @ (if dq_RawQuery r = [] then [] else ''?'' @ dq_RawQuery r)) 301
   | Route q \<Rightarrow>
       if q \<in> set mozilla_paths then handleMozillaAutoconfig c r
       else if q \<in> set microsoft_paths then handleMicrosoftAutodiscover c r
       else if q \<in> set apple_paths then handleAppleMobileconfig c r
       else handleMTASTS c)"

section \<open>What a client sends cannot change the markup of the Mozilla reply\<close>

definition markup :: "char \<Rightarrow> bool" where
  "markup c \<longleftrightarrow> c \<in> {CHR ''<'', CHR ''>'', CHR 0x22, CHR 0x27}"

lemma markup_code: "markup c \<longleftrightarrow> of_char c \<in> {60, 62, 34, 39::nat}"
proof -
  have "(c = d) = (of_char c = (of_char d :: nat))" for d by (simp only: of_char_eq_iff)
  from this [of "CHR ''<''"] this [of "CHR ''>''"] this [of "CHR 0x22"] this [of "CHR 0x27"] show ?thesis by (simp add: markup_def)
qed

text \<open>The bytes of a character: one below 128 that is the character, one that is no UTF-8, or several from 128 on.\<close>

lemma DecodeRune_bytes:
  "bs \<noteq> [] \<Longrightarrow> DecodeRune bs = (r, w) \<Longrightarrow>
   w = 1 \<and> (r = hd bs \<or> r = RuneError) \<or> 2 \<le> w \<and> (\<forall>b\<in>set (take w bs). 0x80 \<le> b)"
  by (induction bs rule: DecodeRune.induct) (auto simp: between_def split: list.splits if_splits)

lemma escape_rune_plain:
  assumes "s \<noteq> []" and "rune_at s = (r, w)"
  shows "\<forall>c\<in>set (escape_rune (r, take w s)). \<not> markup c"
proof -
  consider "w = 1" "r = of_char (hd s) \<or> r = RuneError" | "2 \<le> w" "\<forall>b\<in>set (take w (map of_char s)). 0x80 \<le> (b::nat)"
    using DecodeRune_bytes [of "map of_char s" r w] assms by (auto simp: rune_at_def hd_map)
  then have "r \<noteq> 34 \<and> r \<noteq> 39 \<and> r \<noteq> 60 \<and> r \<noteq> 62 \<and> (r = RuneError \<longrightarrow> length (take w s) \<noteq> 1) \<Longrightarrow> \<forall>c\<in>set (take w s). \<not> markup c"
  proof cases
    case 1
    then show "r \<noteq> 34 \<and> r \<noteq> 39 \<and> r \<noteq> 60 \<and> r \<noteq> 62 \<and> (r = RuneError \<longrightarrow> length (take w s) \<noteq> 1) \<Longrightarrow> ?thesis"
      using assms(1) by (cases s) (auto simp: markup_code)
  next
    case 2
    then show ?thesis by (auto simp: take_map markup_code)
  qed
  then show ?thesis by (auto simp: escape_rune_def markup_def split: if_splits)
qed

lemma xml_escape_plain: "c \<in> set (xml_escape s) \<Longrightarrow> \<not> markup c"
proof (induction s rule: runes.induct)
  case (1 s)
  show ?case
  proof (cases "s = []")
    case True
    then show ?thesis using 1(2) by (simp add: xml_escape_def runes.simps)
  next
    case False
    obtain r w where r: "rune_at s = (r, w)" by (metis prod.exhaust)
    then have e: "xml_escape s = escape_rune (r, take w s) @ xml_escape (drop w s)" using False by (simp add: xml_escape_def runes.simps [of s])
    show ?thesis using 1 e escape_rune_plain [OF False r] False r by auto
  qed
qed

lemma filter_escape: "filter markup (xml_escape s) = []"
  using xml_escape_plain by (auto simp: filter_empty_conv)

lemma filter_Join: "filter P (Join ls sep) = Join (map (filter P) ls) (filter P sep)"
  by (induction ls sep rule: Join.induct) auto

lemma server_lines_markup:
  "ms_Username s' = e \<Longrightarrow> s'\<lparr>ms_Username := ms_Username s\<rparr> = s \<Longrightarrow> map (filter markup) (server_lines tag s') = map (filter markup) (server_lines tag s)"
  by (cases s; cases s') (simp add: server_lines_def xml_elem_def filter_escape)

lemma MarshalIndent_markup:
  assumes "mz_Version m = mz_Version m'" "mz_ID m = mz_ID m'" "mz_Domain m = mz_Domain m'" "mz_DisplayName m = mz_DisplayName m'"
    and "\<And>tag. map (filter markup) (server_lines tag (mz_InServer m)) = map (filter markup) (server_lines tag (mz_InServer m'))"
    and "\<And>tag. map (filter markup) (server_lines tag (mz_OutServer m)) = map (filter markup) (server_lines tag (mz_OutServer m'))"
  shows "filter markup (MarshalIndent m) = filter markup (MarshalIndent m')"
  unfolding MarshalIndent_def text_of_def filter_Join map_append assms(1-4) assms(5) assms(6) ..

lemma mozilla_settings_markup:
  "filter markup (MarshalIndent (mozilla_settings c e)) = filter markup (MarshalIndent (mozilla_settings c e'))"
proof (rule MarshalIndent_markup)
  fix tag
  show "map (filter markup) (server_lines tag (mz_InServer (mozilla_settings c e))) = map (filter markup) (server_lines tag (mz_InServer (mozilla_settings c e')))"
    by (rule server_lines_markup [OF refl]) (simp only: mozilla_settings_def mozillaConfig.simps mozilla_server.simps)
  show "map (filter markup) (server_lines tag (mz_OutServer (mozilla_settings c e))) = map (filter markup) (server_lines tag (mz_OutServer (mozilla_settings c e')))"
    by (rule server_lines_markup [OF refl]) (simp only: mozilla_settings_def mozillaConfig.simps mozilla_server.simps)
qed (simp_all only: mozilla_settings_def mozillaConfig.simps)

text \<open>C37. The markup of the reply is the same for every request: an address from the query is text in it and no more.\<close>

theorem mozilla_markup_fixed:
  "filter markup (rs_Body (handleMozillaAutoconfig c r)) = filter markup (rs_Body (handleMozillaAutoconfig c r'))"
  using mozilla_settings_markup [of c "mozilla_email r" "mozilla_email r'"]
  by (simp only: handleMozillaAutoconfig_def ok_response_def http_response.simps filter_append)

section \<open>What the other replies do\<close>

lemma Join_Contains: "l \<in> set ls \<Longrightarrow> Contains l x \<Longrightarrow> Contains (Join ls sep) x"
proof (induction ls sep rule: Join.induct)
  case (3 s t ss sep)
  show ?case
  proof (cases "l = s")
    case True
    with 3(3) obtain u v where "s = u @ x @ v" unfolding Contains_iff by blast
    then have "Join (s # t # ss) sep = u @ x @ (v @ sep @ Join (t # ss) sep)" by simp
    then show ?thesis unfolding Contains_iff by blast
  next
    case False
    then obtain u v where "Join (t # ss) sep = u @ x @ v" using 3 unfolding Contains_iff by auto
    then have "Join (s # t # ss) sep = (s @ sep @ u) @ x @ v" by simp
    then show ?thesis unfolding Contains_iff by blast
  qed
qed auto

text \<open>The Microsoft reply and the Apple profile hold the address as it was sent, markup included.\<close>

lemma microsoft_unescaped: "Contains (rs_Body (handleMicrosoftAutodiscover c r)) (microsoft_email c r)"
proof -
  have "Contains (''        <LoginName>'' @ e @ ''</LoginName>'') e" for e unfolding Contains_iff by blast
  then have "Contains (microsoft_text c e) e" for e
    unfolding microsoft_text_def text_of_def by (rule Join_Contains [rotated]) (simp only: list.set, (rule insertI1 | rule insertI2)+)
  then show ?thesis by (simp only: handleMicrosoftAutodiscover_def ok_response_def http_response.simps)
qed

lemma apple_unescaped:
  assumes "Query_Get r ''email'' = e" and "e \<noteq> []" and "length (Split e (CHR ''@'')) = 2"
  shows "Contains (rs_Body (handleAppleMobileconfig c r)) e"
proof -
  have "Contains (''            <string>'' @ e @ ''</string>'') e" unfolding Contains_iff by blast
  then have "Contains (appleMobileconfigTemplate (apple_data c e)) e"
    unfolding appleMobileconfigTemplate_def text_of_def apple_data_def profile_data.simps
    by (rule Join_Contains [rotated]) (simp only: list.set, (rule insertI1 | rule insertI2)+)
  then show ?thesis unfolding handleAppleMobileconfig_def Let_def assms(1,3) by (simp only: assms(2) ok_response_def http_response.simps if_False not_True_eq_False simp_thms)
qed

text \<open>The outgoing port of the Apple profile is fixed, whatever the configuration says.\<close>

lemma apple_ignores_port: "handleAppleMobileconfig (c\<lparr>ag_SMTPPort := p\<rparr>) r = handleAppleMobileconfig c r"
  unfolding handleAppleMobileconfig_def Let_def appleMobileconfigTemplate_def apple_data_def apple_form_def
  by (cases c) (simp only: profile_data.simps ad_config.simps)

section \<open>Identifiers\<close>

lemma show_HEX_length [simp]: "length (show_HEX k n) = k"
  by (induction k arbitrary: n) simp_all

definition hex_digit :: "char \<Rightarrow> bool" where
  "hex_digit c \<longleftrightarrow> c \<in> set ''0123456789ABCDEF''"

lemma upper_hex_digit: "d < 16 \<Longrightarrow> hex_digit (upper_hex d)"
proof -
  have "list_all (\<lambda>d. hex_digit (upper_hex d)) [0..<16]" by code_simp
  then show "d < 16 \<Longrightarrow> hex_digit (upper_hex d)" by (simp add: list_all_iff)
qed

lemma show_HEX_digits: "c \<in> set (show_HEX k n) \<Longrightarrow> hex_digit c"
  by (induction k arbitrary: n) (auto simp: upper_hex_digit)

text \<open>An identifier has the form of a UUID: five groups of 8, 4, 4, 4 and 12 digits.\<close>

theorem generateUUID_shape:
  "\<exists>a b c d e. generateUUID s = Join [a, b, c, d, e] ''-'' \<and> map length [a, b, c, d, e] = [8, 4, 4, 4, 12] \<and> (\<forall>x\<in>set (a @ b @ c @ d @ e). hex_digit x)"
proof -
  let ?h = "uuid_hash s"
  let ?g = "[show_HEX 8 (unat (?h AND 0xFFFFFFFF)), show_HEX 4 (unat (drop_bit 32 ?h AND 0xFFFF)), show_HEX 4 (unat (drop_bit 48 ?h AND 0xFFFF)),
    show_HEX 4 (unat (drop_bit 56 ?h AND 0xFFFF)), show_HEX 12 (unat (?h AND 0xFFFFFFFFFFFF))]"
  have "generateUUID s = Join ?g ''-''" by (simp add: generateUUID_def Let_def del: show_HEX.simps)
  moreover have "map length ?g = [8, 4, 4, 4, 12]" by (simp del: show_HEX.simps)
  moreover have "\<forall>x\<in>set (concat ?g). hex_digit x" using show_HEX_digits by auto
  ultimately show ?thesis by (metis concat.simps append_Nil2)
qed

text \<open>It depends on a hash of 64 bits only, and two addresses that differ in two letters have the same one.\<close>

lemma uuid_collision: "generateUUID (''Aa'' @ s) = generateUUID (''BB'' @ s)"
proof -
  have "runes (''Aa'' @ s) = (65, ''A'') # (97, ''a'') # runes s" "runes (''BB'' @ s) = (66, ''B'') # (66, ''B'') # runes s"
    by (simp_all add: runes.simps [of "_ # _"] rune_at_def)
  then have "uuid_hash (''Aa'' @ s) = uuid_hash (''BB'' @ s)" by (simp only: uuid_hash_def foldl.simps fst_conv) simp
  then show ?thesis by (simp only: generateUUID_def)
qed

section \<open>Routes\<close>

lemma routes_ad: "p \<in> set setupRoutes_ad \<Longrightarrow> mux_route setupRoutes_ad p = Route p"
proof -
  have "list_all (\<lambda>p. mux_route setupRoutes_ad p = Route p) setupRoutes_ad" by code_simp
  then show "p \<in> set setupRoutes_ad \<Longrightarrow> mux_route setupRoutes_ad p = Route p" by (simp only: list_all_iff)
qed

text \<open>Every address that clients look up is served by its handler.\<close>

theorem serve_autodiscover_routes:
  "(dq_Path r \<in> set mozilla_paths \<longrightarrow> serve_autodiscover c r = handleMozillaAutoconfig c r) \<and>
   (dq_Path r \<in> set microsoft_paths \<longrightarrow> serve_autodiscover c r = handleMicrosoftAutodiscover c r) \<and>
   (dq_Path r \<in> set apple_paths \<longrightarrow> serve_autodiscover c r = handleAppleMobileconfig c r) \<and>
   (dq_Path r = ''/.well-known/mta-sts.txt'' \<longrightarrow> serve_autodiscover c r = handleMTASTS c)"
proof -
  have "list_all (\<lambda>p. p \<notin> set mozilla_paths) (microsoft_paths @ apple_paths @ [''/.well-known/mta-sts.txt''])"
    "list_all (\<lambda>p. p \<notin> set microsoft_paths) (apple_paths @ [''/.well-known/mta-sts.txt''])" "list_all (\<lambda>p. p \<notin> set apple_paths) [''/.well-known/mta-sts.txt'']"
    by code_simp+
  then show ?thesis using routes_ad [of "dq_Path r"] unfolding serve_autodiscover_def
    by (auto simp: list_all_iff setupRoutes_ad_def)
qed

end
