(* ===== verification/Main_Program.thy ===== *)
theory Main_Program
  imports Server_Config Dns_Records Autodiscover Delivery Maildir_Store State_Err
begin

text \<open>
  The commands of the main program, \<^verbatim>\<open>cmd/mailserver/main.go\<close>: the start and the shutdown of the server with the
  values that it passes from the configuration to the components, and the commands that manage domains, users and DNS records. Each step of the
  start is an argument that works or fails; the database is one that has been migrated. The lists of domains and users, the setup and the doctor
  are not modelled.
\<close>

section \<open>Commands on the database\<close>

datatype cmd_error = Plain string | WrapConfig string config_error | WrapDNS string dns_error

record 'f cli_state =
  cl_fs :: 'f
  cl_world :: world
  cl_domain_seq :: int

record 'f cli_env =
  cx_MkdirAll :: "string \<Rightarrow> 'f \<Rightarrow> 'f \<times> string option"
  cx_Open :: "string \<Rightarrow> string option"
  cx_Migrate :: "string option"
  cx_argon2 :: argon2
  cx_rand :: "(string, string) result"
  cx_pid :: nat
  cx_now :: time

type_synonym ('f, 'a) command = "('f cli_state, cmd_error, 'a) sproc"

definition liftW :: "('e \<Rightarrow> cmd_error) \<Rightarrow> ('e, 'a) proc \<Rightarrow> ('f, 'a) command" where
  "liftW h m y = (case m (cl_world y) of (w, Inl e) \<Rightarrow> (y\<lparr>cl_world := w\<rparr>, Inl (h e)) | (w, Inr x) \<Rightarrow> (y\<lparr>cl_world := w\<rparr>, Inr x))"

definition wrap :: "string \<Rightarrow> string \<Rightarrow> cmd_error" where
  "wrap msg e = Plain (msg @ e)"

definition failing :: "(string \<Rightarrow> cmd_error) \<Rightarrow> string option \<Rightarrow> ('f, unit) command" where
  "failing h x = (case x of Some e \<Rightarrow> failS (h e) | None \<Rightarrow> retS ())"

definition ensure_dirs :: "'f cli_env \<Rightarrow> config \<Rightarrow> ('f, unit) command" where
  "ensure_dirs env cfg y = (case EnsureDirectories (cx_MkdirAll env) cfg (cl_fs y) of
     (f, Some e) \<Rightarrow> (y\<lparr>cl_fs := f\<rparr>, Inl (WrapConfig [] e))
   | (f, None) \<Rightarrow> (y\<lparr>cl_fs := f\<rparr>, Inr ()))"

definition open_db :: "'f cli_env \<Rightarrow> config \<Rightarrow> ('f, unit) command" where
  "open_db env cfg = failing (wrap ''failed to open database: '') (cx_Open env (st_DatabasePath (cf_Storage cfg)))"

definition migrate_db :: "'f cli_env \<Rightarrow> ('f, unit) command" where
  "migrate_db env = failing (wrap ''failed to run migrations: '') (cx_Migrate env)"

definition migrateCmd :: "'f cli_env \<Rightarrow> config \<Rightarrow> ('f, string list) command" where
  "migrateCmd env cfg =
     bindS (ensure_dirs env cfg) (\<lambda>_. bindS (open_db env cfg) (\<lambda>_. bindS (migrate_db env) (\<lambda>_. retS [''Migrations completed successfully''])))"

definition quoted_name :: "string \<Rightarrow> string" where
  "quoted_name s = CHR 0x27 # s @ [CHR 0x27]"

text \<open>The INSERT of a domain, with the next value of its key.\<close>

definition cli_insert_domain :: "string \<Rightarrow> ('f, int) command" where
  "cli_insert_domain name y = (case next_fault (cl_world y) of
     (w, Some e) \<Rightarrow> (y\<lparr>cl_world := w\<rparr>, Inl (wrap ''failed to add domain: '' e))
   | (w, None) \<Rightarrow>
       if list_ex (\<lambda>d. d_name d = name) (w_domains w) then (y\<lparr>cl_world := w\<rparr>, Inl (wrap ''failed to add domain: '' ''UNIQUE constraint failed''))
       else (let i = cl_domain_seq y + 1
             in (y\<lparr>cl_world := w\<lparr>w_domains := w_domains w @ [\<lparr>d_id = i, d_name = name, d_active = True\<rparr>]\<rparr>, cl_domain_seq := i\<rparr>, Inr i)))"

definition domainAddCmd :: "'f cli_env \<Rightarrow> config \<Rightarrow> string \<Rightarrow> ('f, string list) command" where
  "domainAddCmd env cfg domainName =
     bindS (ensure_dirs env cfg) (\<lambda>_. bindS (open_db env cfg) (\<lambda>_. bindS (migrate_db env) (\<lambda>_.
     bindS (cli_insert_domain domainName) (\<lambda>i.
     retS [''Domain '' @ quoted_name domainName @ '' added with ID '' @ show_int i]))))"

text \<open>\<open>splitEmail\<close>: at the last at sign.\<close>

definition splitEmail :: "string \<Rightarrow> (string \<times> string) option" where
  "splitEmail email =
     (if CHR ''@'' \<in> set email
      then Some (rev (tl (dropWhile (\<lambda>c. c \<noteq> CHR ''@'') (rev email))), rev (takeWhile (\<lambda>c. c \<noteq> CHR ''@'') (rev email)))
      else None)"

definition generateUIDValidity :: "nat \<Rightarrow> int" where
  "generateUIDValidity pid = uint (of_nat pid XOR 0x12345678 :: 32 word)"

definition cli_mailboxes :: "(string \<times> string) list" where
  "cli_mailboxes = [(''INBOX'', []), (''Drafts'', CHR 0x5C # ''Drafts''), (''Sent'', CHR 0x5C # ''Sent''),
     (''Trash'', CHR 0x5C # ''Trash''), (''Junk'', CHR 0x5C # ''Junk''), (''Archive'', CHR 0x5C # ''Archive'')]"

text \<open>An error of creating a mailbox is only printed.\<close>

fun add_mailboxes :: "'f cli_env \<Rightarrow> int \<Rightarrow> (string \<times> string) list \<Rightarrow> ('f, string list) command" where
  "add_mailboxes env userID [] = retS []"
| "add_mailboxes env userID ((name, specialUse) # mbs) =
     bindS (\<lambda>y. case tryE (insert_mailbox userID name (generateUIDValidity (cx_pid env)) specialUse (cx_now env)) (cl_world y) of
              (w, Inl e) \<Rightarrow> (y\<lparr>cl_world := w\<rparr>, Inr [''Warning: failed to create mailbox '' @ name @ '': '' @ e])
            | (w, Inr _) \<Rightarrow> (y\<lparr>cl_world := w\<rparr>, Inr []))
       (\<lambda>ls. bindS (add_mailboxes env userID mbs) (\<lambda>ls'. retS (ls @ ls')))"

definition userAddCmd :: "'f cli_env \<Rightarrow> config \<Rightarrow> string \<Rightarrow> string \<Rightarrow> ('f, int \<times> string list) command" where
  "userAddCmd env cfg email password =
     bindS (ensure_dirs env cfg) (\<lambda>_. bindS (open_db env cfg) (\<lambda>_. bindS (migrate_db env) (\<lambda>_.
     case splitEmail email of
       None \<Rightarrow> failS (Plain (''invalid email format: '' @ email))
     | Some (username, domain) \<Rightarrow>
         bindS (liftW (\<lambda>_. Plain (''domain '' @ quoted_name domain @ '' not found. Add it first with: mailserver domain add '' @ domain)) (GetDomainID domain))
           (\<lambda>domainID.
         case HashPassword (cx_argon2 env) (cx_rand env) password of
           Inl e \<Rightarrow> failS (wrap ''failed to hash password: '' e)
         | Inr hash \<Rightarrow>
             bindS (liftW (wrap ''failed to add user: '') (tryE (insert_user domainID username hash))) (\<lambda>userID.
             bindS (add_mailboxes env userID cli_mailboxes) (\<lambda>warnings.
             retS (userID, warnings @ [''User '' @ quoted_name email @ '' added with ID '' @ show_int userID,
               ''Default mailboxes created: INBOX, Drafts, Sent, Trash, Junk, Archive''])))))))"

text \<open>The UPDATE of a password: the users of the name in the domain of the name, and how many there are.\<close>

definition named_user :: "string \<Rightarrow> string \<Rightarrow> world \<Rightarrow> user_row \<Rightarrow> bool" where
  "named_user username domain w u \<longleftrightarrow> u_username u = username \<and>
     (case find (\<lambda>d. d_name d = domain) (w_domains w) of None \<Rightarrow> False | Some d \<Rightarrow> u_domain_id u = d_id d)"

definition update_password :: "string \<Rightarrow> string \<Rightarrow> string \<Rightarrow> world \<Rightarrow> world \<times> nat" where
  "update_password hash username domain w =
     (w\<lparr>w_users := map (\<lambda>u. if named_user username domain w u then u\<lparr>u_password_hash := hash\<rparr> else u) (w_users w)\<rparr>,
      length [u \<leftarrow> w_users w. named_user username domain w u])"

definition userPasswdCmd :: "'f cli_env \<Rightarrow> config \<Rightarrow> string \<Rightarrow> string \<Rightarrow> ('f, string list) command" where
  "userPasswdCmd env cfg email newPassword =
     bindS (ensure_dirs env cfg) (\<lambda>_. bindS (open_db env cfg) (\<lambda>_.
     case splitEmail email of
       None \<Rightarrow> failS (Plain (''invalid email format: '' @ email))
     | Some (username, domain) \<Rightarrow>
         (case HashPassword (cx_argon2 env) (cx_rand env) newPassword of
            Inl e \<Rightarrow> failS (wrap ''failed to hash password: '' e)
          | Inr hash \<Rightarrow>
              bindS (liftW (wrap ''failed to update password: '') (execE (update_password hash username domain))) (\<lambda>affected.
              if affected = 0 then failS (Plain (''user not found: '' @ email))
              else retS [''Password updated for '' @ quoted_name email]))))"

section \<open>Commands on DNS records\<close>

definition pad_right :: "nat \<Rightarrow> string \<Rightarrow> string" where
  "pad_right n s = s @ replicate (n - length s) (CHR '' '')"

definition status_icon :: "dns_status \<Rightarrow> string" where
  "status_icon st = (case st of
     StatusPass \<Rightarrow> [CHR 0xE2, CHR 0x9C, CHR 0x93] | StatusFail \<Rightarrow> [CHR 0xE2, CHR 0x9C, CHR 0x97] | StatusWarning \<Rightarrow> ''!'' | StatusMissing \<Rightarrow> ''?'')"

definition status_text :: "dns_status \<Rightarrow> string" where
  "status_text st = (case st of StatusPass \<Rightarrow> ''PASS'' | StatusFail \<Rightarrow> ''FAIL'' | StatusWarning \<Rightarrow> ''WARN'' | StatusMissing \<Rightarrow> ''MISSING'')"

definition check_lines :: "check_result \<Rightarrow> string list" where
  "check_lines r =
     [''['' @ status_icon (cr_Status r) @ ''] '' @ pad_right 8 (cr_RecordType r) @ '' '' @ status_text (cr_Status r)] @
     (if cr_Actual r \<noteq> [] then [''    Found:    '' @ cr_Actual r] else []) @
     (if cr_Expected r \<noteq> [] \<and> cr_Status r \<noteq> StatusPass then [''    Expected: '' @ cr_Expected r] else []) @
     [''    '' @ cr_Message r, []]"

definition dnsCheckCmd :: "(nat \<Rightarrow> string option) \<Rightarrow> resolver \<Rightarrow> config \<Rightarrow> string \<Rightarrow> (cmd_error, string list) result" where
  "dnsCheckCmd ctx rv cfg domain =
     (let mailServer = sc_Hostname (cf_Server cfg)
      in case NewChecker domain mailServer of
           Inl e \<Rightarrow> Inl (WrapDNS ''failed to create DNS checker: '' e)
         | Inr checker \<Rightarrow> Inr ([''DNS Check for '' @ domain @ '' (mail server: '' @ mailServer @ '')'', replicate 41 (CHR ''='')] @
             concat (map check_lines (CheckAll ctx rv checker))))"

text \<open>The arguments are the domain and, if there is a second one, the address of the server.\<close>

definition dnsGenerateCmd :: "config \<Rightarrow> string \<Rightarrow> string option \<Rightarrow> (cmd_error, string list) result" where
  "dnsGenerateCmd cfg domain ip =
     (let serverIP = (case ip of None \<Rightarrow> [] | Some a \<Rightarrow> a)
      in case NewGenerator domain (sc_Hostname (cf_Server cfg)) serverIP of
           Inl e \<Rightarrow> Inl (WrapDNS ''failed to create DNS generator: '' e)
         | Inr generator \<Rightarrow>
             (let records = GenerateAll generator
              in Inr (concat (map (\<lambda>d. if dn_Name d = domain \<and> dn_DKIMKeyFile d \<noteq> [] then [''Using DKIM key from '' @ dn_DKIMKeyFile d, []] else [])
                        (cf_Domains cfg)) @
                   [FormatForProvider records domain, [], ''Zone file format:'', ''-----------------'', FormatAsZone records domain])))"

section \<open>From the configuration to the components\<close>

text \<open>A timeout that does not parse, or is empty, counts as zero and gets the default.\<close>

definition timeout_or :: "string \<Rightarrow> duration \<Rightarrow> duration" where
  "timeout_or s def = (let d = (case ParseDuration s of Inl e \<Rightarrow> 0 | Inr d \<Rightarrow> d) in if d = 0 then def else d)"

definition shutdown_timeout :: "config \<Rightarrow> duration" where
  "shutdown_timeout cfg = (let s = sc_ShutdownTimeout (cf_Server cfg)
     in if s = [] then 30 * Second else case ParseDuration s of Inl e \<Rightarrow> 30 * Second | Inr t \<Rightarrow> t)"

definition wired_queue :: "config \<Rightarrow> queue_config" where
  "wired_queue cfg = \<lparr>RedisURL = qc_RedisURL (cf_Queue cfg), Prefix = qc_Prefix (cf_Queue cfg), MaxRetries = qc_MaxRetries (cf_Queue cfg),
     RetryMaxAge = timeout_or (qc_RetryMaxAge (cf_Queue cfg)) (7 * 24 * Hour)\<rparr>"

definition wired_engine :: "config \<Rightarrow> dconfig" where
  "wired_engine cfg = (let d = cf_Delivery cfg in
     \<lparr>dc_Workers = dl_Workers d, dc_Hostname = sc_Hostname (cf_Server cfg), dc_ConnectTimeout = timeout_or (dl_ConnectTimeout d) (30 * Second),
      dc_CommandTimeout = timeout_or (dl_CommandTimeout d) (5 * Minute), dc_MaxMessageSize = se_MaxMessageSize (cf_Security cfg),
      dc_RequireTLS = dl_RequireTLS d, dc_VerifyTLS = dl_VerifyTLS d, dc_QueuePath = filepath_Join (st_DataDir (cf_Storage cfg)) ''queue'',
      dc_RelayHost = dl_RelayHost d\<rparr>)"

definition wired_autodiscover :: "config \<Rightarrow> ad_config" where
  "wired_autodiscover cfg = NewServer_ad
     \<lparr>ag_Domain = sc_Domain (cf_Server cfg), ag_Hostname = sc_Hostname (cf_Server cfg), ag_IMAPPort = sc_IMAPSPort (cf_Server cfg),
      ag_SMTPPort = sc_SubmissionPort (cf_Server cfg),
      ag_DisplayName = (if au_DisplayName (cf_Autodiscover cfg) = [] then sc_Domain (cf_Server cfg) @ '' Mail'' else au_DisplayName (cf_Autodiscover cfg))\<rparr>"

definition port_addr :: "int \<Rightarrow> string" where
  "port_addr p = '':'' @ show_int p"

definition host_addr :: "string \<Rightarrow> int \<Rightarrow> string" where
  "host_addr h p = h @ '':'' @ show_int p"

section \<open>Start and shutdown of the server\<close>

text \<open>The steps of the start that may fail, the resources that the shutdown releases, and what happens in order.\<close>

datatype startup = SLogger | SDatabase | SMigrate | STLS | SStore | SQueue | SBackend | SIMAP | SIMAPS | SMX | SSubmission | SSMTPS | SDAV | SAdmin

datatype resource = RDatabase | RQueue | REngine | RIMAP | RSMTP | RDAV | RAdmin

datatype event =
    Acquired resource
  | Connected queue_config
  | SignerLoaded string
  | EngineStarted dconfig
  | Listening string string
  | Released resource

record serve_env =
  sv_fails :: "startup \<Rightarrow> string option"
  sv_hasTLS :: bool
  sv_signer :: "domain_config \<Rightarrow> bool" \<comment> \<open>its key can be loaded\<close>

record serve_state =
  sx_tracked :: "resource list"
  sx_trace :: "event list"

type_synonym 'a startup_step = "(serve_state, cmd_error, 'a) sproc"

definition shutdown_order :: "resource list" where
  "shutdown_order = [RAdmin, RDAV, RSMTP, RIMAP, REngine, RQueue, RDatabase]"

definition cleanup :: "serve_state \<Rightarrow> serve_state" where
  "cleanup y = y\<lparr>sx_trace := sx_trace y @ map Released [r \<leftarrow> shutdown_order. r \<in> set (sx_tracked y)]\<rparr>"

definition happens :: "event \<Rightarrow> unit startup_step" where
  "happens e = modifyS (\<lambda>y. y\<lparr>sx_trace := sx_trace y @ [e]\<rparr>)"

definition acquire :: "resource \<Rightarrow> unit startup_step" where
  "acquire r = modifyS (\<lambda>y. y\<lparr>sx_tracked := r # sx_tracked y, sx_trace := sx_trace y @ [Acquired r]\<rparr>)"

text \<open>A step that works, or cleans up and returns its error.\<close>

definition must :: "serve_env \<Rightarrow> startup \<Rightarrow> string \<Rightarrow> unit startup_step" where
  "must env s msg y = (case sv_fails env s of None \<Rightarrow> (y, Inr ()) | Some e \<Rightarrow> (cleanup y, Inl (wrap msg e)))"

definition whenS :: "bool \<Rightarrow> unit startup_step \<Rightarrow> unit startup_step" where
  "whenS b m = (if b then m else retS ())"

fun in_order :: "unit startup_step list \<Rightarrow> unit startup_step" where
  "in_order [] = retS ()"
| "in_order (m # ms) = bindS m (\<lambda>_. in_order ms)"

definition open_stores :: "serve_env \<Rightarrow> config \<Rightarrow> unit startup_step list" where
  "open_stores env cfg =
     [must env SDatabase ''failed to open database: '', acquire RDatabase,
      must env SMigrate ''failed to run migrations: '',
      must env STLS ''failed to initialize TLS: '',
      must env SStore ''failed to initialize maildir store: '',
      must env SQueue ''failed to initialize Redis queue: '', acquire RQueue, happens (Connected (wired_queue cfg))]"

definition load_signers :: "serve_env \<Rightarrow> config \<Rightarrow> unit startup_step list" where
  "load_signers env cfg = [happens (SignerLoaded (dn_Name d)). d \<leftarrow> cf_Domains cfg, dn_DKIMKeyFile d \<noteq> [] \<and> sv_signer env d]"

definition create_servers :: "serve_env \<Rightarrow> config \<Rightarrow> unit startup_step list" where
  "create_servers env cfg =
     [acquire REngine, happens (EngineStarted (wired_engine cfg)), acquire RIMAP,
      must env SBackend ''failed to create SMTP backend: '', acquire RSMTP]"

definition start_mail :: "serve_env \<Rightarrow> config \<Rightarrow> unit startup_step list" where
  "start_mail env cfg = (let s = cf_Server cfg; tls = sv_hasTLS env in
     [must env SIMAP ''failed to start IMAP server: '', happens (Listening ''imap'' (port_addr (sc_IMAPPort s))),
      whenS tls (must env SIMAPS ''failed to start IMAPS server: ''), whenS tls (happens (Listening ''imaps'' (port_addr (sc_IMAPSPort s)))),
      must env SMX ''failed to start SMTP server: '', happens (Listening ''smtp'' (port_addr (sc_SMTPPort s))),
      must env SSubmission ''failed to start SMTP submission server: '', happens (Listening ''submission'' (port_addr (sc_SubmissionPort s))),
      whenS tls (must env SSMTPS ''failed to start SMTPS server: ''), whenS tls (happens (Listening ''smtps'' (port_addr (sc_SMTPSPort s))))])"

text \<open>Servers whose start is given up with a warning.\<close>

definition start_web :: "serve_env \<Rightarrow> config \<Rightarrow> unit startup_step list" where
  "start_web env cfg =
     (let dav = (sc_DAVPort (cf_Server cfg) > 0 \<and> sv_fails env SDAV = None);
          adm = (ac_Enabled (cf_Admin cfg) \<and> sv_fails env SAdmin = None);
          auto = au_Enabled (cf_Autodiscover cfg)
      in [whenS dav (acquire RDAV), whenS dav (happens (Listening ''dav'' (port_addr (sc_DAVPort (cf_Server cfg))))),
          whenS adm (acquire RAdmin), whenS adm (happens (Listening ''admin'' (host_addr (ac_Listen (cf_Admin cfg)) (ac_Port (cf_Admin cfg))))),
          whenS auto (happens (Listening ''autodiscover'' (host_addr (au_Listen (cf_Autodiscover cfg)) (au_Port (cf_Autodiscover cfg)))))])"

definition startup_steps :: "serve_env \<Rightarrow> config \<Rightarrow> unit startup_step list" where
  "startup_steps env cfg = open_stores env cfg @ load_signers env cfg @ create_servers env cfg @ start_mail env cfg @ start_web env cfg"

text \<open>After the start the server waits for a signal and cleans up.\<close>

definition run_server :: "serve_env \<Rightarrow> config \<Rightarrow> unit startup_step" where
  "run_server env cfg = bindS (in_order (startup_steps env cfg)) (\<lambda>_ y. (cleanup y, Inr ()))"

definition serveCmd :: "map_orders \<Rightarrow> host_files \<Rightarrow> (string \<Rightarrow> 'f \<Rightarrow> 'f \<times> string option) \<Rightarrow> serve_env \<Rightarrow> config \<Rightarrow> 'f \<Rightarrow>
    'f \<times> event list \<times> cmd_error option" where
  "serveCmd ord fs MkdirAll env cfg f = (case Validate ord fs cfg of
     Some e \<Rightarrow> (f, [], Some (WrapConfig ''invalid configuration: '' e))
   | None \<Rightarrow> (case EnsureDirectories MkdirAll cfg f of
       (f1, Some e) \<Rightarrow> (f1, [], Some (WrapConfig ''failed to create required directories: '' e))
     | (f1, None) \<Rightarrow> (case sv_fails env SLogger of
         Some e \<Rightarrow> (f1, [], Some (wrap ''failed to initialize logger: '' e))
       | None \<Rightarrow> (case run_server env cfg \<lparr>sx_tracked = [], sx_trace = []\<rparr> of
           (y, Inl e) \<Rightarrow> (f1, sx_trace y, Some e)
         | (y, Inr _) \<Rightarrow> (f1, sx_trace y, None)))))"

section \<open>The shutdown releases what the start acquired\<close>

definition running :: "serve_state \<Rightarrow> bool" where
  "running y \<longleftrightarrow> (\<forall>r. Released r \<notin> set (sx_trace y)) \<and> (\<forall>r. r \<in> set (sx_tracked y) \<longleftrightarrow> Acquired r \<in> set (sx_trace y))"

text \<open>A step keeps a running state or leaves the clean-up of one.\<close>

definition safe_step :: "unit startup_step \<Rightarrow> bool" where
  "safe_step m \<longleftrightarrow> (\<forall>y y' x. running y \<longrightarrow> m y = (y', x) \<longrightarrow> (case x of Inr u \<Rightarrow> running y' | Inl e \<Rightarrow> \<exists>z. running z \<and> y' = cleanup z))"

lemma safe_acquire: "safe_step (acquire r)"
  by (auto simp: safe_step_def acquire_def running_def)

lemma safe_happens: "(\<And>r. e \<noteq> Acquired r \<and> e \<noteq> Released r) \<Longrightarrow> safe_step (happens e)"
  by (auto simp: safe_step_def happens_def running_def)

lemma safe_must: "safe_step (must env s msg)"
  by (auto simp: safe_step_def must_def split: option.splits)

lemma safe_whenS: "safe_step m \<Longrightarrow> safe_step (whenS b m)"
  by (auto simp: safe_step_def whenS_def)

lemma safe_in_order: "\<forall>m\<in>set ms. safe_step m \<Longrightarrow> safe_step (in_order ms)"
proof (induction ms)
  case Nil
  then show ?case by (simp add: safe_step_def)
next
  case (Cons m ms)
  then have m: "safe_step m" and ms: "safe_step (in_order ms)" by auto
  show ?case unfolding safe_step_def
  proof (intro allI impI)
    fix y y' x
    assume y: "running y" and r: "in_order (m # ms) y = (y', x)"
    obtain y1 z where z: "m y = (y1, z)" by fastforce
    show "case x of Inr u \<Rightarrow> running y' | Inl e \<Rightarrow> \<exists>z. running z \<and> y' = cleanup z"
      using m [unfolded safe_step_def, rule_format, OF y z] ms [unfolded safe_step_def, rule_format, of y1 y' x] r z
      by (cases z) (auto simp: bindS_def)
  qed
qed

lemmas safe_steps = safe_acquire safe_happens safe_must safe_whenS

lemma safe_startup: "safe_step (in_order (startup_steps env cfg))"
proof (rule safe_in_order)
  have "list_all safe_step (open_stores env cfg)" "list_all safe_step (create_servers env cfg)" "list_all safe_step (start_mail env cfg)"
    "list_all safe_step (start_web env cfg)"
    unfolding open_stores_def create_servers_def start_mail_def start_web_def Let_def by (simp_all add: safe_steps)
  moreover have "list_all safe_step (load_signers env cfg)" by (auto simp: load_signers_def list_all_iff safe_steps)
  ultimately show "\<forall>m\<in>set (startup_steps env cfg). safe_step m" by (auto simp: startup_steps_def list_all_iff)
qed

lemma cleanup_trace:
  "running z \<Longrightarrow> sx_trace (cleanup z) = sx_trace z @ map Released [r \<leftarrow> shutdown_order. Acquired r \<in> set (sx_trace z)] \<and> (\<forall>r. Released r \<notin> set (sx_trace z))"
  by (simp add: cleanup_def running_def)

lemma run_server_trace:
  "\<exists>z. running z \<and> sx_trace (fst (run_server env cfg \<lparr>sx_tracked = [], sx_trace = []\<rparr>)) = sx_trace (cleanup z)"
proof -
  let ?y = "\<lparr>sx_tracked = [], sx_trace = []\<rparr> :: serve_state"
  have y: "running ?y" by (simp add: running_def)
  obtain y1 x where r: "in_order (startup_steps env cfg) ?y = (y1, x)" by fastforce
  have "case x of Inr u \<Rightarrow> running y1 | Inl e \<Rightarrow> \<exists>z. running z \<and> y1 = cleanup z"
    by (rule safe_startup [unfolded safe_step_def, rule_format, OF y r])
  then show ?thesis by (cases x) (auto simp: run_server_def bindS_def r)
qed


section \<open>A valid configuration gives valid components\<close>

lemma timeout_or_ok:
  assumes "timeout_ok limit s" and "0 < def" and "def \<le> limit"
  shows "0 < timeout_or s def \<and> timeout_or s def \<le> limit"
proof (cases "s = []")
  case True
  then show ?thesis using assms by (simp add: timeout_or_def ParseDuration_def)
next
  case False
  then show ?thesis using assms by (auto simp: timeout_or_def timeout_ok_def Let_def)
qed

text \<open>From a configuration that was accepted the engine gets 1 to 100 workers and positive time limits of at most 2 and 10 minutes, the queue at
  least one attempt and at most 30 days, and the shutdown at most 5 minutes; and clients are told the ports at which the servers listen.\<close>

theorem serve_wiring:
  assumes "orders_ok ord" and "Validate ord fs cfg = None"
  shows "(let e = wired_engine cfg; q = wired_queue cfg; m = mozilla_settings (wired_autodiscover cfg) email
     in 1 \<le> dc_Workers e \<and> dc_Workers e \<le> 100 \<and> 0 < dc_ConnectTimeout e \<and> dc_ConnectTimeout e \<le> 2 * Minute \<and>
        0 < dc_CommandTimeout e \<and> dc_CommandTimeout e \<le> 10 * Minute \<and> 1024 \<le> dc_MaxMessageSize e \<and>
        1 \<le> MaxRetries q \<and> MaxRetries q \<le> 100 \<and> 0 < RetryMaxAge q \<and> RetryMaxAge q \<le> 30 * 24 * Hour \<and>
        0 < shutdown_timeout cfg \<and> shutdown_timeout cfg \<le> 5 * Minute \<and>
        ms_Port (mz_InServer m) = sc_IMAPSPort (cf_Server cfg) \<and> ms_Port (mz_OutServer m) = sc_SubmissionPort (cf_Server cfg))"
proof -
  have ok: "config_ok fs cfg" using Validate_None assms by blast
  have lim: "minutes 2 = 2 * Minute" "minutes 10 = 10 * Minute" "minutes 43200 = 30 * 24 * Hour" "minutes 5 = 5 * Minute"
    by (simp_all add: minutes_def go_time)
  have t: "timeout_ok (5 * Minute) (sc_ShutdownTimeout (cf_Server cfg))" "timeout_ok (2 * Minute) (dl_ConnectTimeout (cf_Delivery cfg))"
    "timeout_ok (10 * Minute) (dl_CommandTimeout (cf_Delivery cfg))" "timeout_ok (30 * 24 * Hour) (qc_RetryMaxAge (cf_Queue cfg))"
    using ok by (simp_all add: config_ok_def timeouts_ok_def lim)
  have c: "0 < timeout_or (dl_ConnectTimeout (cf_Delivery cfg)) (30 * Second) \<and> timeout_or (dl_ConnectTimeout (cf_Delivery cfg)) (30 * Second) \<le> 2 * Minute"
    by (rule timeout_or_ok [OF t(2)]) (simp_all add: go_time)
  have k: "0 < timeout_or (dl_CommandTimeout (cf_Delivery cfg)) (5 * Minute) \<and> timeout_or (dl_CommandTimeout (cf_Delivery cfg)) (5 * Minute) \<le> 10 * Minute"
    by (rule timeout_or_ok [OF t(3)]) (simp_all add: go_time)
  have q: "0 < timeout_or (qc_RetryMaxAge (cf_Queue cfg)) (7 * 24 * Hour) \<and> timeout_or (qc_RetryMaxAge (cf_Queue cfg)) (7 * 24 * Hour) \<le> 30 * 24 * Hour"
    by (rule timeout_or_ok [OF t(4)]) (simp_all add: go_time)
  have s: "0 < shutdown_timeout cfg \<and> shutdown_timeout cfg \<le> 5 * Minute"
    using t(1) by (auto simp: shutdown_timeout_def timeout_ok_def Let_def go_time)
  have "sc_IMAPSPort (cf_Server cfg) \<noteq> 0" "sc_SubmissionPort (cf_Server cfg) \<noteq> 0"
    using ok by (auto simp: config_ok_def network_ok_def ports_of_def Let_def)
  then have p: "ag_IMAPPort (wired_autodiscover cfg) = sc_IMAPSPort (cf_Server cfg)" "ag_SMTPPort (wired_autodiscover cfg) = sc_SubmissionPort (cf_Server cfg)"
    by (simp_all add: wired_autodiscover_def NewServer_ad_def Let_def)
  have b: "1 \<le> dl_Workers (cf_Delivery cfg)" "dl_Workers (cf_Delivery cfg) \<le> 100" "1 \<le> qc_MaxRetries (cf_Queue cfg)" "qc_MaxRetries (cf_Queue cfg) \<le> 100"
    "1024 \<le> se_MaxMessageSize (cf_Security cfg)" using ok unfolding config_ok_def by blast+
  show ?thesis using c k q s p b
    by (simp only: Let_def wired_engine_def wired_queue_def mozilla_settings_def dconfig.simps queue_config.simps mozillaConfig.simps mozilla_server.simps simp_thms)
qed

theorem serve_wiring_witness:
  "Validate orders_1 files_1 config_1 = None \<and> dc_ConnectTimeout (wired_engine config_1) \<le> 2 * Minute"
proof -
  have v: "Validate orders_1 files_1 config_1 = None" using Validate_None [OF orders_1_ok] config_1_ok by simp
  then show ?thesis using serve_wiring [OF orders_1_ok v] by (simp add: Let_def)
qed

section \<open>Accounts made on the command line\<close>

text \<open>What the commands leave alone: accounts and domains.\<close>

definition accounts_of :: "world \<Rightarrow> domain_row list \<times> user_row list \<times> int" where
  "accounts_of w = (w_domains w, w_users w, w_user_seq w)"

lemma accounts_of_same: "same_world w w' \<Longrightarrow> accounts_of w' = accounts_of w"
  by (simp add: accounts_of_def same_worldD)

lemma accounts_ok_of: "accounts_of w' = accounts_of w \<Longrightarrow> accounts_ok w' = accounts_ok w \<and> account w' = account w"
  by (simp add: accounts_of_def accounts_ok_def account_def fun_eq_iff)

lemma liftW_Inr: "liftW h m y = (y', Inr x) \<longleftrightarrow> (\<exists>w. m (cl_world y) = (w, Inr x) \<and> y' = y\<lparr>cl_world := w\<rparr>)"
  by (auto simp: liftW_def split: prod.splits sum.splits)

lemma failing_iff: "failing h x y = (y', Inr u) \<longleftrightarrow> x = None \<and> y' = y"
  by (auto simp: failing_def split: option.splits)

lemma ensure_dirs_world: "ensure_dirs env cfg y = (y', r) \<Longrightarrow> cl_world y' = cl_world y"
  by (auto simp: ensure_dirs_def split: prod.splits option.splits)

lemma insert_mailbox_accounts: "insert_mailbox u n v s t w = Inr (w', x) \<Longrightarrow> accounts_of w' = accounts_of w"
  by (auto simp: insert_mailbox_def accounts_of_def Let_def split: if_splits)

lemma add_mailboxes_accounts: "add_mailboxes env i mbs y = (y', r) \<Longrightarrow> accounts_of (cl_world y') = accounts_of (cl_world y)"
proof (induction mbs arbitrary: y r)
  case (Cons mb mbs)
  obtain n s where mb: "mb = (n, s)" by fastforce
  obtain w x where w: "tryE (insert_mailbox i n (generateUIDValidity (cx_pid env)) s (cx_now env)) (cl_world y) = (w, x)" by fastforce
  have "accounts_of w = accounts_of (cl_world y)"
  proof (cases x)
    case (Inl e)
    then show ?thesis using accounts_of_same [OF tryE_Inl] w by simp
  next
    case (Inr k)
    then obtain w1 where "same_world (cl_world y) w1" "insert_mailbox i n (generateUIDValidity (cx_pid env)) s (cx_now env) w1 = Inr (w, k)"
      using tryE_Inr [OF w [unfolded Inr]] by blast
    then show ?thesis using insert_mailbox_accounts accounts_of_same by metis
  qed
  moreover obtain y2 r2 where "add_mailboxes env i mbs (y\<lparr>cl_world := w\<rparr>) = (y2, r2)" by fastforce
  ultimately show ?case using Cons.IH [of "y\<lparr>cl_world := w\<rparr>" r2] Cons.prems unfolding mb
    by (cases x; cases r2) (auto simp: bindS_def w retS_def)
qed simp

lemma GetDomainID_Inr:
  "GetDomainID n w = (w', Inr i) \<Longrightarrow> same_world w w' \<and> (\<exists>d\<in>set (w_domains w). d_id d = i \<and> d_name d = n)"
proof -
  assume "GetDomainID n w = (w', Inr i)"
  then obtain d where r: "readE (active_domain n) w = (w', Inr (Some d))" "d_id d = i"
    by (auto simp: GetDomainID_def bindE_Inr split: option.splits)
  then have "same_world w w'" "active_domain n w' = Some d" using readE_Inr [OF r(1)] by auto
  with r(2) show ?thesis by (auto simp: active_domain_def find_Some_iff same_worldD)
qed

text \<open>The row that \<open>user add\<close> makes.\<close>

definition cli_row :: "int \<Rightarrow> int \<Rightarrow> string \<Rightarrow> string \<Rightarrow> user_row" where
  "cli_row i domainID username hash = \<lparr>u_id = i, u_domain_id = domainID, u_username = username, u_password_hash = hash, u_display_name = None,
     u_quota_bytes = 1073741824, u_used_bytes = 0, u_active = True\<rparr>"

lemma userAddCmd_Inr:
  assumes "userAddCmd env cfg email password y = (y', Inr (i, ls))" and "splitEmail email = Some (username, domain)"
  shows "\<exists>d hash w1 w2. d \<in> set (w_domains (cl_world y)) \<and> d_name d = domain \<and> HashPassword (cx_argon2 env) (cx_rand env) password = Inr hash \<and>
    same_world (cl_world y) w1 \<and> insert_user (d_id d) username hash w1 = Inr (w2, i) \<and> accounts_of (cl_world y') = accounts_of w2"
proof -
  let ?he = "\<lambda>_ :: auth_error. Plain (''domain '' @ quoted_name domain @ '' not found. Add it first with: mailserver domain add '' @ domain)"
  obtain y1 y2 domainID e0 where e: "ensure_dirs env cfg y = (y1, Inr e0)" and g: "liftW ?he (GetDomainID domain) y1 = (y2, Inr domainID)"
    and r: "(case HashPassword (cx_argon2 env) (cx_rand env) password of
           Inl e \<Rightarrow> failS (wrap ''failed to hash password: '' e)
         | Inr hash \<Rightarrow>
             bindS (liftW (wrap ''failed to add user: '') (tryE (insert_user domainID username hash))) (\<lambda>userID.
             bindS (add_mailboxes env userID cli_mailboxes) (\<lambda>warnings.
             retS (userID, warnings @ [''User '' @ quoted_name email @ '' added with ID '' @ show_int userID,
               ''Default mailboxes created: INBOX, Drafts, Sent, Trash, Junk, Archive''])))) y2 = (y', Inr (i, ls))"
    using assms(1) unfolding userAddCmd_def assms(2) option.case prod.case bindS_Inr open_db_def migrate_db_def failing_iff by blast
  obtain hash where h: "HashPassword (cx_argon2 env) (cx_rand env) password = Inr hash"
    using r by (cases "HashPassword (cx_argon2 env) (cx_rand env) password") simp_all
  obtain y3 where u: "liftW (wrap ''failed to add user: '') (tryE (insert_user domainID username hash)) y2 = (y3, Inr i)"
    and m: "\<exists>ws. add_mailboxes env i cli_mailboxes y3 = (y', Inr ws)"
    using r unfolding h sum.case bindS_Inr retS_iff by blast
  have w1: "cl_world y1 = cl_world y" by (rule ensure_dirs_world [OF e])
  obtain wa where wa: "GetDomainID domain (cl_world y) = (wa, Inr domainID)" "cl_world y2 = wa" using g w1 by (auto simp: liftW_Inr)
  note d = GetDomainID_Inr [OF wa(1)]
  obtain wb where wb: "tryE (insert_user domainID username hash) wa = (wb, Inr i)" "cl_world y3 = wb" using u wa(2) by (auto simp: liftW_Inr)
  obtain wc where wc: "same_world wa wc" "insert_user domainID username hash wc = Inr (wb, i)" using tryE_Inr [OF wb(1)] by blast
  have "accounts_of (cl_world y') = accounts_of wb" using m add_mailboxes_accounts wb(2) by metis
  then show ?thesis using d h wc same_world_trans [of "cl_world y" wa wc] by blast
qed

lemma Authenticate_account:
  "Authenticate A email password w = (w', Inr us) \<Longrightarrow> \<exists>n m u d. parseEmail email = Some (n, m) \<and> account w n m u d \<and> us = scan_user (u, d)"
  by (fastforce simp: Authenticate_def bindE_Inr split: option.splits if_splits dest: lookup_Inr)

text \<open>The address that a log-in looks up is in lower case.\<close>

lemma parseEmail_lower: "parseEmail e = Some (n, m) \<Longrightarrow> ToLower n = n"
proof -
  assume p: "parseEmail e = Some (n, m)"
  let ?s = "TrimSpace (ToLower e)"
  have sp: "SplitN2 ?s (CHR ''@'') = [n, m]" using p by (auto simp: parseEmail_def Let_def split: list.splits if_splits)
  obtain r where "?s = n @ CHR ''@'' # r" by (rule SplitN2_cases [of "CHR ''@''" ?s]) (use sp in auto)
  then have "ToLower n @ ToLower (CHR ''@'' # r) = n @ CHR ''@'' # r" using lower_trim [of e] by (metis ToLower_append)
  then show "ToLower n = n" by (simp add: append_eq_append_conv ToLower_def)
qed

text \<open>C36. The program does not look at the name that \<open>user add\<close> is given: an account with an upper-case letter is made, but nobody can log in to it;
  and with a name that a log-in reads as it is, and a password of an allowed length, the account can log in.\<close>

theorem cli_user_login:
  assumes ok: "accounts_ok (cl_world y)" and A: "argon2_ok (cx_argon2 env)" and salt: "cx_rand env = Inr salt"
    and add: "userAddCmd env cfg email password y = (y', Inr (i, ls))" and sp: "splitEmail email = Some (username, domain)"
    and nf: "w_faults (cl_world y') = []"
  shows "accounts_ok (cl_world y') \<and>
    (ToLower username \<noteq> username \<longrightarrow> (\<forall>e p w us. Authenticate (cx_argon2 env) e p (cl_world y') = (w, Inr us) \<longrightarrow> us_ID us \<noteq> i)) \<and>
    (parseEmail email = Some (username, domain) \<and> Password password = None \<longrightarrow>
       (\<exists>us. Authenticate (cx_argon2 env) email password (cl_world y') = (cl_world y', Inr us) \<and> us_ID us = i))"
proof (intro conjI impI allI)
  let ?A = "cx_argon2 env" and ?w = "cl_world y'"
  from userAddCmd_Inr [OF add sp] obtain d hash w1 w2 where d: "d \<in> set (w_domains (cl_world y))" "d_name d = domain"
    and h: "HashPassword ?A (Inr salt) password = Inr hash" and w1: "same_world (cl_world y) w1"
    and ins: "insert_user (d_id d) username hash w1 = Inr (w2, i)" and w2: "accounts_of ?w = accounts_of w2" unfolding salt by blast
  have row: "w_users w2 = w_users w1 @ [cli_row i (d_id d) username hash]" "w_domains w2 = w_domains w1"
    using ins by (auto simp: insert_user_def cli_row_def Let_def split: if_splits)
  have "accounts_ok w2" using accounts_ok_insert [OF _ ins] ok accounts_ok_same [OF w1] by simp
  then show ok': "accounts_ok ?w" using accounts_ok_of [OF w2] by simp
  have "account w2 username domain (cli_row i (d_id d) username hash) d"
    using row d same_worldD(1) [OF w1] by (simp add: account_def cli_row_def)
  then have acc: "account ?w username domain (cli_row i (d_id d) username hash) d" using accounts_ok_of [OF w2] by simp
  show "us_ID us \<noteq> i" if up: "ToLower username \<noteq> username" and au: "Authenticate ?A e p ?w = (w, Inr us)" for e p w us
  proof
    assume i: "us_ID us = i"
    obtain n m u d' where x: "parseEmail e = Some (n, m)" "account ?w n m u d'" "us = scan_user (u, d')"
      using Authenticate_account [OF au] by blast
    have "u_id u = i" using x(3) i by simp
    then have "u = cli_row i (d_id d) username hash"
      using ok' acc x(2) distinct_map_eq [of u_id "w_users ?w" u "cli_row i (d_id d) username hash"] by (simp add: accounts_ok_def account_def cli_row_def)
    then have "n = username" using x(2) by (simp add: account_def cli_row_def)
    then show False using parseEmail_lower [OF x(1)] up by simp
  qed
  show "\<exists>us. Authenticate ?A email password ?w = (?w, Inr us) \<and> us_ID us = i"
    if "parseEmail email = Some (username, domain) \<and> Password password = None"
    using that lookup_ok [OF ok' nf acc] verify_hash [OF A h, of password]
    by (simp add: Authenticate_def runE Validate_eqs cli_row_def)
qed

text \<open>When the database works and the domain is there, the command succeeds for every name that is not taken.\<close>

lemma insert_mailbox_faults: "insert_mailbox u n v s t w = Inr (w', x) \<Longrightarrow> w_faults w' = w_faults w"
  by (auto simp: insert_mailbox_def Let_def split: if_splits)

lemma add_mailboxes_runs:
  "w_faults (cl_world y) = [] \<Longrightarrow> \<exists>y' ls. add_mailboxes env i mbs y = (y', Inr ls) \<and> w_faults (cl_world y') = []"
proof (induction mbs arbitrary: y)
  case (Cons mb mbs)
  obtain n s where mb: "mb = (n, s)" by fastforce
  obtain w x where w: "tryE (insert_mailbox i n (generateUIDValidity (cx_pid env)) s (cx_now env)) (cl_world y) = (w, x)" by fastforce
  then have "w_faults w = []" using Cons.prems by (auto simp: tryE_def split: sum.splits dest: insert_mailbox_faults)
  then obtain y2 ls where "add_mailboxes env i mbs (y\<lparr>cl_world := w\<rparr>) = (y2, Inr ls) \<and> w_faults (cl_world y2) = []"
    using Cons.IH [of "y\<lparr>cl_world := w\<rparr>"] by auto
  then show ?case unfolding mb by (cases x) (simp_all add: bindS_def w retS_def)
qed simp

lemma userAddCmd_runs:
  assumes "ensure_dirs env cfg y = (y, Inr ())" and "cx_Open env (st_DatabasePath (cf_Storage cfg)) = None" and "cx_Migrate env = None"
    and "splitEmail email = Some (username, domain)" and "w_faults (cl_world y) = []"
    and "Domain domain = None" and "active_domain domain (cl_world y) = Some d" and "HashPassword (cx_argon2 env) (cx_rand env) password = Inr hash"
    and "insert_user (d_id d) username hash (cl_world y) = Inr (w, i)"
  shows "\<exists>y' ls. userAddCmd env cfg email password y = (y', Inr (i, ls)) \<and> w_faults (cl_world y') = []"
proof -
  have g: "GetDomainID domain (cl_world y) = (cl_world y, Inr (d_id d))" using assms(5,6,7) by (simp add: GetDomainID_def Validate_eqs runE)
  have f: "w_faults w = []" using assms(5,9) by (auto simp: insert_user_def Let_def split: if_splits)
  then obtain y2 ls where m: "add_mailboxes env i cli_mailboxes (y\<lparr>cl_world := w\<rparr>) = (y2, Inr ls)" "w_faults (cl_world y2) = []"
    using add_mailboxes_runs [of "y\<lparr>cl_world := w\<rparr>" env i cli_mailboxes] by auto
  have u: "tryE (insert_user (d_id d) username hash) (cl_world y) = (w, Inr i)" using assms(5,9) by (simp add: tryE_def)
  show ?thesis using m
    by (simp add: userAddCmd_def open_db_def migrate_db_def failing_def bindS_def assms(1-4,8) liftW_def g u retS_def)
qed

definition wcli :: "unit cli_state" where
  "wcli = \<lparr>cl_fs = (), cl_world = wworld, cl_domain_seq = 1\<rparr>"

definition wcli_env :: "unit cli_env" where
  "wcli_env = \<lparr>cx_MkdirAll = (\<lambda>d f. (f, None)), cx_Open = (\<lambda>p. None), cx_Migrate = None, cx_argon2 = wargon, cx_rand = Inr ''salt'', cx_pid = 77, cx_now = 0\<rparr>"

lemma wcli_dirs: "ensure_dirs wcli_env cfg y = (y, Inr ())"
proof -
  have "mkdir_loop (cx_MkdirAll wcli_env) ds f = (f, None)" for ds f by (induction ds) (simp_all add: wcli_env_def)
  then show ?thesis by (simp add: ensure_dirs_def EnsureDirectories_def Let_def)
qed

lemma wcli_split: "splitEmail ''Joe@x.org'' = Some (''Joe'', ''x.org'')" "splitEmail ''joe@x.org'' = Some (''joe'', ''x.org'')"
  by (simp_all add: splitEmail_def)

lemma wcli_added:
  "u \<noteq> ''ann'' \<and> u \<noteq> ''bob'' \<Longrightarrow> splitEmail e = Some (u, ''x.org'') \<Longrightarrow>
   \<exists>y' i ls. userAddCmd wcli_env cfg e ''secret12'' wcli = (y', Inr (i, ls)) \<and> w_faults (cl_world y') = []"
proof -
  assume u: "u \<noteq> ''ann'' \<and> u \<noteq> ''bob''" and e: "splitEmail e = Some (u, ''x.org'')"
  let ?d = "hd (w_domains wworld)"
  have "\<exists>w i. insert_user (d_id ?d) u whash wworld = Inr (w, i)" using u by (auto simp: insert_user_def wworld_def Let_def)
  then obtain w i where ins: "insert_user (d_id ?d) u whash wworld = Inr (w, i)" by blast
  have a: "active_domain ''x.org'' wworld = Some ?d" by (simp add: active_domain_def wworld_def)
  have d: "Domain ''x.org'' = None" using wworld_domain by (simp add: domain_name_ok_def)
  have "\<exists>y' ls. userAddCmd wcli_env cfg e ''secret12'' wcli = (y', Inr (i, ls)) \<and> w_faults (cl_world y') = []"
    by (rule userAddCmd_runs [where w = w and hash = whash and d = ?d, OF wcli_dirs _ _ e _ d]) (simp_all add: wcli_env_def wcli_def a whash_eq wworld_users(6) ins)
  then show ?thesis by blast
qed

theorem cli_user_login_witness:
  "(\<exists>y' i ls. userAddCmd wcli_env config_1 ''Joe@x.org'' ''secret12'' wcli = (y', Inr (i, ls)) \<and>
     (\<forall>e p w us. Authenticate wargon e p (cl_world y') = (w, Inr us) \<longrightarrow> us_ID us \<noteq> i)) \<and>
   (\<exists>y' i ls us. userAddCmd wcli_env config_1 ''joe@x.org'' ''secret12'' wcli = (y', Inr (i, ls)) \<and>
     Authenticate wargon ''joe@x.org'' ''secret12'' (cl_world y') = (cl_world y', Inr us) \<and> us_ID us = i)"
proof -
  have A: "cx_argon2 wcli_env = wargon" "cx_rand wcli_env = Inr ''salt''" "cl_world wcli = wworld" by (simp_all add: wcli_env_def wcli_def)
  have n: "''Joe'' \<noteq> ''ann'' \<and> ''Joe'' \<noteq> ''bob''" "''joe'' \<noteq> ''ann'' \<and> ''joe'' \<noteq> ''bob''" by simp_all
  obtain y1 i1 l1 where 1: "userAddCmd wcli_env config_1 ''Joe@x.org'' ''secret12'' wcli = (y1, Inr (i1, l1))" "w_faults (cl_world y1) = []"
    using wcli_added [OF n(1) wcli_split(1)] by blast
  obtain y2 i2 l2 where 2: "userAddCmd wcli_env config_1 ''joe@x.org'' ''secret12'' wcli = (y2, Inr (i2, l2))" "w_faults (cl_world y2) = []"
    using wcli_added [OF n(2) wcli_split(2)] by blast
  have up: "ToLower ''Joe'' \<noteq> ''Joe''" by code_simp
  have pe: "parseEmail ''joe@x.org'' = Some (''joe'', ''x.org'')" by code_simp
  have "\<forall>e p w us. Authenticate wargon e p (cl_world y1) = (w, Inr us) \<longrightarrow> us_ID us \<noteq> i1"
    using cli_user_login [OF _ _ A(2) 1(1) wcli_split(1) 1(2)] up wworld_ok wargon_ok unfolding A by blast
  moreover have "\<exists>us. Authenticate wargon ''joe@x.org'' ''secret12'' (cl_world y2) = (cl_world y2, Inr us) \<and> us_ID us = i2"
    using cli_user_login [OF _ _ A(2) 2(1) wcli_split(2) 2(2)] pe wemails(3) wworld_ok wargon_ok unfolding A by blast
  ultimately show ?thesis using 1(1) 2(1) by blast
qed

text \<open>The mailboxes of a new user all get one UIDVALIDITY, made from the number of the process.\<close>

lemma insert_mailbox_new: "insert_mailbox u n v s t w = Inr (w', x) \<Longrightarrow> mb \<in> set (w_mailboxes w') \<Longrightarrow> mb \<in> set (w_mailboxes w) \<or> mb_UIDValidity mb = v"
  by (auto simp: insert_mailbox_def Let_def split: if_splits)

lemma cli_uidvalidity:
  "add_mailboxes env i mbs y = (y', r) \<Longrightarrow> mb \<in> set (w_mailboxes (cl_world y')) \<Longrightarrow>
   mb \<in> set (w_mailboxes (cl_world y)) \<or> mb_UIDValidity mb = generateUIDValidity (cx_pid env)"
proof (induction mbs arbitrary: y r)
  case (Cons a mbs)
  let ?v = "generateUIDValidity (cx_pid env)"
  obtain n s where a: "a = (n, s)" by fastforce
  obtain w x where w: "tryE (insert_mailbox i n ?v s (cx_now env)) (cl_world y) = (w, x)" by fastforce
  have new: "mb \<in> set (w_mailboxes w) \<Longrightarrow> mb \<in> set (w_mailboxes (cl_world y)) \<or> mb_UIDValidity mb = ?v"
  proof (cases x)
    case (Inl e)
    assume "mb \<in> set (w_mailboxes w)"
    then show ?thesis using same_worldD(4) [OF tryE_Inl [OF w [unfolded Inl]]] by simp
  next
    case (Inr k)
    assume m: "mb \<in> set (w_mailboxes w)"
    obtain w1 where "same_world (cl_world y) w1" "insert_mailbox i n ?v s (cx_now env) w1 = Inr (w, k)" using tryE_Inr [OF w [unfolded Inr]] by blast
    then show ?thesis using insert_mailbox_new [OF _ m] same_worldD(4) by metis
  qed
  obtain y2 r2 where r2: "add_mailboxes env i mbs (y\<lparr>cl_world := w\<rparr>) = (y2, r2)" by fastforce
  then have y2: "y2 = y'" using Cons.prems(1) unfolding a by (cases x; cases r2) (auto simp: bindS_def w retS_def)
  then show ?case using Cons.IH [OF r2 [unfolded y2]] Cons.prems(2) new by auto
qed simp

section \<open>The other commands\<close>

text \<open>\<open>user passwd\<close> sets any password, also one that no log-in accepts.\<close>

theorem passwd_any:
  assumes "ensure_dirs env cfg y = (y, Inr ())" and "cx_Open env (st_DatabasePath (cf_Storage cfg)) = None"
    and "splitEmail email = Some (username, domain)" and "w_faults (cl_world y) = []"
    and "HashPassword (cx_argon2 env) (cx_rand env) p = Inr hash" and "u \<in> set (w_users (cl_world y))" and "named_user username domain (cl_world y) u"
  shows "\<exists>y' ls. userPasswdCmd env cfg email p y = (y', Inr ls) \<and> u\<lparr>u_password_hash := hash\<rparr> \<in> set (w_users (cl_world y'))"
proof -
  let ?w = "cl_world y"
  have n: "length [x \<leftarrow> w_users ?w. named_user username domain ?w x] \<noteq> 0" using assms(6,7) by (auto simp: filter_empty_conv)
  have x: "execE (update_password hash username domain) ?w = (fst (update_password hash username domain ?w), Inr (snd (update_password hash username domain ?w)))"
    using assms(4) by (simp add: execE_def split: prod.split)
  have "u\<lparr>u_password_hash := hash\<rparr> \<in> set (w_users (fst (update_password hash username domain ?w)))" using assms(6,7) by (force simp: update_password_def)
  then show ?thesis using n
    by (simp add: userPasswdCmd_def open_db_def failing_def bindS_def assms(1,2,3,5) liftW_def x retS_def) (simp add: update_password_def)
qed

lemma invalid_password_locked: "Password p \<noteq> None \<Longrightarrow> Authenticate A e p w \<noteq> (w', Inr us)"
  by (auto simp: Authenticate_def bindE_Inr Validate_eqs split: option.splits if_splits)

text \<open>\<open>dns generate\<close> without the address fails, though the address is marked as optional; and it never sets the key that it says it uses.\<close>

lemma dns_generate_needs_ip: "\<exists>e. dnsGenerateCmd cfg domain None = Inl e"
  by (simp add: dnsGenerateCmd_def NewGenerator_def Let_def)

lemma dns_generate_no_key:
  assumes "dnsGenerateCmd cfg domain ip = Inr ls"
  shows "\<exists>g. gn_dkimKey g = None \<and> gn_dkimKeyPEM g = [] \<and> FormatAsZone (GenerateAll g) domain \<in> set ls"
proof -
  obtain g where g: "NewGenerator domain (sc_Hostname (cf_Server cfg)) (case ip of None \<Rightarrow> [] | Some a \<Rightarrow> a) = Inr g"
    "FormatAsZone (GenerateAll g) domain \<in> set ls"
    using assms by (auto simp: dnsGenerateCmd_def Let_def split: sum.splits)
  then have "gn_dkimKey g = None \<and> gn_dkimKeyPEM g = []" by (auto simp: NewGenerator_def split: if_splits)
  with g(2) show ?thesis by blast
qed

text \<open>\<open>domain add\<close> stores the name as it is given: a domain in capital letters is one that no address is found in.\<close>

lemma cli_domain_unnormalised:
  assumes "cli_insert_domain name y = (y', Inr i)" and "ToLower name \<noteq> name"
  shows "\<not> accounts_ok (cl_world y')"
  using assms by (auto simp: cli_insert_domain_def accounts_ok_def domain_name_ok_def Let_def split: prod.splits option.splits if_splits)

end
