(* ===== verification/Spec2Isabelle.thy ===== *)
theory Spec2Isabelle
  imports Circuit_Breaker Redis_Queue Rate_Limiter Greylist Validation Sieve_Exec Delivery Imap_Session Smtp_Session Dav_Server Admin_Safety Main_Program
begin

text \<open>
  A verification development of the mail server \<^verbatim>\<open>fenilsonani/email-server\<close> (Go). Paths are below
  \<^verbatim>\<open>src/internal/\<close>.

  \<^bold>\<open>The program.\<close> Mail from other hosts arrives at the MX server, mail of local users at the submission server
  (\<^verbatim>\<open>smtp/\<close>). A session checks recipients against the accounts (\<^verbatim>\<open>auth/\<close>) and greylisting
  (\<^verbatim>\<open>greylist/\<close>), runs the Sieve script of the user (\<^verbatim>\<open>sieve/\<close>), and stores the message in a
  maildir with its row in SQLite (\<^verbatim>\<open>storage/\<close>), or hands it to the delivery engine (\<^verbatim>\<open>smtp/delivery/\<close>),
  which keeps it in a queue on Redis (\<^verbatim>\<open>queue/\<close>) and sends it through a circuit breaker per domain
  (\<^verbatim>\<open>resilience/\<close>), with bounces for permanent failures. Users read mail over IMAP (\<^verbatim>\<open>imap/\<close>) and
  keep calendars and contacts over HTTP (\<^verbatim>\<open>dav/\<close>). Administrators manage accounts, domains, scripts and the
  queue in a web interface (\<^verbatim>\<open>admin/\<close>) that limits the rate of logins and writes an audit log (\<^verbatim>\<open>audit/\<close>). A
  configuration (\<^verbatim>\<open>config/\<close>) is read and validated at the start; DNS records for a domain are generated and checked
  (\<^verbatim>\<open>dns/\<close>), and mail clients fetch their settings (\<^verbatim>\<open>autodiscover/\<close>). The main program
  (\<^verbatim>\<open>../cmd/mailserver/main.go\<close>) starts and stops all this and has commands for domains and users.

  \<^bold>\<open>The theories.\<close>
  \<^item> \<open>Go_Prelude\<close>, \<open>Go_Path\<close>, \<open>Go_Net\<close>, \<open>Go_Regexp\<close>: strings, paths, addresses, integers, times and regular expressions of Go's
    standard library as far as the sources use them; generic lemmas on them and on lists.
  \<^item> \<open>State_Err\<close>: operations on a state that may fail, and the locale \<open>state_rel\<close> of relations kept by sequencing; it is interpreted
    on the invariants of the components that use it.
  \<^item> \<open>Mail_World\<close>: the tables of accounts, mailboxes and messages, the directories and files, and a script of faults that makes any
    statement or file operation fail.
  \<^item> \<open>Validation\<close> (\<^verbatim>\<open>validation/validation.go\<close>), \<open>Auth\<close> (\<^verbatim>\<open>auth/auth.go\<close>,
    \<^verbatim>\<open>password.go\<close>): input checks, accounts, aliases, passwords.
  \<^item> \<open>Maildir_Store\<close> (\<^verbatim>\<open>storage/maildir/maildir.go\<close>): every operation of the store, refined to an abstract mailbox of
    messages with UIDs.
  \<^item> \<open>Imap_Session\<close> (\<^verbatim>\<open>imap/session.go\<close>, trackers of \<^verbatim>\<open>server.go\<close>): the commands of a session.
  \<^item> \<open>Greylist\<close>, \<open>Rate_Limiter\<close>, \<open>Circuit_Breaker\<close>: the files of the same names; the breaker and greylisting also as step relations
    with interleaved requests.
  \<^item> \<open>Redis_Queue\<close> (\<^verbatim>\<open>queue/redis.go\<close>): every operation over an abstract Redis server, the locale \<open>redis_server\<close>, with an
    implementation in memory that has failing calls.
  \<^item> \<open>Sieve_Parser\<close>, \<open>Sieve_Exec\<close> (\<^verbatim>\<open>sieve/\<close>): tokenizer and parser with their limits, conditions, actions, executor,
    vacation responses, script store.
  \<^item> \<open>Delivery\<close> (\<^verbatim>\<open>smtp/delivery/\<close>): submission by domain, attempts, relay and MX delivery, bounces, worker rounds.
  \<^item> \<open>Smtp_Session\<close> (\<^verbatim>\<open>smtp/backend.go\<close>): sessions on the whole mail system, the composition of accounts, greylisting,
    Sieve, store, engine and queue.
  \<^item> \<open>Dav_Store\<close>, \<open>Dav_Server\<close> (\<^verbatim>\<open>dav/\<close>): the tables of calendars and contacts, and the HTTP server on them with its
    locale \<open>dav_resources\<close>, the contract between the handlers and a backend, interpreted for events and for contacts.
  \<^item> \<open>Go_Http\<close>: responses, redirects and routes of Go's HTTP server.
  \<^item> \<open>Audit_Log\<close> (\<^verbatim>\<open>audit/audit.go\<close>), \<open>Admin_Access\<close> (\<^verbatim>\<open>admin/middleware.go\<close>), \<open>Admin_Server\<close>
    (\<^verbatim>\<open>admin/server.go\<close>, \<^verbatim>\<open>handlers.go\<close>): sessions, CSRF tokens and every handler of the web interface.
    \<open>Admin_Safety\<close> has their theorems, over the locales \<open>admin_reads\<close> and \<open>admin_rel\<close> of relations between the states before and after a
    request, each interpreted on the relations of the theorems.
  \<^item> \<open>Dns_Records\<close> (\<^verbatim>\<open>dns/\<close>): the generator and the checker of DNS records.
  \<^item> \<open>Server_Config\<close> (\<^verbatim>\<open>config/config.go\<close>): the configuration, its validation, and Go's durations.
  \<^item> \<open>Autodiscover\<close> (\<^verbatim>\<open>autodiscover/autodiscover.go\<close>): the settings in three formats, with Go's decoding of UTF-8 and
    escaping of XML, and identifiers computed on words of 64 bits.
  \<^item> \<open>Main_Program\<close> (\<^verbatim>\<open>../cmd/mailserver/main.go\<close>): the start and shutdown of the server as a sequence of events, the
    values it passes to the components, and the commands that change accounts.

  A Go struct is a record with the names of its fields behind a prefix, an operation a function from state to state and result with
  the name of the method. Errors are values of a sum type, every early return is a branch, and a loop is a recursive function.

  \<^bold>\<open>What the theorems show.\<close> End to end: local delivery neither loses nor duplicates mail, an accepted submission is queued, what the MX
  server accepts, which messages a session of IMAP can touch and what it is shown. The store: each operation refines an operation on
  abstract mailboxes under faults at any point, and UIDs are never reused. The queue: no message is lost, the earliest due one is
  taken, the retry policy. Delivery: sent means accepted by a server, no bounce loops, which files are removed. Accounts: who can log
  in, passwords round-trip. Sieve: the parser accepts what is in its limits and terminates, the executor follows the first match.
  Calendars: writes need a login, no lost updates, what was put is got.
  Web interface: changes need the session of an administrator and a token, sessions need a password, every request keeps the
  constraints of the tables, changes of accounts are audited. DNS: what the generator recommends passes the checks. Configuration:
  what validation accepts, in whatever order Go visits a map. Autodiscover: the markup of the Mozilla reply does not depend on the
  request. Main program: what the start acquired is released on every path, and which accounts made on the command line can log in.
  Theorems that state an unwanted behaviour of the code are
  named for it, among them \<open>submission_ignores_login\<close>, \<open>get_ignores_owner\<close>, \<open>caldav_alias_forbidden\<close>, \<open>expunge_silent\<close>,
  \<open>dotdot_deletes_all\<close>, \<open>open_breaker_never_recovers\<close>, \<open>shared_file_lost\<close>, \<open>half_open_limit_exceeded\<close>, \<open>stop_has_no_effect\<close>,
  \<open>microsoft_unescaped\<close>, \<open>uuid_collision\<close>, \<open>dns_generate_needs_ip\<close>.

  \<^bold>\<open>Conventions and bounds.\<close> Time is an integer of nanoseconds passed to an operation; randomness, temporary names and the order in
  which Go ranges over a map are arguments. Strings are byte strings. Integers are unbounded where the code cannot overflow them; UIDs
  are bounded to 32 bits by a theorem, and scores in Redis are rounded as float64. The tokenizer of Sieve has the iteration limit of
  the source, and a theorem shows that it never decides; every other recursion is structural or has a measure. Functions that are not
  in the repository are arguments with a named contract: \<open>argon2\<close> (\<open>argon2_ok\<close>), the new part of a maildir (\<open>maildir_lib\<close>), Redis
  (\<open>redis_server\<close>), DNS, remote servers and DKIM signing (arguments without a contract).

  \<^bold>\<open>Not modelled.\<close> Listeners, TLS, time limits and goroutines around the operations; logging and metrics, which nothing reads; the
  interactive setup and its probes of the host, which are terminal, file and network access; the templates of the pages of the web
  interface, of which the model has the values; the message parser of the store, a client of Go's mail packages that no modelled
  operation calls; opening and migrating the database, whose constraints are the invariants of the tables here; TLS
  certificates and DKIM signing, wrappers of libraries; the commands of the main program that only print lists.
\<close>

end
